(* ===== verification/Prelude.thy ===== *)
theory Prelude
  imports Main "HOL-Library.Word" "HOL-Library.Monad_Syntax"
begin

text \<open>
  Shared vocabulary of the development.

  \<^item> The widths of Rust's integers as word types. The workspace is built with
    \<open>overflow-checks = false\<close> (\<open>src/Cargo.toml\<close>), so \<open>+\<close>, \<open>-\<close> and \<open>*\<close> wrap exactly as the
    word operations do.
  \<^item> Panics. A panic aborts the process (\<open>panic = "abort"\<close>), so an operation that can panic has
    an \<open>option\<close> result and \<^const>\<open>None\<close> is the panic; \<open>Err\<close> values of a \<open>Result\<close> are the left
    side of a sum and keep the state the operation has reached.
  \<^item> Checked indexing of arrays and vectors, the bit-scan instructions of \<open>core\<close>, and lists
    threaded through index arrays (singly and doubly linked).
\<close>

section \<open>Integers\<close>

type_synonym u8 = "8 word"
type_synonym u16 = "16 word"
type_synonym u32 = "32 word"
type_synonym u64 = "64 word"

unbundle bit_operations_syntax

named_theorems index_simps \<open>reading and writing arrays by a checked index\<close>
named_theorems scan_simps \<open>evaluation of bit scans on numerals\<close>
named_theorems linked_simps \<open>linked lists under updates of their link fields\<close>

section \<open>Panics\<close>

text \<open>\<open>assert\<close> is Rust's \<open>assert!\<close>: it panics when the condition is false.\<close>

definition assert :: "bool \<Rightarrow> unit option" where
  "assert b = (if b then Some () else None)"

lemma assert_bind_Some [simp]:
  "(Option.bind (assert b) f = Some r) \<longleftrightarrow> b \<and> f () = Some r"
  by (simp add: assert_def)

lemma assert_True [simp]: "Option.bind (assert True) f = f ()"
  by (simp add: assert_def)

section \<open>Checked indexing\<close>

text \<open>\<open>xs[i]\<close> on a slice, an array or a \<open>Vec\<close> panics when \<open>i\<close> is out of range.\<close>

definition get :: "'a list \<Rightarrow> nat \<Rightarrow> 'a option" where
  "get xs i = (if i < length xs then Some (xs ! i) else None)"

definition put :: "'a list \<Rightarrow> nat \<Rightarrow> 'a \<Rightarrow> 'a list option" where
  "put xs i v = (if i < length xs then Some (xs[i := v]) else None)"

lemma get_Some_iff [index_simps]: "get xs i = Some v \<longleftrightarrow> i < length xs \<and> xs ! i = v"
  by (auto simp: get_def)

lemma put_Some_iff [index_simps]: "put xs i v = Some ys \<longleftrightarrow> i < length xs \<and> ys = xs[i := v]"
  by (auto simp: put_def)

lemma get_lt [simp]: "i < length xs \<Longrightarrow> get xs i = Some (xs ! i)"
  by (simp add: get_def)

lemma put_lt [simp]: "i < length xs \<Longrightarrow> put xs i v = Some (xs[i := v])"
  by (simp add: put_def)

lemma get_ge [simp]: "length xs \<le> i \<Longrightarrow> get xs i = None"
  by (simp add: get_def)

lemma put_ge [simp]: "length xs \<le> i \<Longrightarrow> put xs i v = None"
  by (simp add: put_def)

section \<open>Bit scans and shifts\<close>

text \<open>
  \<open>u32::leading_zeros\<close> and \<open>trailing_zeros\<close> count from the top and from the bottom; both are the
  width on zero. A shift by at least the width would panic in a checked build and uses the
  amount modulo the width here.
\<close>

fun clz_from :: "nat \<Rightarrow> 'a::len word \<Rightarrow> nat" where
  "clz_from 0 w = 0"
| "clz_from (Suc i) w = (if bit w i then 0 else Suc (clz_from i w))"

definition leading_zeros :: "'a::len word \<Rightarrow> u32" where
  "leading_zeros w = of_nat (clz_from LENGTH('a) w)"

fun ctz_from :: "nat \<Rightarrow> nat \<Rightarrow> 'a::len word \<Rightarrow> nat" where
  "ctz_from 0 i w = 0"
| "ctz_from (Suc r) i w = (if bit w i then 0 else Suc (ctz_from r (Suc i) w))"

definition trailing_zeros :: "'a::len word \<Rightarrow> u32" where
  "trailing_zeros w = of_nat (ctz_from LENGTH('a) 0 w)"

definition shl :: "'a::len word \<Rightarrow> u32 \<Rightarrow> 'a word" where
  "shl w n = push_bit (unat n mod LENGTH('a)) w"

definition shr :: "'a::len word \<Rightarrow> u32 \<Rightarrow> 'a word" where
  "shr w n = drop_bit (unat n mod LENGTH('a)) w"

lemma clz_from_numeral [scan_simps]:
  "clz_from (numeral k) w =
     (if bit w (pred_numeral k) then 0 else Suc (clz_from (pred_numeral k) w))"
  by (simp add: numeral_eq_Suc)

lemma ctz_from_numeral [scan_simps]:
  "ctz_from (numeral k) i w = (if bit w i then 0 else Suc (ctz_from (pred_numeral k) (Suc i) w))"
  by (simp add: numeral_eq_Suc)

lemma unat_drop_bit_div: "unat (drop_bit n w) = unat w div 2 ^ n"
  by (simp add: unat_drop_bit_eq flip: drop_bit_eq_div)

lemma unat_take_bit_mod: "unat (take_bit n w) = unat w mod 2 ^ n"
  by (simp add: unsigned_take_bit_eq flip: take_bit_eq_mod)

lemma bit_top_iff:
  fixes w :: "'a::len word"
  assumes "unat w < 2 ^ Suc i"
  shows "bit w i \<longleftrightarrow> 2 ^ i \<le> unat w"
proof -
  have "bit w i \<longleftrightarrow> odd (unat w div 2 ^ i)"
    by (simp add: bit_unsigned_iff flip: bit_iff_odd)
  moreover have "unat w div 2 ^ i < 2"
    using assms by (simp add: less_mult_imp_div_less)
  ultimately show ?thesis
    by (metis Suc_1 div_less even_zero less_2_cases_iff not_less odd_one One_nat_def
        div_greater_zero_iff neq0_conv zero_less_numeral zero_less_power)
qed

lemma clz_from_bounds:
  fixes w :: "'a::len word"
  assumes "w \<noteq> 0" and "unat w < 2 ^ i"
  shows "clz_from i w < i \<and> 2 ^ (i - 1 - clz_from i w) \<le> unat w \<and> unat w < 2 ^ (i - clz_from i w)"
  using assms
proof (induction i)
  case 0
  then show ?case by (simp add: unat_eq_zero)
next
  case (Suc i)
  show ?case
  proof (cases "bit w i")
    case True
    with Suc.prems show ?thesis by (simp add: bit_top_iff)
  next
    case False
    with Suc.prems have "unat w < 2 ^ i" by (simp add: bit_top_iff)
    with Suc.IH Suc.prems have IH: "clz_from i w < i" "2 ^ (i - 1 - clz_from i w) \<le> unat w"
      "unat w < 2 ^ (i - clz_from i w)" by simp_all
    with False show ?thesis by simp
  qed
qed

lemma ctz_from_first:
  fixes w :: "'a::len word"
  assumes "bit w j" and "i \<le> j" and "j < i + r"
  shows "bit w (i + ctz_from r i w) \<and> ctz_from r i w < r
    \<and> (\<forall>k. i \<le> k \<longrightarrow> k < i + ctz_from r i w \<longrightarrow> \<not> bit w k)"
  using assms
proof (induction r arbitrary: i)
  case 0
  then show ?case by simp
next
  case (Suc r)
  show ?case
  proof (cases "bit w i")
    case True
    then show ?thesis by simp
  next
    case False
    with Suc.prems have "Suc i \<le> j" and "j < Suc i + r"
      by (auto simp: le_less Suc_le_eq)
    note Suc.IH [OF Suc.prems(1) this]
    then have IH: "bit w (Suc i + ctz_from r (Suc i) w)" "ctz_from r (Suc i) w < r"
      "\<And>k. Suc i \<le> k \<Longrightarrow> k < Suc i + ctz_from r (Suc i) w \<Longrightarrow> \<not> bit w k" by blast+
    have "\<not> bit w k" if "i \<le> k" "k < Suc i + ctz_from r (Suc i) w" for k
      using that False IH(3) [of k] by (cases "k = i") auto
    with False IH(1,2) show ?thesis by auto
  qed
qed

lemma ctz_from_le: "ctz_from r i w \<le> r"
  by (induction r arbitrary: i) auto

section \<open>Lists threaded through link fields\<close>

text \<open>
  \<open>linked pv nx p xs q\<close>: the elements of \<open>xs\<close> are doubly linked in order by the link fields
  \<open>pv\<close> and \<open>nx\<close>; the first element points back to \<open>p\<close> and the last one forward to \<open>q\<close>.
\<close>

definition first_of :: "'a list \<Rightarrow> 'a option \<Rightarrow> 'a option" where
  "first_of xs q = (if xs = [] then q else Some (hd xs))"

definition last_of :: "'a option \<Rightarrow> 'a list \<Rightarrow> 'a option" where
  "last_of p xs = (if xs = [] then p else Some (last xs))"

fun linked :: "('a \<Rightarrow> 'a option) \<Rightarrow> ('a \<Rightarrow> 'a option) \<Rightarrow> 'a option \<Rightarrow> 'a list \<Rightarrow> 'a option \<Rightarrow> bool" where
  "linked pv nx p [] q \<longleftrightarrow> True"
| "linked pv nx p (x # xs) q \<longleftrightarrow> pv x = p \<and> nx x = first_of xs q \<and> linked pv nx (Some x) xs q"

lemma first_of_simps [simp]:
  "first_of [] q = q" "first_of (x # xs) q = Some x"
  "first_of (xs @ ys) q = first_of xs (first_of ys q)"
  by (simp_all add: first_of_def)

lemma last_of_simps [simp]:
  "last_of p [] = p" "last_of p (x # xs) = last_of (Some x) xs"
  "last_of p (xs @ ys) = last_of (last_of p xs) ys"
  by (simp_all add: last_of_def)

lemma linked_append [simp]:
  "linked pv nx p (xs @ ys) q \<longleftrightarrow>
     linked pv nx p xs (first_of ys q) \<and> linked pv nx (last_of p xs) ys q"
  by (induction xs arbitrary: p) auto

lemma linked_cong:
  assumes "\<And>x. x \<in> set xs \<Longrightarrow> pv' x = pv x \<and> nx' x = nx x" and "linked pv nx p xs q"
  shows "linked pv' nx' p xs q"
  using assms by (induction xs arbitrary: p) auto

lemma linked_first:
  assumes "linked pv nx p xs q" and "\<And>x. x \<in> set xs \<Longrightarrow> nx' x = nx x"
    and "\<And>x. x \<in> set xs \<Longrightarrow> pv' x = (if x = hd xs then p' else pv x)" and "distinct xs"
  shows "linked pv' nx' p' xs q"
proof (cases xs)
  case (Cons y ys)
  with assms(4) have "hd xs = y" "y \<notin> set ys" by auto
  with assms Cons show ?thesis
    by (auto intro!: linked_cong [of ys pv' pv nx' nx])
qed simp

lemma linked_last:
  assumes "linked pv nx p xs q" and "\<And>x. x \<in> set xs \<Longrightarrow> pv' x = pv x"
    and "\<And>x. x \<in> set xs \<Longrightarrow> nx' x = (if x = last xs then q' else nx x)" and "distinct xs"
  shows "linked pv' nx' p xs q'"
proof (cases xs rule: rev_cases)
  case (snoc ys y)
  with assms(4) have "last xs = y" "y \<notin> set ys" by auto
  with assms snoc show ?thesis
    by (auto intro!: linked_cong [of ys pv' pv nx' nx])
qed simp

lemma linked_split:
  assumes "linked pv nx p xs q" and "x \<in> set xs" and "distinct xs"
  obtains as bs where "xs = as @ x # bs" and "pv x = last_of p as" and "nx x = first_of bs q"
    and "x \<notin> set as" and "x \<notin> set bs"
proof -
  from assms(2) obtain as bs where "xs = as @ x # bs" by (meson split_list)
  with assms that show thesis by auto
qed

lemma last_of_None_iff [simp]: "last_of None xs = None \<longleftrightarrow> xs = []"
  by (simp add: last_of_def)

lemma first_of_None_iff [simp]: "first_of xs None = None \<longleftrightarrow> xs = []"
  by (simp add: first_of_def)

lemma last_of_SomeD: "last_of None xs = Some y \<Longrightarrow> \<exists>as. xs = as @ [y]"
  by (cases xs rule: rev_cases) (auto simp: last_of_def)

lemma first_of_SomeD: "first_of xs None = Some y \<Longrightarrow> \<exists>bs. xs = y # bs"
  by (cases xs) (auto simp: first_of_def)

section \<open>Ranges of words\<close>

lemma unat_u32_lt: "unat (x :: u32) < 2 ^ 32"
proof -
  have "unat x < 2 ^ LENGTH(32)" by (rule unsigned_less)
  then show ?thesis by simp
qed

lemma unat_u8_lt: "unat (x :: u8) < 2 ^ 8"
proof -
  have "unat x < 2 ^ LENGTH(8)" by (rule unsigned_less)
  then show ?thesis by simp
qed

lemma unat_u16_lt: "unat (x :: u16) < 2 ^ 16"
proof -
  have "unat x < 2 ^ LENGTH(16)" by (rule unsigned_less)
  then show ?thesis by simp
qed

lemma unat_u64_lt: "unat (x :: u64) < 2 ^ 64"
proof -
  have "unat x < 2 ^ LENGTH(64)" by (rule unsigned_less)
  then show ?thesis by simp
qed

lemma unat_ucast_up:
  assumes "LENGTH('a) \<le> LENGTH('b)"
  shows "unat (ucast (x :: 'a::len word) :: 'b::len word) = unat x"
proof -
  have "unat x < 2 ^ LENGTH('a)" by (rule unsigned_less)
  also have "(2 :: nat) ^ LENGTH('a) \<le> 2 ^ LENGTH('b)" using assms by (intro power_increasing) simp_all
  finally show ?thesis by (simp add: unsigned_ucast_eq take_bit_eq_mod)
qed

lemma unat_add_lt:
  "unat a + unat b < 2 ^ LENGTH('a) \<Longrightarrow> unat (a + b :: 'a::len word) = unat a + unat b"
  by (simp add: unat_word_ariths)

lemma unat_mult_lt:
  "unat a * unat b < 2 ^ LENGTH('a) \<Longrightarrow> unat (a * b :: 'a::len word) = unat a * unat b"
  by (simp add: unat_word_ariths)

lemma unat_of_nat_u32: "m < 2 ^ 32 \<Longrightarrow> unat (of_nat m :: u32) = m"
  by (simp add: unat_of_nat)

lemma unat_of_nat_less [simp]:
  assumes "i < unat (n :: 'a::len word)"
  shows "unat (of_nat i :: 'a word) = i"
proof -
  have "unat n < 2 ^ LENGTH('a)" by (rule unsigned_less)
  with assms have "i < 2 ^ LENGTH('a)" by (rule order.strict_trans)
  then show ?thesis by (simp add: unat_of_nat)
qed

lemma inj_of_nat_word: "inj_on (of_nat :: nat \<Rightarrow> 'a::len word) {0..<unat (n :: 'a word)}"
  by (rule inj_onI) (metis atLeastLessThan_iff unat_of_nat_less)

lemma range_of_nat_word: "of_nat ` {0..<unat (n :: 'a word)} = {i :: 'a::len word. unat i < unat n}"
proof (intro set_eqI iffI)
  fix i :: "'a word" assume "i \<in> {i. unat i < unat n}"
  then have "unat i \<in> {0..<unat n}" "i = of_nat (unat i)" by simp_all
  then show "i \<in> of_nat ` {0..<unat n}" by blast
qed auto

lemma bit_word_odd: "bit (w :: 'a::len word) k \<longleftrightarrow> odd (unat w div 2 ^ k)"
proof -
  have "bit (unat w) k = bit w k" by (simp add: bit_unsigned_iff)
  then show ?thesis by (simp add: bit_iff_odd)
qed

lemma bit_top_of:
  assumes "2 ^ k \<le> unat w" and "unat w < 2 ^ (k + 1)"
  shows "bit w k"
proof -
  have "unat w div 2 ^ k = 1" using assms by (intro div_nat_eqI) simp_all
  then show ?thesis by (simp add: bit_word_odd)
qed

end
