(* ===== verification/Small_Float.thy ===== *)
theory Small_Float
  imports Prelude
begin

text \<open>
  The 8-bit floating point numbers that index the bins of the offset allocator
  (\<open>src/util/offset-allocator/src/small_float.rs\<close> and \<open>ext.rs\<close>): three bits of mantissa, five of
  exponent, a hidden leading one. The lemmas give the value of each conversion as arithmetic on
  naturals, the rounding bounds, the round trips, and the ordering law the allocator relies on:
  a region filed under a bin that is at least the rounded-up request is large enough.
\<close>

section \<open>Conversions\<close>

definition MANTISSA_BITS :: u32 where "MANTISSA_BITS = 3"
definition MANTISSA_VALUE :: u32 where "MANTISSA_VALUE = shl 1 MANTISSA_BITS"
definition MANTISSA_MASK :: u32 where "MANTISSA_MASK = MANTISSA_VALUE - 1"

definition uint_to_float_round_up :: "u32 \<Rightarrow> u32" where
  "uint_to_float_round_up sz =
     (let (exp, mantissa) =
        (if sz < MANTISSA_VALUE then (0, sz)
         else
           let highest_set_bit = 31 - leading_zeros sz;
               mantissa_start_bit = highest_set_bit - MANTISSA_BITS;
               exp = mantissa_start_bit + 1;
               mantissa = shr sz mantissa_start_bit AND MANTISSA_MASK;
               low_bits_mask = shl 1 mantissa_start_bit - 1
           in (exp, if sz AND low_bits_mask \<noteq> 0 then mantissa + 1 else mantissa))
      in shl exp MANTISSA_BITS + mantissa)"

definition uint_to_float_round_down :: "u32 \<Rightarrow> u32" where
  "uint_to_float_round_down sz =
     (let (exp, mantissa) =
        (if sz < MANTISSA_VALUE then (0, sz)
         else
           let highest_set_bit = 31 - leading_zeros sz;
               mantissa_start_bit = highest_set_bit - MANTISSA_BITS;
               exp = mantissa_start_bit + 1
           in (exp, shr sz mantissa_start_bit AND MANTISSA_MASK))
      in shl exp MANTISSA_BITS OR mantissa)"

definition float_to_uint :: "u32 \<Rightarrow> u32" where
  "float_to_uint float_value =
     (let exponent = shr float_value MANTISSA_BITS;
          mantissa = float_value AND MANTISSA_MASK
      in if exponent = 0 then mantissa
         else shl (mantissa OR MANTISSA_VALUE) (exponent - 1))"

definition min_allocator_size :: "u32 \<Rightarrow> u32" where
  "min_allocator_size needed_object_size = float_to_uint (uint_to_float_round_up needed_object_size)"

section \<open>Values as arithmetic on naturals\<close>

text \<open>
  \<open>expo n e\<close> says that \<open>e\<close> is the shift that brings \<open>n\<close> to four significant bits.
\<close>

definition expo :: "nat \<Rightarrow> nat \<Rightarrow> bool" where
  "expo n e \<longleftrightarrow> n div 2 ^ e < 16 \<and> (e = 0 \<or> 8 \<le> n div 2 ^ e)"

definition ceil_shift :: "nat \<Rightarrow> nat \<Rightarrow> nat" where
  "ceil_shift n e = n div 2 ^ e + (if n mod 2 ^ e = 0 then 0 else 1)"

lemmas mantissa_defs = MANTISSA_BITS_def MANTISSA_VALUE_def MANTISSA_MASK_def

lemma mantissa_simps [simp]:
  "MANTISSA_BITS = 3" "MANTISSA_VALUE = 8" "MANTISSA_MASK = 7"
  by (simp_all add: mantissa_defs shl_def)

lemmas small_float_eval =
  uint_to_float_round_up_def uint_to_float_round_down_def float_to_uint_def leading_zeros_def
  shl_def shr_def scan_simps

lemma shl_3: "shl (w :: u32) 3 = push_bit 3 w"
  by (simp add: shl_def)

lemma shr_3: "shr (w :: u32) 3 = drop_bit 3 w"
  by (simp add: shr_def)

lemma shl_of_nat: "e < 32 \<Longrightarrow> shl (w :: u32) (of_nat e) = push_bit e w"
  by (simp add: shl_def unat_of_nat take_bit_eq_mod)

lemma shr_of_nat: "e < 32 \<Longrightarrow> shr (w :: u32) (of_nat e) = drop_bit e w"
  by (simp add: shr_def unat_of_nat take_bit_eq_mod)

lemma top_bit_u32:
  fixes w :: u32
  assumes "8 \<le> unat w"
  obtains e where "leading_zeros w = 28 - of_nat e" and "e \<le> 28" and "expo (unat w) e"
    and "8 \<le> unat w div 2 ^ e"
proof -
  have "w \<noteq> 0" using assms by auto
  moreover have "unat w < 2 ^ 32" using unsigned_less [of w] by simp
  ultimately have b: "clz_from 32 w < 32" "2 ^ (31 - clz_from 32 w) \<le> unat w"
    "unat w < 2 ^ (32 - clz_from 32 w)"
    using clz_from_bounds [of w 32] by auto
  define k where "k = 31 - clz_from 32 w"
  have k: "2 ^ k \<le> unat w" "unat w < 2 ^ Suc k" "k \<le> 31" and c: "clz_from 32 w = 31 - k"
    using b by (simp_all add: k_def flip: power_Suc Suc_diff_le)
  have "3 \<le> k"
  proof (rule ccontr)
    assume "\<not> 3 \<le> k"
    then have "(2::nat) ^ Suc k \<le> 2 ^ 3" by (intro power_increasing) simp_all
    with k assms show False by simp
  qed
  define e where "e = k - 3"
  have ke: "k = e + 3" using \<open>3 \<le> k\<close> by (simp add: e_def)
  have "leading_zeros w = 28 - of_nat e"
    using c k(3) by (simp add: leading_zeros_def ke of_nat_diff)
  moreover have "8 \<le> unat w div 2 ^ e"
    using k(1) by (simp add: ke less_eq_div_iff_mult_less_eq power_add)
  moreover have "unat w div 2 ^ e < 16"
    using k(2) by (simp add: ke less_mult_imp_div_less power_add)
  ultimately show thesis
    using that [of e] k(3) by (simp add: ke expo_def)
qed

lemma push_or_disjoint:
  fixes a b :: "'a::len word"
  assumes "unat b < 2 ^ n"
  shows "push_bit n a OR b = push_bit n a + b"
proof -
  have "\<not> bit b i" if "n \<le> i" for i
  proof -
    have "unat b div 2 ^ i = 0"
      using assms that by (meson div_less le_less_trans not_less power_increasing_iff one_less_numeral_iff semiring_norm(76) less_le_trans)
    then have "\<not> bit (unat b) i" by (simp add: bit_iff_odd)
    then show ?thesis by (simp add: bit_unsigned_iff)
  qed
  then show ?thesis
    by (intro disjunctive_add [symmetric]) (auto simp: bit_push_bit_iff not_le)
qed

lemma unat_and_mask3: "unat ((w :: u32) AND 7) = unat w mod 8"
proof -
  have "w AND 7 = take_bit 3 w" by (simp add: take_bit_eq_mask mask_eq_exp_minus_1)
  then show ?thesis by (simp add: unat_take_bit_mod)
qed

lemma low_bits_zero_iff:
  fixes w :: u32
  assumes "e < 32"
  shows "w AND (push_bit e 1 - 1) = 0 \<longleftrightarrow> unat w mod 2 ^ e = 0"
proof -
  have "w AND (push_bit e 1 - 1) = take_bit e w"
    by (simp add: take_bit_eq_mask mask_eq_exp_minus_1 push_bit_eq_mult)
  then show ?thesis by (metis unat_take_bit_mod unat_eq_zero)
qed

lemma expo_small: "n < 16 \<Longrightarrow> expo n 0"
  by (simp add: expo_def)

lemma unat_8: "unat (w :: u32) < 8 \<longleftrightarrow> w < 8"
  by (simp add: word_less_nat_alt)

lemma div_lt16_mod8:
  assumes "(8::nat) \<le> d" and "d < 16"
  shows "8 * Suc e + d mod 8 = 8 * e + d"
proof -
  have "d mod 8 = d - 8" using assms by (simp add: le_mod_geq)
  then show ?thesis using assms by simp
qed

lemma unat_shl3:
  assumes "e \<le> 31"
  shows "unat (push_bit 3 (of_nat e :: u32)) = 8 * e"
proof -
  have "push_bit 3 (of_nat e :: u32) = of_nat (8 * e)"
    by (simp add: push_bit_eq_mult mult.commute)
  then show ?thesis
    using assms by (simp only: unat_of_nat take_bit_eq_mod) (simp add: take_bit_eq_mod)
qed

lemma unat_round_down:
  obtains e where "e \<le> 28" and "expo (unat s) e"
    and "unat (uint_to_float_round_down s) = 8 * e + unat s div 2 ^ e"
proof (cases "s < 8")
  case True
  then have "unat s < 8" by (simp add: unat_8)
  with True show thesis
    by (intro that [of 0]) (simp_all add: expo_def uint_to_float_round_down_def shl_def)
next
  case False
  then have "8 \<le> unat s" by (simp add: not_less [symmetric] unat_8)
  then obtain e where e: "leading_zeros s = 28 - of_nat e" "e \<le> 28" "expo (unat s) e"
    "8 \<le> unat s div 2 ^ e" by (rule top_bit_u32)
  have u: "unat (of_nat e :: u32) = e" using e(2) by (simp add: unat_of_nat take_bit_eq_mod)
  let ?m = "drop_bit e s AND 7"
  have m: "unat ?m = unat s div 2 ^ e mod 8"
    unfolding unat_and_mask3 by (simp only: unat_drop_bit_div)
  have "uint_to_float_round_down s = push_bit 3 (of_nat (Suc e)) OR ?m"
    using False e(2) u
    by (simp add: uint_to_float_round_down_def Let_def shl_3 shr_def e(1) add.commute)
  also have "\<dots> = push_bit 3 (of_nat (Suc e)) + ?m"
    by (rule push_or_disjoint) (simp add: m)
  finally have eq: "uint_to_float_round_down s = push_bit 3 (of_nat (Suc e)) + ?m" .
  have p: "unat (push_bit 3 (of_nat (Suc e) :: u32)) = 8 * Suc e"
    using e(2) by (intro unat_shl3) simp
  have "unat (uint_to_float_round_down s) = 8 * Suc e + unat s div 2 ^ e mod 8"
    unfolding eq using e(2) p m by (subst unat_add_lem [THEN iffD1]) (auto intro: order_le_less_trans [of _ "8 * Suc e + 8"])
  with e show thesis
    by (intro that [of e]) (use div_lt16_mod8 [of "unat s div 2 ^ e" e] in \<open>simp_all add: expo_def\<close>)
qed

lemma unat_round_up:
  obtains e where "e \<le> 28" and "expo (unat s) e"
    and "unat (uint_to_float_round_up s) = 8 * e + ceil_shift (unat s) e"
proof (cases "s < 8")
  case True
  then have "unat s < 8" by (simp add: unat_8)
  with True show thesis
    by (intro that [of 0])
       (simp_all add: expo_def ceil_shift_def uint_to_float_round_up_def shl_def)
next
  case False
  then have "8 \<le> unat s" by (simp add: not_less [symmetric] unat_8)
  then obtain e where e: "leading_zeros s = 28 - of_nat e" "e \<le> 28" "expo (unat s) e"
    "8 \<le> unat s div 2 ^ e" by (rule top_bit_u32)
  have u: "unat (of_nat e :: u32) = e" using e(2) by (simp add: unat_of_nat take_bit_eq_mod)
  let ?m = "drop_bit e s AND 7"
  let ?r = "if unat s mod 2 ^ e = 0 then 0 else 1 :: nat"
  have m: "unat ?m = unat s div 2 ^ e mod 8"
    unfolding unat_and_mask3 by (simp only: unat_drop_bit_div)
  have p: "push_bit 3 (of_nat (Suc e) :: u32) = of_nat (8 * Suc e)"
    by (simp add: push_bit_eq_mult algebra_simps)
  have z: "s AND (push_bit e 1 - 1) = 0 \<longleftrightarrow> unat s mod 2 ^ e = 0"
    using e(2) by (intro low_bits_zero_iff) simp
  have "uint_to_float_round_up s
      = push_bit 3 (of_nat (Suc e)) + (?m + (if unat s mod 2 ^ e = 0 then 0 else 1))"
    using False e(2) u z
    by (simp add: uint_to_float_round_up_def Let_def shl_3 shr_of_nat shl_of_nat e(1) add.commute)
  also have "\<dots> = of_nat (8 * Suc e + unat s div 2 ^ e mod 8 + ?r)"
    unfolding p m [symmetric] by simp
  finally have "unat (uint_to_float_round_up s) = 8 * Suc e + unat s div 2 ^ e mod 8 + ?r"
    using e(2) mod_less_divisor [of 8 "unat s div 2 ^ e"]
    by (simp only: unat_of_nat take_bit_eq_mod) simp
  with e show thesis
    by (intro that [of e])
       (use div_lt16_mod8 [of "unat s div 2 ^ e" e] in \<open>simp_all add: expo_def ceil_shift_def\<close>)
qed

lemma unat_float_to_uint:
  assumes f: "unat f = 8 * e + d" and d: "d < 16" "e = 0 \<or> 8 \<le> d" and e: "e \<le> 28"
  shows "unat (float_to_uint f) = d * 2 ^ e"
proof (cases "8 \<le> d")
  case False
  with d f have "unat f = d" and "d < 8" and "e = 0" by auto
  then have "drop_bit 3 f = 0"
    by (simp add: unat_drop_bit_div flip: unat_eq_zero)
  then show ?thesis
    using \<open>unat f = d\<close> \<open>d < 8\<close> \<open>e = 0\<close>
    by (simp add: float_to_uint_def shr_3 unat_and_mask3)
next
  case True
  let ?m = "f AND 7"
  have fd: "unat f div 8 = Suc e" "unat f mod 8 = d - 8"
    using True d f by (auto simp: le_mod_geq)
  have x: "unat (drop_bit 3 f) = Suc e" using fd by (simp add: unat_drop_bit_div)
  have "drop_bit 3 f = of_nat (unat (drop_bit 3 f))" by simp
  then have ex: "drop_bit 3 f \<noteq> 0" "drop_bit 3 f = of_nat e + 1"
    using x by (auto simp: add.commute simp flip: unat_eq_zero)
  have m: "unat ?m = d - 8" by (simp add: unat_and_mask3 fd)
  have "?m OR 8 = push_bit 3 1 OR ?m" by (simp add: or.commute push_bit_eq_mult)
  also have "\<dots> = 8 + ?m" using d m by (subst push_or_disjoint) (simp_all add: push_bit_eq_mult)
  finally have mo: "?m OR 8 = of_nat d"
    using True by (simp add: word_unat_eq_iff unat_word_ariths m unat_of_nat)
  have u: "unat (of_nat e :: u32) = e" using e by (simp add: unat_of_nat take_bit_eq_mod)
  have "float_to_uint f = push_bit e (of_nat d)"
    using ex mo e by (simp add: float_to_uint_def shr_3 shl_of_nat del: push_bit_or push_bit_and)
  also have "\<dots> = of_nat (d * 2 ^ e)" by (simp add: push_bit_eq_mult)
  finally have eq: "float_to_uint f = of_nat (d * 2 ^ e)" .
  have "d * 2 ^ e \<le> 15 * 2 ^ 28"
    using d e by (intro mult_le_mono power_increasing) auto
  then show ?thesis unfolding eq
    by (simp only: unat_of_nat take_bit_eq_mod) simp
qed

section \<open>Rounding, order and round trips\<close>

lemma expo_lt: "expo n e \<Longrightarrow> n < 16 * 2 ^ e"
  by (simp add: expo_def div_less_iff_less_mult)

lemma expo_ge: "expo n e \<Longrightarrow> 0 < e \<Longrightarrow> 8 * 2 ^ e \<le> n"
  by (simp add: expo_def less_eq_div_iff_mult_less_eq)

lemma ceil_shift_upper: "n \<le> ceil_shift n e * 2 ^ e"
proof -
  have n: "n div 2 ^ e * 2 ^ e + n mod 2 ^ e = n" by (rule div_mult_mod_eq)
  have "n mod 2 ^ e < 2 ^ e" by simp
  with n have "n \<le> n div 2 ^ e * 2 ^ e + 2 ^ e" by linarith
  then show ?thesis using n by (auto simp: ceil_shift_def add_mult_distrib)
qed

lemma ceil_shift_lower: "ceil_shift n e * 2 ^ e < n + 2 ^ e"
proof -
  have n: "n div 2 ^ e * 2 ^ e + n mod 2 ^ e = n" by (rule div_mult_mod_eq)
  have p: "(0::nat) < 2 ^ e" by simp
  show ?thesis
  proof (cases "n mod 2 ^ e = 0")
    case True
    with n p show ?thesis by (simp add: ceil_shift_def)
  next
    case False
    with n have "n div 2 ^ e * 2 ^ e < n" by linarith
    with False show ?thesis by (simp add: ceil_shift_def add_mult_distrib)
  qed
qed

lemma ceil_shift_le: "expo n e \<Longrightarrow> ceil_shift n e \<le> 16"
  by (auto simp: ceil_shift_def expo_def)

lemma ceil_shift_ge: "n div 2 ^ e \<le> ceil_shift n e"
  by (simp add: ceil_shift_def)

lemma expo_unique:
  assumes "expo n a" and "expo n b"
  shows "a = b"
proof (rule ccontr)
  assume "a \<noteq> b"
  then consider "a < b" | "b < a" by linarith
  then show False
  proof cases
    case 1
    then have "(2::nat) ^ (a + 1) \<le> 2 ^ b" by (intro power_increasing) simp_all
    with expo_lt [OF assms(1)] expo_ge [OF assms(2)] 1 show False by simp
  next
    case 2
    then have "(2::nat) ^ (b + 1) \<le> 2 ^ a" by (intro power_increasing) simp_all
    with expo_lt [OF assms(2)] expo_ge [OF assms(1)] 2 show False by simp
  qed
qed

lemma round_down_lt_240: "unat (uint_to_float_round_down s) < 240"
proof -
  obtain e where "e \<le> 28" "expo (unat s) e"
    "unat (uint_to_float_round_down s) = 8 * e + unat s div 2 ^ e" by (rule unat_round_down)
  then show ?thesis by (simp add: expo_def)
qed

lemma round_up_le_240: "unat (uint_to_float_round_up s) \<le> 240"
proof -
  obtain e where "e \<le> 28" "expo (unat s) e"
    "unat (uint_to_float_round_up s) = 8 * e + ceil_shift (unat s) e" by (rule unat_round_up)
  then show ?thesis using ceil_shift_le [of "unat s" e] by simp
qed

lemma expo_order:
  assumes "expo m e" and "expo n e'" and "8 * e + ceil_shift m e \<le> 8 * e' + n div 2 ^ e'"
  shows "m \<le> n"
proof (cases e e' rule: linorder_cases)
  case less
  then have "(2::nat) ^ (e + 1) \<le> 2 ^ e'" by (intro power_increasing) simp_all
  with expo_lt [OF assms(1)] expo_ge [OF assms(2)] less show ?thesis by simp
next
  case equal
  then have "ceil_shift m e * 2 ^ e \<le> (n div 2 ^ e) * 2 ^ e" using assms(3) by simp
  also have "\<dots> \<le> n" by simp
  finally show ?thesis using ceil_shift_upper [of m e] by simp
next
  case greater
  then have "8 \<le> ceil_shift m e"
    using assms(1) ceil_shift_ge [of m e] by (simp add: expo_def)
  with assms(2,3) greater show ?thesis by (simp add: expo_def)
qed

lemma bins_fit:
  assumes "uint_to_float_round_up s \<le> uint_to_float_round_down t"
  shows "s \<le> t"
proof -
  obtain e where "expo (unat s) e" "unat (uint_to_float_round_up s) = 8 * e + ceil_shift (unat s) e"
    by (rule unat_round_up)
  moreover obtain e' where "expo (unat t) e'"
    "unat (uint_to_float_round_down t) = 8 * e' + unat t div 2 ^ e'"
    by (rule unat_round_down)
  ultimately have "unat s \<le> unat t"
    using assms expo_order [of "unat s" e "unat t" e'] by (simp add: word_le_nat_alt)
  then show ?thesis by (simp add: word_le_nat_alt)
qed

lemma round_down_value:
  obtains e where "e \<le> 28" "expo (unat s) e"
    "unat (float_to_uint (uint_to_float_round_down s)) = unat s div 2 ^ e * 2 ^ e"
proof -
  obtain e where e: "e \<le> 28" "expo (unat s) e"
    "unat (uint_to_float_round_down s) = 8 * e + unat s div 2 ^ e" by (rule unat_round_down)
  then show thesis
    using that [of e] unat_float_to_uint [OF e(3)] by (simp add: expo_def)
qed

lemma round_up_value:
  obtains e where "e \<le> 28" "expo (unat s) e"
    "unat s \<le> 15 * 2 ^ 28 \<Longrightarrow>
       unat (float_to_uint (uint_to_float_round_up s)) = ceil_shift (unat s) e * 2 ^ e"
proof -
  obtain e where e: "e \<le> 28" "expo (unat s) e"
    "unat (uint_to_float_round_up s) = 8 * e + ceil_shift (unat s) e" by (rule unat_round_up)
  have "unat (float_to_uint (uint_to_float_round_up s)) = ceil_shift (unat s) e * 2 ^ e"
    if s: "unat s \<le> 15 * 2 ^ 28"
  proof (cases "ceil_shift (unat s) e = 16")
    case False
    then show ?thesis
      using e(1,2) unat_float_to_uint [OF e(3)] ceil_shift_le [OF e(2)] ceil_shift_ge [of "unat s" e]
      by (auto simp: expo_def)
  next
    case True
    have "e \<noteq> 28"
      using True s ceil_shift_lower [of "unat s" e] by auto
    with e True have "unat (float_to_uint (uint_to_float_round_up s)) = 8 * 2 ^ (e + 1)"
      by (intro unat_float_to_uint) simp_all
    then show ?thesis using True by simp
  qed
  with e(1,2) show thesis by (rule that)
qed

text \<open>
  Rounding a size down to a bin loses less than an eighth of the bin's size (and nothing for
  sizes below eight): the overhead bound of 12.5% the allocator documents.
\<close>

theorem round_down_bounds:
  "unat (float_to_uint (uint_to_float_round_down s)) \<le> unat s
   \<and> 8 * (unat s - unat (float_to_uint (uint_to_float_round_down s)))
       \<le> unat (float_to_uint (uint_to_float_round_down s))"
proof -
  obtain e where e: "expo (unat s) e"
    "unat (float_to_uint (uint_to_float_round_down s)) = unat s div 2 ^ e * 2 ^ e"
    by (rule round_down_value)
  have r: "unat s - unat s div 2 ^ e * 2 ^ e = unat s mod 2 ^ e"
    by (simp add: minus_div_mult_eq_mod)
  have "8 * (unat s mod 2 ^ e) \<le> unat s div 2 ^ e * 2 ^ e"
  proof (cases "e = 0")
    case False
    then have "8 * 2 ^ e \<le> unat s div 2 ^ e * 2 ^ e" using e(1) by (auto simp: expo_def)
    moreover have "unat s mod 2 ^ e < 2 ^ e" by simp
    ultimately show ?thesis by linarith
  qed simp
  then show ?thesis by (simp add: e(2) r)
qed

text \<open>
  \<open>min_allocator_size\<close> covers the request and exceeds it by less than an eighth, for every
  request up to \<open>15 * 2^28\<close>.
\<close>

theorem min_allocator_size_bounds:
  assumes "s \<le> 15 * 2 ^ 28"
  shows "s \<le> min_allocator_size s \<and> 8 * (unat (min_allocator_size s) - unat s) \<le> unat s"
proof -
  have s: "unat s \<le> 15 * 2 ^ 28" using assms by (simp add: word_le_nat_alt)
  obtain e where e: "expo (unat s) e"
    "unat (float_to_uint (uint_to_float_round_up s)) = ceil_shift (unat s) e * 2 ^ e"
    by (rule round_up_value [of s]) (use s in blast)
  have "8 * (ceil_shift (unat s) e * 2 ^ e - unat s) \<le> unat s"
  proof (cases "e = 0")
    case False
    then show ?thesis using ceil_shift_lower [of "unat s" e] expo_ge [OF e(1)] by simp
  qed (simp add: ceil_shift_def)
  then show ?thesis
    using ceil_shift_upper [of "unat s" e] by (simp add: min_allocator_size_def word_le_nat_alt e(2))
qed

theorem min_allocator_size_bounds_witness:
  "(1000 :: u32) \<le> 15 * 2 ^ 28 \<and> 1000 \<le> min_allocator_size 1000
   \<and> 8 * (unat (min_allocator_size 1000) - 1000) \<le> 1000"
  using min_allocator_size_bounds [of 1000] by (simp add: word_le_nat_alt)

text \<open>
  Above \<open>15 * 2^28\<close> the rounded-up size does not fit in 32 bits and wraps:
  \<open>min_allocator_size\<close> returns zero.
\<close>

theorem min_allocator_size_wraps:
  assumes "15 * 2 ^ 28 < s"
  shows "min_allocator_size s = 0"
proof -
  have s: "15 * 2 ^ 28 < unat s" using assms by (simp add: word_less_nat_alt)
  obtain e where e: "e \<le> 28" "expo (unat s) e"
    "unat (uint_to_float_round_up s) = 8 * e + ceil_shift (unat s) e" by (rule unat_round_up)
  have "e = 28"
  proof (rule ccontr)
    assume "e \<noteq> 28"
    with e(1) have "(2::nat) ^ e \<le> 2 ^ 27" by (intro power_increasing) simp_all
    with expo_lt [OF e(2)] s show False by simp
  qed
  moreover have "15 * 2 ^ 28 < ceil_shift (unat s) 28 * 2 ^ 28"
    using s ceil_shift_upper [of "unat s" 28] by linarith
  ultimately have "unat (uint_to_float_round_up s) = 240"
    using e ceil_shift_le [of "unat s" 28] by simp
  then have "uint_to_float_round_up s = 240" by (simp add: word_unat_eq_iff)
  then show ?thesis by (simp add: min_allocator_size_def float_to_uint_def shr_def shl_def)
qed

theorem min_allocator_size_wraps_witness: "min_allocator_size 0xF0000001 = 0"
  using min_allocator_size_wraps [of "0xF0000001"] by simp

lemma float_round_trips:
  assumes "unat f < 240"
  shows "uint_to_float_round_down (float_to_uint f) = f"
    and "uint_to_float_round_up (float_to_uint f) = f"
proof -
  define e where "e = unat f div 8 - 1"
  define d where "d = unat f - 8 * e"
  have ed: "unat f = 8 * e + d" "d < 16" "e = 0 \<or> 8 \<le> d" "e \<le> 28"
    using assms by (auto simp: e_def d_def)
  then have v: "unat (float_to_uint f) = d * 2 ^ e" by (intro unat_float_to_uint)
  then have x: "expo (unat (float_to_uint f)) e" using ed by (simp add: expo_def)
  obtain e1 where e1: "expo (unat (float_to_uint f)) e1"
    "unat (uint_to_float_round_down (float_to_uint f)) = 8 * e1 + unat (float_to_uint f) div 2 ^ e1"
    by (rule unat_round_down)
  obtain e2 where e2: "expo (unat (float_to_uint f)) e2"
    "unat (uint_to_float_round_up (float_to_uint f)) = 8 * e2 + ceil_shift (unat (float_to_uint f)) e2"
    by (rule unat_round_up)
  have "e1 = e" "e2 = e" using expo_unique x e1(1) e2(1) by blast+
  then show "uint_to_float_round_down (float_to_uint f) = f"
    "uint_to_float_round_up (float_to_uint f) = f"
    using e1(2) e2(2) v ed(1) by (simp_all add: word_unat_eq_iff ceil_shift_def)
qed

lemma ceil_shift_mono:
  assumes "m \<le> n"
  shows "ceil_shift m e \<le> ceil_shift n e"
proof (rule ccontr)
  assume "\<not> ceil_shift m e \<le> ceil_shift n e"
  then have "(ceil_shift n e + 1) * 2 ^ e \<le> ceil_shift m e * 2 ^ e"
    by (intro mult_right_mono) simp_all
  then show False
    using ceil_shift_lower [of m e] ceil_shift_upper [of n e] assms by (simp add: add_mult_distrib)
qed

lemma expo_mono:
  assumes "expo m e" and "expo n e'" and "m \<le> n"
  shows "e \<le> e'"
proof (rule ccontr)
  assume "\<not> e \<le> e'"
  then have "(2::nat) ^ (e' + 1) \<le> 2 ^ e" "0 < e"
    using power_increasing [of "e' + 1" e "2::nat"] by auto
  then show False using expo_lt [OF assms(2)] expo_ge [OF assms(1)] assms(3) by simp
qed

lemma round_up_mono:
  assumes "s \<le> t"
  shows "uint_to_float_round_up s \<le> uint_to_float_round_up t"
proof -
  obtain e where e: "expo (unat s) e" "unat (uint_to_float_round_up s) = 8 * e + ceil_shift (unat s) e"
    by (rule unat_round_up)
  obtain e' where e': "expo (unat t) e'"
    "unat (uint_to_float_round_up t) = 8 * e' + ceil_shift (unat t) e'"
    by (rule unat_round_up)
  have le: "unat s \<le> unat t" using assms by (simp add: word_le_nat_alt)
  have "8 * e + ceil_shift (unat s) e \<le> 8 * e' + ceil_shift (unat t) e'"
  proof (cases "e = e'")
    case True
    then show ?thesis using le by (simp add: ceil_shift_mono)
  next
    case False
    with expo_mono [OF e(1) e'(1) le] have "e + 1 \<le> e'" by simp
    moreover have "8 \<le> ceil_shift (unat t) e'"
      using e'(1) \<open>e + 1 \<le> e'\<close> ceil_shift_ge [of "unat t" e'] by (auto simp: expo_def)
    ultimately show ?thesis using ceil_shift_le [OF e(1)] by linarith
  qed
  with e(2) e'(2) show ?thesis by (simp add: word_le_nat_alt)
qed

lemma round_down_mono:
  assumes "s \<le> t"
  shows "uint_to_float_round_down s \<le> uint_to_float_round_down t"
proof -
  obtain e where e: "expo (unat s) e" "unat (uint_to_float_round_down s) = 8 * e + unat s div 2 ^ e"
    by (rule unat_round_down)
  obtain e' where e': "expo (unat t) e'"
    "unat (uint_to_float_round_down t) = 8 * e' + unat t div 2 ^ e'"
    by (rule unat_round_down)
  have le: "unat s \<le> unat t" using assms by (simp add: word_le_nat_alt)
  have "8 * e + unat s div 2 ^ e \<le> 8 * e' + unat t div 2 ^ e'"
  proof (cases "e = e'")
    case True
    then show ?thesis using le by (simp add: div_le_mono)
  next
    case False
    with expo_mono [OF e(1) e'(1) le] have "e + 1 \<le> e'" by simp
    then show ?thesis using e(1) e'(1) by (auto simp: expo_def)
  qed
  with e(2) e'(2) show ?thesis by (simp add: word_le_nat_alt)
qed

lemma bin_adjoint:
  assumes "unat f < 240"
  shows "uint_to_float_round_up s \<le> f \<longleftrightarrow> s \<le> float_to_uint f"
    and "f \<le> uint_to_float_round_down s \<longleftrightarrow> float_to_uint f \<le> s"
  using bins_fit [of s "float_to_uint f"] bins_fit [of "float_to_uint f" s]
    round_up_mono [of s "float_to_uint f"] round_down_mono [of "float_to_uint f" s]
    float_round_trips [OF assms] by auto

text \<open>
  C12. The two roundings are the adjoints of the decoding: for every bin \<open>f\<close> below 240, a request fits
  bin \<open>f\<close> exactly when its size rounds up to at most \<open>f\<close>, and a region provides bin \<open>f\<close> exactly when
  its size rounds down to at least \<open>f\<close>. So a region whose bin is at least that of a request always
  has room for it.
\<close>

theorem bins_galois:
  assumes "unat f < 240"
  shows "(uint_to_float_round_up s \<le> f \<longleftrightarrow> s \<le> float_to_uint f)
       \<and> (f \<le> uint_to_float_round_down t \<longleftrightarrow> float_to_uint f \<le> t)"
  using bin_adjoint [OF assms] by blast

theorem bins_galois_witness:
  "(uint_to_float_round_up 1000 \<le> 64 \<longleftrightarrow> 1000 \<le> float_to_uint 64)
     \<and> (64 \<le> uint_to_float_round_down 1100 \<longleftrightarrow> float_to_uint 64 \<le> 1100)"
  using bins_galois [of 64 1000 1100] by simp

text \<open>Every bin below 240 is its own lower bound's bin: encoding a decoded bin gives it back.\<close>

theorem float_round_trip:
  assumes "unat f < 240"
  shows "uint_to_float_round_down (float_to_uint f) = f
       \<and> uint_to_float_round_up (float_to_uint f) = f"
  using float_round_trips [OF assms] by simp

theorem float_round_trip_witness:
  "uint_to_float_round_down (float_to_uint 100) = 100 \<and> uint_to_float_round_up (float_to_uint 100) = 100"
  using float_round_trip [of 100] by simp

end
