(* ===== verification/Offset_Allocator.thy ===== *)
theory Offset_Allocator
  imports Small_Float
begin

text \<open>
  The offset allocator (\<open>src/util/offset-allocator/src/lib.rs\<close>) at its default node index type
  \<open>u32\<close>, the one the GPU driver uses for the host-visible shared memory window. This theory holds
  the state and the operations; \<open>Offset_Allocator_Proofs\<close> holds the invariant and the proofs.

  A value \<open>None\<close> of an operation is a panic (an index out of range, \<open>unwrap\<close> of \<open>None\<close>, a failed
  \<open>assert!\<close>). The \<open>debug_assert_eq!\<close>s of \<open>free\<close> and \<open>storage_report\<close> and the log lines are left out.
\<close>

section \<open>State\<close>

definition NUM_TOP_BINS :: nat where "NUM_TOP_BINS = 32"
definition BINS_PER_LEAF :: nat where "BINS_PER_LEAF = 8"
definition TOP_BINS_INDEX_SHIFT :: u32 where "TOP_BINS_INDEX_SHIFT = 3"
definition LEAF_BINS_INDEX_MASK :: u32 where "LEAF_BINS_INDEX_MASK = 7"
definition NUM_LEAF_BINS :: nat where "NUM_LEAF_BINS = NUM_TOP_BINS * BINS_PER_LEAF"

record node =
  data_offset :: u32
  data_size :: u32
  bin_list_prev :: "u32 option"
  bin_list_next :: "u32 option"
  neighbor_prev :: "u32 option"
  neighbor_next :: "u32 option"
  node_used :: bool

definition default_node :: node where
  "default_node = \<lparr>data_offset = 0, data_size = 0, bin_list_prev = None, bin_list_next = None,
     neighbor_prev = None, neighbor_next = None, node_used = False\<rparr>"

record allocator =
  total_size :: u32
  max_allocs :: u32
  free_storage :: u32
  used_bins_top :: u32
  used_bins :: "u8 list"
  bin_indices :: "u32 option list"
  nodes :: "node list"
  free_nodes :: "u32 list"
  free_offset :: u32

record allocation =
  alloc_offset :: u32
  alloc_metadata :: u32

record storage_report_t =
  total_free_space :: u32
  largest_free_region :: u32

definition node_at :: "allocator \<Rightarrow> u32 \<Rightarrow> node option" where
  "node_at a i = get (nodes a) (unat i)"

definition modify_node :: "u32 \<Rightarrow> (node \<Rightarrow> node) \<Rightarrow> allocator \<Rightarrow> allocator option" where
  "modify_node i f a =
     (if unat i < length (nodes a)
      then Some (a\<lparr>nodes := (nodes a)[unat i := f (nodes a ! unat i)]\<rparr>) else None)"

section \<open>Bit scans\<close>

definition find_lowest_bit_set_after :: "u32 \<Rightarrow> u32 \<Rightarrow> u32 option" where
  "find_lowest_bit_set_after bit_mask start_bit_index =
     (let mask_before_start_index = shl 1 start_bit_index - 1;
          mask_after_start_index = NOT mask_before_start_index;
          bits_after = bit_mask AND mask_after_start_index
      in if bits_after = 0 then None else Some (trailing_zeros bits_after))"

section \<open>Bins\<close>

text \<open>Clear the bits of a bin that has become empty; shared by \<open>allocate\<close> and \<open>remove_node_from_bin\<close>.\<close>

definition clear_bin_if_empty :: "u32 \<Rightarrow> u32 \<Rightarrow> u32 \<Rightarrow> allocator \<Rightarrow> allocator option" where
  "clear_bin_if_empty bin_index top_bin_index leaf_bin_index a = do {
     head \<leftarrow> get (bin_indices a) (unat bin_index);
     if head = None then do {
       leafs \<leftarrow> get (used_bins a) (unat top_bin_index);
       let leafs' = leafs AND NOT (shl 1 leaf_bin_index);
       let a = a\<lparr>used_bins := (used_bins a)[unat top_bin_index := leafs']\<rparr>;
       Some (if leafs' = 0
             then a\<lparr>used_bins_top := used_bins_top a AND NOT (shl 1 top_bin_index)\<rparr> else a)
     } else Some a
   }"

definition insert_node_into_bin :: "u32 \<Rightarrow> u32 \<Rightarrow> allocator \<Rightarrow> (u32 \<times> allocator) option" where
  "insert_node_into_bin sz offset a = do {
     let bin_index = uint_to_float_round_down sz;
     let top_bin_index = shr bin_index TOP_BINS_INDEX_SHIFT;
     let leaf_bin_index = bin_index AND LEAF_BINS_INDEX_MASK;
     top_node_index \<leftarrow> get (bin_indices a) (unat bin_index);
     a \<leftarrow> (if top_node_index = None then do {
            leafs \<leftarrow> get (used_bins a) (unat top_bin_index);
            Some (a\<lparr>used_bins := (used_bins a)[unat top_bin_index := leafs OR shl 1 leaf_bin_index],
                    used_bins_top := used_bins_top a OR shl 1 top_bin_index\<rparr>)
          } else Some a);
     node_index \<leftarrow> get (free_nodes a) (unat (free_offset a));
     let a = a\<lparr>free_offset := free_offset a - 1\<rparr>;
     a \<leftarrow> modify_node node_index (\<lambda>_. default_node\<lparr>data_offset := offset, data_size := sz,
             bin_list_next := top_node_index\<rparr>) a;
     a \<leftarrow> (case top_node_index of
            Some t \<Rightarrow> modify_node t (\<lambda>n. n\<lparr>bin_list_prev := Some node_index\<rparr>) a
          | None \<Rightarrow> Some a);
     let a = a\<lparr>bin_indices := (bin_indices a)[unat bin_index := Some node_index]\<rparr>;
     Some (node_index, a\<lparr>free_storage := free_storage a + sz\<rparr>)
   }"

definition remove_node_from_bin :: "u32 \<Rightarrow> allocator \<Rightarrow> allocator option" where
  "remove_node_from_bin node_index a = do {
     node \<leftarrow> node_at a node_index;
     a \<leftarrow> (case bin_list_prev node of
            Some prev \<Rightarrow> do {
              a \<leftarrow> modify_node prev (\<lambda>n. n\<lparr>bin_list_next := bin_list_next node\<rparr>) a;
              case bin_list_next node of
                Some nxt \<Rightarrow> modify_node nxt (\<lambda>n. n\<lparr>bin_list_prev := bin_list_prev node\<rparr>) a
              | None \<Rightarrow> Some a
            }
          | None \<Rightarrow> do {
              let bin_index = uint_to_float_round_down (data_size node);
              let top_bin_index = shr bin_index TOP_BINS_INDEX_SHIFT;
              let leaf_bin_index = bin_index AND LEAF_BINS_INDEX_MASK;
              bins \<leftarrow> put (bin_indices a) (unat bin_index) (bin_list_next node);
              let a = a\<lparr>bin_indices := bins\<rparr>;
              a \<leftarrow> (case bin_list_next node of
                     Some nxt \<Rightarrow> modify_node nxt (\<lambda>n. n\<lparr>bin_list_prev := None\<rparr>) a
                   | None \<Rightarrow> Some a);
              clear_bin_if_empty bin_index top_bin_index leaf_bin_index a
            });
     let a = a\<lparr>free_offset := free_offset a + 1\<rparr>;
     frees \<leftarrow> put (free_nodes a) (unat (free_offset a)) node_index;
     Some (a\<lparr>free_nodes := frees, free_storage := free_storage a - data_size node\<rparr>)
   }"

section \<open>Construction\<close>

definition reset :: "allocator \<Rightarrow> allocator option" where
  "reset a = do {
     let a = a\<lparr>free_storage := 0, used_bins_top := 0, free_offset := max_allocs a - 1,
               used_bins := replicate (length (used_bins a)) 0,
               bin_indices := replicate (length (bin_indices a)) None,
               nodes := replicate (unat (max_allocs a)) default_node,
               free_nodes := map (\<lambda>i. max_allocs a - of_nat i - 1) [0..<unat (max_allocs a)]\<rparr>;
     (_, a) \<leftarrow> insert_node_into_bin (total_size a) 0 a;
     Some a
   }"

definition with_max_allocs :: "u32 \<Rightarrow> u32 \<Rightarrow> allocator option" where
  "with_max_allocs sz n = do {
     assert (n < 0xFFFFFFFF - 1);
     reset \<lparr>total_size = sz, max_allocs = n, free_storage = 0, used_bins_top = 0,
            used_bins = replicate NUM_TOP_BINS 0, bin_indices = replicate NUM_LEAF_BINS None,
            nodes = [], free_nodes = [], free_offset = 0\<rparr>
   }"

definition new_allocator :: "u32 \<Rightarrow> allocator option" where
  "new_allocator sz = with_max_allocs sz (min (128 * 1024) (0xFFFFFFFF - 2))"

section \<open>Allocation\<close>

text \<open>The search for a bin: \<open>Some None\<close> is "no space", \<open>Some (Some (top, leaf))\<close> a non-empty bin.\<close>

definition allocate_find :: "u32 \<Rightarrow> allocator \<Rightarrow> (u32 \<times> u32) option option" where
  "allocate_find sz a = do {
     let min_bin_index = uint_to_float_round_up sz;
     let min_top_bin_index = shr min_bin_index TOP_BINS_INDEX_SHIFT;
     let min_leaf_bin_index = min_bin_index AND LEAF_BINS_INDEX_MASK;
     leaf \<leftarrow> (if used_bins_top a AND shl 1 min_top_bin_index \<noteq> 0 then do {
               leafs \<leftarrow> get (used_bins a) (unat min_top_bin_index);
               Some (find_lowest_bit_set_after (ucast leafs) min_leaf_bin_index)
             } else Some None);
     case leaf of
       Some leaf_bin_index \<Rightarrow> Some (Some (min_top_bin_index, leaf_bin_index))
     | None \<Rightarrow>
         (case find_lowest_bit_set_after (used_bins_top a) (min_top_bin_index + 1) of
            None \<Rightarrow> Some None
          | Some top_bin_index \<Rightarrow> do {
              leafs \<leftarrow> get (used_bins a) (unat top_bin_index);
              Some (Some (top_bin_index, trailing_zeros leafs))
            })
   }"

text \<open>Pop the top node of the bin: it becomes the used node of size \<open>sz\<close>. Returns its index and
  its former size.\<close>

definition allocate_pop :: "u32 \<Rightarrow> u32 \<Rightarrow> u32 \<Rightarrow> allocator \<Rightarrow> (u32 \<times> u32 \<times> allocator) option" where
  "allocate_pop sz top_bin_index leaf_bin_index a = do {
     let bin_index = shl top_bin_index TOP_BINS_INDEX_SHIFT OR leaf_bin_index;
     head \<leftarrow> get (bin_indices a) (unat bin_index);
     node_index \<leftarrow> head;
     node \<leftarrow> node_at a node_index;
     a \<leftarrow> modify_node node_index (\<lambda>n. n\<lparr>data_size := sz, node_used := True\<rparr>) a;
     let a = a\<lparr>bin_indices := (bin_indices a)[unat bin_index := bin_list_next node]\<rparr>;
     a \<leftarrow> (case bin_list_next node of
            Some nxt \<Rightarrow> modify_node nxt (\<lambda>n. n\<lparr>bin_list_prev := None\<rparr>) a
          | None \<Rightarrow> Some a);
     let a = a\<lparr>free_storage := free_storage a - data_size node\<rparr>;
     a \<leftarrow> clear_bin_if_empty bin_index top_bin_index leaf_bin_index a;
     Some (node_index, data_size node, a)
   }"

text \<open>Push the remainder of the popped region back as a new node, linked in as its neighbour.\<close>

definition allocate_link :: "u32 \<Rightarrow> u32 \<Rightarrow> u32 option \<Rightarrow> allocator \<Rightarrow> allocator option" where
  "allocate_link node_index new_node_index nxt a = do {
     node \<leftarrow> node_at a node_index;
     a \<leftarrow> (case neighbor_next node of
            Some i \<Rightarrow> modify_node i (\<lambda>n. n\<lparr>neighbor_prev := Some new_node_index\<rparr>) a
          | None \<Rightarrow> Some a);
     a \<leftarrow> modify_node new_node_index (\<lambda>n. n\<lparr>neighbor_prev := Some node_index\<rparr>) a;
     a \<leftarrow> modify_node new_node_index (\<lambda>n. n\<lparr>neighbor_next := nxt\<rparr>) a;
     modify_node node_index (\<lambda>n. n\<lparr>neighbor_next := Some new_node_index\<rparr>) a
   }"

definition allocate_split :: "u32 \<Rightarrow> u32 \<Rightarrow> u32 \<Rightarrow> allocator \<Rightarrow> allocator option" where
  "allocate_split sz node_index node_total_size a =
     (let remainder_size = node_total_size - sz in
      if 0 < remainder_size then do {
        node \<leftarrow> node_at a node_index;
        (new_node_index, a) \<leftarrow> insert_node_into_bin remainder_size (data_offset node + sz) a;
        allocate_link node_index new_node_index (neighbor_next node) a
      } else Some a)"

definition allocate :: "u32 \<Rightarrow> allocator \<Rightarrow> (allocation option \<times> allocator) option" where
  "allocate sz a =
     (if free_offset a = 0 then Some (None, a)
      else do {
        bin \<leftarrow> allocate_find sz a;
        case bin of
          None \<Rightarrow> Some (None, a)
        | Some (top_bin_index, leaf_bin_index) \<Rightarrow> do {
            (node_index, node_total_size, a) \<leftarrow> allocate_pop sz top_bin_index leaf_bin_index a;
            a \<leftarrow> allocate_split sz node_index node_total_size a;
            node \<leftarrow> node_at a node_index;
            Some (Some \<lparr>alloc_offset = data_offset node, alloc_metadata = node_index\<rparr>, a)
          }
      })"

section \<open>Release\<close>

text \<open>Merge with the free neighbour before, then with the one after; both return the new offset
  and size of the region.\<close>

definition free_merge_prev :: "u32 \<Rightarrow> u32 \<Rightarrow> u32 \<Rightarrow> allocator \<Rightarrow> (u32 \<times> u32 \<times> allocator) option" where
  "free_merge_prev node_index offset sz a = do {
     node \<leftarrow> node_at a node_index;
     case neighbor_prev node of
       None \<Rightarrow> Some (offset, sz, a)
     | Some prev \<Rightarrow> do {
         prev_node \<leftarrow> node_at a prev;
         if node_used prev_node then Some (offset, sz, a)
         else do {
           a \<leftarrow> remove_node_from_bin prev a;
           prev_node' \<leftarrow> node_at a prev;
           a \<leftarrow> modify_node node_index (\<lambda>n. n\<lparr>neighbor_prev := neighbor_prev prev_node'\<rparr>) a;
           Some (data_offset prev_node, sz + data_size prev_node, a)
         }
       }
   }"

definition free_merge_next :: "u32 \<Rightarrow> u32 \<Rightarrow> allocator \<Rightarrow> (u32 \<times> allocator) option" where
  "free_merge_next node_index sz a = do {
     node \<leftarrow> node_at a node_index;
     case neighbor_next node of
       None \<Rightarrow> Some (sz, a)
     | Some nxt \<Rightarrow> do {
         next_node \<leftarrow> node_at a nxt;
         if node_used next_node then Some (sz, a)
         else do {
           a \<leftarrow> remove_node_from_bin nxt a;
           next_node' \<leftarrow> node_at a nxt;
           a \<leftarrow> modify_node node_index (\<lambda>n. n\<lparr>neighbor_next := neighbor_next next_node'\<rparr>) a;
           Some (sz + data_size next_node, a)
         }
       }
   }"

text \<open>Put the node on the freelist, insert the combined region and connect its neighbours.\<close>

definition free_connect_next :: "u32 \<Rightarrow> u32 option \<Rightarrow> allocator \<Rightarrow> allocator option" where
  "free_connect_next combined nxt a = (case nxt of
       Some i \<Rightarrow> do {
         a \<leftarrow> modify_node combined (\<lambda>n. n\<lparr>neighbor_next := Some i\<rparr>) a;
         modify_node i (\<lambda>n. n\<lparr>neighbor_prev := Some combined\<rparr>) a
       }
     | None \<Rightarrow> Some a)"

definition free_connect_prev :: "u32 \<Rightarrow> u32 option \<Rightarrow> allocator \<Rightarrow> allocator option" where
  "free_connect_prev combined prev a = (case prev of
       Some i \<Rightarrow> do {
         a \<leftarrow> modify_node combined (\<lambda>n. n\<lparr>neighbor_prev := Some i\<rparr>) a;
         modify_node i (\<lambda>n. n\<lparr>neighbor_next := Some combined\<rparr>) a
       }
     | None \<Rightarrow> Some a)"

definition free_reinsert :: "u32 \<Rightarrow> u32 \<Rightarrow> u32 \<Rightarrow> allocator \<Rightarrow> allocator option" where
  "free_reinsert node_index offset sz a = do {
     node \<leftarrow> node_at a node_index;
     let a = a\<lparr>free_offset := free_offset a + 1\<rparr>;
     frees \<leftarrow> put (free_nodes a) (unat (free_offset a)) node_index;
     let a = a\<lparr>free_nodes := frees\<rparr>;
     (combined, a) \<leftarrow> insert_node_into_bin sz offset a;
     a \<leftarrow> free_connect_next combined (neighbor_next node) a;
     free_connect_prev combined (neighbor_prev node) a
   }"

definition free :: "allocation \<Rightarrow> allocator \<Rightarrow> allocator option" where
  "free allocation a = do {
     let node_index = alloc_metadata allocation;
     node \<leftarrow> node_at a node_index;
     assert (node_used node);
     (offset, sz, a) \<leftarrow> free_merge_prev node_index (data_offset node) (data_size node) a;
     (sz, a) \<leftarrow> free_merge_next node_index sz a;
     free_reinsert node_index offset sz a
   }"

section \<open>Reports\<close>

definition allocation_size :: "allocation \<Rightarrow> allocator \<Rightarrow> u32" where
  "allocation_size allocation a =
     (case node_at a (alloc_metadata allocation) of Some n \<Rightarrow> data_size n | None \<Rightarrow> 0)"

definition storage_report :: "allocator \<Rightarrow> storage_report_t option" where
  "storage_report a =
     (if 0 < free_offset a then
        (if 0 < used_bins_top a then do {
           let top_bin_index = 31 - leading_zeros (used_bins_top a);
           leafs \<leftarrow> get (used_bins a) (unat top_bin_index);
           let leaf_bin_index = 31 - leading_zeros (ucast leafs :: u32);
           Some \<lparr>total_free_space = free_storage a,
                 largest_free_region =
                   float_to_uint (shl top_bin_index TOP_BINS_INDEX_SHIFT OR leaf_bin_index)\<rparr>
         } else Some \<lparr>total_free_space = free_storage a, largest_free_region = 0\<rparr>)
      else Some \<lparr>total_free_space = 0, largest_free_region = 0\<rparr>)"

record storage_report_full_region =
  region_size :: u32
  region_count :: u32

text \<open>
  The \<open>while let\<close> loop along a bin list. The value is \<open>None\<close> when the loop panics and when it does
  not end; it ends on every state of the invariant.
\<close>

partial_function (option) count_nodes :: "allocator \<Rightarrow> u32 option \<Rightarrow> u32 \<Rightarrow> u32 option" where
  "count_nodes a maybe_node_index count = (case maybe_node_index of
       None \<Rightarrow> Some count
     | Some node_index \<Rightarrow> do {
         node \<leftarrow> node_at a node_index;
         count_nodes a (bin_list_next node) (count + 1)
       })"

definition storage_report_full :: "allocator \<Rightarrow> storage_report_full_region list option" where
  "storage_report_full a = those (map (\<lambda>i. do {
     head \<leftarrow> get (bin_indices a) i;
     count \<leftarrow> count_nodes a head 0;
     Some \<lparr>region_size = float_to_uint (of_nat i), region_count = count\<rparr>
   }) [0..<NUM_LEAF_BINS])"

end
