(* ===== verification/Offset_Allocator_Proofs.thy ===== *)
theory Offset_Allocator_Proofs
  imports Offset_Allocator
begin

text \<open>
  The invariant of the offset allocator and its preservation. The ghost state is \<open>rs\<close>, the nodes
  in address order, and \<open>bl\<close>, the nodes filed under each bin. The invariant has three parts with
  their own preservation lemmas: the bins (lists, bit masks, free storage), the stack of unused
  nodes, and the chain of regions (addresses, neighbour links, no two adjacent free regions).
\<close>

section \<open>Reading the node array\<close>

abbreviation nd :: "allocator \<Rightarrow> u32 \<Rightarrow> node" where "nd a i \<equiv> nodes a ! unat i"
abbreviation "off_of a i \<equiv> data_offset (nd a i)"
abbreviation "size_of a i \<equiv> data_size (nd a i)"
abbreviation "is_used a i \<equiv> node_used (nd a i)"
abbreviation "bprev a i \<equiv> bin_list_prev (nd a i)"
abbreviation "bnext a i \<equiv> bin_list_next (nd a i)"
abbreviation "nprev a i \<equiv> neighbor_prev (nd a i)"
abbreviation "nnext a i \<equiv> neighbor_next (nd a i)"
abbreviation "bin_of s \<equiv> unat (uint_to_float_round_down s)"

definition valid :: "allocator \<Rightarrow> u32 set" where
  "valid a = {i. unat i < length (nodes a)}"

lemma valid_iff [simp]: "i \<in> valid a \<longleftrightarrow> unat i < length (nodes a)"
  by (simp add: valid_def)

lemma node_at_valid [simp]: "unat i < length (nodes a) \<Longrightarrow> node_at a i = Some (nd a i)"
  by (simp add: node_at_def)

lemma modify_node_valid [simp]:
  "unat i < length (nodes a) \<Longrightarrow>
     modify_node i f a = Some (a\<lparr>nodes := (nodes a)[unat i := f (nd a i)]\<rparr>)"
  by (simp add: modify_node_def)

lemma nth_list_update_word [simp]:
  fixes i j :: "'a::len word"
  assumes "unat j < length xs"
  shows "xs[unat i := v] ! unat j = (if i = j then v else xs ! unat j)"
  using assms by (auto simp: word_unat_eq_iff)

lemma finite_u32 [simp]: "finite (A :: u32 set)"
  by (rule finite_subset [of _ UNIV]) auto

section \<open>Bins\<close>

definition bits_inv :: "allocator \<Rightarrow> (nat \<Rightarrow> u32 list) \<Rightarrow> bool" where
  "bits_inv a bl \<longleftrightarrow> length (used_bins a) = 32
     \<and> (\<forall>t<32. \<forall>l<8. bit (used_bins a ! t) l \<longleftrightarrow> bl (8 * t + l) \<noteq> [])
     \<and> (\<forall>t<32. bit (used_bins_top a) t \<longleftrightarrow> used_bins a ! t \<noteq> 0)"

definition lists_inv :: "allocator \<Rightarrow> u32 set \<Rightarrow> (nat \<Rightarrow> u32 list) \<Rightarrow> bool" where
  "lists_inv a F bl \<longleftrightarrow> length (bin_indices a) = 256 \<and> F \<subseteq> valid a
     \<and> (\<forall>b<256. distinct (bl b) \<and> set (bl b) = {i \<in> F. bin_of (size_of a i) = b}
          \<and> linked (bprev a) (bnext a) None (bl b) None
          \<and> bin_indices a ! b = first_of (bl b) None)"

definition storage_inv :: "allocator \<Rightarrow> u32 set \<Rightarrow> bool" where
  "storage_inv a F \<longleftrightarrow> free_storage a = (\<Sum>i\<in>F. size_of a i)"

definition bins_inv :: "allocator \<Rightarrow> u32 set \<Rightarrow> (nat \<Rightarrow> u32 list) \<Rightarrow> bool" where
  "bins_inv a F bl \<longleftrightarrow> bits_inv a bl \<and> lists_inv a F bl \<and> storage_inv a F"

definition stack_of :: "allocator \<Rightarrow> u32 list" where
  "stack_of a = take (Suc (unat (free_offset a))) (free_nodes a)"

definition stack_inv :: "allocator \<Rightarrow> u32 set \<Rightarrow> bool" where
  "stack_inv a R \<longleftrightarrow> length (free_nodes a) = length (nodes a)
     \<and> length (nodes a) < 2 ^ 32 - 2
     \<and> unat (free_offset a) < length (nodes a)
     \<and> distinct (stack_of a) \<and> set (stack_of a) \<inter> R = {} \<and> set (stack_of a) \<union> R = valid a"

lemma bit_shl_one [simp]:
  fixes l :: u32
  assumes "unat l < LENGTH('a::len)"
  shows "bit (shl (1 :: 'a word) l) i \<longleftrightarrow> i = unat l"
  using assms by (auto simp: shl_def bit_simps)

lemma word8_eq_0_iff: "(w :: u8) = 0 \<longleftrightarrow> (\<forall>l<8. \<not> bit w l)"
  by (auto simp: bit_eq_iff bit_imp_le_length)

lemma clear_bin_ok:
  assumes "bits_inv a bl" and "length (bin_indices a) = 256"
    and t: "unat t < 32" and l: "unat l < 8" and b: "unat b = 8 * unat t + unat l"
    and "bin_indices a ! unat b = first_of xs None" and "bl (unat b) \<noteq> []"
  shows "\<exists>ub top. clear_bin_if_empty b t l a = Some (a\<lparr>used_bins := ub, used_bins_top := top\<rparr>)
           \<and> bits_inv (a\<lparr>used_bins := ub, used_bins_top := top\<rparr>) (bl(unat b := xs))"
proof (cases "xs = []")
  case False
  with assms have "clear_bin_if_empty b t l a = Some a"
    by (simp add: clear_bin_if_empty_def)
  moreover have "bits_inv a (bl(unat b := xs))"
    using assms False by (auto simp: bits_inv_def)
  ultimately show ?thesis
    by (intro exI [of _ "used_bins a"] exI [of _ "used_bins_top a"]) simp
next
  case True
  let ?w = "used_bins a ! unat t AND NOT (shl 1 l)"
  let ?ub = "(used_bins a)[unat t := ?w]"
  let ?top = "if ?w = 0 then used_bins_top a AND NOT (shl 1 t) else used_bins_top a"
  have len: "length (used_bins a) = 32" using assms(1) by (simp add: bits_inv_def)
  have "clear_bin_if_empty b t l a = Some (a\<lparr>used_bins := ?ub, used_bins_top := ?top\<rparr>)"
    using assms True len by (simp add: clear_bin_if_empty_def)
  moreover have "bits_inv (a\<lparr>used_bins := ?ub, used_bins_top := ?top\<rparr>) (bl(unat b := xs))"
    unfolding bits_inv_def
  proof (intro conjI allI impI)
    fix t' l' :: nat
    assume "t' < 32" "l' < 8"
    with assms True len show
      "bit (used_bins (a\<lparr>used_bins := ?ub, used_bins_top := ?top\<rparr>) ! t') l'
         \<longleftrightarrow> (bl(unat b := xs)) (8 * t' + l') \<noteq> []"
      by (auto simp: bits_inv_def nth_list_update bit_simps)
  next
    fix t' :: nat
    assume "t' < 32"
    moreover have "used_bins a ! unat t \<noteq> 0"
      using assms by (auto simp: bits_inv_def)
    ultimately show "bit (used_bins_top (a\<lparr>used_bins := ?ub, used_bins_top := ?top\<rparr>)) t'
         \<longleftrightarrow> used_bins (a\<lparr>used_bins := ?ub, used_bins_top := ?top\<rparr>) ! t' \<noteq> 0"
      using assms t len by (auto simp: bits_inv_def nth_list_update bit_simps)
  qed (simp add: len)
  ultimately show ?thesis by blast
qed

text \<open>\<open>keeps_core a a' i\<close>: node \<open>i\<close> is the same in both states but for its bin links.\<close>

definition keeps_core :: "allocator \<Rightarrow> allocator \<Rightarrow> u32 \<Rightarrow> bool" where
  "keeps_core a a' i \<longleftrightarrow> off_of a' i = off_of a i \<and> size_of a' i = size_of a i
     \<and> is_used a' i = is_used a i \<and> nprev a' i = nprev a i \<and> nnext a' i = nnext a i"

definition same_frame :: "allocator \<Rightarrow> allocator \<Rightarrow> bool" where
  "same_frame a a' \<longleftrightarrow> total_size a' = total_size a \<and> max_allocs a' = max_allocs a
     \<and> length (nodes a') = length (nodes a)"

lemma same_frame_trans: "same_frame a b \<Longrightarrow> same_frame b c \<Longrightarrow> same_frame a c"
  by (simp add: same_frame_def)

lemma bin_split:
  fixes b :: u32
  shows "unat b = 8 * unat (shr b TOP_BINS_INDEX_SHIFT) + unat (b AND LEAF_BINS_INDEX_MASK)"
    and "unat (b AND LEAF_BINS_INDEX_MASK) < 8"
    and "unat b < 256 \<Longrightarrow> unat (shr b TOP_BINS_INDEX_SHIFT) < 32"
proof -
  have t: "unat (shr b TOP_BINS_INDEX_SHIFT) = unat b div 8"
    by (simp add: TOP_BINS_INDEX_SHIFT_def shr_3 unat_drop_bit_div)
  have l: "unat (b AND LEAF_BINS_INDEX_MASK) = unat b mod 8"
    by (simp add: LEAF_BINS_INDEX_MASK_def unat_and_mask3)
  show "unat b = 8 * unat (shr b TOP_BINS_INDEX_SHIFT) + unat (b AND LEAF_BINS_INDEX_MASK)"
    by (simp add: t l)
  show "unat (b AND LEAF_BINS_INDEX_MASK) < 8" by (simp add: l)
  show "unat b < 256 \<Longrightarrow> unat (shr b TOP_BINS_INDEX_SHIFT) < 32" by (simp add: t)
qed

lemma bin_of_lt: "bin_of s < 256"
  using round_down_lt_240 [of s] by simp

lemma lists_invD:
  assumes "lists_inv a F bl" and "b < 256"
  shows "distinct (bl b)" "set (bl b) = {i \<in> F. bin_of (size_of a i) = b}"
    "linked (bprev a) (bnext a) None (bl b) None" "bin_indices a ! b = first_of (bl b) None"
    "length (bin_indices a) = 256" "F \<subseteq> valid a"
  using assms by (auto simp: lists_inv_def)

lemma insert_bits:
  assumes "bits_inv a bl" and t: "unat t < 32" and l: "unat l < 8" and b: "b = 8 * unat t + unat l"
  shows "bits_inv (a\<lparr>used_bins := (used_bins a)[unat t := used_bins a ! unat t OR shl 1 l],
                     used_bins_top := used_bins_top a OR shl 1 t\<rparr>) (bl(b := x # xs))"
  unfolding bits_inv_def
proof (intro conjI allI impI)
  have len: "length (used_bins a) = 32" using assms(1) by (simp add: bits_inv_def)
  let ?w = "used_bins a ! unat t OR shl 1 l"
  have "bit ?w (unat l)" using l by (simp add: bit_simps)
  then have nz: "?w \<noteq> 0" by auto
  fix t' :: nat
  assume t': "t' < 32"
  show "bit (used_bins_top (a\<lparr>used_bins := (used_bins a)[unat t := ?w],
                     used_bins_top := used_bins_top a OR shl 1 t\<rparr>)) t'
      \<longleftrightarrow> used_bins (a\<lparr>used_bins := (used_bins a)[unat t := ?w],
                     used_bins_top := used_bins_top a OR shl 1 t\<rparr>) ! t' \<noteq> 0"
    using assms(1) t t' len nz by (auto simp: bits_inv_def nth_list_update bit_simps)
  fix l' :: nat
  assume "l' < 8"
  then show "bit (used_bins (a\<lparr>used_bins := (used_bins a)[unat t := ?w],
                     used_bins_top := used_bins_top a OR shl 1 t\<rparr>) ! t') l'
      \<longleftrightarrow> (bl(b := x # xs)) (8 * t' + l') \<noteq> []"
    using assms t' len by (auto simp: bits_inv_def nth_list_update bit_simps)
qed (use assms in \<open>simp add: bits_inv_def\<close>)

lemma bits_inv_nonempty: "bits_inv a bl \<Longrightarrow> bl b \<noteq> [] \<Longrightarrow> bits_inv a (bl(b := x # xs))"
  by (auto simp: bits_inv_def)

text \<open>
  The effect of \<open>insert_node_into_bin\<close> on the lists: a fresh node \<open>n\<close> is put in front of its bin
  and the previous head points back to it.
\<close>

lemma insert_lists:
  assumes inv: "lists_inv a F bl" and n: "n \<notin> F" "n \<in> valid a"
    and len: "length (nodes a') = length (nodes a)"
    and bi: "bin_indices a' = (bin_indices a)[bin_of s := Some n]"
    and new: "bprev a' n = None" "bnext a' n = first_of (bl (bin_of s)) None" "size_of a' n = s"
    and old: "\<And>i. i \<in> F \<Longrightarrow> size_of a' i = size_of a i \<and> bnext a' i = bnext a i
        \<and> bprev a' i = (if first_of (bl (bin_of s)) None = Some i then Some n else bprev a i)"
  shows "lists_inv a' (insert n F) (bl(bin_of s := n # bl (bin_of s)))"
  unfolding lists_inv_def
proof (intro conjI allI impI)
  let ?b = "bin_of s"
  note D = lists_invD [OF inv bin_of_lt [of s]]
  show "length (bin_indices a') = 256" using D bi by simp
  show "insert n F \<subseteq> valid a'" using D n len by (auto simp: valid_def)
  fix b :: nat
  assume b: "b < 256"
  note B = lists_invD [OF inv b]
  show "distinct ((bl(?b := n # bl ?b)) b)" using B D n by auto
  show "set ((bl(?b := n # bl ?b)) b) = {i \<in> insert n F. bin_of (size_of a' i) = b}"
    using B D n new old by auto
  show "bin_indices a' ! b = first_of ((bl(?b := n # bl ?b)) b) None"
    using B b bi by (auto simp: nth_list_update)
  show "linked (bprev a') (bnext a') None ((bl(?b := n # bl ?b)) b) None"
  proof (cases "b = ?b")
    case True
    have "linked (bprev a') (bnext a') (Some n) (bl ?b) None"
    proof (rule linked_first [OF D(3)])
      fix i
      assume i: "i \<in> set (bl ?b)"
      then have "i \<in> F" using D by auto
      then show "bnext a' i = bnext a i" using old by simp
      have "first_of (bl ?b) None = Some i \<longleftrightarrow> i = hd (bl ?b)"
        using i by (auto simp: first_of_def)
      then show "bprev a' i = (if i = hd (bl ?b) then Some n else bprev a i)"
        using old \<open>i \<in> F\<close> by simp
    qed (rule D)
    with True new show ?thesis by simp
  next
    case False
    have "first_of (bl ?b) None \<noteq> Some i" if "i \<in> set (bl b)" for i
    proof
      assume "first_of (bl ?b) None = Some i"
      then have "i \<in> set (bl ?b)" by (auto simp: first_of_def split: if_splits)
      with that False B D show False by auto
    qed
    then have "linked (bprev a') (bnext a') None (bl b) None"
      using B old by (intro linked_cong [OF _ B(3)]) auto
    with False show ?thesis by simp
  qed
qed

lemma stack_pop:
  assumes "stack_inv a R" and "0 < free_offset a"
    and a': "free_offset a' = free_offset a - 1" "free_nodes a' = free_nodes a"
      "length (nodes a') = length (nodes a)"
    and n: "n = free_nodes a ! unat (free_offset a)"
  shows "n \<notin> R" "n \<in> valid a" "stack_inv a' (insert n R)"
proof -
  let ?f = "unat (free_offset a)"
  have f: "?f < length (free_nodes a)" "0 < ?f" "unat (free_offset a - 1) = ?f - 1"
    using assms by (auto simp: stack_inv_def word_less_nat_alt unat_sub_if')
  then have s: "stack_of a = stack_of a' @ [n]"
    using a' n by (simp add: stack_of_def take_Suc_conv_app_nth)
  have inv: "distinct (stack_of a)" "set (stack_of a) \<inter> R = {}" "set (stack_of a) \<union> R = valid a"
    using assms(1) by (simp_all add: stack_inv_def)
  with s show "n \<notin> R" "n \<in> valid a" by auto
  have "valid a' = valid a" using a' by (simp add: valid_def)
  then show "stack_inv a' (insert n R)"
    using assms(1) f s inv a' by (auto simp: stack_inv_def)
qed

definition fresh_node :: "allocator \<Rightarrow> u32 \<Rightarrow> u32 \<Rightarrow> u32 \<Rightarrow> bool" where
  "fresh_node a n offset s \<longleftrightarrow> off_of a n = offset \<and> size_of a n = s \<and> \<not> is_used a n
     \<and> nprev a n = None \<and> nnext a n = None"

lemma insert_node_ok:
  assumes bins: "bins_inv a F bl" and stack: "stack_inv a R" and "F \<subseteq> R" and fo: "0 < free_offset a"
  obtains n a' where "insert_node_into_bin s offset a = Some (n, a')"
    and "n \<notin> R" and "n \<in> valid a" and "same_frame a a'" and "free_offset a' = free_offset a - 1"
    and "bins_inv a' (insert n F) (bl(bin_of s := n # bl (bin_of s)))"
    and "stack_inv a' (insert n R)" and "fresh_node a' n offset s"
    and "\<forall>i \<in> valid a. i \<noteq> n \<longrightarrow> keeps_core a a' i"
proof -
  let ?b = "uint_to_float_round_down s"
  let ?t = "shr ?b TOP_BINS_INDEX_SHIFT" and ?l = "?b AND LEAF_BINS_INDEX_MASK"
  let ?top = "first_of (bl (unat ?b)) None"
  let ?n = "free_nodes a ! unat (free_offset a)"
  define a1 where "a1 = (if ?top = None
      then a\<lparr>used_bins := (used_bins a)[unat ?t := used_bins a ! unat ?t OR shl 1 ?l],
             used_bins_top := used_bins_top a OR shl 1 ?t\<rparr> else a)"
  define new where "new = default_node\<lparr>data_offset := offset, data_size := s, bin_list_next := ?top\<rparr>"
  define ns where "ns = (nodes a)[unat ?n := new]"
  define ns' where "ns' = (case ?top of None \<Rightarrow> ns
      | Some t \<Rightarrow> ns[unat t := (ns ! unat t)\<lparr>bin_list_prev := Some ?n\<rparr>])"
  define a' where "a' = a1\<lparr>free_offset := free_offset a - 1, nodes := ns',
      bin_indices := (bin_indices a)[unat ?b := Some ?n], free_storage := free_storage a + s\<rparr>"
  have bits: "bits_inv a bl" and lists: "lists_inv a F bl" and stor: "storage_inv a F"
    using bins by (simp_all add: bins_inv_def)
  note D = lists_invD [OF lists bin_of_lt [of s]]
  have len: "length (used_bins a) = 32" using bits by (simp add: bits_inv_def)
  have lenn: "length ns' = length (nodes a)" by (simp add: ns'_def ns_def split: option.split)
  have n: "?n \<notin> R" "?n \<in> valid a" and st: "stack_inv a' (insert ?n R)"
    using stack_pop [OF stack fo, of a' ?n] by (simp_all add: a'_def a1_def lenn)
  have nF: "?n \<notin> F" using n \<open>F \<subseteq> R\<close> by auto
  have top: "t \<in> F" "t \<in> valid a" if "?top = Some t" for t
  proof -
    have "t \<in> set (bl (unat ?b))" using that by (auto simp: first_of_def split: if_splits)
    then show "t \<in> F" "t \<in> valid a" using D by auto
  qed
  have f: "unat (free_offset a) < length (free_nodes a)" using stack by (simp add: stack_inv_def)
  have tl: "unat ?t < 32" "unat ?l < 8" "unat ?b = 8 * unat ?t + unat ?l"
    using bin_split [of ?b] bin_of_lt [of s] by simp_all
  have eq: "insert_node_into_bin s offset a = Some (?n, a')"
    using n D top tl len f bin_of_lt [of s]
    by (auto simp: insert_node_into_bin_def Let_def a'_def a1_def ns'_def ns_def new_def
        modify_node_def split: option.split)
  have nd': "nd a' i = (if i = ?n then new else
      if ?top = Some i then (nd a i)\<lparr>bin_list_prev := Some ?n\<rparr> else nd a i)" if "i \<in> valid a" for i
    using that nF top
    by (auto simp: a'_def ns'_def ns_def split: option.split)
  have "bits_inv a' (bl(unat ?b := ?n # bl (unat ?b)))"
  proof (cases "?top = None")
    case True
    with insert_bits [OF bits tl] show ?thesis by (simp add: a'_def a1_def bits_inv_def)
  next
    case False
    with bits_inv_nonempty [OF bits, of "unat ?b"] show ?thesis
      by (simp add: a'_def a1_def bits_inv_def)
  qed
  moreover have "lists_inv a' (insert ?n F) (bl(unat ?b := ?n # bl (unat ?b)))"
  proof (rule insert_lists [OF lists nF n(2)])
    show "size_of a' i = size_of a i \<and> bnext a' i = bnext a i
        \<and> bprev a' i = (if ?top = Some i then Some ?n else bprev a i)" if "i \<in> F" for i
      using that nF D(6) by (subst (1 2 3) nd') auto
  qed (use n nd' in \<open>auto simp: a'_def a1_def lenn new_def default_node_def\<close>)
  moreover have "storage_inv a' (insert ?n F)"
  proof -
    have "(\<Sum>i\<in>F. size_of a' i) = (\<Sum>i\<in>F. size_of a i)"
      using nF D(6) by (intro sum.cong) (auto simp: nd')
    moreover have "size_of a' ?n = s" using nd' n by (simp add: new_def)
    ultimately show ?thesis using stor nF by (simp add: storage_inv_def a'_def)
  qed
  ultimately have "bins_inv a' (insert ?n F) (bl(unat ?b := ?n # bl (unat ?b)))"
    by (simp add: bins_inv_def)
  moreover have "fresh_node a' ?n offset s" using nd' n by (simp add: fresh_node_def new_def default_node_def)
  moreover have "\<forall>i \<in> valid a. i \<noteq> ?n \<longrightarrow> keeps_core a a' i"
    using nd' by (auto simp: keeps_core_def)
  moreover have "same_frame a a'" by (simp add: same_frame_def a'_def a1_def lenn)
  moreover have "free_offset a' = free_offset a - 1" by (simp add: a'_def)
  ultimately show thesis using that eq n st by blast
qed

text \<open>
  The effect of taking a node \<open>x\<close> out of its bin: its neighbours in the bin list are linked to
  each other, and the bin's head moves on when \<open>x\<close> was the head.
\<close>

lemma remove_lists:
  assumes inv: "lists_inv a F bl" and x: "x \<in> F" and b: "b = bin_of (size_of a x)"
    and split: "bl b = as @ x # bs"
    and len: "length (nodes a') = length (nodes a)"
    and bi: "bin_indices a' = (if as = [] then (bin_indices a)[b := first_of bs None]
                               else bin_indices a)"
    and old: "\<And>i. i \<in> F \<Longrightarrow> i \<noteq> x \<Longrightarrow> size_of a' i = size_of a i
        \<and> bnext a' i = (if last_of None as = Some i then first_of bs None else bnext a i)
        \<and> bprev a' i = (if first_of bs None = Some i then last_of None as else bprev a i)"
  shows "lists_inv a' (F - {x}) (bl(b := as @ bs))"
  unfolding lists_inv_def
proof (intro conjI allI impI)
  have b256: "b < 256" using b bin_of_lt by simp
  note D = lists_invD [OF inv b256]
  show "length (bin_indices a') = 256" using D bi by simp
  show "F - {x} \<subseteq> valid a'" using D len by (auto simp: valid_def)
  have dist: "distinct (as @ x # bs)" and set: "set (as @ x # bs) = {i \<in> F. bin_of (size_of a i) = b}"
    and lk: "linked (bprev a) (bnext a) None (as @ x # bs) None"
    using D split by simp_all
  have inF: "i \<in> F" "i \<noteq> x" if "i \<in> set as \<union> set bs" for i
    using that dist set by auto
  have la: "last_of None as = Some i \<longleftrightarrow> as \<noteq> [] \<and> i = last as" for i
    by (auto simp: last_of_def)
  have fi: "first_of bs None = Some i \<longleftrightarrow> bs \<noteq> [] \<and> i = hd bs" for i
    by (auto simp: first_of_def)
  fix c :: nat
  assume c: "c < 256"
  note C = lists_invD [OF inv c]
  show "distinct ((bl(b := as @ bs)) c)" using C dist by auto
  have "{i \<in> F - {x}. bin_of (size_of a' i) = c} = {i \<in> F. bin_of (size_of a i) = c} - {x}"
    using old by auto
  also have "\<dots> = set ((bl(b := as @ bs)) c)"
  proof (cases "c = b")
    case True
    have "set (as @ bs) = set (as @ x # bs) - {x}" using dist by auto
    with True set show ?thesis by simp
  qed (use C b in auto)
  finally show "set ((bl(b := as @ bs)) c) = {i \<in> F - {x}. bin_of (size_of a' i) = c}" ..
  show "bin_indices a' ! c = first_of ((bl(b := as @ bs)) c) None"
    using C D split c bi by (auto simp: nth_list_update first_of_def)
  show "linked (bprev a') (bnext a') None ((bl(b := as @ bs)) c) None"
  proof (cases "c = b")
    case True
    have "linked (bprev a') (bnext a') None as (first_of bs None)"
    proof (rule linked_last [of "bprev a" "bnext a" None as "Some x"])
      fix i assume i: "i \<in> set as"
      then have "first_of bs None \<noteq> Some i" using dist fi hd_in_set [of bs] by auto
      then show "bprev a' i = bprev a i"
        and "bnext a' i = (if i = last as then first_of bs None else bnext a i)"
        using old [of i] inF [of i] i la by auto
    qed (use lk dist in auto)
    moreover have "linked (bprev a') (bnext a') (last_of None as) bs None"
    proof (rule linked_first [of "bprev a" "bnext a" "Some x" bs None])
      fix i assume i: "i \<in> set bs"
      then have "i \<notin> set as" using dist by auto
      then have "last_of None as \<noteq> Some i" using la by (metis last_in_set)
      then show "bnext a' i = bnext a i"
        and "bprev a' i = (if i = hd bs then last_of None as else bprev a i)"
        using old [of i] inF [of i] i fi by auto
    qed (use lk dist in auto)
    ultimately show ?thesis using True by simp
  next
    case False
    have "linked (bprev a') (bnext a') None (bl c) None"
    proof (rule linked_cong [OF _ C(3)])
      fix i assume i: "i \<in> set (bl c)"
      with C have "i \<in> F" "bin_of (size_of a i) = c" by auto
      with False b set have "i \<noteq> x" "i \<notin> set as" "i \<notin> set bs" by auto
      with old [OF \<open>i \<in> F\<close>] la fi show "bprev a' i = bprev a i \<and> bnext a' i = bnext a i"
        by (metis hd_in_set last_in_set)
    qed
    with False show ?thesis by simp
  qed
qed

lemma card_valid:
  assumes "length (nodes a) < 2 ^ 32"
  shows "card (valid a) = length (nodes a)"
proof -
  have "unat ` valid a = {..<length (nodes a)}"
  proof (intro equalityI subsetI)
    fix k assume "k \<in> {..<length (nodes a)}"
    then have "unat (of_nat k :: u32) = k" "of_nat k \<in> valid a"
      using assms by (simp_all add: unat_of_nat take_bit_eq_mod)
    then show "k \<in> unat ` valid a" by (metis imageI)
  qed auto
  moreover have "inj_on (unat :: u32 \<Rightarrow> nat) (valid a)"
    by (rule inj_onI) (simp add: word_unat_eq_iff)
  ultimately show ?thesis by (metis card_image card_lessThan)
qed

lemma stack_room:
  assumes "stack_inv a R" and "x \<in> R"
  shows "Suc (unat (free_offset a)) < length (nodes a)"
    and "unat (free_offset a + 1) = Suc (unat (free_offset a))"
proof -
  have i: "length (free_nodes a) = length (nodes a)" "length (nodes a) < 2 ^ 32 - 2"
    "unat (free_offset a) < length (nodes a)" "distinct (stack_of a)"
    "set (stack_of a) \<inter> R = {}" "set (stack_of a) \<union> R = valid a"
    using assms(1) by (simp_all add: stack_inv_def)
  have "card (set (stack_of a)) < card (valid a)"
    using i(5,6) assms(2) by (intro psubset_card_mono) auto
  moreover have "card (set (stack_of a)) = Suc (unat (free_offset a))"
    using i by (simp add: distinct_card stack_of_def)
  ultimately show lt: "Suc (unat (free_offset a)) < length (nodes a)"
    using card_valid [of a] i(2) by simp
  then show "unat (free_offset a + 1) = Suc (unat (free_offset a))"
    using i(2) by (simp add: unat_word_ariths)
qed

lemma stack_push:
  assumes inv: "stack_inv a R" and x: "x \<in> R"
    and a': "free_offset a' = free_offset a + 1"
      "free_nodes a' = (free_nodes a)[unat (free_offset a + 1) := x]"
      "length (nodes a') = length (nodes a)"
  shows "stack_inv a' (R - {x})"
proof -
  note r = stack_room [OF inv x]
  have i: "length (free_nodes a) = length (nodes a)" "length (nodes a) < 2 ^ 32 - 2"
    "distinct (stack_of a)" "set (stack_of a) \<inter> R = {}" "set (stack_of a) \<union> R = valid a"
    using inv by (simp_all add: stack_inv_def)
  have "stack_of a' = stack_of a @ [x]"
    using r i a' by (simp add: stack_of_def take_Suc_conv_app_nth)
  moreover have "valid a' = valid a" using a' by (simp add: valid_def)
  ultimately show ?thesis using i r a' x by (auto simp: stack_inv_def)
qed

lemma bin_list_split:
  assumes "lists_inv a F bl" and "x \<in> F"
  obtains as bs where "bl (bin_of (size_of a x)) = as @ x # bs"
    and "bprev a x = last_of None as" and "bnext a x = first_of bs None"
    and "x \<notin> set as" and "x \<notin> set bs" and "set as \<subseteq> F" and "set bs \<subseteq> F"
    and "set as \<inter> set bs = {}"
proof -
  note D = lists_invD [OF assms(1) bin_of_lt [of "size_of a x"]]
  have "x \<in> set (bl (bin_of (size_of a x)))" using D assms(2) by auto
  then obtain as bs where ab: "bl (bin_of (size_of a x)) = as @ x # bs"
    "bprev a x = last_of None as" "bnext a x = first_of bs None" "x \<notin> set as" "x \<notin> set bs"
    using linked_split [OF D(3) _ D(1)] by blast
  have "set (as @ x # bs) \<subseteq> F" using D(2) ab(1) by auto
  with D(1) ab that show thesis by auto
qed

lemma storage_remove:
  fixes f :: "u32 \<Rightarrow> u32"
  assumes "x \<in> F"
  shows "(\<Sum>i\<in>F. f i) - f x = (\<Sum>i\<in>F - {x}. f i)"
  using assms by (simp add: sum.remove [of F x f])

lemma remove_node_ok:
  assumes bins: "bins_inv a F bl" and stack: "stack_inv a R" and "F \<subseteq> R" and x: "x \<in> F"
  obtains a' bl' where "remove_node_from_bin x a = Some a'"
    and "bins_inv a' (F - {x}) bl'" and "stack_inv a' (R - {x})" and "same_frame a a'"
    and "free_offset a' = free_offset a + 1" and "\<forall>i \<in> valid a. keeps_core a a' i"
proof -
  have bits: "bits_inv a bl" and lists: "lists_inv a F bl" and stor: "storage_inv a F"
    using bins by (simp_all add: bins_inv_def)
  have xv: "x \<in> valid a" using lists x by (auto simp: lists_inv_def)
  have xR: "x \<in> R" using x \<open>F \<subseteq> R\<close> by auto
  obtain as bs where ab: "bl (bin_of (size_of a x)) = as @ x # bs"
    "bprev a x = last_of None as" "bnext a x = first_of bs None" "x \<notin> set as" "x \<notin> set bs"
    "set as \<subseteq> F" "set bs \<subseteq> F" "set as \<inter> set bs = {}" using bin_list_split [OF lists x] by blast
  let ?b = "uint_to_float_round_down (size_of a x)"
  let ?t = "shr ?b TOP_BINS_INDEX_SHIFT" and ?l = "?b AND LEAF_BINS_INDEX_MASK"
  have b256: "unat ?b < 256" by (rule bin_of_lt)
  have tl: "unat ?t < 32" "unat ?l < 8" "unat ?b = 8 * unat ?t + unat ?l"
    using bin_split [of ?b] b256 by simp_all
  have FV: "F \<subseteq> valid a" and bl256: "length (bin_indices a) = 256"
    using lists by (simp_all add: lists_inv_def)
  have av: "i \<in> valid a" "i \<noteq> x" if "last_of None as = Some i" for i
    using that ab FV last_of_SomeD by fastforce+
  have bv: "i \<in> valid a" "i \<noteq> x" if "first_of bs None = Some i" for i
    using that ab FV first_of_SomeD by fastforce+
  have abneq: "last_of None as = Some i \<Longrightarrow> first_of bs None \<noteq> Some i" for i
    using ab(8) by (fastforce dest: last_of_SomeD first_of_SomeD)
  note room = stack_room [OF stack xR]
  have lf: "length (free_nodes a) = length (nodes a)" using stack by (simp add: stack_inv_def)
  define ns1 where "ns1 = (case last_of None as of None \<Rightarrow> nodes a
      | Some p \<Rightarrow> (nodes a)[unat p := (nd a p)\<lparr>bin_list_next := bnext a x\<rparr>])"
  define ns2 where "ns2 = (case first_of bs None of None \<Rightarrow> ns1
      | Some q \<Rightarrow> ns1[unat q := (nd a q)\<lparr>bin_list_prev := last_of None as\<rparr>])"
  have len2: "length ns2 = length (nodes a)"
    by (simp add: ns2_def ns1_def split: option.split)
  have nd2: "ns2 ! unat i = (if first_of bs None = Some i then (nd a i)\<lparr>bin_list_prev := last_of None as\<rparr>
      else if last_of None as = Some i then (nd a i)\<lparr>bin_list_next := first_of bs None\<rparr>
      else nd a i)" if "i \<in> valid a" for i
    using that ab(3) by (auto simp: ns2_def ns1_def split: option.split)
  define a1 where "a1 = a\<lparr>bin_indices :=
      (if as = [] then (bin_indices a)[unat ?b := first_of bs None] else bin_indices a), nodes := ns2\<rparr>"
  have "\<exists>ub top. bits_inv (a1\<lparr>used_bins := ub, used_bins_top := top\<rparr>)
          (bl(unat ?b := as @ bs))
      \<and> remove_node_from_bin x a = Some (a1\<lparr>used_bins := ub, used_bins_top := top,
           free_offset := free_offset a + 1,
           free_nodes := (free_nodes a)[unat (free_offset a + 1) := x],
           free_storage := free_storage a - size_of a x\<rparr>)"
  proof (cases "as = []")
    case False
    then obtain p where p: "last_of None as = Some p" by (auto simp: last_of_def)
    have "bits_inv a (bl(unat ?b := as @ bs))"
      using bits ab(1) False by (auto simp: bits_inv_def)
    then show ?thesis
      using False p ab xv av bv abneq room lf
      by (intro exI [of _ "used_bins a"] exI [of _ "used_bins_top a"])
         (auto simp: remove_node_from_bin_def Let_def a1_def ns2_def ns1_def bits_inv_def
            modify_node_def split: option.splits)
  next
    case True
    obtain ub top where c: "clear_bin_if_empty ?b ?t ?l a1 = Some (a1\<lparr>used_bins := ub, used_bins_top := top\<rparr>)"
      "bits_inv (a1\<lparr>used_bins := ub, used_bins_top := top\<rparr>) (bl(unat ?b := bs))"
    proof -
      have "bits_inv a1 bl" using bits by (simp add: a1_def bits_inv_def)
      moreover have "length (bin_indices a1) = 256" by (simp add: a1_def bl256)
      moreover have "bin_indices a1 ! unat ?b = first_of bs None"
        using True b256 bl256 by (simp add: a1_def)
      moreover have "bl (unat ?b) \<noteq> []" using ab(1) by simp
      ultimately show thesis using that clear_bin_ok [OF _ _ tl] by blast
    qed
    have "remove_node_from_bin x a = Option.bind (clear_bin_if_empty ?b ?t ?l a1)
       (\<lambda>c. Option.bind (put (free_nodes c) (unat (free_offset c + 1)) x)
       (\<lambda>frees. Some (c\<lparr>free_offset := free_offset c + 1, free_nodes := frees,
          free_storage := free_storage c - size_of a x\<rparr>)))"
      using True ab xv bv b256 bl256
      by (auto simp: remove_node_from_bin_def Let_def a1_def ns2_def ns1_def modify_node_def
          split: option.splits)
    with c True room lf show ?thesis
      by (intro exI [of _ ub] exI [of _ top]) (simp add: a1_def)
  qed
  then obtain ub top where r: "bits_inv (a1\<lparr>used_bins := ub, used_bins_top := top\<rparr>) (bl(unat ?b := as @ bs))"
    "remove_node_from_bin x a = Some (a1\<lparr>used_bins := ub, used_bins_top := top,
           free_offset := free_offset a + 1,
           free_nodes := (free_nodes a)[unat (free_offset a + 1) := x],
           free_storage := free_storage a - size_of a x\<rparr>)" by blast
  define a' where "a' = a1\<lparr>used_bins := ub, used_bins_top := top,
           free_offset := free_offset a + 1,
           free_nodes := (free_nodes a)[unat (free_offset a + 1) := x],
           free_storage := free_storage a - size_of a x\<rparr>"
  have nd': "nd a' i = ns2 ! unat i" for i by (simp add: a'_def a1_def)
  have "bits_inv a' (bl(unat ?b := as @ bs))" using r(1) by (simp add: a'_def bits_inv_def)
  moreover have "lists_inv a' (F - {x}) (bl(unat ?b := as @ bs))"
  proof (rule remove_lists [OF lists x refl ab(1)])
    fix i assume i: "i \<in> F" "i \<noteq> x"
    then have "i \<in> valid a" using FV by auto
    then show "size_of a' i = size_of a i
        \<and> bnext a' i = (if last_of None as = Some i then first_of bs None else bnext a i)
        \<and> bprev a' i = (if first_of bs None = Some i then last_of None as else bprev a i)"
      using abneq by (auto simp: nd' nd2)
  qed (simp_all add: a'_def a1_def len2)
  moreover have "storage_inv a' (F - {x})"
  proof -
    have "(\<Sum>i\<in>F - {x}. size_of a' i) = (\<Sum>i\<in>F - {x}. size_of a i)"
      using FV by (intro sum.cong) (auto simp: nd' nd2 subset_iff)
    then show ?thesis using stor storage_remove [OF x, of "\<lambda>i. size_of a i"]
      by (simp add: storage_inv_def a'_def a1_def)
  qed
  ultimately have "bins_inv a' (F - {x}) (bl(unat ?b := as @ bs))" by (simp add: bins_inv_def)
  moreover have "stack_inv a' (R - {x})"
    by (rule stack_push [OF stack xR]) (simp_all add: a'_def a1_def len2)
  moreover have "\<forall>i \<in> valid a. keeps_core a a' i"
    by (auto simp: keeps_core_def nd' nd2)
  moreover have "same_frame a a'" by (simp add: same_frame_def a'_def a1_def len2)
  moreover have "free_offset a' = free_offset a + 1" by (simp add: a'_def)
  ultimately show thesis using that r(2) a'_def by blast
qed

section \<open>Finding a bin\<close>

lemma trailing_zeros_first:
  fixes w :: "'a::len word"
  assumes "w \<noteq> 0" and "LENGTH('a) < 2 ^ 32"
  shows "bit w (unat (trailing_zeros w))" and "unat (trailing_zeros w) < LENGTH('a)"
    and "\<And>k. k < unat (trailing_zeros w) \<Longrightarrow> \<not> bit w k"
proof -
  obtain j where j: "bit w j" "j < LENGTH('a)"
    using assms(1) by (metis bit_eqI bit_0_eq bit_imp_le_length bot_apply bot_bool_def)
  have "unat (trailing_zeros w) = ctz_from LENGTH('a) 0 w"
    using ctz_from_le [of "LENGTH('a)" 0 w] assms(2)
    by (simp add: trailing_zeros_def unat_of_nat take_bit_eq_mod)
  then show "bit w (unat (trailing_zeros w))" "unat (trailing_zeros w) < LENGTH('a)"
    "\<And>k. k < unat (trailing_zeros w) \<Longrightarrow> \<not> bit w k"
    using ctz_from_first [of w j 0 "LENGTH('a)"] j by auto
qed

lemma bits_after_iff:
  fixes m st :: u32
  assumes "unat st < 32"
  shows "bit (m AND NOT (shl 1 st - 1)) i \<longleftrightarrow> bit m i \<and> unat st \<le> i"
proof -
  have "shl 1 st - 1 = (mask (unat st) :: u32)"
    using assms by (simp add: shl_def mask_eq_exp_minus_1 push_bit_eq_mult)
  then show ?thesis using bit_imp_le_length [of m i] by (auto simp: bit_simps)
qed

lemma div8_eq: "8 * t \<le> b \<Longrightarrow> b < 8 * (t + 1) \<Longrightarrow> b div 8 = (t :: nat)"
  by simp

lemma div8_ge: "\<not> b < 8 * (t + 1) \<Longrightarrow> t + 1 \<le> b div (8 :: nat)"
  by simp

lemma div8_split: "b div 8 = (t :: nat) \<Longrightarrow> b < 8 * t + l \<Longrightarrow> b = 8 * t + b mod 8 \<and> b mod 8 < l"
  using mult_div_mod_eq [of 8 b] by auto

lemma find_lowest_None:
  assumes "unat st < 32" and "find_lowest_bit_set_after m st = None" and "unat st \<le> j"
  shows "\<not> bit m j"
proof
  assume "bit m j"
  with assms have "bit (m AND NOT (shl 1 st - 1)) j" by (simp only: bits_after_iff)
  moreover have "m AND NOT (shl 1 st - 1) = 0"
    using assms(2) by (simp add: find_lowest_bit_set_after_def Let_def split: if_splits)
  ultimately show False by simp
qed

lemma find_lowest_Some:
  assumes st: "unat st < 32" and "find_lowest_bit_set_after m st = Some r"
  shows "bit m (unat r)" "unat st \<le> unat r" "unat r < 32"
    "\<And>k. unat st \<le> k \<Longrightarrow> k < unat r \<Longrightarrow> \<not> bit m k"
proof -
  let ?w = "m AND NOT (shl 1 st - 1)"
  have r: "?w \<noteq> 0" "r = trailing_zeros ?w"
    using assms(2) by (simp_all add: find_lowest_bit_set_after_def Let_def split: if_splits)
  have "bit ?w (unat r)" "unat r < 32" and least: "\<And>k. k < unat r \<Longrightarrow> \<not> bit ?w k"
    using trailing_zeros_first [OF r(1)] r(2) by auto
  then show "bit m (unat r)" "unat st \<le> unat r" "unat r < 32"
    by (simp_all only: bits_after_iff [OF st])
  show "\<not> bit m k" if "unat st \<le> k" "k < unat r" for k
    using least [OF that(2)] that(1) by (simp only: bits_after_iff [OF st]) simp
qed

text \<open>
  The search returns the lowest non-empty bin that is not below the rounded-up size, or reports
  that every such bin is empty.
\<close>

lemma allocate_find_ok:
  assumes bits: "bits_inv a bl"
  shows "\<exists>r. allocate_find s a = Some r
    \<and> (r = None \<longrightarrow> (\<forall>b<256. unat (uint_to_float_round_up s) \<le> b \<longrightarrow> bl b = []))
    \<and> (\<forall>t l. r = Some (t, l) \<longrightarrow> unat t < 32 \<and> unat l < 8 \<and> bl (8 * unat t + unat l) \<noteq> []
         \<and> unat (uint_to_float_round_up s) \<le> 8 * unat t + unat l
         \<and> (\<forall>b<8 * unat t + unat l. unat (uint_to_float_round_up s) \<le> b \<longrightarrow> bl b = []))"
proof -
  let ?m = "uint_to_float_round_up s"
  let ?t = "shr ?m TOP_BINS_INDEX_SHIFT" and ?l = "?m AND LEAF_BINS_INDEX_MASK"
  have m: "unat ?m = 8 * unat ?t + unat ?l" "unat ?l < 8" by (rule bin_split)+
  have t: "unat ?t \<le> 30" using m round_up_le_240 [of s] by linarith
  have t1: "unat (?t + 1) = unat ?t + 1" using t by (simp add: unat_word_ariths)
  have len: "length (used_bins a) = 32"
    and leaf: "\<And>t l. t < 32 \<Longrightarrow> l < 8 \<Longrightarrow> bit (used_bins a ! t) l \<longleftrightarrow> bl (8 * t + l) \<noteq> []"
    and top: "\<And>t. t < 32 \<Longrightarrow> bit (used_bins_top a) t \<longleftrightarrow> used_bins a ! t \<noteq> 0"
    using bits by (simp_all add: bits_inv_def)
  have empty_top: "bl b = []" if "b < 256" "\<not> bit (used_bins_top a) (b div 8)" for b
  proof -
    have "used_bins a ! (b div 8) = 0" using top [of "b div 8"] that by simp
    then show ?thesis using leaf [of "b div 8" "b mod 8"] that(1) by simp
  qed
  define fst_leaf where "fst_leaf = (if bit (used_bins_top a) (unat ?t)
     then find_lowest_bit_set_after (ucast (used_bins a ! unat ?t)) ?l else None)"
  have and_bit: "used_bins_top a AND shl 1 ?t \<noteq> 0 \<longleftrightarrow> bit (used_bins_top a) (unat ?t)"
  proof -
    have "bit (used_bins_top a AND shl 1 ?t) i \<longleftrightarrow> bit (used_bins_top a) i \<and> i = unat ?t" for i
      using t by (simp add: bit_simps)
    then show ?thesis by (metis bit_eqI bit_0_eq bot_apply bot_bool_def)
  qed
  have ucast_bit: "bit (ucast (w :: u8) :: u32) i \<longleftrightarrow> bit w i \<and> i < 8" for w i
    by (auto simp: bit_simps dest: bit_imp_le_length)
  show ?thesis
  proof (cases fst_leaf)
    case (Some l)
    then have f: "find_lowest_bit_set_after (ucast (used_bins a ! unat ?t)) ?l = Some l"
      and tb: "bit (used_bins_top a) (unat ?t)" by (auto simp: fst_leaf_def split: if_splits)
    have l32: "unat ?l < 32" using m(2) by simp
    note F = find_lowest_Some [OF l32 f]
    have l8: "unat l < 8" using F(1) ucast_bit by blast
    have "bl b = []" if "unat ?m \<le> b" "b < 8 * unat ?t + unat l" for b
    proof -
      have b: "b = 8 * unat ?t + (b - 8 * unat ?t)" "b - 8 * unat ?t < unat l"
        "unat ?l \<le> b - 8 * unat ?t" using that m by linarith+
      then show ?thesis using F(4) [of "b - 8 * unat ?t"] leaf [of "unat ?t" "b - 8 * unat ?t"] l8 t
        by (simp add: ucast_bit)
    qed
    moreover have "allocate_find s a = Some (Some (?t, l))"
      using f tb t len and_bit by (simp add: allocate_find_def Let_def)
    ultimately show ?thesis using F leaf [of "unat ?t" "unat l"] t l8 m by (auto simp: ucast_bit)
  next
    case None
    have same_top: "bl b = []" if "unat ?m \<le> b" "b < 8 * (unat ?t + 1)" for b
    proof (cases "bit (used_bins_top a) (unat ?t)")
      case True
      then have f: "find_lowest_bit_set_after (ucast (used_bins a ! unat ?t)) ?l = None"
        using None by (simp add: fst_leaf_def)
      have "\<not> bit (ucast (used_bins a ! unat ?t) :: u32) (b - 8 * unat ?t)"
        using that m by (intro find_lowest_None [OF _ f]) linarith+
      moreover have "8 * unat ?t \<le> b" using that m by linarith
      then have "b - 8 * unat ?t < 8" "b = 8 * unat ?t + (b - 8 * unat ?t)"
        using that by simp_all
      ultimately show ?thesis using leaf [of "unat ?t" "b - 8 * unat ?t"] t
        by (simp add: ucast_bit)
    next
      case False
      moreover have "b div 8 = unat ?t" using that m by (intro div8_eq) linarith+
      ultimately show ?thesis using empty_top [of b] that t by simp
    qed
    have st: "unat (?t + 1) < 32" using t t1 by simp
    have eq: "allocate_find s a = (case find_lowest_bit_set_after (used_bins_top a) (?t + 1) of
        None \<Rightarrow> Some None | Some t' \<Rightarrow> Option.bind (get (used_bins a) (unat t'))
          (\<lambda>leafs. Some (Some (t', trailing_zeros leafs))))"
      using None t len and_bit by (auto simp: allocate_find_def Let_def fst_leaf_def)
    show ?thesis
    proof (cases "find_lowest_bit_set_after (used_bins_top a) (?t + 1)")
      case n: None
      have "bl b = []" if "b < 256" "unat ?m \<le> b" for b
      proof (cases "b < 8 * (unat ?t + 1)")
        case True then show ?thesis using same_top that by simp
      next
        case False
        then have "\<not> bit (used_bins_top a) (b div 8)"
          using t1 div8_ge [OF False] by (intro find_lowest_None [OF st n]) simp
        then show ?thesis using empty_top that by simp
      qed
      with eq n show ?thesis by simp
    next
      case s: (Some t')
      note F = find_lowest_Some [OF st s]
      let ?w = "used_bins a ! unat t'"
      have w: "?w \<noteq> 0" using F(1,3) top by simp
      note Z = trailing_zeros_first [OF w]
      let ?l' = "trailing_zeros ?w"
      have "bl b = []" if "b < 8 * unat t' + unat ?l'" "unat ?m \<le> b" for b
      proof (cases "b < 8 * (unat ?t + 1)")
        case True then show ?thesis using same_top that by simp
      next
        case ge: False
        show ?thesis
        proof (cases "b div 8 = unat t'")
          case True
          then have "b = 8 * unat t' + b mod 8" "b mod 8 < unat ?l'"
            using that(1) div8_split by blast+
          then show ?thesis using Z(3) [of "b mod 8"] leaf [of "unat t'" "b mod 8"] F(3) by simp
        next
          case False
          have "b div 8 < unat t'" using False that(1) Z(2) by simp
          then have "\<not> bit (used_bins_top a) (b div 8)" using F(4) [of "b div 8"] ge t1 by simp
          then show ?thesis using empty_top [of b] that(1) Z(2) F(3) by simp
        qed
      qed
      moreover have "allocate_find s a = Some (Some (t', ?l'))" using eq s F(3) len by simp
      ultimately show ?thesis
        using Z leaf [of "unat t'" "unat ?l'"] F m t1 by auto
    qed
  qed
qed

section \<open>Popping a bin\<close>

lemma update_order: "a\<lparr>nodes := n, bin_indices := b\<rparr> = a\<lparr>bin_indices := b, nodes := n\<rparr>"
  for a :: allocator by simp

lemma unat_bin_index:
  fixes t l :: u32
  assumes "unat t < 32" and "unat l < 8"
  shows "unat (shl t TOP_BINS_INDEX_SHIFT OR l) = 8 * unat t + unat l"
proof -
  have "shl t TOP_BINS_INDEX_SHIFT OR l = push_bit 3 t + l"
    using assms(2) by (simp add: TOP_BINS_INDEX_SHIFT_def shl_3 push_or_disjoint)
  moreover have "unat (push_bit 3 t) = 8 * unat t"
    using assms(1) unat_shl3 [of "unat t"] by simp
  ultimately show ?thesis using assms by (simp add: unat_word_ariths)
qed

definition popped :: "allocator \<Rightarrow> allocator \<Rightarrow> u32 \<Rightarrow> u32 \<Rightarrow> bool" where
  "popped a a' x s \<longleftrightarrow> size_of a' x = s \<and> is_used a' x \<and> off_of a' x = off_of a x
     \<and> nprev a' x = nprev a x \<and> nnext a' x = nnext a x
     \<and> (\<forall>i \<in> valid a. i \<noteq> x \<longrightarrow> keeps_core a a' i)"

lemma allocate_pop_ok:
  assumes bins: "bins_inv a F bl" and t: "unat t < 32" and l: "unat l < 8"
    and hd: "bl (8 * unat t + unat l) = x # bs"
  obtains a' where "allocate_pop s t l a = Some (x, size_of a x, a')"
    and "bins_inv a' (F - {x}) (bl(8 * unat t + unat l := bs))" and "same_frame a a'"
    and "free_offset a' = free_offset a" and "free_nodes a' = free_nodes a"
    and "popped a a' x s" and "x \<in> F" and "bin_of (size_of a x) = 8 * unat t + unat l"
proof -
  have bits: "bits_inv a bl" and lists: "lists_inv a F bl" and stor: "storage_inv a F"
    using bins by (simp_all add: bins_inv_def)
  let ?b = "shl t TOP_BINS_INDEX_SHIFT OR l"
  have ub: "unat ?b = 8 * unat t + unat l" by (rule unat_bin_index [OF t l])
  have b256: "8 * unat t + unat l < 256" using t l by simp
  note D = lists_invD [OF lists b256]
  have xF: "x \<in> F" and xb: "bin_of (size_of a x) = 8 * unat t + unat l"
    using D(2) hd by auto
  have xv: "unat x < length (nodes a)" using D(6) xF by auto
  have links: "bprev a x = None" "bnext a x = first_of bs None" and xbs: "x \<notin> set bs"
    using D(1,3) unfolding hd by simp_all
  have bv: "i \<in> F" "i \<noteq> x" if "first_of bs None = Some i" for i
  proof -
    have "i \<in> set bs" using that by (auto simp: first_of_def split: if_splits)
    then show "i \<in> F" "i \<noteq> x" using D(2) hd xbs by auto
  qed
  have bv': "unat i < length (nodes a)" if "first_of bs None = Some i" for i
    using bv [OF that] D(6) by auto
  define ns1 where "ns1 = (nodes a)[unat x := (nd a x)\<lparr>data_size := s, node_used := True\<rparr>]"
  define ns2 where "ns2 = (case first_of bs None of None \<Rightarrow> ns1
      | Some q \<Rightarrow> ns1[unat q := (ns1 ! unat q)\<lparr>bin_list_prev := None\<rparr>])"
  have len2: "length ns2 = length (nodes a)" by (simp add: ns2_def ns1_def split: option.split)
  have nd2: "ns2 ! unat i = (if i = x then (nd a x)\<lparr>data_size := s, node_used := True\<rparr>
      else if first_of bs None = Some i then (nd a i)\<lparr>bin_list_prev := None\<rparr> else nd a i)"
    if "i \<in> valid a" for i
    using that bv by (auto simp: ns2_def ns1_def split: option.split)
  define a1 where "a1 = a\<lparr>bin_indices := (bin_indices a)[unat ?b := first_of bs None], nodes := ns2,
      free_storage := free_storage a - size_of a x\<rparr>"
  have "bits_inv a1 bl" using bits by (simp add: a1_def bits_inv_def)
  moreover have "length (bin_indices a1) = 256" using D by (simp add: a1_def)
  moreover have "bin_indices a1 ! unat ?b = first_of bs None"
    using b256 D(5) ub by (simp add: a1_def)
  moreover have "bl (unat ?b) \<noteq> []" using hd ub by simp
  ultimately obtain ubn top where c:
    "clear_bin_if_empty ?b t l a1 = Some (a1\<lparr>used_bins := ubn, used_bins_top := top\<rparr>)"
    "bits_inv (a1\<lparr>used_bins := ubn, used_bins_top := top\<rparr>) (bl(unat ?b := bs))"
    using clear_bin_ok [OF _ _ t l ub] by blast
  define a' where "a' = a1\<lparr>used_bins := ubn, used_bins_top := top\<rparr>"
  have "allocate_pop s t l a = Option.bind (clear_bin_if_empty ?b t l a1) (\<lambda>c. Some (x, size_of a x, c))"
    using hd ub b256 D(4,5) xv links(2) bv'
    by (auto simp: allocate_pop_def Let_def a1_def ns2_def ns1_def modify_node_def update_order
        split: option.splits)
  then have eq: "allocate_pop s t l a = Some (x, size_of a x, a')"
    by (simp add: c a'_def)
  have nd': "nd a' i = ns2 ! unat i" for i by (simp add: a'_def a1_def)
  have "lists_inv a' (F - {x}) (bl(8 * unat t + unat l := [] @ bs))"
  proof (rule remove_lists [OF lists xF])
    fix i assume i: "i \<in> F" "i \<noteq> x"
    then have "i \<in> valid a" using D(6) by auto
    with i show "size_of a' i = size_of a i
        \<and> bnext a' i = (if last_of None [] = Some i then first_of bs None else bnext a i)
        \<and> bprev a' i = (if first_of bs None = Some i then last_of None [] else bprev a i)"
      by (auto simp: nd' nd2)
  qed (simp_all add: a'_def a1_def len2 hd ub xb)
  moreover have "storage_inv a' (F - {x})"
  proof -
    have "(\<Sum>i\<in>F - {x}. size_of a' i) = (\<Sum>i\<in>F - {x}. size_of a i)"
      using D(6) by (intro sum.cong) (auto simp: nd' nd2 subset_iff)
    then show ?thesis using stor storage_remove [OF xF, of "\<lambda>i. size_of a i"]
      by (simp add: storage_inv_def a'_def a1_def)
  qed
  ultimately have "bins_inv a' (F - {x}) (bl(8 * unat t + unat l := bs))"
    using c(2) ub by (simp add: bins_inv_def a'_def)
  moreover have "popped a a' x s"
    using xv by (auto simp: popped_def keeps_core_def nd' nd2)
  moreover have "same_frame a a'" by (simp add: same_frame_def a'_def a1_def len2)
  moreover have "free_offset a' = free_offset a" "free_nodes a' = free_nodes a"
    by (simp_all add: a'_def a1_def)
  ultimately show thesis using that eq xF xb by blast
qed

end
