(* ===== verification/Offset_Allocator_Chain.thy ===== *)
theory Offset_Allocator_Chain
  imports Offset_Allocator_Proofs
begin

text \<open>
  The chain of regions of the offset allocator: addresses, neighbour links, coalescing, and what
  the updates of the neighbour links do to it.
\<close>

section \<open>The chain of regions\<close>

text \<open>
  \<open>tiles a s xs e\<close>: the regions of the nodes \<open>xs\<close> lie side by side and fill the addresses from
  \<open>s\<close> to \<open>e\<close>. \<open>chain_inv\<close> adds the neighbour links and that free regions are never adjacent.
\<close>

fun tiles :: "allocator \<Rightarrow> nat \<Rightarrow> u32 list \<Rightarrow> nat \<Rightarrow> bool" where
  "tiles a s [] e \<longleftrightarrow> s = e"
| "tiles a s (i # xs) e \<longleftrightarrow> unat (off_of a i) = s \<and> tiles a (s + unat (size_of a i)) xs e"

definition extent :: "allocator \<Rightarrow> u32 list \<Rightarrow> nat" where
  "extent a xs = (\<Sum>i\<leftarrow>xs. unat (size_of a i))"

definition chain_inv :: "allocator \<Rightarrow> u32 list \<Rightarrow> bool" where
  "chain_inv a rs \<longleftrightarrow> rs \<noteq> [] \<and> distinct rs \<and> linked (nprev a) (nnext a) None rs None
     \<and> tiles a 0 rs (unat (total_size a))
     \<and> successively (\<lambda>i j. is_used a i \<or> is_used a j) rs"

definition free_set :: "allocator \<Rightarrow> u32 list \<Rightarrow> u32 set" where
  "free_set a rs = {i \<in> set rs. \<not> is_used a i}"

definition alloc_inv :: "allocator \<Rightarrow> u32 list \<Rightarrow> (nat \<Rightarrow> u32 list) \<Rightarrow> bool" where
  "alloc_inv a rs bl \<longleftrightarrow> bins_inv a (free_set a rs) bl \<and> stack_inv a (set rs) \<and> chain_inv a rs"

lemma extent_simps [simp]:
  "extent a [] = 0" "extent a (i # xs) = unat (size_of a i) + extent a xs"
  "extent a (xs @ ys) = extent a xs + extent a ys"
  by (simp_all add: extent_def)

lemma tiles_extent: "tiles a s xs e \<Longrightarrow> e = s + extent a xs"
  by (induction xs arbitrary: s) fastforce+

lemma tiles_append [simp]:
  "tiles a s (xs @ ys) e \<longleftrightarrow> tiles a s xs (s + extent a xs) \<and> tiles a (s + extent a xs) ys e"
  by (induction xs arbitrary: s) (auto simp: add.assoc)

lemma tiles_cong:
  assumes "\<And>i. i \<in> set xs \<Longrightarrow> off_of a' i = off_of a i \<and> size_of a' i = size_of a i"
  shows "tiles a' s xs e = tiles a s xs e" and "extent a' xs = extent a xs"
  using assms by (induction xs arbitrary: s) auto

lemma successively_cong_set:
  assumes "\<And>i. i \<in> set xs \<Longrightarrow> P' i = P i"
  shows "successively (\<lambda>i j. P' i \<or> P' j) xs = successively (\<lambda>i j. P i \<or> P j) xs"
  using assms by (intro successively_cong) auto

lemma chain_inv_cong:
  assumes "\<And>i. i \<in> set rs \<Longrightarrow> keeps_core a a' i" and "total_size a' = total_size a"
  shows "chain_inv a' rs = chain_inv a rs"
proof -
  have "linked (nprev a') (nnext a') None rs None \<longleftrightarrow> linked (nprev a) (nnext a) None rs None"
    using assms(1) by (auto simp: keeps_core_def intro: linked_cong elim!: linked_cong [rotated])
  moreover have "tiles a' 0 rs (unat (total_size a)) \<longleftrightarrow> tiles a 0 rs (unat (total_size a))"
    using assms(1) by (intro tiles_cong) (simp add: keeps_core_def)
  moreover have "successively (\<lambda>i j. is_used a' i \<or> is_used a' j) rs
      \<longleftrightarrow> successively (\<lambda>i j. is_used a i \<or> is_used a j) rs"
    using assms(1) by (intro successively_cong_set) (simp add: keeps_core_def)
  ultimately show ?thesis using assms(2) by (simp add: chain_inv_def)
qed

text \<open>Changes of neighbour links leave the bins and the stack alone.\<close>

definition same_fields :: "allocator \<Rightarrow> allocator \<Rightarrow> bool" where
  "same_fields a a' \<longleftrightarrow> total_size a' = total_size a \<and> max_allocs a' = max_allocs a
     \<and> free_storage a' = free_storage a \<and> used_bins_top a' = used_bins_top a
     \<and> used_bins a' = used_bins a \<and> bin_indices a' = bin_indices a
     \<and> free_nodes a' = free_nodes a \<and> free_offset a' = free_offset a
     \<and> length (nodes a') = length (nodes a)"

definition relinked :: "allocator \<Rightarrow> allocator \<Rightarrow> bool" where
  "relinked a a' \<longleftrightarrow> same_fields a a'
     \<and> (\<forall>i \<in> valid a. off_of a' i = off_of a i \<and> size_of a' i = size_of a i
          \<and> is_used a' i = is_used a i \<and> bprev a' i = bprev a i \<and> bnext a' i = bnext a i)"

lemma relinked_fields:
  assumes "relinked a a'"
  shows "total_size a' = total_size a" "max_allocs a' = max_allocs a"
    "free_storage a' = free_storage a" "used_bins_top a' = used_bins_top a"
    "used_bins a' = used_bins a" "bin_indices a' = bin_indices a" "free_nodes a' = free_nodes a"
    "free_offset a' = free_offset a" "length (nodes a') = length (nodes a)" "valid a' = valid a"
  using assms by (simp_all add: relinked_def same_fields_def valid_def)

lemma relinked_lists:
  assumes "relinked a a'" and "lists_inv a F bl"
  shows "lists_inv a' F bl"
proof -
  have F: "F \<subseteq> valid a" using assms(2) by (simp add: lists_inv_def)
  have ns: "size_of a' i = size_of a i \<and> bprev a' i = bprev a i \<and> bnext a' i = bnext a i"
    if "i \<in> F" for i
    using assms(1) that F by (auto simp: relinked_def)
  have "linked (bprev a') (bnext a') None (bl b) None" if "b < 256" for b
  proof (rule linked_cong [where pv = "bprev a" and nx = "bnext a"])
    show "linked (bprev a) (bnext a) None (bl b) None" by (rule lists_invD [OF assms(2) that])
    show "bprev a' i = bprev a i \<and> bnext a' i = bnext a i" if "i \<in> set (bl b)" for i
      using ns [of i] that lists_invD(2) [OF assms(2) \<open>b < 256\<close>] by blast
  qed
  moreover have "{i \<in> F. bin_of (size_of a' i) = b} = {i \<in> F. bin_of (size_of a i) = b}" for b
    using ns by auto
  ultimately show ?thesis
    using assms(2) by (simp add: lists_inv_def relinked_fields [OF assms(1)])
qed

lemma relinked_bins:
  assumes "relinked a a'" and "bins_inv a F bl"
  shows "bins_inv a' F bl"
proof -
  have "F \<subseteq> valid a" using assms(2) by (simp add: bins_inv_def lists_inv_def)
  then have "(\<Sum>i\<in>F. size_of a' i) = (\<Sum>i\<in>F. size_of a i)"
    using assms(1) unfolding relinked_def by (intro sum.cong) blast+
  then have "storage_inv a' F"
    using assms(2) by (simp add: bins_inv_def storage_inv_def relinked_fields(3) [OF assms(1)])
  moreover have "bits_inv a' bl"
    using assms(2) by (simp add: bins_inv_def bits_inv_def relinked_fields(4,5) [OF assms(1)])
  ultimately show ?thesis
    using relinked_lists [OF assms(1)] assms(2) by (simp add: bins_inv_def)
qed

lemma relinked_stack:
  assumes "relinked a a'" and "stack_inv a R" shows "stack_inv a' R"
  using assms relinked_fields [OF assms(1)]
  by (simp add: stack_inv_def stack_of_def)

lemma linked_insert:
  assumes "linked pv nx None as u" and "linked pv nx v bs None" and "distinct (as @ n # bs)"
    and "pv' n = last_of None as" and "nx' n = first_of bs None"
    and "\<And>i. i \<in> set as \<Longrightarrow>
      pv' i = pv i \<and> nx' i = (if last_of None as = Some i then Some n else nx i)"
    and "\<And>i. i \<in> set bs \<Longrightarrow>
      nx' i = nx i \<and> pv' i = (if first_of bs None = Some i then Some n else pv i)"
  shows "linked pv' nx' None (as @ n # bs) None"
proof -
  have d: "distinct as" "distinct bs" using assms(3) by auto
  have "linked pv' nx' None as (Some n)"
  proof (rule linked_last [OF assms(1) _ _ d(1)])
    fix i assume i: "i \<in> set as"
    then have "last_of None as = Some (last as)" by (auto simp: last_of_def)
    with assms(6) [OF i] show "pv' i = pv i" "nx' i = (if i = last as then Some n else nx i)" by auto
  qed
  moreover have "linked pv' nx' (Some n) bs None"
  proof (rule linked_first [OF assms(2) _ _ d(2)])
    fix i assume i: "i \<in> set bs"
    then have "first_of bs None = Some (hd bs)" by (auto simp: first_of_def)
    with assms(7) [OF i] show "nx' i = nx i" "pv' i = (if i = hd bs then Some n else pv i)" by auto
  qed
  ultimately show ?thesis using assms(4,5) by simp
qed

definition spliced :: "allocator \<Rightarrow> allocator \<Rightarrow> u32 list \<Rightarrow> u32 \<Rightarrow> u32 list \<Rightarrow> bool" where
  "spliced a a' as n bs \<longleftrightarrow> relinked a a'
     \<and> nprev a' n = last_of None as \<and> nnext a' n = first_of bs None
     \<and> (\<forall>i \<in> set as. nprev a' i = nprev a i
          \<and> nnext a' i = (if last_of None as = Some i then Some n else nnext a i))
     \<and> (\<forall>i \<in> set bs. nnext a' i = nnext a i
          \<and> nprev a' i = (if first_of bs None = Some i then Some n else nprev a i))"

lemma spliced_linked:
  assumes "spliced a a' as n bs" and "distinct (as @ n # bs)"
    and "linked (nprev a) (nnext a) None as u" and "linked (nprev a) (nnext a) v bs None"
  shows "linked (nprev a') (nnext a') None (as @ n # bs) None"
  by (rule linked_insert [OF assms(3,4,2)]; use assms(1) in \<open>unfold spliced_def, blast\<close>)

lemma relinked_core:
  "relinked a a' \<Longrightarrow> i \<in> valid a \<Longrightarrow> off_of a' i = off_of a i \<and> size_of a' i = size_of a i
     \<and> is_used a' i = is_used a i"
  by (auto simp: relinked_def)

lemma relinked_frame: "relinked a a' \<Longrightarrow> same_frame a a' \<and> free_offset a' = free_offset a"
  by (simp add: relinked_fields same_frame_def)

text \<open>The link updates of \<open>allocate\<close> splice the remainder in after the allocated node.\<close>

lemma allocate_split_links:
  assumes v: "set (as @ x # n # bs) \<subseteq> valid a" and d: "distinct (as @ x # n # bs)"
    and q: "nnext a x = first_of bs None"
  shows "\<exists>a'. allocate_link x n (first_of bs None) a = Some a' \<and> spliced a a' (as @ [x]) n bs"
proof -
  have l: "unat x < length (nodes a)" "unat n < length (nodes a)" "x \<noteq> n"
    "\<And>i. i \<in> set as \<Longrightarrow> unat i < length (nodes a) \<and> i \<noteq> x \<and> i \<noteq> n"
    "\<And>i. i \<in> set bs \<Longrightarrow> unat i < length (nodes a) \<and> i \<noteq> x \<and> i \<noteq> n \<and> i \<notin> set as"
    using v d by (auto simp: subset_iff)
  show ?thesis
  proof (cases bs)
    case Nil
    then have "\<exists>ns. allocate_link x n (first_of bs None) a = Some (a\<lparr>nodes := ns\<rparr>) \<and> ns =
      (nodes a)[unat n := (nd a n)\<lparr>neighbor_prev := Some x, neighbor_next := None\<rparr>,
                unat x := (nd a x)\<lparr>neighbor_next := Some n\<rparr>]"
      using l(1-3) q by (simp add: allocate_link_def)
    with l Nil show ?thesis by (auto simp: spliced_def relinked_def same_fields_def)
  next
    case (Cons y ys)
    then have y: "unat y < length (nodes a)" "y \<noteq> x" "y \<noteq> n" "y \<notin> set as" "x \<noteq> y" "n \<noteq> y"
      using l(5) [of y] by auto
    have "\<exists>ns. allocate_link x n (first_of bs None) a = Some (a\<lparr>nodes := ns\<rparr>) \<and> ns =
      (nodes a)[unat y := (nd a y)\<lparr>neighbor_prev := Some n\<rparr>,
                unat n := (nd a n)\<lparr>neighbor_prev := Some x, neighbor_next := Some y\<rparr>,
                unat x := (nd a x)\<lparr>neighbor_next := Some n\<rparr>]"
      using l(1-3) y q Cons by (simp add: allocate_link_def)
    with l y Cons d show ?thesis by (auto simp: spliced_def relinked_def same_fields_def)
  qed
qed

end
