(* ===== verification/Offset_Allocator_Alloc.thy ===== *)
theory Offset_Allocator_Alloc
  imports Offset_Allocator_Chain
begin

text \<open>
  \<open>allocate\<close> keeps the main invariant \<open>alloc_inv\<close> of the offset allocator, never panics, and
  either carves the request from a free region or fails for one of its two reasons.
\<close>

section \<open>Splitting\<close>

definition keeps_data :: "allocator \<Rightarrow> allocator \<Rightarrow> u32 \<Rightarrow> bool" where
  "keeps_data a a' i \<longleftrightarrow> off_of a' i = off_of a i \<and> size_of a' i = size_of a i
     \<and> is_used a' i = is_used a i"

lemma keeps_data_trans: "keeps_data a b i \<Longrightarrow> keeps_data b c i \<Longrightarrow> keeps_data a c i"
  by (simp add: keeps_data_def)

lemma keeps_core_data: "keeps_core a a' i \<Longrightarrow> keeps_data a a' i"
  by (simp add: keeps_core_def keeps_data_def)

lemma relinked_data: "relinked a a' \<Longrightarrow> i \<in> valid a \<Longrightarrow> keeps_data a a' i"
  by (simp add: relinked_def keeps_data_def)

lemma core_linked:
  assumes "linked (nprev a) (nnext a) p xs q" and "\<And>i. i \<in> set xs \<Longrightarrow> keeps_core a a' i"
  shows "linked (nprev a') (nnext a') p xs q"
  by (rule linked_cong [OF _ assms(1)]) (use assms(2) in \<open>simp add: keeps_core_def\<close>)

lemma stack_valid: "stack_inv a R \<Longrightarrow> R \<subseteq> valid a"
  by (auto simp: stack_inv_def)

lemma allocate_split_ok:
  assumes bins: "bins_inv a F bl" and stack: "stack_inv a (set (as @ x # bs))"
    and F: "F \<subseteq> set as \<union> set bs" and fo: "0 < free_offset a" and d: "distinct (as @ x # bs)"
    and lk: "linked (nprev a) (nnext a) None (as @ x # bs) None" and z: "0 < z - s"
  obtains n a' bl' where "allocate_split s x z a = Some a'" and "n \<notin> set (as @ x # bs)"
    and "bins_inv a' (insert n F) bl'" and "stack_inv a' (set (as @ x # n # bs))"
    and "same_frame a a'" and "linked (nprev a') (nnext a') None (as @ x # n # bs) None"
    and "off_of a' n = off_of a x + s" and "size_of a' n = z - s" and "\<not> is_used a' n"
    and "\<forall>i \<in> set (as @ x # bs). keeps_data a a' i"
proof -
  let ?R = "set (as @ x # bs)"
  have R: "?R \<subseteq> valid a" by (rule stack_valid [OF stack])
  obtain n a1 where i1: "insert_node_into_bin (z - s) (off_of a x + s) a = Some (n, a1)"
    and n: "n \<notin> ?R" "n \<in> valid a" and fr: "same_frame a a1"
    and bins1: "bins_inv a1 (insert n F) (bl(bin_of (z - s) := n # bl (bin_of (z - s))))"
    and stack1: "stack_inv a1 (insert n ?R)" and fresh: "fresh_node a1 n (off_of a x + s) (z - s)"
    and keep: "\<forall>i \<in> valid a. i \<noteq> n \<longrightarrow> keeps_core a a1 i"
    using F by (rule_tac insert_node_ok [OF bins stack _ fo, of "z - s" "off_of a x + s"]) auto
  have k1: "keeps_core a a1 i" if "i \<in> ?R" for i using keep that n(1) R by (metis subset_iff)
  have lk1: "linked (nprev a1) (nnext a1) None (as @ x # bs) None"
    by (rule core_linked [OF lk k1])
  have v1: "valid a1 = valid a" using fr by (simp add: same_frame_def valid_def)
  have links: "set (as @ x # n # bs) \<subseteq> valid a1" "distinct (as @ x # n # bs)"
    "nnext a1 x = first_of bs None"
    using R n d lk1 v1 by auto
  obtain a' where a': "allocate_link x n (first_of bs None) a1 = Some a'"
    and sp: "spliced a1 a' (as @ [x]) n bs"
    using allocate_split_links [OF links] by (elim exE conjE)
  have rl: "relinked a1 a'" using sp by (simp add: spliced_def)
  have run: "allocate_split s x z a = Some a'"
  proof -
    have "node_at a x = Some (nd a x)" "nnext a x = first_of bs None" using R lk by simp_all
    with z i1 a' show ?thesis unfolding allocate_split_def by simp
  qed
  have ra: "off_of a' i = off_of a1 i \<and> size_of a' i = size_of a1 i \<and> is_used a' i = is_used a1 i"
    if "i \<in> valid a" for i
    using relinked_core [OF rl] that v1 by simp
  have lk': "linked (nprev a') (nnext a') None ((as @ [x]) @ n # bs) None"
    using spliced_linked [OF sp, where u = "first_of bs None" and v = "Some x"] lk1 d n(1) by auto
  show thesis
  proof (rule that [OF run n(1) relinked_bins [OF rl bins1]])
    show "stack_inv a' (set (as @ x # n # bs))"
      using relinked_stack [OF rl stack1] by (simp add: insert_commute)
    show "same_frame a a'" using fr relinked_frame [OF rl] same_frame_trans by blast
    show "linked (nprev a') (nnext a') None (as @ x # n # bs) None" using lk' by simp
    show "off_of a' n = off_of a x + s" "size_of a' n = z - s" "\<not> is_used a' n"
      using ra [OF n(2)] fresh by (simp_all add: fresh_node_def)
    show "\<forall>i \<in> ?R. keeps_data a a' i"
    proof
      fix i assume i: "i \<in> ?R"
      with R have "i \<in> valid a" by blast
      from ra [OF this] keeps_core_data [OF k1 [OF i]] show "keeps_data a a' i"
        by (simp add: keeps_data_def)
    qed
  qed
qed

section \<open>Allocation\<close>

type_synonym region = "u32 \<times> nat \<times> nat \<times> bool"

definition region :: "allocator \<Rightarrow> u32 \<Rightarrow> region" where
  "region a i = (i, unat (off_of a i), unat (size_of a i), is_used a i)"

abbreviation "regions a rs \<equiv> map (region a) rs"
abbreviation "coalesced a rs \<equiv> successively (\<lambda>i j. is_used a i \<or> is_used a j) rs"

lemma keeps_tiles:
  assumes "\<And>i. i \<in> set xs \<Longrightarrow> keeps_data a a' i"
  shows "tiles a' s xs e = tiles a s xs e" "extent a' xs = extent a xs"
    "coalesced a' xs = coalesced a xs" "regions a' xs = regions a xs" "free_set a' xs = free_set a xs"
  using assms by (auto intro!: tiles_cong successively_cong_set simp: keeps_data_def region_def free_set_def)

lemma tiles_end_le: "tiles a s xs e \<Longrightarrow> s \<le> e"
  by (drule tiles_extent) simp

lemma tiles_split:
  fixes T :: u32
  assumes t: "tiles a 0 (as @ x # bs) (unat T)"
    and k: "\<And>i. i \<in> set as \<union> set bs \<Longrightarrow> keeps_data a a' i"
    and x: "off_of a' x = off_of a x" "size_of a' x = s" and "s \<le> size_of a x"
    and n: "off_of a' n = off_of a x + s" "size_of a' n = size_of a x - s"
  shows "tiles a' 0 (as @ x # n # bs) (unat T)"
proof -
  have "unat (off_of a x) + unat (size_of a x) \<le> unat T" using t tiles_end_le by auto
  moreover have "unat s \<le> unat (size_of a x)" using assms by (simp add: word_le_nat_alt)
  moreover have "unat T < 2 ^ LENGTH(32)" by (rule unsigned_less)
  ultimately have "unat (off_of a x + s) = unat (off_of a x) + unat s"
    "unat (size_of a x - s) = unat (size_of a x) - unat s"
    by (simp_all add: unat_word_ariths unat_sub_if')
  then show ?thesis
    using t k x n \<open>unat s \<le> _\<close> keeps_tiles [of as a a'] keeps_tiles [of bs a a'] by auto
qed

lemma bins_of_free:
  assumes "lists_inv a F bl" and "i \<in> F"
  shows "bl (bin_of (size_of a i)) \<noteq> []"
  using lists_invD(2) [OF assms(1) bin_of_lt [of "size_of a i"]] assms(2) by auto

lemma fits:
  assumes "unat (uint_to_float_round_up s) \<le> bin_of z"
  shows "s \<le> z"
  using assms bins_fit [of s z] by (simp add: word_le_nat_alt)

lemma free_set_simps:
  "free_set a (xs @ ys) = free_set a xs \<union> free_set a ys"
  "free_set a [] = {}" "free_set a (x # xs) = (if is_used a x then {} else {x}) \<union> free_set a xs"
  by (auto simp: free_set_def)

lemma free_set_subset: "free_set a xs \<subseteq> set xs"
  by (auto simp: free_set_def)

text \<open>What \<open>allocate\<close> does to the list of regions when it takes the free region of node \<open>x\<close>.\<close>

definition carved :: "allocator \<Rightarrow> u32 list \<Rightarrow> u32 \<Rightarrow> u32 list \<Rightarrow> nat \<Rightarrow> allocator \<Rightarrow> u32 list \<Rightarrow> bool" where
  "carved a as x bs s a' rs' \<longleftrightarrow>
     s \<le> unat (size_of a x) \<and> \<not> is_used a x \<and>
     (\<exists>n. (s < unat (size_of a x) \<longrightarrow> n \<notin> set (as @ x # bs))
        \<and> regions a' rs' = regions a as @ (x, unat (off_of a x), s, True)
            # (if s < unat (size_of a x)
               then [(n, unat (off_of a x) + s, unat (size_of a x) - s, False)] else [])
            @ regions a bs)"

lemma popped_chain:
  assumes ch: "chain_inv a (as @ x # bs)" and v: "set (as @ x # bs) \<subseteq> valid a"
    and p: "popped a a' x s" and fr: "same_frame a a'"
  shows "linked (nprev a') (nnext a') None (as @ x # bs) None"
    and "\<And>i. i \<in> set as \<union> set bs \<Longrightarrow> keeps_data a a' i"
    and "coalesced a' (as @ x # bs)" and "distinct (as @ x # bs)"
proof -
  show d: "distinct (as @ x # bs)" using ch by (simp add: chain_inv_def)
  have k: "keeps_core a a' i" if "i \<in> set as \<union> set bs" for i
    using p v d that by (auto simp: popped_def)
  then show "keeps_data a a' i" if "i \<in> set as \<union> set bs" for i
    using that keeps_core_data by blast
  show "linked (nprev a') (nnext a') None (as @ x # bs) None"
  proof (rule linked_cong)
    show "linked (nprev a) (nnext a) None (as @ x # bs) None" using ch by (simp add: chain_inv_def)
    fix i assume "i \<in> set (as @ x # bs)"
    then show "nprev a' i = nprev a i \<and> nnext a' i = nnext a i"
      using k [of i] p by (cases "i = x") (auto simp: popped_def keeps_core_def)
  qed
  have "coalesced a (as @ x # bs)" using ch by (simp add: chain_inv_def)
  then show "coalesced a' (as @ x # bs)"
    by (rule successively_mono) (use k p in \<open>auto simp: keeps_core_def popped_def\<close>)
qed

text \<open>The state between \<open>allocate_pop\<close> and \<open>allocate_split\<close>.\<close>

definition taken :: "allocator \<Rightarrow> u32 list \<Rightarrow> u32 \<Rightarrow> u32 list \<Rightarrow> u32 \<Rightarrow> allocator \<Rightarrow> bool" where
  "taken a as x bs s a1 \<longleftrightarrow> stack_inv a (set (as @ x # bs)) \<and> chain_inv a (as @ x # bs)
     \<and> \<not> is_used a x \<and> s \<le> size_of a x \<and> 0 < free_offset a \<and> same_frame a a1
     \<and> free_offset a1 = free_offset a \<and> free_nodes a1 = free_nodes a \<and> popped a a1 x s"

lemma takenD:
  assumes "taken a as x bs s a1"
  shows "stack_inv a1 (set (as @ x # bs))" and "linked (nprev a1) (nnext a1) None (as @ x # bs) None"
    and "\<And>i. i \<in> set as \<union> set bs \<Longrightarrow> keeps_data a a1 i"
    and "coalesced a1 (as @ x # bs)" and "distinct (as @ x # bs)"
    and "free_set a (as @ x # bs) - {x} = free_set a1 (as @ bs)"
    and "size_of a1 x = s \<and> is_used a1 x \<and> off_of a1 x = off_of a x"
    and "total_size a1 = total_size a" and "tiles a 0 (as @ x # bs) (unat (total_size a))"
    and "set (as @ x # bs) \<subseteq> valid a" and "x \<in> valid a1"
proof -
  let ?rs = "as @ x # bs"
  have stack: "stack_inv a (set ?rs)" and ch: "chain_inv a ?rs" and x: "\<not> is_used a x"
    and fr: "same_frame a a1" and p: "popped a a1 x s"
    and fo1: "free_offset a1 = free_offset a" "free_nodes a1 = free_nodes a"
    using assms by (simp_all add: taken_def)
  show v: "set ?rs \<subseteq> valid a" by (rule stack_valid [OF stack])
  note P = popped_chain [OF ch v p fr]
  show "linked (nprev a1) (nnext a1) None ?rs None" "coalesced a1 ?rs" "distinct ?rs"
    by (rule P)+
  show k: "keeps_data a a1 i" if "i \<in> set as \<union> set bs" for i by (rule P(2) [OF that])
  show "free_set a ?rs - {x} = free_set a1 (as @ bs)"
    using keeps_tiles(5) [of "as @ bs" a a1] k x P(4)
    by (auto simp: free_set_simps) (auto simp: free_set_def)
  show "stack_inv a1 (set ?rs)"
    using stack fo1 fr by (simp add: stack_inv_def stack_of_def same_frame_def valid_def)
  show "size_of a1 x = s \<and> is_used a1 x \<and> off_of a1 x = off_of a x"
    using p by (simp add: popped_def)
  show "tiles a 0 ?rs (unat (total_size a))" using ch by (simp add: chain_inv_def)
  show "total_size a1 = total_size a" "x \<in> valid a1"
    using fr v by (simp_all add: same_frame_def)
qed

lemma allocate_exact:
  assumes T: "taken a as x bs s a1" and s: "s = size_of a x"
    and bins: "bins_inv a1 (free_set a (as @ x # bs) - {x}) bl1"
  shows "allocate_split s x (size_of a x) a1 = Some a1" and "alloc_inv a1 (as @ x # bs) bl1"
    and "carved a as x bs (unat s) a1 (as @ x # bs)"
proof -
  note D = takenD [OF T]
  note k = keeps_tiles [of as a a1, OF D(3)] keeps_tiles [of bs a a1, OF D(3)]
  show "allocate_split s x (size_of a x) a1 = Some a1" by (simp add: allocate_split_def s)
  have "chain_inv a1 (as @ x # bs)"
    using D k s by (simp add: chain_inv_def)
  moreover have "free_set a1 (as @ x # bs) = free_set a1 (as @ bs)"
    using D(7) by (simp add: free_set_simps)
  ultimately show "alloc_inv a1 (as @ x # bs) bl1"
    using bins D(1,6) by (simp add: alloc_inv_def)
  show "carved a as x bs (unat s) a1 (as @ x # bs)"
    using T D(7) k s unfolding carved_def taken_def region_def by auto
qed

lemma allocate_carve:
  assumes T: "taken a as x bs s a1" and s: "s \<noteq> size_of a x"
    and bins: "bins_inv a1 (free_set a (as @ x # bs) - {x}) bl1"
  obtains a' n bl' where "allocate_split s x (size_of a x) a1 = Some a'"
    and "alloc_inv a' (as @ x # n # bs) bl'" and "same_frame a1 a'" and "keeps_data a1 a' x"
    and "carved a as x bs (unat s) a' (as @ x # n # bs)"
proof -
  note D = takenD [OF T]
  have z: "unat s < unat (size_of a x)" "unat (size_of a x - s) = unat (size_of a x) - unat s"
    using T s by (simp_all add: taken_def word_le_nat_alt unat_sub_if' word_unat_eq_iff)
  then have "0 < size_of a x - s" by (simp add: word_less_nat_alt)
  moreover have "0 < free_offset a1" using T by (simp add: taken_def)
  ultimately obtain n a' bl' where run: "allocate_split s x (size_of a x) a1 = Some a'"
    and n: "n \<notin> set (as @ x # bs)"
    and bins': "bins_inv a' (insert n (free_set a (as @ x # bs) - {x})) bl'"
    and stack': "stack_inv a' (set (as @ x # n # bs))" and fr': "same_frame a1 a'"
    and lk: "linked (nprev a') (nnext a') None (as @ x # n # bs) None"
    and dn: "off_of a' n = off_of a1 x + s" "size_of a' n = size_of a x - s" "\<not> is_used a' n"
    and k: "\<forall>i \<in> set (as @ x # bs). keeps_data a1 a' i"
    using D(6) free_set_subset [of a1 "as @ bs"]
    by (rule_tac allocate_split_ok [OF bins D(1) _ _ D(5,2), of "size_of a x"]) auto
  have k': "keeps_data a a' i" if "i \<in> set as \<union> set bs" for i
    using keeps_data_trans [OF D(3) [OF that]] k that by auto
  note K = keeps_tiles [of as a a', OF k'] keeps_tiles [of bs a a', OF k']
  have x: "off_of a' x = off_of a x" "size_of a' x = s" "is_used a' x"
    using k D(7) by (simp_all add: keeps_data_def)
  have total: "total_size a' = total_size a" using fr' D(8) by (simp add: same_frame_def)
  have "tiles a' 0 (as @ x # n # bs) (unat (total_size a))"
    using T x dn D(7) by (intro tiles_split [OF D(9) k']) (auto simp: taken_def)
  moreover have "coalesced a' (as @ x # n # bs)"
  proof -
    have "coalesced a (as @ x # bs)" "\<not> is_used a x"
      using T by (simp_all add: taken_def chain_inv_def)
    moreover have "is_used a' (last as) = is_used a (last as)" if "as \<noteq> []"
      using k' [of "last as"] that by (simp add: keeps_data_def)
    moreover have "is_used a' (hd bs) = is_used a (hd bs)" if "bs \<noteq> []"
      using k' [of "hd bs"] that by (simp add: keeps_data_def)
    ultimately show ?thesis
      using K(3,8) x(3) by (auto simp: successively_append_iff successively_Cons)
  qed
  ultimately have "chain_inv a' (as @ x # n # bs)"
    using lk D(5) n total by (auto simp: chain_inv_def)
  moreover have "free_set a' (as @ x # n # bs) = insert n (free_set a (as @ x # bs) - {x})"
  proof -
    have "free_set a1 (as @ bs) = free_set a' (as @ bs)"
      using keeps_tiles(5) [of "as @ bs" a1 a'] k by auto
    with D(6) x dn show ?thesis by (simp add: free_set_simps)
  qed
  ultimately have "alloc_inv a' (as @ x # n # bs) bl'"
    using bins' stack' by (simp add: alloc_inv_def)
  moreover have "carved a as x bs (unat s) a' (as @ x # n # bs)"
  proof -
    have "unat (off_of a x) + unat (size_of a x) \<le> unat (total_size a)"
      using D(9) tiles_end_le by auto
    moreover have "unat (total_size a) < 2 ^ LENGTH(32)" by (rule unsigned_less)
    ultimately have "unat (off_of a x + s) = unat (off_of a x) + unat s"
      using z(1) by (simp add: unat_word_ariths)
    then show ?thesis
      using n T x dn K(4,9) z D(7) by (auto simp: carved_def taken_def region_def)
  qed
  ultimately show thesis using that run fr' k by auto
qed

text \<open>The outcome of \<open>allocate\<close>: a failure leaves the state alone and has one of two reasons; a
  success carves the request from a free region.\<close>

definition best_bin :: "allocator \<Rightarrow> u32 list \<Rightarrow> u32 \<Rightarrow> u32 \<Rightarrow> bool" where
  "best_bin a rs s x \<longleftrightarrow> uint_to_float_round_up s \<le> uint_to_float_round_down (size_of a x)
     \<and> (\<forall>j \<in> free_set a rs. uint_to_float_round_up s \<le> uint_to_float_round_down (size_of a j)
          \<longrightarrow> uint_to_float_round_down (size_of a x) \<le> uint_to_float_round_down (size_of a j))"

definition allocate_post :: "allocator \<Rightarrow> u32 list \<Rightarrow> u32 \<Rightarrow> allocation option \<Rightarrow> allocator \<Rightarrow> u32 list \<Rightarrow> bool" where
  "allocate_post a rs s r a' rs' \<longleftrightarrow> (case r of
       None \<Rightarrow> a' = a \<and> rs' = rs \<and> (free_offset a = 0
         \<or> (\<forall>i \<in> free_set a rs. uint_to_float_round_down (size_of a i) < uint_to_float_round_up s))
     | Some al \<Rightarrow> 0 < free_offset a \<and> (\<exists>as bs. rs = as @ alloc_metadata al # bs
         \<and> alloc_offset al = off_of a (alloc_metadata al) \<and> best_bin a rs s (alloc_metadata al)
         \<and> carved a as (alloc_metadata al) bs (unat s) a' rs'))"

lemma allocate_split_post:
  assumes T: "taken a as x bs s a1" and bins: "bins_inv a1 (free_set a (as @ x # bs) - {x}) bl1"
  shows "\<exists>a' rs' bl'. allocate_split s x (size_of a x) a1 = Some a' \<and> alloc_inv a' rs' bl'
           \<and> same_frame a a' \<and> x \<in> valid a' \<and> off_of a' x = off_of a x
           \<and> carved a as x bs (unat s) a' rs'"
proof (cases "s = size_of a x")
  case True
  then show ?thesis
    using allocate_exact [OF T True bins] T takenD [OF T] by (auto simp: taken_def)
next
  case False
  obtain a' n bl' where A: "allocate_split s x (size_of a x) a1 = Some a'"
    "alloc_inv a' (as @ x # n # bs) bl'" "same_frame a1 a'" "keeps_data a1 a' x"
    "carved a as x bs (unat s) a' (as @ x # n # bs)"
    using allocate_carve [OF T False bins] by metis
  moreover have "off_of a' x = off_of a x" using A(4) takenD(7) [OF T] by (simp add: keeps_data_def)
  moreover have "same_frame a a'" using T A(3) same_frame_trans by (auto simp: taken_def)
  moreover have "x \<in> valid a'" using A(3) takenD(11) [OF T] by (simp add: same_frame_def)
  ultimately show ?thesis by blast
qed

lemma allocate_pop_taken:
  assumes inv: "alloc_inv a rs bl" and fo: "0 < free_offset a"
    and f: "unat t < 32" "unat l < 8" "bl (8 * unat t + unat l) \<noteq> []"
      "unat (uint_to_float_round_up s) \<le> 8 * unat t + unat l"
      "\<forall>b<8 * unat t + unat l. unat (uint_to_float_round_up s) \<le> b \<longrightarrow> bl b = []"
  obtains as x bs a1 bl1 where "rs = as @ x # bs" and "taken a as x bs s a1"
    and "allocate_pop s t l a = Some (x, size_of a x, a1)"
    and "bins_inv a1 (free_set a (as @ x # bs) - {x}) bl1" and "best_bin a rs s x"
proof -
  have bins: "bins_inv a (free_set a rs) bl" and stack: "stack_inv a (set rs)"
    and ch: "chain_inv a rs" using inv by (simp_all add: alloc_inv_def)
  obtain x ys where hd: "bl (8 * unat t + unat l) = x # ys" using f(3) by (cases "bl (8 * unat t + unat l)") auto
  obtain a1 where P: "allocate_pop s t l a = Some (x, size_of a x, a1)"
    "bins_inv a1 (free_set a rs - {x}) (bl(8 * unat t + unat l := ys))" "same_frame a a1"
    "free_offset a1 = free_offset a" "free_nodes a1 = free_nodes a"
    "popped a a1 x s" "x \<in> free_set a rs" "bin_of (size_of a x) = 8 * unat t + unat l"
    using allocate_pop_ok [OF bins f(1,2) hd] by metis
  then obtain as bs where rs: "rs = as @ x # bs" "\<not> is_used a x"
    by (auto simp: free_set_def dest: split_list)
  have "s \<le> size_of a x" using bins_fit [of s "size_of a x"] f(4) P(8) by (simp add: word_le_nat_alt)
  with P rs stack ch fo have "taken a as x bs s a1" by (simp add: taken_def)
  moreover have "best_bin a rs s x"
  proof -
    have "lists_inv a (free_set a rs) bl" using bins by (simp add: bins_inv_def)
    from bins_of_free [OF this] f(4,5) P(8) show ?thesis
      unfolding best_bin_def by (metis linorder_not_less word_le_nat_alt)
  qed
  ultimately show thesis using P(1,2) rs(1) that by blast
qed

lemma allocate_ok:
  assumes inv: "alloc_inv a rs bl"
  shows "\<exists>r a' rs' bl'. allocate s a = Some (r, a') \<and> alloc_inv a' rs' bl' \<and> same_frame a a'
           \<and> allocate_post a rs s r a' rs'"
proof (cases "free_offset a = 0")
  case True
  with inv show ?thesis
    by (intro exI [of _ None] exI [of _ a] exI [of _ rs] exI [of _ bl])
      (simp add: allocate_def allocate_post_def same_frame_def)
next
  case False
  then have fo: "0 < free_offset a" by (simp add: word_neq_0_conv)
  have bins: "bits_inv a bl" "lists_inv a (free_set a rs) bl"
    using inv by (simp_all add: alloc_inv_def bins_inv_def)
  obtain r where r: "allocate_find s a = Some r"
    "r = None \<longrightarrow> (\<forall>b<256. unat (uint_to_float_round_up s) \<le> b \<longrightarrow> bl b = [])"
    "\<And>t l. r = Some (t, l) \<Longrightarrow> unat t < 32 \<and> unat l < 8 \<and> bl (8 * unat t + unat l) \<noteq> []
         \<and> unat (uint_to_float_round_up s) \<le> 8 * unat t + unat l
         \<and> (\<forall>b<8 * unat t + unat l. unat (uint_to_float_round_up s) \<le> b \<longrightarrow> bl b = [])"
    using allocate_find_ok [OF bins(1), of s] by metis
  show ?thesis
  proof (cases r)
    case None
    have "uint_to_float_round_down (size_of a i) < uint_to_float_round_up s" if "i \<in> free_set a rs" for i
      using bins_of_free [OF bins(2) that] r(2) None bin_of_lt [of "size_of a i"]
      by (meson linorder_not_le word_le_nat_alt)
    with None r(1) False inv show ?thesis
      by (intro exI [of _ None] exI [of _ a] exI [of _ rs] exI [of _ bl])
        (simp add: allocate_def allocate_post_def same_frame_def)
  next
    case (Some tl)
    obtain t l where tl: "r = Some (t, l)" using Some by (cases tl) simp
    from r(3) [OF tl] obtain as x bs a1 bl1 where rs: "rs = as @ x # bs" and T: "taken a as x bs s a1"
      and pop: "allocate_pop s t l a = Some (x, size_of a x, a1)"
      and bins1: "bins_inv a1 (free_set a (as @ x # bs) - {x}) bl1" and best: "best_bin a rs s x"
      using allocate_pop_taken [OF inv fo] by metis
    obtain a' rs' bl' where S: "allocate_split s x (size_of a x) a1 = Some a'" "alloc_inv a' rs' bl'"
      "same_frame a a'" "x \<in> valid a'" "off_of a' x = off_of a x" "carved a as x bs (unat s) a' rs'"
      using allocate_split_post [OF T bins1] by metis
    have "allocate s a = Some (Some \<lparr>alloc_offset = off_of a x, alloc_metadata = x\<rparr>, a')"
      using False r(1) tl pop S(1,4,5) by (simp add: allocate_def)
    moreover have "allocate_post a rs s (Some \<lparr>alloc_offset = off_of a x, alloc_metadata = x\<rparr>) a' rs'"
      using fo rs S(6) best by (auto simp: allocate_post_def)
    ultimately show ?thesis using S by blast
  qed
qed

end
