(* ===== verification/Offset_Allocator_Free.thy ===== *)
theory Offset_Allocator_Free
  imports Offset_Allocator_Alloc
begin

text \<open>
  \<open>free\<close> keeps the main invariant of the offset allocator, never panics on a used node, and merges
  the region with the free regions next to it.
\<close>

section \<open>Release\<close>

text \<open>
  While \<open>free\<close> merges its neighbours into node \<open>x\<close>, \<open>x\<close> is in no bin and its offset and size are
  in local variables; the nodes before and after it are intact.
\<close>

definition loose :: "allocator \<Rightarrow> u32 list \<Rightarrow> u32 \<Rightarrow> u32 list \<Rightarrow> bool" where
  "loose a as x bs \<longleftrightarrow> (\<exists>bl. bins_inv a (free_set a (as @ bs)) bl)
     \<and> stack_inv a (set (as @ x # bs)) \<and> distinct (as @ x # bs)
     \<and> (\<exists>u. linked (nprev a) (nnext a) None as u) \<and> (\<exists>v. linked (nprev a) (nnext a) v bs None)
     \<and> nprev a x = last_of None as \<and> nnext a x = first_of bs None"

lemma loose_valid: "loose a as x bs \<Longrightarrow> set (as @ x # bs) \<subseteq> valid a"
  by (auto simp: loose_def stack_inv_def)

abbreviation "set_prev a x v \<equiv> a\<lparr>nodes := (nodes a)[unat x := (nd a x)\<lparr>neighbor_prev := v\<rparr>]\<rparr>"
abbreviation "set_next a x v \<equiv> a\<lparr>nodes := (nodes a)[unat x := (nd a x)\<lparr>neighbor_next := v\<rparr>]\<rparr>"

lemma relinked_set:
  assumes "unat x < length (nodes a)"
  shows "relinked a (set_prev a x v)" and "relinked a (set_next a x v)"
  using assms by (simp_all add: relinked_def same_fields_def)

lemma set_links:
  assumes "unat i < length (nodes a)" and "unat x < length (nodes a)"
  shows "nprev (set_prev a x v) i = (if i = x then v else nprev a i)"
    "nnext (set_prev a x v) i = nnext a i" "nprev (set_next a x v) i = nprev a i"
    "nnext (set_next a x v) i = (if i = x then v else nnext a i)"
  using assms by auto

text \<open>From \<open>a\<close> by taking nodes out of bins and relinking \<open>x\<close>: the other nodes keep their links.\<close>

definition detached :: "allocator \<Rightarrow> u32 \<Rightarrow> allocator \<Rightarrow> bool" where
  "detached a x a' \<longleftrightarrow> same_frame a a' \<and> (\<forall>i \<in> valid a. keeps_data a a' i)
     \<and> (\<forall>i \<in> valid a. i \<noteq> x \<longrightarrow> nprev a' i = nprev a i \<and> nnext a' i = nnext a i)"

lemma detached_linked:
  assumes "detached a x a'" and "set xs \<subseteq> valid a" and "x \<notin> set xs"
    and "linked (nprev a) (nnext a) p xs q"
  shows "linked (nprev a') (nnext a') p xs q"
proof (rule linked_cong [OF _ assms(4)])
  fix i assume "i \<in> set xs"
  with assms(2,3) have "i \<in> valid a" "i \<noteq> x" by auto
  with assms(1) show "nprev a' i = nprev a i \<and> nnext a' i = nnext a i"
    unfolding detached_def by blast
qed

lemma remove_relink:
  assumes L: "loose a as x bs" and p: "p \<in> free_set a (as @ bs)"
  obtains a1 bl' where "remove_node_from_bin p a = Some a1"
    and "bins_inv a1 (free_set a (as @ bs) - {p}) bl'" and "stack_inv a1 (set (as @ x # bs) - {p})"
    and "keeps_core a a1 p" and "p \<in> valid a1" and "keeps_core a a1 x" and "x \<in> valid a1"
    and "detached a x (set_prev a1 x v)" and "detached a x (set_next a1 x v)"
proof -
  obtain bl where B: "bins_inv a (free_set a (as @ bs)) bl" "stack_inv a (set (as @ x # bs))"
    using L by (auto simp: loose_def)
  have sub: "free_set a (as @ bs) \<subseteq> set (as @ x # bs)" using free_set_subset [of a "as @ bs"] by auto
  obtain a1 bl' where R: "remove_node_from_bin p a = Some a1"
    "bins_inv a1 (free_set a (as @ bs) - {p}) bl'" "stack_inv a1 (set (as @ x # bs) - {p})"
    "same_frame a a1" "\<forall>i \<in> valid a. keeps_core a a1 i"
    using remove_node_ok [OF B sub p] by metis
  have v: "valid a1 = valid a" using R(4) by (simp add: same_frame_def valid_def)
  have xp: "x \<in> valid a" "p \<in> valid a"
    using loose_valid [OF L] sub p by (meson in_set_conv_decomp subset_iff)+
  then have xl: "unat x < length (nodes a1)" using v by (metis valid_iff)
  have "detached a x (set_prev a1 x v)" "detached a x (set_next a1 x v)"
    using R(4,5) xl unfolding detached_def same_frame_def keeps_core_def keeps_data_def by auto
  with R xp v show thesis by (intro that [of a1 bl']) auto
qed

lemma detachedD:
  assumes "detached a x a'" and "set xs \<subseteq> valid a"
  shows "free_set a' xs = free_set a xs" "regions a' xs = regions a xs"
  using keeps_tiles(4,5) [of xs a a'] assms by (auto simp: detached_def)

lemma detached_refl: "detached a x a"
  by (simp add: detached_def same_frame_def keeps_data_def)

lemma loose_drop:
  assumes L: "loose a as x bs" and d: "detached a x a'"
    and bins: "bins_inv a' (free_set a (as' @ bs')) bl" and stack: "stack_inv a' (set (as' @ x # bs'))"
    and sub: "as = as' @ us" "bs = vs @ bs'"
    and x: "nprev a' x = last_of None as'" "nnext a' x = first_of bs' None"
  shows "loose a' as' x bs'"
proof -
  have v: "set as' \<subseteq> valid a" "set bs' \<subseteq> valid a" using loose_valid [OF L] sub by auto
  have n: "x \<notin> set as'" "x \<notin> set bs'" "distinct (as' @ x # bs')"
    using L sub by (auto simp: loose_def)
  obtain u w where "linked (nprev a) (nnext a) None (as' @ us) u"
    "linked (nprev a) (nnext a) w (vs @ bs') None" using L sub by (auto simp: loose_def)
  then have "linked (nprev a') (nnext a') None as' (first_of us u)"
    "linked (nprev a') (nnext a') (last_of w vs) bs' None"
    using detached_linked [OF d] v n by auto
  moreover have "free_set a' (as' @ bs') = free_set a (as' @ bs')"
    using v by (intro detachedD [OF d]) auto
  ultimately show ?thesis
    using bins stack n x unfolding loose_def by (metis (no_types))
qed

lemma free_merge_prev_ok:
  assumes L: "loose a as x bs"
  obtains a' as' o' z' where "free_merge_prev x off z a = Some (o', z', a')"
    and "loose a' as' x bs" and "detached a x a'"
    and "as' = as \<and> (as = [] \<or> is_used a (last as)) \<and> o' = off \<and> z' = z
       \<or> (\<exists>p. as = as' @ [p] \<and> \<not> is_used a p \<and> o' = off_of a p \<and> z' = z + size_of a p)"
proof (cases "as = [] \<or> is_used a (last as)")
  case True
  have "unat x < length (nodes a)" using loose_valid [OF L] by simp
  moreover have "nprev a x = last_of None as" using L by (simp add: loose_def)
  moreover have "as \<noteq> [] \<Longrightarrow> unat (last as) < length (nodes a)"
    using loose_valid [OF L] by (auto simp: subset_iff)
  ultimately have "free_merge_prev x off z a = Some (off, z, a)"
    using True by (cases "as = []") (simp_all add: free_merge_prev_def last_of_def)
  with True L that detached_refl show thesis by blast
next
  case False
  then obtain as' p where as: "as = as' @ [p]" and p: "\<not> is_used a p" by (cases as rule: rev_cases) auto
  have "p \<in> free_set a (as @ bs)" using as p by (simp add: free_set_def)
  then obtain a1 bl' where R: "remove_node_from_bin p a = Some a1"
    "bins_inv a1 (free_set a (as @ bs) - {p}) bl'" "stack_inv a1 (set (as @ x # bs) - {p})"
    "keeps_core a a1 p" "p \<in> valid a1" "keeps_core a a1 x" "x \<in> valid a1"
    "detached a x (set_prev a1 x (last_of None as'))"
    using remove_relink [OF L] by metis
  let ?a = "set_prev a1 x (last_of None as')"
  have xl: "unat x < length (nodes a1)" "unat p < length (nodes a1)" using R by auto
  have D: "distinct (as' @ p # x # bs)" "nprev a x = Some p" "nnext a x = first_of bs None"
    "nprev a p = last_of None as'"
    using L as by (auto simp: loose_def)
  have vl: "unat x < length (nodes a)" "unat p < length (nodes a)" using loose_valid [OF L] as by auto
  have run: "free_merge_prev x off z a = Some (off_of a p, z + size_of a p, ?a)"
    using D(2,4) p R(1,4) xl vl by (simp add: free_merge_prev_def keeps_core_def)
  have sets: "free_set a (as @ bs) - {p} = free_set a (as' @ bs)"
    "set (as @ x # bs) - {p} = set (as' @ x # bs)"
    using D(1) p as by (auto simp: free_set_def)
  have "loose ?a as' x bs"
  proof (rule loose_drop [OF L R(8), where us = "[p]" and vs = "[]"])
    note rl = relinked_set(1) [OF xl(1), of "last_of None as'"]
    show "bins_inv ?a (free_set a (as' @ bs)) bl'"
      using relinked_bins [OF rl R(2)] sets by simp
    show "stack_inv ?a (set (as' @ x # bs))"
      using relinked_stack [OF rl R(3)] sets by simp
    show "nprev ?a x = last_of None as'" "nnext ?a x = first_of bs None"
      using xl D(3) R(6) by (simp_all add: keeps_core_def)
  qed (use as in auto)
  with run R(8) as p that show thesis by blast
qed

lemma free_merge_next_ok:
  assumes L: "loose a as x bs"
  obtains a' bs' z' where "free_merge_next x z a = Some (z', a')"
    and "loose a' as x bs'" and "detached a x a'"
    and "bs' = bs \<and> (bs = [] \<or> is_used a (hd bs)) \<and> z' = z
       \<or> (\<exists>q. bs = q # bs' \<and> \<not> is_used a q \<and> z' = z + size_of a q)"
proof (cases "bs = [] \<or> is_used a (hd bs)")
  case True
  have "unat x < length (nodes a)" using loose_valid [OF L] by simp
  moreover have "nnext a x = first_of bs None" using L by (simp add: loose_def)
  moreover have "bs \<noteq> [] \<Longrightarrow> unat (hd bs) < length (nodes a)"
    using loose_valid [OF L] by (auto simp: subset_iff)
  ultimately have "free_merge_next x z a = Some (z, a)"
    using True by (cases "bs = []") (simp_all add: free_merge_next_def first_of_def)
  with True L that detached_refl show thesis by blast
next
  case False
  then obtain bs' q where bs: "bs = q # bs'" and q: "\<not> is_used a q" by (cases bs) auto
  have "q \<in> free_set a (as @ bs)" using bs q by (simp add: free_set_def)
  then obtain a1 bl' where R: "remove_node_from_bin q a = Some a1"
    "bins_inv a1 (free_set a (as @ bs) - {q}) bl'" "stack_inv a1 (set (as @ x # bs) - {q})"
    "keeps_core a a1 q" "q \<in> valid a1" "keeps_core a a1 x" "x \<in> valid a1"
    "detached a x (set_next a1 x (first_of bs' None))"
    using remove_relink [OF L] by metis
  let ?a = "set_next a1 x (first_of bs' None)"
  have xl: "unat x < length (nodes a1)" "unat q < length (nodes a1)" using R by auto
  have D: "distinct (as @ x # q # bs')" "nnext a x = Some q" "nprev a x = last_of None as"
    "nnext a q = first_of bs' None"
    using L bs by (auto simp: loose_def)
  have vl: "unat x < length (nodes a)" "unat q < length (nodes a)" using loose_valid [OF L] bs by auto
  have run: "free_merge_next x z a = Some (z + size_of a q, ?a)"
    using D(2,4) q R(1,4) xl vl by (simp add: free_merge_next_def keeps_core_def)
  have sets: "free_set a (as @ bs) - {q} = free_set a (as @ bs')"
    "set (as @ x # bs) - {q} = set (as @ x # bs')"
    using D(1) q bs by (auto simp: free_set_def)
  have "loose ?a as x bs'"
  proof (rule loose_drop [OF L R(8), where us = "[]" and vs = "[q]"])
    note rl = relinked_set(2) [OF xl(1), of "first_of bs' None"]
    show "bins_inv ?a (free_set a (as @ bs')) bl'"
      using relinked_bins [OF rl R(2)] sets by simp
    show "stack_inv ?a (set (as @ x # bs'))"
      using relinked_stack [OF rl R(3)] sets by simp
    show "nprev ?a x = last_of None as" "nnext ?a x = first_of bs' None"
      using xl D(3) R(6) by (simp_all add: keeps_core_def)
  qed (use bs in auto)
  with run R(8) bs q that show thesis by blast
qed

text \<open>The link updates at the end of \<open>free\<close> splice the combined node in.\<close>

lemma relinked_trans:
  assumes "relinked a b" and "relinked b c"
  shows "relinked a c"
  using assms relinked_fields(10) [OF assms(1)] by (auto simp: relinked_def same_fields_def)

lemma link_pair:
  assumes "unat n < length (nodes a)" and "unat y < length (nodes a)" and "n \<noteq> y"
  shows "\<exists>a'. do { b \<leftarrow> modify_node n (\<lambda>k. k\<lparr>neighbor_next := Some y\<rparr>) a;
             modify_node y (\<lambda>k. k\<lparr>neighbor_prev := Some n\<rparr>) b } = Some a' \<and> relinked a a'
           \<and> (\<forall>i \<in> valid a. nnext a' i = (if i = n then Some y else nnext a i)
                \<and> nprev a' i = (if i = y then Some n else nprev a i))"
    and "\<exists>a'. do { b \<leftarrow> modify_node y (\<lambda>k. k\<lparr>neighbor_prev := Some n\<rparr>) a;
             modify_node n (\<lambda>k. k\<lparr>neighbor_next := Some y\<rparr>) b } = Some a' \<and> relinked a a'
           \<and> (\<forall>i \<in> valid a. nnext a' i = (if i = n then Some y else nnext a i)
                \<and> nprev a' i = (if i = y then Some n else nprev a i))"
  using assms by (simp_all add: relinked_def same_fields_def)

lemma connect_next:
  assumes "unat n < length (nodes a)" "set bs \<subseteq> valid a" "n \<notin> set bs" "nnext a n = None"
  obtains a' where "free_connect_next n (first_of bs None) a = Some a'" and "relinked a a'"
    and "\<forall>i \<in> valid a. nnext a' i = (if i = n then first_of bs None else nnext a i)
           \<and> nprev a' i = (if first_of bs None = Some i then Some n else nprev a i)"
proof (cases bs)
  case Nil
  with assms that show thesis
    by (simp add: relinked_def same_fields_def free_connect_next_def)
next
  case (Cons y ys)
  with assms have "unat y < length (nodes a)" "n \<noteq> y" by auto
  from link_pair(1) [OF assms(1) this] Cons that show thesis by (auto simp: free_connect_next_def)
qed

lemma connect_prev:
  assumes "unat n < length (nodes a)" "set as \<subseteq> valid a" "n \<notin> set as" "nprev a n = None"
  obtains a' where "free_connect_prev n (last_of None as) a = Some a'" and "relinked a a'"
    and "\<forall>i \<in> valid a. nprev a' i = (if i = n then last_of None as else nprev a i)
           \<and> nnext a' i = (if last_of None as = Some i then Some n else nnext a i)"
proof (cases as rule: rev_cases)
  case Nil
  with assms that show thesis
    by (simp add: relinked_def same_fields_def free_connect_prev_def)
next
  case (snoc ys y)
  with assms have "unat y < length (nodes a)" "y \<noteq> n" by auto
  from link_pair(2) [OF this(1) assms(1) this(2)] snoc that show thesis
    by (auto simp: free_connect_prev_def)
qed

lemma free_splice:
  assumes v: "set (as @ n # bs) \<subseteq> valid a" and d: "distinct (as @ n # bs)"
    and n: "nprev a n = None" "nnext a n = None"
  obtains a1 a' where "free_connect_next n (first_of bs None) a = Some a1"
    and "free_connect_prev n (last_of None as) a1 = Some a'" and "spliced a a' as n bs"
proof -
  have v': "unat n < length (nodes a)" "set as \<subseteq> valid a" "set bs \<subseteq> valid a" "n \<notin> set as" "n \<notin> set bs"
    using v d by auto
  obtain a1 where A: "free_connect_next n (first_of bs None) a = Some a1" "relinked a a1"
    "\<forall>i \<in> valid a. nnext a1 i = (if i = n then first_of bs None else nnext a i)
           \<and> nprev a1 i = (if first_of bs None = Some i then Some n else nprev a i)"
    by (rule connect_next [OF v'(1,3,5) n(2)])
  note f = relinked_fields(9,10) [OF A(2)]
  have nn: "first_of bs None \<noteq> Some n" "last_of None as \<noteq> Some n"
    using v'(4,5) by (auto dest!: first_of_SomeD last_of_SomeD)
  have "n \<in> valid a" using v' by simp
  with A(3) n nn have "nprev a1 n = None" by (metis (no_types, lifting))
  moreover have "unat n < length (nodes a1)" "set as \<subseteq> valid a1" using v' f by simp_all
  ultimately obtain a' where B: "free_connect_prev n (last_of None as) a1 = Some a'" "relinked a1 a'"
    "\<forall>i \<in> valid a1. nprev a' i = (if i = n then last_of None as else nprev a1 i)
           \<and> nnext a' i = (if last_of None as = Some i then Some n else nnext a1 i)"
    using connect_prev [OF _ _ v'(4)] by metis
  have E: "nprev a' i = (if i = n then last_of None as else
      if first_of bs None = Some i then Some n else nprev a i)"
    "nnext a' i = (if last_of None as = Some i then Some n else
      if i = n then first_of bs None else nnext a i)" if "i \<in> valid a" for i
    using bspec [OF A(3) that] bspec [OF B(3), of i] that f(2) by simp_all
  have "spliced a a' as n bs"
    unfolding spliced_def
  proof (intro conjI ballI)
    show "relinked a a'" by (rule relinked_trans [OF A(2) B(2)])
    show "nprev a' n = last_of None as" "nnext a' n = first_of bs None"
      using E [OF \<open>n \<in> valid a\<close>] nn by simp_all
  next
    fix i assume "i \<in> set as"
    moreover from this have "first_of bs None \<noteq> Some i" using d by (auto dest!: first_of_SomeD)
    moreover have "i \<in> valid a" using \<open>i \<in> set as\<close> v by auto
    ultimately show "nprev a' i = nprev a i"
      "nnext a' i = (if last_of None as = Some i then Some n else nnext a i)"
      using E [of i] v'(4) by auto
  next
    fix i assume "i \<in> set bs"
    moreover from this have "last_of None as \<noteq> Some i" using d by (auto dest!: last_of_SomeD)
    moreover have "i \<in> valid a" using \<open>i \<in> set bs\<close> v by auto
    ultimately show "nnext a' i = nnext a i"
      "nprev a' i = (if first_of bs None = Some i then Some n else nprev a i)"
      using E [of i] v'(5) by auto
  qed
  with A(1) B(1) that show thesis by blast
qed

lemma free_push:
  assumes L: "loose a as x bs"
  obtains a0 bl where "a0 = a\<lparr>free_offset := free_offset a + 1,
        free_nodes := (free_nodes a)[unat (free_offset a + 1) := x]\<rparr>"
    and "unat (free_offset a + 1) < length (free_nodes a)" and "0 < free_offset a0"
    and "bins_inv a0 (free_set a (as @ bs)) bl" and "stack_inv a0 (set (as @ bs))"
proof -
  let ?a0 = "a\<lparr>free_offset := free_offset a + 1,
      free_nodes := (free_nodes a)[unat (free_offset a + 1) := x]\<rparr>"
  obtain bl where B: "bins_inv a (free_set a (as @ bs)) bl" and S: "stack_inv a (set (as @ x # bs))"
    and d: "distinct (as @ x # bs)"
    using L by (auto simp: loose_def)
  have x: "x \<in> set (as @ x # bs)" by simp
  note room = stack_room [OF S x]
  have "set (as @ x # bs) - {x} = set (as @ bs)" using d by auto
  then have "stack_inv ?a0 (set (as @ bs))" using stack_push [OF S x, of ?a0] by simp
  moreover have "bins_inv ?a0 (free_set a (as @ bs)) bl"
    using B by (simp add: bins_inv_def bits_inv_def lists_inv_def storage_inv_def valid_def)
  moreover have "unat (free_offset a + 1) < length (free_nodes a)"
    using room S by (simp add: stack_inv_def)
  moreover have "0 < free_offset a + 1"
    using room by (simp add: word_less_nat_alt)
  ultimately show thesis using that by simp
qed

lemma insert_index:
  "insert_node_into_bin s off a = Some (n, a') \<Longrightarrow> get (free_nodes a) (unat (free_offset a)) = Some n"
  by (auto simp: insert_node_into_bin_def Let_def bind_eq_Some_conv split: if_splits)

lemma free_reinsert_ok:
  assumes L: "loose a as x bs"
  obtains a' bl' where "free_reinsert x off z a = Some a'"
    and "bins_inv a' (insert x (free_set a (as @ bs))) bl'" and "stack_inv a' (set (as @ x # bs))"
    and "same_frame a a'" and "linked (nprev a') (nnext a') None (as @ x # bs) None"
    and "off_of a' x = off" and "size_of a' x = z" and "\<not> is_used a' x"
    and "\<forall>i \<in> set (as @ bs). keeps_data a a' i"
proof -
  obtain a0 bl where a0: "a0 = a\<lparr>free_offset := free_offset a + 1,
        free_nodes := (free_nodes a)[unat (free_offset a + 1) := x]\<rparr>"
    and room: "unat (free_offset a + 1) < length (free_nodes a)" and fo: "0 < free_offset a0"
    and bins0: "bins_inv a0 (free_set a (as @ bs)) bl" and stack0: "stack_inv a0 (set (as @ bs))"
    by (rule free_push [OF L])
  obtain n a1 where i1: "insert_node_into_bin z off a0 = Some (n, a1)"
    and n: "n \<notin> set (as @ bs)" "n \<in> valid a0" and fr: "same_frame a0 a1"
    and bins1: "bins_inv a1 (insert n (free_set a (as @ bs))) (bl(bin_of z := n # bl (bin_of z)))"
    and stack1: "stack_inv a1 (insert n (set (as @ bs)))" and fresh: "fresh_node a1 n off z"
    and keep: "\<forall>i \<in> valid a0. i \<noteq> n \<longrightarrow> keeps_core a0 a1 i"
    using insert_node_ok [OF bins0 stack0 free_set_subset fo, of z off] by metis
  have nx: "n = x" using insert_index [OF i1] room by (simp add: a0 get_lt)
  have v: "valid a0 = valid a" "valid a1 = valid a" using fr by (simp_all add: a0 same_frame_def valid_def)
  have k1: "keeps_core a a1 i" if "i \<in> set (as @ bs)" for i
    using bspec [OF keep, of i] that n(1) loose_valid [OF L] v by (auto simp: a0 keeps_core_def)
  obtain u w where "linked (nprev a) (nnext a) None as u" "linked (nprev a) (nnext a) w bs None"
    using L by (auto simp: loose_def)
  then have lk: "linked (nprev a1) (nnext a1) None as u" "linked (nprev a1) (nnext a1) w bs None"
    using k1 by (auto intro: core_linked)
  have d: "distinct (as @ n # bs)" using L n(1) by (auto simp: loose_def)
  have "set (as @ n # bs) \<subseteq> valid a1" using loose_valid [OF L] n v by auto
  moreover have "nprev a1 n = None" "nnext a1 n = None" using fresh by (simp_all add: fresh_node_def)
  ultimately obtain a2 a' where S: "free_connect_next n (first_of bs None) a1 = Some a2"
    "free_connect_prev n (last_of None as) a2 = Some a'" "spliced a1 a' as n bs"
    using free_splice [OF _ d] by metis
  have rl: "relinked a1 a'" using S(3) by (simp add: spliced_def)
  have x: "node_at a x = Some (nd a x)" "nprev a x = last_of None as" "nnext a x = first_of bs None"
    using L loose_valid [OF L] by (simp_all add: loose_def)
  have run: "free_reinsert x off z a = Some a'"
    using i1 S(1,2) room x by (simp add: free_reinsert_def a0 put_lt)
  show thesis
  proof (rule that [OF run relinked_bins [OF rl bins1 [unfolded nx]]])
    show "stack_inv a' (set (as @ x # bs))" using relinked_stack [OF rl stack1] nx by simp
    show "same_frame a a'" using fr relinked_frame [OF rl] by (simp add: a0 same_frame_def)
    show "linked (nprev a') (nnext a') None (as @ x # bs) None" using spliced_linked [OF S(3) d lk] nx by simp
    show "off_of a' x = off" "size_of a' x = z" "\<not> is_used a' x"
      using relinked_core [OF rl, of n] n v fresh nx by (simp_all add: fresh_node_def)
    show "\<forall>i \<in> set (as @ bs). keeps_data a a' i"
    proof
      fix i assume i: "i \<in> set (as @ bs)"
      then have "i \<in> valid a1" using loose_valid [OF L] v by auto
      from relinked_data [OF rl this] keeps_core_data [OF k1 [OF i]] show "keeps_data a a' i"
        using keeps_data_trans by blast
    qed
  qed
qed

text \<open>
  The outcome of \<open>free\<close>: the free regions next to the freed one, \<open>us\<close> before and \<open>vs\<close> after (each
  at most one), become one free region with it.
\<close>

definition merges :: "allocator \<Rightarrow> u32 list \<Rightarrow> u32 list \<Rightarrow> u32 list \<Rightarrow> u32 list \<Rightarrow> bool" where
  "merges a as us vs bs \<longleftrightarrow>
     (us = [] \<and> (as = [] \<or> is_used a (last as)) \<or> (\<exists>p. us = [p] \<and> \<not> is_used a p))
     \<and> (vs = [] \<and> (bs = [] \<or> is_used a (hd bs)) \<or> (\<exists>q. vs = [q] \<and> \<not> is_used a q))"

definition released :: "allocator \<Rightarrow> u32 list \<Rightarrow> u32 \<Rightarrow> u32 list \<Rightarrow> allocator \<Rightarrow> u32 list \<Rightarrow> bool" where
  "released a as x bs a' rs' \<longleftrightarrow> (\<exists>as' us vs bs'. as = as' @ us \<and> bs = vs @ bs'
     \<and> merges a as' us vs bs'
     \<and> regions a' rs' = regions a as'
         @ (x, unat (off_of a (hd (us @ [x]))), extent a (us @ x # vs), False) # regions a bs')"

lemma free_merges:
  assumes L: "loose a as x bs"
  obtains a2 as' us vs bs' o' z' a1 z2 where "as = as' @ us" and "bs = vs @ bs'"
    and "merges a as' us vs bs'"
    and "free_merge_prev x (off_of a x) (size_of a x) a = Some (o', z', a1)"
    and "free_merge_next x z' a1 = Some (z2, a2)" and "loose a2 as' x bs'"
    and "same_frame a a2" and "\<forall>i \<in> set (as @ bs). keeps_data a a2 i"
    and "o' = off_of a (hd (us @ [x]))" and "z2 = (\<Sum>i\<leftarrow>us @ x # vs. size_of a i)"
proof -
  obtain a1 as' o' z' where P: "free_merge_prev x (off_of a x) (size_of a x) a = Some (o', z', a1)"
    "loose a1 as' x bs" "detached a x a1"
    and p: "as' = as \<and> (as = [] \<or> is_used a (last as)) \<and> o' = off_of a x \<and> z' = size_of a x
       \<or> (\<exists>p. as = as' @ [p] \<and> \<not> is_used a p \<and> o' = off_of a p \<and> z' = size_of a x + size_of a p)"
    by (rule free_merge_prev_ok [OF L])
  obtain a2 bs' z2 where N: "free_merge_next x z' a1 = Some (z2, a2)" "loose a2 as' x bs'"
    "detached a1 x a2"
    and q: "bs' = bs \<and> (bs = [] \<or> is_used a1 (hd bs)) \<and> z2 = z'
       \<or> (\<exists>q. bs = q # bs' \<and> \<not> is_used a1 q \<and> z2 = z' + size_of a1 q)"
    by (rule free_merge_next_ok [OF P(2)])
  have v: "set (as @ bs) \<subseteq> valid a" using loose_valid [OF L] by auto
  have v1: "valid a1 = valid a" using P(3) by (simp add: detached_def same_frame_def valid_def)
  have k1: "keeps_data a a1 i" and k2: "keeps_data a1 a2 i" if "i \<in> set (as @ bs)" for i
    using P(3) N(3) v that v1 unfolding detached_def by blast+
  define us where "us = (if as' = as then [] else [last as])"
  define vs where "vs = (if bs' = bs then [] else [hd bs])"
  have us: "as = as' @ us" "us = [] \<and> (as' = [] \<or> is_used a (last as')) \<or> (\<exists>p. us = [p] \<and> \<not> is_used a p)"
    "o' = off_of a (hd (us @ [x]))" "z' = size_of a x + (\<Sum>i\<leftarrow>us. size_of a i)"
    using p by (auto simp: us_def)
  have hd: "bs \<noteq> [] \<Longrightarrow> keeps_data a a1 (hd bs)" using k1 [of "hd bs"] by simp
  have vs: "bs = vs @ bs'" "vs = [] \<and> (bs' = [] \<or> is_used a (hd bs')) \<or> (\<exists>q. vs = [q] \<and> \<not> is_used a q)"
    "z2 = z' + (\<Sum>i\<leftarrow>vs. size_of a i)"
    using q hd by (auto simp: vs_def keeps_data_def)
  show thesis
  proof (rule that [OF us(1) vs(1) _ P(1) N(1,2) _ _ us(3)])
    show "merges a as' us vs bs'" using us(2) vs(2) by (simp add: merges_def)
    show "same_frame a a2" using P(3) N(3) by (simp add: detached_def same_frame_def)
    show "\<forall>i \<in> set (as @ bs). keeps_data a a2 i" using k1 k2 keeps_data_trans by blast
    show "z2 = (\<Sum>i\<leftarrow>us @ x # vs. size_of a i)" using us(4) vs(3) by (simp add: ac_simps)
  qed
qed

lemma extent_word:
  assumes "extent a xs < 2 ^ 32"
  shows "unat (\<Sum>i\<leftarrow>xs. size_of a i) = extent a xs"
  using assms
proof (induction xs)
  case (Cons i xs)
  then have IH: "unat (\<Sum>i\<leftarrow>xs. size_of a i) = extent a xs" by simp
  with Cons.prems show ?case by (simp add: unat_word_ariths)
qed simp

lemma loose_used:
  assumes inv: "alloc_inv a (as @ x # bs) bl" and x: "is_used a x"
  shows "loose a as x bs"
proof -
  have "free_set a (as @ x # bs) = free_set a (as @ bs)" using x by (simp add: free_set_simps)
  with inv show ?thesis by (auto simp: alloc_inv_def chain_inv_def loose_def)
qed

lemma merged_coalesced:
  assumes c: "coalesced a (as @ us @ x # vs @ bs)" and m: "merges a as us vs bs"
    and k: "\<And>i. i \<in> set (as @ bs) \<Longrightarrow> keeps_data a a' i" and n: "\<not> is_used a' n"
  shows "coalesced a' (as @ n # bs)"
proof -
  have u: "is_used a' (last as)" if "as \<noteq> []"
    using c m k [of "last as"] that
    by (auto simp: merges_def keeps_data_def successively_append_iff successively_Cons)
  have w: "is_used a' (hd bs)" if "bs \<noteq> []"
    using c m k [of "hd bs"] that
    by (auto simp: merges_def keeps_data_def successively_append_iff successively_Cons)
  have "coalesced a as" "coalesced a bs"
    using c by (auto simp: successively_append_iff successively_Cons)
  then have "coalesced a' as" "coalesced a' bs"
    using keeps_tiles(3) [of as a a'] keeps_tiles(3) [of bs a a'] k by auto
  with u w show ?thesis by (auto simp: successively_append_iff successively_Cons)
qed

lemma merged_tiles:
  fixes T :: u32
  assumes t: "tiles a 0 (as @ us @ x # vs @ bs) (unat T)"
    and k: "\<And>i. i \<in> set (as @ bs) \<Longrightarrow> keeps_data a a' i"
    and n: "off_of a' n = off_of a (hd (us @ [x]))"
      "size_of a' n = (\<Sum>i\<leftarrow>us @ x # vs. size_of a i)"
  shows "tiles a' 0 (as @ n # bs) (unat T)" and "unat (size_of a' n) = extent a (us @ x # vs)"
proof -
  have "unat T = extent a (as @ us @ x # vs @ bs)" using tiles_extent [OF t] by simp
  moreover have "unat T < 2 ^ LENGTH(32)" by (rule unsigned_less)
  ultimately have "extent a (us @ x # vs) < 2 ^ 32" by simp
  then show e: "unat (size_of a' n) = extent a (us @ x # vs)"
    using extent_word [of a "us @ x # vs"] n(2) by simp
  have o: "unat (off_of a' n) = extent a as"
    using t n(1) by (cases us) auto
  show "tiles a' 0 (as @ n # bs) (unat T)"
    using t e o keeps_tiles(1,2) [of as a a'] keeps_tiles(1,2) [of bs a a'] k
    by (simp add: add.assoc)
qed

lemma free_ok:
  assumes inv: "alloc_inv a (as @ x # bs) bl" and x: "is_used a x" and al: "alloc_metadata al = x"
  shows "\<exists>a' rs' bl'. free al a = Some a' \<and> alloc_inv a' rs' bl' \<and> same_frame a a'
           \<and> released a as x bs a' rs'"
proof -
  note L = loose_used [OF inv x]
  obtain a2 as' us vs bs' o' z' a1 z2 where s: "as = as' @ us" "bs = vs @ bs'"
    and m: "merges a as' us vs bs'"
    and run: "free_merge_prev x (off_of a x) (size_of a x) a = Some (o', z', a1)"
      "free_merge_next x z' a1 = Some (z2, a2)" and L2: "loose a2 as' x bs'"
    and fr: "same_frame a a2" and k: "\<forall>i \<in> set (as @ bs). keeps_data a a2 i"
    and oz: "o' = off_of a (hd (us @ [x]))" "z2 = (\<Sum>i\<leftarrow>us @ x # vs. size_of a i)"
    by (rule free_merges [OF L])
  obtain a' bl' where R: "free_reinsert x o' z2 a2 = Some a'"
    "bins_inv a' (insert x (free_set a2 (as' @ bs'))) bl'" "stack_inv a' (set (as' @ x # bs'))"
    "same_frame a2 a'" "linked (nprev a') (nnext a') None (as' @ x # bs') None"
    and n: "off_of a' x = o'" "size_of a' x = z2" "\<not> is_used a' x"
    and k2: "\<forall>i \<in> set (as' @ bs'). keeps_data a2 a' i"
    by (rule free_reinsert_ok [OF L2])
  have k': "keeps_data a a' i" if "i \<in> set (as' @ bs')" for i
    using that k k2 s keeps_data_trans [of a a2 i a'] by auto
  have C: "coalesced a (as' @ us @ x # vs @ bs')" "distinct (as' @ us @ x # vs @ bs')"
    "tiles a 0 (as' @ us @ x # vs @ bs') (unat (total_size a))"
    using inv s by (simp_all add: alloc_inv_def chain_inv_def)
  note T = merged_tiles [OF C(3) k' n(1,2) [unfolded oz]]
  have total: "total_size a' = total_size a" using fr R(4) by (simp add: same_frame_def)
  have "chain_inv a' (as' @ x # bs')"
    using T(1) merged_coalesced [OF C(1) m k' n(3)] R(5) C(2) total by (auto simp: chain_inv_def)
  moreover have "insert x (free_set a2 (as' @ bs')) = free_set a' (as' @ x # bs')"
    using keeps_tiles(5) [of "as' @ bs'" a2 a'] k2 n(3) by (auto simp: free_set_simps)
  ultimately have "alloc_inv a' (as' @ x # bs') bl'" using R(2,3) by (simp add: alloc_inv_def)
  moreover have "free al a = Some a'"
    using x al run R(1) loose_valid [OF L] by (simp add: free_def)
  moreover have "released a as x bs a' (as' @ x # bs')"
  proof -
    have "regions a' as' = regions a as'" "regions a' bs' = regions a bs'"
      using keeps_tiles(4) [of as' a a'] keeps_tiles(4) [of bs' a a'] k' by auto
    moreover have "region a' x = (x, unat (off_of a (hd (us @ [x]))), extent a (us @ x # vs), False)"
      using n(1,3) oz(1) T(2) by (simp add: region_def)
    ultimately have "regions a' (as' @ x # bs') = regions a as'
         @ (x, unat (off_of a (hd (us @ [x]))), extent a (us @ x # vs), False) # regions a bs'"
      by simp
    with s m show ?thesis unfolding released_def by blast
  qed
  moreover have "same_frame a a'" using fr R(4) same_frame_trans by blast
  ultimately show ?thesis by blast
qed

end
