(* ===== verification/Region_Allocator.thy ===== *)
theory Region_Allocator
  imports Prelude
begin

text \<open>
  The interface of an allocator of regions. Its clients see the set of live regions
  (handle, offset, size): they never overlap, allocation adds one, release removes one.
\<close>

type_synonym 'i live = "('i \<times> nat \<times> nat) set"

definition apart :: "nat \<times> nat \<Rightarrow> nat \<times> nat \<Rightarrow> bool" where
  "apart r q \<longleftrightarrow> fst r + snd r \<le> fst q \<or> fst q + snd q \<le> fst r"

definition disjoint_regions :: "'i live \<Rightarrow> bool" where
  "disjoint_regions V \<longleftrightarrow> (\<forall>v \<in> V. \<forall>w \<in> V. v \<noteq> w \<longrightarrow> fst v \<noteq> fst w \<and> apart (snd v) (snd w))"

locale region_allocator =
  fixes holds :: "'a \<Rightarrow> 'i live \<Rightarrow> bool"
    and alloc :: "u32 \<Rightarrow> 'a \<Rightarrow> (('i \<times> u32) option \<times> 'a) option"
    and release :: "'i \<Rightarrow> 'a \<Rightarrow> 'a option"
    and limit :: "'a \<Rightarrow> nat"
  assumes holds_disjoint: "holds a V \<Longrightarrow> disjoint_regions V"
    and holds_limit: "holds a V \<Longrightarrow> (i, p, z) \<in> V \<Longrightarrow> p + z \<le> limit a"
    and alloc_total: "holds a V \<Longrightarrow> \<exists>r a'. alloc s a = Some (r, a') \<and> limit a' = limit a"
    and alloc_none: "holds a V \<Longrightarrow> alloc s a = Some (None, a') \<Longrightarrow> holds a' V"
    and alloc_some: "holds a V \<Longrightarrow> alloc s a = Some (Some (i, w), a') \<Longrightarrow>
      i \<notin> fst ` V \<and> holds a' (insert (i, unat w, unat s) V)"
    and release_ok: "holds a V \<Longrightarrow> (i, p, z) \<in> V \<Longrightarrow>
      \<exists>a'. release i a = Some a' \<and> limit a' = limit a \<and> holds a' (V - {(i, p, z)})"
begin

text \<open>A new region is apart from every live one.\<close>

lemma alloc_apart:
  assumes "holds a V" and "alloc s a = Some (Some (i, p), a')" and "(j, q, y) \<in> V"
  shows "i \<noteq> j" and "apart (unat p, unat s) (q, y)"
proof -
  have new: "i \<notin> fst ` V" "holds a' (insert (i, unat p, unat s) V)"
    using alloc_some [OF assms(1,2)] by auto
  then show "i \<noteq> j" using assms(3) by force
  with new(2) assms(3) show "apart (unat p, unat s) (q, y)"
    using holds_disjoint unfolding disjoint_regions_def by fastforce
qed

lemma alloc_within:
  assumes "holds a V" and "alloc s a = Some (Some (i, p), a')"
  shows "unat p + unat s \<le> limit a"
  using alloc_some [OF assms] holds_limit alloc_total [OF assms(1), of s] assms(2) by fastforce

text \<open>Allocating and releasing again gives back the live set.\<close>

lemma alloc_release:
  assumes "holds a V" and "alloc s a = Some (Some (i, p), a')"
  shows "\<exists>a''. release i a' = Some a'' \<and> holds a'' V \<and> limit a'' = limit a"
proof -
  have new: "i \<notin> fst ` V" "holds a' (insert (i, unat p, unat s) V)"
    using alloc_some [OF assms] by auto
  then have "(i, unat p, unat s) \<notin> V" by force
  then have "insert (i, unat p, unat s) V - {(i, unat p, unat s)} = V" by auto
  then show ?thesis
    using release_ok [OF new(2), of i "unat p" "unat s"] alloc_total [OF assms(1), of s] assms(2)
    by auto
qed

end

end
