(* ===== verification/Offset_Allocator_Spec.thy ===== *)
theory Offset_Allocator_Spec
  imports Offset_Allocator_Free Region_Allocator
begin

text \<open>
  The contract of the offset allocator: construction establishes the invariant, and the operations
  refine an allocator of disjoint regions of \<open>[0, total_size)\<close>. The abstract state is the set of
  live allocations (node, offset, size).
\<close>

section \<open>Construction\<close>

definition blank :: "u32 \<Rightarrow> u32 \<Rightarrow> allocator" where
  "blank sz n = \<lparr>total_size = sz, max_allocs = n, free_storage = 0, used_bins_top = 0,
     used_bins = replicate 32 0, bin_indices = replicate 256 None,
     nodes = replicate (unat n) default_node,
     free_nodes = map (\<lambda>i. n - of_nat i - 1) [0..<unat n], free_offset = n - 1\<rparr>"

lemma free_nodes_order:
  fixes n :: u32
  shows "map (\<lambda>i. n - of_nat i - 1) [0..<unat n] = map of_nat (rev [0..<unat n])"
proof (rule nth_equalityI)
  fix i assume "i < length (map (\<lambda>i. n - of_nat i - 1) [0..<unat n])"
  then have i: "i < unat n" by simp
  then have "of_nat (unat n - (i + 1)) = n - of_nat i - 1"
    by (subst of_nat_diff) simp_all
  with i show "map (\<lambda>i. n - of_nat i - 1) [0..<unat n] ! i = map of_nat (rev [0..<unat n]) ! i"
    by (simp add: rev_nth)
qed simp

lemma blank_stack:
  assumes "2 \<le> n" and "n < 0xFFFFFFFE"
  shows "stack_inv (blank sz n) {}"
proof -
  have n: "2 \<le> unat n" "unat n < 2 ^ 32 - 2" "unat (n - 1) = unat n - 1"
    using assms by (simp_all add: word_le_nat_alt word_less_nat_alt unat_sub_if')
  have all: "stack_of (blank sz n) = map of_nat (rev [0..<unat n])"
    using n by (simp add: stack_of_def blank_def free_nodes_order)
  then have "distinct (stack_of (blank sz n))" by (simp add: distinct_map inj_of_nat_word)
  moreover have "set (stack_of (blank sz n)) = valid (blank sz n)"
    by (simp add: all range_of_nat_word valid_def) (simp add: blank_def)
  ultimately show ?thesis using n by (simp add: stack_inv_def) (simp add: blank_def)
qed

lemma blank_bins: "bins_inv (blank sz n) {} (\<lambda>_. [])"
  by (simp add: bins_inv_def bits_inv_def lists_inv_def storage_inv_def blank_def)

lemma reset_blank:
  assumes "length (used_bins a) = 32" and "length (bin_indices a) = 256"
  shows "reset a = map_option snd (insert_node_into_bin (total_size a) 0 (blank (total_size a) (max_allocs a)))"
proof -
  have "a\<lparr>free_storage := 0, used_bins_top := 0, free_offset := max_allocs a - 1,
               used_bins := replicate (length (used_bins a)) 0,
               bin_indices := replicate (length (bin_indices a)) None,
               nodes := replicate (unat (max_allocs a)) default_node,
               free_nodes := map (\<lambda>i. max_allocs a - of_nat i - 1) [0..<unat (max_allocs a)]\<rparr>
     = blank (total_size a) (max_allocs a)"
    using assms by (simp add: blank_def)
  then show ?thesis
    by (cases "insert_node_into_bin (total_size a) 0 (blank (total_size a) (max_allocs a))")
      (auto simp: reset_def blank_def Let_def)
qed

lemma reset_ok:
  assumes "length (used_bins a) = 32" and "length (bin_indices a) = 256"
    and n: "2 \<le> max_allocs a" "max_allocs a < 0xFFFFFFFE"
  shows "\<exists>a' i bl. reset a = Some a' \<and> alloc_inv a' [i] bl
           \<and> regions a' [i] = [(i, 0, unat (total_size a), False)] \<and> free_offset a' = max_allocs a - 2
           \<and> total_size a' = total_size a \<and> max_allocs a' = max_allocs a"
proof -
  let ?b = "blank (total_size a) (max_allocs a)"
  have "0 < free_offset ?b" using n(1) by (simp add: blank_def word_less_nat_alt word_le_nat_alt unat_sub_if')
  then obtain i a' where I: "insert_node_into_bin (total_size a) 0 ?b = Some (i, a')" "same_frame ?b a'"
    "free_offset a' = free_offset ?b - 1" "bins_inv a' {i} ((\<lambda>_. [])(bin_of (total_size a) := [i]))"
    "stack_inv a' {i}" "fresh_node a' i 0 (total_size a)"
    using insert_node_ok [OF blank_bins blank_stack [OF n]] by (metis empty_subsetI)
  have "reset a = Some a'" using reset_blank assms I(1) by simp
  moreover have "total_size a' = total_size a" "max_allocs a' = max_allocs a"
    using I(2) by (simp_all add: same_frame_def blank_def)
  moreover from this have "alloc_inv a' [i] ((\<lambda>_. [])(bin_of (total_size a) := [i]))"
    using I(4-6) by (simp add: alloc_inv_def chain_inv_def free_set_simps fresh_node_def)
  moreover have "regions a' [i] = [(i, 0, unat (total_size a), False)]"
    using I(6) by (simp add: region_def fresh_node_def)
  ultimately show ?thesis using I(3) by (auto simp: blank_def)
qed

section \<open>The live allocations\<close>

definition live_of :: "region list \<Rightarrow> u32 live" where
  "live_of L = {(i, p, z). (i, p, z, True) \<in> set L}"

abbreviation "live a rs \<equiv> live_of (regions a rs)"

lemma live_of_simps [simp]:
  "live_of [] = {}" "live_of (L @ M) = live_of L \<union> live_of M"
  "live_of ((i, p, z, u) # L) = (if u then insert (i, p, z) (live_of L) else live_of L)"
  by (auto simp: live_of_def)

definition holds :: "allocator \<Rightarrow> u32 live \<Rightarrow> bool" where
  "holds a V \<longleftrightarrow> (\<exists>rs bl. alloc_inv a rs bl \<and> V = live a rs)"

lemma holdsI: "alloc_inv a rs bl \<Longrightarrow> holds a (live a rs)"
  by (auto simp: holds_def)

lemma live_iff: "(i, p, z) \<in> live a rs \<longleftrightarrow>
    i \<in> set rs \<and> p = unat (off_of a i) \<and> z = unat (size_of a i) \<and> is_used a i"
  by (auto simp: live_of_def region_def)

lemma live_used: "i \<in> fst ` live a rs \<Longrightarrow> i \<in> set rs \<and> is_used a i"
  using live_iff by fastforce

lemma tiles_bounds: "tiles a s xs e \<Longrightarrow> i \<in> set xs \<Longrightarrow>
    s \<le> unat (off_of a i) \<and> unat (off_of a i) + unat (size_of a i) \<le> e"
proof (induction xs arbitrary: s)
  case (Cons j xs)
  show ?case
  proof (cases "i = j")
    case True
    with Cons.prems show ?thesis using tiles_end_le by auto
  next
    case False
    with Cons.prems Cons.IH [of "s + unat (size_of a j)"] show ?thesis by simp
  qed
qed simp

lemma tiles_apart:
  assumes "tiles a s xs e" and "i \<in> set xs" and "j \<in> set xs" and "i \<noteq> j"
  shows "apart (unat (off_of a i), unat (size_of a i)) (unat (off_of a j), unat (size_of a j))"
  using assms by (induction xs arbitrary: s) (auto simp: apart_def dest: tiles_bounds)

lemma live_disjoint:
  assumes "alloc_inv a rs bl"
  shows "disjoint_regions (live a rs)"
proof -
  have t: "tiles a 0 rs (unat (total_size a))" using assms by (simp add: alloc_inv_def chain_inv_def)
  show ?thesis
    unfolding disjoint_regions_def
    by (clarsimp simp: live_iff) (metis tiles_apart [OF t])
qed

lemma live_limit:
  assumes "alloc_inv a rs bl" and "(i, p, z) \<in> live a rs"
  shows "p + z \<le> unat (total_size a)"
  using assms tiles_bounds [of a 0 rs "unat (total_size a)" i]
  by (auto simp: alloc_inv_def chain_inv_def live_iff)

lemma carved_live:
  assumes "carved a as x bs s a' rs'"
  shows "live a' rs' = insert (x, unat (off_of a x), s) (live a (as @ x # bs))"
    and "x \<notin> fst ` live a (as @ x # bs)"
proof -
  have x: "\<not> is_used a x" using assms by (simp add: carved_def)
  obtain n where "regions a' rs' = regions a as @ (x, unat (off_of a x), s, True)
            # (if s < unat (size_of a x)
               then [(n, unat (off_of a x) + s, unat (size_of a x) - s, False)] else [])
            @ regions a bs"
    using assms by (auto simp: carved_def)
  then show "live a' rs' = insert (x, unat (off_of a x), s) (live a (as @ x # bs))"
    using x by (simp add: region_def)
  show "x \<notin> fst ` live a (as @ x # bs)" using x live_used by blast
qed

lemma released_live:
  assumes "released a as x bs a' rs'" and d: "distinct (as @ x # bs)" and "is_used a x"
  shows "live a' rs' = live a (as @ x # bs) - {(x, unat (off_of a x), unat (size_of a x))}"
proof -
  obtain as' us vs bs' where R: "as = as' @ us" "bs = vs @ bs'" "merges a as' us vs bs'"
    "regions a' rs' = regions a as'
       @ (x, unat (off_of a (hd (us @ [x]))), extent a (us @ x # vs), False) # regions a bs'"
    using assms(1) by (auto simp: released_def)
  have "live a us = {}" "live a vs = {}" using R(3) by (auto simp: merges_def region_def)
  moreover have "(x, p, z) \<notin> live a as'" "(x, p, z) \<notin> live a bs'" for p z
    using d R(1,2) by (auto simp: live_iff)
  moreover have "region a x = (x, unat (off_of a x), unat (size_of a x), True)"
    using assms(3) by (simp add: region_def)
  ultimately show ?thesis unfolding R(1,2) using R(4) by simp
qed

section \<open>The contract\<close>

text \<open>The operations as the interface \<open>region_allocator\<close> names them.\<close>

definition alloc_region :: "u32 \<Rightarrow> allocator \<Rightarrow> ((u32 \<times> u32) option \<times> allocator) option" where
  "alloc_region s a = map_option (map_prod (map_option (\<lambda>al. (alloc_metadata al, alloc_offset al))) id)
     (allocate s a)"

definition free_region :: "u32 \<Rightarrow> allocator \<Rightarrow> allocator option" where
  "free_region i = free \<lparr>alloc_offset = 0, alloc_metadata = i\<rparr>"

lemma free_metadata: "free al = free_region (alloc_metadata al)"
  by (rule ext) (simp add: free_def free_region_def)

lemma allocate_holds:
  assumes "holds a V"
  shows "\<exists>r a'. allocate s a = Some (r, a') \<and> same_frame a a' \<and> (case r of
      None \<Rightarrow> a' = a
    | Some al \<Rightarrow> alloc_metadata al \<notin> fst ` V
        \<and> holds a' (insert (alloc_metadata al, unat (alloc_offset al), unat s) V))"
proof -
  obtain rs bl where inv: "alloc_inv a rs bl" and V: "V = live a rs" using assms by (auto simp: holds_def)
  obtain r a' rs' bl' where A: "allocate s a = Some (r, a')" "alloc_inv a' rs' bl'" "same_frame a a'"
    "allocate_post a rs s r a' rs'" using allocate_ok [OF inv] by metis
  show ?thesis
  proof (cases r)
    case None
    with A show ?thesis by (auto simp: allocate_post_def)
  next
    case (Some al)
    with A(4) obtain as bs where c: "rs = as @ alloc_metadata al # bs"
      "alloc_offset al = off_of a (alloc_metadata al)" "carved a as (alloc_metadata al) bs (unat s) a' rs'"
      by (auto simp: allocate_post_def)
    have "live a' rs' = insert (alloc_metadata al, unat (alloc_offset al), unat s) V"
      using carved_live(1) [OF c(3)] c(1,2) V by simp
    moreover have "alloc_metadata al \<notin> fst ` V" using carved_live(2) [OF c(3)] c(1) V by simp
    ultimately show ?thesis using A(1-3) Some holdsI [OF A(2)] by auto
  qed
qed

lemma free_holds:
  assumes "holds a V" and "(i, p, z) \<in> V"
  shows "\<exists>a'. free_region i a = Some a' \<and> same_frame a a' \<and> holds a' (V - {(i, p, z)})
           \<and> i \<in> valid a' \<and> \<not> is_used a' i"
proof -
  obtain rs bl where inv: "alloc_inv a rs bl" and V: "V = live a rs" using assms by (auto simp: holds_def)
  then have i: "i \<in> set rs" "p = unat (off_of a i)" "z = unat (size_of a i)" "is_used a i"
    using assms(2) by (auto simp: live_iff)
  obtain as bs where rs: "rs = as @ i # bs" using i(1) by (meson split_list)
  obtain a' rs' bl' where F: "free_region i a = Some a'" "alloc_inv a' rs' bl'" "same_frame a a'"
    "released a as i bs a' rs'"
    using free_ok [OF inv [unfolded rs] i(4), of "\<lparr>alloc_offset = 0, alloc_metadata = i\<rparr>"]
    by (auto simp: free_region_def)
  have d: "distinct (as @ i # bs)" using inv rs by (simp add: alloc_inv_def chain_inv_def)
  have "live a' rs' = V - {(i, p, z)}"
    using released_live [OF F(4) d i(4)] i V rs by simp
  moreover have "i \<in> set rs'" "\<not> is_used a' i"
  proof -
    obtain l where "(i, l, False) \<in> (\<lambda>(i, p, z, u). (i, (p, z), u)) ` set (regions a' rs')"
      using F(4) by (force simp: released_def simp del: set_map)
    then show "i \<in> set rs'" "\<not> is_used a' i" by (auto simp: region_def)
  qed
  moreover have "i \<in> valid a'"
    using \<open>i \<in> set rs'\<close> F(2) stack_valid [of a' "set rs'"] by (auto simp: alloc_inv_def)
  ultimately show ?thesis using F holdsI [OF F(2)] by auto
qed

interpretation oa: region_allocator holds alloc_region free_region "\<lambda>a. unat (total_size a)"
proof
  fix a :: allocator and V :: "u32 live"
  assume h: "holds a V"
  then obtain rs bl where inv: "alloc_inv a rs bl" "V = live a rs" by (auto simp: holds_def)
  show "disjoint_regions V" using live_disjoint inv by simp
  show "p + z \<le> unat (total_size a)" if "(i, p, z) \<in> V" for i p z
    using live_limit inv that by simp
  show "\<exists>r a'. alloc_region s a = Some (r, a') \<and> unat (total_size a') = unat (total_size a)" for s
    using allocate_holds [OF h, of s] by (auto simp: alloc_region_def same_frame_def)
  show "holds a' V" if "alloc_region s a = Some (None, a')" for s a'
    using allocate_holds [OF h, of s] that h by (auto simp: alloc_region_def)
  show "i \<notin> fst ` V \<and> holds a' (insert (i, unat w, unat s) V)"
    if "alloc_region s a = Some (Some (i, w), a')" for s i w a'
    using allocate_holds [OF h, of s] that by (force simp: alloc_region_def)
  show "\<exists>a'. free_region i a = Some a' \<and> unat (total_size a') = unat (total_size a)
      \<and> holds a' (V - {(i, p, z)})" if "(i, p, z) \<in> V" for i p z
    using free_holds [OF h that] by (auto simp: same_frame_def)
qed

lemma with_max_allocs_inv:
  assumes "2 \<le> n" and "n < 0xFFFFFFFE"
  shows "\<exists>a i bl. with_max_allocs sz n = Some a \<and> alloc_inv a [i] bl
           \<and> regions a [i] = [(i, 0, unat sz, False)] \<and> free_offset a = n - 2
           \<and> total_size a = sz \<and> max_allocs a = n \<and> holds a {}"
proof -
  let ?z = "\<lparr>total_size = sz, max_allocs = n, free_storage = 0, used_bins_top = 0,
            used_bins = replicate NUM_TOP_BINS 0, bin_indices = replicate NUM_LEAF_BINS None,
            nodes = [], free_nodes = [], free_offset = 0\<rparr> :: allocator"
  have "with_max_allocs sz n = reset ?z"
    using assms by (simp add: with_max_allocs_def)
  moreover obtain a i bl where R: "reset ?z = Some a" "alloc_inv a [i] bl"
    "regions a [i] = [(i, 0, unat sz, False)]" "free_offset a = n - 2" "total_size a = sz" "max_allocs a = n"
    using reset_ok [of ?z] assms
    by (auto simp: NUM_TOP_BINS_def NUM_LEAF_BINS_def BINS_PER_LEAF_def)
  moreover have "holds a {}" using holdsI [OF R(2)] R(3) by simp
  ultimately show ?thesis by auto
qed

lemma free_sum:
  assumes "alloc_inv a rs bl"
  shows "unat (free_storage a) + (\<Sum>(i, p, z)\<in>live a rs. z) = unat (total_size a)"
proof -
  have d: "distinct rs" and t: "tiles a 0 rs (unat (total_size a))"
    and st: "free_storage a = (\<Sum>i\<in>free_set a rs. size_of a i)"
    using assms by (simp_all add: alloc_inv_def chain_inv_def bins_inv_def storage_inv_def)
  let ?u = "\<lambda>i. unat (size_of a i)"
  define U where "U = {i \<in> set rs. is_used a i}"
  have "unat (total_size a) = (\<Sum>i\<in>set rs. ?u i)"
    using tiles_extent [OF t] d by (simp add: extent_def sum_list_distinct_conv_sum_set)
  also have "\<dots> = (\<Sum>i\<in>free_set a rs. ?u i) + (\<Sum>i\<in>U. ?u i)"
    by (subst sum.union_disjoint [symmetric]) (auto simp: free_set_def U_def intro: sum.cong)
  finally have total: "unat (total_size a) = (\<Sum>i\<in>free_set a rs. ?u i) + (\<Sum>i\<in>U. ?u i)" .
  have "free_storage a = of_nat (\<Sum>i\<in>free_set a rs. ?u i)"
    by (simp add: st)
  moreover have "(\<Sum>i\<in>free_set a rs. ?u i) < 2 ^ 32"
    using total unat_u32_lt [of "total_size a"] by linarith
  ultimately have "unat (free_storage a) = (\<Sum>i\<in>free_set a rs. ?u i)"
    by (metis unat_of_nat_u32)
  moreover have "(\<Sum>(i, p, z)\<in>live a rs. z) = (\<Sum>i\<in>U. ?u i)"
    by (rule sum.reindex_bij_witness [where i = "\<lambda>i. (i, unat (off_of a i), ?u i)" and j = fst])
      (auto simp: live_iff U_def)
  ultimately show ?thesis using total by simp
qed

lemma single_free_region:
  assumes inv: "alloc_inv a rs bl" and none: "live a rs = {}"
  shows "\<exists>i. rs = [i]"
proof (cases rs)
  case (Cons i xs)
  have unused: "\<not> is_used a j" if "j \<in> set rs" for j
    using none that live_iff [of j "unat (off_of a j)" "unat (size_of a j)" a rs] by auto
  have "xs = []"
  proof (rule ccontr)
    assume "xs \<noteq> []"
    then have "is_used a i \<or> is_used a (hd xs)"
      using inv Cons by (simp add: alloc_inv_def chain_inv_def successively_Cons)
    then show False using unused Cons \<open>xs \<noteq> []\<close> by auto
  qed
  with Cons show ?thesis by simp
qed (use inv in \<open>simp add: alloc_inv_def chain_inv_def\<close>)

lemma allocate_some_iff:
  assumes "alloc_inv a rs bl"
  shows "(\<exists>al a'. allocate s a = Some (Some al, a')) \<longleftrightarrow> 0 < free_offset a
    \<and> (\<exists>i \<in> free_set a rs. uint_to_float_round_up s \<le> uint_to_float_round_down (size_of a i))"
proof -
  obtain r a' rs' bl' where A: "allocate s a = Some (r, a')" "allocate_post a rs s r a' rs'"
    using allocate_ok [OF assms, of s] by metis
  show ?thesis
  proof (cases r)
    case None
    with A show ?thesis by (auto simp: allocate_post_def not_le)
  next
    case (Some al)
    with A(2) have "0 < free_offset a" "alloc_metadata al \<in> free_set a rs"
      "best_bin a rs s (alloc_metadata al)"
      by (auto simp: allocate_post_def carved_def free_set_def)
    with A(1) Some show ?thesis by (auto simp: best_bin_def)
  qed
qed

text \<open>A concrete state with one live allocation, for the witnesses.\<close>

lemma sample_state:
  obtains a0 i bl al a where "with_max_allocs 64 4 = Some a0" and "alloc_inv a0 [i] bl"
    and "allocate 16 a0 = Some (Some al, a)"
    and "holds a {(alloc_metadata al, unat (alloc_offset al), 16)}"
proof -
  obtain a0 i bl where a0: "with_max_allocs 64 4 = Some a0" "alloc_inv a0 [i] bl"
    "regions a0 [i] = [(i, 0, 64, False)]" "free_offset a0 = 2" "holds a0 {}"
    using with_max_allocs_inv [of 4 64] by auto
  have "unat (size_of a0 i) = unat (64 :: u32)" using a0(3) by (simp add: region_def)
  then have "size_of a0 i = 64" by (simp only: word_unat_eq_iff)
  moreover have "i \<in> free_set a0 [i]" using a0(3) by (simp add: region_def free_set_def)
  moreover have "uint_to_float_round_up 16 \<le> uint_to_float_round_down 64"
    by (simp add: small_float_eval)
  ultimately have "\<exists>i \<in> free_set a0 [i]. uint_to_float_round_up 16 \<le> uint_to_float_round_down (size_of a0 i)"
    by (intro bexI [of _ i]) simp_all
  then obtain al a where "allocate 16 a0 = Some (Some al, a)"
    using allocate_some_iff [OF a0(2), of 16] a0(4) by auto
  moreover from this have "holds a {(alloc_metadata al, unat (alloc_offset al), 16)}"
    using allocate_holds [OF a0(5), of 16] by auto
  ultimately show thesis using that a0(1,2) by blast
qed

section \<open>Properties\<close>

text \<open>
  C11. A new allocator over \<open>sz\<close> units with at least two nodes satisfies the invariant: it is one
  free region \<open>[0, sz)\<close> and has no live allocation.
\<close>

theorem with_max_allocs_ok:
  assumes "2 \<le> n" and "n < 0xFFFFFFFE"
  shows "\<exists>a i bl. with_max_allocs sz n = Some a \<and> alloc_inv a [i] bl
           \<and> regions a [i] = [(i, 0, unat sz, False)] \<and> free_offset a = n - 2 \<and> holds a {}"
  using with_max_allocs_inv [OF assms, of sz] by (elim exE conjE) (intro exI conjI)

theorem with_max_allocs_ok_witness:
  "\<exists>a i bl. with_max_allocs 64 4 = Some a \<and> alloc_inv a [i] bl
     \<and> regions a [i] = [(i, 0, 64, False)] \<and> free_offset a = 2 \<and> holds a {}"
  using with_max_allocs_ok [of 4 64] by simp

text \<open>
  C1. \<open>allocate\<close> in any state that holds the live allocations \<open>V\<close> does not panic. When it fails the
  state is unchanged. When it succeeds the new handle is not in use, the region of exactly the
  requested size lies in \<open>[0, total_size)\<close> and is apart from every live region, and the state holds
  \<open>V\<close> and the new allocation.
\<close>

theorem allocate_refines:
  assumes "holds a V"
  shows "\<exists>r a'. allocate s a = Some (r, a') \<and> total_size a' = total_size a \<and> (case r of
      None \<Rightarrow> a' = a
    | Some al \<Rightarrow> holds a' (insert (alloc_metadata al, unat (alloc_offset al), unat s) V)
        \<and> unat (alloc_offset al) + unat s \<le> unat (total_size a)
        \<and> (\<forall>(j, q, y) \<in> V. j \<noteq> alloc_metadata al \<and> apart (unat (alloc_offset al), unat s) (q, y)))"
proof -
  obtain r a' where A: "allocate s a = Some (r, a')" "same_frame a a'" "case r of
      None \<Rightarrow> a' = a
    | Some al \<Rightarrow> alloc_metadata al \<notin> fst ` V
        \<and> holds a' (insert (alloc_metadata al, unat (alloc_offset al), unat s) V)"
    using allocate_holds [OF assms] by blast
  show ?thesis
  proof (cases r)
    case (Some al)
    then have run: "alloc_region s a = Some (Some (alloc_metadata al, alloc_offset al), a')"
      using A(1) by (simp add: alloc_region_def)
    from Some A oa.alloc_within [OF assms run] oa.alloc_apart [OF assms run] show ?thesis
      by (fastforce simp: same_frame_def)
  qed (use A in \<open>simp add: same_frame_def\<close>)
qed

theorem allocate_refines_witness:
  "\<exists>a. with_max_allocs 64 4 = Some a \<and> holds a {} \<and> (\<exists>r a'. allocate 16 a = Some (r, a')
     \<and> (\<forall>al. r = Some al \<longrightarrow> holds a' {(alloc_metadata al, unat (alloc_offset al), 16)}))"
proof -
  obtain a where a: "with_max_allocs 64 4 = Some a" "holds a {}"
    using with_max_allocs_inv [of 4 64] by auto
  from allocate_refines [OF a(2), of 16] a show ?thesis by (auto split: option.splits)
qed

text \<open>
  When \<open>allocate\<close> fails: exactly when no spare node is left, or when every free region is filed
  under a smaller bin than the request rounds up to.
\<close>

theorem allocate_fails_iff:
  assumes "alloc_inv a rs bl"
  shows "(\<exists>a'. allocate s a = Some (None, a')) \<longleftrightarrow> free_offset a = 0
    \<or> (\<forall>i \<in> free_set a rs. uint_to_float_round_down (size_of a i) < uint_to_float_round_up s)"
proof -
  obtain r a' where "allocate s a = Some (r, a')" using allocate_ok [OF assms, of s] by metis
  then have "(\<exists>a'. allocate s a = Some (None, a')) \<longleftrightarrow> \<not> (\<exists>al a'. allocate s a = Some (Some al, a'))"
    by (cases r) auto
  then show ?thesis using allocate_some_iff [OF assms, of s] by (auto simp: not_le word_neq_0_conv [symmetric])
qed

theorem allocate_fails_iff_witness:
  "\<exists>a i bl. with_max_allocs 64 4 = Some a \<and> alloc_inv a [i] bl
     \<and> ((\<exists>a'. allocate 100 a = Some (None, a')) \<longleftrightarrow> free_offset a = 0
          \<or> (\<forall>i \<in> free_set a [i]. uint_to_float_round_down (size_of a i) < uint_to_float_round_up 100))"
proof -
  obtain a0 i bl al a where S: "with_max_allocs 64 4 = Some a0" "alloc_inv a0 [i] bl"
    "allocate 16 a0 = Some (Some al, a)" "holds a {(alloc_metadata al, unat (alloc_offset al), 16)}"
    by (rule sample_state)
  with allocate_fails_iff [OF S(2), of 100] show ?thesis by blast
qed

text \<open>
  C2. Releasing a live allocation never panics, keeps the other allocations, and after it the
  handle is no longer live: releasing it again at once is the panic of the double-free check.
\<close>

theorem free_refines:
  assumes "holds a V" and "(alloc_metadata al, p, z) \<in> V"
  shows "\<exists>a'. free al a = Some a' \<and> holds a' (V - {(alloc_metadata al, p, z)})
           \<and> total_size a' = total_size a \<and> free al a' = None"
proof -
  obtain a' where "free_region (alloc_metadata al) a = Some a'" "same_frame a a'"
    "holds a' (V - {(alloc_metadata al, p, z)})" "alloc_metadata al \<in> valid a'"
    "\<not> is_used a' (alloc_metadata al)"
    using free_holds [OF assms] by blast
  moreover from this have "free al a' = None"
    by (simp add: free_def assert_def Let_def)
  ultimately show ?thesis by (auto simp: free_metadata same_frame_def)
qed

theorem free_refines_witness:
  "\<exists>a0 al a a'. with_max_allocs 64 4 = Some a0 \<and> allocate 16 a0 = Some (Some al, a)
     \<and> free al a = Some a' \<and> holds a' {} \<and> free al a' = None"
proof -
  obtain a0 i bl al a where S: "with_max_allocs 64 4 = Some a0" "alloc_inv a0 [i] bl"
    "allocate 16 a0 = Some (Some al, a)" "holds a {(alloc_metadata al, unat (alloc_offset al), 16)}"
    by (rule sample_state)
  with free_refines [OF S(4), of al "unat (alloc_offset al)" 16] show ?thesis by auto
qed

text \<open>
  No storage is lost: the free storage counter and the sizes of the live allocations always add
  up to the total size, and when the last allocation is released the allocator is again one free
  region over everything.
\<close>

theorem storage_conserved:
  assumes "holds a V"
  shows "unat (free_storage a) + (\<Sum>(i, p, z)\<in>V. z) = unat (total_size a)
    \<and> (V = {} \<longrightarrow> (\<exists>i bl. alloc_inv a [i] bl \<and> regions a [i] = [(i, 0, unat (total_size a), False)]))"
proof -
  obtain rs bl where inv: "alloc_inv a rs bl" "V = live a rs" using assms by (auto simp: holds_def)
  have "\<exists>i bl. alloc_inv a [i] bl \<and> regions a [i] = [(i, 0, unat (total_size a), False)]" if e: "V = {}"
  proof -
    obtain i where i: "rs = [i]" using single_free_region [OF inv(1)] inv(2) e by auto
    then have "regions a [i] = [(i, 0, unat (total_size a), False)]"
      using inv e live_iff [of i "unat (off_of a i)" "unat (size_of a i)" a rs]
      by (auto simp: alloc_inv_def chain_inv_def region_def)
    with inv(1) [unfolded i] show ?thesis by (intro exI conjI)
  qed
  with free_sum [OF inv(1)] inv(2) show ?thesis by blast
qed

theorem storage_conserved_witness:
  "\<exists>a0 al a. with_max_allocs 64 4 = Some a0 \<and> allocate 16 a0 = Some (Some al, a)
     \<and> unat (free_storage a) + 16 = unat (total_size a)"
proof -
  obtain a0 i bl al a where S: "with_max_allocs 64 4 = Some a0" "alloc_inv a0 [i] bl"
    "allocate 16 a0 = Some (Some al, a)" "holds a {(alloc_metadata al, unat (alloc_offset al), 16)}"
    by (rule sample_state)
  with storage_conserved [OF S(4)] show ?thesis by auto
qed

section \<open>The storage report\<close>

lemma high_bit:
  fixes w :: u32
  assumes "w \<noteq> 0"
  shows "unat (31 - leading_zeros w) < 32" and "bit w (unat (31 - leading_zeros w))"
    and "\<And>k. unat (31 - leading_zeros w) < k \<Longrightarrow> \<not> bit w k"
proof -
  have c: "clz_from 32 w < 32" "2 ^ (31 - clz_from 32 w) \<le> unat w" "unat w < 2 ^ (32 - clz_from 32 w)"
    using clz_from_bounds [of w 32] assms unat_u32_lt [of w] by auto
  define h where "h = 31 - clz_from 32 w"
  have "31 - leading_zeros w = of_nat h"
    using c(1) by (simp add: leading_zeros_def h_def of_nat_diff)
  then have h: "unat (31 - leading_zeros w) = h" by (simp add: unat_of_nat h_def)
  have b: "2 ^ h \<le> unat w" "unat w < 2 ^ Suc h"
  proof -
    have "Suc h = 32 - clz_from 32 w" using c(1) by (simp add: h_def)
    then show "unat w < 2 ^ Suc h" using c(3) by simp
  qed (use c(2) in \<open>simp add: h_def\<close>)
  show "unat (31 - leading_zeros w) < 32" using h by (simp add: h_def)
  show "bit w (unat (31 - leading_zeros w))" using h b by (simp add: bit_top_of)
  show "\<not> bit w k" if "unat (31 - leading_zeros w) < k" for k
  proof -
    have "(2::nat) ^ Suc h \<le> 2 ^ k" using that h by (intro power_increasing) simp_all
    then have "unat w div 2 ^ k = 0" using b(2) by simp
    then show ?thesis by (simp add: bit_word_odd)
  qed
qed

lemma highest_bin:
  assumes B: "bits_inv a bl" and top: "used_bins_top a \<noteq> 0"
    and t: "t = 31 - leading_zeros (used_bins_top a)"
    and l: "l = 31 - leading_zeros (ucast (used_bins a ! unat t) :: u32)"
  shows "unat t < 32" and "unat l < 8" and "bl (8 * unat t + unat l) \<noteq> []"
    and "\<And>b. b < 256 \<Longrightarrow> 8 * unat t + unat l < b \<Longrightarrow> bl b = []"
proof -
  note T = high_bit [OF top, folded t]
  show t32: "unat t < 32" by (rule T)
  have leaf: "used_bins a ! unat t \<noteq> 0" using B T by (simp add: bits_inv_def)
  have cast: "bit (ucast (used_bins a ! unat t) :: u32) k \<longleftrightarrow> bit (used_bins a ! unat t) k" for k
    by (auto simp: bit_simps dest: bit_imp_le_length)
  then have "(ucast (used_bins a ! unat t) :: u32) \<noteq> 0" using leaf by (metis bit_eqI bit_0_eq bot_apply bot_bool_def)
  note L = high_bit [OF this, folded l, unfolded cast]
  show l8: "unat l < 8" using L(2) bit_imp_le_length [of "used_bins a ! unat t"] by fastforce
  show "bl (8 * unat t + unat l) \<noteq> []" using B T(1) l8 L(2) by (simp add: bits_inv_def)
  show "bl b = []" if b: "b < 256" "8 * unat t + unat l < b" for b
  proof (cases "b div 8 = unat t")
    case True
    then have "unat l < b mod 8" using b(2) by (metis mult_div_mod_eq nat_add_left_cancel_less)
    with L(3) have "\<not> bit (used_bins a ! unat t) (b mod 8)" by blast
    with B t32 True show ?thesis
      unfolding bits_inv_def by (metis mod_less_divisor mult_div_mod_eq zero_less_numeral)
  next
    case False
    with b l8 have "unat t < b div 8" "b div 8 < 32" by linarith+
    with T(3) B have "used_bins a ! (b div 8) = 0" by (auto simp: bits_inv_def)
    with B \<open>b div 8 < 32\<close> show ?thesis
      unfolding bits_inv_def by (metis bit_0_eq bot_apply bot_bool_def mod_less_divisor mult_div_mod_eq zero_less_numeral)
  qed
qed

lemma no_free_region:
  assumes "alloc_inv a rs bl" and "used_bins_top a = 0"
  shows "free_set a rs = {}"
proof -
  have B: "bits_inv a bl" "lists_inv a (free_set a rs) bl"
    using assms(1) by (simp_all add: alloc_inv_def bins_inv_def)
  have "bl b = []" if "b < 256" for b
  proof -
    have "b div 8 < 32" using that by linarith
    then have "used_bins a ! (b div 8) = 0" using B(1) assms(2) by (auto simp: bits_inv_def)
    with B(1) \<open>b div 8 < 32\<close> show ?thesis
      unfolding bits_inv_def by (metis bit_0_eq bot_apply bot_bool_def mod_less_divisor mult_div_mod_eq zero_less_numeral)
  qed
  then show ?thesis using bins_of_free [OF B(2)] bin_of_lt by blast
qed

lemma largest_bin:
  assumes inv: "alloc_inv a rs bl" and top: "used_bins_top a \<noteq> 0"
    and t: "t = 31 - leading_zeros (used_bins_top a)"
    and l: "l = 31 - leading_zeros (ucast (used_bins a ! unat t) :: u32)"
    and f: "f = shl t TOP_BINS_INDEX_SHIFT OR l"
  shows "unat f < 240" and "\<exists>i \<in> free_set a rs. uint_to_float_round_down (size_of a i) = f"
    and "\<And>i. i \<in> free_set a rs \<Longrightarrow> uint_to_float_round_down (size_of a i) \<le> f"
proof -
  have B: "bits_inv a bl" "lists_inv a (free_set a rs) bl"
    using inv by (simp_all add: alloc_inv_def bins_inv_def)
  note H = highest_bin [OF B(1) top t l]
  have f': "unat f = 8 * unat t + unat l" using unat_bin_index [OF H(1,2)] f by simp
  have "unat f < 256" using f' H(1,2) by simp
  from lists_invD(2) [OF B(2) this] H(3) f' obtain i where i: "i \<in> free_set a rs" "bin_of (size_of a i) = unat f"
    by (metis (mono_tags, lifting) empty_Collect_eq set_empty)
  then show "\<exists>i \<in> free_set a rs. uint_to_float_round_down (size_of a i) = f"
    by (auto simp: word_unat_eq_iff)
  show "unat f < 240" using round_down_lt_240 [of "size_of a i"] i(2) by simp
  show "uint_to_float_round_down (size_of a j) \<le> f" if "j \<in> free_set a rs" for j
    using bins_of_free [OF B(2) that] H(4) [OF bin_of_lt] f' by (metis linorder_not_less word_le_nat_alt)
qed

text \<open>
  The report tells exactly what can be allocated: a positive request succeeds when and only when
  it is at most the reported largest free region.
\<close>

theorem storage_report_exact:
  assumes "holds a V" and "0 < s"
  shows "\<exists>r. storage_report a = Some r
    \<and> total_free_space r = (if free_offset a = 0 then 0 else free_storage a)
    \<and> ((\<exists>al a'. allocate s a = Some (Some al, a')) \<longleftrightarrow> s \<le> largest_free_region r)"
proof -
  obtain rs bl where inv: "alloc_inv a rs bl" using assms(1) by (auto simp: holds_def)
  note ok = allocate_some_iff [OF inv, of s]
  show ?thesis
  proof (cases "0 < free_offset a \<and> used_bins_top a \<noteq> 0")
    case False
    have "\<nexists>al a'. allocate s a = Some (Some al, a')"
      using ok no_free_region [OF inv] False by blast
    moreover have "\<not> s \<le> 0" using assms(2) by simp
    moreover have "storage_report a = Some \<lparr>total_free_space = (if free_offset a = 0 then 0 else free_storage a),
        largest_free_region = 0\<rparr>"
      using False by (auto simp: storage_report_def word_neq_0_conv [symmetric])
    ultimately show ?thesis by simp
  next
    case True
    define t where "t = 31 - leading_zeros (used_bins_top a)"
    define l where "l = 31 - leading_zeros (ucast (used_bins a ! unat t) :: u32)"
    define f where "f = shl t TOP_BINS_INDEX_SHIFT OR l"
    note M = largest_bin [OF inv _ t_def l_def f_def]
    have "unat t < 32" "length (used_bins a) = 32"
      using high_bit(1) True inv by (simp_all add: t_def alloc_inv_def bins_inv_def bits_inv_def)
    then have r: "storage_report a = Some \<lparr>total_free_space = free_storage a, largest_free_region = float_to_uint f\<rparr>"
      using True by (simp add: storage_report_def word_neq_0_conv [symmetric] t_def l_def f_def get_lt Let_def)
    have "(\<exists>i \<in> free_set a rs. uint_to_float_round_up s \<le> uint_to_float_round_down (size_of a i))
        \<longleftrightarrow> uint_to_float_round_up s \<le> f"
    proof
      assume "\<exists>i \<in> free_set a rs. uint_to_float_round_up s \<le> uint_to_float_round_down (size_of a i)"
      then show "uint_to_float_round_up s \<le> f" using M(3) True order_trans by blast
    next
      assume "uint_to_float_round_up s \<le> f"
      then show "\<exists>i \<in> free_set a rs. uint_to_float_round_up s \<le> uint_to_float_round_down (size_of a i)"
        using M(2) True by auto
    qed
    also have "\<dots> \<longleftrightarrow> s \<le> float_to_uint f" using M(1) True by (intro bin_adjoint(1)) simp
    finally show ?thesis using r ok True by auto
  qed
qed


theorem storage_report_exact_witness:
  "\<exists>a0 al a r. with_max_allocs 64 4 = Some a0 \<and> allocate 16 a0 = Some (Some al, a)
     \<and> storage_report a = Some r
     \<and> ((\<exists>al' a'. allocate 48 a = Some (Some al', a')) \<longleftrightarrow> 48 \<le> largest_free_region r)"
proof -
  obtain a0 i bl al a where S: "with_max_allocs 64 4 = Some a0" "alloc_inv a0 [i] bl"
    "allocate 16 a0 = Some (Some al, a)" "holds a {(alloc_metadata al, unat (alloc_offset al), 16)}"
    by (rule sample_state)
  with storage_report_exact [OF S(4), of 48] show ?thesis by auto
qed

section \<open>The full report\<close>

lemma count_nodes_linked:
  assumes "linked pv (bnext a) p xs None" and "set xs \<subseteq> valid a"
  shows "count_nodes a (first_of xs None) c = Some (c + of_nat (length xs))"
  using assms
proof (induction xs arbitrary: c p)
  case Nil
  show ?case by (simp add: count_nodes.simps)
next
  case (Cons x xs)
  then have x: "unat x < length (nodes a)" "bnext a x = first_of xs None" by simp_all
  have "count_nodes a (first_of (x # xs) None) c = count_nodes a (first_of xs None) (c + 1)"
    by (subst count_nodes.simps) (simp add: x)
  also have "\<dots> = Some (c + 1 + of_nat (length xs))" using Cons by auto
  finally show ?case by (simp add: ac_simps)
qed

lemma those_map_Some:
  assumes "\<And>x. x \<in> set xs \<Longrightarrow> f x = Some (g x)"
  shows "those (map f xs) = Some (map g xs)"
  using assms by (induction xs) auto

text \<open>
  The full report ends, without a panic, on every reachable state, and gives for each bin its
  lower bound and the number of free regions filed under it.
\<close>

theorem storage_report_full_counts:
  assumes "alloc_inv a rs bl"
  shows "storage_report_full a = Some (map (\<lambda>b. \<lparr>region_size = float_to_uint (of_nat b),
    region_count = of_nat (card {i \<in> free_set a rs. bin_of (size_of a i) = b})\<rparr>) [0..<256])"
proof -
  have L: "lists_inv a (free_set a rs) bl" using assms by (simp add: alloc_inv_def bins_inv_def)
  have step: "do { head \<leftarrow> get (bin_indices a) b; count \<leftarrow> count_nodes a head 0;
        Some \<lparr>region_size = float_to_uint (of_nat b), region_count = count\<rparr> }
      = Some \<lparr>region_size = float_to_uint (of_nat b),
          region_count = of_nat (card {i \<in> free_set a rs. bin_of (size_of a i) = b})\<rparr>"
    if "b < 256" for b
  proof -
    note D = lists_invD [OF L that]
    have "bin_indices a ! b = first_of (bl b) None" "length (bin_indices a) = 256"
      using L that by (simp_all add: lists_inv_def)
    moreover have "set (bl b) \<subseteq> valid a" using D(2) L by (auto simp: lists_inv_def)
    moreover have "card {i \<in> free_set a rs. bin_of (size_of a i) = b} = length (bl b)"
      using D(1,2) by (metis distinct_card)
    ultimately show ?thesis
      using count_nodes_linked [OF D(3), of 0] that by (simp add: get_lt)
  qed
  have "NUM_LEAF_BINS = 256" by (simp add: NUM_LEAF_BINS_def NUM_TOP_BINS_def BINS_PER_LEAF_def)
  with step show ?thesis
    unfolding storage_report_full_def by (metis (no_types, lifting) atLeastLessThan_iff set_upt those_map_Some)
qed

theorem storage_report_full_counts_witness:
  "\<exists>a i bl. with_max_allocs 64 4 = Some a \<and> alloc_inv a [i] bl \<and> storage_report_full a = Some (map
     (\<lambda>b. \<lparr>region_size = float_to_uint (of_nat b),
       region_count = of_nat (card {j \<in> free_set a [i]. bin_of (size_of a j) = b})\<rparr>) [0..<256])"
proof -
  obtain a0 i bl al a where S: "with_max_allocs 64 4 = Some a0" "alloc_inv a0 [i] bl"
    "allocate 16 a0 = Some (Some al, a)" "holds a {(alloc_metadata al, unat (alloc_offset al), 16)}"
    by (rule sample_state)
  with storage_report_full_counts [OF S(2)] show ?thesis by blast
qed

end
