(* ===== verification/Virt_Layout.thy ===== *)
theory Virt_Layout
  imports Prelude
begin

text \<open>
  The memory layout of a virtqueue: the page arithmetic of \<open>src/virtio-drivers/src/lib.rs\<close>, the DMA
  regions of \<open>src/virtio-drivers/src/hal.rs\<close> and \<open>VirtQueueLayout\<close> of
  \<open>src/virtio-drivers/src/queue.rs\<close>. A \<open>usize\<close> is a 64-bit word. The hardware abstraction (\<open>Hal\<close>) and
  the global allocator are a record of operations over a state \<open>'h\<close>, the parameter \<open>hal\<close> of the
  definitions.
\<close>

section \<open>Errors and the hardware abstraction\<close>

datatype socket_error =
    ConnectionExists | NotConnected | PeerSocketShutdown | BufferTooShort | OutputBufferTooShort nat
  | BufferTooLong nat nat | UnknownOperation u16 | InvalidOperation | InvalidNumber
  | UnexpectedDataInPacket | InsufficientBufferSpaceInPeer | RecycledWrongBuffer

datatype error =
    QueueFull | NotReady | WrongToken | AlreadyUsed | InvalidParam | DmaError | IoError | Unsupported
  | ConfigSpaceTooSmall | ConfigSpaceMissing | SocketDeviceError socket_error

type_synonym 'r result = "error + 'r"

datatype buffer_direction = DriverToDevice | DeviceToDriver | Both

text \<open>A byte slice: the address of its first byte and its length.\<close>

record slice =
  slice_ptr :: u64
  slice_len :: u64

text \<open>
  The operations of the trait \<open>Hal\<close>, boxes of the global allocator (size in bytes), and the driver's
  own accesses to the memory of its buffers (\<open>stack_slot\<close> is where a local of the given size lies). All of them work on one state of type \<open>'h\<close>.
\<close>

record 'h hal =
  dma_alloc :: "u64 \<Rightarrow> buffer_direction \<Rightarrow> bool \<Rightarrow> 'h \<Rightarrow> (u64 \<times> u64) \<times> 'h"
  dma_dealloc :: "u64 \<Rightarrow> u64 \<Rightarrow> u64 \<Rightarrow> bool \<Rightarrow> 'h \<Rightarrow> 32 word \<times> 'h"
  share :: "slice \<Rightarrow> buffer_direction \<Rightarrow> bool \<Rightarrow> 'h \<Rightarrow> u64 \<times> 'h"
  unshare :: "u64 \<Rightarrow> slice \<Rightarrow> buffer_direction \<Rightarrow> bool \<Rightarrow> 'h \<Rightarrow> 'h"
  new_box :: "u64 \<Rightarrow> 'h \<Rightarrow> u64 option \<times> 'h"
  drop_box :: "u64 \<Rightarrow> 'h \<Rightarrow> 'h"
  mem_load :: "slice \<Rightarrow> 'h \<Rightarrow> u8 list"
  mem_store :: "u64 \<Rightarrow> u8 list \<Rightarrow> 'h \<Rightarrow> 'h"
  stack_slot :: "nat \<Rightarrow> 'h \<Rightarrow> u64"

section \<open>Pages\<close>

definition PAGE_SIZE :: u64 where "PAGE_SIZE = 0x1000"

definition align_up :: "u64 \<Rightarrow> u64" where
  "align_up sz = (sz + PAGE_SIZE) AND NOT (PAGE_SIZE - 1)"

definition pages :: "u64 \<Rightarrow> u64" where
  "pages sz = (if sz mod PAGE_SIZE = 0 then sz div PAGE_SIZE else sz div PAGE_SIZE + 1)"

section \<open>DMA regions\<close>

record dma =
  dma_paddr :: u64
  dma_vaddr :: u64
  dma_pages :: u64
  dma_access_platform :: bool

definition dma_new :: "'h hal \<Rightarrow> u64 \<Rightarrow> buffer_direction \<Rightarrow> bool \<Rightarrow> 'h \<Rightarrow> dma result \<times> 'h" where
  "dma_new hal n direction ap h =
     (let ((paddr, vaddr), h) = dma_alloc hal n direction ap h in
      if paddr = 0 then (Inl DmaError, h)
      else (Inr \<lparr>dma_paddr = paddr, dma_vaddr = vaddr, dma_pages = n, dma_access_platform = ap\<rparr>, h))"

definition vaddr :: "dma \<Rightarrow> u64 \<Rightarrow> u64 option" where
  "vaddr d offset = do {
     assert (offset < dma_pages d * PAGE_SIZE);
     let p = dma_vaddr d + offset;
     assert (p \<noteq> 0);
     Some p
   }"

definition raw_slice :: "dma \<Rightarrow> slice option" where
  "raw_slice d = do {
     p \<leftarrow> vaddr d 0;
     Some \<lparr>slice_ptr = p, slice_len = dma_pages d * PAGE_SIZE\<rparr>
   }"

definition dma_drop :: "'h hal \<Rightarrow> dma \<Rightarrow> 'h \<Rightarrow> 'h option" where
  "dma_drop hal d h = do {
     let (err, h) = dma_dealloc hal (dma_paddr d) (dma_vaddr d) (dma_pages d) (dma_access_platform d) h;
     assert (err = 0);
     Some h
   }"

section \<open>The parts of a queue\<close>

definition is_power_of_two :: "'a::len word \<Rightarrow> bool" where
  "is_power_of_two w \<longleftrightarrow> w \<noteq> 0 \<and> w AND (w - 1) = 0"

text \<open>The sizes of \<open>Descriptor\<close> (16), \<open>u16\<close> (2) and \<open>UsedElem\<close> (8) are those of their \<open>repr(C)\<close> layout.\<close>

definition queue_part_sizes :: "u16 \<Rightarrow> (u64 \<times> u64 \<times> u64) option" where
  "queue_part_sizes queue_size = do {
     assert (is_power_of_two queue_size);
     let n = (ucast queue_size :: u64);
     Some (16 * n, 2 * (3 + n), 2 * 3 + 8 * n)
   }"

datatype queue_layout =
    Legacy (legacy_dma: dma) (legacy_avail_offset: u64) (legacy_used_offset: u64)
  | Modern (driver_to_device_dma: dma) (device_to_driver_dma: dma) (modern_avail_offset: u64)

definition allocate_legacy ::
  "'h hal \<Rightarrow> u16 \<Rightarrow> bool \<Rightarrow> 'h \<Rightarrow> (queue_layout result \<times> 'h) option" where
  "allocate_legacy hal queue_size ap h = do {
     (desc, avail, used) \<leftarrow> queue_part_sizes queue_size;
     let sz = align_up (desc + avail) + align_up used;
     Some (case dma_new hal (sz div PAGE_SIZE) Both ap h of
         (Inl e, h) \<Rightarrow> (Inl e, h)
       | (Inr d, h) \<Rightarrow> (Inr (Legacy d desc (align_up (desc + avail))), h))
   }"

text \<open>When the second region cannot be had the first is dropped.\<close>

definition allocate_flexible ::
  "'h hal \<Rightarrow> u16 \<Rightarrow> bool \<Rightarrow> 'h \<Rightarrow> (queue_layout result \<times> 'h) option" where
  "allocate_flexible hal queue_size ap h = do {
     (desc, avail, used) \<leftarrow> queue_part_sizes queue_size;
     (case dma_new hal (pages (desc + avail)) DriverToDevice ap h of
         (Inl e, h) \<Rightarrow> Some (Inl e, h)
       | (Inr d, h) \<Rightarrow>
           (case dma_new hal (pages used) DeviceToDriver ap h of
              (Inl e, h) \<Rightarrow> do { h \<leftarrow> dma_drop hal d h; Some (Inl e, h) }
            | (Inr d', h) \<Rightarrow> Some (Inr (Modern d d' desc), h)))
   }"

fun descriptors_paddr :: "queue_layout \<Rightarrow> u64" where
  "descriptors_paddr (Legacy d _ _) = dma_paddr d"
| "descriptors_paddr (Modern d _ _) = dma_paddr d"

fun descriptors_vaddr :: "queue_layout \<Rightarrow> u64 option" where
  "descriptors_vaddr (Legacy d _ _) = vaddr d 0"
| "descriptors_vaddr (Modern d _ _) = vaddr d 0"

fun driver_area_paddr :: "queue_layout \<Rightarrow> u64" where
  "driver_area_paddr (Legacy d avail_offset _) = dma_paddr d + avail_offset"
| "driver_area_paddr (Modern d _ avail_offset) = dma_paddr d + avail_offset"

fun avail_vaddr :: "queue_layout \<Rightarrow> u64 option" where
  "avail_vaddr (Legacy d avail_offset _) = vaddr d avail_offset"
| "avail_vaddr (Modern d _ avail_offset) = vaddr d avail_offset"

fun device_area_paddr :: "queue_layout \<Rightarrow> u64" where
  "device_area_paddr (Legacy d _ used_offset) = dma_paddr d + used_offset"
| "device_area_paddr (Modern _ d' _) = dma_paddr d'"

fun used_vaddr :: "queue_layout \<Rightarrow> u64 option" where
  "used_vaddr (Legacy d _ used_offset) = vaddr d used_offset"
| "used_vaddr (Modern _ d' _) = vaddr d' 0"

end
