(* ===== verification/Virt_Transport.thy ===== *)
theory Virt_Transport
  imports Virt_Layout
begin

text \<open>
  The interface of virtio transports (\<open>src/virtio-drivers/src/transport/mod.rs\<close>): the trait
  \<open>Transport\<close> as a record of operations over a state \<open>'t\<close>, its provided methods \<open>begin_init\<close>,
  \<open>finish_init\<close> and \<open>read_consistent\<close>, the device status and the device types.
\<close>

section \<open>Device types\<close>

datatype device_type =
    Network | Block | Console | EntropySource | MemoryBallooning | IoMemory | Rpmsg | ScsiHost
  | P9 | Mac80211 | RprocSerial | VirtioCAIF | MemoryBalloon | GPU | Timer | Input | Socket | Crypto
  | SignalDistributionModule | Pstore | IOMMU | Memory | Sound

text \<open>The discriminants of the enum.\<close>

fun device_type_id :: "device_type \<Rightarrow> u32" where
  "device_type_id Network = 1"
| "device_type_id Block = 2"
| "device_type_id Console = 3"
| "device_type_id EntropySource = 4"
| "device_type_id MemoryBallooning = 5"
| "device_type_id IoMemory = 6"
| "device_type_id Rpmsg = 7"
| "device_type_id ScsiHost = 8"
| "device_type_id P9 = 9"
| "device_type_id Mac80211 = 10"
| "device_type_id RprocSerial = 11"
| "device_type_id VirtioCAIF = 12"
| "device_type_id MemoryBalloon = 13"
| "device_type_id GPU = 16"
| "device_type_id Timer = 17"
| "device_type_id Input = 18"
| "device_type_id Socket = 19"
| "device_type_id Crypto = 20"
| "device_type_id SignalDistributionModule = 21"
| "device_type_id Pstore = 22"
| "device_type_id IOMMU = 23"
| "device_type_id Memory = 24"
| "device_type_id Sound = 25"

text \<open>\<open>TryFrom<u32>\<close>: the left value is the \<open>InvalidDeviceType\<close> error.\<close>

definition device_type_try_from :: "u32 \<Rightarrow> u32 + device_type" where
  "device_type_try_from n =
     (if n = 1 then Inr Network
      else if n = 2 then Inr Block
      else if n = 3 then Inr Console
      else if n = 4 then Inr EntropySource
      else if n = 5 then Inr MemoryBalloon
      else if n = 6 then Inr IoMemory
      else if n = 7 then Inr Rpmsg
      else if n = 8 then Inr ScsiHost
      else if n = 9 then Inr P9
      else if n = 10 then Inr Mac80211
      else if n = 11 then Inr RprocSerial
      else if n = 12 then Inr VirtioCAIF
      else if n = 13 then Inr MemoryBalloon
      else if n = 16 then Inr GPU
      else if n = 17 then Inr Timer
      else if n = 18 then Inr Input
      else if n = 19 then Inr Socket
      else if n = 20 then Inr Crypto
      else if n = 21 then Inr SignalDistributionModule
      else if n = 22 then Inr Pstore
      else if n = 23 then Inr IOMMU
      else if n = 24 then Inr Memory
      else if n = 25 then Inr Sound
      else Inl n)"

definition device_type_try_from_u16 :: "u16 \<Rightarrow> u32 + device_type" where
  "device_type_try_from_u16 n = device_type_try_from (ucast n)"

definition device_type_try_from_u8 :: "u8 \<Rightarrow> u32 + device_type" where
  "device_type_try_from_u8 n = device_type_try_from (ucast n)"

section \<open>The trait\<close>

text \<open>The bits of \<open>DeviceStatus\<close> and \<open>InterruptStatus\<close>.\<close>

definition ACKNOWLEDGE :: u32 where "ACKNOWLEDGE = 1"
definition DRIVER :: u32 where "DRIVER = 2"
definition DRIVER_OK :: u32 where "DRIVER_OK = 4"
definition FEATURES_OK :: u32 where "FEATURES_OK = 8"
definition DEVICE_NEEDS_RESET :: u32 where "DEVICE_NEEDS_RESET = 64"
definition FAILED :: u32 where "FAILED = 128"
definition QUEUE_INTERRUPT :: u32 where "QUEUE_INTERRUPT = 1"
definition DEVICE_CONFIGURATION_INTERRUPT :: u32 where "DEVICE_CONFIGURATION_INTERRUPT = 2"

text \<open>
  Values of configuration space are their bytes: \<open>read_config_space tr offset size\<close> reads a value of
  a type of \<open>size\<close> bytes.
\<close>

record 't transport =
  device_type_of :: "'t \<Rightarrow> device_type"
  read_device_features :: "'t \<Rightarrow> u64 \<times> 't"
  write_driver_features :: "u64 \<Rightarrow> 't \<Rightarrow> 't"
  max_queue_size :: "u16 \<Rightarrow> 't \<Rightarrow> u32 \<times> 't"
  notify :: "u16 \<Rightarrow> 't \<Rightarrow> 't"
  get_status :: "'t \<Rightarrow> u32"
  set_status :: "u32 \<Rightarrow> 't \<Rightarrow> 't"
  set_guest_page_size :: "u32 \<Rightarrow> 't \<Rightarrow> 't"
  requires_legacy_layout :: "'t \<Rightarrow> bool"
  queue_set :: "u16 \<Rightarrow> u32 \<Rightarrow> u64 \<Rightarrow> u64 \<Rightarrow> u64 \<Rightarrow> 't \<Rightarrow> 't"
  queue_unset :: "u16 \<Rightarrow> 't \<Rightarrow> 't"
  queue_used :: "u16 \<Rightarrow> 't \<Rightarrow> bool \<times> 't"
  ack_interrupt :: "'t \<Rightarrow> u32 \<times> 't"
  read_config_generation :: "'t \<Rightarrow> u32 \<times> 't"
  read_config_space :: "nat \<Rightarrow> nat \<Rightarrow> 't \<Rightarrow> u8 list result \<times> 't"
  write_config_space :: "nat \<Rightarrow> u8 list \<Rightarrow> 't \<Rightarrow> unit result \<times> 't"

text \<open>\<open>known\<close> is the set of bits the feature type \<open>F\<close> has names for (\<open>from_bits_truncate\<close>).\<close>

definition begin_init :: "'t transport \<Rightarrow> u64 \<Rightarrow> u64 \<Rightarrow> 't \<Rightarrow> u64 \<times> 't" where
  "begin_init tr known supported_features t =
     (let t = set_status tr 0 t;
          t = set_status tr (ACKNOWLEDGE OR DRIVER) t;
          (device_feature_bits, t) = read_device_features tr t;
          device_features = device_feature_bits AND known;
          negotiated_features = device_features AND supported_features;
          t = write_driver_features tr negotiated_features t;
          t = set_status tr (ACKNOWLEDGE OR DRIVER OR FEATURES_OK) t;
          t = set_guest_page_size tr (ucast PAGE_SIZE) t
      in (negotiated_features, t))"

definition finish_init :: "'t transport \<Rightarrow> 't \<Rightarrow> 't" where
  "finish_init tr t = set_status tr (ACKNOWLEDGE OR DRIVER OR FEATURES_OK OR DRIVER_OK) t"

text \<open>The loop of \<open>read_consistent\<close> may not end: then the value is \<open>None\<close>.\<close>

partial_function (option) read_consistent ::
  "'t transport \<Rightarrow> ('t \<Rightarrow> 'r result \<times> 't) \<Rightarrow> 't \<Rightarrow> ('r result \<times> 't) option" where
  "read_consistent tr f t =
     (let (before, t) = read_config_generation tr t;
          (result, t) = f t;
          (after, t) = read_config_generation tr t
      in if before = after then Some (result, t) else read_consistent tr f t)"

section \<open>Properties\<close>

text \<open>
  Every device type but one survives the conversion of its number; the number of
  \<open>MemoryBallooning\<close> is converted to \<open>MemoryBalloon\<close>, and no number is converted to
  \<open>MemoryBallooning\<close>.
\<close>

theorem device_type_conversion:
  "(device_type_try_from (device_type_id d) = Inr d) = (d \<noteq> MemoryBallooning)
   \<and> device_type_try_from n \<noteq> Inr MemoryBallooning
   \<and> device_type_try_from 5 = Inr MemoryBalloon"
  by (cases d) (simp_all add: device_type_try_from_def)

text \<open>The transport that records every register write, for statements about the order of writes.\<close>

datatype register_write = Status u32 | DriverFeatures u64 | GuestPageSize u32 | Notify u16
  | QueueSet u16 u32 u64 u64 u64 | QueueUnset u16

definition recording :: "u64 \<Rightarrow> (u16 \<Rightarrow> u32) \<Rightarrow> bool \<Rightarrow> register_write list transport" where
  "recording features sizes legacy = \<lparr>device_type_of = (\<lambda>_. Block), read_device_features = (\<lambda>t. (features, t)),
     write_driver_features = (\<lambda>w t. t @ [DriverFeatures w]), max_queue_size = (\<lambda>q t. (sizes q, t)),
     notify = (\<lambda>q t. t @ [Notify q]), get_status = (\<lambda>_. 0), set_status = (\<lambda>s t. t @ [Status s]),
     set_guest_page_size = (\<lambda>s t. t @ [GuestPageSize s]), requires_legacy_layout = (\<lambda>_. legacy),
     queue_set = (\<lambda>q n a b c t. t @ [QueueSet q n a b c]), queue_unset = (\<lambda>q t. t @ [QueueUnset q]),
     queue_used = (\<lambda>_ t. (False, t)), ack_interrupt = (\<lambda>t. (0, t)),
     read_config_generation = (\<lambda>t. (0, t)),
     read_config_space = (\<lambda>_ n t. (Inr (replicate n 0), t)), write_config_space = (\<lambda>_ _ t. (Inr (), t))\<rparr>"


end
