(* ===== verification/Virt_Queue.thy ===== *)
theory Virt_Queue
  imports Virt_Transport
begin

text \<open>
  The split virtqueue of \<open>src/virtio-drivers/src/queue.rs\<close> (with the \<open>alloc\<close> feature). The
  descriptor table \<open>vq_desc\<close>, the available ring and the used ring are the memory shared with the
  device; \<open>desc_shadow\<close>, \<open>avail_idx\<close> and \<open>last_used_idx\<close> are the driver's trusted copies. \<open>SIZE\<close> is the
  length of \<open>desc_shadow\<close>. Memory barriers and pointers to the shared areas are left out.
\<close>

section \<open>Descriptors and rings\<close>

definition NEXT :: u16 where "NEXT = 1"
definition WRITE :: u16 where "WRITE = 2"
definition INDIRECT :: u16 where "INDIRECT = 4"

definition flag :: "u16 \<Rightarrow> u16 \<Rightarrow> bool" where
  "flag f w \<longleftrightarrow> w AND f = f"

record descriptor =
  addr :: u64
  len :: u32
  flags :: u16
  nxt :: u16

record avail_ring =
  avail_flags :: u16
  avail_ring_idx :: u16
  avail_ring_slots :: "u16 list"
  used_event :: u16

record used_elem =
  used_id :: u32
  used_len :: u32

record used_ring =
  used_flags :: u16
  used_idx :: u16
  used_slots :: "used_elem list"
  avail_event :: u16

definition set_buf :: "'h hal \<Rightarrow> slice \<Rightarrow> buffer_direction \<Rightarrow> u16 \<Rightarrow> bool \<Rightarrow> descriptor \<Rightarrow> 'h
    \<Rightarrow> (descriptor \<times> 'h) option" where
  "set_buf hal buf direction extra_flags ap d h = do {
     let (paddr, h) = share hal buf direction ap h;
     assert (unat (slice_len buf) < 2 ^ 32);
     dir_flags \<leftarrow> (case direction of
         DeviceToDriver \<Rightarrow> Some WRITE | DriverToDevice \<Rightarrow> Some 0 | Both \<Rightarrow> None);
     Some (d\<lparr>addr := paddr, len := ucast (slice_len buf), flags := extra_flags OR dir_flags\<rparr>, h)
   }"

definition unset_buf :: "descriptor \<Rightarrow> descriptor" where
  "unset_buf d = d\<lparr>addr := 0, len := 0\<rparr>"

definition next_desc :: "descriptor \<Rightarrow> u16 option" where
  "next_desc d = (if flag NEXT (flags d) then Some (nxt d) else None)"

definition remove_flag :: "u16 \<Rightarrow> descriptor \<Rightarrow> descriptor" where
  "remove_flag f d = d\<lparr>flags := flags d AND NOT f\<rparr>"

text \<open>\<open>InputOutputIter\<close>: the inputs, then the outputs.\<close>

definition input_output :: "slice list \<Rightarrow> slice list \<Rightarrow> (slice \<times> buffer_direction) list" where
  "input_output inputs outputs =
     map (\<lambda>b. (b, DriverToDevice)) inputs @ map (\<lambda>b. (b, DeviceToDriver)) outputs"

section \<open>The queue\<close>

record virt_queue =
  layout :: queue_layout
  vq_desc :: "descriptor list"
  vq_avail :: avail_ring
  vq_used :: used_ring
  queue_idx :: u16
  num_used :: u16
  free_head :: u16
  desc_shadow :: "descriptor list"
  avail_idx :: u16
  last_used_idx :: u16
  event_idx :: bool
  access_platform :: bool
  indirect :: bool
  indirect_lists :: "(u64 \<times> descriptor list) option list"

abbreviation "SIZE q \<equiv> length (desc_shadow q)"

definition zero_desc :: descriptor where
  "zero_desc = \<lparr>addr = 0, len = 0, flags = 0, nxt = 0\<rparr>"

text \<open>
  The shared memory is zeroed when it is granted; then the free list is written to the descriptor
  table. The shadow's last entry gets \<open>next = SIZE\<close>.
\<close>

definition initial_desc :: "nat \<Rightarrow> descriptor list" where
  "initial_desc n = map (\<lambda>i. zero_desc\<lparr>nxt := (if i < n - 1 then of_nat (i + 1) else 0)\<rparr>) [0..<n]"

definition initial_shadow :: "nat \<Rightarrow> descriptor list" where
  "initial_shadow n = map (\<lambda>i. zero_desc\<lparr>nxt := (if i < n then of_nat (i + 1) else 0)\<rparr>) [0..<n]"

definition init_queue :: "'h hal \<Rightarrow> 't transport \<Rightarrow> nat \<Rightarrow> u16 \<Rightarrow> bool \<Rightarrow> bool \<Rightarrow> bool
    \<Rightarrow> 't \<Rightarrow> 'h \<Rightarrow> (virt_queue result \<times> 't \<times> 'h) option" where
  "init_queue hal tr n idx ind ev ap t h = do {
     assert (n < 2 ^ 16 \<and> is_power_of_two (of_nat n :: u16));
     let (used, t) = queue_used tr idx t;
     if used then Some (Inl AlreadyUsed, t, h) else do {
       let (max_size, t) = max_queue_size tr idx t;
       if max_size < of_nat n then Some (Inl InvalidParam, t, h) else do {
         (r, h) \<leftarrow> (if requires_legacy_layout tr t then allocate_legacy hal (of_nat n) ap h
                    else allocate_flexible hal (of_nat n) ap h);
         (case r of
            Inl e \<Rightarrow> Some (Inl e, t, h)
          | Inr L \<Rightarrow> do {
              let t = queue_set tr idx (of_nat n) (descriptors_paddr L) (driver_area_paddr L)
                        (device_area_paddr L) t;
              _ \<leftarrow> descriptors_vaddr L;
              _ \<leftarrow> avail_vaddr L;
              _ \<leftarrow> used_vaddr L;
              Some (Inr \<lparr>layout = L, vq_desc = initial_desc n,
                vq_avail = \<lparr>avail_flags = 0, avail_ring_idx = 0, avail_ring_slots = replicate n 0,
                            used_event = 0\<rparr>,
                vq_used = \<lparr>used_flags = 0, used_idx = 0,
                           used_slots = replicate n \<lparr>used_id = 0, used_len = 0\<rparr>, avail_event = 0\<rparr>,
                queue_idx = idx, num_used = 0, free_head = 0, desc_shadow = initial_shadow n,
                avail_idx = 0, last_used_idx = 0, event_idx = ev, access_platform = ap,
                indirect = ind, indirect_lists = replicate n None\<rparr>, t, h)
            })
       }
     }
   }"

definition new_queue :: "'h hal \<Rightarrow> 't transport \<Rightarrow> nat \<Rightarrow> u16 \<Rightarrow> bool \<Rightarrow> bool \<Rightarrow> bool
    \<Rightarrow> 't \<Rightarrow> 'h \<Rightarrow> (virt_queue result \<times> 't \<times> 'h) option" where
  "new_queue = init_queue"

section \<open>Adding buffers\<close>

definition shadow_at :: "virt_queue \<Rightarrow> u16 \<Rightarrow> descriptor option" where
  "shadow_at q i = get (desc_shadow q) (unat i)"

definition set_shadow :: "u16 \<Rightarrow> descriptor \<Rightarrow> virt_queue \<Rightarrow> virt_queue" where
  "set_shadow i d q = q\<lparr>desc_shadow := (desc_shadow q)[unat i := d]\<rparr>"

definition write_desc :: "u16 \<Rightarrow> virt_queue \<Rightarrow> virt_queue option" where
  "write_desc index q = do {
     d \<leftarrow> shadow_at q index;
     ds \<leftarrow> put (vq_desc q) (unat index) d;
     Some (q\<lparr>vq_desc := ds\<rparr>)
   }"

fun add_direct_loop :: "'h hal \<Rightarrow> (slice \<times> buffer_direction) list \<Rightarrow> u16 \<Rightarrow> virt_queue \<Rightarrow> 'h
    \<Rightarrow> (u16 \<times> virt_queue \<times> 'h) option" where
  "add_direct_loop hal [] last_i q h = Some (last_i, q, h)"
| "add_direct_loop hal ((buffer, direction) # bs) _ q h = do {
     assert (slice_len buffer \<noteq> 0);
     let last_i = free_head q;
     desc \<leftarrow> shadow_at q last_i;
     (desc, h) \<leftarrow> set_buf hal buffer direction NEXT (access_platform q) desc h;
     let q = set_shadow last_i desc q;
     let q = q\<lparr>free_head := nxt desc\<rparr>;
     q \<leftarrow> write_desc last_i q;
     add_direct_loop hal bs last_i q h
   }"

definition add_direct :: "'h hal \<Rightarrow> slice list \<Rightarrow> slice list \<Rightarrow> virt_queue \<Rightarrow> 'h
    \<Rightarrow> (u16 \<times> virt_queue \<times> 'h) option" where
  "add_direct hal inputs outputs q h = do {
     let head = free_head q;
     (last_i, q, h) \<leftarrow> add_direct_loop hal (input_output inputs outputs) head q h;
     desc \<leftarrow> shadow_at q last_i;
     let q = set_shadow last_i (remove_flag NEXT desc) q;
     q \<leftarrow> write_desc last_i q;
     let q = q\<lparr>num_used := num_used q + of_nat (length inputs + length outputs)\<rparr>;
     Some (head, q, h)
   }"

text \<open>The loop over the zeroed indirect list: entry \<open>i\<close> gets the \<open>i\<close>-th buffer and \<open>next = i + 1\<close>.\<close>

fun fill_indirect :: "'h hal \<Rightarrow> bool \<Rightarrow> nat \<Rightarrow> (slice \<times> buffer_direction) list \<Rightarrow> 'h
    \<Rightarrow> (descriptor list \<times> 'h) option" where
  "fill_indirect hal ap i [] h = Some ([], h)"
| "fill_indirect hal ap i ((buffer, direction) # bs) h = do {
     (desc, h) \<leftarrow> set_buf hal buffer direction NEXT ap zero_desc h;
     (ds, h) \<leftarrow> fill_indirect hal ap (i + 1) bs h;
     Some (desc\<lparr>nxt := of_nat (i + 1)\<rparr> # ds, h)
   }"

definition clear_last_next :: "descriptor list \<Rightarrow> descriptor list option" where
  "clear_last_next ds = (if ds = [] then None else Some (butlast ds @ [remove_flag NEXT (last ds)]))"

definition add_indirect :: "'h hal \<Rightarrow> slice list \<Rightarrow> slice list \<Rightarrow> virt_queue \<Rightarrow> 'h
    \<Rightarrow> (u16 \<times> virt_queue \<times> 'h) option" where
  "add_indirect hal inputs outputs q h = do {
     let head = free_head q;
     let bytes = of_nat (16 * (length inputs + length outputs));
     let (box, h) = new_box hal bytes h;
     ptr \<leftarrow> box;
     (ds, h) \<leftarrow> fill_indirect hal (access_platform q) 0 (input_output inputs outputs) h;
     ds \<leftarrow> clear_last_next ds;
     l \<leftarrow> get (indirect_lists q) (unat head);
     assert (l = None);
     let q = q\<lparr>indirect_lists := (indirect_lists q)[unat head := Some (ptr, ds)]\<rparr>;
     direct_desc \<leftarrow> shadow_at q head;
     let q = q\<lparr>free_head := nxt direct_desc\<rparr>;
     (direct_desc, h) \<leftarrow> set_buf hal \<lparr>slice_ptr = ptr, slice_len = bytes\<rparr> DriverToDevice INDIRECT
                          (access_platform q) direct_desc h;
     let q = set_shadow head direct_desc q;
     q \<leftarrow> write_desc head q;
     let q = q\<lparr>num_used := num_used q + 1\<rparr>;
     Some (head, q, h)
   }"

text \<open>Put the head into the available ring, then publish the new index.\<close>

definition publish :: "u16 \<Rightarrow> virt_queue \<Rightarrow> virt_queue option" where
  "publish head q = do {
     let avail_slot = avail_idx q AND (of_nat (SIZE q) - 1);
     slots \<leftarrow> put (avail_ring_slots (vq_avail q)) (unat avail_slot) head;
     let q = q\<lparr>vq_avail := (vq_avail q)\<lparr>avail_ring_slots := slots\<rparr>\<rparr>;
     let q = q\<lparr>avail_idx := avail_idx q + 1\<rparr>;
     Some (q\<lparr>vq_avail := (vq_avail q)\<lparr>avail_ring_idx := avail_idx q\<rparr>\<rparr>)
   }"

definition add :: "'h hal \<Rightarrow> slice list \<Rightarrow> slice list \<Rightarrow> virt_queue \<Rightarrow> 'h
    \<Rightarrow> (u16 result \<times> virt_queue \<times> 'h) option" where
  "add hal inputs outputs q h =
     (if inputs = [] \<and> outputs = [] then Some (Inl InvalidParam, q, h)
      else let descriptors_needed = length inputs + length outputs in
      if unat (num_used q) + 1 > SIZE q \<or> descriptors_needed > SIZE q
         \<or> (\<not> indirect q \<and> unat (num_used q) + descriptors_needed > SIZE q)
      then Some (Inl QueueFull, q, h)
      else do {
        (head, q, h) \<leftarrow> (if indirect q \<and> descriptors_needed > 1 then add_indirect hal inputs outputs q h
                         else add_direct hal inputs outputs q h);
        q \<leftarrow> publish head q;
        Some (Inr head, q, h)
      })"

section \<open>Notifications and queries\<close>

definition set_dev_notify :: "bool \<Rightarrow> virt_queue \<Rightarrow> virt_queue" where
  "set_dev_notify enable q =
     (let avail_ring_flags = if enable then 0 else 1 in
      if \<not> event_idx q then q\<lparr>vq_avail := (vq_avail q)\<lparr>avail_flags := avail_ring_flags\<rparr>\<rparr> else q)"

definition should_notify :: "virt_queue \<Rightarrow> bool" where
  "should_notify q =
     (if event_idx q then avail_idx q \<ge> avail_event (vq_used q) + 1
      else used_flags (vq_used q) AND 1 = 0)"

definition can_pop :: "virt_queue \<Rightarrow> bool" where
  "can_pop q \<longleftrightarrow> last_used_idx q \<noteq> used_idx (vq_used q)"

definition used_slot :: "virt_queue \<Rightarrow> used_elem option" where
  "used_slot q = get (used_slots (vq_used q)) (unat (last_used_idx q AND (of_nat (SIZE q) - 1)))"

definition peek_used :: "virt_queue \<Rightarrow> u16 option option" where
  "peek_used q = (if can_pop q then do { e \<leftarrow> used_slot q; Some (Some (ucast (used_id e))) }
                  else Some None)"

definition available_desc :: "virt_queue \<Rightarrow> nat" where
  "available_desc q =
     (if indirect q then (if unat (num_used q) = SIZE q then 0 else SIZE q)
      else SIZE q - unat (num_used q))"

section \<open>Popping used buffers\<close>

fun unshare_list :: "'h hal \<Rightarrow> bool \<Rightarrow> descriptor list \<Rightarrow> (slice \<times> buffer_direction) list \<Rightarrow> 'h
    \<Rightarrow> 'h option" where
  "unshare_list hal ap ds [] h = Some h"
| "unshare_list hal ap [] (b # bs) h = None"
| "unshare_list hal ap (d # ds) ((buffer, direction) # bs) h = do {
     assert (slice_len buffer \<noteq> 0);
     unshare_list hal ap ds bs (unshare hal (addr d) buffer direction ap h)
   }"

definition recycle_indirect :: "'h hal \<Rightarrow> u16 \<Rightarrow> u16 \<Rightarrow> slice list \<Rightarrow> slice list \<Rightarrow> virt_queue \<Rightarrow> 'h
    \<Rightarrow> (virt_queue \<times> 'h) option" where
  "recycle_indirect hal original_free_head head inputs outputs q h = do {
     head_desc \<leftarrow> shadow_at q head;
     l \<leftarrow> get (indirect_lists q) (unat head);
     let q = q\<lparr>indirect_lists := (indirect_lists q)[unat head := None]\<rparr>;
     (ptr, indirect_list) \<leftarrow> l;
     let paddr = addr head_desc;
     let head_desc = unset_buf head_desc;
     let q = q\<lparr>num_used := num_used q - 1\<rparr>;
     let q = set_shadow head (head_desc\<lparr>nxt := original_free_head\<rparr>) q;
     let h = unshare hal paddr
               \<lparr>slice_ptr = ptr, slice_len = of_nat (16 * length indirect_list)\<rparr>
               DriverToDevice (access_platform q) h;
     assert (length indirect_list = length inputs + length outputs);
     h \<leftarrow> unshare_list hal (access_platform q) indirect_list (input_output inputs outputs) h;
     Some (q, drop_box hal ptr h)
   }"

fun recycle_loop :: "'h hal \<Rightarrow> u16 \<Rightarrow> (slice \<times> buffer_direction) list \<Rightarrow> u16 option \<Rightarrow> virt_queue \<Rightarrow> 'h
    \<Rightarrow> (u16 option \<times> virt_queue \<times> 'h) option" where
  "recycle_loop hal original_free_head [] next q h = Some (next, q, h)"
| "recycle_loop hal original_free_head ((buffer, direction) # bs) next q h = do {
     assert (slice_len buffer \<noteq> 0);
     desc_index \<leftarrow> next;
     desc \<leftarrow> shadow_at q desc_index;
     let paddr = addr desc;
     let desc = unset_buf desc;
     let q = q\<lparr>num_used := num_used q - 1\<rparr>;
     let next = next_desc desc;
     let desc = (if next = None then desc\<lparr>nxt := original_free_head\<rparr> else desc);
     let q = set_shadow desc_index desc q;
     q \<leftarrow> write_desc desc_index q;
     recycle_loop hal original_free_head bs next q
       (unshare hal paddr buffer direction (access_platform q) h)
   }"

definition recycle_descriptors :: "'h hal \<Rightarrow> u16 \<Rightarrow> slice list \<Rightarrow> slice list \<Rightarrow> virt_queue \<Rightarrow> 'h
    \<Rightarrow> (virt_queue \<times> 'h) option" where
  "recycle_descriptors hal head inputs outputs q h = do {
     let original_free_head = free_head q;
     let q = q\<lparr>free_head := head\<rparr>;
     head_desc \<leftarrow> shadow_at q head;
     if flag INDIRECT (flags head_desc)
     then recycle_indirect hal original_free_head head inputs outputs q h
     else do {
       (next, q, h) \<leftarrow> recycle_loop hal original_free_head (input_output inputs outputs) (Some head) q h;
       assert (next = None);
       Some (q, h)
     }
   }"

definition pop_used :: "'h hal \<Rightarrow> u16 \<Rightarrow> slice list \<Rightarrow> slice list \<Rightarrow> virt_queue \<Rightarrow> 'h
    \<Rightarrow> (u32 result \<times> virt_queue \<times> 'h) option" where
  "pop_used hal token inputs outputs q h =
     (if \<not> can_pop q then Some (Inl NotReady, q, h)
      else do {
        e \<leftarrow> used_slot q;
        if ucast (used_id e) \<noteq> token then Some (Inl WrongToken, q, h)
        else do {
          (q, h) \<leftarrow> recycle_descriptors hal token inputs outputs q h;
          let q = q\<lparr>last_used_idx := last_used_idx q + 1\<rparr>;
          let q = (if event_idx q
                   then q\<lparr>vq_avail := (vq_avail q)\<lparr>used_event := last_used_idx q\<rparr>\<rparr> else q);
          Some (Inr (used_len e), q, h)
        }
      })"

text \<open>
  The busy wait of \<open>add_notify_wait_pop\<close>: \<open>device\<close> is what the device does to the queue between two
  looks at the used ring. Not returning is the value \<open>None\<close>.
\<close>

partial_function (option) wait_can_pop :: "(virt_queue \<Rightarrow> virt_queue) \<Rightarrow> virt_queue \<Rightarrow> virt_queue option" where
  "wait_can_pop device q = (if can_pop q then Some q else wait_can_pop device (device q))"

definition add_notify_wait_pop :: "'h hal \<Rightarrow> 't transport \<Rightarrow> (virt_queue \<Rightarrow> virt_queue)
    \<Rightarrow> slice list \<Rightarrow> slice list \<Rightarrow> virt_queue \<Rightarrow> 't \<Rightarrow> 'h
    \<Rightarrow> (u32 result \<times> virt_queue \<times> 't \<times> 'h) option" where
  "add_notify_wait_pop hal tr device inputs outputs q t h = do {
     (r, q, h) \<leftarrow> add hal inputs outputs q h;
     (case r of
        Inl e \<Rightarrow> Some (Inl e, q, t, h)
      | Inr token \<Rightarrow> do {
          let t = (if should_notify q then notify tr (queue_idx q) t else t);
          q \<leftarrow> wait_can_pop device q;
          (r, q, h) \<leftarrow> pop_used hal token inputs outputs q h;
          Some (r, q, t, h)
        })
   }"

end
