(* ===== verification/Virt_Layout_Proofs.thy ===== *)
theory Virt_Layout_Proofs
  imports Virt_Layout
begin

text \<open>
  The parts of a virtqueue lie inside its DMA regions, apart from each other and aligned as the
  virtio specification requires.
\<close>

section \<open>Page arithmetic\<close>

lemma and_not_mask_push: "w AND NOT (mask n) = push_bit n (drop_bit n (w :: 'a::len word))"
  by (rule bit_eqI) (auto simp: bit_simps)

lemma unat_push_drop: "unat (push_bit n (drop_bit n (w :: 'a::len word))) = unat w div 2 ^ n * 2 ^ n"
proof -
  have "unat w div 2 ^ n * 2 ^ n \<le> unat w" by simp
  also have "unat w < 2 ^ LENGTH('a)" by (rule unsigned_less)
  finally have lt: "unat w div 2 ^ n * 2 ^ n < 2 ^ LENGTH('a)" .
  have "unat (push_bit n (drop_bit n w)) = take_bit LENGTH('a) (push_bit n (unat (drop_bit n w)))"
    by (rule unsigned_push_bit_eq)
  then show ?thesis
    using lt by (simp add: unat_drop_bit_div push_bit_eq_mult take_bit_eq_mod)
qed

lemma page_mask: "NOT (PAGE_SIZE - 1) = NOT (mask 12 :: u64)"
  by (simp add: PAGE_SIZE_def mask_eq_exp_minus_1)

lemma unat_align_up:
  assumes "unat sz + 4096 < 2 ^ 64"
  shows "unat (align_up sz) = (unat sz div 4096 + 1) * 4096"
proof -
  have "unat (sz + PAGE_SIZE) = unat sz + 4096"
    using assms by (simp add: PAGE_SIZE_def unat_word_ariths)
  moreover have "(unat sz + 4096) div 4096 = unat sz div 4096 + 1" by (rule div_add_self2) simp
  ultimately show ?thesis
    by (simp add: align_up_def page_mask and_not_mask_push unat_push_drop)
qed

lemma unat_pages: "unat (pages sz) = (unat sz + 4095) div 4096"
proof -
  have P: "unat PAGE_SIZE = 4096" by (simp add: PAGE_SIZE_def)
  have d: "unat (sz div PAGE_SIZE) = unat sz div 4096" "unat (sz mod PAGE_SIZE) = unat sz mod 4096"
    by (simp_all add: unat_div unat_mod P)
  have "unat sz div 4096 + 1 < 2 ^ 64" using unat_u64_lt [of sz] by simp
  then have s: "unat (sz div PAGE_SIZE + 1) = unat sz div 4096 + 1"
    using d by (simp add: unat_word_ariths)
  have c: "(unat sz + 4095) div 4096 = unat sz div 4096 + (unat sz mod 4096 + 4095) div 4096"
    using div_add1_eq [of "unat sz" 4095 4096] by simp
  show ?thesis
  proof (cases "sz mod PAGE_SIZE = 0")
    case True
    then have "unat sz mod 4096 = 0" using d(2) by simp
    with True d(1) c show ?thesis by (simp add: pages_def)
  next
    case False
    then have "unat sz mod 4096 \<noteq> 0" using d(2) by (metis unat_eq_zero)
    then have "(unat sz mod 4096 + 4095) div 4096 = 1" by (intro div_nat_eqI) simp_all
    with False s c show ?thesis by (simp add: pages_def)
  qed
qed

lemma queue_part_sizes_Some:
  assumes "is_power_of_two n"
  obtains desc avail used where "queue_part_sizes n = Some (desc, avail, used)"
    and "unat desc = 16 * unat n" and "unat avail = 6 + 2 * unat n" and "unat used = 6 + 8 * unat n"
    and "unat n < 2 ^ 16"
proof -
  have n: "unat n < 65536" using unat_u16_lt [of n] by simp
  have u: "unat (ucast n :: u64) = unat n" by (simp add: unat_ucast_up)
  have "unat (16 * (ucast n :: u64)) = 16 * unat n" using n u by (simp add: unat_word_ariths)
  moreover have "unat (2 * (3 + (ucast n :: u64))) = 6 + 2 * unat n"
    using n u by (simp add: unat_word_ariths)
  moreover have "unat (2 * 3 + 8 * (ucast n :: u64)) = 6 + 8 * unat n"
    using n u by (simp add: unat_word_ariths)
  ultimately show thesis
    using assms n that unfolding queue_part_sizes_def by (simp add: Let_def)
qed

section \<open>The areas of a queue\<close>

text \<open>
  The areas of a queue of \<open>n\<close> descriptors, as (region, offset, length, alignment): descriptor table,
  available ring and used ring. Region 0 is the first DMA region, region 1 the second one.
\<close>

fun areas :: "queue_layout \<Rightarrow> nat \<Rightarrow> (nat \<times> nat \<times> nat \<times> nat) list" where
  "areas (Legacy d ao uo) n = [(0, 0, 16 * n, 16), (0, unat ao, 6 + 2 * n, 2), (0, unat uo, 6 + 8 * n, 4096)]"
| "areas (Modern d d' ao) n = [(0, 0, 16 * n, 16), (0, unat ao, 6 + 2 * n, 2), (1, 0, 6 + 8 * n, 4)]"

fun region_bytes :: "queue_layout \<Rightarrow> nat \<Rightarrow> nat" where
  "region_bytes (Legacy d ao uo) r = unat (dma_pages d) * 4096"
| "region_bytes (Modern d d' ao) r = unat (dma_pages (if r = 0 then d else d')) * 4096"

definition area_ok :: "queue_layout \<Rightarrow> nat \<times> nat \<times> nat \<times> nat \<Rightarrow> bool" where
  "area_ok L = (\<lambda>(r, p, l, al). p + l \<le> region_bytes L r \<and> p mod al = 0)"

definition areas_apart :: "nat \<times> nat \<times> nat \<times> nat \<Rightarrow> nat \<times> nat \<times> nat \<times> nat \<Rightarrow> bool" where
  "areas_apart = (\<lambda>(r, p, l, _) (r', p', l', _). r \<noteq> r' \<or> p + l \<le> p' \<or> p' + l' \<le> p)"

definition layout_ok :: "queue_layout \<Rightarrow> nat \<Rightarrow> bool" where
  "layout_ok L n \<longleftrightarrow> list_all (area_ok L) (areas L n) \<and> sorted_wrt areas_apart (areas L n)"

lemma ceil_pages: "(n :: nat) \<le> (n + 4095) div 4096 * 4096"
proof -
  have "(n + 4095) div 4096 * 4096 + (n + 4095) mod 4096 = n + 4095" by (rule div_mult_mod_eq)
  moreover have "(n + 4095) mod 4096 < 4096" by simp
  ultimately show ?thesis by linarith
qed

lemma next_page: "(n :: nat) \<le> (n div 4096 + 1) * 4096"
proof -
  have "n div 4096 * 4096 + n mod 4096 = n" by (rule div_mult_mod_eq)
  moreover have "n mod 4096 < 4096" by simp
  ultimately show ?thesis unfolding add_mult_distrib by linarith
qed

text \<open>What the driver relies on: a DMA region that is granted has a valid, non-null address range.\<close>

definition dma_range_ok :: "u64 \<Rightarrow> u64 \<Rightarrow> bool" where
  "dma_range_ok v n \<longleftrightarrow> v \<noteq> 0 \<and> unat v + unat n * 4096 \<le> 2 ^ 64"

definition hal_dma_law :: "'h hal \<Rightarrow> bool" where
  "hal_dma_law hal \<longleftrightarrow> (\<forall>n dir ap h p v h'. dma_alloc hal n dir ap h = ((p, v), h') \<longrightarrow> p \<noteq> 0
     \<longrightarrow> dma_range_ok v n)"

lemma vaddr_ok:
  assumes "dma_range_ok (dma_vaddr d) (dma_pages d)" and "unat p < unat (dma_pages d) * 4096"
  shows "\<exists>v. vaddr d p = Some v"
proof -
  have r: "unat (dma_vaddr d) + unat (dma_pages d) * 4096 \<le> 2 ^ 64" "dma_vaddr d \<noteq> 0"
    using assms(1) by (simp_all add: dma_range_ok_def)
  then have "0 < unat (dma_vaddr d)" by (simp add: unat_gt_0)
  with r(1) have "unat (dma_pages d) * 4096 < 2 ^ 64" by linarith
  then have "unat (dma_pages d * PAGE_SIZE) = unat (dma_pages d) * 4096"
    by (subst unat_mult_lt) (simp_all add: PAGE_SIZE_def)
  then have lt: "p < dma_pages d * PAGE_SIZE" using assms(2) by (simp add: word_less_nat_alt)
  have "unat (dma_vaddr d + p) = unat (dma_vaddr d) + unat p"
    using r(1) assms(2) by (intro unat_add_lt) simp
  then have "dma_vaddr d + p \<noteq> 0" using \<open>0 < unat (dma_vaddr d)\<close> by (metis add_gr_0 unat_gt_0)
  with lt show ?thesis by (simp add: vaddr_def)
qed

lemma dma_new_Inr:
  assumes "dma_new hal n dir ap h = (Inr d, h')"
  shows "dma_pages d = n" and "dma_paddr d \<noteq> 0" and "hal_dma_law hal \<Longrightarrow> dma_range_ok (dma_vaddr d) n"
  using assms by (auto simp: dma_new_def split: prod.splits if_splits)
    (metis hal_dma_law_def)

definition vaddrs_ok :: "queue_layout \<Rightarrow> bool" where
  "vaddrs_ok L \<longleftrightarrow> descriptors_vaddr L \<noteq> None \<and> avail_vaddr L \<noteq> None \<and> used_vaddr L \<noteq> None"

lemma vaddrs_Legacy:
  assumes "layout_ok (Legacy d ao uo) n" and "dma_range_ok (dma_vaddr d) (dma_pages d)" and "0 < n"
  shows "vaddrs_ok (Legacy d ao uo)"
  using assms vaddr_ok [of d 0] vaddr_ok [of d ao] vaddr_ok [of d uo]
  by (auto simp: layout_ok_def area_ok_def vaddrs_ok_def)

lemma vaddrs_Modern:
  assumes "layout_ok (Modern d d' ao) n" and "dma_range_ok (dma_vaddr d) (dma_pages d)"
    and "dma_range_ok (dma_vaddr d') (dma_pages d')" and "0 < n"
  shows "vaddrs_ok (Modern d d' ao)"
  using assms vaddr_ok [of d 0] vaddr_ok [of d ao] vaddr_ok [of d' 0]
  by (auto simp: layout_ok_def area_ok_def vaddrs_ok_def)

lemma power_of_two_pos: "is_power_of_two (n :: u16) \<Longrightarrow> 0 < unat n"
  by (simp add: is_power_of_two_def unat_gt_0)

lemma legacy_ok:
  assumes n: "is_power_of_two n" and law: "hal_dma_law hal"
  shows "\<exists>r h'. allocate_legacy hal n ap h = Some (r, h')
           \<and> (\<forall>L. r = Inr L \<longrightarrow> layout_ok L (unat n) \<and> vaddrs_ok L)"
proof -
  obtain desc avail used where q: "queue_part_sizes n = Some (desc, avail, used)"
    and d: "unat desc = 16 * unat n" "unat avail = 6 + 2 * unat n" "unat used = 6 + 8 * unat n"
    and n16: "unat n < 2 ^ 16"
    by (rule queue_part_sizes_Some [OF n])
  let ?A = "(6 + 18 * unat n) div 4096 + 1" and ?B = "(6 + 8 * unat n) div 4096 + 1"
  let ?sz = "(align_up (desc + avail) + align_up used) div PAGE_SIZE"
  have "unat (desc + avail) = 6 + 18 * unat n" using d n16 by (simp add: unat_word_ariths)
  then have a1: "unat (align_up (desc + avail)) = ?A * 4096"
    using n16 by (subst unat_align_up) simp_all
  have a2: "unat (align_up used) = ?B * 4096" using d n16 by (subst unat_align_up) simp_all
  have "?A \<le> 2000" "?B \<le> 2000" using n16 by (auto simp: div_le_mono less_mult_imp_div_less Suc_le_eq)
  then have "unat (align_up (desc + avail) + align_up used) = (?A + ?B) * 4096"
    using a1 a2 by (subst unat_add_lt) (simp_all add: add_mult_distrib)
  then have sz: "unat ?sz = ?A + ?B" by (simp add: unat_div PAGE_SIZE_def)
  obtain r h' where new: "dma_new hal ?sz Both ap h = (r, h')" by (rule prod.exhaust)
  have "layout_ok (Legacy dm desc (align_up (desc + avail))) (unat n)
      \<and> vaddrs_ok (Legacy dm desc (align_up (desc + avail)))" if "r = Inr dm" for dm
  proof -
    note D = dma_new_Inr [OF new [unfolded that]]
    have "layout_ok (Legacy dm desc (align_up (desc + avail))) (unat n)"
      using D(1) sz d a1 next_page [of "6 + 18 * unat n"] next_page [of "6 + 8 * unat n"]
      by (simp add: layout_ok_def area_ok_def areas_apart_def add_mult_distrib)
    then show ?thesis using vaddrs_Legacy D(1,3) law power_of_two_pos [OF n] by metis
  qed
  with new q show ?thesis by (cases r) (auto simp: allocate_legacy_def Let_def)
qed

lemma flexible_ok:
  assumes n: "is_power_of_two n" and law: "hal_dma_law hal"
    and run: "allocate_flexible hal n ap h = Some (Inr L, h')"
  shows "layout_ok L (unat n) \<and> vaddrs_ok L"
proof -
  obtain desc avail used where q: "queue_part_sizes n = Some (desc, avail, used)"
    and d: "unat desc = 16 * unat n" "unat avail = 6 + 2 * unat n" "unat used = 6 + 8 * unat n"
    and n16: "unat n < 2 ^ 16"
    by (rule queue_part_sizes_Some [OF n])
  have da: "unat (desc + avail) = 6 + 18 * unat n" using d n16 by (simp add: unat_word_ariths)
  obtain d1 h1 d2 where new: "dma_new hal (pages (desc + avail)) DriverToDevice ap h = (Inr d1, h1)"
    "dma_new hal (pages used) DeviceToDriver ap h1 = (Inr d2, h')" and L: "L = Modern d1 d2 desc"
    using run q by (auto simp: allocate_flexible_def bind_eq_Some_conv split: prod.splits sum.splits)
  note D1 = dma_new_Inr [OF new(1)] and D2 = dma_new_Inr [OF new(2)]
  have "layout_ok L (unat n)"
    using D1(1) D2(1) L d da unat_pages ceil_pages [of "6 + 18 * unat n"] ceil_pages [of "6 + 8 * unat n"]
    by (simp add: layout_ok_def area_ok_def areas_apart_def)
  then show ?thesis using vaddrs_Modern D1(1,3) D2(1,3) L law power_of_two_pos [OF n] by metis
qed

section \<open>Properties\<close>

text \<open>
  C9. Every virtqueue memory layout the driver allocates, legacy or flexible, is sound for every
  queue size: descriptor table, available ring and used ring lie inside their DMA regions, do not
  overlap, have the alignments 16, 2 and 4 (the legacy used ring starts on a page), and the address
  computations do not panic.
\<close>

theorem queue_layout_sound:
  assumes "is_power_of_two n" and "hal_dma_law hal"
    and "allocate_legacy hal n ap h = Some (Inr L, h') \<or> allocate_flexible hal n ap h = Some (Inr L, h')"
  shows "layout_ok L (unat n) \<and> descriptors_vaddr L \<noteq> None \<and> avail_vaddr L \<noteq> None \<and> used_vaddr L \<noteq> None"
  using legacy_ok [OF assms(1,2), of ap h] flexible_ok [OF assms(1,2), of ap h L h'] assms(3)
  by (auto simp: vaddrs_ok_def)

text \<open>A bump allocator of DMA pages, for the witness.\<close>

definition bump_hal :: "u64 hal" where
  "bump_hal = \<lparr>dma_alloc = (\<lambda>n _ _ h. if 0x1000 \<le> unat h \<and> unat h + unat n * 4096 \<le> 2 ^ 63
       then ((h, h), h + n * 4096) else ((0, 1), h)),
     dma_dealloc = (\<lambda>_ _ _ _ h. (0, h)), share = (\<lambda>s _ _ h. (slice_ptr s, h)),
     unshare = (\<lambda>_ _ _ _ h. h), new_box = (\<lambda>n h. (Some (if h = 0 then 8 else h), h + n)), drop_box = (\<lambda>_ h. h),
     mem_load = (\<lambda>s _. replicate (unat (slice_len s)) 0), mem_store = (\<lambda>_ _ h. h),
     stack_slot = (\<lambda>_ _. 0x100)\<rparr>"

lemma bump_hal_law: "hal_dma_law bump_hal"
  by (auto simp: hal_dma_law_def bump_hal_def dma_range_ok_def split: if_splits)

theorem queue_layout_sound_witness:
  "\<exists>L h'. allocate_flexible bump_hal 256 False 0x10000 = Some (Inr L, h') \<and> layout_ok L 256
     \<and> descriptors_vaddr L \<noteq> None \<and> avail_vaddr L \<noteq> None \<and> used_vaddr L \<noteq> None"
proof -
  have p: "is_power_of_two (256 :: u16)" by (simp add: is_power_of_two_def)
  obtain L h' where run: "allocate_flexible bump_hal 256 False 0x10000 = Some (Inr L, h')"
    using p by (simp add: allocate_flexible_def queue_part_sizes_def dma_new_def bump_hal_def
        pages_def PAGE_SIZE_def Let_def)
  with queue_layout_sound [OF p bump_hal_law disjI2 [OF run]] show ?thesis by auto
qed

text \<open>
  \<open>align_up\<close> gives the next page boundary strictly above its argument: it is the rounding up for
  sizes that are not a multiple of the page size, and one page more than that for multiples.
\<close>

theorem align_up_spec:
  assumes "unat sz + 4096 < 2 ^ 64"
  shows "unat (align_up sz) = (unat sz div 4096 + 1) * 4096
    \<and> unat (align_up sz) = (if unat sz mod 4096 = 0 then unat sz + 4096 else unat (pages sz) * 4096)"
proof -
  have "(unat sz div 4096 + 1) * 4096 = unat sz + 4096" if "unat sz mod 4096 = 0"
    using that div_mult_mod_eq [of "unat sz" 4096] by (simp add: add_mult_distrib)
  moreover have "unat (pages sz) = unat sz div 4096 + 1" if "unat sz mod 4096 \<noteq> 0"
  proof -
    have "(unat sz mod 4096 + 4095) div 4096 = 1" using that by (intro div_nat_eqI) simp_all
    then show ?thesis using unat_pages [of sz] div_add1_eq [of "unat sz" 4095 4096] by simp
  qed
  ultimately show ?thesis using unat_align_up [OF assms] by auto
qed

theorem align_up_spec_witness:
  "unat (align_up 4096) = 8192 \<and> unat (align_up 4097) = 8192"
  using align_up_spec [of 4096] align_up_spec [of 4097] by simp

end
