(* ===== verification/Virt_Queue_Proofs.thy ===== *)
theory Virt_Queue_Proofs
  imports Virt_Queue Virt_Layout_Proofs
begin

text \<open>
  The invariant of the virtqueue and its preservation. The ghost state is the free list \<open>fl\<close> in the
  order of its links and the flights \<open>fs\<close>: the buffer chains the device has, each with the
  descriptors it occupies and the buffers and device addresses they hold.
\<close>

section \<open>Chains of descriptors\<close>

abbreviation dsc :: "descriptor list \<Rightarrow> u16 \<Rightarrow> descriptor" where "dsc S i \<equiv> S ! unat i"

type_synonym shared_buf = "slice \<times> buffer_direction \<times> u64"

fun dir_flag :: "buffer_direction \<Rightarrow> u16" where
  "dir_flag DeviceToDriver = WRITE"
| "dir_flag _ = 0"

text \<open>A buffer that may be added: not empty, with a 32-bit length, not in direction \<open>Both\<close>.\<close>

definition buf_ok :: "slice \<times> buffer_direction \<Rightarrow> bool" where
  "buf_ok b \<longleftrightarrow> slice_len (fst b) \<noteq> 0 \<and> unat (slice_len (fst b)) < 2 ^ 32 \<and> snd b \<noteq> Both"

definition desc_ok :: "descriptor \<Rightarrow> shared_buf \<Rightarrow> bool \<Rightarrow> bool" where
  "desc_ok d b m \<longleftrightarrow> addr d = snd (snd b) \<and> len d = ucast (slice_len (fst b))
     \<and> flags d = (if m then NEXT else 0) OR dir_flag (fst (snd b))"

text \<open>The free list: from \<open>h\<close> along \<open>nxt\<close> through \<open>xs\<close> to \<open>e\<close>.\<close>

fun path :: "descriptor list \<Rightarrow> u16 \<Rightarrow> u16 list \<Rightarrow> u16 \<Rightarrow> bool" where
  "path S h [] e \<longleftrightarrow> h = e"
| "path S h (x # xs) e \<longleftrightarrow> h = x \<and> path S (nxt (dsc S x)) xs e"

text \<open>A chain the device has: buffers in order, \<open>NEXT\<close> on all but the last.\<close>

fun flight_chain :: "descriptor list \<Rightarrow> u16 list \<Rightarrow> shared_buf list \<Rightarrow> bool" where
  "flight_chain S [] [] \<longleftrightarrow> True"
| "flight_chain S (i # xs) (b # bs) \<longleftrightarrow> desc_ok (dsc S i) b (xs \<noteq> [])
     \<and> (xs \<noteq> [] \<longrightarrow> nxt (dsc S i) = hd xs) \<and> flight_chain S xs bs"
| "flight_chain S _ _ \<longleftrightarrow> False"

lemma path_append [simp]:
  "path S h (xs @ ys) e \<longleftrightarrow> path S h xs (if ys = [] then e else hd ys) \<and> path S (if ys = [] then e else hd ys) ys e"
  by (induction xs arbitrary: h) (cases ys; auto)+

lemma path_cong: "(\<And>i. i \<in> set xs \<Longrightarrow> nxt (dsc S' i) = nxt (dsc S i)) \<Longrightarrow> path S' h xs e = path S h xs e"
  by (induction xs arbitrary: h) auto

lemma flight_chain_cong:
  "(\<And>i. i \<in> set xs \<Longrightarrow> dsc S' i = dsc S i) \<Longrightarrow> flight_chain S' xs bs = flight_chain S xs bs"
  by (induction xs arbitrary: bs) (case_tac bs; auto)+

lemma flight_chain_length: "flight_chain S xs bs \<Longrightarrow> length xs = length bs"
  by (induction S xs bs rule: flight_chain.induct) auto

lemma dsc_update:
  assumes "unat j < length S"
  shows "dsc (S[unat i := d]) j = (if i = j then d else dsc S j)"
  using assms by (auto simp: word_unat_eq_iff)

section \<open>The invariant\<close>

datatype flight =
    Direct "u16 list" "shared_buf list"
  | Indirect u16 u64 "shared_buf list" u64

text \<open>\<open>Indirect i ptr bs p\<close>: descriptor \<open>i\<close> refers to the boxed list at \<open>ptr\<close>, shared at \<open>p\<close>.\<close>

fun ids :: "flight \<Rightarrow> u16 list" where
  "ids (Direct xs bs) = xs"
| "ids (Indirect i ptr bs p) = [i]"

fun token_of :: "flight \<Rightarrow> u16" where
  "token_of (Direct xs bs) = hd xs"
| "token_of (Indirect i ptr bs p) = i"

fun bufs_of :: "flight \<Rightarrow> (slice \<times> buffer_direction) list" where
  "bufs_of (Direct xs bs) = map (\<lambda>(s, d, p). (s, d)) bs"
| "bufs_of (Indirect i ptr bs p) = map (\<lambda>(s, d, p). (s, d)) bs"

definition list_bytes :: "'a list \<Rightarrow> u64" where
  "list_bytes bs = of_nat (16 * length bs)"

fun flight_ok :: "descriptor list \<Rightarrow> (u64 \<times> descriptor list) option list \<Rightarrow> flight \<Rightarrow> bool" where
  "flight_ok S Ls (Direct xs bs) \<longleftrightarrow> xs \<noteq> [] \<and> flight_chain S xs bs
     \<and> (\<forall>i \<in> set xs. Ls ! unat i = None)"
| "flight_ok S Ls (Indirect i ptr bs p) \<longleftrightarrow> addr (dsc S i) = p \<and> flags (dsc S i) = INDIRECT
     \<and> len (dsc S i) = ucast (list_bytes bs)
     \<and> (\<exists>ds. Ls ! unat i = Some (ptr, ds) \<and> map addr ds = map (snd \<circ> snd) bs
          \<and> flight_chain ds (map of_nat [0..<length bs]) bs)"

definition occupied :: "flight list \<Rightarrow> u16 list" where
  "occupied fs = concat (map ids fs)"

definition shape_ok :: "virt_queue \<Rightarrow> bool" where
  "shape_ok q \<longleftrightarrow> (\<exists>k. k < 16 \<and> SIZE q = 2 ^ k) \<and> length (vq_desc q) = SIZE q
     \<and> length (avail_ring_slots (vq_avail q)) = SIZE q \<and> length (used_slots (vq_used q)) = SIZE q
     \<and> length (indirect_lists q) = SIZE q"

definition vq_inv :: "virt_queue \<Rightarrow> u16 list \<Rightarrow> flight list \<Rightarrow> bool" where
  "vq_inv q fl fs \<longleftrightarrow> shape_ok q
     \<and> path (desc_shadow q) (free_head q) fl (of_nat (SIZE q))
     \<and> distinct (fl @ occupied fs) \<and> set (fl @ occupied fs) = {i. unat i < SIZE q}
     \<and> (\<forall>f \<in> set fs. flight_ok (desc_shadow q) (indirect_lists q) f \<and> list_all buf_ok (bufs_of f))
     \<and> (\<forall>i \<in> set fl. indirect_lists q ! unat i = None)
     \<and> unat (num_used q) = length (occupied fs)"

lemma occupied_simps [simp]:
  "occupied [] = []" "occupied (f # fs) = ids f @ occupied fs"
  "occupied (fs @ gs) = occupied fs @ occupied gs"
  by (simp_all add: occupied_def)

lemma shape_size: "shape_ok q \<Longrightarrow> 0 < SIZE q \<and> SIZE q \<le> 2 ^ 15"
  by (auto simp: shape_ok_def intro!: power_increasing [of _ 15 "2::nat", simplified])

lemma card_words_below:
  assumes "n \<le> 2 ^ 16"
  shows "card {i :: u16. unat i < n} = n"
proof -
  have r: "unat (of_nat i :: u16) = i" if "i < n" for i
    using assms that by (simp add: unat_of_nat)
  have "{i :: u16. unat i < n} = of_nat ` {0..<n}"
  proof (intro set_eqI iffI)
    fix i :: u16 assume "i \<in> {i. unat i < n}"
    then have "unat i \<in> {0..<n}" "i = of_nat (unat i)" by simp_all
    then show "i \<in> of_nat ` {0..<n}" by blast
  qed (use r in auto)
  moreover have "inj_on (of_nat :: nat \<Rightarrow> u16) {0..<n}"
    by (rule inj_on_inverseI [where g = unat]) (simp add: r)
  ultimately show ?thesis by (simp add: card_image)
qed

text \<open>Conservation: free descriptors and descriptors in flight make up the queue.\<close>

lemma free_and_used:
  assumes "vq_inv q fl fs"
  shows "length fl + unat (num_used q) = SIZE q"
proof -
  have "shape_ok q" using assms by (simp add: vq_inv_def)
  then have n: "SIZE q \<le> 2 ^ 16" using shape_size by fastforce
  have "length (fl @ occupied fs) = card {i :: u16. unat i < SIZE q}"
    using assms by (metis distinct_card vq_inv_def)
  then show ?thesis using assms card_words_below [OF n] by (simp add: vq_inv_def)
qed

section \<open>Ring slots\<close>

lemma slot_mod:
  fixes i :: u16
  assumes "shape_ok q"
  shows "unat (i AND (of_nat (SIZE q) - 1)) = unat i mod SIZE q"
proof -
  obtain k where k: "k < 16" "SIZE q = 2 ^ k" using assms by (auto simp: shape_ok_def)
  have "of_nat (SIZE q) - 1 = (mask k :: u16)" by (simp add: k(2) mask_eq_exp_minus_1)
  then show ?thesis by (simp add: k(2) unat_take_bit_mod flip: take_bit_eq_mask)
qed

lemma slot_lt:
  fixes i :: u16
  assumes "shape_ok q"
  shows "unat (i AND (of_nat (SIZE q) - 1)) < SIZE q"
  using slot_mod [OF assms] shape_size [OF assms] by simp

section \<open>Adding a chain of descriptors\<close>

fun share_all :: "'h hal \<Rightarrow> bool \<Rightarrow> (slice \<times> buffer_direction) list \<Rightarrow> 'h \<Rightarrow> shared_buf list \<times> 'h" where
  "share_all hal ap [] h = ([], h)"
| "share_all hal ap ((s, d) # bs) h =
     ((s, d, fst (share hal s d ap h)) # fst (share_all hal ap bs (snd (share hal s d ap h))),
      snd (share_all hal ap bs (snd (share hal s d ap h))))"

lemma share_all_bufs: "map (\<lambda>(s, d, p). (s, d)) (fst (share_all hal ap bs h)) = bs"
  by (induction bs arbitrary: h) auto

lemma share_all_length [simp]: "length (fst (share_all hal ap bs h)) = length bs"
  by (metis length_map share_all_bufs)

lemma set_buf_ok:
  assumes "buf_ok (s, d)" and "share hal s d ap h = (p, h')"
  shows "set_buf hal s d x ap desc h =
    Some (desc\<lparr>addr := p, len := ucast (slice_len s), flags := x OR dir_flag d\<rparr>, h')"
  using assms by (cases d) (simp_all add: set_buf_def buf_ok_def)

text \<open>After the loop of \<open>add_direct\<close>: every descriptor still has \<open>NEXT\<close>.\<close>

definition linked_bufs :: "descriptor list \<Rightarrow> u16 list \<Rightarrow> shared_buf list \<Rightarrow> bool" where
  "linked_bufs S xs bs \<longleftrightarrow> list_all2 (\<lambda>i b. desc_ok (dsc S i) b True) xs bs"

lemma add_direct_loop_ok:
  assumes "path (desc_shadow q) (free_head q) (xs @ ys) e" and "distinct (xs @ ys)"
    and "\<forall>i \<in> set xs. unat i < SIZE q" and "length (vq_desc q) = SIZE q"
    and "length xs = length bs" and "list_all buf_ok bs"
  shows "\<exists>S T f. add_direct_loop hal bs l q h
        = Some (if xs = [] then l else last xs, q\<lparr>desc_shadow := S, free_head := f, vq_desc := T\<rparr>,
                snd (share_all hal (access_platform q) bs h))
      \<and> length S = SIZE q \<and> length T = SIZE q
      \<and> (\<forall>i. unat i < SIZE q \<longrightarrow> i \<notin> set xs \<longrightarrow> dsc S i = dsc (desc_shadow q) i \<and> dsc T i = dsc (vq_desc q) i)
      \<and> (\<forall>i \<in> set xs. nxt (dsc S i) = nxt (dsc (desc_shadow q) i) \<and> dsc T i = dsc S i)
      \<and> linked_bufs S xs (fst (share_all hal (access_platform q) bs h))
      \<and> path (desc_shadow q) f ys e"
  using assms
proof (induction bs arbitrary: q xs l h)
  case Nil
  then show ?case
    by (intro exI [of _ "desc_shadow q"] exI [of _ "vq_desc q"] exI [of _ "free_head q"])
      (simp add: linked_bufs_def)
next
  case (Cons b bs)
  obtain s d where b: "b = (s, d)" by (rule prod.exhaust)
  obtain x xs' where xs: "xs = x # xs'" using Cons.prems(5) by (cases xs) auto
  obtain p h1 where sh: "share hal s d (access_platform q) h = (p, h1)" by (rule prod.exhaust)
  let ?S = "desc_shadow q"
  let ?d = "(dsc ?S x)\<lparr>addr := p, len := ucast (slice_len s), flags := NEXT OR dir_flag d\<rparr>"
  let ?q = "q\<lparr>desc_shadow := ?S[unat x := ?d], free_head := nxt (dsc ?S x),
              vq_desc := (vq_desc q)[unat x := ?d]\<rparr>"
  have x: "unat x < SIZE q" "free_head q = x" using Cons.prems xs by simp_all
  have ok: "buf_ok (s, d)" "list_all buf_ok bs" using Cons.prems(6) b by simp_all
  have step: "add_direct_loop hal (b # bs) l q h = add_direct_loop hal bs x ?q h1"
    using x ok(1) Cons.prems(4) set_buf_ok [OF ok(1) sh]
    by (simp add: b shadow_at_def set_shadow_def write_desc_def get_lt put_lt buf_ok_def Let_def)
  have nxt: "nxt (dsc (?S[unat x := ?d]) i) = nxt (dsc ?S i)" for i
    by (cases "i = x") (use x(1) in \<open>auto simp: nth_list_update word_unat_eq_iff\<close>)
  have path: "path (desc_shadow ?q) (free_head ?q) (xs' @ ys) e"
    using Cons.prems(1) xs x(2) path_cong [of "xs' @ ys" "?S[unat x := ?d]" ?S, OF nxt] by simp
  from Cons.IH [OF path _ _ _ _ ok(2), of x h1] Cons.prems xs
  obtain S T f where IH: "add_direct_loop hal bs x ?q h1
        = Some (if xs' = [] then x else last xs', ?q\<lparr>desc_shadow := S, free_head := f, vq_desc := T\<rparr>,
                snd (share_all hal (access_platform q) bs h1))"
    "length S = SIZE q" "length T = SIZE q"
    "\<forall>i. unat i < SIZE q \<longrightarrow> i \<notin> set xs' \<longrightarrow> dsc S i = dsc (?S[unat x := ?d]) i
        \<and> dsc T i = dsc ((vq_desc q)[unat x := ?d]) i"
    "\<forall>i \<in> set xs'. nxt (dsc S i) = nxt (dsc (?S[unat x := ?d]) i) \<and> dsc T i = dsc S i"
    "linked_bufs S xs' (fst (share_all hal (access_platform q) bs h1))"
    "path (?S[unat x := ?d]) f ys e"
    by auto
  have nx: "x \<notin> set xs'" "x \<notin> set ys" using Cons.prems(2) xs by simp_all
  have Sx: "dsc S x = ?d" "dsc T x = ?d"
    using IH(4) x(1) nx(1) Cons.prems(4) by (simp_all add: dsc_update)
  have "linked_bufs S xs (fst (share_all hal (access_platform q) (b # bs) h))"
    using IH(6) Sx(1) by (simp add: xs b sh linked_bufs_def desc_ok_def)
  moreover have "path ?S f ys e"
    using IH(7) path_cong [of ys "?S[unat x := ?d]" ?S, OF nxt] by simp
  moreover have "\<forall>i \<in> set xs. nxt (dsc S i) = nxt (dsc ?S i) \<and> dsc T i = dsc S i"
    using IH(5) Sx xs nx(1) Cons.prems(3) by (auto simp: dsc_update)
  moreover have "\<forall>i. unat i < SIZE q \<longrightarrow> i \<notin> set xs \<longrightarrow> dsc S i = dsc ?S i \<and> dsc T i = dsc (vq_desc q) i"
    using IH(4) xs Cons.prems(4) by (auto simp: dsc_update)
  ultimately show ?case
    using step IH(1-3) by (intro exI [of _ S] exI [of _ T] exI [of _ f]) (simp add: xs b sh)
qed

lemma flags_closed: "(NEXT OR dir_flag d) AND NOT NEXT = dir_flag d"
  by (cases d) (simp_all add: NEXT_def WRITE_def)

text \<open>Clearing \<open>NEXT\<close> on the last descriptor makes the linked buffers a chain.\<close>

lemma close_chain:
  assumes "linked_bufs S xs bs" and "path S h xs e" and "distinct xs" and "xs \<noteq> []"
    and "\<forall>i \<in> set xs. unat i < length S"
  shows "flight_chain (S[unat (last xs) := remove_flag NEXT (dsc S (last xs))]) xs bs"
  using assms
proof (induction xs arbitrary: bs h)
  case (Cons x xs)
  obtain b bs' where bs: "bs = b # bs'" "desc_ok (dsc S x) b True" "linked_bufs S xs bs'"
    using Cons.prems(1) by (cases bs) (auto simp: linked_bufs_def)
  have lt: "unat x < length S" using Cons.prems(5) by simp
  show ?case
  proof (cases "xs = []")
    case True
    with bs lt show ?thesis
      by (simp add: linked_bufs_def desc_ok_def remove_flag_def flags_closed)
  next
    case False
    have "x \<noteq> last xs" using Cons.prems(3) False by auto
    moreover have "path S (nxt (dsc S x)) xs e" using Cons.prems(2) by simp
    moreover from this False have "nxt (dsc S x) = hd xs" by (cases xs) auto
    ultimately show ?thesis
      using Cons.IH [OF bs(3)] Cons.prems False bs lt by (simp add: dsc_update)
  qed
qed simp

text \<open>What \<open>add\<close> leaves of the queue: everything but the named fields.\<close>

lemma path_first: "path S h xs e \<Longrightarrow> xs \<noteq> [] \<Longrightarrow> h = hd xs"
  by (cases xs) auto

lemma add_direct_ok:
  assumes bs_def: "bs = input_output inputs outputs"
    and pth: "path (desc_shadow q) (free_head q) (xs @ ys) e" and d: "distinct (xs @ ys)"
    and lt': "\<forall>i \<in> set (xs @ ys). unat i < SIZE q" and T: "length (vq_desc q) = SIZE q"
    and len: "length xs = length bs" "bs \<noteq> []" and ok: "list_all buf_ok bs"
  shows "\<exists>S T f. add_direct hal inputs outputs q h = Some (free_head q,
          q\<lparr>desc_shadow := S, free_head := f, vq_desc := T, num_used := num_used q + of_nat (length bs)\<rparr>,
          snd (share_all hal (access_platform q) bs h))
      \<and> length S = SIZE q \<and> length T = SIZE q \<and> free_head q = hd xs
      \<and> (\<forall>i. unat i < SIZE q \<longrightarrow> i \<notin> set xs \<longrightarrow> dsc S i = dsc (desc_shadow q) i \<and> dsc T i = dsc (vq_desc q) i)
      \<and> (\<forall>i \<in> set xs. dsc T i = dsc S i)
      \<and> flight_chain S xs (fst (share_all hal (access_platform q) bs h))
      \<and> path S f ys e"
proof -
  let ?S0 = "desc_shadow q"
  have xs: "xs \<noteq> []" using len by auto
  have lt: "\<forall>i \<in> set xs. unat i < SIZE q" using lt' by simp
  obtain S T f where L: "add_direct_loop hal bs (free_head q) q h
        = Some (last xs, q\<lparr>desc_shadow := S, free_head := f, vq_desc := T\<rparr>,
                snd (share_all hal (access_platform q) bs h))"
    "length S = SIZE q" "length T = SIZE q"
    "\<forall>i. unat i < SIZE q \<longrightarrow> i \<notin> set xs \<longrightarrow> dsc S i = dsc ?S0 i \<and> dsc T i = dsc (vq_desc q) i"
    "\<forall>i \<in> set xs. nxt (dsc S i) = nxt (dsc ?S0 i) \<and> dsc T i = dsc S i"
    "linked_bufs S xs (fst (share_all hal (access_platform q) bs h))" "path ?S0 f ys e"
    using add_direct_loop_ok [OF pth d lt T len(1) ok, of hal "free_head q" h] xs by auto
  define l where "l = last xs"
  define dl where "dl = remove_flag NEXT (dsc S l)"
  define S' where "S' = S[unat l := dl]"
  define T' where "T' = T[unat l := dl]"
  have l: "l \<in> set xs" "unat l < SIZE q" using xs lt by (simp_all add: l_def)
  have bsl: "length bs = length inputs + length outputs" by (simp add: bs_def input_output_def)
  have run: "add_direct hal inputs outputs q h = Some (free_head q,
      q\<lparr>desc_shadow := S', free_head := f, vq_desc := T', num_used := num_used q + of_nat (length bs)\<rparr>,
      snd (share_all hal (access_platform q) bs h))"
    using L(1-3) l(2) unfolding add_direct_def bs_def [symmetric]
    by (simp add: shadow_at_def set_shadow_def write_desc_def get_lt put_lt S'_def T'_def dl_def
        l_def [symmetric] bsl Let_def)
  have nxt': "nxt (dsc S' i) = nxt (dsc ?S0 i)" if "i \<in> set xs \<union> set ys" "unat i < SIZE q" for i
    using that L(2,4,5) l by (auto simp: S'_def dsc_update dl_def remove_flag_def)
  have "path S h' xs e' = path ?S0 h' xs e'" for h' e' using L(5) by (intro path_cong) simp
  then have "flight_chain S' xs (fst (share_all hal (access_platform q) bs h))"
    using close_chain [OF L(6), of "free_head q" "if ys = [] then e else hd ys"] pth d xs lt L(2)
    by (simp add: S'_def dl_def l_def)
  moreover have "\<forall>i \<in> set xs. dsc T' i = dsc S' i"
    using L(2,3,5) lt by (auto simp: S'_def T'_def dsc_update)
  moreover have "\<forall>i. unat i < SIZE q \<longrightarrow> i \<notin> set xs \<longrightarrow> dsc S' i = dsc ?S0 i \<and> dsc T' i = dsc (vq_desc q) i"
    using L(2-4) l(1) by (auto simp: S'_def T'_def dsc_update)
  moreover have "path S' f ys e"
    using L(7) path_cong [of ys S' ?S0] nxt' lt' by simp
  moreover have "free_head q = hd xs" using path_first [OF pth] xs by simp
  ultimately show ?thesis
    using run L(2,3) by (intro exI [of _ S'] exI [of _ T'] exI [of _ f]) (simp add: S'_def T'_def)
qed

section \<open>Adding an indirect chain\<close>

lemma fill_indirect_ok:
  assumes "list_all buf_ok bs"
  shows "\<exists>ds. fill_indirect hal ap i bs h = Some (ds, snd (share_all hal ap bs h)) \<and> length ds = length bs
    \<and> (\<forall>k < length bs. desc_ok (ds ! k) (fst (share_all hal ap bs h) ! k) True
         \<and> nxt (ds ! k) = of_nat (i + k + 1))"
  using assms
proof (induction bs arbitrary: i h)
  case (Cons b bs)
  obtain s d where b: "b = (s, d)" by (rule prod.exhaust)
  obtain p h1 where sh: "share hal s d ap h = (p, h1)" by (rule prod.exhaust)
  have ok: "buf_ok (s, d)" "list_all buf_ok bs" using Cons.prems b by simp_all
  obtain ds where IH: "fill_indirect hal ap (i + 1) bs h1 = Some (ds, snd (share_all hal ap bs h1))"
    "length ds = length bs"
    "\<forall>k < length bs. desc_ok (ds ! k) (fst (share_all hal ap bs h1) ! k) True
         \<and> nxt (ds ! k) = of_nat (i + 1 + k + 1)"
    using Cons.IH [OF ok(2)] by metis
  define d0 where "d0 = zero_desc\<lparr>addr := p, len := ucast (slice_len s), flags := NEXT OR dir_flag d,
    nxt := of_nat (i + 1)\<rparr>"
  have "fill_indirect hal ap i (b # bs) h = Some (d0 # ds, snd (share_all hal ap (b # bs) h))"
    using IH(1) set_buf_ok [OF ok(1) sh, of NEXT zero_desc] by (simp add: b sh d0_def)
  moreover have "desc_ok ((d0 # ds) ! k) (fst (share_all hal ap (b # bs) h) ! k) True
      \<and> nxt ((d0 # ds) ! k) = of_nat (i + k + 1)" if "k < length (b # bs)" for k
    using that IH(2,3) by (cases k) (simp_all add: b sh d0_def desc_ok_def algebra_simps)
  ultimately show ?case using IH(2) by (intro exI [of _ "d0 # ds"]) simp
qed simp

lemma path_upt:
  assumes "\<And>k. k < n \<Longrightarrow> nxt (ds ! k) = of_nat (k + 1)" and "n \<le> 2 ^ 15" and "j \<le> n"
  shows "path ds (of_nat j) (map of_nat [j..<n]) (of_nat n)"
  using assms(3)
proof (induction rule: inc_induct)
  case (step j)
  have "unat (of_nat j :: u16) = j" using step.hyps assms(2) by (simp add: unat_of_nat)
  with step assms(1) [of j] show ?case by (simp add: upt_conv_Cons)
qed simp

lemma indirect_list_ok:
  assumes ok: "list_all buf_ok bs" and n: "bs \<noteq> []" "length bs \<le> 2 ^ 15"
  obtains ds0 ds where "fill_indirect hal ap 0 bs h = Some (ds0, snd (share_all hal ap bs h))"
    and "clear_last_next ds0 = Some ds" and "length ds = length bs"
    and "map addr ds = map (snd \<circ> snd) (fst (share_all hal ap bs h))"
    and "flight_chain ds (map of_nat [0..<length bs]) (fst (share_all hal ap bs h))"
proof -
  let ?n = "length bs" and ?ps = "fst (share_all hal ap bs h)" and ?xs = "map of_nat [0..<length bs] :: u16 list"
  obtain ds0 where F: "fill_indirect hal ap 0 bs h = Some (ds0, snd (share_all hal ap bs h))"
    "length ds0 = ?n"
    "\<And>k. k < ?n \<Longrightarrow> desc_ok (ds0 ! k) (?ps ! k) True \<and> nxt (ds0 ! k) = of_nat (k + 1)"
    using fill_indirect_ok [OF ok, of hal ap 0 h] by auto
  define ds where "ds = ds0[?n - 1 := remove_flag NEXT (ds0 ! (?n - 1))]"
  have ne: "ds0 \<noteq> []" using F(2) n(1) by auto
  have clear: "clear_last_next ds0 = Some ds"
  proof (cases ds0 rule: rev_cases)
    case (snoc ys y)
    then have "?n - 1 = length ys" using F(2) by simp
    then show ?thesis unfolding clear_last_next_def ds_def snoc by simp
  qed (use ne in simp)
  have u: "unat (of_nat k :: u16) = k" if "k < ?n" for k using that n(2) by (simp add: unat_of_nat)
  have "linked_bufs ds0 ?xs ?ps"
    using F(3) u by (auto simp: linked_bufs_def list_all2_conv_all_nth)
  moreover have "path ds0 (of_nat 0) ?xs (of_nat ?n)" using F(3) n(2) by (intro path_upt) auto
  moreover have "distinct ?xs"
    using u by (auto simp: distinct_map intro!: inj_on_inverseI [where g = unat])
  moreover have "?xs \<noteq> []" "\<forall>i \<in> set ?xs. unat i < length ds0" using n(1) u F(2) by auto
  moreover have "last ?xs = of_nat (?n - 1)" using n(1) by (simp add: last_map)
  ultimately have "flight_chain ds ?xs ?ps"
    using close_chain [of ds0 ?xs ?ps "of_nat 0" "of_nat ?n"] u [of "?n - 1"] n(1) by (simp add: ds_def)
  moreover have "map addr ds = map (snd \<circ> snd) ?ps"
    using F(2,3) by (intro nth_equalityI) (auto simp: ds_def nth_list_update desc_ok_def remove_flag_def)
  ultimately show thesis using that F(1,2) clear by (simp add: ds_def)
qed

end
