(* ===== verification/Virt_Queue_Add.thy ===== *)
theory Virt_Queue_Add
  imports Virt_Queue_Proofs
begin

text \<open>
  \<open>init_queue\<close> establishes the invariant of the virtqueue and \<open>add\<close> preserves it, on every branch;
  the device sees exactly the buffers that were added.
\<close>

section \<open>Construction\<close>

definition fresh_queue :: "queue_layout \<Rightarrow> nat \<Rightarrow> u16 \<Rightarrow> bool \<Rightarrow> bool \<Rightarrow> bool \<Rightarrow> virt_queue" where
  "fresh_queue L n idx ind ev ap = \<lparr>layout = L, vq_desc = initial_desc n,
     vq_avail = \<lparr>avail_flags = 0, avail_ring_idx = 0, avail_ring_slots = replicate n 0, used_event = 0\<rparr>,
     vq_used = \<lparr>used_flags = 0, used_idx = 0,
                used_slots = replicate n \<lparr>used_id = 0, used_len = 0\<rparr>, avail_event = 0\<rparr>,
     queue_idx = idx, num_used = 0, free_head = 0, desc_shadow = initial_shadow n,
     avail_idx = 0, last_used_idx = 0, event_idx = ev, access_platform = ap,
     indirect = ind, indirect_lists = replicate n None\<rparr>"

lemma power_of_two_exp:
  assumes "is_power_of_two (w :: u16)"
  obtains k where "k < 16" and "unat w = 2 ^ k"
proof -
  have w: "w \<noteq> 0" "w AND (w - 1) = 0" using assms by (simp_all add: is_power_of_two_def)
  then have pos: "0 < unat w" by (simp add: unat_gt_0)
  then obtain k where k: "2 ^ k \<le> unat w" "unat w < 2 ^ (k + 1)"
    using ex_power_ivl1 [of 2 "unat w"] by auto
  have k16: "k < 16"
  proof (rule ccontr)
    assume "\<not> k < 16"
    then have "(2::nat) ^ 16 \<le> 2 ^ k" by (intro power_increasing) simp_all
    with k(1) unat_u16_lt [of w] show False by simp
  qed
  have "unat w = 2 ^ k"
  proof (rule ccontr)
    assume "unat w \<noteq> 2 ^ k"
    moreover have "unat (w - 1) = unat w - 1" using pos by (simp add: unat_sub_if')
    ultimately have "bit w k" "bit (w - 1) k" using k by (auto intro!: bit_top_of)
    then have "bit (w AND (w - 1)) k" by (simp add: bit_and_iff)
    with w(2) show False by simp
  qed
  with k16 show thesis by (rule that)
qed

lemma fresh_inv:
  assumes "is_power_of_two (of_nat n :: u16)" and "n < 2 ^ 16"
  shows "vq_inv (fresh_queue L n idx ind ev ap) (map of_nat [0..<n]) []"
proof -
  have un: "unat (of_nat n :: u16) = n" using assms(2) by (simp add: unat_of_nat)
  then obtain k where k: "k < 16" "n = 2 ^ k" using power_of_two_exp [OF assms(1)] by metis
  then have n15: "n \<le> 2 ^ 15" using power_increasing [of k 15 "2::nat"] by simp
  have u: "unat (of_nat i :: u16) = i" if "i < n" for i using that assms(2) by (simp add: unat_of_nat)
  let ?q = "fresh_queue L n idx ind ev ap"
  have sz: "SIZE ?q = n" by (simp add: fresh_queue_def initial_shadow_def)
  have "shape_ok ?q"
    using k by (auto simp: shape_ok_def fresh_queue_def initial_shadow_def initial_desc_def)
  moreover have "path (desc_shadow ?q) (free_head ?q) (map of_nat [0..<n]) (of_nat (SIZE ?q))"
    using path_upt [of n "initial_shadow n" 0] n15 sz
    by (simp add: fresh_queue_def initial_shadow_def)
  moreover have "distinct (map of_nat [0..<n] :: u16 list)"
    using u by (auto simp: distinct_map intro!: inj_on_inverseI [where g = unat])
  moreover have "set (map of_nat [0..<n] :: u16 list) = {i. unat i < n}"
  proof (intro set_eqI iffI)
    fix i :: u16 assume "i \<in> {i. unat i < n}"
    then have "unat i \<in> {0..<n}" "i = of_nat (unat i)" by simp_all
    then show "i \<in> set (map of_nat [0..<n])" by (metis image_eqI list.set_map set_upt)
  qed (use u in auto)
  ultimately show ?thesis
    using u by (simp add: vq_inv_def sz) (simp add: fresh_queue_def)
qed

text \<open>What the driver relies on: granted DMA pages can be given back.\<close>

definition hal_dealloc_law :: "'h hal \<Rightarrow> bool" where
  "hal_dealloc_law hal \<longleftrightarrow> (\<forall>p v n ap h. fst (dma_dealloc hal p v n ap h) = 0)"

lemma flexible_total:
  assumes "is_power_of_two n" and "hal_dealloc_law hal"
  shows "\<exists>r h'. allocate_flexible hal n ap h = Some (r, h') \<and> (\<forall>e. r = Inl e \<longrightarrow> e = DmaError)"
proof -
  obtain desc avail used where "queue_part_sizes n = Some (desc, avail, used)"
    using queue_part_sizes_Some [OF assms(1)] by metis
  then show ?thesis
    using assms(2)
    by (auto simp: allocate_flexible_def dma_new_def dma_drop_def hal_dealloc_law_def Let_def
        split: prod.splits sum.splits if_splits) (metis fst_conv)+
qed

lemma legacy_error:
  assumes "allocate_legacy hal n ap h = Some (Inl e, h')"
  shows "e = DmaError"
  using assms by (auto simp: allocate_legacy_def dma_new_def Let_def bind_eq_Some_conv
      split: prod.splits sum.splits if_splits)

section \<open>What the device sees\<close>

text \<open>The device follows a chain through a descriptor table; \<open>k\<close> bounds the length of the chain.\<close>

fun device_reads :: "nat \<Rightarrow> descriptor list \<Rightarrow> u16 \<Rightarrow> descriptor list option" where
  "device_reads 0 T i = None"
| "device_reads (Suc k) T i = do {
     d \<leftarrow> get T (unat i);
     if flag NEXT (flags d) then do { ds \<leftarrow> device_reads k T (nxt d); Some (d # ds) } else Some [d]
   }"

definition device_buffers :: "virt_queue \<Rightarrow> u16 \<Rightarrow> (u64 \<times> u32 \<times> bool) list option" where
  "device_buffers q head = do {
     d \<leftarrow> get (vq_desc q) (unat head);
     ds \<leftarrow> (if flag INDIRECT (flags d)
            then (case indirect_lists q ! unat head of
                    Some (ptr, ds) \<Rightarrow> device_reads (SIZE q) ds 0 | None \<Rightarrow> None)
            else device_reads (SIZE q) (vq_desc q) head);
     Some (map (\<lambda>d. (addr d, len d, flag WRITE (flags d))) ds)
   }"

text \<open>A shared buffer as the device should see it.\<close>

definition visible :: "shared_buf \<Rightarrow> u64 \<times> u32 \<times> bool" where
  "visible b = (snd (snd b), ucast (slice_len (fst b)), fst (snd b) = DeviceToDriver)"

lemma flag_simps:
  "flag NEXT ((if m then NEXT else 0) OR dir_flag d) = m"
  "d \<noteq> Both \<Longrightarrow> flag WRITE ((if m then NEXT else 0) OR dir_flag d) = (d = DeviceToDriver)"
  "\<not> flag INDIRECT ((if m then NEXT else 0) OR dir_flag d)" "flag INDIRECT INDIRECT"
  by (cases d; simp add: flag_def NEXT_def WRITE_def INDIRECT_def)+

lemma device_reads_chain:
  assumes "flight_chain T xs bs" and "xs \<noteq> []" and "length xs \<le> k" and "\<forall>i \<in> set xs. unat i < length T"
  shows "device_reads k T (hd xs) = Some (map (dsc T) xs)"
  using assms
proof (induction xs arbitrary: bs k)
  case (Cons x xs)
  obtain b bs' where bs: "bs = b # bs'" using Cons.prems(1) by (cases bs) auto
  obtain j where k: "k = Suc j" using Cons.prems(3) by (cases k) auto
  have d: "flag NEXT (flags (dsc T x)) = (xs \<noteq> [])"
    using Cons.prems(1) flag_simps(1) [of "xs \<noteq> []"] by (auto simp: bs desc_ok_def)
  show ?case
  proof (cases "xs = []")
    case True
    with d k Cons.prems show ?thesis by (simp add: get_lt)
  next
    case False
    then have "device_reads j T (nxt (dsc T x)) = Some (map (dsc T) xs)"
      using Cons.IH [of bs' j] Cons.prems k bs by simp
    with d k False Cons.prems show ?thesis by (simp add: get_lt)
  qed
qed simp

lemma chain_visible:
  assumes "flight_chain T xs bs" and "list_all (\<lambda>b. fst (snd b) \<noteq> Both) bs"
  shows "map (\<lambda>d. (addr d, len d, flag WRITE (flags d))) (map (dsc T) xs) = map visible bs"
  using assms
proof (induction T xs bs rule: flight_chain.induct)
  case (2 S i xs b bs)
  then show ?case using flag_simps(2) [of "fst (snd b)" "xs \<noteq> []"] by (simp add: desc_ok_def visible_def)
qed simp_all

section \<open>Publishing\<close>

lemma publish_ok:
  assumes "shape_ok q"
  shows "publish head q = Some (q\<lparr>avail_idx := avail_idx q + 1,
    vq_avail := (vq_avail q)\<lparr>avail_ring_slots := (avail_ring_slots (vq_avail q))[unat (avail_idx q) mod SIZE q := head],
                             avail_ring_idx := avail_idx q + 1\<rparr>\<rparr>)"
  using assms slot_mod [OF assms, of "avail_idx q"] shape_size [OF assms]
  by (simp add: publish_def put_lt shape_ok_def Let_def)

lemma vq_inv_avail:
  assumes "vq_inv q fl fs" and "length (avail_ring_slots a) = SIZE q"
  shows "vq_inv (q\<lparr>avail_idx := i, vq_avail := a\<rparr>) fl fs"
  using assms by (simp add: vq_inv_def shape_ok_def)

lemma flight_ok_cong:
  assumes "flight_ok S Ls f" and "\<And>i. i \<in> set (ids f) \<Longrightarrow> dsc S' i = dsc S i \<and> Ls' ! unat i = Ls ! unat i"
  shows "flight_ok S' Ls' f"
proof (cases f)
  case (Direct xs bs)
  with assms show ?thesis using flight_chain_cong [of xs S' S bs] by simp
next
  case (Indirect i ptr bs p)
  with assms show ?thesis by simp
qed

lemma vq_invD:
  assumes "vq_inv q fl fs"
  shows "shape_ok q" "path (desc_shadow q) (free_head q) fl (of_nat (SIZE q))"
    "distinct (fl @ occupied fs)" "set (fl @ occupied fs) = {i. unat i < SIZE q}"
    "\<And>f. f \<in> set fs \<Longrightarrow> flight_ok (desc_shadow q) (indirect_lists q) f \<and> list_all buf_ok (bufs_of f)"
    "\<And>i. i \<in> set fl \<Longrightarrow> indirect_lists q ! unat i = None"
    "unat (num_used q) = length (occupied fs)"
  using assms by (simp_all add: vq_inv_def)

section \<open>Adding keeps the invariant\<close>

definition same_rings :: "virt_queue \<Rightarrow> virt_queue \<Rightarrow> bool" where
  "same_rings q q' \<longleftrightarrow> vq_avail q' = vq_avail q \<and> vq_used q' = vq_used q \<and> queue_idx q' = queue_idx q
     \<and> avail_idx q' = avail_idx q \<and> last_used_idx q' = last_used_idx q \<and> event_idx q' = event_idx q
     \<and> access_platform q' = access_platform q \<and> indirect q' = indirect q \<and> SIZE q' = SIZE q"

lemma occupied_ids: "f \<in> set fs \<Longrightarrow> set (ids f) \<subseteq> set (occupied fs)"
  by (auto simp: occupied_def)

lemma flight_frame:
  assumes ok: "flight_ok S Ls g \<and> list_all buf_ok (bufs_of g)" and g: "g \<in> set fs"
    and S: "\<And>i. i \<in> set (occupied fs) \<Longrightarrow> dsc S' i = dsc S i \<and> Ls' ! unat i = Ls ! unat i"
  shows "flight_ok S' Ls' g \<and> list_all buf_ok (bufs_of g)"
  using flight_ok_cong [of S Ls g S' Ls'] ok S occupied_ids [OF g] by blast

lemma vq_inv_addI:
  assumes inv: "vq_inv q (ids f @ ys) fs" and shape: "shape_ok q'" "SIZE q' = SIZE q"
    and path: "path (desc_shadow q') (free_head q') ys (of_nat (SIZE q))"
    and f: "flight_ok (desc_shadow q') (indirect_lists q') f" "list_all buf_ok (bufs_of f)"
    and frame: "\<And>i. i \<in> set ys \<union> set (occupied fs) \<Longrightarrow> unat i < SIZE q \<Longrightarrow> i \<notin> set (ids f) \<Longrightarrow>
      (i \<in> set (occupied fs) \<longrightarrow> dsc (desc_shadow q') i = dsc (desc_shadow q) i)
      \<and> indirect_lists q' ! unat i = indirect_lists q ! unat i"
    and nu: "num_used q' = num_used q + of_nat (length (ids f))"
  shows "vq_inv q' ys (f # fs)"
proof -
  note I = vq_invD [OF inv]
  have fr: "(i \<in> set (occupied fs) \<longrightarrow> dsc (desc_shadow q') i = dsc (desc_shadow q) i)
      \<and> indirect_lists q' ! unat i = indirect_lists q ! unat i" if "i \<in> set ys \<union> set (occupied fs)" for i
    by (rule frame [OF that]) (use that I(3,4) in auto)
  have old: "flight_ok (desc_shadow q') (indirect_lists q') g \<and> list_all buf_ok (bufs_of g)" if "g \<in> set fs" for g
    by (rule flight_frame [OF I(5) [OF that] that]) (use fr in auto)
  have "unat (num_used q) + length (ids f) \<le> SIZE q" using free_and_used [OF inv] by simp
  then have "unat (num_used q + of_nat (length (ids f))) = length (ids f) + length (occupied fs)"
    using I(7) shape_size [OF I(1)] by (subst unat_add_lt) (simp_all add: unat_of_nat)
  with I shape path f old nu fr show ?thesis by (auto simp: vq_inv_def)
qed

lemma add_direct_inv:
  assumes inv: "vq_inv q (xs @ ys) fs" and bs: "bs = input_output inputs outputs"
    and ok: "list_all buf_ok bs" and n: "bs \<noteq> []" "length xs = length bs"
    and ps: "share_all hal (access_platform q) bs h = (ps, h')"
  shows "\<exists>q'. add_direct hal inputs outputs q h = Some (hd xs, q', h')
    \<and> vq_inv q' ys (Direct xs ps # fs) \<and> same_rings q q'
    \<and> flight_chain (vq_desc q') xs ps \<and> length (vq_desc q') = SIZE q"
proof -
  note I = vq_invD [OF inv]
  have lt: "\<forall>i \<in> set (xs @ ys). unat i < SIZE q" using I(4) by auto
  have dist: "distinct (xs @ ys)" using I(3) by auto
  obtain S T f where A: "add_direct hal inputs outputs q h = Some (free_head q,
          q\<lparr>desc_shadow := S, free_head := f, vq_desc := T, num_used := num_used q + of_nat (length bs)\<rparr>, h')"
    "length S = SIZE q" "length T = SIZE q" "free_head q = hd xs"
    "\<forall>i. unat i < SIZE q \<longrightarrow> i \<notin> set xs \<longrightarrow> dsc S i = dsc (desc_shadow q) i \<and> dsc T i = dsc (vq_desc q) i"
    "\<forall>i \<in> set xs. dsc T i = dsc S i" "flight_chain S xs ps" "path S f ys (of_nat (SIZE q))"
    using add_direct_ok [OF bs I(2) dist lt _ n(2,1) ok, of hal h] I(1) ps
    by (auto simp: shape_ok_def)
  let ?q = "q\<lparr>desc_shadow := S, free_head := f, vq_desc := T, num_used := num_used q + of_nat (length bs)\<rparr>"
  have "vq_inv ?q ys (Direct xs ps # fs)"
  proof (rule vq_inv_addI)
    show "vq_inv q (ids (Direct xs ps) @ ys) fs" using inv by simp
    show "shape_ok ?q" using I(1) A(2,3) by (simp add: shape_ok_def)
    show "flight_ok (desc_shadow ?q) (indirect_lists ?q) (Direct xs ps)" using A(7) n I(6) by auto
    show "list_all buf_ok (bufs_of (Direct xs ps))"
      using ok share_all_bufs [of hal "access_platform q" bs h] ps by simp
  qed (use A n in auto)
  moreover have "flight_chain T xs ps" using A(6,7) flight_chain_cong [of xs T S ps] by simp
  ultimately show ?thesis
    using A(1-4) by (intro exI [of _ ?q]) (simp add: same_rings_def)
qed

text \<open>What the driver relies on: boxes can be allocated (otherwise the program aborts).\<close>

definition hal_box_law :: "'h hal \<Rightarrow> bool" where
  "hal_box_law hal \<longleftrightarrow> (\<forall>n h. fst (new_box hal n h) \<noteq> None)"

lemma add_indirect_run:
  assumes inv: "vq_inv q (x # ys) fs" and bs: "bs = input_output inputs outputs"
    and ok: "list_all buf_ok bs" and n: "bs \<noteq> []" "length bs \<le> SIZE q" and law: "hal_box_law hal"
  obtains ptr ps p ds d h' where "add_indirect hal inputs outputs q h = Some (x,
      q\<lparr>indirect_lists := (indirect_lists q)[unat x := Some (ptr, ds)],
        free_head := nxt (dsc (desc_shadow q) x), desc_shadow := (desc_shadow q)[unat x := d],
        vq_desc := (vq_desc q)[unat x := d], num_used := num_used q + 1\<rparr>, h')"
    and "map (\<lambda>(s, d, p). (s, d)) ps = bs" and "length ds = length bs"
    and "map addr ds = map (snd \<circ> snd) ps" and "flight_chain ds (map of_nat [0..<length bs]) ps"
    and "addr d = p" and "flags d = INDIRECT" and "len d = ucast (list_bytes bs)"
proof -
  note I = vq_invD [OF inv]
  let ?ap = "access_platform q"
  let ?bytes = "of_nat (16 * (length inputs + length outputs)) :: u64"
  have sz: "SIZE q \<le> 2 ^ 15" using shape_size [OF I(1)] by simp
  have bl: "length bs = length inputs + length outputs" by (simp add: bs input_output_def)
  have x: "unat x < SIZE q" "free_head q = x" "indirect_lists q ! unat x = None" using I by auto
  obtain ptr h1 where box: "new_box hal ?bytes h = (Some ptr, h1)"
    using law by (metis hal_box_law_def option.exhaust prod.collapse)
  let ?ps = "fst (share_all hal ?ap bs h1)" and ?buf = "\<lparr>slice_ptr = ptr, slice_len = ?bytes\<rparr>"
  obtain ds0 ds where L: "fill_indirect hal ?ap 0 bs h1 = Some (ds0, snd (share_all hal ?ap bs h1))"
    "clear_last_next ds0 = Some ds" "length ds = length bs" "map addr ds = map (snd \<circ> snd) ?ps"
    "flight_chain ds (map of_nat [0..<length bs]) ?ps"
    using indirect_list_ok [OF ok n(1), of hal ?ap h1] n(2) sz by auto
  obtain p h2 where sh: "share hal ?buf DriverToDevice ?ap (snd (share_all hal ?ap bs h1)) = (p, h2)"
    by (rule prod.exhaust)
  have b: "unat ?bytes = 16 * length bs" "?bytes = list_bytes bs"
    using n(2) sz by (simp_all only: bl [symmetric] unat_of_nat list_bytes_def) simp
  then have "buf_ok (?buf, DriverToDevice)"
    using n sz by (simp add: buf_ok_def) (metis unat_0 mult_is_0 length_0_conv zero_neq_numeral)
  note sb = set_buf_ok [OF this sh, of INDIRECT]
  let ?d = "(dsc (desc_shadow q) x)\<lparr>addr := p, len := ucast ?bytes, flags := INDIRECT\<rparr>"
  have "add_indirect hal inputs outputs q h = Some (x,
      q\<lparr>indirect_lists := (indirect_lists q)[unat x := Some (ptr, ds)],
        free_head := nxt (dsc (desc_shadow q) x), desc_shadow := (desc_shadow q)[unat x := ?d],
        vq_desc := (vq_desc q)[unat x := ?d], num_used := num_used q + 1\<rparr>, h2)"
    using x box L(1,2) sb I(1) unfolding add_indirect_def bs [symmetric]
    by (simp add: shadow_at_def set_shadow_def write_desc_def get_lt put_lt shape_ok_def Let_def)
  from that [OF this share_all_bufs L(3-5)] b(2) show thesis by simp
qed

lemma add_indirect_inv:
  assumes inv: "vq_inv q (x # ys) fs" and bs: "bs = input_output inputs outputs"
    and ok: "list_all buf_ok bs" and n: "bs \<noteq> []" "length bs \<le> SIZE q" and law: "hal_box_law hal"
  shows "\<exists>q' h' ptr ps p. add_indirect hal inputs outputs q h = Some (x, q', h')
    \<and> map (\<lambda>(s, d, p). (s, d)) ps = bs
    \<and> vq_inv q' ys (Indirect x ptr ps p # fs) \<and> same_rings q q'
    \<and> dsc (vq_desc q') x = dsc (desc_shadow q') x \<and> length (vq_desc q') = SIZE q"
proof -
  note I = vq_invD [OF inv]
  have x: "unat x < SIZE q" "x \<notin> set ys" "free_head q = x" using I by auto
  have len: "length (indirect_lists q) = SIZE q" "length (vq_desc q) = SIZE q"
    using I(1) by (simp_all add: shape_ok_def)
  obtain ptr ps p ds d h' where R: "add_indirect hal inputs outputs q h = Some (x,
      q\<lparr>indirect_lists := (indirect_lists q)[unat x := Some (ptr, ds)],
        free_head := nxt (dsc (desc_shadow q) x), desc_shadow := (desc_shadow q)[unat x := d],
        vq_desc := (vq_desc q)[unat x := d], num_used := num_used q + 1\<rparr>, h')"
    "map (\<lambda>(s, d, p). (s, d)) ps = bs" "length ds = length bs" "map addr ds = map (snd \<circ> snd) ps"
    "flight_chain ds (map of_nat [0..<length bs]) ps" "addr d = p" "flags d = INDIRECT"
    "len d = ucast (list_bytes bs)"
    by (rule add_indirect_run [OF inv bs ok n law, of h])
  define q' where "q' = q\<lparr>indirect_lists := (indirect_lists q)[unat x := Some (ptr, ds)],
     free_head := nxt (dsc (desc_shadow q) x), desc_shadow := (desc_shadow q)[unat x := d],
     vq_desc := (vq_desc q)[unat x := d], num_used := num_used q + 1\<rparr>"
  have ps: "length ps = length bs" using R(2) by auto
  have "vq_inv q' ys (Indirect x ptr ps p # fs)"
  proof (rule vq_inv_addI)
    show "vq_inv q (ids (Indirect x ptr ps p) @ ys) fs" using inv by simp
    show "shape_ok q'" using I(1) by (simp add: shape_ok_def q'_def)
    have "path ((desc_shadow q)[unat x := d]) h'' ys e = path (desc_shadow q) h'' ys e" for h'' e
    proof (rule path_cong)
      fix i assume i: "i \<in> set ys"
      then have "unat i < SIZE q" "i \<noteq> x" using I(4) x(2) by auto
      then show "nxt (dsc ((desc_shadow q)[unat x := d]) i) = nxt (dsc (desc_shadow q) i)"
        by (simp add: dsc_update)
    qed
    then show "path (desc_shadow q') (free_head q') ys (of_nat (SIZE q))"
      using I(2) x(3) by (simp add: q'_def)
    show "flight_ok (desc_shadow q') (indirect_lists q') (Indirect x ptr ps p)"
      using R(3-8) x(1) len ps by (simp add: q'_def list_bytes_def)
    show "list_all buf_ok (bufs_of (Indirect x ptr ps p))" using ok R(2) by simp
  qed (use x len in \<open>auto simp: q'_def dsc_update nth_list_update word_unat_eq_iff\<close>)
  moreover have "dsc (vq_desc q') x = dsc (desc_shadow q') x" "length (vq_desc q') = SIZE q" "same_rings q q'"
    using x(1) len by (simp_all add: q'_def same_rings_def)
  ultimately show ?thesis using R(1,2) unfolding q'_def by blast
qed

section \<open>The whole operation\<close>

text \<open>The condition under which \<open>add\<close> reports a full queue.\<close>

definition no_room :: "virt_queue \<Rightarrow> nat \<Rightarrow> bool" where
  "no_room q n \<longleftrightarrow> unat (num_used q) + 1 > SIZE q \<or> n > SIZE q
     \<or> (\<not> indirect q \<and> unat (num_used q) + n > SIZE q)"

text \<open>After \<open>add\<close>: flight \<open>f\<close> holds the buffers, its head is in the next slot of the available ring.\<close>

definition added :: "virt_queue \<Rightarrow> flight \<Rightarrow> virt_queue \<Rightarrow> bool" where
  "added q f q' \<longleftrightarrow> avail_idx q' = avail_idx q + 1 \<and> avail_ring_idx (vq_avail q') = avail_idx q'
     \<and> avail_ring_slots (vq_avail q') ! (unat (avail_idx q) mod SIZE q) = token_of f
     \<and> vq_used q' = vq_used q \<and> last_used_idx q' = last_used_idx q \<and> SIZE q' = SIZE q
     \<and> event_idx q' = event_idx q \<and> access_platform q' = access_platform q \<and> indirect q' = indirect q
     \<and> queue_idx q' = queue_idx q"

lemma visible_direct:
  assumes "flight_chain (vq_desc q) xs ps" and "xs \<noteq> []" and "length (vq_desc q) = SIZE q"
    and "\<forall>i \<in> set xs. unat i < SIZE q" and "distinct xs" and "list_all buf_ok (map (\<lambda>(s, d, p). (s, d)) ps)"
    and "length xs \<le> SIZE q"
  shows "device_buffers q (hd xs) = Some (map visible ps)"
proof -
  obtain x xs' p ps' where xs: "xs = x # xs'" "ps = p # ps'" using assms(1,2) by (cases xs; cases ps) auto
  have "\<not> flag INDIRECT (flags (dsc (vq_desc q) x))"
    using assms(1) flag_simps(3) [of "xs' \<noteq> []"] by (simp add: xs desc_ok_def)
  moreover have "list_all (\<lambda>b. fst (snd b) \<noteq> Both) ps"
    using assms(6) by (auto simp: list_all_iff buf_ok_def)
  moreover have "unat x < SIZE q" using assms(4) xs by simp
  ultimately show ?thesis
    using device_reads_chain [OF assms(1,2,7)] chain_visible [OF assms(1)] assms(3,4) xs(1)
    by (simp add: device_buffers_def get_lt)
qed

lemma visible_indirect:
  assumes "flight_ok (desc_shadow q) (indirect_lists q) (Indirect x ptr ps p)" and "unat x < SIZE q"
    and "dsc (vq_desc q) x = dsc (desc_shadow q) x" and "length (vq_desc q) = SIZE q"
    and "list_all buf_ok (map (\<lambda>(s, d, p). (s, d)) ps)" and "ps \<noteq> []" "length ps \<le> SIZE q" "SIZE q \<le> 2 ^ 15"
  shows "device_buffers q x = Some (map visible ps)"
proof -
  obtain ds where ds: "indirect_lists q ! unat x = Some (ptr, ds)" "map addr ds = map (snd \<circ> snd) ps"
    "flight_chain ds (map of_nat [0..<length ps]) ps" "flags (dsc (desc_shadow q) x) = INDIRECT"
    using assms(1) by auto
  have len: "length ds = length ps" using ds(2) by (metis length_map)
  have "\<forall>i \<in> set (map of_nat [0..<length ps] :: u16 list). unat i < length ds"
    using assms(7,8) len by (auto simp: unat_of_nat)
  moreover have "hd (map of_nat [0..<length ps] :: u16 list) = 0" using assms(6) by (simp add: hd_map)
  ultimately have "device_reads (SIZE q) ds 0 = Some (map (dsc ds) (map of_nat [0..<length ps]))"
    using device_reads_chain [OF ds(3), of "SIZE q"] assms(6,7) by simp
  moreover have "list_all (\<lambda>b. fst (snd b) \<noteq> Both) ps"
    using assms(5) by (auto simp: list_all_iff buf_ok_def)
  ultimately show ?thesis
    using chain_visible [OF ds(3)] ds(1,4) assms(2-4) flag_simps(4)
    by (simp add: device_buffers_def get_lt)
qed

lemma publish_view:
  assumes "shape_ok q"
  obtains q' where "publish head q = Some q'" and "vq_inv q fl fs \<Longrightarrow> vq_inv q' fl fs"
    and "device_buffers q' i = device_buffers q i" and "same_rings q0 q \<Longrightarrow> head = token_of f \<Longrightarrow> added q0 f q'"
proof -
  let ?q = "q\<lparr>avail_idx := avail_idx q + 1,
    vq_avail := (vq_avail q)\<lparr>avail_ring_slots := (avail_ring_slots (vq_avail q))[unat (avail_idx q) mod SIZE q := head],
                             avail_ring_idx := avail_idx q + 1\<rparr>\<rparr>"
  have len: "length (avail_ring_slots (vq_avail q)) = SIZE q" "0 < SIZE q"
    using assms shape_size [OF assms] by (simp_all add: shape_ok_def)
  show thesis
  proof (rule that [OF publish_ok [OF assms]])
    show "vq_inv ?q fl fs" if "vq_inv q fl fs" using vq_inv_avail [OF that] len by simp
    show "device_buffers ?q i = device_buffers q i" by (simp add: device_buffers_def cong: if_cong option.case_cong)
    show "added q0 f ?q" if "same_rings q0 q" "head = token_of f"
      using that len by (simp add: added_def same_rings_def)
  qed
qed

lemma add_ok:
  assumes inv: "vq_inv q fl fs" and bs: "bs = input_output inputs outputs"
    and ok: "list_all buf_ok bs" and n: "bs \<noteq> []" and room: "\<not> no_room q (length bs)"
    and law: "hal_box_law hal"
  shows "\<exists>q' h' f fl'. add hal inputs outputs q h = Some (Inr (token_of f), q', h')
    \<and> vq_inv q' fl' (f # fs) \<and> bufs_of f = bs \<and> fl = ids f @ fl' \<and> added q f q'
    \<and> (\<exists>ps. map (\<lambda>(s, d, p). (s, d)) ps = bs \<and> device_buffers q' (token_of f) = Some (map visible ps))
    \<and> ((\<exists>i ptr ps p. f = Indirect i ptr ps p) \<longleftrightarrow> indirect q \<and> 1 < length bs)"
proof -
  have bl: "length inputs + length outputs = length bs" by (simp add: bs input_output_def)
  have ne: "\<not> (inputs = [] \<and> outputs = [])" using n by (auto simp: bs input_output_def)
  have run: "add hal inputs outputs q h = do {
      (head, q, h) \<leftarrow> (if indirect q \<and> 1 < length bs then add_indirect hal inputs outputs q h
                       else add_direct hal inputs outputs q h);
      q \<leftarrow> publish head q;
      Some (Inr head, q, h) }"
    using room unfolding add_def Let_def bl if_not_P [OF ne] no_room_def [symmetric] by simp
  have room': "length bs \<le> SIZE q" using room by (simp add: no_room_def)
  have sz: "SIZE q \<le> 2 ^ 15" using shape_size [OF vq_invD(1) [OF inv]] by simp
  show ?thesis
  proof (cases "indirect q \<and> 1 < length bs")
    case True
    have "fl \<noteq> []" using free_and_used [OF inv] room by (auto simp: no_room_def)
    then obtain x ys where fl: "fl = x # ys" by (cases fl) auto
    obtain q1 h' ptr ps p where A: "add_indirect hal inputs outputs q h = Some (x, q1, h')"
      "map (\<lambda>(s, d, p). (s, d)) ps = bs" "vq_inv q1 ys (Indirect x ptr ps p # fs)" "same_rings q q1"
      "dsc (vq_desc q1) x = dsc (desc_shadow q1) x" "length (vq_desc q1) = SIZE q"
      using add_indirect_inv [OF inv [unfolded fl] bs ok n room' law, of h] by metis
    have s1: "SIZE q1 = SIZE q" using A(4) by (simp add: same_rings_def)
    obtain q' where P: "publish x q1 = Some q'" "vq_inv q' ys (Indirect x ptr ps p # fs)"
      "device_buffers q' x = device_buffers q1 x" "added q (Indirect x ptr ps p) q'"
      using publish_view [OF vq_invD(1) [OF A(3)], of x ys "Indirect x ptr ps p # fs" x q "Indirect x ptr ps p"] A(3,4)
      by auto
    have x: "unat x < SIZE q1" using vq_invD(4) [OF A(3)] by auto
    have len: "length ps = length bs" using A(2) by auto
    have "device_buffers q1 x = Some (map visible ps)"
      using vq_invD(5) [OF A(3), of "Indirect x ptr ps p"] A(2,5,6) s1 sz room' n ok len x
      by (intro visible_indirect) auto
    then have "device_buffers q' x = Some (map visible ps)" using P(3) by simp
    with run True A(1,2) P fl show ?thesis
      by (intro exI [of _ q'] exI [of _ h'] exI [of _ "Indirect x ptr ps p"] exI [of _ ys]) auto
  next
    case False
    have "length bs \<le> length fl" using free_and_used [OF inv] room False by (auto simp: no_room_def)
    then obtain xs ys where fl: "fl = xs @ ys" "length xs = length bs"
      by (metis append_take_drop_id length_take min.absorb2)
    obtain ps h' where ps: "share_all hal (access_platform q) bs h = (ps, h')" by (rule prod.exhaust)
    have bufs: "map (\<lambda>(s, d, p). (s, d)) ps = bs" using share_all_bufs [of hal "access_platform q" bs h] ps by simp
    obtain q1 where A: "add_direct hal inputs outputs q h = Some (hd xs, q1, h')"
      "vq_inv q1 ys (Direct xs ps # fs)" "same_rings q q1" "flight_chain (vq_desc q1) xs ps"
      "length (vq_desc q1) = SIZE q"
      using add_direct_inv [OF inv [unfolded fl(1)] bs ok n fl(2) ps] by metis
    have s1: "SIZE q1 = SIZE q" using A(3) by (simp add: same_rings_def)
    obtain q' where P: "publish (hd xs) q1 = Some q'" "vq_inv q' ys (Direct xs ps # fs)"
      "device_buffers q' (hd xs) = device_buffers q1 (hd xs)" "added q (Direct xs ps) q'"
      using publish_view [OF vq_invD(1) [OF A(2)], of "hd xs" ys "Direct xs ps # fs" "hd xs" q "Direct xs ps"] A(2,3)
      by auto
    have "device_buffers q1 (hd xs) = Some (map visible ps)"
      using vq_invD(3,4) [OF A(2)] A(4,5) s1 room' fl(2) n ok bufs by (intro visible_direct) auto
    then have "device_buffers q' (hd xs) = Some (map visible ps)" using P(3) by simp
    with run False A(1) P fl(1) bufs show ?thesis
      by (intro exI [of _ q'] exI [of _ h'] exI [of _ "Direct xs ps"] exI [of _ ys]) auto
  qed
qed

end
