(* ===== verification/Virt_Queue_Pop.thy ===== *)
theory Virt_Queue_Pop
  imports Virt_Queue_Add
begin

text \<open>
  \<open>pop_used\<close> on every branch: it unshares each buffer once, with the address it was shared at, frees
  the descriptors of the chain, and keeps the invariant.
\<close>

section \<open>Recycling a direct chain\<close>

fun unshare_all :: "'h hal \<Rightarrow> bool \<Rightarrow> shared_buf list \<Rightarrow> 'h \<Rightarrow> 'h" where
  "unshare_all hal ap [] h = h"
| "unshare_all hal ap ((s, d, p) # bs) h = unshare_all hal ap bs (unshare hal p s d ap h)"

abbreviation "plain ps \<equiv> map (\<lambda>(s, d, p). (s, d)) ps"

lemma recycle_loop_ok:
  assumes "flight_chain (desc_shadow q) xs ps" and "distinct xs" and "\<forall>i \<in> set xs. unat i < SIZE q"
    and "length (vq_desc q) = SIZE q" and "list_all buf_ok (plain ps)"
  shows "\<exists>S T. recycle_loop hal fh (plain ps) (if xs = [] then None else Some (hd xs)) q h
        = Some (None, q\<lparr>num_used := num_used q - of_nat (length xs), desc_shadow := S, vq_desc := T\<rparr>,
                unshare_all hal (access_platform q) ps h)
      \<and> length S = SIZE q \<and> length T = SIZE q
      \<and> (\<forall>i. unat i < SIZE q \<longrightarrow> i \<notin> set xs \<longrightarrow> dsc S i = dsc (desc_shadow q) i)
      \<and> path S (if xs = [] then fh else hd xs) xs fh"
  using assms
proof (induction xs arbitrary: q ps h)
  case Nil
  then have "ps = []" by (cases ps) auto
  then show ?case
    using Nil by (intro exI [of _ "desc_shadow q"] exI [of _ "vq_desc q"]) simp
next
  case (Cons x xs)
  obtain s d p ps' where ps: "ps = (s, d, p) # ps'" using Cons.prems(1) by (cases ps) auto
  let ?S = "desc_shadow q"
  define e where "e = (if xs = [] then (unset_buf (dsc ?S x))\<lparr>nxt := fh\<rparr> else unset_buf (dsc ?S x))"
  let ?q = "q\<lparr>num_used := num_used q - 1, desc_shadow := ?S[unat x := e], vq_desc := (vq_desc q)[unat x := e]\<rparr>"
  have x: "unat x < SIZE q" "x \<notin> set xs" "slice_len s \<noteq> 0"
    using Cons.prems ps by (auto simp: buf_ok_def)
  have D: "desc_ok (dsc ?S x) (s, d, p) (xs \<noteq> [])" "xs \<noteq> [] \<longrightarrow> nxt (dsc ?S x) = hd xs" "flight_chain ?S xs ps'"
    using Cons.prems(1) ps by simp_all
  have nx: "next_desc (unset_buf (dsc ?S x)) = (if xs = [] then None else Some (hd xs))"
    using D flag_simps(1) [of "xs \<noteq> []" d] by (simp add: next_desc_def unset_buf_def desc_ok_def)
  have step: "recycle_loop hal fh (plain ps) (Some x) q h
      = recycle_loop hal fh (plain ps') (if xs = [] then None else Some (hd xs)) ?q
          (unshare hal p s d (access_platform q) h)"
    using x Cons.prems(4) nx D(1)
    by (cases "xs = []") (simp_all add: ps shadow_at_def set_shadow_def write_desc_def get_lt put_lt e_def
        desc_ok_def Let_def)
  have same: "dsc (?S[unat x := e]) i = dsc ?S i" if "i \<in> set xs" for i
    using that x Cons.prems(3) by (auto simp: dsc_update)
  have "flight_chain (desc_shadow ?q) xs ps'" using D(3) flight_chain_cong [OF same] by simp
  from Cons.IH [OF this, of "unshare hal p s d (access_platform q) h"] Cons.prems ps
  obtain S T where IH: "recycle_loop hal fh (plain ps') (if xs = [] then None else Some (hd xs)) ?q
        (unshare hal p s d (access_platform q) h)
      = Some (None, ?q\<lparr>num_used := num_used q - 1 - of_nat (length xs), desc_shadow := S, vq_desc := T\<rparr>,
              unshare_all hal (access_platform q) ps' (unshare hal p s d (access_platform q) h))"
    "length S = SIZE q" "length T = SIZE q"
    "\<forall>i. unat i < SIZE q \<longrightarrow> i \<notin> set xs \<longrightarrow> dsc S i = dsc (?S[unat x := e]) i"
    "path S (if xs = [] then fh else hd xs) xs fh"
    by auto
  have "dsc S x = e" using IH(4) x by (simp add: dsc_update)
  then have "nxt (dsc S x) = (if xs = [] then fh else hd xs)"
    using D(2) by (simp add: e_def unset_buf_def)
  with IH(5) have "path S x (x # xs) fh" by simp
  moreover have "\<forall>i. unat i < SIZE q \<longrightarrow> i \<notin> set (x # xs) \<longrightarrow> dsc S i = dsc ?S i"
    using IH(4) by (auto simp: dsc_update)
  ultimately show ?case
    using step IH(1-3) by (intro exI [of _ S] exI [of _ T]) (simp add: ps algebra_simps)
qed

section \<open>Removing a flight\<close>

lemma vq_inv_popI:
  assumes inv: "vq_inv q fl (fs1 @ f # fs2)" and shape: "shape_ok q'" "SIZE q' = SIZE q"
    and path: "path (desc_shadow q') (free_head q') (ids f @ fl) (of_nat (SIZE q))"
    and frame: "\<And>i. unat i < SIZE q \<Longrightarrow> i \<notin> set (ids f) \<Longrightarrow> dsc (desc_shadow q') i = dsc (desc_shadow q) i
      \<and> indirect_lists q' ! unat i = indirect_lists q ! unat i"
    and none: "\<And>i. i \<in> set (ids f) \<Longrightarrow> indirect_lists q' ! unat i = None"
    and nu: "num_used q' = num_used q - of_nat (length (ids f))"
  shows "vq_inv q' (ids f @ fl) (fs1 @ fs2)"
proof -
  note I = vq_invD [OF inv]
  have apart: "i \<notin> set (ids f)" "unat i < SIZE q" if "i \<in> set fl \<union> set (occupied fs1) \<union> set (occupied fs2)" for i
    using that I(3,4) by auto
  have old: "flight_ok (desc_shadow q') (indirect_lists q') g \<and> list_all buf_ok (bufs_of g)"
    if g: "g \<in> set (fs1 @ fs2)" for g
  proof (rule flight_frame [OF I(5) g])
    fix i assume "i \<in> set (occupied (fs1 @ fs2))"
    then show "dsc (desc_shadow q') i = dsc (desc_shadow q) i \<and> indirect_lists q' ! unat i = indirect_lists q ! unat i"
      using frame apart by simp
  qed (use g in auto)
  have "unat (num_used q) \<le> SIZE q" using free_and_used [OF inv] by simp
  then have "unat (num_used q - of_nat (length (ids f))) = unat (num_used q) - length (ids f)"
    using I(7) shape_size [OF I(1)] by (subst unat_sub) (simp_all add: unat_of_nat word_le_nat_alt)
  with I shape path old nu frame apart none show ?thesis
    by (auto simp: vq_inv_def Int_Un_distrib)
qed

fun unshare_flight :: "'h hal \<Rightarrow> bool \<Rightarrow> flight \<Rightarrow> 'h \<Rightarrow> 'h" where
  "unshare_flight hal ap (Direct xs ps) h = unshare_all hal ap ps h"
| "unshare_flight hal ap (Indirect i ptr ps p) h = drop_box hal ptr (unshare_all hal ap ps
     (unshare hal p \<lparr>slice_ptr = ptr, slice_len = list_bytes ps\<rparr> DriverToDevice ap h))"

lemma unshare_list_all:
  assumes "map addr ds = map (snd \<circ> snd) ps" and "list_all buf_ok (plain ps)"
  shows "unshare_list hal ap ds (plain ps) h = Some (unshare_all hal ap ps h)"
  using assms
proof (induction ps arbitrary: ds h)
  case (Cons b ps)
  obtain s d p where b: "b = (s, d, p)" by (rule prod_cases3)
  obtain e ds' where "ds = e # ds'" "addr e = p" using Cons.prems(1) by (cases ds) (auto simp: b)
  with Cons show ?case by (simp add: b buf_ok_def)
qed simp

lemma free_path_frame:
  assumes "vq_inv q fl fs"
    and "\<And>i. unat i < SIZE q \<Longrightarrow> i \<notin> set (occupied fs) \<Longrightarrow> dsc S i = dsc (desc_shadow q) i"
  shows "path S (free_head q) fl (of_nat (SIZE q))"
proof -
  have "dsc S i = dsc (desc_shadow q) i" if "i \<in> set fl" for i
    using assms(2) [of i] vq_invD(3,4) [OF assms(1)] that by auto
  then show ?thesis using path_cong [of fl S "desc_shadow q"] vq_invD(2) [OF assms(1)] by simp
qed

lemma recycle_direct_ok:
  assumes inv: "vq_inv q fl (fs1 @ Direct xs ps # fs2)"
    and bufs: "input_output inputs outputs = plain ps"
  shows "\<exists>q'. recycle_descriptors hal (hd xs) inputs outputs q h
      = Some (q', unshare_all hal (access_platform q) ps h)
    \<and> vq_inv q' (xs @ fl) (fs1 @ fs2) \<and> same_rings q q'"
proof -
  note I = vq_invD [OF inv]
  have f: "xs \<noteq> []" "flight_chain (desc_shadow q) xs ps" "\<And>i. i \<in> set xs \<Longrightarrow> indirect_lists q ! unat i = None"
    "list_all buf_ok (plain ps)"
    using I(5) [of "Direct xs ps"] by simp_all
  obtain x xs' where x: "xs = x # xs'" using f(1) by (cases xs) auto
  have lt: "\<forall>i \<in> set xs. unat i < SIZE q" using I(4) by auto
  let ?q = "q\<lparr>free_head := x\<rparr>"
  have "\<not> flag INDIRECT (flags (dsc (desc_shadow q) x))"
    using f(2) flag_simps(3) [of "xs' \<noteq> []"] by (cases ps) (auto simp: x desc_ok_def)
  moreover obtain S T where L: "recycle_loop hal (free_head q) (plain ps) (Some x) ?q h
        = Some (None, ?q\<lparr>num_used := num_used q - of_nat (length xs), desc_shadow := S, vq_desc := T\<rparr>,
                unshare_all hal (access_platform q) ps h)"
    "length S = SIZE q" "length T = SIZE q"
    "\<forall>i. unat i < SIZE q \<longrightarrow> i \<notin> set xs \<longrightarrow> dsc S i = dsc (desc_shadow q) i" "path S x xs (free_head q)"
    using recycle_loop_ok [of ?q xs ps hal "free_head q" h] f(2,4) lt I(1,3)
    by (auto simp: x shape_ok_def)
  let ?r = "?q\<lparr>num_used := num_used q - of_nat (length xs), desc_shadow := S, vq_desc := T\<rparr>"
  have run: "recycle_descriptors hal (hd xs) inputs outputs q h = Some (?r, unshare_all hal (access_platform q) ps h)"
    using calculation L(1) lt bufs by (simp add: recycle_descriptors_def shadow_at_def get_lt x)
  have "path S (free_head q) fl (of_nat (SIZE q))"
    by (rule free_path_frame [OF inv]) (use L(4) in simp)
  then have "path S x (xs @ fl) (of_nat (SIZE q))"
    using L(5) by (cases fl) auto
  then have "vq_inv ?r (ids (Direct xs ps) @ fl) (fs1 @ fs2)"
    using L(2-4) f(3) I(1) by (intro vq_inv_popI [OF inv]) (auto simp: shape_ok_def)
  with run L(2) show ?thesis by (intro exI [of _ ?r]) (simp add: same_rings_def)
qed

lemma recycle_indirect_ok:
  assumes inv: "vq_inv q fl (fs1 @ Indirect x ptr ps p # fs2)"
    and bufs: "input_output inputs outputs = plain ps"
  shows "\<exists>q'. recycle_descriptors hal x inputs outputs q h
      = Some (q', unshare_flight hal (access_platform q) (Indirect x ptr ps p) h)
    \<and> vq_inv q' (x # fl) (fs1 @ fs2) \<and> same_rings q q'"
proof -
  note I = vq_invD [OF inv]
  obtain ds where f: "addr (dsc (desc_shadow q) x) = p" "flags (dsc (desc_shadow q) x) = INDIRECT"
    "indirect_lists q ! unat x = Some (ptr, ds)" "map addr ds = map (snd \<circ> snd) ps" "list_all buf_ok (plain ps)"
    using I(5) [of "Indirect x ptr ps p"] by auto
  have len: "length ds = length ps" using f(4) by (metis length_map)
  have bl: "length inputs + length outputs = length ps"
    using arg_cong [OF bufs, of length] by (simp add: input_output_def)
  have x: "unat x < SIZE q" "unat x < length (indirect_lists q)" "x \<notin> set fl"
    using I(1,3,4) by (auto simp: shape_ok_def)
  let ?d = "(unset_buf (dsc (desc_shadow q) x))\<lparr>nxt := free_head q\<rparr>"
  let ?r = "q\<lparr>free_head := x, indirect_lists := (indirect_lists q)[unat x := None], num_used := num_used q - 1,
              desc_shadow := (desc_shadow q)[unat x := ?d]\<rparr>"
  have run: "recycle_descriptors hal x inputs outputs q h
      = Some (?r, unshare_flight hal (access_platform q) (Indirect x ptr ps p) h)"
    using f x len bl bufs flag_simps(4)
    by (simp add: recycle_descriptors_def recycle_indirect_def shadow_at_def set_shadow_def get_lt
        list_bytes_def Let_def unshare_list_all [OF f(4,5)])
  have "path ((desc_shadow q)[unat x := ?d]) (free_head q) fl (of_nat (SIZE q))"
    by (rule free_path_frame [OF inv]) (auto simp: dsc_update)
  then have "vq_inv ?r (ids (Indirect x ptr ps p) @ fl) (fs1 @ fs2)"
    using x I(1) by (intro vq_inv_popI [OF inv])
      (auto simp: shape_ok_def dsc_update nth_list_update word_unat_eq_iff)
  with run show ?thesis by (intro exI [of _ ?r]) (simp add: same_rings_def)
qed

end
