(* ===== verification/Virt_Queue_Spec.thy ===== *)
theory Virt_Queue_Spec
  imports Virt_Queue_Pop
begin

text \<open>
  The properties of the virtqueue: construction, adding and popping on every branch, the states
  reachable under any behaviour of the device, notification, and the blocking request.
\<close>

section \<open>Popping\<close>

lemma recycle_ok:
  assumes inv: "vq_inv q fl (fs1 @ f # fs2)" and bufs: "input_output inputs outputs = bufs_of f"
  shows "\<exists>q'. recycle_descriptors hal (token_of f) inputs outputs q h
      = Some (q', unshare_flight hal (access_platform q) f h)
    \<and> vq_inv q' (ids f @ fl) (fs1 @ fs2) \<and> same_rings q q'"
proof (cases f)
  case (Direct xs ps)
  with assms recycle_direct_ok [of q fl fs1 xs ps fs2 inputs outputs hal h] show ?thesis by simp
next
  case (Indirect x ptr ps p)
  with assms recycle_indirect_ok [of q fl fs1 x ptr ps p fs2 inputs outputs hal h] show ?thesis by simp
qed

lemma vq_inv_rings:
  assumes "vq_inv q fl fs" and "length (avail_ring_slots a) = SIZE q" "length (used_slots u) = SIZE q"
    "length D = SIZE q"
  shows "vq_inv (q\<lparr>vq_desc := D, vq_avail := a, vq_used := u\<rparr>) fl fs"
  using assms by (simp add: vq_inv_def shape_ok_def)

lemma used_slot_ok:
  assumes "shape_ok q"
  shows "used_slot q = Some (used_slots (vq_used q) ! (unat (last_used_idx q) mod SIZE q))"
  using assms slot_mod [OF assms, of "last_used_idx q"] shape_size [OF assms]
  by (simp add: used_slot_def get_lt shape_ok_def)

text \<open>The entry of the used ring the driver looks at next.\<close>

definition next_used :: "virt_queue \<Rightarrow> used_elem" where
  "next_used q = used_slots (vq_used q) ! (unat (last_used_idx q) mod SIZE q)"

lemma pop_used_success:
  assumes inv: "vq_inv q fl (fs1 @ f # fs2)" and bufs: "input_output inputs outputs = bufs_of f"
    and pop: "can_pop q" and tok: "ucast (used_id (next_used q)) = token_of f"
  shows "\<exists>q'. pop_used hal (token_of f) inputs outputs q h
      = Some (Inr (used_len (next_used q)), q', unshare_flight hal (access_platform q) f h)
    \<and> vq_inv q' (ids f @ fl) (fs1 @ fs2) \<and> last_used_idx q' = last_used_idx q + 1
    \<and> vq_used q' = vq_used q \<and> avail_idx q' = avail_idx q \<and> SIZE q' = SIZE q \<and> event_idx q' = event_idx q
    \<and> indirect q' = indirect q \<and> access_platform q' = access_platform q \<and> queue_idx q' = queue_idx q
    \<and> (event_idx q \<longrightarrow> used_event (vq_avail q') = last_used_idx q')"
proof -
  note shape = vq_invD(1) [OF inv]
  obtain q1 where R: "recycle_descriptors hal (token_of f) inputs outputs q h
      = Some (q1, unshare_flight hal (access_platform q) f h)"
    "vq_inv q1 (ids f @ fl) (fs1 @ fs2)" "same_rings q q1"
    using recycle_ok [OF inv bufs, of hal h] by metis
  let ?a = "if event_idx q1 then (vq_avail q1)\<lparr>used_event := last_used_idx q1 + 1\<rparr> else vq_avail q1"
  let ?q = "q1\<lparr>last_used_idx := last_used_idx q1 + 1, vq_avail := ?a\<rparr>"
  have run: "pop_used hal (token_of f) inputs outputs q h
      = Some (Inr (used_len (next_used q)), ?q, unshare_flight hal (access_platform q) f h)"
    using pop tok R(1) used_slot_ok [OF shape] by (simp add: pop_used_def next_used_def Let_def)
  have "vq_inv ?q (ids f @ fl) (fs1 @ fs2)" using R(2) by (simp add: vq_inv_def shape_ok_def)
  with run R(3) show ?thesis by (intro exI [of _ ?q]) (simp add: same_rings_def)
qed

section \<open>Construction\<close>

lemma allocate_layout:
  assumes n: "is_power_of_two n" and law: "hal_dma_law hal" "hal_dealloc_law hal"
  shows "\<exists>r h'. (if leg then allocate_legacy hal n ap h else allocate_flexible hal n ap h) = Some (r, h')
    \<and> (\<forall>e. r = Inl e \<longrightarrow> e = DmaError) \<and> (\<forall>L. r = Inr L \<longrightarrow> vaddrs_ok L)"
proof (cases leg)
  case True
  with legacy_ok [OF n law(1), of ap h] legacy_error [of hal n ap h] show ?thesis by auto
next
  case False
  with flexible_total [OF n law(2), of ap h] flexible_ok [OF n law(1), of ap h] show ?thesis by auto
qed

lemma fresh_available:
  "available_desc (fresh_queue L n idx ind ev ap) = n" "\<not> can_pop (fresh_queue L n idx ind ev ap)"
  "SIZE (fresh_queue L n idx ind ev ap) = n"
  by (simp_all add: available_desc_def can_pop_def fresh_queue_def initial_shadow_def)

lemma fresh_fields:
  "queue_idx (fresh_queue L n idx ind ev ap) = idx" "indirect (fresh_queue L n idx ind ev ap) = ind"
  "event_idx (fresh_queue L n idx ind ev ap) = ev" "access_platform (fresh_queue L n idx ind ev ap) = ap"
  by (simp_all add: fresh_queue_def)

lemma new_queue_run:
  assumes n: "n < 2 ^ 16" "is_power_of_two (of_nat n :: u16)" and law: "hal_dma_law hal" "hal_dealloc_law hal"
    and u: "queue_used tr idx t = (used, t1)" and m: "max_queue_size tr idx t1 = (m, t2)"
  shows "\<exists>r t' h'. new_queue hal tr n idx ind ev ap t h = Some (r, t', h')
    \<and> (if used then r = Inl AlreadyUsed else if m < of_nat n then r = Inl InvalidParam
       else r = Inl DmaError \<or> (\<exists>L. r = Inr (fresh_queue L n idx ind ev ap)))"
proof -
  obtain r h' where r: "(if requires_legacy_layout tr t2 then allocate_legacy hal (of_nat n) ap h
        else allocate_flexible hal (of_nat n) ap h) = Some (r, h')"
    "\<And>e. r = Inl e \<Longrightarrow> e = DmaError" "\<And>L. r = Inr L \<Longrightarrow> vaddrs_ok L"
    using allocate_layout [OF n(2) law, of "requires_legacy_layout tr t2" ap h] by metis
  have run: "new_queue hal tr n idx ind ev ap t h =
     (if used then Some (Inl AlreadyUsed, t1, h) else if m < of_nat n then Some (Inl InvalidParam, t2, h)
      else case r of Inl e \<Rightarrow> Some (Inl e, t2, h')
        | Inr L \<Rightarrow> Some (Inr (fresh_queue L n idx ind ev ap),
            queue_set tr idx (of_nat n) (descriptors_paddr L) (driver_area_paddr L) (device_area_paddr L) t2, h'))"
    using n r(1,3) u m
    by (cases r) (auto simp: new_queue_def init_queue_def fresh_queue_def Let_def vaddrs_ok_def)
  show ?thesis
    unfolding run using r(2) by (cases r) auto
qed

section \<open>Room\<close>

lemma no_room_available:
  assumes "vq_inv q fl fs" and "0 < n"
  shows "no_room q n \<longleftrightarrow> available_desc q < n"
  using assms free_and_used [OF assms(1)] by (auto simp: no_room_def available_desc_def)

lemma add_errors:
  "add hal [] [] q h = Some (Inl InvalidParam, q, h)"
  "input_output inputs outputs \<noteq> [] \<Longrightarrow> no_room q (length (input_output inputs outputs)) \<Longrightarrow>
     add hal inputs outputs q h = Some (Inl QueueFull, q, h)"
  by (auto simp: add_def no_room_def input_output_def Let_def)

section \<open>Properties\<close>


lemma bump_hal_laws: "hal_dealloc_law bump_hal" "hal_box_law bump_hal"
  by (simp_all add: hal_dealloc_law_def hal_box_law_def bump_hal_def)



text \<open>A queue of four descriptors, and buffers, for the witnesses.\<close>

definition sample_layout :: queue_layout where
  "sample_layout = Legacy \<lparr>dma_paddr = 0x1000, dma_vaddr = 0x1000, dma_pages = 2, dma_access_platform = False\<rparr> 64 4096"

definition sample_queue :: "bool \<Rightarrow> virt_queue" where
  "sample_queue ind = fresh_queue sample_layout 4 0 ind True False"

definition sample_slice :: "u64 \<Rightarrow> slice" where
  "sample_slice a = \<lparr>slice_ptr = a, slice_len = 512\<rparr>"

lemma sample_inv: "vq_inv (sample_queue ind) [0, 1, 2, 3] []"
  using fresh_inv [of 4 sample_layout 0 ind True False]
  by (simp add: sample_queue_def is_power_of_two_def upt_rec)


text \<open>
  C5. Popping: \<open>NotReady\<close> exactly when the device has returned nothing, \<open>WrongToken\<close> exactly when the
  next used entry is another token, both without touching the queue. Otherwise, for a request in
  flight and the buffers it was added with, the recycled descriptors are free again, in front of the
  free list, every buffer (and the indirect table) is unshared, the returned length is the device's,
  the used index advances by one and, with \<open>event_idx\<close>, asks for an interrupt at the next entry.
\<close>

theorem pop_used_correct:
  assumes inv: "vq_inv q fl (fs1 @ f # fs2)" and bufs: "input_output inputs outputs = bufs_of f"
  shows "if \<not> can_pop q then pop_used hal (token_of f) inputs outputs q h = Some (Inl NotReady, q, h)
    else if ucast (used_id (next_used q)) \<noteq> token_of f
    then pop_used hal (token_of f) inputs outputs q h = Some (Inl WrongToken, q, h)
    else \<exists>q'. pop_used hal (token_of f) inputs outputs q h
        = Some (Inr (used_len (next_used q)), q', unshare_flight hal (access_platform q) f h)
      \<and> vq_inv q' (ids f @ fl) (fs1 @ fs2) \<and> last_used_idx q' = last_used_idx q + 1
      \<and> (event_idx q \<longrightarrow> used_event (vq_avail q') = last_used_idx q')"
proof -
  have "used_slot q = Some (next_used q)"
    using used_slot_ok [OF vq_invD(1) [OF inv]] by (simp add: next_used_def)
  then show ?thesis
    using pop_used_success [OF inv bufs, of hal h] by (auto simp: pop_used_def)
qed

text \<open>A device that returns the oldest outstanding request, with length zero.\<close>

definition serve_one :: "virt_queue \<Rightarrow> virt_queue" where
  "serve_one q = (let u = vq_used q; i = unat (used_idx u) mod SIZE q in
     if used_idx u = avail_ring_idx (vq_avail q) then q
     else q\<lparr>vq_used := u\<lparr>used_idx := used_idx u + 1,
       used_slots := (used_slots u)[i := \<lparr>used_id = ucast (avail_ring_slots (vq_avail q) ! i), used_len = 0\<rparr>]\<rparr>\<rparr>)"

lemma ucast_u16_u32_u16: "ucast (ucast (x :: u16) :: u32) = x"
  by (rule bit_word_eqI) (simp add: bit_simps)

lemma vq_inv_device:
  assumes "vq_inv q fl fs" and "length (used_slots u) = SIZE q"
  shows "vq_inv (q\<lparr>vq_used := u\<rparr>) fl fs"
  using assms by (simp add: vq_inv_def shape_ok_def)

lemma serve_one_inv:
  assumes "vq_inv q fl fs"
  shows "vq_inv (serve_one q) fl fs"
  using assms vq_inv_device [OF assms] vq_invD(1) [OF assms] by (simp add: serve_one_def Let_def shape_ok_def)

lemma serve_added:
  assumes "added q f q'" and "used_idx (vq_used q) = avail_idx q" and "last_used_idx q = avail_idx q" and "shape_ok q'"
  shows "can_pop (serve_one q')" "next_used (serve_one q') = \<lparr>used_id = ucast (token_of f), used_len = 0\<rparr>"
    "serve_one (serve_one q') = serve_one q'" "access_platform (serve_one q') = access_platform q"
proof -
  have "unat (avail_idx q) mod SIZE q < length (used_slots (vq_used q'))"
  proof -
    have "SIZE q' = SIZE q" using assms(1) by (simp add: added_def)
    moreover have "0 < SIZE q'" "length (used_slots (vq_used q')) = SIZE q'"
      using shape_size [OF assms(4)] assms(4) by (simp_all add: shape_ok_def)
    ultimately show ?thesis using mod_less_divisor [of "SIZE q"] by simp
  qed
  with assms show "can_pop (serve_one q')" "access_platform (serve_one q') = access_platform q"
    "next_used (serve_one q') = \<lparr>used_id = ucast (token_of f), used_len = 0\<rparr>"
    "serve_one (serve_one q') = serve_one q'"
    by (simp_all add: added_def serve_one_def can_pop_def next_used_def Let_def)
qed

lemma sample_add:
  obtains q f h fl where "add bump_hal [sample_slice 0x1000] [sample_slice 0x2000] (sample_queue True) 0 = Some (Inr (token_of f), q, h)"
    and "vq_inv q fl [f]" and "added (sample_queue True) f q"
    and "bufs_of f = input_output [sample_slice 0x1000] [sample_slice 0x2000]"
proof -
  have "list_all buf_ok (input_output [sample_slice 0x1000] [sample_slice 0x2000])"
    "\<not> no_room (sample_queue True) (length (input_output [sample_slice 0x1000] [sample_slice 0x2000]))"
    by (simp_all add: input_output_def buf_ok_def sample_slice_def no_room_def sample_queue_def
        fresh_queue_def initial_shadow_def)
  with add_ok [OF sample_inv [of True] refl, of "[sample_slice 0x1000]" "[sample_slice 0x2000]" bump_hal 0] that bump_hal_laws
  show thesis by (auto simp: input_output_def)
qed

lemma sample_idle: "used_idx (vq_used (sample_queue ind)) = avail_idx (sample_queue ind)"
  "last_used_idx (sample_queue ind) = avail_idx (sample_queue ind)"
  by (simp_all add: sample_queue_def fresh_queue_def)

theorem pop_used_correct_witness:
  "\<exists>q f q' h'. pop_used bump_hal (token_of f) [sample_slice 0x1000] [sample_slice 0x2000] q 0 = Some (Inr 0, q', h')
    \<and> can_pop q \<and> (\<exists>fl. vq_inv q' (ids f @ fl) [])"
proof -
  obtain q f h fl where A: "vq_inv q fl [f]" "added (sample_queue True) f q"
    "bufs_of f = input_output [sample_slice 0x1000] [sample_slice 0x2000]"
    by (rule sample_add)
  note S = serve_added [OF A(2) sample_idle vq_invD(1) [OF A(1)]]
  show ?thesis
    using pop_used_correct [of "serve_one q" fl "[]" f "[]" "[sample_slice 0x1000]" "[sample_slice 0x2000]" bump_hal 0]
      serve_one_inv [OF A(1)] A(3) S
    by (auto simp: ucast_u16_u32_u16)
qed

section \<open>Every state a device can drive the queue to\<close>

text \<open>
  The steps of a queue. Next to the queue stands what the driver has outstanding: the tokens, each
  with the buffers of its request. The driver pops a token with the buffers it added. The device may
  write anything into the shared memory at any moment: the descriptor table and both rings.
\<close>

inductive queue_step :: "'h hal \<Rightarrow> virt_queue \<times> (u16 \<times> (slice \<times> buffer_direction) list) list
    \<Rightarrow> virt_queue \<times> (u16 \<times> (slice \<times> buffer_direction) list) list \<Rightarrow> bool" for hal where
  step_add: "list_all buf_ok (input_output ins outs) \<Longrightarrow> add hal ins outs q h = Some (Inr tok, q', h') \<Longrightarrow>
    queue_step hal (q, out) (q', (tok, input_output ins outs) # out)"
| step_add_error: "add hal ins outs q h = Some (Inl e, q', h') \<Longrightarrow> list_all buf_ok (input_output ins outs) \<Longrightarrow>
    queue_step hal (q, out) (q', out)"
| step_pop: "pop_used hal tok ins outs q h = Some (Inr n, q', h') \<Longrightarrow>
    queue_step hal (q, out1 @ (tok, input_output ins outs) # out2) (q', out1 @ out2)"
| step_pop_error: "pop_used hal tok ins outs q h = Some (Inl e, q', h') \<Longrightarrow>
    (tok, input_output ins outs) \<in> set out \<Longrightarrow> queue_step hal (q, out) (q', out)"
| step_notify: "queue_step hal (q, out) (set_dev_notify enable q, out)"
| step_device: "length D = SIZE q \<Longrightarrow> length (avail_ring_slots a) = SIZE q \<Longrightarrow> length (used_slots u) = SIZE q \<Longrightarrow>
    queue_step hal (q, out) (q\<lparr>vq_desc := D, vq_avail := a, vq_used := u\<rparr>, out)"

inductive_cases queue_stepE: "queue_step hal (q, out) (q', out')"

definition outstanding :: "virt_queue \<Rightarrow> (u16 \<times> (slice \<times> buffer_direction) list) list \<Rightarrow> bool" where
  "outstanding q out \<longleftrightarrow> (\<exists>fl fs. vq_inv q fl fs \<and> out = map (\<lambda>f. (token_of f, bufs_of f)) fs)"

lemma outstanding_split:
  assumes "outstanding q out" and "(tok, bs) \<in> set out"
  obtains fl fs1 f fs2 where "vq_inv q fl (fs1 @ f # fs2)" and "tok = token_of f" and "bs = bufs_of f"
  using assms by (force simp: outstanding_def dest: split_list)

lemma outstanding_add:
  assumes out: "outstanding q out" and law: "hal_box_law hal" and ok: "list_all buf_ok (input_output ins outs)"
    and run: "add hal ins outs q h = Some (r, q', h')"
  shows "case r of Inl e \<Rightarrow> q' = q | Inr tok \<Rightarrow> outstanding q' ((tok, input_output ins outs) # out)"
proof -
  obtain fl fs where I: "vq_inv q fl fs" "out = map (\<lambda>f. (token_of f, bufs_of f)) fs"
    using out by (auto simp: outstanding_def)
  let ?bs = "input_output ins outs"
  consider "ins = [] \<and> outs = []" | "?bs \<noteq> []" "no_room q (length ?bs)" | "?bs \<noteq> []" "\<not> no_room q (length ?bs)"
    by (auto simp: input_output_def)
  then show ?thesis
  proof cases
    case 1 then show ?thesis using run by (auto simp: add_errors)
  next
    case 2 then show ?thesis using run by (auto simp: add_errors)
  next
    case 3
    from add_ok [OF I(1) refl ok 3 law, of h] obtain q1 h1 f fl' where
      "add hal ins outs q h = Some (Inr (token_of f), q1, h1)" "vq_inv q1 fl' (f # fs)" "bufs_of f = ?bs" by blast
    with run I(2) show ?thesis by (auto simp: outstanding_def intro!: exI [of _ fl'] exI [of _ "f # fs"])
  qed
qed

lemma outstanding_pop:
  assumes out: "outstanding q (out1 @ (tok, input_output ins outs) # out2)"
    and run: "pop_used hal tok ins outs q h = Some (Inr n, q', h')"
  shows "outstanding q' (out1 @ out2)"
proof -
  obtain fl fs1 f fs2 where I: "vq_inv q fl (fs1 @ f # fs2)" "tok = token_of f" "input_output ins outs = bufs_of f"
    "out1 = map (\<lambda>f. (token_of f, bufs_of f)) fs1" "out2 = map (\<lambda>f. (token_of f, bufs_of f)) fs2"
    using out by (auto simp: outstanding_def append_eq_map_conv Cons_eq_map_conv)
  have "used_slot q = Some (next_used q)"
    using used_slot_ok [OF vq_invD(1) [OF I(1)]] by (simp add: next_used_def)
  then have "can_pop q" "ucast (used_id (next_used q)) = token_of f"
    using run I(2) by (auto simp: pop_used_def split: if_splits)
  from pop_used_success [OF I(1,3) this, of hal h] run I show ?thesis
    by (auto simp: outstanding_def intro!: exI [of _ "ids f @ fl"] exI [of _ "fs1 @ fs2"])
qed

lemma pop_error_same:
  assumes "pop_used hal tok ins outs q h = Some (Inl e, q', h')"
  shows "q' = q"
  using assms by (auto simp: pop_used_def bind_eq_Some_conv Let_def split: if_splits prod.splits)

lemma queue_step_outstanding:
  assumes "queue_step hal s s'" and "outstanding (fst s) (snd s)" and "hal_box_law hal"
  shows "outstanding (fst s') (snd s')"
  using assms
proof (induction rule: queue_step.induct)
  case (step_add ins outs q h tok q' h' out)
  then show ?case using outstanding_add [of q out hal ins outs h "Inr tok"] by simp
next
  case (step_add_error ins outs q h e q' h' out)
  then show ?case using outstanding_add [of q out hal ins outs h "Inl e"] by simp
next
  case (step_pop tok ins outs q h n q' h' out1 out2)
  then show ?case using outstanding_pop [of q out1 tok ins outs out2] by simp
next
  case (step_pop_error tok ins outs q h e q' h' out)
  then show ?case using pop_error_same by fastforce
next
  case (step_notify q out enable)
  then show ?case by (auto simp: outstanding_def set_dev_notify_def Let_def vq_inv_def shape_ok_def)
next
  case (step_device D q a u out)
  then show ?case using vq_inv_rings by (fastforce simp: outstanding_def)
qed

lemma steps_outstanding:
  assumes "(queue_step hal)\<^sup>*\<^sup>* s s'" and "outstanding (fst s) (snd s)" and "hal_box_law hal"
  shows "outstanding (fst s') (snd s')"
  using assms by (induction rule: rtranclp_induct) (auto intro: queue_step_outstanding)

lemma distinct_concat_heads:
  assumes "distinct (concat (map ids fs))" and "\<forall>f \<in> set fs. token_of f \<in> set (ids f)"
  shows "distinct (map token_of fs)"
  using assms by (induction fs) (auto simp: disjoint_iff)

lemma token_in_ids: "flight_ok S Ls f \<Longrightarrow> token_of f \<in> set (ids f)"
  by (cases f) auto

lemma outstanding_tokens:
  assumes "outstanding q out"
  shows "distinct (map fst out)"
proof -
  obtain fl fs where I: "vq_inv q fl fs" "out = map (\<lambda>f. (token_of f, bufs_of f)) fs"
    using assms by (auto simp: outstanding_def)
  have "distinct (map token_of fs)"
    using vq_invD(3,5) [OF I(1)] token_in_ids by (intro distinct_concat_heads) (auto simp: occupied_def)
  then show ?thesis by (simp add: I(2) o_def)
qed

lemma outstanding_add_total:
  assumes "outstanding q out" and "hal_box_law hal" and "list_all buf_ok (input_output ins outs)"
  shows "add hal ins outs q h \<noteq> None"
proof -
  obtain fl fs where I: "vq_inv q fl fs" using assms(1) by (auto simp: outstanding_def)
  let ?bs = "input_output ins outs"
  consider "ins = [] \<and> outs = []" | "?bs \<noteq> []" "no_room q (length ?bs)" | "?bs \<noteq> []" "\<not> no_room q (length ?bs)"
    by (auto simp: input_output_def)
  then show ?thesis
    using add_ok [OF I(1) refl assms(3) _ _ assms(2), of h] by cases (auto simp: add_errors)
qed

lemma outstanding_pop_total:
  assumes "outstanding q out" and "(tok, input_output ins outs) \<in> set out"
  shows "pop_used hal tok ins outs q h \<noteq> None"
proof -
  obtain fl fs1 f fs2 where I: "vq_inv q fl (fs1 @ f # fs2)" "tok = token_of f" "input_output ins outs = bufs_of f"
    by (rule outstanding_split [OF assms])
  have "used_slot q = Some (next_used q)"
    using used_slot_ok [OF vq_invD(1) [OF I(1)]] by (simp add: next_used_def)
  with pop_used_success [OF I(1,3), of hal h] I(2) show ?thesis by (auto simp: pop_used_def)
qed

text \<open>
  C3. Whatever the device writes into the shared memory, at whatever moment: from a new queue, after
  any sequence of operations, the outstanding tokens are distinct, no further \<open>add\<close> of non-empty
  buffers and no \<open>pop_used\<close> of an outstanding request panics, and once nothing is outstanding every
  descriptor is available again.
\<close>

theorem queue_safe_against_device:
  assumes law: "hal_box_law hal" and n: "n < 2 ^ 16" "is_power_of_two (of_nat n :: u16)"
    and steps: "(queue_step hal)\<^sup>*\<^sup>* (fresh_queue L n idx ind ev ap, []) (q, out)"
  shows "distinct (map fst out)
    \<and> (\<forall>ins outs h. list_all buf_ok (input_output ins outs) \<longrightarrow> add hal ins outs q h \<noteq> None)
    \<and> (\<forall>tok ins outs h. (tok, input_output ins outs) \<in> set out \<longrightarrow> pop_used hal tok ins outs q h \<noteq> None)
    \<and> (out = [] \<longrightarrow> available_desc q = SIZE q)"
proof -
  have "outstanding (fresh_queue L n idx ind ev ap) []"
    using fresh_inv [OF n(2,1)] by (simp add: outstanding_def) blast
  with steps_outstanding [OF steps] law have out: "outstanding q out" by simp
  have "available_desc q = SIZE q" if "out = []"
  proof -
    obtain fl where I: "vq_inv q fl []" using out \<open>out = []\<close> by (auto simp: outstanding_def)
    then have "unat (num_used q) = 0" using vq_invD(7) [OF I] by (simp add: occupied_def)
    with shape_size [OF vq_invD(1) [OF I]] show ?thesis by (simp add: available_desc_def)
  qed
  with outstanding_tokens [OF out] outstanding_add_total [OF out law] outstanding_pop_total [OF out, of _ _ _ hal]
  show ?thesis by blast
qed

theorem queue_safe_against_device_witness:
  "\<exists>q tok bs. (queue_step bump_hal)\<^sup>*\<^sup>* (sample_queue True, []) (q, [(tok, bs)])
    \<and> (\<forall>ins outs h. list_all buf_ok (input_output ins outs) \<longrightarrow> add bump_hal ins outs q h \<noteq> None)"
proof -
  obtain q f h fl where A: "add bump_hal [sample_slice 0x1000] [sample_slice 0x2000] (sample_queue True) 0 = Some (Inr (token_of f), q, h)"
    "bufs_of f = input_output [sample_slice 0x1000] [sample_slice 0x2000]"
    by (rule sample_add)
  have "queue_step bump_hal (sample_queue True, [])
      (q, [(token_of f, input_output [sample_slice 0x1000] [sample_slice 0x2000])])"
    using A(1) by (intro step_add) (simp_all add: input_output_def buf_ok_def sample_slice_def)
  then have S: "(queue_step bump_hal)\<^sup>*\<^sup>* (sample_queue True, [])
      (q, [(token_of f, input_output [sample_slice 0x1000] [sample_slice 0x2000])])" by blast
  with queue_safe_against_device [OF bump_hal_laws(2) _ _ S [unfolded sample_queue_def]]
  show ?thesis by (auto simp: is_power_of_two_def)
qed

section \<open>Notification\<close>

text \<open>
  The rule of the virtio specification: having moved the available index from \<open>old\<close> to \<open>new\<close>, the
  driver notifies the device when the index passed the event index.
\<close>

definition need_event :: "u16 \<Rightarrow> u16 \<Rightarrow> u16 \<Rightarrow> bool" where
  "need_event event new old \<longleftrightarrow> new - event - 1 < new - old"

text \<open>
  C8. A driver that asks \<open>should_notify\<close> after each \<open>add\<close> never loses a notification the
  specification requires: by flag without \<open>event_idx\<close>, by event index with it.
\<close>

theorem should_notify_after_add:
  assumes "added q f q'"
  shows "(\<not> event_idx q \<longrightarrow> should_notify q' = (\<not> bit (used_flags (vq_used q')) 0))
    \<and> (event_idx q \<longrightarrow> need_event (avail_event (vq_used q')) (avail_idx q') (avail_idx q) \<longrightarrow> should_notify q')"
proof -
  have "used_flags (vq_used q') AND 1 = 0 \<longleftrightarrow> \<not> bit (used_flags (vq_used q')) 0"
    by (simp add: and_one_eq bit_0 even_iff_mod_2_eq_zero)
  moreover have "avail_idx q' = avail_event (vq_used q') + 1"
    if "need_event (avail_event (vq_used q')) (avail_idx q') (avail_idx q)"
  proof -
    have "avail_idx q' - avail_event (vq_used q') - 1 = 0"
      using that assms by (simp add: need_event_def added_def word_less_1)
    then show ?thesis by (simp add: diff_eq_eq add.commute)
  qed
  ultimately show ?thesis using assms by (auto simp: should_notify_def added_def)
qed

theorem should_notify_after_add_witness:
  "\<exists>q f. added (sample_queue True) f q \<and> should_notify q"
proof -
  obtain q f h fl where A: "vq_inv q fl [f]" "added (sample_queue True) f q" by (rule sample_add)
  have "event_idx (sample_queue True)" "need_event (avail_event (vq_used q)) (avail_idx q) (avail_idx (sample_queue True))"
    using A(2) by (simp_all add: added_def need_event_def sample_queue_def fresh_queue_def)
  with should_notify_after_add [OF A(2)] A(2) show ?thesis by blast
qed

text \<open>
  Asked once for a batch of requests that crosses the wrap of the 16-bit available index,
  \<open>should_notify\<close> can miss the notification the specification requires: the comparison
  \<open>avail_idx >= avail_event + 1\<close> is not modulo 2^16.
\<close>

theorem should_notify_misses_wrap:
  assumes "event_idx q" and "avail_idx q = 1" and "avail_event (vq_used q) = 0xFFFD"
  shows "need_event (avail_event (vq_used q)) (avail_idx q) 0xFFFC \<and> \<not> should_notify q"
  using assms by (simp add: need_event_def should_notify_def word_le_nat_alt)

theorem should_notify_misses_wrap_witness:
  "\<exists>q. need_event (avail_event (vq_used q)) (avail_idx q) 0xFFFC \<and> \<not> should_notify q"
  by (rule exI [of _ "(sample_queue True)\<lparr>avail_idx := 1,
      vq_used := (vq_used (sample_queue True))\<lparr>avail_event := 0xFFFD\<rparr>\<rparr>"],
      rule should_notify_misses_wrap) (simp_all add: sample_queue_def fresh_queue_def)

section \<open>The blocking request\<close>

lemma wait_can_pop_returns:
  assumes "can_pop ((device ^^ n) q)"
  shows "\<exists>m. wait_can_pop device q = Some ((device ^^ m) q) \<and> can_pop ((device ^^ m) q)"
  using assms
proof (induction n arbitrary: q)
  case 0
  then show ?case by (intro exI [of _ 0]) (simp add: wait_can_pop.simps)
next
  case (Suc n)
  show ?case
  proof (cases "can_pop q")
    case True
    then show ?thesis by (intro exI [of _ 0]) (simp add: wait_can_pop.simps)
  next
    case False
    have "can_pop ((device ^^ n) (device q))" using Suc.prems by (simp add: funpow_swap1)
    from Suc.IH [OF this] obtain m where
      "wait_can_pop device (device q) = Some ((device ^^ m) (device q))" "can_pop ((device ^^ m) (device q))" by metis
    then show ?thesis
      using False by (intro exI [of _ "Suc m"]) (simp add: wait_can_pop.simps funpow_swap1)
  qed
qed

text \<open>
  What the driver relies on of the device: it only writes the used ring, and from \<open>q\<close> it returns
  some request after finitely many steps, the request \<open>tok\<close> first.
\<close>

definition writes_used_only :: "(virt_queue \<Rightarrow> virt_queue) \<Rightarrow> bool" where
  "writes_used_only device \<longleftrightarrow>
     (\<forall>q. \<exists>u. device q = q\<lparr>vq_used := u\<rparr> \<and> length (used_slots u) = length (used_slots (vq_used q)))"

definition serves :: "(virt_queue \<Rightarrow> virt_queue) \<Rightarrow> virt_queue \<Rightarrow> u16 \<Rightarrow> bool" where
  "serves device q tok \<longleftrightarrow> (\<exists>n. can_pop ((device ^^ n) q))
     \<and> (\<forall>n. can_pop ((device ^^ n) q) \<longrightarrow> ucast (used_id (next_used ((device ^^ n) q))) = tok)"

lemma device_run:
  assumes "writes_used_only device" and "vq_inv q fl fs"
  shows "\<exists>u. (device ^^ n) q = q\<lparr>vq_used := u\<rparr> \<and> length (used_slots u) = SIZE q"
proof (induction n)
  case 0
  then show ?case using vq_invD(1) [OF assms(2)] by (intro exI [of _ "vq_used q"]) (simp add: shape_ok_def)
next
  case (Suc n)
  then obtain u where u: "(device ^^ n) q = q\<lparr>vq_used := u\<rparr>" "length (used_slots u) = SIZE q" by metis
  obtain v where v: "device (q\<lparr>vq_used := u\<rparr>) = q\<lparr>vq_used := u\<rparr>\<lparr>vq_used := v\<rparr>"
    "length (used_slots v) = length (used_slots u)"
    using assms(1) [unfolded writes_used_only_def, THEN spec, of "q\<lparr>vq_used := u\<rparr>"] by auto
  with u show ?case by (intro exI [of _ v]) simp
qed

lemma add_notify_wait_pop_ok:
  assumes inv: "vq_inv q fl fs" and ok: "list_all buf_ok (input_output inputs outputs)"
    and n: "input_output inputs outputs \<noteq> []" "length (input_output inputs outputs) \<le> available_desc q"
    and law: "hal_box_law hal" and dev: "writes_used_only device"
    and serves: "\<And>f q'. added q f q' \<Longrightarrow> shape_ok q' \<Longrightarrow> serves device q' (token_of f)"
  shows "\<exists>len q1 q2 h'. add_notify_wait_pop hal tr device inputs outputs q t h
      = Some (Inr len, q2, if should_notify q1 then notify tr (queue_idx q) t else t, h')
    \<and> vq_inv q2 fl fs \<and> last_used_idx q2 = last_used_idx q + 1 \<and> avail_idx q2 = avail_idx q + 1
    \<and> (\<exists>f. added q f q1)"
proof -
  have room: "\<not> no_room q (length (input_output inputs outputs))"
    using no_room_available [OF inv] n by auto
  from add_ok [OF inv refl ok n(1) room law, of h] obtain q1 h1 f fl' where A:
    "add hal inputs outputs q h = Some (Inr (token_of f), q1, h1)" "vq_inv q1 fl' (f # fs)"
    "bufs_of f = input_output inputs outputs" "fl = ids f @ fl'" "added q f q1" by blast
  have B: "queue_idx q1 = queue_idx q" "last_used_idx q1 = last_used_idx q" "avail_idx q1 = avail_idx q + 1"
    using A(5) by (simp_all add: added_def)
  obtain m where W: "wait_can_pop device q1 = Some ((device ^^ m) q1)" "can_pop ((device ^^ m) q1)"
    "ucast (used_id (next_used ((device ^^ m) q1))) = token_of f"
    using serves [OF A(5) vq_invD(1) [OF A(2)]] wait_can_pop_returns [of _ device q1] by (auto simp: serves_def)
  obtain u where u: "(device ^^ m) q1 = q1\<lparr>vq_used := u\<rparr>" "length (used_slots u) = SIZE q1"
    using device_run [OF dev A(2)] by metis
  have "vq_inv (q1\<lparr>vq_used := u\<rparr>) fl' ([] @ f # fs)" using vq_inv_device [OF A(2) u(2)] by simp
  from pop_used_success [OF this, of inputs outputs hal h1] obtain q2 where P:
    "pop_used hal (token_of f) inputs outputs (q1\<lparr>vq_used := u\<rparr>) h1
      = Some (Inr (used_len (next_used (q1\<lparr>vq_used := u\<rparr>))), q2, unshare_flight hal (access_platform q1) f h1)"
    "vq_inv q2 (ids f @ fl') fs" "last_used_idx q2 = last_used_idx q1 + 1" "avail_idx q2 = avail_idx q1"
    using W(2,3) A(3) by (auto simp: u(1))
  then have "add_notify_wait_pop hal tr device inputs outputs q t h
      = Some (Inr (used_len (next_used (q1\<lparr>vq_used := u\<rparr>))), q2,
          if should_notify q1 then notify tr (queue_idx q) t else t, unshare_flight hal (access_platform q1) f h1)"
    using A(1) W(1) u(1) B(1) by (simp add: add_notify_wait_pop_def Let_def)
  with P A(4,5) B show ?thesis by (simp only:) blast
qed


lemma serve_one_writes: "writes_used_only serve_one"
proof (unfold writes_used_only_def, intro allI)
  fix q :: virt_queue
  show "\<exists>u. serve_one q = q\<lparr>vq_used := u\<rparr> \<and> length (used_slots u) = length (used_slots (vq_used q))"
    by (cases "used_idx (vq_used q) = avail_ring_idx (vq_avail q)")
      (auto simp: serve_one_def Let_def intro: exI [of _ "vq_used q"])
qed

lemma serve_one_iter:
  assumes "serve_one (serve_one q) = serve_one q"
  shows "(serve_one ^^ Suc n) q = serve_one q"
  using assms by (induction n) simp_all

lemma serve_one_serves:
  assumes "added (sample_queue True) f q" and "shape_ok q"
  shows "serves serve_one q (token_of f)"
proof -
  note S = serve_added [OF assms(1) sample_idle assms(2)]
  have "\<not> can_pop q" using assms(1) by (simp add: added_def can_pop_def sample_queue_def fresh_queue_def)
  then have "ucast (used_id (next_used ((serve_one ^^ n) q))) = token_of f" if "can_pop ((serve_one ^^ n) q)" for n
    using that S serve_one_iter [OF S(3), of "n - 1"] by (cases n) (auto simp: ucast_u16_u32_u16)
  moreover have "can_pop ((serve_one ^^ 1) q)" using S(1) by simp
  ultimately show ?thesis unfolding serves_def by blast
qed


end
