(* ===== verification/Owning_Queue.thy ===== *)
theory Owning_Queue
  imports Virt_Queue_Spec
begin

text \<open>
  The queue that owns its buffers (\<open>src/virtio-drivers/src/queue/owning.rs\<close>), used by drivers for the
  queues on which the device sends unasked. \<open>bsz\<close> is the constant \<open>BUFFER_SIZE\<close>.
\<close>

section \<open>Definitions\<close>

record owning_queue =
  queue :: virt_queue
  buffers :: "u64 list"

text \<open>Dropping a \<open>VirtQueue\<close> drops the DMA regions of its layout.\<close>

fun queue_layout_drop :: "'h hal \<Rightarrow> queue_layout \<Rightarrow> 'h \<Rightarrow> 'h option" where
  "queue_layout_drop hal (Legacy d _ _) h = dma_drop hal d h"
| "queue_layout_drop hal (Modern d1 d2 _) h = do { h \<leftarrow> dma_drop hal d1 h; dma_drop hal d2 h }"

text \<open>The loop of \<open>OwningQueue::new\<close>; \<open>is\<close> are the indices still to do.\<close>

fun owning_fill :: "'h hal \<Rightarrow> u64 \<Rightarrow> nat list \<Rightarrow> u64 list \<Rightarrow> virt_queue \<Rightarrow> 'h
    \<Rightarrow> ((virt_queue \<times> u64 list) result \<times> 'h) option" where
  "owning_fill hal bsz [] bufs q h = Some (Inr (q, bufs), h)"
| "owning_fill hal bsz (i # is) bufs q h = do {
     let (b, h) = new_box hal bsz h;
     buffer \<leftarrow> b;
     (r, q, h) \<leftarrow> add hal [] [\<lparr>slice_ptr = buffer, slice_len = bsz\<rparr>] q h;
     (case r of
        Inl e \<Rightarrow> do {
          let h = drop_box hal buffer h;
          h \<leftarrow> queue_layout_drop hal (layout q) h;
          Some (Inl e, h)
        }
      | Inr token \<Rightarrow> do {
          assert (i = unat token);
          owning_fill hal bsz is (bufs @ [buffer]) q h
        })
   }"

definition owning_new :: "'h hal \<Rightarrow> u64 \<Rightarrow> virt_queue \<Rightarrow> 'h \<Rightarrow> (owning_queue result \<times> 'h) option" where
  "owning_new hal bsz q h = do {
     (r, h) \<leftarrow> owning_fill hal bsz [0..<SIZE q] [] q h;
     (case r of
        Inl e \<Rightarrow> Some (Inl e, h)
      | Inr (q, bufs) \<Rightarrow> do {
          assert (list_all (\<lambda>p. p \<noteq> 0) bufs);
          Some (Inr \<lparr>queue = q, buffers = bufs\<rparr>, h)
        })
   }"

definition owning_should_notify :: "owning_queue \<Rightarrow> bool" where
  "owning_should_notify oq = should_notify (queue oq)"

definition owning_set_dev_notify :: "bool \<Rightarrow> owning_queue \<Rightarrow> owning_queue" where
  "owning_set_dev_notify enable oq = oq\<lparr>queue := set_dev_notify enable (queue oq)\<rparr>"

definition add_buffer_to_queue :: "'h hal \<Rightarrow> 't transport \<Rightarrow> u64 \<Rightarrow> u16 \<Rightarrow> owning_queue \<Rightarrow> 't \<Rightarrow> 'h
    \<Rightarrow> (unit result \<times> owning_queue \<times> 't \<times> 'h) option" where
  "add_buffer_to_queue hal tr bsz index oq t h =
     (if length (buffers oq) \<le> unat index then Some (Inl WrongToken, oq, t, h)
      else do {
        let buffer = \<lparr>slice_ptr = buffers oq ! unat index, slice_len = bsz\<rparr>;
        (r, q, h) \<leftarrow> add hal [] [buffer] (queue oq) h;
        let oq = oq\<lparr>queue := q\<rparr>;
        (case r of
           Inl e \<Rightarrow> Some (Inl e, oq, t, h)
         | Inr new_token \<Rightarrow> do {
             assert (new_token = index);
             let t = (if should_notify (queue oq) then notify tr (queue_idx (queue oq)) t else t);
             Some (Inr (), oq, t, h)
           })
      })"

definition owning_pop :: "'h hal \<Rightarrow> u64 \<Rightarrow> owning_queue \<Rightarrow> 'h
    \<Rightarrow> ((slice \<times> u16) option result \<times> owning_queue \<times> 'h) option" where
  "owning_pop hal bsz oq h = do {
     peek \<leftarrow> peek_used (queue oq);
     (case peek of
        None \<Rightarrow> Some (Inr None, oq, h)
      | Some token \<Rightarrow>
          if length (buffers oq) \<le> unat token then Some (Inl WrongToken, oq, h)
          else do {
            let buffer = buffers oq ! unat token;
            (r, q, h) \<leftarrow> pop_used hal token [] [\<lparr>slice_ptr = buffer, slice_len = bsz\<rparr>] (queue oq) h;
            let oq = oq\<lparr>queue := q\<rparr>;
            (case r of
               Inl e \<Rightarrow> Some (Inl e, oq, h)
             | Inr n \<Rightarrow>
                 if ucast n > bsz then Some (Inl IoError, oq, h)
                 else Some (Inr (Some (\<lparr>slice_ptr = buffer, slice_len = ucast n\<rparr>, token)), oq, h))
          })
   }"

text \<open>
  The handler sees the bytes of the buffer and may change what the closure captured (\<open>c\<close>); it may
  panic.
\<close>

definition poll :: "'h hal \<Rightarrow> 't transport \<Rightarrow> u64 \<Rightarrow> (u8 list \<Rightarrow> 'c \<Rightarrow> ('r option result \<times> 'c) option) \<Rightarrow> owning_queue
    \<Rightarrow> 't \<Rightarrow> 'h \<Rightarrow> 'c \<Rightarrow> ('r option result \<times> owning_queue \<times> 't \<times> 'h \<times> 'c) option" where
  "poll hal tr bsz handler oq t h c = do {
     (r, oq, h) \<leftarrow> owning_pop hal bsz oq h;
     (case r of
        Inl e \<Rightarrow> Some (Inl e, oq, t, h, c)
      | Inr None \<Rightarrow> Some (Inr None, oq, t, h, c)
      | Inr (Some (buffer, token)) \<Rightarrow> do {
          (result, c) \<leftarrow> handler (mem_load hal buffer h) c;
          (r, oq, t, h) \<leftarrow> add_buffer_to_queue hal tr bsz token oq t h;
          (case r of
             Inl e \<Rightarrow> Some (Inl e, oq, t, h, c)
           | Inr _ \<Rightarrow> Some (result, oq, t, h, c))
        })
   }"

fun drop_boxes :: "'h hal \<Rightarrow> u64 list \<Rightarrow> 'h \<Rightarrow> 'h" where
  "drop_boxes hal [] h = h"
| "drop_boxes hal (b # bs) h = drop_boxes hal bs (drop_box hal b h)"

text \<open>The destructor of \<open>OwningQueue\<close> frees the buffers, then its fields are dropped.\<close>

definition owning_drop :: "'h hal \<Rightarrow> owning_queue \<Rightarrow> 'h \<Rightarrow> 'h option" where
  "owning_drop hal oq h = queue_layout_drop hal (layout (queue oq)) (drop_boxes hal (buffers oq) h)"

section \<open>All buffers are in flight\<close>

text \<open>
  The invariant of an owning queue: no descriptor is free, and the request at token \<open>i\<close> is the single
  buffer \<open>i\<close>, for the device to write. \<open>lent\<close> are the tokens the driver holds at the moment.
\<close>

definition owns :: "u64 \<Rightarrow> u64 list \<Rightarrow> u16 \<Rightarrow> flight \<Rightarrow> bool" where
  "owns bsz bufs i f \<longleftrightarrow> ids f = [i] \<and> token_of f = i
     \<and> bufs_of f = [(\<lparr>slice_ptr = bufs ! unat i, slice_len = bsz\<rparr>, DeviceToDriver)]"

definition owning_inv :: "u64 \<Rightarrow> owning_queue \<Rightarrow> u16 list \<Rightarrow> bool" where
  "owning_inv bsz oq lent \<longleftrightarrow> bsz \<noteq> 0 \<and> unat bsz < 2 ^ 32 \<and> length (buffers oq) = SIZE (queue oq)
     \<and> (\<exists>fs. vq_inv (queue oq) lent fs \<and> (\<forall>f \<in> set fs. owns bsz (buffers oq) (token_of f) f))"

text \<open>What stays of the configuration of a queue.\<close>

definition same_config :: "virt_queue \<Rightarrow> virt_queue \<Rightarrow> bool" where
  "same_config q q' \<longleftrightarrow> queue_idx q' = queue_idx q \<and> event_idx q' = event_idx q
     \<and> indirect q' = indirect q \<and> access_platform q' = access_platform q \<and> last_used_idx q' = last_used_idx q
     \<and> vq_used q' = vq_used q"

lemma single_direct:
  assumes "vq_inv q fl (f # fs)" and "bufs_of f = [b]" and "\<nexists>i ptr ps p. f = Indirect i ptr ps p"
  shows "ids f = [token_of f]"
proof (cases f)
  case (Direct xs ps)
  have ch: "flight_chain (desc_shadow q) xs ps" "length ps = 1"
    using vq_invD(5) [OF assms(1), of f] assms(2) by (auto simp: Direct)
  then have "length xs = 1" using flight_chain_length [OF ch(1)] by simp
  then show ?thesis by (cases xs) (simp_all add: Direct)
qed (use assms(3) in simp)

text \<open>Adding the one buffer of a free token at the front of the free list.\<close>

lemma add_single:
  assumes inv: "vq_inv q (i # fl) fs" and b: "bsz \<noteq> 0" "unat bsz < 2 ^ 32" and law: "hal_box_law hal"
  shows "\<exists>q' h' f. add hal [] [\<lparr>slice_ptr = p, slice_len = bsz\<rparr>] q h = Some (Inr i, q', h')
    \<and> vq_inv q' fl (f # fs) \<and> SIZE q' = SIZE q \<and> ids f = [i] \<and> token_of f = i \<and> added q f q'
    \<and> bufs_of f = [(\<lparr>slice_ptr = p, slice_len = bsz\<rparr>, DeviceToDriver)]"
proof -
  let ?b = "\<lparr>slice_ptr = p, slice_len = bsz\<rparr>"
  have bs: "input_output [] [?b] = [(?b, DeviceToDriver)]" by (simp add: input_output_def)
  have ok: "list_all buf_ok [(?b, DeviceToDriver)]" using b by (simp add: buf_ok_def)
  have "\<not> no_room q (length [(?b, DeviceToDriver)])"
    using free_and_used [OF inv] shape_size [OF vq_invD(1) [OF inv]] by (simp add: no_room_def)
  from add_ok [OF inv bs [symmetric] ok _ this law, of h] obtain q' h' f fl' where A:
    "add hal [] [?b] q h = Some (Inr (token_of f), q', h')" "vq_inv q' fl' (f # fs)"
    "bufs_of f = [(?b, DeviceToDriver)]" "i # fl = ids f @ fl'" "added q f q'"
    "\<nexists>i ptr ps p. f = Indirect i ptr ps p" by auto
  from single_direct [OF A(2,3,6)] A show ?thesis by (auto simp: added_def)
qed

text \<open>What the driver relies on: a box is never at address zero.\<close>

definition hal_box_nonnull :: "'h hal \<Rightarrow> bool" where
  "hal_box_nonnull hal \<longleftrightarrow> (\<forall>n h. fst (new_box hal n h) \<noteq> Some 0)"

lemma owning_fill_ok:
  assumes "vq_inv q (map of_nat [i..<SIZE q]) fs" and "i \<le> SIZE q"
    and "\<forall>f \<in> set fs. owns bsz bufs (token_of f) f \<and> unat (token_of f) < i"
    and "length bufs = i" and "list_all (\<lambda>p. p \<noteq> 0) bufs"
    and "bsz \<noteq> 0" "unat bsz < 2 ^ 32" and "hal_box_law hal" "hal_box_nonnull hal"
  shows "\<exists>q' bufs' fs' h'. owning_fill hal bsz [i..<SIZE q] bufs q h = Some (Inr (q', bufs'), h')
    \<and> vq_inv q' [] fs' \<and> SIZE q' = SIZE q \<and> length bufs' = SIZE q \<and> list_all (\<lambda>p. p \<noteq> 0) bufs'
    \<and> (\<forall>f \<in> set fs'. owns bsz bufs' (token_of f) f) \<and> same_config q q'"
  using assms
proof (induction "SIZE q - i" arbitrary: i q fs bufs h)
  case 0
  then show ?case by (intro exI [of _ q] exI [of _ bufs] exI [of _ fs] exI [of _ h]) (simp add: same_config_def)
next
  case (Suc k)
  then have i: "i < SIZE q" by simp
  then have ups: "[i..<SIZE q] = i # [Suc i..<SIZE q]" by (rule upt_conv_Cons)
  have sz: "SIZE q \<le> 2 ^ 15" using shape_size [OF vq_invD(1) [OF Suc.prems(1)]] by simp
  then have ui: "unat (of_nat i :: u16) = i" using i by (simp add: unat_of_nat)
  obtain p h1 where box: "new_box hal bsz h = (Some p, h1)" "p \<noteq> 0"
    using Suc.prems(8,9) unfolding hal_box_law_def hal_box_nonnull_def by (metis not_None_eq prod.collapse)
  obtain q1 h2 f where A: "add hal [] [\<lparr>slice_ptr = p, slice_len = bsz\<rparr>] q h1 = Some (Inr (of_nat i), q1, h2)"
    "vq_inv q1 (map of_nat [Suc i..<SIZE q]) (f # fs)" "SIZE q1 = SIZE q" "ids f = [of_nat i]" "token_of f = of_nat i"
    "added q f q1" "bufs_of f = [(\<lparr>slice_ptr = p, slice_len = bsz\<rparr>, DeviceToDriver)]"
    using add_single [of q "of_nat i" "map of_nat [Suc i..<SIZE q]" fs bsz hal p h1] Suc.prems ups by auto
  have own: "\<forall>g \<in> set (f # fs). owns bsz (bufs @ [p]) (token_of g) g \<and> unat (token_of g) < Suc i"
    using Suc.prems(3,4) A(4,5,7) ui by (auto simp: owns_def nth_append)
  have "k = SIZE q1 - Suc i" using Suc.hyps(2) A(3) by simp
  from Suc.hyps(1) [OF this, of "f # fs" "bufs @ [p]" h2] A(2,3) own Suc.prems(4-9) box(2) i
  obtain q' bufs' fs' h' where "owning_fill hal bsz [Suc i..<SIZE q] (bufs @ [p]) q1 h2 = Some (Inr (q', bufs'), h')"
    "vq_inv q' [] fs'" "SIZE q' = SIZE q" "length bufs' = SIZE q" "list_all (\<lambda>p. p \<noteq> 0) bufs'"
    "\<forall>f \<in> set fs'. owns bsz bufs' (token_of f) f" "same_config q1 q'" by auto
  moreover have "same_config q q1" using A(6) by (simp add: added_def same_config_def)
  ultimately show ?case
    using A(1) box(1) ui ups by (auto simp: same_config_def)
qed

lemma peek_used_ok:
  assumes "shape_ok q"
  shows "peek_used q = Some (if can_pop q then Some (ucast (used_id (next_used q))) else None)"
  using used_slot_ok [OF assms] by (simp add: peek_used_def next_used_def)

lemma owning_token:
  assumes "owning_inv bsz oq lent" and "unat i < SIZE (queue oq)" and "i \<notin> set lent"
  obtains fs1 f fs2 where "vq_inv (queue oq) lent (fs1 @ f # fs2)" and "owns bsz (buffers oq) i f"
    and "\<forall>g \<in> set (fs1 @ fs2). owns bsz (buffers oq) (token_of g) g"
proof -
  obtain fs where fs: "vq_inv (queue oq) lent fs" "\<forall>f \<in> set fs. owns bsz (buffers oq) (token_of f) f"
    using assms(1) by (auto simp: owning_inv_def)
  have "i \<in> set (occupied fs)" using vq_invD(4) [OF fs(1)] assms(2,3) by auto
  then obtain f where f: "f \<in> set fs" "i \<in> set (ids f)" by (auto simp: occupied_def)
  then have "owns bsz (buffers oq) i f" using fs(2) by (auto simp: owns_def)
  moreover obtain fs1 fs2 where "fs = fs1 @ f # fs2" using f(1) by (meson split_list)
  ultimately show thesis using that fs by simp
qed

text \<open>The two halves of a round of an owning queue: a used buffer comes back, and goes to the device again.\<close>

lemma owning_take:
  assumes inv: "owning_inv bsz oq lent" and pop: "can_pop (queue oq)"
    and tok: "unat (ucast (used_id (next_used (queue oq))) :: u16) < SIZE (queue oq)"
    and fresh: "ucast (used_id (next_used (queue oq))) \<notin> set lent"
  shows "\<exists>q' h'. (let tok = ucast (used_id (next_used (queue oq))) in
    pop_used hal tok [] [\<lparr>slice_ptr = buffers oq ! unat tok, slice_len = bsz\<rparr>] (queue oq) h
        = Some (Inr (used_len (next_used (queue oq))), q', h')
    \<and> owning_inv bsz (oq\<lparr>queue := q'\<rparr>) (tok # lent)
    \<and> same_config (queue oq) (q'\<lparr>last_used_idx := last_used_idx (queue oq)\<rparr>))"
proof -
  let ?tok = "ucast (used_id (next_used (queue oq))) :: u16"
  obtain fs1 f fs2 where F: "vq_inv (queue oq) lent (fs1 @ f # fs2)" "owns bsz (buffers oq) ?tok f"
    "\<forall>g \<in> set (fs1 @ fs2). owns bsz (buffers oq) (token_of g) g"
    using owning_token [OF inv tok fresh] by metis
  let ?b = "\<lparr>slice_ptr = buffers oq ! unat ?tok, slice_len = bsz\<rparr>"
  have f: "token_of f = ?tok" "ids f = [?tok]" "input_output [] [?b] = bufs_of f"
    using F(2) by (simp_all add: owns_def input_output_def)
  from pop_used_success [OF F(1) f(3) pop f(1) [symmetric], of hal h] obtain q' where P:
    "pop_used hal ?tok [] [?b] (queue oq) h
      = Some (Inr (used_len (next_used (queue oq))), q', unshare_flight hal (access_platform (queue oq)) f h)"
    "vq_inv q' (?tok # lent) (fs1 @ fs2)" "SIZE q' = SIZE (queue oq)"
    "same_config (queue oq) (q'\<lparr>last_used_idx := last_used_idx (queue oq)\<rparr>)"
    using f(1,2) by (auto simp: same_config_def)
  then have "owning_inv bsz (oq\<lparr>queue := q'\<rparr>) (?tok # lent)"
    using F(3) inv by (auto simp: owning_inv_def)
  with P show ?thesis by (auto simp: Let_def)
qed

lemma owning_give:
  assumes inv: "owning_inv bsz oq (i # lent)" and law: "hal_box_law hal"
  shows "\<exists>q' h'. add hal [] [\<lparr>slice_ptr = buffers oq ! unat i, slice_len = bsz\<rparr>] (queue oq) h = Some (Inr i, q', h')
    \<and> owning_inv bsz (oq\<lparr>queue := q'\<rparr>) lent \<and> SIZE q' = SIZE (queue oq) \<and> same_config (queue oq) q' \<and> unat i < SIZE (queue oq)"
proof -
  obtain fs where fs: "vq_inv (queue oq) (i # lent) fs" "\<forall>f \<in> set fs. owns bsz (buffers oq) (token_of f) f"
    using inv by (auto simp: owning_inv_def)
  have b: "bsz \<noteq> 0" "unat bsz < 2 ^ 32" "length (buffers oq) = SIZE (queue oq)"
    using inv by (auto simp: owning_inv_def)
  let ?b = "\<lparr>slice_ptr = buffers oq ! unat i, slice_len = bsz\<rparr>"
  obtain q' h' f where A: "add hal [] [?b] (queue oq) h = Some (Inr i, q', h')" "vq_inv q' lent (f # fs)"
    "SIZE q' = SIZE (queue oq)" "ids f = [i]" "token_of f = i" "added (queue oq) f q'"
    "bufs_of f = [(?b, DeviceToDriver)]"
    using add_single [OF fs(1) b(1,2) law, of "buffers oq ! unat i" h] by metis
  have "owning_inv bsz (oq\<lparr>queue := q'\<rparr>) lent"
    unfolding owning_inv_def using A b fs(2)
    by (intro conjI exI [of _ "f # fs"]) (auto simp: owns_def)
  moreover have "unat i < SIZE (queue oq)" using vq_invD(4) [OF fs(1)] by auto
  ultimately show ?thesis using A by (auto simp: added_def same_config_def)
qed

text \<open>What one used entry of the device makes of an owning queue.\<close>

lemma owning_pop_ok:
  assumes inv: "owning_inv bsz oq lent"
    and fresh: "can_pop (queue oq) \<Longrightarrow> ucast (used_id (next_used (queue oq))) \<notin> set lent"
  shows "\<exists>r oq' h'. owning_pop hal bsz oq h = Some (r, oq', h')
    \<and> (let token = ucast (used_id (next_used (queue oq))); n = used_len (next_used (queue oq)) in
       if \<not> can_pop (queue oq) then r = Inr None \<and> oq' = oq
       else if SIZE (queue oq) \<le> unat token then r = Inl WrongToken \<and> oq' = oq
       else owning_inv bsz oq' (token # lent) \<and> same_config (queue oq) ((queue oq')\<lparr>last_used_idx := last_used_idx (queue oq)\<rparr>)
         \<and> buffers oq' = buffers oq
         \<and> r = (if bsz < ucast n then Inl IoError
                else Inr (Some (\<lparr>slice_ptr = buffers oq ! unat token, slice_len = ucast n\<rparr>, token))))"
proof -
  let ?tok = "ucast (used_id (next_used (queue oq))) :: u16"
  have shape: "shape_ok (queue oq)" and len: "length (buffers oq) = SIZE (queue oq)"
    and b: "bsz \<noteq> 0" "unat bsz < 2 ^ 32"
    using inv vq_invD(1) by (auto simp: owning_inv_def)
  consider "\<not> can_pop (queue oq)" | "can_pop (queue oq)" "SIZE (queue oq) \<le> unat ?tok"
    | "can_pop (queue oq)" "unat ?tok < SIZE (queue oq)" by linarith
  then show ?thesis
  proof cases
    case 3
    let ?b = "\<lparr>slice_ptr = buffers oq ! unat ?tok, slice_len = bsz\<rparr>"
    obtain q' h' where P: "pop_used hal ?tok [] [?b] (queue oq) h = Some (Inr (used_len (next_used (queue oq))), q', h')"
      "owning_inv bsz (oq\<lparr>queue := q'\<rparr>) (?tok # lent)"
      "same_config (queue oq) (q'\<lparr>last_used_idx := last_used_idx (queue oq)\<rparr>)"
      using owning_take [OF inv 3 fresh [OF 3(1)], of hal h] by (auto simp: Let_def)
    then show ?thesis
      using P 3 len peek_used_ok [OF shape] by (auto simp: owning_pop_def Let_def)
  qed (use peek_used_ok [OF shape] len in \<open>auto simp: owning_pop_def Let_def\<close>)
qed

lemma owning_add_ok:
  assumes inv: "owning_inv bsz oq (i # lent)" and law: "hal_box_law hal"
  shows "\<exists>oq' t' h'. add_buffer_to_queue hal tr bsz i oq t h = Some (Inr (), oq', t', h')
    \<and> owning_inv bsz oq' lent \<and> buffers oq' = buffers oq \<and> SIZE (queue oq') = SIZE (queue oq)
    \<and> t' = (if should_notify (queue oq') then notify tr (queue_idx (queue oq)) t else t)"
proof -
  obtain q' h' where A: "add hal [] [\<lparr>slice_ptr = buffers oq ! unat i, slice_len = bsz\<rparr>] (queue oq) h = Some (Inr i, q', h')"
    "owning_inv bsz (oq\<lparr>queue := q'\<rparr>) lent" "SIZE q' = SIZE (queue oq)" "same_config (queue oq) q'" "unat i < SIZE (queue oq)"
    using owning_give [OF inv law, of h] by metis
  moreover have "length (buffers oq) = SIZE (queue oq)" using inv by (simp add: owning_inv_def)
  ultimately show ?thesis by (auto simp: add_buffer_to_queue_def same_config_def Let_def)
qed

lemma poll_cases:
  assumes inv: "owning_inv bsz oq lost" and law: "hal_box_law hal" and handler: "\<And>bs. handler bs c \<noteq> None"
    and fresh: "can_pop (queue oq) \<Longrightarrow> ucast (used_id (next_used (queue oq))) \<notin> set lost"
  shows "\<exists>r oq' t' h' c'. poll hal tr bsz handler oq t h c = Some (r, oq', t', h', c')
    \<and> (if \<not> can_pop (queue oq) then r = Inr None \<and> oq' = oq \<and> c' = c
       else if SIZE (queue oq) \<le> unat (ucast (used_id (next_used (queue oq))) :: u16)
       then r = Inl WrongToken \<and> oq' = oq \<and> c' = c
       else if bsz < ucast (used_len (next_used (queue oq)))
       then r = Inl IoError \<and> owning_inv bsz oq' (ucast (used_id (next_used (queue oq))) # lost) \<and> c' = c
       else owning_inv bsz oq' lost \<and> buffers oq' = buffers oq
         \<and> (\<exists>h1. handler (mem_load hal \<lparr>slice_ptr = buffers oq ! unat (ucast (used_id (next_used (queue oq))) :: u16),
                slice_len = ucast (used_len (next_used (queue oq)))\<rparr> h1) c = Some (r, c')))"
proof -
  let ?tok = "ucast (used_id (next_used (queue oq))) :: u16" and ?n = "used_len (next_used (queue oq))"
  obtain r oq1 h1 where P: "owning_pop hal bsz oq h = Some (r, oq1, h1)"
    "let token = ?tok; n = ?n in
       if \<not> can_pop (queue oq) then r = Inr None \<and> oq1 = oq
       else if SIZE (queue oq) \<le> unat token then r = Inl WrongToken \<and> oq1 = oq
       else owning_inv bsz oq1 (token # lost) \<and> same_config (queue oq) ((queue oq1)\<lparr>last_used_idx := last_used_idx (queue oq)\<rparr>)
         \<and> buffers oq1 = buffers oq
         \<and> r = (if bsz < ucast n then Inl IoError
                else Inr (Some (\<lparr>slice_ptr = buffers oq ! unat token, slice_len = ucast n\<rparr>, token)))"
    using owning_pop_ok [OF inv fresh, of hal h] by metis
  show ?thesis
  proof (cases "can_pop (queue oq) \<and> unat ?tok < SIZE (queue oq) \<and> \<not> bsz < ucast ?n")
    case True
    let ?b = "\<lparr>slice_ptr = buffers oq ! unat ?tok, slice_len = ucast ?n\<rparr>"
    have 1: "owning_inv bsz oq1 (?tok # lost)" "buffers oq1 = buffers oq" "r = Inr (Some (?b, ?tok))"
      using True P(2) by (simp_all add: Let_def)
    obtain res c' where res: "handler (mem_load hal ?b h1) c = Some (res, c')" using handler by fast
    obtain oq' t' h' where "add_buffer_to_queue hal tr bsz ?tok oq1 t h1 = Some (Inr (), oq', t', h')"
      "owning_inv bsz oq' lost" "buffers oq' = buffers oq"
      using owning_add_ok [OF 1(1) law, of tr t h1] 1(2) by metis
    with True P(1) 1 res show ?thesis by (auto simp: poll_def)
  next
    case False
    with P show ?thesis by (auto simp: poll_def Let_def split: if_splits)
  qed
qed

lemma owning_new_ok:
  assumes n: "n < 2 ^ 16" "is_power_of_two (of_nat n :: u16)" and b: "bsz \<noteq> 0" "unat bsz < 2 ^ 32"
    and law: "hal_box_law hal" "hal_box_nonnull hal"
  shows "\<exists>oq h'. owning_new hal bsz (fresh_queue L n idx ind ev ap) h = Some (Inr oq, h')
    \<and> owning_inv bsz oq [] \<and> length (buffers oq) = n \<and> queue_idx (queue oq) = idx"
proof -
  let ?q = "fresh_queue L n idx ind ev ap"
  have "vq_inv ?q (map of_nat [0..<SIZE ?q]) []" using fresh_inv [OF n(2,1)] by (simp add: fresh_available)
  from owning_fill_ok [OF this, of bsz "[]" hal h] b law obtain q' bufs' fs' h' where
    "owning_fill hal bsz [0..<n] [] ?q h = Some (Inr (q', bufs'), h')" "vq_inv q' [] fs'" "SIZE q' = n"
    "length bufs' = n" "list_all (\<lambda>p. p \<noteq> 0) bufs'" "\<forall>f \<in> set fs'. owns bsz bufs' (token_of f) f"
    "same_config ?q q'"
    by (auto simp: fresh_available)
  with b show ?thesis
    by (auto simp: owning_new_def fresh_available owning_inv_def same_config_def fresh_fields)
qed

lemma poll_success:
  assumes inv: "owning_inv bsz oq lost" and law: "hal_box_law hal"
    and pop: "can_pop (queue oq)" "unat (ucast (used_id (next_used (queue oq))) :: u16) < SIZE (queue oq)"
      "ucast (used_id (next_used (queue oq))) \<notin> set lost" "ucast (used_len (next_used (queue oq))) \<le> bsz"
    and handler: "\<And>h1. handler (mem_load hal \<lparr>slice_ptr = buffers oq ! unat (ucast (used_id (next_used (queue oq))) :: u16),
        slice_len = ucast (used_len (next_used (queue oq)))\<rparr> h1) c = Some (r, c')"
  shows "\<exists>oq' t' h'. poll hal tr bsz handler oq t h c = Some (r, oq', t', h', c') \<and> owning_inv bsz oq' lost"
proof -
  let ?tok = "ucast (used_id (next_used (queue oq))) :: u16" and ?n = "used_len (next_used (queue oq))"
  let ?b = "\<lparr>slice_ptr = buffers oq ! unat ?tok, slice_len = ucast ?n\<rparr>"
  obtain oq1 h1 where 1: "owning_pop hal bsz oq h = Some (Inr (Some (?b, ?tok)), oq1, h1)" "owning_inv bsz oq1 (?tok # lost)"
    using owning_pop_ok [OF inv pop(3), of hal h] pop by (auto simp: Let_def)
  obtain oq' t' h' where "add_buffer_to_queue hal tr bsz ?tok oq1 t h1 = Some (Inr (), oq', t', h')" "owning_inv bsz oq' lost"
    using owning_add_ok [OF 1(2) law, of tr t h1] by metis
  with 1(1) handler show ?thesis by (simp add: poll_def)
qed

section \<open>Properties\<close>

text \<open>
  Constructing an owning queue over a new virtqueue succeeds and puts all buffers in flight: the
  token of buffer \<open>i\<close> is \<open>i\<close> (the assertion of the code holds) and no descriptor stays free.
\<close>

theorem owning_new_correct:
  assumes n: "n < 2 ^ 16" "is_power_of_two (of_nat n :: u16)" and b: "bsz \<noteq> 0" "unat bsz < 2 ^ 32"
    and law: "hal_box_law hal" "hal_box_nonnull hal"
  shows "\<exists>oq h'. owning_new hal bsz (fresh_queue L n idx ind ev ap) h = Some (Inr oq, h')
    \<and> owning_inv bsz oq [] \<and> length (buffers oq) = n \<and> queue_idx (queue oq) = idx"
  by (rule owning_new_ok [OF n b law])

lemma bump_hal_nonnull: "hal_box_nonnull bump_hal"
  by (simp add: hal_box_nonnull_def bump_hal_def)

theorem owning_new_correct_witness:
  "\<exists>oq h'. owning_new bump_hal 64 (sample_queue False) 0 = Some (Inr oq, h') \<and> owning_inv 64 oq []"
  using owning_new_correct [of 4 64 bump_hal sample_layout 0 False True False 0] bump_hal_laws bump_hal_nonnull
  by (auto simp: sample_queue_def is_power_of_two_def)


definition device_returns :: "u32 \<Rightarrow> u32 \<Rightarrow> owning_queue \<Rightarrow> owning_queue" where
  "device_returns i n oq = oq\<lparr>queue := (queue oq)\<lparr>vq_used := (vq_used (queue oq))\<lparr>
     used_idx := used_idx (vq_used (queue oq)) + 1,
     used_slots := (used_slots (vq_used (queue oq)))
       [unat (used_idx (vq_used (queue oq))) mod SIZE (queue oq) := \<lparr>used_id = i, used_len = n\<rparr>]\<rparr>\<rparr>\<rparr>"

lemma device_returns_inv:
  assumes "owning_inv bsz oq l"
  shows "owning_inv bsz (device_returns i n oq) l"
proof -
  let ?u = "vq_used (queue (device_returns i n oq))"
  obtain fs where fs: "vq_inv (queue oq) l fs" "\<forall>f \<in> set fs. owns bsz (buffers oq) (token_of f) f"
    using assms by (auto simp: owning_inv_def)
  have "vq_inv ((queue oq)\<lparr>vq_used := ?u\<rparr>) l fs"
    using vq_invD(1) [OF fs(1)] by (intro vq_inv_device [OF fs(1)]) (simp add: device_returns_def shape_ok_def)
  with fs(2) assms show ?thesis by (auto simp: owning_inv_def device_returns_def)
qed


end
