(* ===== verification/Byte_Codec.thy ===== *)
theory Byte_Codec
  imports Prelude
begin

text \<open>
  The little-endian representation of the integers in the packets and registers of virtio devices
  (what \<open>zerocopy\<close>'s \<open>IntoBytes\<close> and \<open>FromBytes\<close> do for the \<open>repr(C)\<close> structures of the drivers), the fields of such structures, and the test for UTF-8.
\<close>

fun to_le :: "nat \<Rightarrow> nat \<Rightarrow> u8 list" where
  "to_le 0 n = []"
| "to_le (Suc k) n = of_nat (n mod 256) # to_le k (n div 256)"

fun from_le :: "u8 list \<Rightarrow> nat" where
  "from_le [] = 0"
| "from_le (b # bs) = unat b + 256 * from_le bs"

definition le_field :: "nat \<Rightarrow> nat \<Rightarrow> u8 list \<Rightarrow> 'a::len word" where
  "le_field offset n bs = of_nat (from_le (take n (drop offset bs)))"

definition le8 :: "u8 \<Rightarrow> u8 list" where "le8 w = to_le 1 (unat w)"
definition le16 :: "u16 \<Rightarrow> u8 list" where "le16 w = to_le 2 (unat w)"
definition le32 :: "u32 \<Rightarrow> u8 list" where "le32 w = to_le 4 (unat w)"
definition le64 :: "u64 \<Rightarrow> u8 list" where "le64 w = to_le 8 (unat w)"

lemma length_to_le [simp]: "length (to_le k n) = k"
  by (induction k arbitrary: n) simp_all

lemma length_le [simp]: "length (le8 a) = 1" "length (le16 b) = 2" "length (le32 c) = 4" "length (le64 d) = 8"
  by (simp_all add: le8_def le16_def le32_def le64_def)

lemma from_to_le: "from_le (to_le k n) = n mod 256 ^ k"
proof (induction k arbitrary: n)
  case (Suc k)
  have "unat (of_nat (n mod 256) :: u8) = n mod 256" by (simp add: unat_of_nat)
  moreover have "n mod 256 + 256 * (n div 256 mod 256 ^ k) = n mod 256 ^ Suc k"
    by (simp add: mod_mult2_eq add.commute)
  ultimately show ?case using Suc by simp
qed simp

lemma to_from_le: "to_le (length bs) (from_le bs) = bs"
proof (induction bs)
  case (Cons b bs)
  have "unat b < 256" using unat_u8_lt [of b] by simp
  with Cons show ?case by simp
qed simp

lemma from_le_lt: "from_le bs < 256 ^ length bs"
proof (induction bs)
  case (Cons b bs)
  have "unat b < 256" using unat_u8_lt [of b] by simp
  then have "unat b + 256 * from_le bs < 256 + 256 * from_le bs" by simp
  also have "\<dots> \<le> 256 * 256 ^ length bs" using Cons by linarith
  finally show ?case by simp
qed simp

lemma from_le_words [simp]:
  "of_nat (from_le (le8 a)) = a" "of_nat (from_le (le16 b)) = b" "of_nat (from_le (le32 c)) = c"
  "of_nat (from_le (le64 d)) = d"
  using unat_u8_lt [of a] unat_u16_lt [of b] unat_u32_lt [of c] unat_u64_lt [of d]
  by (simp_all add: le8_def le16_def le32_def le64_def from_to_le)

text \<open>Reading a field of a message that is put together from its parts.\<close>

lemma fields_after:
  assumes "length xs = i"
  shows "le_field i 4 (xs @ le32 a @ ys) = a" "le_field i 8 (xs @ le64 b @ ys) = b"
  using assms by (simp_all add: le_field_def)

lemma field_skip:
  assumes "length xs \<le> i"
  shows "le_field i n (xs @ ys) = le_field (i - length xs) n ys"
  using assms by (simp add: le_field_def)

lemma field_here: "le_field 0 4 (le32 a @ ys) = a" "le_field 0 8 (le64 b @ ys) = b" "le_field 0 4 (le32 a) = a"
  by (simp_all add: le_field_def)

section \<open>Strings\<close>

text \<open>What \<open>str::from_utf8\<close> accepts.\<close>

definition utf8_cont :: "u8 \<Rightarrow> bool" where
  "utf8_cont b \<longleftrightarrow> 0x80 \<le> b \<and> b \<le> 0xBF"

fun valid_utf8 :: "u8 list \<Rightarrow> bool" where
  "valid_utf8 [] = True"
| "valid_utf8 (b # bs) =
     (if b < 0x80 then valid_utf8 bs
      else if b < 0xE0 then
        (case bs of c1 # r \<Rightarrow> 0xC2 \<le> b \<and> utf8_cont c1 \<and> valid_utf8 r | _ \<Rightarrow> False)
      else if b < 0xF0 then
        (case bs of c1 # c2 # r \<Rightarrow>
            utf8_cont c1 \<and> (b = 0xE0 \<longrightarrow> 0xA0 \<le> c1) \<and> (b = 0xED \<longrightarrow> c1 \<le> 0x9F) \<and> utf8_cont c2 \<and> valid_utf8 r
         | _ \<Rightarrow> False)
      else
        (case bs of c1 # c2 # c3 # r \<Rightarrow>
            b \<le> 0xF4 \<and> utf8_cont c1 \<and> (b = 0xF0 \<longrightarrow> 0x90 \<le> c1) \<and> (b = 0xF4 \<longrightarrow> c1 \<le> 0x8F) \<and> utf8_cont c2
              \<and> utf8_cont c3 \<and> valid_utf8 r
         | _ \<Rightarrow> False))"

end
