(* ===== verification/Device_Common.thy ===== *)
theory Device_Common
  imports Owning_Queue Byte_Codec
begin

text \<open>
  What the device drivers share: the device-independent feature bits
  (\<open>src/virtio-drivers/src/device/common.rs\<close>), reading a field of configuration space
  (\<open>read_config!\<close> of \<open>config.rs\<close>), and setting up a queue with the negotiated features.
\<close>

definition NOTIFY_ON_EMPTY :: u64 where "NOTIFY_ON_EMPTY = push_bit 24 1"
definition ANY_LAYOUT :: u64 where "ANY_LAYOUT = push_bit 27 1"
definition RING_INDIRECT_DESC :: u64 where "RING_INDIRECT_DESC = push_bit 28 1"
definition RING_EVENT_IDX :: u64 where "RING_EVENT_IDX = push_bit 29 1"
definition UNUSED :: u64 where "UNUSED = push_bit 30 1"
definition VERSION_1 :: u64 where "VERSION_1 = push_bit 32 1"
definition ACCESS_PLATFORM :: u64 where "ACCESS_PLATFORM = push_bit 33 1"
definition RING_PACKED :: u64 where "RING_PACKED = push_bit 34 1"
definition IN_ORDER :: u64 where "IN_ORDER = push_bit 35 1"
definition ORDER_PLATFORM :: u64 where "ORDER_PLATFORM = push_bit 36 1"
definition SR_IOV :: u64 where "SR_IOV = push_bit 37 1"
definition NOTIFICATION_DATA :: u64 where "NOTIFICATION_DATA = push_bit 38 1"

definition common_features :: u64 where
  "common_features = NOTIFY_ON_EMPTY OR ANY_LAYOUT OR RING_INDIRECT_DESC OR RING_EVENT_IDX OR UNUSED OR VERSION_1
     OR ACCESS_PLATFORM OR RING_PACKED OR IN_ORDER OR ORDER_PLATFORM OR SR_IOV OR NOTIFICATION_DATA"

text \<open>\<open>contains\<close> of a set of flags.\<close>

definition contains :: "u64 \<Rightarrow> u64 \<Rightarrow> bool" where
  "contains bits f \<longleftrightarrow> bits AND f = f"

text \<open>A field of \<open>n\<close> bytes at the given offset of the configuration space.\<close>

definition read_config :: "'t transport \<Rightarrow> nat \<Rightarrow> nat \<Rightarrow> 't \<Rightarrow> 'a::len word result \<times> 't" where
  "read_config tr offset n t =
     (case read_config_space tr offset n t of
        (Inl e, t) \<Rightarrow> (Inl e, t)
      | (Inr bs, t) \<Rightarrow> (Inr (le_field 0 n bs), t))"

definition write_config :: "'t transport \<Rightarrow> nat \<Rightarrow> u8 list \<Rightarrow> 't \<Rightarrow> unit result \<times> 't" where
  "write_config tr offset bs t = write_config_space tr offset bs t"

text \<open>The call of \<open>VirtQueue::new\<close> that all drivers make.\<close>

definition features_queue :: "'h hal \<Rightarrow> 't transport \<Rightarrow> nat \<Rightarrow> u16 \<Rightarrow> u64 \<Rightarrow> 't \<Rightarrow> 'h
    \<Rightarrow> (virt_queue result \<times> 't \<times> 'h) option" where
  "features_queue hal tr n idx features t h =
     new_queue hal tr n idx (contains features RING_INDIRECT_DESC) (contains features RING_EVENT_IDX)
       (contains features ACCESS_PLATFORM) t h"

definition queue_drop :: "'h hal \<Rightarrow> virt_queue \<Rightarrow> 'h \<Rightarrow> 'h option" where
  "queue_drop hal q h = queue_layout_drop hal (layout q) h"

section \<open>Consistent reads of configuration space\<close>

text \<open>One pass of the loop: whether the generation stayed the same, the result, and the state after it.\<close>

definition read_pass :: "'t transport \<Rightarrow> ('t \<Rightarrow> 'r result \<times> 't) \<Rightarrow> 't \<Rightarrow> bool \<times> 'r result \<times> 't" where
  "read_pass tr f t =
     (let (before, t) = read_config_generation tr t; (r, t) = f t; (after, t) = read_config_generation tr t
      in (before = after, r, t))"

definition after_pass :: "'t transport \<Rightarrow> ('t \<Rightarrow> 'r result \<times> 't) \<Rightarrow> 't \<Rightarrow> 't" where
  "after_pass tr f t = snd (snd (read_pass tr f t))"

lemma read_consistent_unfold:
  "read_consistent tr f t =
     (case read_pass tr f t of (same, r, t') \<Rightarrow> if same then Some (r, t') else read_consistent tr f t')"
  by (subst read_consistent.simps) (simp add: read_pass_def Let_def split: prod.split)

lemma read_consistent_passes:
  assumes "\<And>i. i < n \<Longrightarrow> \<not> fst (read_pass tr f ((after_pass tr f ^^ i) t))"
    and "read_pass tr f ((after_pass tr f ^^ n) t) = (True, r, t')"
  shows "read_consistent tr f t = Some (r, t')"
  using assms
proof (induction n arbitrary: t)
  case 0
  then show ?case by (simp add: read_consistent_unfold)
next
  case (Suc n)
  have "read_consistent tr f (after_pass tr f t) = Some (r, t')"
  proof (rule Suc.IH)
    show "\<not> fst (read_pass tr f ((after_pass tr f ^^ i) (after_pass tr f t)))" if "i < n" for i
      using Suc.prems(1) [of "Suc i"] that by (simp add: funpow_swap1)
    show "read_pass tr f ((after_pass tr f ^^ n) (after_pass tr f t)) = (True, r, t')"
      using Suc.prems(2) by (simp add: funpow_swap1)
  qed
  moreover have "\<not> fst (read_pass tr f t)" using Suc.prems(1) [of 0] by simp
  ultimately show ?case
    by (subst read_consistent_unfold) (simp add: after_pass_def split_beta)
qed

text \<open>
  \<open>read_consistent\<close> returns as soon as the configuration generation is the same before and after
  one pass of reads, with the result of exactly that pass: if the first \<open>n\<close> passes are torn (the
  generation changes under them) and the next one is not, the result is the one of pass \<open>n\<close>.
\<close>

theorem read_consistent_returns:
  assumes "\<And>i. i < n \<Longrightarrow> \<not> fst (read_pass tr f ((after_pass tr f ^^ i) t))"
    and "read_pass tr f ((after_pass tr f ^^ n) t) = (True, r, t')"
  shows "read_consistent tr f t = Some (r, t')"
  using assms by (rule read_consistent_passes)

text \<open>A device that changes its configuration during the first pass, for the witness: the state counts
  the reads of the generation.\<close>

definition torn_once :: "nat transport" where
  "torn_once = \<lparr>device_type_of = (\<lambda>_. Socket), read_device_features = (\<lambda>t. (0, t)),
     write_driver_features = (\<lambda>_ t. t), max_queue_size = (\<lambda>_ t. (8, t)), notify = (\<lambda>_ t. t), get_status = (\<lambda>_. 0),
     set_status = (\<lambda>_ t. t), set_guest_page_size = (\<lambda>_ t. t), requires_legacy_layout = (\<lambda>_. False),
     queue_set = (\<lambda>_ _ _ _ _ t. t), queue_unset = (\<lambda>_ t. t), queue_used = (\<lambda>_ t. (False, t)),
     ack_interrupt = (\<lambda>t. (0, t)), read_config_generation = (\<lambda>t. (if t = 0 then 0 else 1, Suc t)),
     read_config_space = (\<lambda>_ n t. (Inr (replicate n (of_nat t)), t)), write_config_space = (\<lambda>_ _ t. (Inr (), t))\<rparr>"

theorem read_consistent_returns_witness:
  "read_consistent torn_once (read_config torn_once 0 1) 0 = Some (Inr (3 :: u8), 4)"
  using read_consistent_returns [of 1 torn_once "read_config torn_once 0 1" 0 "Inr (3 :: u8)" 4]
  by (simp add: read_pass_def after_pass_def torn_once_def read_config_def le_field_def)

text \<open>A slice has as many bytes as its length says.\<close>

definition load_law :: "'h hal \<Rightarrow> bool" where
  "load_law hal \<longleftrightarrow> (\<forall>s h. length (mem_load hal s h) = unat (slice_len s))"

section \<open>Setting up and dropping queues\<close>

lemma features_queue_total:
  assumes n: "n < 2 ^ 16" "is_power_of_two (of_nat n :: u16)" and law: "hal_dma_law hal" "hal_dealloc_law hal"
  obtains r t' h' where "features_queue hal tr n idx nf t h = Some (r, t', h')"
    and "case r of Inl e \<Rightarrow> e \<in> {AlreadyUsed, InvalidParam, DmaError}
       | Inr q \<Rightarrow> vq_inv q (map of_nat [0..<SIZE q]) [] \<and> SIZE q = n"
proof -
  obtain used t1 where u: "queue_used tr idx t = (used, t1)" by (rule prod.exhaust)
  obtain m t2 where m: "max_queue_size tr idx t1 = (m, t2)" by (rule prod.exhaust)
  from new_queue_run [OF n law u m, of "contains nf RING_INDIRECT_DESC" "contains nf RING_EVENT_IDX" "contains nf ACCESS_PLATFORM" h]
    fresh_inv [OF n(2,1)]
  show thesis by (auto simp: features_queue_def fresh_available intro: that split: if_splits)
qed

lemma queue_drop_total: "hal_dealloc_law hal \<Longrightarrow> \<exists>h'. queue_drop hal q h = Some h'"
  by (cases "layout q") (auto simp: queue_drop_def hal_dealloc_law_def dma_drop_def Let_def split_beta)

end
