(* ===== verification/Vsock_Protocol.thy ===== *)
theory Vsock_Protocol
  imports Device_Common
begin

text \<open>
  The packets of virtio socket devices (\<open>src/virtio-drivers/src/device/socket/protocol.rs\<close>): the
  header and its little-endian bytes, operations, addresses, flags; and how a received packet is
  split and classified (\<open>read_header_and_body\<close> and \<open>VsockEvent::from_header\<close> of \<open>vsock.rs\<close>).
\<close>

section \<open>Definitions\<close>

definition VMADDR_CID_HOST :: u64 where "VMADDR_CID_HOST = 2"

datatype socket_type = StreamSocket | SeqPacket

fun socket_type_bits :: "socket_type \<Rightarrow> u16" where
  "socket_type_bits StreamSocket = 1"
| "socket_type_bits SeqPacket = 2"

record vsock_hdr =
  src_cid :: u64
  dst_cid :: u64
  hdr_src_port :: u32
  dst_port :: u32
  hdr_len :: u32
  socket_type_field :: u16
  op_field :: u16
  flags_field :: u32
  hdr_buf_alloc :: u32
  hdr_fwd_cnt :: u32

definition HDR_SIZE :: nat where "HDR_SIZE = 44"

definition hdr_default :: vsock_hdr where
  "hdr_default = \<lparr>src_cid = 0, dst_cid = 0, hdr_src_port = 0, dst_port = 0, hdr_len = 0,
     socket_type_field = socket_type_bits StreamSocket, op_field = 0, flags_field = 0,
     hdr_buf_alloc = 0, hdr_fwd_cnt = 0\<rparr>"

text \<open>\<open>as_bytes\<close> of the packed structure, and \<open>read_from_prefix\<close>: \<open>None\<close> when there are too few bytes.\<close>

definition hdr_bytes :: "vsock_hdr \<Rightarrow> u8 list" where
  "hdr_bytes h = le64 (src_cid h) @ le64 (dst_cid h) @ le32 (hdr_src_port h) @ le32 (dst_port h)
     @ le32 (hdr_len h) @ le16 (socket_type_field h) @ le16 (op_field h) @ le32 (flags_field h)
     @ le32 (hdr_buf_alloc h) @ le32 (hdr_fwd_cnt h)"

definition hdr_from_prefix :: "u8 list \<Rightarrow> vsock_hdr option" where
  "hdr_from_prefix bs =
     (if length bs < HDR_SIZE then None
      else Some \<lparr>src_cid = le_field 0 8 bs, dst_cid = le_field 8 8 bs, hdr_src_port = le_field 16 4 bs,
        dst_port = le_field 20 4 bs, hdr_len = le_field 24 4 bs, socket_type_field = le_field 28 2 bs,
        op_field = le_field 30 2 bs, flags_field = le_field 32 4 bs, hdr_buf_alloc = le_field 36 4 bs,
        hdr_fwd_cnt = le_field 40 4 bs\<rparr>)"

record vsock_addr =
  cid :: u64
  port :: u32

datatype vsock_op = OpInvalid | OpRequest | OpResponse | OpRst | OpShutdown | OpRw | OpCreditUpdate | OpCreditRequest

fun op_bits :: "vsock_op \<Rightarrow> u16" where
  "op_bits OpInvalid = 0"
| "op_bits OpRequest = 1"
| "op_bits OpResponse = 2"
| "op_bits OpRst = 3"
| "op_bits OpShutdown = 4"
| "op_bits OpRw = 5"
| "op_bits OpCreditUpdate = 6"
| "op_bits OpCreditRequest = 7"

definition op_try_from :: "u16 \<Rightarrow> socket_error + vsock_op" where
  "op_try_from v =
     (if v = 0 then Inr OpInvalid
      else if v = 1 then Inr OpRequest
      else if v = 2 then Inr OpResponse
      else if v = 3 then Inr OpRst
      else if v = 4 then Inr OpShutdown
      else if v = 5 then Inr OpRw
      else if v = 6 then Inr OpCreditUpdate
      else if v = 7 then Inr OpCreditRequest
      else Inl (UnknownOperation v))"

definition hdr_op :: "vsock_hdr \<Rightarrow> socket_error + vsock_op" where
  "hdr_op h = op_try_from (op_field h)"

definition hdr_source :: "vsock_hdr \<Rightarrow> vsock_addr" where
  "hdr_source h = \<lparr>cid = src_cid h, port = hdr_src_port h\<rparr>"

definition hdr_destination :: "vsock_hdr \<Rightarrow> vsock_addr" where
  "hdr_destination h = \<lparr>cid = dst_cid h, port = dst_port h\<rparr>"

definition check_data_is_empty :: "vsock_hdr \<Rightarrow> socket_error + unit" where
  "check_data_is_empty h = (if hdr_len h = 0 then Inr () else Inl UnexpectedDataInPacket)"

text \<open>
  The feature bits of the device: two of its own and the device-independent ones. The hints of a
  shutdown.
\<close>

definition STREAM :: u64 where "STREAM = 1"
definition SEQ_PACKET :: u64 where "SEQ_PACKET = 2"

definition vsock_features :: u64 where
  "vsock_features = STREAM OR SEQ_PACKET OR common_features"

definition SHUTDOWN_RECEIVE :: u32 where "SHUTDOWN_RECEIVE = 1"
definition SHUTDOWN_SEND :: u32 where "SHUTDOWN_SEND = 2"

section \<open>Events\<close>

record vsock_buffer_status =
  buffer_allocation :: u32
  forward_count :: u32

datatype disconnect_reason = Reset | Shutdown

datatype vsock_event_type =
    ConnectionRequest
  | Connected
  | Disconnected disconnect_reason
  | Received u64
  | CreditRequest
  | CreditUpdate

record vsock_event =
  ev_source :: vsock_addr
  ev_destination :: vsock_addr
  buffer_status :: vsock_buffer_status
  event_type :: vsock_event_type

definition event_from_header :: "vsock_hdr \<Rightarrow> vsock_event result" where
  "event_from_header h =
     (case hdr_op h of
        Inl e \<Rightarrow> Inl (SocketDeviceError e)
      | Inr op \<Rightarrow>
          let status = \<lparr>buffer_allocation = hdr_buf_alloc h, forward_count = hdr_fwd_cnt h\<rparr>;
              source = hdr_source h;
              destination = hdr_destination h;
              empty = (\<lambda>ty. case check_data_is_empty h of Inl e \<Rightarrow> Inl (SocketDeviceError e) | Inr _ \<Rightarrow> Inr ty);
              event_type = (case op of
                  OpRequest \<Rightarrow> empty ConnectionRequest
                | OpResponse \<Rightarrow> empty Connected
                | OpCreditUpdate \<Rightarrow> empty CreditUpdate
                | OpRst \<Rightarrow> empty (Disconnected Reset)
                | OpShutdown \<Rightarrow> empty (Disconnected Shutdown)
                | OpRw \<Rightarrow> Inr (Received (ucast (hdr_len h)))
                | OpCreditRequest \<Rightarrow> empty CreditRequest
                | OpInvalid \<Rightarrow> Inl (SocketDeviceError InvalidOperation))
          in case event_type of
               Inl e \<Rightarrow> Inl e
             | Inr ty \<Rightarrow> Inr \<lparr>ev_source = source, ev_destination = destination, buffer_status = status,
                 event_type = ty\<rparr>)"

text \<open>\<open>checked_add\<close> of two \<open>usize\<close> is on 64-bit words; the length of the buffer is a natural number.\<close>

definition read_header_and_body :: "u8 list \<Rightarrow> (vsock_hdr \<times> u8 list) result" where
  "read_header_and_body buffer =
     (case hdr_from_prefix buffer of
        None \<Rightarrow> Inl (SocketDeviceError BufferTooShort)
      | Some header \<Rightarrow>
          let body_length = unat (ucast (hdr_len header) :: u64) in
          if HDR_SIZE + body_length \<ge> 2 ^ 64 then Inl (SocketDeviceError InvalidNumber)
          else let data_end = HDR_SIZE + body_length in
            if data_end \<le> length buffer then Inr (header, take (data_end - HDR_SIZE) (drop HDR_SIZE buffer))
            else Inl (SocketDeviceError BufferTooShort))"

section \<open>Properties\<close>

lemma length_hdr_bytes [simp]: "length (hdr_bytes h) = 44"
  by (simp add: hdr_bytes_def)

lemma hdr_parse_bytes: "hdr_from_prefix (hdr_bytes h @ bs) = Some h"
proof -
  have "hdr_from_prefix (hdr_bytes h @ bs) = Some \<lparr>src_cid = src_cid h, dst_cid = dst_cid h,
      hdr_src_port = hdr_src_port h, dst_port = dst_port h, hdr_len = hdr_len h,
      socket_type_field = socket_type_field h, op_field = op_field h, flags_field = flags_field h,
      hdr_buf_alloc = hdr_buf_alloc h, hdr_fwd_cnt = hdr_fwd_cnt h\<rparr>"
    by (simp add: hdr_from_prefix_def HDR_SIZE_def le_field_def) (simp add: hdr_bytes_def)
  then show ?thesis by simp
qed

lemma unat_ucast_len: "unat (ucast (w :: u32) :: u64) = unat w"
  by (rule unat_ucast_up) simp

text \<open>
  What the sender writes is what the receiver reads: a packet of a header followed by as many
  bytes of data as its length field says is split back into this header and this data, also when
  the receive buffer has further bytes behind it; a packet shorter than that is refused as
  \<open>BufferTooShort\<close>, never read past its end.
\<close>

theorem packet_round_trip:
  "read_header_and_body (hdr_bytes h @ body) =
     (if unat (hdr_len h) \<le> length body then Inr (h, take (unat (hdr_len h)) body)
      else Inl (SocketDeviceError BufferTooShort))"
proof -
  have "unat (hdr_len h) < 2 ^ 32" by (rule unat_u32_lt)
  then show ?thesis
    by (simp add: read_header_and_body_def hdr_parse_bytes HDR_SIZE_def unat_ucast_len Let_def)
qed

lemma op_try_from_bits: "op_try_from (op_bits op) = Inr op"
  by (cases op) (simp_all add: op_try_from_def)

lemma op_try_from_Inr:
  assumes "op_try_from v = Inr op"
  shows "v = op_bits op"
  using assms by (auto simp: op_try_from_def split: if_splits)

lemma small_op:
  assumes "\<not> (7 :: u16) < v"
  shows "\<exists>op. v = op_bits op"
proof -
  have "unat v < 8" using assms by (simp add: word_less_nat_alt)
  then have "unat v = 0 \<or> unat v = 1 \<or> unat v = 2 \<or> unat v = 3 \<or> unat v = 4 \<or> unat v = 5 \<or> unat v = 6 \<or> unat v = 7"
    by linarith
  then have "v = 0 \<or> v = 1 \<or> v = 2 \<or> v = 3 \<or> v = 4 \<or> v = 5 \<or> v = 6 \<or> v = 7"
    by (simp add: word_unat_eq_iff)
  then show ?thesis by (metis op_bits.simps)
qed

text \<open>
  A header is turned into an event exactly when its operation is known and valid and, unless it
  carries data, its length is zero; the event then has the header's addresses and credit, and its
  type is the one of the operation. Every other header is refused with the error of its first
  defect.
\<close>

theorem event_from_header_spec:
  "event_from_header h =
     (if op_field h > 7 then Inl (SocketDeviceError (UnknownOperation (op_field h)))
      else if op_field h = op_bits OpInvalid then Inl (SocketDeviceError InvalidOperation)
      else if op_field h \<noteq> op_bits OpRw \<and> hdr_len h \<noteq> 0 then Inl (SocketDeviceError UnexpectedDataInPacket)
      else Inr \<lparr>ev_source = \<lparr>cid = src_cid h, port = hdr_src_port h\<rparr>,
        ev_destination = \<lparr>cid = dst_cid h, port = dst_port h\<rparr>,
        buffer_status = \<lparr>buffer_allocation = hdr_buf_alloc h, forward_count = hdr_fwd_cnt h\<rparr>,
        event_type = [ConnectionRequest, Connected, Disconnected Reset, Disconnected Shutdown,
          Received (ucast (hdr_len h)), CreditUpdate, CreditRequest] ! (unat (op_field h) - 1)\<rparr>)"
proof (cases "op_field h > 7")
  case True
  then have "op_try_from (op_field h) = Inl (UnknownOperation (op_field h))"
    by (auto simp: op_try_from_def word_less_nat_alt)
  with True show ?thesis by (simp add: event_from_header_def hdr_op_def)
next
  case False
  then obtain op where op: "op_field h = op_bits op" using small_op [of "op_field h"] by auto
  with False show ?thesis
    by (cases op) (simp_all add: event_from_header_def hdr_op_def op_try_from_def hdr_source_def hdr_destination_def
        check_data_is_empty_def)
qed

end
