(* ===== verification/Vsock.thy ===== *)
theory Vsock
  imports Vsock_Protocol
begin

text \<open>
  The low-level driver of virtio socket devices (\<open>src/virtio-drivers/src/device/socket/vsock.rs\<close>):
  the credit accounting of a connection, and the operations of \<open>VirtIOSocket\<close> on its queues.
  \<open>bsz\<close> is \<open>RX_BUFFER_SIZE\<close>; \<open>device\<close> is what the device does while the driver spins.
\<close>

section \<open>Definitions\<close>

definition RX_QUEUE_IDX :: u16 where "RX_QUEUE_IDX = 0"
definition TX_QUEUE_IDX :: u16 where "TX_QUEUE_IDX = 1"
definition EVENT_QUEUE_IDX :: u16 where "EVENT_QUEUE_IDX = 2"
definition QUEUE_SIZE :: nat where "QUEUE_SIZE = 8"

definition vsock_supported_features :: u64 where
  "vsock_supported_features = RING_EVENT_IDX OR RING_INDIRECT_DESC OR VERSION_1 OR ACCESS_PLATFORM"

record connection_info =
  dst :: vsock_addr
  src_port :: u32
  peer_buf_alloc :: u32
  peer_fwd_cnt :: u32
  tx_cnt :: u32
  buf_alloc :: u32
  fwd_cnt :: u32
  has_pending_credit_request :: bool

definition connection_info_new :: "vsock_addr \<Rightarrow> u32 \<Rightarrow> connection_info" where
  "connection_info_new destination p = \<lparr>dst = destination, src_port = p, peer_buf_alloc = 0,
     peer_fwd_cnt = 0, tx_cnt = 0, buf_alloc = 0, fwd_cnt = 0, has_pending_credit_request = False\<rparr>"

definition update_for_event :: "vsock_event \<Rightarrow> connection_info \<Rightarrow> connection_info" where
  "update_for_event ev ci =
     (let ci = ci\<lparr>peer_buf_alloc := buffer_allocation (buffer_status ev)\<rparr>;
          ci = ci\<lparr>peer_fwd_cnt := forward_count (buffer_status ev)\<rparr>
      in if event_type ev = CreditUpdate then ci\<lparr>has_pending_credit_request := False\<rparr> else ci)"

definition done_forwarding :: "nat \<Rightarrow> connection_info \<Rightarrow> connection_info" where
  "done_forwarding n ci = ci\<lparr>fwd_cnt := fwd_cnt ci + of_nat n\<rparr>"

definition peer_free :: "connection_info \<Rightarrow> u32" where
  "peer_free ci = peer_buf_alloc ci - (tx_cnt ci - peer_fwd_cnt ci)"

definition new_header :: "u64 \<Rightarrow> connection_info \<Rightarrow> vsock_hdr" where
  "new_header src ci = hdr_default\<lparr>src_cid := src, dst_cid := cid (dst ci), hdr_src_port := src_port ci,
     dst_port := port (dst ci), hdr_buf_alloc := buf_alloc ci, hdr_fwd_cnt := fwd_cnt ci\<rparr>"

definition matches_connection :: "vsock_event \<Rightarrow> connection_info \<Rightarrow> u64 \<Rightarrow> bool" where
  "matches_connection ev ci local_cid \<longleftrightarrow> ev_source ev = dst ci \<and> cid (ev_destination ev) = local_cid
     \<and> port (ev_destination ev) = src_port ci"

record 't virtio_socket =
  sock_transport :: 't
  rx :: owning_queue
  tx :: virt_queue
  event_queue :: virt_queue
  guest_cid :: u64

text \<open>The closure passed to \<open>read_consistent\<close>.\<close>

definition read_guest_cid :: "'t transport \<Rightarrow> 't \<Rightarrow> u64 result \<times> 't" where
  "read_guest_cid tr t =
     (case read_config tr 0 4 t of
        (Inl e, t) \<Rightarrow> (Inl e, t)
      | (Inr (low :: u32), t) \<Rightarrow>
          (case read_config tr 4 4 t of
             (Inl e, t) \<Rightarrow> (Inl e, t)
           | (Inr (high :: u32), t) \<Rightarrow> (Inr (ucast low OR push_bit 32 (ucast high)), t)))"

definition vsock_new :: "'h hal \<Rightarrow> 't transport \<Rightarrow> u64 \<Rightarrow> 't \<Rightarrow> 'h
    \<Rightarrow> ('t virtio_socket result \<times> 't \<times> 'h) option" where
  "vsock_new hal tr bsz t h = do {
     assert (bsz > of_nat HDR_SIZE);
     let (negotiated, t) = begin_init tr vsock_features vsock_supported_features t;
     (r, t) \<leftarrow> read_consistent tr (read_guest_cid tr) t;
     (case r of Inl e \<Rightarrow> Some (Inl e, t, h) | Inr gcid \<Rightarrow> do {
       (r, t, h) \<leftarrow> features_queue hal tr QUEUE_SIZE RX_QUEUE_IDX negotiated t h;
       (case r of Inl e \<Rightarrow> Some (Inl e, t, h) | Inr rxq \<Rightarrow> do {
         (r, t, h) \<leftarrow> features_queue hal tr QUEUE_SIZE TX_QUEUE_IDX negotiated t h;
         (case r of Inl e \<Rightarrow> do { h \<leftarrow> queue_drop hal rxq h; Some (Inl e, t, h) } | Inr txq \<Rightarrow> do {
           (r, t, h) \<leftarrow> features_queue hal tr QUEUE_SIZE EVENT_QUEUE_IDX negotiated t h;
           (case r of
              Inl e \<Rightarrow> do { h \<leftarrow> queue_drop hal txq h; h \<leftarrow> queue_drop hal rxq h; Some (Inl e, t, h) }
            | Inr eventq \<Rightarrow> do {
                (r, h) \<leftarrow> owning_new hal bsz rxq h;
                (case r of
                   Inl e \<Rightarrow> do { h \<leftarrow> queue_drop hal eventq h; h \<leftarrow> queue_drop hal txq h; Some (Inl e, t, h) }
                 | Inr rxo \<Rightarrow> do {
                     let t = finish_init tr t;
                     let t = (if owning_should_notify rxo then notify tr RX_QUEUE_IDX t else t);
                     Some (Inr \<lparr>sock_transport = t, rx = rxo, tx = txq, event_queue = eventq, guest_cid = gcid\<rparr>, t, h)
                   })
              })
         })
       })
     })
   }"

text \<open>A header lies on the stack while it is sent; \<open>empty_slice\<close> is the argument \<open>&[]\<close>.\<close>

definition empty_slice :: slice where
  "empty_slice = \<lparr>slice_ptr = 1, slice_len = 0\<rparr>"

definition send_packet_to_tx_queue :: "'h hal \<Rightarrow> 't transport \<Rightarrow> (virt_queue \<Rightarrow> virt_queue) \<Rightarrow> vsock_hdr \<Rightarrow> slice
    \<Rightarrow> 't virtio_socket \<Rightarrow> 'h \<Rightarrow> (unit result \<times> 't virtio_socket \<times> 'h) option" where
  "send_packet_to_tx_queue hal tr device header buffer s h = do {
     let p = stack_slot hal HDR_SIZE h;
     let h = mem_store hal p (hdr_bytes header) h;
     let hdr = \<lparr>slice_ptr = p, slice_len = of_nat HDR_SIZE\<rparr>;
     (r, q, t, h) \<leftarrow> (if slice_len buffer = 0
        then add_notify_wait_pop hal tr device [hdr] [] (tx s) (sock_transport s) h
        else add_notify_wait_pop hal tr device [hdr, buffer] [] (tx s) (sock_transport s) h);
     let s = s\<lparr>tx := q, sock_transport := t\<rparr>;
     (case r of Inl e \<Rightarrow> Some (Inl e, s, h) | Inr _ \<Rightarrow> Some (Inr (), s, h))
   }"

definition vsock_connect :: "'h hal \<Rightarrow> 't transport \<Rightarrow> (virt_queue \<Rightarrow> virt_queue) \<Rightarrow> connection_info
    \<Rightarrow> 't virtio_socket \<Rightarrow> 'h \<Rightarrow> (unit result \<times> 't virtio_socket \<times> 'h) option" where
  "vsock_connect hal tr device ci s h =
     send_packet_to_tx_queue hal tr device ((new_header (guest_cid s) ci)\<lparr>op_field := op_bits OpRequest\<rparr>) empty_slice s h"

definition vsock_accept :: "'h hal \<Rightarrow> 't transport \<Rightarrow> (virt_queue \<Rightarrow> virt_queue) \<Rightarrow> connection_info
    \<Rightarrow> 't virtio_socket \<Rightarrow> 'h \<Rightarrow> (unit result \<times> 't virtio_socket \<times> 'h) option" where
  "vsock_accept hal tr device ci s h =
     send_packet_to_tx_queue hal tr device ((new_header (guest_cid s) ci)\<lparr>op_field := op_bits OpResponse\<rparr>) empty_slice s h"

definition request_credit :: "'h hal \<Rightarrow> 't transport \<Rightarrow> (virt_queue \<Rightarrow> virt_queue) \<Rightarrow> connection_info
    \<Rightarrow> 't virtio_socket \<Rightarrow> 'h \<Rightarrow> (unit result \<times> 't virtio_socket \<times> 'h) option" where
  "request_credit hal tr device ci s h =
     send_packet_to_tx_queue hal tr device ((new_header (guest_cid s) ci)\<lparr>op_field := op_bits OpCreditRequest\<rparr>) empty_slice s h"

definition check_peer_buffer_is_sufficient :: "'h hal \<Rightarrow> 't transport \<Rightarrow> (virt_queue \<Rightarrow> virt_queue) \<Rightarrow> u64
    \<Rightarrow> connection_info \<Rightarrow> 't virtio_socket \<Rightarrow> 'h
    \<Rightarrow> (unit result \<times> connection_info \<times> 't virtio_socket \<times> 'h) option" where
  "check_peer_buffer_is_sufficient hal tr device buffer_len ci s h =
     (if ucast (peer_free ci) \<ge> buffer_len then Some (Inr (), ci, s, h)
      else if \<not> has_pending_credit_request ci then do {
        (r, s, h) \<leftarrow> request_credit hal tr device ci s h;
        (case r of
           Inl e \<Rightarrow> Some (Inl e, ci, s, h)
         | Inr _ \<Rightarrow> Some (Inl (SocketDeviceError InsufficientBufferSpaceInPeer),
             ci\<lparr>has_pending_credit_request := True\<rparr>, s, h))
      }
      else Some (Inl (SocketDeviceError InsufficientBufferSpaceInPeer), ci, s, h))"

definition vsock_send :: "'h hal \<Rightarrow> 't transport \<Rightarrow> (virt_queue \<Rightarrow> virt_queue) \<Rightarrow> slice
    \<Rightarrow> connection_info \<Rightarrow> 't virtio_socket \<Rightarrow> 'h
    \<Rightarrow> (unit result \<times> connection_info \<times> 't virtio_socket \<times> 'h) option" where
  "vsock_send hal tr device buffer ci s h = do {
     (r, ci, s, h) \<leftarrow> check_peer_buffer_is_sufficient hal tr device (slice_len buffer) ci s h;
     (case r of
        Inl e \<Rightarrow> Some (Inl e, ci, s, h)
      | Inr _ \<Rightarrow> do {
          let n = ucast (slice_len buffer);
          let header = (new_header (guest_cid s) ci)\<lparr>op_field := op_bits OpRw, hdr_len := n\<rparr>;
          let ci = ci\<lparr>tx_cnt := tx_cnt ci + n\<rparr>;
          (r, s, h) \<leftarrow> send_packet_to_tx_queue hal tr device header buffer s h;
          Some (r, ci, s, h)
        })
   }"

definition credit_update :: "'h hal \<Rightarrow> 't transport \<Rightarrow> (virt_queue \<Rightarrow> virt_queue) \<Rightarrow> connection_info
    \<Rightarrow> 't virtio_socket \<Rightarrow> 'h \<Rightarrow> (unit result \<times> 't virtio_socket \<times> 'h) option" where
  "credit_update hal tr device ci s h =
     send_packet_to_tx_queue hal tr device ((new_header (guest_cid s) ci)\<lparr>op_field := op_bits OpCreditUpdate\<rparr>) empty_slice s h"

text \<open>The closure that \<open>VirtIOSocket::poll\<close> passes to the receive queue.\<close>

definition packet_handler :: "(vsock_event \<Rightarrow> u8 list \<Rightarrow> 'c \<Rightarrow> (vsock_event option result \<times> 'c) option)
    \<Rightarrow> u8 list \<Rightarrow> 'c \<Rightarrow> (vsock_event option result \<times> 'c) option" where
  "packet_handler handler buffer c =
     (case read_header_and_body buffer of
        Inl e \<Rightarrow> Some (Inl e, c)
      | Inr (header, body) \<Rightarrow>
          (case event_from_header header of
             Inl e \<Rightarrow> Some (Inl e, c)
           | Inr event \<Rightarrow> handler event body c))"

definition vsock_poll :: "'h hal \<Rightarrow> 't transport \<Rightarrow> u64
    \<Rightarrow> (vsock_event \<Rightarrow> u8 list \<Rightarrow> 'c \<Rightarrow> (vsock_event option result \<times> 'c) option)
    \<Rightarrow> 't virtio_socket \<Rightarrow> 'h \<Rightarrow> 'c \<Rightarrow> (vsock_event option result \<times> 't virtio_socket \<times> 'h \<times> 'c) option" where
  "vsock_poll hal tr bsz handler s h c = do {
     (r, oq, t, h, c) \<leftarrow> poll hal tr bsz (packet_handler handler) (rx s) (sock_transport s) h c;
     Some (r, s\<lparr>rx := oq, sock_transport := t\<rparr>, h, c)
   }"

definition shutdown_with_hints :: "'h hal \<Rightarrow> 't transport \<Rightarrow> (virt_queue \<Rightarrow> virt_queue) \<Rightarrow> connection_info \<Rightarrow> u32
    \<Rightarrow> 't virtio_socket \<Rightarrow> 'h \<Rightarrow> (unit result \<times> 't virtio_socket \<times> 'h) option" where
  "shutdown_with_hints hal tr device ci hints s h =
     send_packet_to_tx_queue hal tr device
       ((new_header (guest_cid s) ci)\<lparr>op_field := op_bits OpShutdown, flags_field := hints\<rparr>) empty_slice s h"

definition vsock_shutdown :: "'h hal \<Rightarrow> 't transport \<Rightarrow> (virt_queue \<Rightarrow> virt_queue) \<Rightarrow> connection_info
    \<Rightarrow> 't virtio_socket \<Rightarrow> 'h \<Rightarrow> (unit result \<times> 't virtio_socket \<times> 'h) option" where
  "vsock_shutdown hal tr device ci s h =
     shutdown_with_hints hal tr device ci (SHUTDOWN_SEND OR SHUTDOWN_RECEIVE) s h"

definition vsock_force_close :: "'h hal \<Rightarrow> 't transport \<Rightarrow> (virt_queue \<Rightarrow> virt_queue) \<Rightarrow> connection_info
    \<Rightarrow> 't virtio_socket \<Rightarrow> 'h \<Rightarrow> (unit result \<times> 't virtio_socket \<times> 'h) option" where
  "vsock_force_close hal tr device ci s h =
     send_packet_to_tx_queue hal tr device ((new_header (guest_cid s) ci)\<lparr>op_field := op_bits OpRst\<rparr>) empty_slice s h"

text \<open>The destructor unsets the queues, then the fields are dropped.\<close>

definition vsock_drop :: "'h hal \<Rightarrow> 't transport \<Rightarrow> 't virtio_socket \<Rightarrow> 'h \<Rightarrow> ('t \<times> 'h) option" where
  "vsock_drop hal tr s h = do {
     let t = queue_unset tr RX_QUEUE_IDX (sock_transport s);
     let t = queue_unset tr TX_QUEUE_IDX t;
     let t = queue_unset tr EVENT_QUEUE_IDX t;
     h \<leftarrow> owning_drop hal (rx s) h;
     h \<leftarrow> queue_drop hal (tx s) h;
     h \<leftarrow> queue_drop hal (event_queue s) h;
     Some (t, h)
   }"

end
