(* ===== verification/Vsock_Spec.thy ===== *)
theory Vsock_Spec
  imports Vsock
begin

text \<open>
  Properties of the low-level socket driver: construction, the packets it sends and their meaning to
  the peer, and the credit accounting.
\<close>

section \<open>Sending\<close>

text \<open>
  The transmit queue is idle and \<open>device\<close> serves it: it only writes the used ring and returns the
  published request after finitely many steps.
\<close>

definition tx_ready :: "(virt_queue \<Rightarrow> virt_queue) \<Rightarrow> virt_queue \<Rightarrow> bool" where
  "tx_ready device q \<longleftrightarrow> writes_used_only device \<and> (\<exists>fl. vq_inv q fl [] \<and> SIZE q = QUEUE_SIZE)
     \<and> (\<forall>f q'. added q f q' \<longrightarrow> shape_ok q' \<longrightarrow> serves device q' (token_of f))"

definition sent :: "'t virtio_socket \<Rightarrow> 't virtio_socket \<Rightarrow> bool" where
  "sent s s' \<longleftrightarrow> rx s' = rx s \<and> event_queue s' = event_queue s \<and> guest_cid s' = guest_cid s
     \<and> (\<exists>fl. vq_inv (tx s') fl []) \<and> last_used_idx (tx s') = last_used_idx (tx s) + 1
     \<and> avail_idx (tx s') = avail_idx (tx s) + 1"

lemma idle_available:
  assumes "vq_inv q fl []"
  shows "available_desc q = SIZE q"
proof -
  have "unat (num_used q) = 0" using vq_invD(7) [OF assms] by (simp add: occupied_def)
  with shape_size [OF vq_invD(1) [OF assms]] show ?thesis by (simp add: available_desc_def)
qed

lemma send_packet_ok:
  assumes ready: "tx_ready device (tx s)" and law: "hal_box_law hal" and len: "unat (slice_len buffer) < 2 ^ 32"
  shows "\<exists>s' h'. send_packet_to_tx_queue hal tr device header buffer s h = Some (Inr (), s', h') \<and> sent s s'"
proof -
  obtain fl where fl: "vq_inv (tx s) fl []" "SIZE (tx s) = 8" "writes_used_only device"
    "\<And>f q'. added (tx s) f q' \<Longrightarrow> shape_ok q' \<Longrightarrow> serves device q' (token_of f)"
    using ready by (auto simp: tx_ready_def QUEUE_SIZE_def)
  define hdr where "hdr = \<lparr>slice_ptr = stack_slot hal HDR_SIZE h, slice_len = of_nat HDR_SIZE\<rparr>"
  define bufs where "bufs = (if slice_len buffer = 0 then [hdr] else [hdr, buffer])"
  have "list_all buf_ok (input_output bufs [])" "input_output bufs [] \<noteq> []"
    "length (input_output bufs []) \<le> available_desc (tx s)"
    using len idle_available [OF fl(1)] fl(2)
    by (auto simp: bufs_def hdr_def input_output_def buf_ok_def HDR_SIZE_def)
  from add_notify_wait_pop_ok [OF fl(1) this law fl(3,4), of tr "sock_transport s" "mem_store hal (slice_ptr hdr) (hdr_bytes header) h"]
  obtain n q2 t2 h' where "add_notify_wait_pop hal tr device bufs [] (tx s) (sock_transport s)
      (mem_store hal (slice_ptr hdr) (hdr_bytes header) h) = Some (Inr n, q2, t2, h')"
    "vq_inv q2 fl []" "last_used_idx q2 = last_used_idx (tx s) + 1" "avail_idx q2 = avail_idx (tx s) + 1"
    by blast
  then show ?thesis
    by (auto simp: send_packet_to_tx_queue_def Let_def hdr_def [symmetric] bufs_def sent_def split: if_splits)
      (auto simp: hdr_def)
qed

section \<open>Construction\<close>

text \<open>What \<open>vsock_new\<close> relies on of the transport: the queues are unused and big enough, and the
  configuration does not change while it is read.\<close>

definition fresh_transport :: "'t transport \<Rightarrow> nat \<Rightarrow> bool" where
  "fresh_transport tr n \<longleftrightarrow> (\<forall>i t. \<not> fst (queue_used tr i t)) \<and> (\<forall>i t. of_nat n \<le> fst (max_queue_size tr i t))
     \<and> (\<forall>t t'. fst (read_config_generation tr t) = fst (read_config_generation tr t'))"

lemma features_queue_ok:
  assumes tr: "fresh_transport tr n" and law: "hal_dma_law hal" "hal_dealloc_law hal"
    and n: "n < 2 ^ 16" "is_power_of_two (of_nat n :: u16)"
  shows "\<exists>r t' h'. features_queue hal tr n idx f t h = Some (r, t', h') \<and> (r = Inl DmaError \<or>
    (\<exists>L. r = Inr (fresh_queue L n idx (contains f RING_INDIRECT_DESC) (contains f RING_EVENT_IDX) (contains f ACCESS_PLATFORM))))"
proof -
  obtain used t1 where u: "queue_used tr idx t = (used, t1)" by (rule prod.exhaust)
  obtain m t2 where m: "max_queue_size tr idx t1 = (m, t2)" by (rule prod.exhaust)
  have "\<not> used" "\<not> m < of_nat n"
    using tr u m unfolding fresh_transport_def by (metis fst_conv, metis fst_conv linorder_not_less)
  with new_queue_run [OF n law u m, of "contains f RING_INDIRECT_DESC" "contains f RING_EVENT_IDX" "contains f ACCESS_PLATFORM" h]
  show ?thesis by (auto simp: features_queue_def)
qed

lemma queue_drop_ok:
  assumes "hal_dealloc_law hal"
  shows "\<exists>h'. queue_drop hal q h = Some h'"
proof -
  have "\<exists>h'. dma_drop hal d h = Some h'" for d h
    using assms by (auto simp: dma_drop_def hal_dealloc_law_def split: prod.splits) (metis fst_conv)
  then show ?thesis by (cases "layout q") (simp_all add: queue_drop_def, metis bind.bind_lunit)
qed

lemma read_consistent_stable:
  assumes "fresh_transport tr n"
  shows "\<exists>r t'. read_consistent tr f t = Some (r, t') \<and> (\<exists>t1. r = fst (f t1))"
proof -
  obtain b t1 where 1: "read_config_generation tr t = (b, t1)" by (rule prod.exhaust)
  obtain r t2 where 2: "f t1 = (r, t2)" by (rule prod.exhaust)
  obtain a t3 where 3: "read_config_generation tr t2 = (a, t3)" by (rule prod.exhaust)
  have "a = b" using assms 1 3 unfolding fresh_transport_def by (metis fst_conv)
  then show ?thesis
    by (subst read_consistent.simps) (simp add: 1 2 3, metis 2 fst_conv)
qed

section \<open>Properties\<close>

text \<open>
  Constructing the driver ends without a panic, whatever memory allocations fail: in \<open>DmaError\<close>, in
  an error of reading the configuration, or with all receive buffers offered to the device, empty
  transmit and event queues, and the context id the device has in its configuration.
\<close>

theorem vsock_new_correct:
  assumes tr: "fresh_transport tr QUEUE_SIZE" and law: "hal_dma_law hal" "hal_dealloc_law hal"
    "hal_box_law hal" "hal_box_nonnull hal" and bsz: "of_nat HDR_SIZE < bsz" "unat bsz < 2 ^ 32"
  shows "\<exists>r t' h'. vsock_new hal tr bsz t h = Some (r, t', h')
    \<and> (case r of
         Inl e \<Rightarrow> e = DmaError \<or> (\<exists>t1. fst (read_guest_cid tr t1) = Inl e)
       | Inr s \<Rightarrow> owning_inv bsz (rx s) [] \<and> length (buffers (rx s)) = QUEUE_SIZE
           \<and> (\<exists>fl. vq_inv (tx s) fl []) \<and> (\<exists>fl. vq_inv (event_queue s) fl [])
           \<and> map queue_idx [queue (rx s), tx s, event_queue s] = [0, 1, 2]
           \<and> (\<exists>t1. fst (read_guest_cid tr t1) = Inr (guest_cid s)))"
proof -
  obtain f t1 where f: "begin_init tr vsock_features vsock_supported_features t = (f, t1)" by (rule prod.exhaust)
  obtain g t2 t0 where g: "read_consistent tr (read_guest_cid tr) t1 = Some (g, t2)" "g = fst (read_guest_cid tr t0)"
    using read_consistent_stable [OF tr] by metis
  let ?q = "\<lambda>L idx. fresh_queue L 8 idx (contains f RING_INDIRECT_DESC) (contains f RING_EVENT_IDX) (contains f ACCESS_PLATFORM)"
  have p8: "(8::nat) < 2 ^ 16" "is_power_of_two (of_nat 8 :: u16)" by (simp_all add: is_power_of_two_def)
  have Q: "\<exists>r t' h'. features_queue hal tr 8 idx f t h = Some (r, t', h') \<and> (r = Inl DmaError \<or> (\<exists>L. r = Inr (?q L idx)))" for idx t h
    using features_queue_ok [OF tr [unfolded QUEUE_SIZE_def] law(1,2) p8] .
  have D: "\<exists>h'. queue_drop hal q h = Some h'" for q h using queue_drop_ok [OF law(2)] .
  have nz: "bsz \<noteq> 0" using bsz(1) by auto
  obtain r1 t3 h1 where 1: "features_queue hal tr 8 RX_QUEUE_IDX f t2 h = Some (r1, t3, h1)"
    "r1 = Inl DmaError \<or> (\<exists>L. r1 = Inr (?q L RX_QUEUE_IDX))" using Q by metis
  obtain r2 t4 h2 where 2: "features_queue hal tr 8 TX_QUEUE_IDX f t3 h1 = Some (r2, t4, h2)"
    "r2 = Inl DmaError \<or> (\<exists>L. r2 = Inr (?q L TX_QUEUE_IDX))" using Q by metis
  obtain r3 t5 h3 where 3: "features_queue hal tr 8 EVENT_QUEUE_IDX f t4 h2 = Some (r3, t5, h3)"
    "r3 = Inl DmaError \<or> (\<exists>L. r3 = Inr (?q L EVENT_QUEUE_IDX))" using Q by metis
  show ?thesis
  proof (cases "\<exists>L1 L2 L3 gcid. g = Inr gcid \<and> r1 = Inr (?q L1 RX_QUEUE_IDX) \<and> r2 = Inr (?q L2 TX_QUEUE_IDX)
      \<and> r3 = Inr (?q L3 EVENT_QUEUE_IDX)")
    case True
    then obtain L1 L2 L3 gcid where R: "g = Inr gcid" "r1 = Inr (?q L1 RX_QUEUE_IDX)" "r2 = Inr (?q L2 TX_QUEUE_IDX)"
      "r3 = Inr (?q L3 EVENT_QUEUE_IDX)" by blast
    obtain oq h4 where "owning_new hal bsz (?q L1 RX_QUEUE_IDX) h3 = Some (Inr oq, h4)" "owning_inv bsz oq []"
      "length (buffers oq) = 8" "queue_idx (queue oq) = RX_QUEUE_IDX"
      using owning_new_ok [OF p8 nz bsz(2) law(3,4)] by metis
    moreover have "\<exists>fl. vq_inv (?q L idx) fl []" for L idx using fresh_inv [OF p8(2,1)] by blast
    moreover have "\<exists>t1. fst (read_guest_cid tr t1) = Inr gcid" using g(2) R(1) by metis
    ultimately show ?thesis
      using f g(1) R 1(1) 2(1) 3(1) bsz(1)
      by (simp add: vsock_new_def QUEUE_SIZE_def fresh_fields Let_def RX_QUEUE_IDX_def TX_QUEUE_IDX_def EVENT_QUEUE_IDX_def)
  next
    case False
    show ?thesis
    proof (cases g)
      case (Inl e)
      with g(2) have "\<exists>t1. fst (read_guest_cid tr t1) = Inl e" by metis
      with Inl f g(1) bsz(1) show ?thesis by (simp add: vsock_new_def)
    next
      case (Inr gcid)
      then consider "r1 = Inl DmaError" | L1 where "r1 = Inr (?q L1 RX_QUEUE_IDX)" "r2 = Inl DmaError"
        | L1 L2 where "r1 = Inr (?q L1 RX_QUEUE_IDX)" "r2 = Inr (?q L2 TX_QUEUE_IDX)" "r3 = Inl DmaError"
        using False 1(2) 2(2) 3(2) by blast
      then show ?thesis
      proof cases
        case 1
        then show ?thesis using Inr f g(1) bsz(1) \<open>features_queue hal tr 8 RX_QUEUE_IDX f t2 h = _\<close>
          by (simp add: vsock_new_def QUEUE_SIZE_def)
      next
        case 2
        obtain h' where "queue_drop hal (?q L1 RX_QUEUE_IDX) h2 = Some h'" using D by metis
        with 2 show ?thesis using Inr f g(1) bsz(1) 1(1) \<open>features_queue hal tr 8 TX_QUEUE_IDX f t3 h1 = _\<close>
          by (simp add: vsock_new_def QUEUE_SIZE_def)
      next
        case 3
        obtain h' h'' where "queue_drop hal (?q L2 TX_QUEUE_IDX) h3 = Some h'"
          "queue_drop hal (?q L1 RX_QUEUE_IDX) h' = Some h''" using D by metis
        with 3 show ?thesis using Inr f g(1) bsz(1) 1(1) 2(1) \<open>features_queue hal tr 8 EVENT_QUEUE_IDX f t4 h2 = _\<close>
          by (simp add: vsock_new_def QUEUE_SIZE_def)
      qed
    qed
  qed
qed


theorem vsock_new_correct_witness:
  "\<exists>r t' h'. vsock_new bump_hal (recording 0 (\<lambda>_. 8) False) 512 [] 0x10000 = Some (r, t', h')
    \<and> (case r of Inl e \<Rightarrow> e = DmaError | Inr s \<Rightarrow> owning_inv 512 (rx s) [])"
proof -
  have "fst (read_guest_cid (recording 0 (\<lambda>_. 8) False) t1) \<noteq> Inl e" for t1 e
    by (simp add: read_guest_cid_def read_config_def recording_def)
  moreover have "fresh_transport (recording 0 (\<lambda>_. 8) False) QUEUE_SIZE"
    by (simp add: fresh_transport_def recording_def QUEUE_SIZE_def)
  ultimately show ?thesis
    using vsock_new_correct [of "recording 0 (\<lambda>_. 8) False" bump_hal 512 "[]" "0x10000"]
      bump_hal_law bump_hal_laws bump_hal_nonnull
    by (fastforce simp: HDR_SIZE_def split: sum.splits)
qed

text \<open>The packet of this header and this data, parsed as the receiver parses it.\<close>

definition means :: "vsock_hdr \<Rightarrow> u8 list \<Rightarrow> u64 \<Rightarrow> connection_info \<Rightarrow> vsock_event_type \<Rightarrow> bool" where
  "means header data src ci ty \<longleftrightarrow>
     (case read_header_and_body (hdr_bytes header @ data) of
        Inl _ \<Rightarrow> False
      | Inr (parsed, body) \<Rightarrow> body = data \<and> event_from_header parsed = Inr
          \<lparr>ev_source = \<lparr>cid = src, port = src_port ci\<rparr>, ev_destination = dst ci,
           buffer_status = \<lparr>buffer_allocation = buf_alloc ci, forward_count = fwd_cnt ci\<rparr>,
           event_type = ty\<rparr>)"

lemma read_own_packet:
  assumes "unat (hdr_len header) = length data"
  shows "read_header_and_body (hdr_bytes header @ data) = Inr (header, data)"
proof -
  have "unat (hdr_len header) < 2 ^ 32" by (rule unat_u32_lt)
  with assms show ?thesis
    by (simp add: read_header_and_body_def hdr_parse_bytes HDR_SIZE_def unat_ucast_len Let_def)
qed

lemma means_control:
  assumes "op \<in> {OpRequest, OpResponse, OpRst, OpShutdown, OpCreditUpdate, OpCreditRequest}"
  shows "means ((new_header src ci)\<lparr>op_field := op_bits op, flags_field := fl\<rparr>) [] src ci
    (case op of OpRequest \<Rightarrow> ConnectionRequest | OpResponse \<Rightarrow> Connected | OpRst \<Rightarrow> Disconnected Reset
     | OpShutdown \<Rightarrow> Disconnected Shutdown | OpCreditUpdate \<Rightarrow> CreditUpdate | OpCreditRequest \<Rightarrow> CreditRequest)"
  using assms read_own_packet [of "(new_header src ci)\<lparr>op_field := op_bits op, flags_field := fl\<rparr>" "[]"]
  by (auto simp: means_def event_from_header_def hdr_op_def op_try_from_bits new_header_def hdr_default_def
      check_data_is_empty_def hdr_source_def hdr_destination_def Let_def simp del: op_bits.simps)

lemma means_plain:
  assumes "op \<in> {OpRequest, OpResponse, OpRst, OpCreditUpdate, OpCreditRequest}"
  shows "means ((new_header src ci)\<lparr>op_field := op_bits op\<rparr>) [] src ci
    (case op of OpRequest \<Rightarrow> ConnectionRequest | OpResponse \<Rightarrow> Connected | OpRst \<Rightarrow> Disconnected Reset
     | OpCreditUpdate \<Rightarrow> CreditUpdate | OpCreditRequest \<Rightarrow> CreditRequest)"
proof -
  have "(new_header src ci)\<lparr>op_field := op_bits op\<rparr> = (new_header src ci)\<lparr>op_field := op_bits op, flags_field := 0\<rparr>"
    by (simp add: new_header_def hdr_default_def)
  with assms means_control [of op 0 src ci] show ?thesis by (auto simp del: op_bits.simps)
qed

text \<open>
  C17. Every control packet of the driver means to the peer what the operation is called: the packet
  that is sent, parsed as the receiver parses it, is the event of that type, from our address
  to the peer's address of the connection, and carries our current buffer size and
  forwarded count.
\<close>

theorem control_packets_understood:
  "(\<exists>header. vsock_connect hal tr device ci s h = send_packet_to_tx_queue hal tr device header empty_slice s h
      \<and> means header [] (guest_cid s) ci ConnectionRequest)
   \<and> (\<exists>header. vsock_accept hal tr device ci s h = send_packet_to_tx_queue hal tr device header empty_slice s h
      \<and> means header [] (guest_cid s) ci Connected)
   \<and> (\<exists>header. request_credit hal tr device ci s h = send_packet_to_tx_queue hal tr device header empty_slice s h
      \<and> means header [] (guest_cid s) ci CreditRequest)
   \<and> (\<exists>header. credit_update hal tr device ci s h = send_packet_to_tx_queue hal tr device header empty_slice s h
      \<and> means header [] (guest_cid s) ci CreditUpdate)
   \<and> (\<exists>header. vsock_shutdown hal tr device ci s h = send_packet_to_tx_queue hal tr device header empty_slice s h
      \<and> means header [] (guest_cid s) ci (Disconnected Shutdown))
   \<and> (\<exists>header. vsock_force_close hal tr device ci s h = send_packet_to_tx_queue hal tr device header empty_slice s h
      \<and> means header [] (guest_cid s) ci (Disconnected Reset))"
  unfolding vsock_connect_def vsock_accept_def request_credit_def credit_update_def vsock_shutdown_def
    shutdown_with_hints_def vsock_force_close_def
  using means_plain [of OpRequest "guest_cid s" ci] means_plain [of OpResponse "guest_cid s" ci]
    means_plain [of OpCreditRequest "guest_cid s" ci] means_plain [of OpCreditUpdate "guest_cid s" ci]
    means_control [of OpShutdown _ "guest_cid s" ci] means_plain [of OpRst "guest_cid s" ci]
  by (intro conjI; intro exI conjI, (rule refl)?; simp del: op_bits.simps)

section \<open>Credit\<close>

text \<open>The peer has room for everything we sent and it did not forward yet.\<close>

definition in_flight :: "connection_info \<Rightarrow> nat" where
  "in_flight ci = unat (tx_cnt ci - peer_fwd_cnt ci)"

definition credit_ok :: "connection_info \<Rightarrow> bool" where
  "credit_ok ci \<longleftrightarrow> in_flight ci \<le> unat (peer_buf_alloc ci)"

lemma unat_peer_free:
  assumes "credit_ok ci"
  shows "unat (peer_free ci) = unat (peer_buf_alloc ci) - in_flight ci"
  using assms by (simp add: peer_free_def credit_ok_def in_flight_def unat_sub word_le_nat_alt)

lemma in_flight_send:
  assumes "in_flight ci + unat n < 2 ^ 32"
  shows "in_flight (ci\<lparr>tx_cnt := tx_cnt ci + n\<rparr>) = in_flight ci + unat n"
proof -
  have "in_flight (ci\<lparr>tx_cnt := tx_cnt ci + n\<rparr>) = unat ((tx_cnt ci - peer_fwd_cnt ci) + n)"
    by (simp add: in_flight_def diff_add_eq)
  with assms unat_add_lt [of "tx_cnt ci - peer_fwd_cnt ci" n] show ?thesis by (simp add: in_flight_def)
qed


text \<open>An idle socket with the sample device, for the witnesses.\<close>

definition sample_tx :: virt_queue where
  "sample_tx = fresh_queue sample_layout 8 TX_QUEUE_IDX True True False"

definition sample_socket :: "register_write list virtio_socket" where
  "sample_socket = \<lparr>sock_transport = [], rx = \<lparr>queue = sample_tx, buffers = []\<rparr>, tx = sample_tx,
     event_queue = sample_tx, guest_cid = 3\<rparr>"

definition sample_info :: connection_info where
  "sample_info = (connection_info_new \<lparr>cid = 2, port = 42\<rparr> 1234)\<lparr>peer_buf_alloc := 1024\<rparr>"

lemma serve_one_serves_idle:
  assumes "added q f q'" and "shape_ok q'" and "used_idx (vq_used q) = avail_idx q" "last_used_idx q = avail_idx q"
  shows "serves serve_one q' (token_of f)"
proof -
  note S = serve_added [OF assms(1,3,4,2)]
  have "\<not> can_pop q'" using assms(1,3,4) by (simp add: added_def can_pop_def)
  then have "ucast (used_id (next_used ((serve_one ^^ n) q'))) = token_of f" if "can_pop ((serve_one ^^ n) q')" for n
    using that S serve_one_iter [OF S(3), of "n - 1"] by (cases n) (auto simp: ucast_u16_u32_u16)
  moreover have "can_pop ((serve_one ^^ 1) q')" using S(1) by simp
  ultimately show ?thesis unfolding serves_def by blast
qed

lemma sample_tx_ready: "tx_ready serve_one sample_tx"
proof -
  have "vq_inv sample_tx (map of_nat [0..<8]) []"
    using fresh_inv [of 8 sample_layout TX_QUEUE_IDX True True False]
    by (simp add: sample_tx_def is_power_of_two_def)
  moreover have "SIZE sample_tx = QUEUE_SIZE" by (simp add: sample_tx_def fresh_available QUEUE_SIZE_def)
  moreover have "serves serve_one q' (token_of f)" if "added sample_tx f q'" "shape_ok q'" for f q'
    by (rule serve_one_serves_idle [OF that]) (simp_all add: sample_tx_def fresh_queue_def)
  ultimately show ?thesis using serve_one_writes by (auto simp: tx_ready_def)
qed


text \<open>
  The credit computation wraps around: once a peer announces less buffer space than it has
  bytes in flight, \<open>peer_free\<close> is a number close to 2^32, and \<open>send\<close> accepts any buffer of that size
  although the peer has no room at all.
\<close>

theorem peer_free_wraps:
  assumes "\<not> credit_ok ci"
  shows "unat (peer_free ci) = 2 ^ 32 + unat (peer_buf_alloc ci) - in_flight ci
    \<and> check_peer_buffer_is_sufficient hal tr device (ucast (peer_free ci)) ci s h = Some (Inr (), ci, s, h)"
proof -
  have "unat (peer_buf_alloc ci) < unat (tx_cnt ci - peer_fwd_cnt ci)"
    using assms by (simp add: credit_ok_def in_flight_def)
  then show ?thesis
    using unat_u32_lt [of "tx_cnt ci - peer_fwd_cnt ci"]
      unat_sub_if' [of "peer_buf_alloc ci" "tx_cnt ci - peer_fwd_cnt ci"]
    by (simp add: peer_free_def in_flight_def check_peer_buffer_is_sufficient_def)
qed

theorem peer_free_wraps_witness:
  "unat (peer_free ((connection_info_new \<lparr>cid = 2, port = 42\<rparr> 1234)\<lparr>tx_cnt := 10\<rparr>)) = 4294967286"
  using peer_free_wraps [of "(connection_info_new \<lparr>cid = 2, port = 42\<rparr> 1234)\<lparr>tx_cnt := 10\<rparr>"
      bump_hal "recording 0 (\<lambda>_. 8) False" serve_one sample_socket 0]
  by (simp add: credit_ok_def in_flight_def connection_info_new_def)

end
