(* ===== verification/Fifo.thy ===== *)
theory Fifo
  imports Prelude
begin

text \<open>
  The interface of a bounded first-in first-out buffer: what a client of such a buffer relies on, and
  what follows from it for any sequence of operations, that no element is lost, repeated or reordered.
\<close>

datatype 'a fifo_op = Put "'a list" | Take nat

text \<open>A run of operations, with all elements that were accepted and all that were delivered.\<close>

fun fifo_run :: "('a list \<Rightarrow> 'q \<Rightarrow> (bool \<times> 'q) option) \<Rightarrow> (nat \<Rightarrow> 'q \<Rightarrow> ('a list \<times> 'q) option)
    \<Rightarrow> 'a fifo_op list \<Rightarrow> 'q \<Rightarrow> ('a list \<times> 'a list \<times> 'q) option" where
  "fifo_run push pull [] q = Some ([], [], q)"
| "fifo_run push pull (Put xs # ops) q = do {
     (ok, q) \<leftarrow> push xs q;
     (acc, out, q) \<leftarrow> fifo_run push pull ops q;
     Some ((if ok then xs else []) @ acc, out, q)
   }"
| "fifo_run push pull (Take n # ops) q = do {
     (xs, q) \<leftarrow> pull n q;
     (acc, out, q) \<leftarrow> fifo_run push pull ops q;
     Some (acc, xs @ out, q)
   }"

locale fifo =
  fixes valid :: "'q \<Rightarrow> bool"
    and content :: "'q \<Rightarrow> 'a list"
    and room :: "'q \<Rightarrow> nat"
    and push :: "'a list \<Rightarrow> 'q \<Rightarrow> (bool \<times> 'q) option"
    and pull :: "nat \<Rightarrow> 'q \<Rightarrow> ('a list \<times> 'q) option"
  assumes push_fits: "valid q \<Longrightarrow> length xs \<le> room q \<Longrightarrow>
      \<exists>q'. push xs q = Some (True, q') \<and> valid q' \<and> content q' = content q @ xs \<and> room q' + length xs = room q"
    and push_full: "valid q \<Longrightarrow> room q < length xs \<Longrightarrow> push xs q = Some (False, q)"
    and pull_prefix: "valid q \<Longrightarrow>
      \<exists>q'. pull n q = Some (take n (content q), q') \<and> valid q' \<and> content q' = drop n (content q)
        \<and> room q' = room q + min n (length (content q))"
begin

lemma run_lossless:
  assumes "valid q"
  shows "\<exists>acc out q'. fifo_run push pull ops q = Some (acc, out, q') \<and> valid q'
    \<and> content q @ acc = out @ content q'"
  using assms
proof (induction ops arbitrary: q)
  case (Cons op ops)
  show ?case
  proof (cases op)
    case (Put xs)
    show ?thesis
    proof (cases "length xs \<le> room q")
      case True
      with push_fits [OF Cons.prems True] Cons.IH Put show ?thesis by fastforce
    next
      case False
      with push_full [OF Cons.prems, of xs] Cons.IH [OF Cons.prems] Put show ?thesis by fastforce
    qed
  next
    case (Take n)
    obtain q1 where g: "pull n q = Some (take n (content q), q1)" "valid q1" "content q1 = drop n (content q)"
      using pull_prefix [OF Cons.prems] by metis
    obtain acc out q' where r: "fifo_run push pull ops q1 = Some (acc, out, q')" "valid q'"
      "content q1 @ acc = out @ content q'"
      using Cons.IH [OF g(2)] by metis
    have "content q @ acc = take n (content q) @ (content q1 @ acc)"
      using g(3) by (metis append.assoc append_take_drop_id)
    then show ?thesis using g(1) r Take by simp
  qed
qed simp

lemma room_conserved:
  assumes "valid q" and "fifo_run push pull ops q = Some (acc, out, q')"
  shows "room q' + length (content q') = room q + length (content q)"
  using assms
proof (induction ops arbitrary: q acc out)
  case (Cons op ops)
  show ?case
  proof (cases op)
    case (Put xs)
    then obtain ok q1 acc1 where s: "push xs q = Some (ok, q1)" "fifo_run push pull ops q1 = Some (acc1, out, q')"
      using Cons.prems(2) by (auto simp: bind_eq_Some_conv)
    then have "valid q1 \<and> room q1 + length (content q1) = room q + length (content q)"
      using push_fits [OF Cons.prems(1), of xs] push_full [OF Cons.prems(1), of xs] Cons.prems(1)
      by (cases "length xs \<le> room q") auto
    with Cons.IH [OF _ s(2)] show ?thesis by simp
  next
    case (Take n)
    then obtain xs q1 out1 where s: "pull n q = Some (xs, q1)" "fifo_run push pull ops q1 = Some (acc, out1, q')"
      using Cons.prems(2) by (auto simp: bind_eq_Some_conv)
    then have "valid q1 \<and> room q1 + length (content q1) = room q + length (content q)"
      using pull_prefix [OF Cons.prems(1), of n] by auto
    with Cons.IH [OF _ s(2)] show ?thesis by simp
  qed
qed simp

end

end
