(* ===== verification/Ring_Buffer.thy ===== *)
theory Ring_Buffer
  imports Fifo Virt_Layout
begin

text \<open>
  The receive buffer of a vsock connection (\<open>RingBuffer\<close> in
  \<open>src/virtio-drivers/src/device/socket/connectionmanager.rs\<close>). Indices are natural numbers: none
  exceeds twice the length of a buffer in memory.
\<close>

section \<open>Definitions\<close>

record ring_buffer =
  rb_buffer :: "u8 list"
  rb_used :: nat
  rb_start :: nat

definition ring_new :: "nat \<Rightarrow> ring_buffer" where
  "ring_new capacity = \<lparr>rb_buffer = replicate capacity 0, rb_used = 0, rb_start = 0\<rparr>"

definition ring_used :: "ring_buffer \<Rightarrow> nat" where
  "ring_used b = rb_used b"

definition ring_is_empty :: "ring_buffer \<Rightarrow> bool" where
  "ring_is_empty b \<longleftrightarrow> rb_used b = 0"

definition ring_free :: "ring_buffer \<Rightarrow> nat" where
  "ring_free b = length (rb_buffer b) - rb_used b"

text \<open>\<open>dst[i..i + src.len()].copy_from_slice(src)\<close>: a range outside the slice panics.\<close>

definition copy_from_slice :: "nat \<Rightarrow> 'a list \<Rightarrow> 'a list \<Rightarrow> 'a list option" where
  "copy_from_slice i src dst =
     (if i + length src \<le> length dst then Some (take i dst @ src @ drop (i + length src) dst) else None)"

definition ring_add :: "u8 list \<Rightarrow> ring_buffer \<Rightarrow> (bool \<times> ring_buffer) option" where
  "ring_add bytes b =
     (if length bytes > ring_free b then Some (False, b)
      else do {
        assert (length (rb_buffer b) \<noteq> 0);
        let first_available = (rb_start b + rb_used b) mod length (rb_buffer b);
        let copy_length = min (length bytes) (length (rb_buffer b) - first_available);
        buf \<leftarrow> copy_from_slice first_available (take copy_length bytes) (rb_buffer b);
        buf \<leftarrow> copy_from_slice 0 (drop copy_length bytes) buf;
        Some (True, b\<lparr>rb_buffer := buf, rb_used := rb_used b + length bytes\<rparr>)
      })"

text \<open>\<open>src[i..j]\<close>: a range outside the slice panics.\<close>

definition subslice :: "nat \<Rightarrow> nat \<Rightarrow> 'a list \<Rightarrow> 'a list option" where
  "subslice i j src = (if i \<le> j \<and> j \<le> length src then Some (take (j - i) (drop i src)) else None)"

definition ring_drain :: "u8 list \<Rightarrow> ring_buffer \<Rightarrow> (nat \<times> u8 list \<times> ring_buffer) option" where
  "ring_drain out b = do {
     let bytes_read = min (rb_used b) (length out);
     let before = min bytes_read (length (rb_buffer b) - rb_start b);
     let after = bytes_read - before;
     src \<leftarrow> subslice (rb_start b) (rb_start b + before) (rb_buffer b);
     out \<leftarrow> copy_from_slice 0 src out;
     src \<leftarrow> subslice 0 after (rb_buffer b);
     out \<leftarrow> copy_from_slice before src out;
     assert (length (rb_buffer b) \<noteq> 0);
     Some (bytes_read, out, b\<lparr>rb_used := rb_used b - bytes_read,
       rb_start := (rb_start b + bytes_read) mod length (rb_buffer b)\<rparr>)
   }"

section \<open>The buffer is a queue of bytes\<close>

definition ring_inv :: "ring_buffer \<Rightarrow> bool" where
  "ring_inv b \<longleftrightarrow> rb_used b \<le> length (rb_buffer b) \<and> rb_start b < length (rb_buffer b)"

definition ring_content :: "ring_buffer \<Rightarrow> u8 list" where
  "ring_content b = map (\<lambda>k. rb_buffer b ! ((rb_start b + k) mod length (rb_buffer b))) [0..<rb_used b]"

lemma length_ring_content [simp]: "length (ring_content b) = rb_used b"
  by (simp add: ring_content_def)

lemma mod_below_twice:
  "(a :: nat) < 2 * n \<Longrightarrow> a mod n = (if a < n then a else a - n)"
  by (simp add: mod_if)

lemma copy_from_slice_Some:
  assumes "i + length src \<le> length dst"
  shows "\<exists>dst'. copy_from_slice i src dst = Some dst' \<and> length dst' = length dst
    \<and> (\<forall>k < length dst. dst' ! k = (if i \<le> k \<and> k < i + length src then src ! (k - i) else dst ! k))"
  using assms by (auto simp: copy_from_slice_def nth_append min_def)

text \<open>The positions of the old and of the new bytes, around the wrap.\<close>

lemma old_index_apart:
  assumes "s < n" and "l + u \<le> (n::nat)" and "k < u"
  defines "fa \<equiv> (s + u) mod n"
  defines "c \<equiv> min l (n - fa)"
  shows "\<not> (fa \<le> (s + k) mod n \<and> (s + k) mod n < fa + c) \<and> \<not> (s + k) mod n < l - c"
proof (cases "s + u < n")
  case True
  then have "fa = s + u" "(s + k) mod n = s + k" using assms(3) by (simp_all add: fa_def)
  then show ?thesis using assms(1-3) by (auto simp: c_def)
next
  case False
  then have fa: "fa = s + u - n" using assms(1,2) by (simp add: fa_def mod_below_twice)
  then have c: "c = l" "fa + l \<le> s" using False assms(1,2) by (auto simp: c_def)
  have "(s + k) mod n = s + k \<or> n \<le> s + k \<and> (s + k) mod n = s + k - n"
    using assms(1-3) by (auto simp: mod_below_twice)
  then show ?thesis using fa c False assms(1-3) by linarith
qed

lemma new_index:
  assumes "s < n" and "l + u \<le> (n::nat)" and "j < l"
  defines "fa \<equiv> (s + u) mod n"
  defines "c \<equiv> min l (n - fa)"
  shows "if j < c then (s + (u + j)) mod n = fa + j \<and> \<not> (s + (u + j)) mod n < l - c
    else (s + (u + j)) mod n = j - c"
proof -
  have fa: "fa < n" using assms(1) by (simp add: fa_def)
  have m: "(s + (u + j)) mod n = (fa + j) mod n" by (simp add: fa_def add.assoc mod_add_left_eq)
  show ?thesis
  proof (cases "j < c")
    case True
    then have "fa + j < n" using fa by (simp add: c_def) linarith
    with True m fa assms(2) show ?thesis by (auto simp: c_def)
  next
    case False
    then have c: "c = n - fa" "n \<le> fa + j" using assms(3) fa by (auto simp: c_def)
    then have "(fa + j) mod n = fa + j - n" using fa assms(2,3) by (simp add: mod_below_twice)
    with m c False fa show ?thesis by simp
  qed
qed

lemma ring_add_ok:
  assumes inv: "ring_inv b" and fits: "length xs \<le> ring_free b"
  shows "\<exists>b'. ring_add xs b = Some (True, b') \<and> ring_inv b' \<and> ring_content b' = ring_content b @ xs
    \<and> ring_free b' + length xs = ring_free b \<and> length (rb_buffer b') = length (rb_buffer b)"
proof -
  let ?n = "length (rb_buffer b)"
  define fa where "fa = (rb_start b + rb_used b) mod ?n"
  define c where "c = min (length xs) (?n - fa)"
  have I: "rb_used b \<le> ?n" "rb_start b < ?n" "length xs + rb_used b \<le> ?n"
    using inv fits by (auto simp: ring_inv_def ring_free_def)
  have fa: "fa < ?n" "fa = (if rb_start b + rb_used b < ?n then rb_start b + rb_used b else rb_start b + rb_used b - ?n)"
    using I by (auto simp: fa_def mod_below_twice)
  have c: "fa + c \<le> ?n" "c \<le> length xs" "c = length xs \<or> c = ?n - fa" using fa(1) by (auto simp: c_def)
  obtain B1 where B1: "copy_from_slice fa (take c xs) (rb_buffer b) = Some B1" "length B1 = ?n"
    "\<forall>k < ?n. B1 ! k = (if fa \<le> k \<and> k < fa + c then xs ! (k - fa) else rb_buffer b ! k)"
  proof -
    have l: "length (take c xs) = c" using c(2) by simp
    obtain B where "copy_from_slice fa (take c xs) (rb_buffer b) = Some B" "length B = ?n"
      "\<forall>k < ?n. B ! k = (if fa \<le> k \<and> k < fa + c then take c xs ! (k - fa) else rb_buffer b ! k)"
      using copy_from_slice_Some [of fa "take c xs" "rb_buffer b", unfolded l, OF c(1)] by metis
    then show thesis by (intro that [of B]) auto
  qed
  have "0 + length (drop c xs) \<le> length B1" using I(3) B1(2) by simp
  from copy_from_slice_Some [OF this] obtain B2 where B2: "copy_from_slice 0 (drop c xs) B1 = Some B2" "length B2 = ?n"
    "\<forall>k < ?n. B2 ! k = (if k < length xs - c then xs ! (c + k) else B1 ! k)"
    using B1(2) c(2) by auto
  let ?b = "b\<lparr>rb_buffer := B2, rb_used := rb_used b + length xs\<rparr>"
  have run: "ring_add xs b = Some (True, ?b)"
    using fits I B1(1) B2(1) by (auto simp: ring_add_def Let_def fa_def [symmetric] c_def [symmetric])
  have "ring_content ?b = ring_content b @ xs"
  proof (rule nth_equalityI)
    fix k assume k: "k < length (ring_content ?b)"
    then have k': "k < rb_used b + length xs" by simp
    let ?i = "(rb_start b + k) mod ?n"
    have i: "?i = (if rb_start b + k < ?n then rb_start b + k else rb_start b + k - ?n)" "?i < ?n"
      using I k' by (auto simp: mod_below_twice)
    have "B2 ! ?i = (if k < rb_used b then rb_buffer b ! ?i else xs ! (k - rb_used b))"
    proof (cases "k < rb_used b")
      case True
      then have "\<not> (fa \<le> ?i \<and> ?i < fa + c) \<and> \<not> ?i < length xs - c"
        using old_index_apart [OF I(2,3) True] by (simp add: fa_def c_def)
      then show ?thesis using B1(3) B2(3) i True by auto
    next
      case False
      then obtain j where j: "k = rb_used b + j" "j < length xs" using k' by (metis add_diff_inverse_nat nat_add_left_cancel_less)
      have "if j < c then ?i = fa + j \<and> \<not> ?i < length xs - c else ?i = j - c"
        using new_index [OF I(2,3) j(2)] unfolding j(1) fa_def [symmetric] c_def [symmetric] .
      moreover have "B2 ! ?i = (if ?i < length xs - c then xs ! (c + ?i)
          else if fa \<le> ?i \<and> ?i < fa + c then xs ! (?i - fa) else rb_buffer b ! ?i)"
        using B1(3) B2(3) i(2) by simp
      moreover have "j - c < length xs - c" if "\<not> j < c" using that j(2) by simp
      ultimately show ?thesis using j by (cases "j < c") simp_all
    qed
    then show "ring_content ?b ! k = (ring_content b @ xs) ! k"
      using k' B2(2) by (auto simp: ring_content_def nth_append)
  qed simp
  then show ?thesis using run I B2(2) by (auto simp: ring_inv_def ring_free_def)
qed

lemma subslice_Some:
  assumes "i + n \<le> length src"
  shows "subslice i (i + n) src = Some (take n (drop i src))"
  using assms by (simp add: subslice_def)

lemma ring_take:
  assumes "ring_inv b" and "n \<le> rb_used b"
  defines "c \<equiv> min n (length (rb_buffer b) - rb_start b)"
  shows "take c (drop (rb_start b) (rb_buffer b)) @ take (n - c) (rb_buffer b) = take n (ring_content b)"
proof (rule nth_equalityI)
  let ?N = "length (rb_buffer b)"
  have I: "rb_used b \<le> ?N" "rb_start b < ?N" using assms(1) by (auto simp: ring_inv_def)
  have c: "c \<le> ?N - rb_start b" "c \<le> n" by (simp_all add: c_def)
  then show "length (take c (drop (rb_start b) (rb_buffer b)) @ take (n - c) (rb_buffer b)) = length (take n (ring_content b))"
    using I assms(2) by simp
  fix k assume "k < length (take c (drop (rb_start b) (rb_buffer b)) @ take (n - c) (rb_buffer b))"
  then have k: "k < n" using c I assms(2) by simp
  have "(rb_start b + k) mod ?N = (if k < c then rb_start b + k else k - c)"
    using I k assms(2) by (auto simp: c_def mod_below_twice)
  then show "(take c (drop (rb_start b) (rb_buffer b)) @ take (n - c) (rb_buffer b)) ! k = take n (ring_content b) ! k"
    using k c I assms(2) by (auto simp: nth_append ring_content_def)
qed

lemma ring_drain_ok:
  assumes inv: "ring_inv b"
  shows "\<exists>b'. ring_drain out b = Some (min (rb_used b) (length out),
      take (length out) (ring_content b) @ drop (rb_used b) out, b')
    \<and> ring_inv b' \<and> ring_content b' = drop (length out) (ring_content b)
    \<and> ring_free b' = ring_free b + min (length out) (rb_used b) \<and> length (rb_buffer b') = length (rb_buffer b)"
proof -
  let ?N = "length (rb_buffer b)"
  define n where "n = min (rb_used b) (length out)"
  define c where "c = min n (?N - rb_start b)"
  have I: "rb_used b \<le> ?N" "rb_start b < ?N" using inv by (auto simp: ring_inv_def)
  have ne: "rb_buffer b \<noteq> []" using I by auto
  have n: "n \<le> rb_used b" "n \<le> length out" by (simp_all add: n_def)
  have c: "rb_start b + c \<le> ?N" "c \<le> n" "n - c \<le> ?N" using I n by (auto simp: c_def)
  let ?b = "b\<lparr>rb_used := rb_used b - n, rb_start := (rb_start b + n) mod ?N\<rparr>"
  let ?s1 = "take c (drop (rb_start b) (rb_buffer b))" and ?s2 = "take (n - c) (rb_buffer b)"
  have l: "length ?s1 = c" "length ?s2 = n - c" using c by simp_all
  have "copy_from_slice c ?s2 (?s1 @ drop c out) = Some (?s1 @ ?s2 @ drop n out)"
    using c n l by (simp add: copy_from_slice_def)
  then have run: "ring_drain out b = Some (n, ?s1 @ ?s2 @ drop n out, ?b)"
    using ne c n l subslice_Some [OF c(1)] subslice_Some [of 0 "n - c" "rb_buffer b"]
    by (simp add: ring_drain_def Let_def n_def [symmetric] c_def [symmetric] copy_from_slice_def)
  have "take n (ring_content b) @ drop n out = take (length out) (ring_content b) @ drop (rb_used b) out"
    by (cases "rb_used b \<le> length out") (simp_all add: n_def min_def)
  then have out: "?s1 @ ?s2 @ drop n out = take (length out) (ring_content b) @ drop (rb_used b) out"
    using ring_take [OF inv n(1)] by (simp add: c_def flip: append_assoc)
  have "ring_content ?b = drop (length out) (ring_content b)"
  proof (rule nth_equalityI)
    fix k assume "k < length (ring_content ?b)"
    then have k: "k < rb_used b - n" by simp
    then have "n = length out" by (auto simp: n_def)
    moreover have "((rb_start b + n) mod ?N + k) mod ?N = (rb_start b + (n + k)) mod ?N"
      by (simp add: mod_add_left_eq add.assoc)
    moreover have "[0..<rb_used b] ! (n + k) = n + k" using k by simp
    ultimately show "ring_content ?b ! k = drop (length out) (ring_content b) ! k"
      using k by (simp add: ring_content_def)
  qed (simp add: n_def)
  moreover have "ring_inv ?b" using I ne by (simp add: ring_inv_def)
  moreover have "ring_free ?b = ring_free b + min (length out) (rb_used b)"
    using I n by (simp add: ring_free_def n_def min.commute)
  ultimately show ?thesis using run out n_def by auto
qed

section \<open>Properties\<close>

text \<open>\<open>drain\<close> seen by its caller: the bytes it wrote into a buffer of \<open>n\<close> bytes.\<close>

definition ring_read :: "nat \<Rightarrow> ring_buffer \<Rightarrow> (u8 list \<times> ring_buffer) option" where
  "ring_read n b = do {
     (bytes_read, out, b) \<leftarrow> ring_drain (replicate n 0) b;
     Some (take bytes_read out, b)
   }"

interpretation rb: fifo ring_inv ring_content ring_free ring_add ring_read
proof unfold_locales
  fix b :: ring_buffer and xs
  assume b: "ring_inv b"
  show "\<exists>b'. ring_add xs b = Some (True, b') \<and> ring_inv b' \<and> ring_content b' = ring_content b @ xs
    \<and> ring_free b' + length xs = ring_free b" if "length xs \<le> ring_free b"
    using ring_add_ok [OF b that] by blast
  show "ring_add xs b = Some (False, b)" if "ring_free b < length xs"
    using that by (simp add: ring_add_def)
  fix n
  obtain b' where "ring_drain (replicate n 0) b = Some (min (rb_used b) n,
      take n (ring_content b) @ drop (rb_used b) (replicate n 0), b')" "ring_inv b'"
    "ring_content b' = drop n (ring_content b)" "ring_free b' = ring_free b + min n (rb_used b)"
    using ring_drain_ok [OF b, of "replicate n 0"] by auto
  then show "\<exists>q'. ring_read n b = Some (take n (ring_content b), q') \<and> ring_inv q'
      \<and> ring_content q' = drop n (ring_content b) \<and> ring_free q' = ring_free b + min n (length (ring_content b))"
    by (cases "n \<le> rb_used b") (simp_all add: ring_read_def min_def)
qed

lemma ring_new_inv: "0 < capacity \<Longrightarrow> ring_inv (ring_new capacity)" "ring_content (ring_new capacity) = []"
  "ring_free (ring_new capacity) = capacity"
  by (simp_all add: ring_inv_def ring_content_def ring_new_def ring_free_def)

text \<open>
  C20. The receive buffer is a lossless queue: for every sequence of \<open>add\<close> and \<open>drain\<close> calls on a new
  buffer of non-zero capacity, no call panics, and the bytes of all accepted \<open>add\<close>s are, in order, the
  bytes drained followed by the bytes still in the buffer; an \<open>add\<close> is refused only as a whole.
\<close>

theorem ring_buffer_lossless:
  assumes "0 < capacity"
  shows "\<exists>acc out b. fifo_run ring_add ring_read ops (ring_new capacity) = Some (acc, out, b)
    \<and> acc = out @ ring_content b \<and> ring_used b + ring_free b = capacity"
proof -
  obtain acc out b where r: "fifo_run ring_add ring_read ops (ring_new capacity) = Some (acc, out, b)"
    "acc = out @ ring_content b"
    using rb.run_lossless [OF ring_new_inv(1) [OF assms], of ops] by (auto simp: ring_new_inv)
  moreover have "ring_used b + ring_free b = capacity"
    using rb.room_conserved [OF ring_new_inv(1) [OF assms] r(1)] by (simp add: ring_new_inv ring_used_def)
  ultimately show ?thesis by blast
qed

theorem ring_buffer_lossless_witness:
  "\<exists>acc out b. fifo_run ring_add ring_read [Put [1, 2, 3], Take 2, Put [4, 5, 6], Take 9] (ring_new 4) = Some (acc, out, b)
    \<and> acc = out @ ring_content b"
  using ring_buffer_lossless [of 4 "[Put [1, 2, 3], Take 2, Put [4, 5, 6], Take 9]"] by auto

text \<open>
  A buffer of capacity zero panics on every \<open>drain\<close> and on \<open>add\<close> of an empty packet: the index is
  reduced modulo the length zero.
\<close>

theorem ring_buffer_zero_capacity:
  "ring_drain out (ring_new 0) = None \<and> ring_add [] (ring_new 0) = None"
  by (simp add: ring_drain_def ring_add_def ring_new_def ring_free_def Let_def bind_eq_None_conv assert_def)

end
