(* ===== verification/Vsock_Manager.thy ===== *)
theory Vsock_Manager
  imports Vsock_Spec Ring_Buffer
begin

text \<open>
  The connection manager of virtio sockets
  (\<open>src/virtio-drivers/src/device/socket/connectionmanager.rs\<close>): connections with their receive
  buffers, listening ports, and the handling of received events.
\<close>

section \<open>Definitions\<close>

definition DEFAULT_PER_CONNECTION_BUFFER_CAPACITY :: u32 where
  "DEFAULT_PER_CONNECTION_BUFFER_CAPACITY = 1024"

record connection =
  info :: connection_info
  buffer :: ring_buffer
  established :: bool
  peer_requested_shutdown :: bool

definition connection_new :: "vsock_addr \<Rightarrow> u32 \<Rightarrow> u32 \<Rightarrow> connection" where
  "connection_new peer local_port buffer_capacity =
     \<lparr>info = (connection_info_new peer local_port)\<lparr>buf_alloc := buffer_capacity\<rparr>,
      buffer = ring_new (unat buffer_capacity), established = False, peer_requested_shutdown = False\<rparr>"

record 't manager =
  driver :: "'t virtio_socket"
  per_connection_buffer_capacity :: u32
  connections :: "connection list"
  listening_ports :: "u32 list"

definition manager_new_with_capacity :: "'t virtio_socket \<Rightarrow> u32 \<Rightarrow> 't manager" where
  "manager_new_with_capacity d capacity = \<lparr>driver = d, per_connection_buffer_capacity = capacity,
     connections = [], listening_ports = []\<rparr>"

definition manager_new :: "'t virtio_socket \<Rightarrow> 't manager" where
  "manager_new d = manager_new_with_capacity d DEFAULT_PER_CONNECTION_BUFFER_CAPACITY"

text \<open>\<open>iter().enumerate().find\<close>: the first element with the property, and its index.\<close>

fun find_index_from :: "nat \<Rightarrow> ('a \<Rightarrow> bool) \<Rightarrow> 'a list \<Rightarrow> (nat \<times> 'a) option" where
  "find_index_from i P [] = None"
| "find_index_from i P (x # xs) = (if P x then Some (i, x) else find_index_from (Suc i) P xs)"

definition get_connection :: "connection list \<Rightarrow> vsock_addr \<Rightarrow> u32 \<Rightarrow> (nat \<times> connection) result" where
  "get_connection cs peer local_port =
     (case find_index_from 0 (\<lambda>c. dst (info c) = peer \<and> src_port (info c) = local_port) cs of
        None \<Rightarrow> Inl (SocketDeviceError NotConnected)
      | Some ic \<Rightarrow> Inr ic)"

definition get_connection_for_event :: "connection list \<Rightarrow> vsock_event \<Rightarrow> u64 \<Rightarrow> (nat \<times> connection) option" where
  "get_connection_for_event cs ev local_cid =
     find_index_from 0 (\<lambda>c. matches_connection ev (info c) local_cid) cs"

text \<open>\<open>Vec::swap_remove\<close>: the last element takes the place of the removed one.\<close>

definition swap_remove :: "nat \<Rightarrow> 'a list \<Rightarrow> 'a list option" where
  "swap_remove i xs = (if i < length xs then Some (butlast (xs[i := last xs])) else None)"

definition is_local_port_used :: "u32 \<Rightarrow> 't manager \<Rightarrow> bool" where
  "is_local_port_used p m \<longleftrightarrow> p \<in> set (listening_ports m) \<or> (\<exists>c \<in> set (connections m). src_port (info c) = p)"

definition is_connection_established :: "vsock_addr \<Rightarrow> u32 \<Rightarrow> 't manager \<Rightarrow> bool result" where
  "is_connection_established destination p m =
     (case get_connection (connections m) destination p of
        Inl e \<Rightarrow> Inl e | Inr (_, c) \<Rightarrow> Inr (established c))"

definition listen :: "u32 \<Rightarrow> 't manager \<Rightarrow> 't manager" where
  "listen p m = (if p \<notin> set (listening_ports m) then m\<lparr>listening_ports := listening_ports m @ [p]\<rparr> else m)"

definition unlisten :: "u32 \<Rightarrow> 't manager \<Rightarrow> 't manager" where
  "unlisten p m = m\<lparr>listening_ports := filter (\<lambda>q. q \<noteq> p) (listening_ports m)\<rparr>"

definition manager_connect :: "'h hal \<Rightarrow> 't transport \<Rightarrow> (virt_queue \<Rightarrow> virt_queue) \<Rightarrow> vsock_addr \<Rightarrow> u32
    \<Rightarrow> 't manager \<Rightarrow> 'h \<Rightarrow> (unit result \<times> 't manager \<times> 'h) option" where
  "manager_connect hal tr device destination p m h =
     (if \<exists>c \<in> set (connections m). dst (info c) = destination \<and> src_port (info c) = p
      then Some (Inl (SocketDeviceError ConnectionExists), m, h)
      else do {
        let c = connection_new destination p (per_connection_buffer_capacity m);
        (r, d, h) \<leftarrow> vsock_connect hal tr device (info c) (driver m) h;
        let m = m\<lparr>driver := d\<rparr>;
        (case r of
           Inl e \<Rightarrow> Some (Inl e, m, h)
         | Inr _ \<Rightarrow> Some (Inr (), m\<lparr>connections := connections m @ [c]\<rparr>, h))
      })"

definition manager_send :: "'h hal \<Rightarrow> 't transport \<Rightarrow> (virt_queue \<Rightarrow> virt_queue) \<Rightarrow> vsock_addr \<Rightarrow> u32 \<Rightarrow> slice
    \<Rightarrow> 't manager \<Rightarrow> 'h \<Rightarrow> (unit result \<times> 't manager \<times> 'h) option" where
  "manager_send hal tr device destination p data m h =
     (case get_connection (connections m) destination p of
        Inl e \<Rightarrow> Some (Inl e, m, h)
      | Inr (i, c) \<Rightarrow>
          if peer_requested_shutdown c then Some (Inl (SocketDeviceError PeerSocketShutdown), m, h)
          else do {
            (r, ci, d, h) \<leftarrow> vsock_send hal tr device data (info c) (driver m) h;
            Some (r, m\<lparr>driver := d, connections := (connections m)[i := c\<lparr>info := ci\<rparr>]\<rparr>, h)
          })"

text \<open>The closure of \<open>VsockConnectionManager::poll\<close>; it captures the connections.\<close>

definition event_handler :: "u64 \<Rightarrow> u32 \<Rightarrow> vsock_event \<Rightarrow> u8 list \<Rightarrow> connection list
    \<Rightarrow> (vsock_event option result \<times> connection list) option" where
  "event_handler local_cid capacity ev body cs =
     (let known = get_connection_for_event cs ev local_cid;
          update = (\<lambda>i c cs. do {
            let c = c\<lparr>info := update_for_event ev (info c)\<rparr>;
            (case event_type ev of
               Received n \<Rightarrow> do {
                 (ok, b) \<leftarrow> ring_add body (buffer c);
                 let c = c\<lparr>buffer := b\<rparr>;
                 if ok then Some (Inr (Some ev), cs[i := c])
                 else Some (Inl (SocketDeviceError (OutputBufferTooShort (unat n))), cs[i := c])
               }
             | _ \<Rightarrow> Some (Inr (Some ev), cs[i := c]))
          })
      in case known of
           Some (i, c) \<Rightarrow> update i c cs
         | None \<Rightarrow>
             if event_type ev = ConnectionRequest then
               (if known \<noteq> None \<or> cid (ev_destination ev) \<noteq> local_cid then Some (Inr None, cs)
                else let c = connection_new (ev_source ev) (port (ev_destination ev)) capacity;
                         cs = cs @ [c]
                  in update (length cs - 1) c cs)
             else Some (Inr None, cs))"

text \<open>What \<open>poll\<close> does after the closure returned the event of connection \<open>c\<close> at index \<open>i\<close>.\<close>

definition dispatch_event :: "'h hal \<Rightarrow> 't transport \<Rightarrow> (virt_queue \<Rightarrow> virt_queue) \<Rightarrow> vsock_event \<Rightarrow> nat \<Rightarrow> connection
    \<Rightarrow> 't manager \<Rightarrow> 'h \<Rightarrow> (vsock_event option result \<times> 't manager \<times> 'h) option" where
  "dispatch_event hal tr device ev i c m h =
     (case event_type ev of
        ConnectionRequest \<Rightarrow>
          if port (ev_destination ev) \<in> set (listening_ports m) then do {
            (r, d, h) \<leftarrow> vsock_accept hal tr device (info c) (driver m) h;
            let m = m\<lparr>driver := d\<rparr>;
            (case r of
               Inl e \<Rightarrow> Some (Inl e, m, h)
             | Inr _ \<Rightarrow> Some (Inr (Some ev), m\<lparr>connections := (connections m)[i := c\<lparr>established := True\<rparr>]\<rparr>, h))
          }
          else do {
            (r, d, h) \<leftarrow> vsock_force_close hal tr device (info c) (driver m) h;
            let m = m\<lparr>driver := d\<rparr>;
            (case r of
               Inl e \<Rightarrow> Some (Inl e, m, h)
             | Inr _ \<Rightarrow> do {
                 cs \<leftarrow> swap_remove i (connections m);
                 Some (Inr None, m\<lparr>connections := cs\<rparr>, h)
               })
          }
      | Connected \<Rightarrow> Some (Inr (Some ev), m\<lparr>connections := (connections m)[i := c\<lparr>established := True\<rparr>]\<rparr>, h)
      | Disconnected reason \<Rightarrow>
          if ring_is_empty (buffer c) then do {
            (r, d, h) \<leftarrow> (if reason = Shutdown then vsock_force_close hal tr device (info c) (driver m) h
                          else Some (Inr (), driver m, h));
            let m = m\<lparr>driver := d\<rparr>;
            (case r of
               Inl e \<Rightarrow> Some (Inl e, m, h)
             | Inr _ \<Rightarrow> do {
                 cs \<leftarrow> swap_remove i (connections m);
                 Some (Inr (Some ev), m\<lparr>connections := cs\<rparr>, h)
               })
          }
          else Some (Inr (Some ev), m\<lparr>connections := (connections m)[i := c\<lparr>peer_requested_shutdown := True\<rparr>]\<rparr>, h)
      | Received _ \<Rightarrow> Some (Inr (Some ev), m, h)
      | CreditRequest \<Rightarrow> do {
          (r, d, h) \<leftarrow> credit_update hal tr device (info c) (driver m) h;
          let m = m\<lparr>driver := d\<rparr>;
          (case r of Inl e \<Rightarrow> Some (Inl e, m, h) | Inr _ \<Rightarrow> Some (Inr None, m, h))
        }
      | CreditUpdate \<Rightarrow> Some (Inr (Some ev), m, h))"

definition manager_poll :: "'h hal \<Rightarrow> 't transport \<Rightarrow> (virt_queue \<Rightarrow> virt_queue) \<Rightarrow> u64
    \<Rightarrow> 't manager \<Rightarrow> 'h \<Rightarrow> (vsock_event option result \<times> 't manager \<times> 'h) option" where
  "manager_poll hal tr device bsz m h = do {
     let local_cid = guest_cid (driver m);
     (r, d, h, cs) \<leftarrow> vsock_poll hal tr bsz (event_handler local_cid (per_connection_buffer_capacity m))
                       (driver m) h (connections m);
     let m = m\<lparr>driver := d, connections := cs\<rparr>;
     (case r of
        Inl e \<Rightarrow> Some (Inl e, m, h)
      | Inr None \<Rightarrow> Some (Inr None, m, h)
      | Inr (Some ev) \<Rightarrow> do {
          (i, c) \<leftarrow> get_connection_for_event (connections m) ev local_cid;
          dispatch_event hal tr device ev i c m h
        })
   }"

text \<open>\<open>out\<close> is the caller's buffer; it is returned as \<open>recv\<close> leaves it.\<close>

definition manager_recv :: "'h hal \<Rightarrow> 't transport \<Rightarrow> (virt_queue \<Rightarrow> virt_queue) \<Rightarrow> vsock_addr \<Rightarrow> u32 \<Rightarrow> u8 list
    \<Rightarrow> 't manager \<Rightarrow> 'h \<Rightarrow> (nat result \<times> u8 list \<times> 't manager \<times> 'h) option" where
  "manager_recv hal tr device peer p out m h =
     (case get_connection (connections m) peer p of
        Inl e \<Rightarrow> Some (Inl e, out, m, h)
      | Inr (i, c) \<Rightarrow> do {
          (bytes_read, out, b) \<leftarrow> ring_drain out (buffer c);
          let c = c\<lparr>buffer := b\<rparr>;
          let c = c\<lparr>info := done_forwarding bytes_read (info c)\<rparr>;
          let m = m\<lparr>connections := (connections m)[i := c]\<rparr>;
          if peer_requested_shutdown c \<and> ring_is_empty (buffer c) then do {
            (r, d, h) \<leftarrow> vsock_force_close hal tr device (info c) (driver m) h;
            let m = m\<lparr>driver := d\<rparr>;
            (case r of
               Inl e \<Rightarrow> Some (Inl e, out, m, h)
             | Inr _ \<Rightarrow> do {
                 cs \<leftarrow> swap_remove i (connections m);
                 Some (Inr bytes_read, out, m\<lparr>connections := cs\<rparr>, h)
               })
          }
          else Some (Inr bytes_read, out, m, h)
        })"

definition recv_buffer_available_bytes :: "vsock_addr \<Rightarrow> u32 \<Rightarrow> 't manager \<Rightarrow> nat result" where
  "recv_buffer_available_bytes peer p m =
     (case get_connection (connections m) peer p of
        Inl e \<Rightarrow> Inl e | Inr (_, c) \<Rightarrow> Inr (ring_used (buffer c)))"

definition update_credit :: "'h hal \<Rightarrow> 't transport \<Rightarrow> (virt_queue \<Rightarrow> virt_queue) \<Rightarrow> vsock_addr \<Rightarrow> u32
    \<Rightarrow> 't manager \<Rightarrow> 'h \<Rightarrow> (unit result \<times> 't manager \<times> 'h) option" where
  "update_credit hal tr device peer p m h =
     (case get_connection (connections m) peer p of
        Inl e \<Rightarrow> Some (Inl e, m, h)
      | Inr (i, c) \<Rightarrow>
          if peer_requested_shutdown c then Some (Inl (SocketDeviceError PeerSocketShutdown), m, h)
          else do {
            (r, d, h) \<leftarrow> credit_update hal tr device (info c) (driver m) h;
            Some (r, m\<lparr>driver := d\<rparr>, h)
          })"

text \<open>\<open>env\<close> is what the device does to the queues between two polls.\<close>

partial_function (option) wait_for_event :: "'h hal \<Rightarrow> 't transport \<Rightarrow> (virt_queue \<Rightarrow> virt_queue) \<Rightarrow> u64
    \<Rightarrow> ('t manager \<Rightarrow> 't manager) \<Rightarrow> 't manager \<Rightarrow> 'h \<Rightarrow> (vsock_event result \<times> 't manager \<times> 'h) option" where
  "wait_for_event hal tr device bsz env m h = do {
     (r, m, h) \<leftarrow> manager_poll hal tr device bsz m h;
     (case r of
        Inl e \<Rightarrow> Some (Inl e, m, h)
      | Inr (Some ev) \<Rightarrow> Some (Inr ev, m, h)
      | Inr None \<Rightarrow> wait_for_event hal tr device bsz env (env m) h)
   }"

definition manager_shutdown :: "'h hal \<Rightarrow> 't transport \<Rightarrow> (virt_queue \<Rightarrow> virt_queue) \<Rightarrow> vsock_addr \<Rightarrow> u32
    \<Rightarrow> 't manager \<Rightarrow> 'h \<Rightarrow> (unit result \<times> 't manager \<times> 'h) option" where
  "manager_shutdown hal tr device destination p m h =
     (case get_connection (connections m) destination p of
        Inl e \<Rightarrow> Some (Inl e, m, h)
      | Inr (i, c) \<Rightarrow> do {
          (r, d, h) \<leftarrow> vsock_shutdown hal tr device (info c) (driver m) h;
          Some (r, m\<lparr>driver := d\<rparr>, h)
        })"

definition manager_force_close :: "'h hal \<Rightarrow> 't transport \<Rightarrow> (virt_queue \<Rightarrow> virt_queue) \<Rightarrow> vsock_addr \<Rightarrow> u32
    \<Rightarrow> 't manager \<Rightarrow> 'h \<Rightarrow> (unit result \<times> 't manager \<times> 'h) option" where
  "manager_force_close hal tr device destination p m h =
     (case get_connection (connections m) destination p of
        Inl e \<Rightarrow> Some (Inl e, m, h)
      | Inr (i, c) \<Rightarrow> do {
          (r, d, h) \<leftarrow> vsock_force_close hal tr device (info c) (driver m) h;
          let m = m\<lparr>driver := d\<rparr>;
          (case r of
             Inl e \<Rightarrow> Some (Inl e, m, h)
           | Inr _ \<Rightarrow> do {
               cs \<leftarrow> swap_remove i (connections m);
               Some (Inr (), m\<lparr>connections := cs\<rparr>, h)
             })
        })"

end
