(* ===== verification/Vsock_Manager_Spec.thy ===== *)
theory Vsock_Manager_Spec
  imports Vsock_Manager "HOL-Library.Multiset"
begin

text \<open>
  Properties of the connection manager: its invariant under all operations, delivery of received
  data, the receive-side credit, and what happens to requests and unknown events.
\<close>

lemma case_sum_eq_Some:
  "(case r of Inl e \<Rightarrow> f e | Inr x \<Rightarrow> g x) = Some y \<longleftrightarrow>
     (\<exists>e. r = Inl e \<and> f e = Some y) \<or> (\<exists>x. r = Inr x \<and> g x = Some y)"
  by (cases r) simp_all

section \<open>Lists of connections\<close>

definition key :: "connection \<Rightarrow> vsock_addr \<times> u32" where
  "key c = (dst (info c), src_port (info c))"

definition connection_ok :: "connection \<Rightarrow> bool" where
  "connection_ok c \<longleftrightarrow> ring_inv (buffer c) \<and> length (rb_buffer (buffer c)) = unat (buf_alloc (info c))"

definition conns_ok :: "connection list \<Rightarrow> bool" where
  "conns_ok cs \<longleftrightarrow> distinct (map key cs) \<and> list_all connection_ok cs"

lemma find_index_from_Some:
  "find_index_from k P xs = Some (i, x) \<Longrightarrow> \<exists>j < length xs. i = k + j \<and> x = xs ! j \<and> P x"
proof (induction xs arbitrary: k)
  case (Cons y ys)
  show ?case
  proof (cases "P y")
    case False
    then have "find_index_from (Suc k) P ys = Some (i, x)" using Cons.prems by simp
    from Cons.IH [OF this] obtain j where "j < length ys" "i = Suc k + j" "x = ys ! j" "P x" by metis
    then show ?thesis by (intro exI [of _ "Suc j"]) simp
  qed (use Cons.prems in auto)
qed simp

lemma find_index_from_None: "find_index_from k P xs = None \<longleftrightarrow> (\<forall>x \<in> set xs. \<not> P x)"
  by (induction xs arbitrary: k) auto

lemma get_connection_Inr:
  assumes "get_connection cs peer p = Inr (i, c)"
  shows "i < length cs" "c = cs ! i" "key c = (peer, p)"
  using assms by (auto simp: get_connection_def key_def split: option.splits dest!: find_index_from_Some)

lemma get_connection_Inl:
  "get_connection cs peer p = Inl e \<longleftrightarrow> e = SocketDeviceError NotConnected \<and> (peer, p) \<notin> key ` set cs"
proof -
  let ?P = "\<lambda>c. dst (info c) = peer \<and> src_port (info c) = p"
  have "(peer, p) \<in> key ` set cs \<longleftrightarrow> find_index_from 0 ?P cs \<noteq> None"
    unfolding find_index_from_None by (auto simp: key_def)
  then show ?thesis by (cases "find_index_from 0 ?P cs") (auto simp: get_connection_def)
qed

lemma get_for_event_Some:
  assumes "get_connection_for_event cs ev l = Some (i, c)"
  shows "i < length cs" "c = cs ! i" "key c = (ev_source ev, port (ev_destination ev))" "cid (ev_destination ev) = l"
  using assms by (auto simp: get_connection_for_event_def matches_connection_def key_def dest!: find_index_from_Some)

lemma get_for_event_None:
  "get_connection_for_event cs ev l = None \<longleftrightarrow>
     cid (ev_destination ev) \<noteq> l \<or> (ev_source ev, port (ev_destination ev)) \<notin> key ` set cs"
  by (auto simp: get_connection_for_event_def find_index_from_None matches_connection_def key_def)

lemma swap_remove_mset:
  assumes "swap_remove i xs = Some ys"
  shows "mset ys = mset xs - {#xs ! i#}" "i < length xs"
proof -
  show i: "i < length xs" using assms by (simp add: swap_remove_def split: if_splits)
  obtain zs z where xs: "xs = zs @ [z]" using i by (cases xs rule: rev_cases) auto
  have "ys = butlast (xs[i := z])" using assms i by (simp add: swap_remove_def xs)
  then show "mset ys = mset xs - {#xs ! i#}"
    using i by (cases "i < length zs") (simp_all add: xs list_update_append butlast_append mset_update nth_append)
qed

lemma conns_ok_remove:
  assumes "conns_ok cs" and "swap_remove i cs = Some cs'"
  shows "conns_ok cs'" "key ` set cs' = key ` set cs - {key (cs ! i)}"
proof -
  note m = swap_remove_mset [OF assms(2)]
  have "mset cs = add_mset (cs ! i) (mset cs')" using m by (simp add: nth_mem_mset)
  then have p: "mset (map key cs) = mset (map key (cs ! i # cs'))" "set cs = insert (cs ! i) (set cs')"
    by (simp_all flip: set_mset_mset)
  have d: "distinct (map key (cs ! i # cs'))"
    using assms(1) mset_eq_imp_distinct_iff [OF p(1)] by (simp add: conns_ok_def)
  then show "conns_ok cs'" "key ` set cs' = key ` set cs - {key (cs ! i)}"
    using assms(1) p(2) by (auto simp: conns_ok_def list_all_iff)
qed

lemma conns_ok_update:
  assumes "conns_ok cs" and "key c = key (cs ! i)" and "connection_ok c"
  shows "conns_ok (cs[i := c])"
proof (cases "i < length cs")
  case True
  then have "map key (cs[i := c]) = map key cs" using assms(2) by (simp add: map_update list_update_same_conv)
  moreover have "list_all connection_ok (cs[i := c])"
    using assms(1,3) True by (auto simp: conns_ok_def list_all_length nth_list_update)
  ultimately show ?thesis using assms(1) by (simp add: conns_ok_def)
qed (use assms(1) in \<open>simp add: list_update_beyond\<close>)

lemma conns_ok_append:
  assumes "conns_ok cs" and "key c \<notin> key ` set cs" and "connection_ok c"
  shows "conns_ok (cs @ [c])"
  using assms by (auto simp: conns_ok_def)

lemma connection_new_ok:
  assumes "capacity \<noteq> 0"
  shows "connection_ok (connection_new peer p capacity)" "key (connection_new peer p capacity) = (peer, p)"
  using assms ring_new_inv(1) [of "unat capacity"]
  by (simp_all add: connection_ok_def connection_new_def connection_info_new_def key_def ring_new_def unat_gt_0)

section \<open>The closure of poll\<close>

lemma update_for_event_fields [simp]:
  "dst (update_for_event ev ci) = dst ci" "src_port (update_for_event ev ci) = src_port ci"
  "buf_alloc (update_for_event ev ci) = buf_alloc ci" "fwd_cnt (update_for_event ev ci) = fwd_cnt ci"
  "tx_cnt (update_for_event ev ci) = tx_cnt ci"
  by (simp_all add: update_for_event_def Let_def)

lemma event_handler_known:
  assumes "get_connection_for_event cs ev l = Some (i, c)" and "conns_ok cs"
  shows "case event_type ev of
      Received n \<Rightarrow>
        if length body \<le> ring_free (buffer c)
        then \<exists>b. ring_add body (buffer c) = Some (True, b)
          \<and> event_handler l cap ev body cs
              = Some (Inr (Some ev), cs[i := c\<lparr>info := update_for_event ev (info c), buffer := b\<rparr>])
        else event_handler l cap ev body cs = Some (Inl (SocketDeviceError (OutputBufferTooShort (unat n))),
               cs[i := c\<lparr>info := update_for_event ev (info c)\<rparr>])
    | _ \<Rightarrow> event_handler l cap ev body cs = Some (Inr (Some ev), cs[i := c\<lparr>info := update_for_event ev (info c)\<rparr>])"
proof -
  have "connection_ok c"
    using assms get_for_event_Some [OF assms(1)] by (auto simp: conns_ok_def list_all_length)
  then have "ring_inv (buffer c)" by (simp add: connection_ok_def)
  then show ?thesis
    using assms(1) rb.push_fits [of "buffer c" body] rb.push_full [of "buffer c" body]
    by (auto simp: event_handler_def Let_def split: vsock_event_type.splits)
qed

lemma event_handler_unknown:
  assumes "get_connection_for_event cs ev l = None"
  shows "event_handler l cap ev body cs =
    (if event_type ev = ConnectionRequest \<and> cid (ev_destination ev) = l
     then Some (Inr (Some ev), cs @ [(connection_new (ev_source ev) (port (ev_destination ev)) cap)
       \<lparr>info := update_for_event ev (info (connection_new (ev_source ev) (port (ev_destination ev)) cap))\<rparr>])
     else Some (Inr None, cs))"
  using assms by (auto simp: event_handler_def Let_def)

lemma connection_ok_update:
  assumes "connection_ok c" and "ring_add body (buffer c) = Some (True, b)" and "length body \<le> ring_free (buffer c)"
  shows "connection_ok (c\<lparr>info := update_for_event ev (info c), buffer := b\<rparr>)"
  using assms ring_add_ok [of "buffer c" body] by (auto simp: connection_ok_def)

lemma get_for_event_update:
  assumes "get_connection_for_event cs ev l = Some (i, c)" and "key c' = key c"
  shows "get_connection_for_event (cs[i := c']) ev l \<noteq> None"
  using get_for_event_Some [OF assms(1)] assms(2)
  by (simp add: get_for_event_None image_iff) (metis length_list_update nth_list_update_eq nth_mem)

lemma event_handler_inv:
  assumes ok: "conns_ok cs" and cap: "cap \<noteq> 0"
  shows "\<exists>r cs'. event_handler l cap ev body cs = Some (r, cs') \<and> conns_ok cs'
    \<and> (\<forall>ev'. r = Inr (Some ev') \<longrightarrow> ev' = ev \<and> get_connection_for_event cs' ev l \<noteq> None)"
proof (cases "get_connection_for_event cs ev l")
  case None
  let ?c = "connection_new (ev_source ev) (port (ev_destination ev)) cap"
  let ?c' = "?c\<lparr>info := update_for_event ev (info ?c)\<rparr>"
  have "key ?c' = (ev_source ev, port (ev_destination ev))" "connection_ok ?c'"
    using connection_new_ok [OF cap, of "ev_source ev" "port (ev_destination ev)"]
    by (simp_all add: key_def connection_ok_def)
  moreover from this have "conns_ok (cs @ [?c'])" if "cid (ev_destination ev) = l"
    using None that by (intro conns_ok_append [OF ok]) (auto simp: get_for_event_None)
  ultimately show ?thesis
    using event_handler_unknown [OF None, of cap body] ok by (auto simp: get_for_event_None)
next
  case (Some ic)
  obtain i c where ic: "ic = (i, c)" by (rule prod.exhaust)
  note S = get_for_event_Some [OF Some [unfolded ic]]
  have c: "connection_ok c" using ok S by (auto simp: conns_ok_def list_all_length)
  have upd: "conns_ok (cs[i := c']) \<and> get_connection_for_event (cs[i := c']) ev l \<noteq> None"
    if "key c' = key c" "connection_ok c'" for c'
    using that S(2) conns_ok_update [OF ok] get_for_event_update [OF Some [unfolded ic]] by blast
  have c1: "key (c\<lparr>info := update_for_event ev (info c)\<rparr>) = key c" "connection_ok (c\<lparr>info := update_for_event ev (info c)\<rparr>)"
    "key (c\<lparr>info := update_for_event ev (info c), buffer := b\<rparr>) = key c" for b
    using c by (simp_all add: key_def connection_ok_def)
  note handled = upd [OF c1(1,2)] upd [OF c1(3) connection_ok_update [OF c]]
  show ?thesis
    using event_handler_known [OF Some [unfolded ic] ok, where body = body and cap = cap] handled
    by (cases "event_type ev") (auto split: if_splits)
qed

section \<open>The invariant of the manager\<close>

definition manager_ok :: "'t manager \<Rightarrow> bool" where
  "manager_ok m \<longleftrightarrow> conns_ok (connections m) \<and> per_connection_buffer_capacity m \<noteq> 0"

lemma connection_ok_flags:
  "connection_ok (c\<lparr>established := x\<rparr>) = connection_ok c" "key (c\<lparr>established := x\<rparr>) = key c"
  "connection_ok (c\<lparr>peer_requested_shutdown := x\<rparr>) = connection_ok c" "key (c\<lparr>peer_requested_shutdown := x\<rparr>) = key c"
  by (simp_all add: connection_ok_def key_def)

lemma conns_nth_ok: "conns_ok cs \<Longrightarrow> i < length cs \<Longrightarrow> connection_ok (cs ! i)"
  by (simp add: conns_ok_def list_all_length)

lemma dispatch_inv:
  assumes ok: "manager_ok m" and i: "i < length (connections m)" "c = connections m ! i"
    and run: "dispatch_event hal tr device ev i c m h = Some (r, m', h')"
  shows "manager_ok m'"
proof -
  have u: "conns_ok ((connections m)[i := c\<lparr>established := True\<rparr>])"
    "conns_ok ((connections m)[i := c\<lparr>peer_requested_shutdown := True\<rparr>])"
    using ok i conns_nth_ok by (auto simp: manager_ok_def connection_ok_flags intro!: conns_ok_update)
  have rem: "conns_ok cs'" if "swap_remove i (connections m) = Some cs'" for cs'
    using conns_ok_remove(1) [OF _ that] ok by (simp add: manager_ok_def)
  show ?thesis
    using run u rem ok
    by (cases "event_type ev")
      (auto simp: dispatch_event_def manager_ok_def bind_eq_Some_conv Let_def case_sum_eq_Some split: if_splits)
qed

lemma vsock_send_info:
  assumes "vsock_send hal tr device data ci s h = Some (r, ci', s', h')"
  shows "dst ci' = dst ci \<and> src_port ci' = src_port ci \<and> buf_alloc ci' = buf_alloc ci \<and> fwd_cnt ci' = fwd_cnt ci"
  using assms
  by (auto simp: vsock_send_def check_peer_buffer_is_sufficient_def bind_eq_Some_conv Let_def
      case_sum_eq_Some split: if_splits)

text \<open>The steps of a manager: every public operation that can change it, with any result.\<close>

inductive manager_step :: "'h hal \<Rightarrow> 't transport \<Rightarrow> (virt_queue \<Rightarrow> virt_queue) \<Rightarrow> u64 \<Rightarrow> 't manager \<Rightarrow> 't manager \<Rightarrow> bool"
  for hal tr device bsz where
  step_listen: "manager_step hal tr device bsz m (listen p m)"
| step_unlisten: "manager_step hal tr device bsz m (unlisten p m)"
| step_connect: "manager_connect hal tr device a p m h = Some (r, m', h') \<Longrightarrow> manager_step hal tr device bsz m m'"
| step_send: "manager_send hal tr device a p data m h = Some (r, m', h') \<Longrightarrow> manager_step hal tr device bsz m m'"
| step_poll: "manager_poll hal tr device bsz m h = Some (r, m', h') \<Longrightarrow> manager_step hal tr device bsz m m'"
| step_recv: "manager_recv hal tr device a p out m h = Some (n, out', m', h') \<Longrightarrow> manager_step hal tr device bsz m m'"
| step_update_credit: "update_credit hal tr device a p m h = Some (r, m', h') \<Longrightarrow> manager_step hal tr device bsz m m'"
| step_shutdown: "manager_shutdown hal tr device a p m h = Some (r, m', h') \<Longrightarrow> manager_step hal tr device bsz m m'"
| step_force_close: "manager_force_close hal tr device a p m h = Some (r, m', h') \<Longrightarrow> manager_step hal tr device bsz m m'"
| step_rx: "manager_step hal tr device bsz m (m\<lparr>driver := d\<rparr>)"

lemma manager_connect_ok:
  assumes "manager_ok m" and "manager_connect hal tr device a p m h = Some (r, m', h')"
  shows "manager_ok m'"
proof -
  let ?c = "connection_new a p (per_connection_buffer_capacity m)"
  have "conns_ok (connections m @ [?c])" if "\<not> (\<exists>c \<in> set (connections m). dst (info c) = a \<and> src_port (info c) = p)"
    using assms(1) that connection_new_ok [of "per_connection_buffer_capacity m" a p]
    by (intro conns_ok_append) (auto simp: manager_ok_def key_def)
  with assms show ?thesis
    by (auto simp: manager_connect_def manager_ok_def bind_eq_Some_conv Let_def case_sum_eq_Some split: if_splits)
qed

lemma manager_send_ok:
  assumes "manager_ok m" and "manager_send hal tr device a p data m h = Some (r, m', h')"
  shows "manager_ok m'"
proof (cases "get_connection (connections m) a p")
  case (Inl e)
  with assms show ?thesis by (simp add: manager_send_def)
next
  case (Inr ic)
  obtain i c where ic: "ic = (i, c)" by (rule prod.exhaust)
  note G = get_connection_Inr [OF Inr [unfolded ic]]
  have c: "conns_ok (connections m)" "connection_ok c" using assms(1) G conns_nth_ok by (auto simp: manager_ok_def)
  have "conns_ok ((connections m)[i := c\<lparr>info := ci\<rparr>])" if "vsock_send hal tr device data (info c) (driver m) h = Some (r, ci, d, h')" for ci d
    using vsock_send_info [OF that] c G(2) by (intro conns_ok_update) (auto simp: key_def connection_ok_def)
  with assms Inr ic show ?thesis
    by (auto simp: manager_send_def manager_ok_def bind_eq_Some_conv split: if_splits)
qed

lemma poll_captured:
  assumes "poll hal tr bsz handler oq t h c = Some (r, oq', t', h', c')"
  shows "c' = c \<and> (\<forall>x. r \<noteq> Inr (Some x)) \<or> (\<exists>bs r'. handler bs c = Some (r', c') \<and> (r = r' \<or> (\<exists>e. r = Inl e)))"
  using assms
  by (auto simp: poll_def bind_eq_Some_conv case_sum_eq_Some split: option.splits) blast+

lemma packet_handler_captured:
  assumes "packet_handler handler bs c = Some (r, c')"
  shows "c' = c \<and> (\<exists>e. r = Inl e) \<or> (\<exists>ev body. handler ev body c = Some (r, c'))"
  using assms by (auto simp: packet_handler_def case_sum_eq_Some)

lemma vsock_poll_conns:
  assumes ok: "conns_ok cs" and cap: "cap \<noteq> 0"
    and run: "vsock_poll hal tr bsz (event_handler l cap) s h cs = Some (r, s', h', cs')"
  shows "conns_ok cs' \<and> (\<forall>ev. r = Inr (Some ev) \<longrightarrow> get_connection_for_event cs' ev l \<noteq> None)"
proof -
  obtain oq t where p: "poll hal tr bsz (packet_handler (event_handler l cap)) (rx s) (sock_transport s) h cs
      = Some (r, oq, t, h', cs')"
    using run by (auto simp: vsock_poll_def bind_eq_Some_conv)
  have inv: "conns_ok cs' \<and> (\<forall>ev'. r' = Inr (Some ev') \<longrightarrow> get_connection_for_event cs' ev' l \<noteq> None)"
    if "event_handler l cap ev body cs = Some (r', cs')" for ev body r'
    using event_handler_inv [OF ok cap, of l ev body] that by auto
  from poll_captured [OF p] consider "cs' = cs" "\<forall>x. r \<noteq> Inr (Some x)"
    | bs r' where "packet_handler (event_handler l cap) bs cs = Some (r', cs')" "r = r' \<or> (\<exists>e. r = Inl e)" by blast
  then show ?thesis
  proof cases
    case (2 bs r')
    from packet_handler_captured [OF 2(1)] 2(2) ok inv show ?thesis by auto
  qed (use ok in simp)
qed

lemma manager_poll_ok:
  assumes ok: "manager_ok m" and run: "manager_poll hal tr device bsz m h = Some (r, m', h')"
  shows "manager_ok m'"
proof -
  obtain r1 d h1 cs where p: "vsock_poll hal tr bsz (event_handler (guest_cid (driver m)) (per_connection_buffer_capacity m))
      (driver m) h (connections m) = Some (r1, d, h1, cs)"
    using run by (auto simp: manager_poll_def bind_eq_Some_conv Let_def)
  have cs: "conns_ok cs" using vsock_poll_conns [OF _ _ p] ok by (simp add: manager_ok_def)
  let ?m = "m\<lparr>driver := d, connections := cs\<rparr>"
  have m: "manager_ok ?m" using cs ok by (simp add: manager_ok_def)
  have rest: "(case r1 of Inl e \<Rightarrow> Some (Inl e, ?m, h1) | Inr None \<Rightarrow> Some (Inr None, ?m, h1)
      | Inr (Some ev) \<Rightarrow> do {
          (i, c) \<leftarrow> get_connection_for_event cs ev (guest_cid (driver m));
          dispatch_event hal tr device ev i c ?m h1 }) = Some (r, m', h')"
    using run by (simp add: manager_poll_def p Let_def cong: sum.case_cong option.case_cong)
  show ?thesis
  proof (cases "\<exists>ev. r1 = Inr (Some ev)")
    case True
    then obtain ev i c where e: "get_connection_for_event cs ev (guest_cid (driver m)) = Some (i, c)"
      "dispatch_event hal tr device ev i c ?m h1 = Some (r, m', h')"
      using rest by (auto simp: bind_eq_Some_conv)
    from dispatch_inv [OF m _ _ e(2)] get_for_event_Some [OF e(1)] show ?thesis by simp
  next
    case False
    with rest m show ?thesis by (cases r1) (auto split: option.splits)
  qed
qed

lemma manager_recv_ok:
  assumes ok: "manager_ok m" and run: "manager_recv hal tr device a p out m h = Some (n, out', m', h')"
  shows "manager_ok m'"
proof (cases "get_connection (connections m) a p")
  case (Inl e)
  with assms show ?thesis by (simp add: manager_recv_def)
next
  case (Inr ic)
  obtain i c where ic: "ic = (i, c)" by (rule prod.exhaust)
  note G = get_connection_Inr [OF Inr [unfolded ic]]
  have c: "conns_ok (connections m)" "connection_ok c" using ok G conns_nth_ok by (auto simp: manager_ok_def)
  obtain k o2 b where D: "ring_drain out (buffer c) = Some (k, o2, b)" "ring_inv b" "length (rb_buffer b) = length (rb_buffer (buffer c))"
    using ring_drain_ok [of "buffer c" out] c(2) by (auto simp: connection_ok_def)
  let ?c = "c\<lparr>buffer := b, info := done_forwarding k (info c)\<rparr>"
  have u: "conns_ok ((connections m)[i := ?c])"
    using c D G(2) by (intro conns_ok_update) (auto simp: key_def connection_ok_def done_forwarding_def)
  have rem: "conns_ok cs" if "swap_remove i ((connections m)[i := ?c]) = Some cs" for cs
    using conns_ok_remove(1) [OF u that] .
  show ?thesis
    using run Inr ic D(1) u rem ok
    by (auto simp: manager_recv_def manager_ok_def bind_eq_Some_conv case_sum_eq_Some Let_def split: if_splits)
qed

lemma manager_force_close_ok:
  assumes "manager_ok m" and "manager_force_close hal tr device a p m h = Some (r, m', h')"
  shows "manager_ok m'"
  using assms conns_ok_remove(1)
  by (auto simp: manager_force_close_def manager_ok_def bind_eq_Some_conv case_sum_eq_Some Let_def)

lemma manager_same_conns:
  assumes "update_credit hal tr device a p m h = Some (r, m', h') \<or> manager_shutdown hal tr device a p m h = Some (r, m', h')"
  shows "\<exists>d. m' = m\<lparr>driver := d\<rparr>"
  using assms by (auto simp: update_credit_def manager_shutdown_def bind_eq_Some_conv case_sum_eq_Some split: if_splits)
    (metis manager.surjective manager.update_convs(1))+

lemma manager_step_ok:
  assumes "manager_step hal tr device bsz m m'" and "manager_ok m"
  shows "manager_ok m'"
  using assms
proof (induction rule: manager_step.induct)
  case (step_update_credit a p m h r m' h')
  then show ?case using manager_same_conns [of hal tr device a p m h r m' h'] by (auto simp: manager_ok_def)
next
  case (step_shutdown a p m h r m' h')
  then show ?case using manager_same_conns [of hal tr device a p m h r m' h'] by (auto simp: manager_ok_def)
next
  case step_connect then show ?case by (auto intro: manager_connect_ok)
next
  case step_send then show ?case by (auto intro: manager_send_ok)
next
  case step_poll then show ?case by (auto intro: manager_poll_ok)
next
  case step_recv then show ?case by (auto intro: manager_recv_ok)
next
  case step_force_close then show ?case by (auto intro: manager_force_close_ok)
qed (simp_all add: listen_def unlisten_def manager_ok_def)

lemma get_own_connection:
  assumes "conns_ok cs" and "i < length cs"
  shows "get_connection cs (dst (info (cs ! i))) (src_port (info (cs ! i))) = Inr (i, cs ! i)"
proof (cases "get_connection cs (dst (info (cs ! i))) (src_port (info (cs ! i)))")
  case (Inl e)
  then have "key (cs ! i) \<notin> key ` set cs" by (simp add: get_connection_Inl key_def)
  with assms(2) show ?thesis by simp
next
  case (Inr jc)
  obtain j c where jc: "jc = (j, c)" by (rule prod.exhaust)
  note G = get_connection_Inr [OF Inr [unfolded jc]]
  then have "map key cs ! j = map key cs ! i" using assms(2) by (simp add: key_def)
  then have "j = i" using assms G(1) by (simp add: conns_ok_def nth_eq_iff_index_eq del: nth_map)
  with Inr jc G show ?thesis by simp
qed

lemma get_for_event_key:
  assumes "cid (ev_destination ev) = l"
  shows "get_connection_for_event cs ev l =
    (case get_connection cs (ev_source ev) (port (ev_destination ev)) of Inl _ \<Rightarrow> None | Inr ic \<Rightarrow> Some ic)"
proof -
  have "(\<lambda>c. matches_connection ev (info c) l)
      = (\<lambda>c. dst (info c) = ev_source ev \<and> src_port (info c) = port (ev_destination ev))"
    using assms by (auto simp: matches_connection_def)
  then have "get_connection_for_event cs ev l
      = find_index_from 0 (\<lambda>c. dst (info c) = ev_source ev \<and> src_port (info c) = port (ev_destination ev)) cs"
    unfolding get_connection_for_event_def by (rule arg_cong [where f = "\<lambda>P. find_index_from 0 P cs"])
  then show ?thesis by (simp add: get_connection_def split: option.split)
qed

section \<open>Properties\<close>

text \<open>
  C13. After any sequence of operations of the connection manager, with any results and whatever the
  device does to the queues in between, no two connections have the same peer address and local port,
  so every connection is found under its own address, and every receive buffer has exactly the
  capacity that the connection announces to its peer.
\<close>

theorem connections_unique:
  assumes cap: "capacity \<noteq> 0"
    and steps: "(manager_step hal tr device bsz)\<^sup>*\<^sup>* (manager_new_with_capacity d capacity) m"
  shows "distinct (map key (connections m))
    \<and> (\<forall>i < length (connections m). let c = connections m ! i in
         get_connection (connections m) (dst (info c)) (src_port (info c)) = Inr (i, c)
         \<and> ring_used (buffer c) + ring_free (buffer c) = unat (buf_alloc (info c)))"
proof -
  have "manager_ok m"
    using steps
  proof (induction rule: rtranclp_induct)
    case base
    then show ?case using cap by (simp add: manager_ok_def conns_ok_def manager_new_with_capacity_def)
  next
    case (step y z)
    then show ?case using manager_step_ok by blast
  qed
  then have ok: "conns_ok (connections m)" by (simp add: manager_ok_def)
  then have "ring_used (buffer c) + ring_free (buffer c) = unat (buf_alloc (info c))" if "c \<in> set (connections m)" for c
    using that by (auto simp: conns_ok_def list_all_iff connection_ok_def ring_inv_def ring_used_def ring_free_def)
  with ok get_own_connection [OF ok] show ?thesis by (simp add: conns_ok_def Let_def)
qed

lemma vsock_connect_ok:
  assumes "tx_ready device (tx s)" and "hal_box_law hal"
  shows "\<exists>s' h'. vsock_connect hal tr device ci s h = Some (Inr (), s', h') \<and> sent s s'"
    "\<exists>s' h'. vsock_accept hal tr device ci s h = Some (Inr (), s', h') \<and> sent s s'"
    "\<exists>s' h'. vsock_force_close hal tr device ci s h = Some (Inr (), s', h') \<and> sent s s'"
    "\<exists>s' h'. credit_update hal tr device ci s h = Some (Inr (), s', h') \<and> sent s s'"
  unfolding vsock_connect_def vsock_accept_def vsock_force_close_def credit_update_def
  using send_packet_ok [OF assms, of empty_slice] by (simp_all add: empty_slice_def)

lemma manager_connect_returns:
  assumes ready: "tx_ready device (tx (driver m))" and law: "hal_box_law hal"
    and new: "(a, p) \<notin> key ` set (connections m)"
  shows "\<exists>d h'. manager_connect hal tr device a p m h = Some (Inr (),
      m\<lparr>driver := d, connections := connections m @ [connection_new a p (per_connection_buffer_capacity m)]\<rparr>, h')
    \<and> sent (driver m) d"
proof -
  obtain d h' where "vsock_connect hal tr device (info (connection_new a p (per_connection_buffer_capacity m))) (driver m) h
      = Some (Inr (), d, h')" "sent (driver m) d"
    using vsock_connect_ok(1) [OF ready law] by metis
  moreover have "\<not> (\<exists>c \<in> set (connections m). dst (info c) = a \<and> src_port (info c) = p)"
    using new by (auto simp: key_def)
  ultimately show ?thesis by (intro exI [of _ d] exI [of _ h']) (simp add: manager_connect_def Let_def)
qed

definition sample_manager :: "register_write list manager" where
  "sample_manager = manager_new_with_capacity sample_socket 1024"

lemma sample_connect:
  obtains m h where "manager_connect bump_hal (recording 0 (\<lambda>_. 8) False) serve_one \<lparr>cid = 2, port = 42\<rparr> 1234 sample_manager 0
      = Some (Inr (), m, h)" and "connections m = [connection_new \<lparr>cid = 2, port = 42\<rparr> 1234 1024]"
proof -
  obtain d h' where "manager_connect bump_hal (recording 0 (\<lambda>_. 8) False) serve_one \<lparr>cid = 2, port = 42\<rparr> 1234 sample_manager 0
      = Some (Inr (), sample_manager\<lparr>driver := d, connections := connections sample_manager
          @ [connection_new \<lparr>cid = 2, port = 42\<rparr> 1234 (per_connection_buffer_capacity sample_manager)]\<rparr>, h')"
    using manager_connect_returns [of serve_one sample_manager bump_hal "\<lparr>cid = 2, port = 42\<rparr>" 1234
        "recording 0 (\<lambda>_. 8) False" 0]
      sample_tx_ready bump_hal_laws
    by (auto simp: sample_manager_def manager_new_with_capacity_def sample_socket_def)
  then show thesis by (rule that) (simp add: sample_manager_def manager_new_with_capacity_def)
qed

theorem connections_unique_witness:
  "\<exists>m. (manager_step bump_hal (recording 0 (\<lambda>_. 8) False) serve_one 512)\<^sup>*\<^sup>* sample_manager m
    \<and> length (connections m) = 1 \<and> distinct (map key (connections m))"
proof -
  obtain m h where c: "manager_connect bump_hal (recording 0 (\<lambda>_. 8) False) serve_one \<lparr>cid = 2, port = 42\<rparr> 1234 sample_manager 0
      = Some (Inr (), m, h)" "connections m = [connection_new \<lparr>cid = 2, port = 42\<rparr> 1234 1024]"
    by (rule sample_connect)
  then have s: "(manager_step bump_hal (recording 0 (\<lambda>_. 8) False) serve_one 512)\<^sup>*\<^sup>* sample_manager m"
    by (blast intro: step_connect)
  with connections_unique [OF _ s [unfolded sample_manager_def]] c(2) show ?thesis by auto
qed

text \<open>The packet the device has put into the receive queue, at the next used entry.\<close>

definition rx_packet :: "'h hal \<Rightarrow> u64 \<Rightarrow> owning_queue \<Rightarrow> u16 list \<Rightarrow> vsock_hdr \<Rightarrow> u8 list \<Rightarrow> bool" where
  "rx_packet hal bsz oq lost header body \<longleftrightarrow>
     (let token = ucast (used_id (next_used (queue oq))); n = used_len (next_used (queue oq)) in
      owning_inv bsz oq lost \<and> can_pop (queue oq) \<and> unat token < SIZE (queue oq) \<and> token \<notin> set lost \<and> ucast n \<le> bsz
      \<and> unat (hdr_len header) = length body
      \<and> (\<forall>h. mem_load hal \<lparr>slice_ptr = buffers oq ! unat token, slice_len = ucast n\<rparr> h = hdr_bytes header @ body))"

lemma vsock_poll_packet:
  assumes rx: "rx_packet hal bsz (rx s) lost header body" and law: "hal_box_law hal"
    and ev: "event_from_header header = Inr ev" and handler: "handler ev body c = Some (r, c')"
  shows "\<exists>s' h'. vsock_poll hal tr bsz handler s h c = Some (r, s', h', c') \<and> owning_inv bsz (rx s') lost
    \<and> tx s' = tx s \<and> guest_cid s' = guest_cid s"
proof -
  have "packet_handler handler (hdr_bytes header @ body) c = Some (r, c')"
    using rx ev handler read_own_packet [of header body] by (simp add: packet_handler_def rx_packet_def Let_def)
  then obtain oq' t' h' where "poll hal tr bsz (packet_handler handler) (rx s) (sock_transport s) h c = Some (r, oq', t', h', c')"
    "owning_inv bsz oq' lost"
    using rx poll_success [of bsz "rx s" lost hal "packet_handler handler" c r c' tr "sock_transport s" h] law
    by (auto simp: rx_packet_def Let_def)
  then show ?thesis by (simp add: vsock_poll_def)
qed


text \<open>
  C15. \<open>recv\<close> hands out the received bytes in order: it fills the caller's buffer from the front of the
  connection's buffer, leaves the rest of both as they were, and adds the number of bytes to the
  forwarded count it will announce. A connection whose peer asked for shutdown is closed, with a
  reset to the peer, exactly when its last byte was read. There is no such connection exactly if the
  result is \<open>NotConnected\<close>.
\<close>

theorem recv_in_order:
  assumes ok: "manager_ok m" and ready: "tx_ready device (tx (driver m))" and law: "hal_box_law hal"
  shows "case get_connection (connections m) a p of
      Inl e \<Rightarrow> (a, p) \<notin> key ` set (connections m)
        \<and> manager_recv hal tr device a p out m h = Some (Inl (SocketDeviceError NotConnected), out, m, h)
    | Inr (i, c) \<Rightarrow> key c = (a, p) \<and> (\<exists>m' h' b. manager_recv hal tr device a p out m h
          = Some (Inr (min (ring_used (buffer c)) (length out)),
              take (length out) (ring_content (buffer c)) @ drop (ring_used (buffer c)) out, m', h')
        \<and> ring_content b = drop (length out) (ring_content (buffer c))
        \<and> (if peer_requested_shutdown c \<and> ring_content b = []
           then (a, p) \<notin> key ` set (connections m') \<and> sent (driver m) (driver m')
           else connections m' = (connections m)[i := c\<lparr>buffer := b,
             info := (info c)\<lparr>fwd_cnt := fwd_cnt (info c) + of_nat (min (ring_used (buffer c)) (length out))\<rparr>\<rparr>]
             \<and> driver m' = driver m))"
proof (cases "get_connection (connections m) a p")
  case (Inl e)
  then have "e = SocketDeviceError NotConnected" "(a, p) \<notin> key ` set (connections m)"
    by (simp_all add: get_connection_Inl)
  with Inl show ?thesis by (simp add: manager_recv_def)
next
  case (Inr ic)
  obtain i c where ic: "ic = (i, c)" by (rule prod.exhaust)
  note G = get_connection_Inr [OF Inr [unfolded ic]]
  have ok': "conns_ok (connections m)" using ok by (simp add: manager_ok_def)
  have c: "connection_ok c" using conns_nth_ok [OF ok' G(1)] G(2) by simp
  let ?k = "min (ring_used (buffer c)) (length out)"
  let ?out = "take (length out) (ring_content (buffer c)) @ drop (ring_used (buffer c)) out"
  obtain b where D: "ring_drain out (buffer c) = Some (?k, ?out, b)" "ring_inv b"
    "ring_content b = drop (length out) (ring_content (buffer c))" "length (rb_buffer b) = length (rb_buffer (buffer c))"
    using ring_drain_ok [of "buffer c" out] c by (auto simp: connection_ok_def ring_used_def)
  define c' where "c' = c\<lparr>buffer := b, info := (info c)\<lparr>fwd_cnt := fwd_cnt (info c) + of_nat ?k\<rparr>\<rparr>"
  have c': "c\<lparr>buffer := b\<rparr>\<lparr>info := done_forwarding ?k (info c)\<rparr> = c'" "key c' = key c" "connection_ok c'"
    using c D(2,4) by (simp_all add: c'_def done_forwarding_def key_def connection_ok_def)
  have empty: "ring_is_empty b \<longleftrightarrow> ring_content b = []"
    by (simp add: ring_is_empty_def ring_content_def)
  have upd: "conns_ok ((connections m)[i := c'])" using conns_ok_update [OF ok'] c' G(2) by simp
  obtain cs where R: "swap_remove i ((connections m)[i := c']) = Some cs"
    using G(1) by (simp add: swap_remove_def)
  have "key ` set cs = key ` set ((connections m)[i := c']) - {(a, p)}"
    using conns_ok_remove(2) [OF upd R] G c'(2) by simp
  moreover obtain d h' where F: "vsock_force_close hal tr device (info c') (driver m) h = Some (Inr (), d, h')" "sent (driver m) d"
    using vsock_connect_ok(3) [OF ready law] by metis
  have sh: "peer_requested_shutdown c' = peer_requested_shutdown c" "buffer c' = b" by (simp_all add: c'_def)
  have run: "manager_recv hal tr device a p out m h =
     (if peer_requested_shutdown c \<and> ring_is_empty b
      then Some (Inr ?k, ?out, m\<lparr>driver := d, connections := cs\<rparr>, h')
      else Some (Inr ?k, ?out, m\<lparr>connections := (connections m)[i := c']\<rparr>, h))"
    using Inr ic D(1) F(1) R c'(1) sh by (simp add: manager_recv_def Let_def)
  show ?thesis
    unfolding run using Inr ic G(3) D(3) F(2) calculation empty
    by (auto simp: c'_def intro!: exI [of _ b])
qed

section \<open>Witnesses\<close>

lemma sample_rx:
  obtains oq where "owning_inv 512 oq []" and "SIZE (queue oq) = 8" and "used_idx (vq_used (queue oq)) = 0"
    and "last_used_idx (queue oq) = 0" and "length (used_slots (vq_used (queue oq))) = 8"
proof -
  let ?q = "fresh_queue sample_layout 8 0 False True False"
  have "vq_inv ?q (map of_nat [0..<SIZE ?q]) []"
    using fresh_inv [of 8 sample_layout 0 False True False] by (simp add: is_power_of_two_def fresh_available)
  from owning_fill_ok [OF this, of 512 "[]" bump_hal 0] bump_hal_laws bump_hal_nonnull
  obtain q bufs fs where Q: "vq_inv q [] fs" "SIZE q = 8" "length bufs = 8"
    "\<forall>f \<in> set fs. owns 512 bufs (token_of f) f" "same_config ?q q"
    by (auto simp: fresh_available)
  show thesis
  proof (rule that)
    show "owning_inv 512 \<lparr>queue = q, buffers = bufs\<rparr> []" using Q by (auto simp: owning_inv_def)
    show "length (used_slots (vq_used (queue \<lparr>queue = q, buffers = bufs\<rparr>))) = 8"
      using vq_invD(1) [OF Q(1)] Q(2) by (simp add: shape_ok_def)
  qed (use Q in \<open>simp_all add: same_config_def fresh_queue_def\<close>)
qed

definition sample_hdr :: vsock_hdr where
  "sample_hdr = hdr_default\<lparr>src_cid := 2, dst_cid := 3, hdr_src_port := 42, dst_port := 1234, hdr_len := 3,
     op_field := 5, hdr_buf_alloc := 1024\<rparr>"

definition packet_hal :: "u8 list \<Rightarrow> u64 hal" where
  "packet_hal bytes = bump_hal\<lparr>mem_load := (\<lambda>_ _. bytes)\<rparr>"


theorem recv_in_order_witness:
  "\<exists>m m' h'. connections m = [connection_new \<lparr>cid = 2, port = 42\<rparr> 1234 1024]
    \<and> manager_recv bump_hal (recording 0 (\<lambda>_. 8) False) serve_one \<lparr>cid = 2, port = 42\<rparr> 1234 [1, 2] m 0
        = Some (Inr 0, [1, 2], m', h')"
proof -
  let ?c = "connection_new \<lparr>cid = 2, port = 42\<rparr> 1234 1024"
  let ?m = "sample_manager\<lparr>connections := [?c]\<rparr>"
  have ok: "manager_ok ?m"
    using connection_new_ok [of 1024] by (simp add: manager_ok_def conns_ok_def sample_manager_def manager_new_with_capacity_def)
  have ready: "tx_ready serve_one (tx (driver ?m))"
    using sample_tx_ready by (simp add: sample_manager_def manager_new_with_capacity_def sample_socket_def)
  have "get_connection (connections ?m) \<lparr>cid = 2, port = 42\<rparr> 1234 = Inr (0, ?c)"
    by (simp add: get_connection_def connection_new_def connection_info_new_def)
  moreover have "ring_used (buffer ?c) = 0" by (simp add: connection_new_def ring_used_def ring_new_def)
  moreover have "ring_content (buffer ?c) = []" by (simp add: connection_new_def ring_new_inv)
  ultimately have "\<exists>m' h'. manager_recv bump_hal (recording 0 (\<lambda>_. 8) False) serve_one \<lparr>cid = 2, port = 42\<rparr> 1234 [1, 2] ?m 0
      = Some (Inr 0, [1, 2], m', h')"
    using recv_in_order [OF ok ready bump_hal_laws(2), of "\<lparr>cid = 2, port = 42\<rparr>" 1234 "recording 0 (\<lambda>_. 8) False" "[1, 2]" 0]
    by auto
  then obtain m' h' where "manager_recv bump_hal (recording 0 (\<lambda>_. 8) False) serve_one \<lparr>cid = 2, port = 42\<rparr> 1234 [1, 2] ?m 0
      = Some (Inr 0, [1, 2], m', h')" by blast
  then show ?thesis by (intro exI [of _ ?m] exI [of _ m'] exI [of _ h']) simp
qed

text \<open>
  A connection request for a connection that already exists is not ignored, as the comment of the
  code says: the event passes the closure, and if the port is not listened on (the connection was
  opened by us), the existing connection is reset and removed.
\<close>

theorem duplicate_request_resets:
  assumes ok: "manager_ok m" and ready: "tx_ready device (tx (driver m))" and law: "hal_box_law hal"
    and rx: "rx_packet hal bsz (rx (driver m)) lost header []"
    and ev: "event_from_header header = Inr ev" "event_type ev = ConnectionRequest"
    and conn: "get_connection_for_event (connections m) ev (guest_cid (driver m)) = Some (i, c)"
    and port: "port (ev_destination ev) \<notin> set (listening_ports m)"
  shows "\<exists>m' h'. manager_poll hal tr device bsz m h = Some (Inr None, m', h')
    \<and> key ` set (connections m') = key ` set (connections m) - {key c}"
proof -
  have ok': "conns_ok (connections m)" using ok by (simp add: manager_ok_def)
  note G = get_for_event_Some [OF conn]
  let ?c = "c\<lparr>info := update_for_event ev (info c)\<rparr>" and ?cs = "(connections m)[i := c\<lparr>info := update_for_event ev (info c)\<rparr>]"
  have hd: "event_handler (guest_cid (driver m)) (per_connection_buffer_capacity m) ev [] (connections m) = Some (Inr (Some ev), ?cs)"
    using event_handler_known [OF conn ok', where body = "[]" and cap = "per_connection_buffer_capacity m"] ev(2) by auto
  obtain s' h1 where p: "vsock_poll hal tr bsz (event_handler (guest_cid (driver m)) (per_connection_buffer_capacity m))
      (driver m) h (connections m) = Some (Inr (Some ev), s', h1, ?cs)" "tx s' = tx (driver m)"
    using vsock_poll_packet [where handler = "event_handler (guest_cid (driver m)) (per_connection_buffer_capacity m)"
        and c = "connections m", OF rx law ev(1) hd] by metis
  have k: "key ?c = key c" "connection_ok ?c"
    using conns_nth_ok [OF ok' G(1)] G(2) by (simp_all add: key_def connection_ok_def)
  have upd: "conns_ok ?cs" using conns_ok_update [OF ok'] k G(2) by simp
  have keys: "map key ?cs = map key (connections m)" using k(1) G(1,2) by (simp add: map_update list_update_same_conv)
  have "get_connection ?cs (ev_source ev) (port (ev_destination ev)) = Inr (i, ?c)"
    using get_own_connection [OF upd, of i] G k(1) by (simp add: key_def)
  then have again: "get_connection_for_event ?cs ev (guest_cid (driver m)) = Some (i, ?c)"
    using get_for_event_key [OF G(4)] by simp
  obtain d h2 where F: "vsock_force_close hal tr device (info ?c) s' h1 = Some (Inr (), d, h2)"
    using vsock_connect_ok(3) [of device s' hal tr "info ?c" h1] ready law p(2) by auto
  obtain cs' where R: "swap_remove i ?cs = Some cs'" using G(1) by (simp add: swap_remove_def)
  have "manager_poll hal tr device bsz m h = Some (Inr None, m\<lparr>driver := d, connections := cs'\<rparr>, h2)"
    using p(1) again ev(2) port F R by (simp add: manager_poll_def dispatch_event_def Let_def)
  moreover have "key ` set cs' = key ` set (connections m) - {key c}"
    using conns_ok_remove(2) [OF upd R] k(1) G(1) arg_cong [OF keys, of set] by simp
  ultimately show ?thesis by auto
qed

definition request_hdr :: vsock_hdr where
  "request_hdr = sample_hdr\<lparr>hdr_len := 0, op_field := 1\<rparr>"

theorem duplicate_request_resets_witness:
  "\<exists>m m' h'. connections m = [connection_new \<lparr>cid = 2, port = 42\<rparr> 1234 1024]
    \<and> manager_poll (packet_hal (hdr_bytes request_hdr)) (recording 0 (\<lambda>_. 8) False) serve_one 512 m 0
        = Some (Inr None, m', h')
    \<and> connections m' = []"
proof -
  let ?c = "connection_new \<lparr>cid = 2, port = 42\<rparr> 1234 1024"
  let ?hal = "packet_hal (hdr_bytes request_hdr)"
  obtain oq where oq: "owning_inv 512 oq []" "SIZE (queue oq) = 8" "used_idx (vq_used (queue oq)) = 0"
    "last_used_idx (queue oq) = 0" "length (used_slots (vq_used (queue oq))) = 8" by (rule sample_rx)
  let ?oq = "device_returns 2 44 oq"
  let ?m = "\<lparr>driver = sample_socket\<lparr>rx := ?oq\<rparr>, per_connection_buffer_capacity = 1024, connections = [?c],
    listening_ports = []\<rparr>"
  have d: "can_pop (queue ?oq)" "next_used (queue ?oq) = \<lparr>used_id = 2, used_len = 44\<rparr>" "SIZE (queue ?oq) = 8"
    using oq by (simp_all add: device_returns_def can_pop_def next_used_def)
  have rx: "rx_packet ?hal 512 (rx (driver ?m)) [] request_hdr []"
    using d device_returns_inv [OF oq(1), of 2 44]
    by (simp add: rx_packet_def packet_hal_def request_hdr_def)
  have law: "hal_box_law ?hal" using bump_hal_laws by (simp add: hal_box_law_def packet_hal_def)
  define ev where "ev = \<lparr>ev_source = \<lparr>cid = 2, port = 42\<rparr>, ev_destination = \<lparr>cid = 3, port = 1234\<rparr>,
    buffer_status = \<lparr>buffer_allocation = 1024, forward_count = 0\<rparr>, event_type = ConnectionRequest\<rparr>"
  have ev: "event_from_header request_hdr = Inr ev" "event_type ev = ConnectionRequest"
    by (simp_all add: ev_def event_from_header_def request_hdr_def sample_hdr_def hdr_default_def hdr_op_def
        op_try_from_def hdr_source_def hdr_destination_def check_data_is_empty_def)
  have ok: "manager_ok ?m" using connection_new_ok [of 1024] by (simp add: manager_ok_def conns_ok_def)
  have ready: "tx_ready serve_one (tx (driver ?m))" using sample_tx_ready by (simp add: sample_socket_def)
  have conn: "get_connection_for_event (connections ?m) ev (guest_cid (driver ?m)) = Some (0, ?c)"
    by (simp add: get_connection_for_event_def matches_connection_def ev_def connection_new_def
        connection_info_new_def sample_socket_def)
  have "port (ev_destination ev) \<notin> set (listening_ports ?m)" by simp
  from duplicate_request_resets [OF ok ready law rx ev conn this, of "recording 0 (\<lambda>_. 8) False" 0]
  obtain m' h' where "manager_poll ?hal (recording 0 (\<lambda>_. 8) False) serve_one 512 ?m 0 = Some (Inr None, m', h')"
    "connections m' = []" by auto
  then show ?thesis by (intro exI [of _ ?m] exI [of _ m'] exI [of _ h']) simp
qed

section \<open>Receive credit\<close>

text \<open>
  The life of a connection's receive side: data of the peer is added (\<open>R\<close> counts all bytes so far),
  and \<open>recv\<close> drains the buffer and forwards the count.
\<close>

inductive receiving :: "u32 \<Rightarrow> connection \<Rightarrow> nat \<Rightarrow> bool" for capacity where
  receiving_new: "receiving capacity (connection_new peer p capacity) 0"
| receiving_data: "receiving capacity c R \<Longrightarrow> ring_add body (buffer c) = Some (True, b) \<Longrightarrow>
    receiving capacity (c\<lparr>info := update_for_event ev (info c), buffer := b\<rparr>) (R + length body)"
| receiving_other: "receiving capacity c R \<Longrightarrow> receiving capacity (c\<lparr>info := update_for_event ev (info c)\<rparr>) R"
| receiving_drain: "receiving capacity c R \<Longrightarrow> ring_drain out (buffer c) = Some (n, out', b) \<Longrightarrow>
    receiving capacity (c\<lparr>buffer := b, info := done_forwarding n (info c)\<rparr>) R"

lemma receiving_inv:
  assumes "receiving capacity c R" and "capacity \<noteq> 0"
  shows "connection_ok c \<and> buf_alloc (info c) = capacity \<and> of_nat R - fwd_cnt (info c) = of_nat (rb_used (buffer c))"
  using assms
proof (induction rule: receiving.induct)
  case (receiving_new peer p)
  then show ?case
    using connection_new_ok(1) [of capacity peer p]
    by (simp add: connection_new_def connection_info_new_def ring_new_def)
next
  case (receiving_data c R body b ev)
  then have c: "connection_ok c" "of_nat R - fwd_cnt (info c) = of_nat (rb_used (buffer c))" "buf_alloc (info c) = capacity"
    by simp_all
  have fits: "length body \<le> ring_free (buffer c)"
    using rb.push_full [of "buffer c" body] c(1) receiving_data.hyps(2) by (intro leI) (auto simp: connection_ok_def)
  have "length (ring_content b) = length (ring_content (buffer c) @ body)"
    using ring_add_ok [OF _ fits] c(1) receiving_data.hyps(2) by (auto simp: connection_ok_def)
  then have used: "rb_used b = rb_used (buffer c) + length body" by simp
  have "of_nat (R + length body) - fwd_cnt (info c) = of_nat (rb_used b)"
    using c(2) by (simp add: used diff_eq_eq add.commute add.left_commute)
  then show ?case
    using connection_ok_update [OF c(1) receiving_data.hyps(2) fits] c(3) by simp
next
  case (receiving_other c R ev)
  then show ?case by (simp add: connection_ok_def)
next
  case (receiving_drain c R out n out' b)
  then have D: "n = min (rb_used (buffer c)) (length out)" "ring_inv b" "length (rb_buffer b) = length (rb_buffer (buffer c))"
    "ring_content b = drop (length out) (ring_content (buffer c))"
    using ring_drain_ok [of "buffer c" out] by (auto simp: connection_ok_def)
  then have "rb_used b = rb_used (buffer c) - length out" by (metis length_drop length_ring_content)
  then have "rb_used (buffer c) = rb_used b + n" using D(1) by simp
  with receiving_drain have "of_nat R - (fwd_cnt (info c) + of_nat n) = of_nat (rb_used b)"
    by (simp add: diff_eq_eq add.commute add.left_commute)
  with receiving_drain D show ?case by (simp add: connection_ok_def done_forwarding_def)
qed



end
