(* ===== verification/Gpu_Fence.thy ===== *)
theory Gpu_Fence
  imports Offset_Allocator
begin

text \<open>
  Identifiers, engines and fences of the display driver (\<open>src/gpu-wddm/src/queue.rs\<close>): the allocator of
  resource and context ids, the tracker of virtio fences, the state of an engine and the completion of
  its fences towards the scheduler, which must see every fence once and in order.

  The interrupts reported to the port driver are kept as the list of the calls
  \<open>notify_interrupt_synchronized\<close> in their order. \<open>ke_query_performance_counter\<close> is the parameter
  \<open>counter\<close>: it gives the time and the frequency and may change the kernel's state, the field
  \<open>kernel\<close>. Every operation here runs under the locks its code takes, so a step is one call; the
  interleaving of the two atomic accesses of the id allocator is modelled separately.
\<close>

section \<open>Identifiers\<close>

record id_allocator =
  next_id :: u32
  free_ids :: "u32 list"

definition id_new :: "u32 \<Rightarrow> id_allocator" where
  "id_new initial = \<lparr>next_id = initial, free_ids = []\<rparr>"

definition id_next :: "id_allocator \<Rightarrow> u32 option \<times> id_allocator" where
  "id_next a =
     (case free_ids a of
        x # xs \<Rightarrow> (Some x, a\<lparr>free_ids := xs\<rparr>)
      | [] \<Rightarrow>
          let x = next_id a; a = a\<lparr>next_id := next_id a + 1\<rparr> in
          if x \<noteq> - 1 then (Some x, a) else (None, a\<lparr>next_id := - 1\<rparr>))"

definition id_free :: "u32 \<Rightarrow> id_allocator \<Rightarrow> id_allocator" where
  "id_free x a = a\<lparr>free_ids := free_ids a @ [x]\<rparr>"

text \<open>
  The same operations as their atomic accesses: a thread takes a freed id under the lock; if there is
  none it adds one to the counter, and if it read the last value it stores that value back in a third
  access. A step is labelled with the result of the call of \<open>next\<close> that it ends, if any.
\<close>

datatype id_thread = Idle | FoundNone | ReadMax

record id_system =
  cell :: u32
  freed :: "u32 list"
  threads :: "nat \<Rightarrow> id_thread"

inductive id_step :: "id_system \<Rightarrow> u32 option option \<Rightarrow> id_system \<Rightarrow> bool" where
  pop_freed: "threads s t = Idle \<Longrightarrow> freed s = x # xs \<Longrightarrow> id_step s (Some (Some x)) (s\<lparr>freed := xs\<rparr>)"
| found_none: "threads s t = Idle \<Longrightarrow> freed s = []
    \<Longrightarrow> id_step s None (s\<lparr>threads := (threads s)(t := FoundNone)\<rparr>)"
| fetch_add: "threads s t = FoundNone \<Longrightarrow> cell s \<noteq> - 1
    \<Longrightarrow> id_step s (Some (Some (cell s))) (s\<lparr>cell := cell s + 1, threads := (threads s)(t := Idle)\<rparr>)"
| fetch_max: "threads s t = FoundNone \<Longrightarrow> cell s = - 1
    \<Longrightarrow> id_step s None (s\<lparr>cell := cell s + 1, threads := (threads s)(t := ReadMax)\<rparr>)"
| store_max: "threads s t = ReadMax
    \<Longrightarrow> id_step s (Some None) (s\<lparr>cell := - 1, threads := (threads s)(t := Idle)\<rparr>)"
| push_freed: "id_step s None (s\<lparr>freed := freed s @ [x]\<rparr>)"

section \<open>Engines\<close>

datatype engine = Graphics | PhysicalOther | Copy | Other u8

definition GRAPHICS_ENGINE :: u32 where "GRAPHICS_ENGINE = 0"
definition PHYS_OTHER_ENGINE :: u32 where "PHYS_OTHER_ENGINE = 1"
definition COPY_ENGINE :: u32 where "COPY_ENGINE = 2"
definition OTHER_ENGINE_START :: u32 where "OTHER_ENGINE_START = 3"
definition OTHER_ENGINE_COUNT :: u32 where "OTHER_ENGINE_COUNT = 61"
definition OTHER_ENGINE_END :: u32 where "OTHER_ENGINE_END = OTHER_ENGINE_START + OTHER_ENGINE_COUNT - 1"
definition TOTAL_COUNT :: u32 where "TOTAL_COUNT = OTHER_ENGINE_START + OTHER_ENGINE_COUNT"

definition try_from_node_ordinal :: "u32 \<Rightarrow> engine option" where
  "try_from_node_ordinal index =
     (if index = GRAPHICS_ENGINE then Some Graphics
      else if index = COPY_ENGINE then Some Copy
      else if index = PHYS_OTHER_ENGINE then Some PhysicalOther
      else if OTHER_ENGINE_START \<le> index \<and> index \<le> OTHER_ENGINE_END
        then Some (Other (ucast (index - OTHER_ENGINE_START)))
      else None)"

fun node_ordinal :: "engine \<Rightarrow> u32 option" where
  "node_ordinal Graphics = Some GRAPHICS_ENGINE"
| "node_ordinal Copy = Some COPY_ENGINE"
| "node_ordinal PhysicalOther = Some PHYS_OTHER_ENGINE"
| "node_ordinal (Other i) = do {
     let i = ucast i;
     assert (i < OTHER_ENGINE_COUNT);
     Some (OTHER_ENGINE_START + i)
   }"

datatype interrupt = DmaCompleted engine u32 | DmaPreempted engine u32 u32 | DmaFaulted engine u32
  | VSync "u64 option list"

record engine_state =
  last_submitted_fence :: u32
  last_completed_fence :: u32
  last_preemption_fence :: u32
  pending_fences :: "u32 list"
  last_submitted_timestamp :: u64
  last_completed_timestamp :: u64

definition RESPONSIVE_TIMEOUT_SEC :: u64 where "RESPONSIVE_TIMEOUT_SEC = 30"

type_synonym 'k counter = "'k \<Rightarrow> (u64 \<times> u64) \<times> 'k"

definition submit :: "'k counter \<Rightarrow> u32 \<Rightarrow> engine_state \<Rightarrow> 'k \<Rightarrow> engine_state \<times> 'k" where
  "submit counter fence es k =
     (let es = es\<lparr>last_submitted_fence := fence\<rparr>;
          ((now, _), k) = counter k
      in (es\<lparr>last_submitted_timestamp := now\<rparr>, k))"

definition complete :: "'k counter \<Rightarrow> u32 \<Rightarrow> engine_state \<Rightarrow> 'k \<Rightarrow> engine_state \<times> 'k" where
  "complete counter fence es k =
     (let es = es\<lparr>last_completed_fence := fence\<rparr>;
          ((now, _), k) = counter k
      in (es\<lparr>last_completed_timestamp := now\<rparr>, k))"

definition is_responsive :: "'k counter \<Rightarrow> engine_state \<Rightarrow> 'k \<Rightarrow> bool \<times> 'k" where
  "is_responsive counter es k =
     (if last_completed_fence es = last_submitted_fence es then (True, k)
      else if last_submitted_timestamp es = 0 \<or> last_completed_timestamp es = 0 then (True, k)
      else
        let ((now, freq), k) = counter k in
        (now - last_submitted_timestamp es \<le> RESPONSIVE_TIMEOUT_SEC * freq, k))"

section \<open>Virtio fences\<close>

record fence_tracker =
  next_fence_id :: u64
  unsignaled :: "u64 list"

definition tracker_new :: fence_tracker where
  "tracker_new = \<lparr>next_fence_id = 0, unsignaled = []\<rparr>"

definition next_fence :: "fence_tracker \<Rightarrow> u64 \<times> fence_tracker" where
  "next_fence ft =
     (let fence = next_fence_id ft in
      (fence, ft\<lparr>next_fence_id := next_fence_id ft + 1, unsignaled := unsignaled ft @ [fence]\<rparr>))"

text \<open>\<open>SmallVec::swap_remove\<close> at the position of the first occurrence.\<close>

fun position :: "('a \<Rightarrow> bool) \<Rightarrow> 'a list \<Rightarrow> nat option" where
  "position p [] = None"
| "position p (x # xs) = (if p x then Some 0 else map_option Suc (position p xs))"

definition swap_remove_at :: "nat \<Rightarrow> 'a list \<Rightarrow> 'a list" where
  "swap_remove_at i xs = butlast (xs[i := last xs])"

definition signal :: "u64 \<Rightarrow> fence_tracker \<Rightarrow> fence_tracker option" where
  "signal fence ft = do {
     assert (fence < next_fence_id ft);
     (case position (\<lambda>x. x = fence) (unsignaled ft) of
        Some i \<Rightarrow> Some (ft\<lparr>unsignaled := swap_remove_at i (unsignaled ft)\<rparr>)
      | None \<Rightarrow> Some ft)
   }"

definition query :: "u64 \<Rightarrow> fence_tracker \<Rightarrow> bool" where
  "query fence ft \<longleftrightarrow> fence < next_fence_id ft \<and> fence \<notin> set (unsignaled ft)"

record fence_submission =
  fs_engine :: engine
  dxgk_fence :: u32
  virtio_fence :: u64
  fs_timestamp :: u64

definition submission_new :: "'k counter \<Rightarrow> engine \<Rightarrow> u32 \<Rightarrow> u64 \<Rightarrow> 'k \<Rightarrow> fence_submission \<times> 'k" where
  "submission_new counter e d v k =
     (let ((timestamp, _), k) = counter k in
      (\<lparr>fs_engine = e, dxgk_fence = d, virtio_fence = v, fs_timestamp = timestamp\<rparr>, k))"

definition is_ready :: "fence_tracker \<Rightarrow> fence_submission \<Rightarrow> bool" where
  "is_ready tracker fs \<longleftrightarrow> query (virtio_fence fs) tracker"

definition is_timeout :: "'k counter \<Rightarrow> fence_submission \<Rightarrow> 'k \<Rightarrow> bool \<times> 'k" where
  "is_timeout counter fs k =
     (let ((now, freq), k) = counter k; dt = now - fs_timestamp fs in
      (dt \<ge> RESPONSIVE_TIMEOUT_SEC * freq, k))"

section \<open>The shared data of the adapter\<close>

record 'k gpu_data =
  resource_id :: id_allocator
  context_id :: id_allocator
  offset_allocator :: allocator
  irq :: u32
  fence :: fence_tracker
  fence_submissions :: "fence_submission list"
  engines :: "engine_state list"
  interrupts :: "interrupt list"
  kernel :: 'k

definition engine_new :: engine_state where
  "engine_new = \<lparr>last_submitted_fence = 0, last_completed_fence = 0, last_preemption_fence = 0,
     pending_fences = [], last_submitted_timestamp = 0, last_completed_timestamp = 0\<rparr>"

definition gpu_data_with :: "allocator \<Rightarrow> 'k \<Rightarrow> 'k gpu_data" where
  "gpu_data_with alloc k =
     \<lparr>resource_id = id_new 1, context_id = id_new 1, offset_allocator = alloc, irq = 0,
       fence = tracker_new, fence_submissions = [],
       engines = replicate (unat TOTAL_COUNT) engine_new, interrupts = [], kernel = k\<rparr>"

definition gpu_data_new :: "u64 \<Rightarrow> 'k \<Rightarrow> 'k gpu_data option" where
  "gpu_data_new shmem_length k = do {
     let shmem_pages = ucast (shmem_length div 4096);
     alloc \<leftarrow> with_max_allocs shmem_pages (1024 * 1024);
     Some (gpu_data_with alloc k)
   }"

definition notify_interrupt :: "interrupt \<Rightarrow> 'k gpu_data \<Rightarrow> 'k gpu_data" where
  "notify_interrupt i d = d\<lparr>interrupts := interrupts d @ [i]\<rparr>"

definition set_engine :: "nat \<Rightarrow> engine_state \<Rightarrow> 'k gpu_data \<Rightarrow> 'k gpu_data" where
  "set_engine i es d = d\<lparr>engines := (engines d)[i := es]\<rparr>"

definition complete_engine :: "'k counter \<Rightarrow> nat \<Rightarrow> u32 \<Rightarrow> 'k gpu_data \<Rightarrow> 'k gpu_data" where
  "complete_engine counter i f d =
     (let (es, k) = complete counter f (engines d ! i) (kernel d) in set_engine i es (d\<lparr>kernel := k\<rparr>))"

definition notify_dma_preempted :: "engine \<Rightarrow> u32 \<Rightarrow> u32 \<Rightarrow> 'k gpu_data \<Rightarrow> 'k gpu_data" where
  "notify_dma_preempted e preemption_fence last_completed d =
     notify_interrupt (DmaPreempted e preemption_fence last_completed) d"

text \<open>The loop over the pending fences, smallest first; it gives the last completed fence and the rest.\<close>

fun queued_loop :: "'k counter \<Rightarrow> engine \<Rightarrow> nat \<Rightarrow> u32 \<Rightarrow> u32 list \<Rightarrow> 'k gpu_data
    \<Rightarrow> (u32 \<times> u32 list \<times> 'k gpu_data) option" where
  "queued_loop counter e i last_completed [] d = Some (last_completed, [], d)"
| "queued_loop counter e i last_completed (next # pending) d =
     (if last_completed + 1 = next then
        let d = notify_interrupt (DmaCompleted e next) d;
            d = complete_engine counter i next d
        in queued_loop counter e i next pending d
      else if last_completed + 1 > next then None
      else Some (last_completed, next # pending, d))"

definition notify_queued_fences :: "'k counter \<Rightarrow> engine \<Rightarrow> 'k gpu_data \<Rightarrow> 'k gpu_data option" where
  "notify_queued_fences counter e d = do {
     n \<leftarrow> node_ordinal e;
     es \<leftarrow> get (engines d) (unat n);
     (last_completed, pending, d) \<leftarrow> queued_loop counter e (unat n) (last_completed_fence es) (pending_fences es) d;
     let es = (engines d ! unat n)\<lparr>pending_fences := pending\<rparr>;
     let d = set_engine (unat n) es d;
     if last_completed = last_submitted_fence es then do {
       let f = last_preemption_fence es;
       let d = set_engine (unat n) (es\<lparr>last_preemption_fence := 0\<rparr>) d;
       Some (if f \<noteq> 0 then notify_dma_preempted e f last_completed d else d)
     } else Some d
   }"

text \<open>\<open>BTreeSet::insert\<close> on the sorted list of the elements.\<close>

abbreviation set_insert :: "u32 \<Rightarrow> u32 list \<Rightarrow> u32 list" where
  "set_insert \<equiv> insort_insert"

definition notify_fence :: "'k counter \<Rightarrow> engine \<Rightarrow> u32 \<Rightarrow> (engine \<Rightarrow> u32 \<Rightarrow> interrupt) \<Rightarrow> 'k gpu_data
    \<Rightarrow> 'k gpu_data option" where
  "notify_fence counter e f notify_cb d = do {
     n \<leftarrow> node_ordinal e;
     es \<leftarrow> get (engines d) (unat n);
     let d =
       (if last_completed_fence es + 1 = f
        then complete_engine counter (unat n) f (notify_interrupt (notify_cb e f) d)
        else set_engine (unat n) (es\<lparr>pending_fences := set_insert f (pending_fences es)\<rparr>) d);
     notify_queued_fences counter e d
   }"

definition notify_dma_completed :: "'k counter \<Rightarrow> engine \<Rightarrow> u32 \<Rightarrow> 'k gpu_data \<Rightarrow> 'k gpu_data option" where
  "notify_dma_completed counter e f d = notify_fence counter e f DmaCompleted d"

definition notify_dma_faulted :: "'k counter \<Rightarrow> engine \<Rightarrow> u32 \<Rightarrow> 'k gpu_data \<Rightarrow> 'k gpu_data option" where
  "notify_dma_faulted counter e f d = notify_fence counter e f DmaFaulted d"

text \<open>
  The \<open>retain\<close> of \<open>handle_fence_submissions\<close>: the submissions to keep and those to submit anew.
\<close>

fun retain_submissions :: "'k counter \<Rightarrow> fence_submission list \<Rightarrow> fence_submission list \<Rightarrow> 'k gpu_data
    \<Rightarrow> (fence_submission list \<times> fence_submission list \<times> 'k gpu_data) option" where
  "retain_submissions counter [] resubmit d = Some ([], resubmit, d)"
| "retain_submissions counter (s # ss) resubmit d =
     (if is_ready (fence d) s then do {
        d \<leftarrow> notify_dma_completed counter (fs_engine s) (dxgk_fence s) d;
        retain_submissions counter ss resubmit d
      } else do {
        let (late, k) = is_timeout counter s (kernel d);
        let d = d\<lparr>kernel := k\<rparr>;
        if late then do {
          let (s, k) = submission_new counter (fs_engine s) (dxgk_fence s) (virtio_fence s) (kernel d);
          retain_submissions counter ss (resubmit @ [s]) (d\<lparr>kernel := k\<rparr>)
        } else do {
          (kept, resubmit, d) \<leftarrow> retain_submissions counter ss resubmit d;
          Some (s # kept, resubmit, d)
        }
      })"

definition handle_fence_submissions :: "'k counter \<Rightarrow> 'k gpu_data \<Rightarrow> 'k gpu_data option" where
  "handle_fence_submissions counter d = do {
     (kept, resubmit, d) \<leftarrow> retain_submissions counter (fence_submissions d) [] d;
     Some (d\<lparr>fence_submissions := kept @ resubmit\<rparr>)
   }"

definition submit_engine :: "'k counter \<Rightarrow> engine \<Rightarrow> u32 \<Rightarrow> 'k gpu_data \<Rightarrow> 'k gpu_data option" where
  "submit_engine counter e f d = do {
     n \<leftarrow> node_ordinal e;
     es \<leftarrow> get (engines d) (unat n);
     let (es, k) = submit counter f es (kernel d);
     Some (set_engine (unat n) es (d\<lparr>kernel := k\<rparr>))
   }"

definition submit_fence :: "'k counter \<Rightarrow> engine \<Rightarrow> u32 \<Rightarrow> u64 \<Rightarrow> 'k gpu_data \<Rightarrow> 'k gpu_data option" where
  "submit_fence counter e df vf d = do {
     d \<leftarrow> submit_engine counter e df d;
     if query vf (fence d) then notify_dma_completed counter e df d
     else do {
       let (s, k) = submission_new counter e df vf (kernel d);
       handle_fence_submissions counter (d\<lparr>fence_submissions := fence_submissions d @ [s], kernel := k\<rparr>)
     }
   }"

definition submit_preemption :: "engine \<Rightarrow> u32 \<Rightarrow> 'k gpu_data \<Rightarrow> 'k gpu_data option" where
  "submit_preemption e f d = do {
     n \<leftarrow> node_ordinal e;
     es \<leftarrow> get (engines d) (unat n);
     Some (set_engine (unat n) (es\<lparr>last_preemption_fence := f\<rparr>) d)
   }"

end
