(* ===== verification/Gpu_Fence_Spec.thy ===== *)
theory Gpu_Fence_Spec
  imports Gpu_Fence "HOL-Library.Multiset"
begin

text \<open>
  Properties of the fences and identifiers of the display driver: the scheduler sees the fences of an
  engine once each and in order, whatever the order of their completion; a virtio fence counts as
  signaled exactly if it was; ids are unique while they are in use.
\<close>

section \<open>Engines\<close>

lemmas engine_consts = GRAPHICS_ENGINE_def PHYS_OTHER_ENGINE_def COPY_ENGINE_def OTHER_ENGINE_START_def
  OTHER_ENGINE_COUNT_def OTHER_ENGINE_END_def TOTAL_COUNT_def

lemma other_ordinal:
  assumes "node_ordinal (Other i) = Some n"
  shows "unat n = 3 + unat i \<and> unat i < 61"
proof -
  have i: "(ucast i :: u32) < 61" "n = 3 + ucast i"
    using assms by (auto simp: engine_consts Let_def)
  have bound8: "unat i < 256" using unsigned_less [of i] by simp
  have u: "unat (ucast i :: u32) = unat i"
    using bound8 by (simp add: unsigned_ucast_eq take_bit_nat_eq_self)
  with i(1) have lt: "unat i < 61" by (simp add: word_less_nat_alt)
  then have "unat (3 + ucast i :: u32) = 3 + unat i"
    by (subst unat_word_ariths) (simp add: u)
  with i(2) lt show ?thesis by simp
qed

lemma node_ordinal_bound:
  assumes "node_ordinal e = Some n"
  shows "unat n < 64"
  using assms other_ordinal by (cases e) (auto simp: engine_consts)

lemma node_ordinal_cases:
  assumes "node_ordinal e = Some n"
  shows "e = (if unat n = 0 then Graphics else if unat n = 1 then PhysicalOther else if unat n = 2 then Copy
     else Other (of_nat (unat n - 3)))"
proof (cases e)
  case (Other i)
  with other_ordinal [of i n] assms have "unat n = 3 + unat i" by simp
  then show ?thesis by (simp only: Other) (simp add: word_unat_eq_iff)
qed (use assms in \<open>simp_all add: engine_consts\<close>)

lemma node_ordinal_inj:
  assumes "node_ordinal e = Some n" and "node_ordinal e' = Some n'" and "unat n = unat n'"
  shows "e = e'"
  using node_ordinal_cases [OF assms(1)] node_ordinal_cases [OF assms(2)] assms(3) by simp

section \<open>Runs of consecutive fences\<close>

text \<open>The fences at the front of the pending list that follow on the last completed one.\<close>

fun ready_run :: "u32 \<Rightarrow> u32 list \<Rightarrow> u32 list" where
  "ready_run l [] = []"
| "ready_run l (f # p) = (if l + 1 = f then f # ready_run f p else [])"

text \<open>The \<open>n\<close> fences that follow \<open>l\<close>.\<close>

definition consec :: "u32 \<Rightarrow> nat \<Rightarrow> u32 list" where
  "consec l n = map (\<lambda>k. l + of_nat (Suc k)) [0..<n]"

lemma consec_0 [simp]: "consec l 0 = []"
  by (simp add: consec_def)

lemma length_consec [simp]: "length (consec l n) = n"
  by (simp add: consec_def)

lemma consec_Suc: "consec l (Suc n) = (l + 1) # consec (l + 1) n"
  by (simp add: consec_def upt_rec [of 0 "Suc n"] map_Suc_upt [symmetric] comp_def algebra_simps del: upt_Suc)

lemma consec_append: "consec l (m + n) = consec l m @ consec (l + of_nat m) n"
  by (induction m arbitrary: l) (simp_all add: consec_Suc algebra_simps)

lemma word_Suc_le:
  fixes l x :: u32
  assumes "l < x"
  shows "l + 1 \<le> x" and "unat (l + 1) = Suc (unat l)"
proof -
  have x: "unat l < unat x" using assms by (simp add: word_less_nat_alt)
  have "unat x < 2 ^ 32" using unsigned_less [of x] by simp
  with x show *: "unat (l + 1) = Suc (unat l)" by (subst unat_word_ariths) simp
  show "l + 1 \<le> x" using x * by (simp add: word_le_nat_alt)
qed

lemma ready_run_consec: "ready_run l p = consec l (length (ready_run l p))"
  by (induction p arbitrary: l) (auto simp: consec_Suc)

lemma ready_run_append: "ready_run l p @ drop (length (ready_run l p)) p = p"
  by (induction p arbitrary: l) auto

lemma ready_run_rest:
  assumes "sorted_wrt (<) p" and "\<forall>x \<in> set p. l < x" and "x \<in> set (drop (length (ready_run l p)) p)"
  shows "l + of_nat (length (ready_run l p)) < x \<and> x \<noteq> l + of_nat (length (ready_run l p)) + 1"
  using assms
proof (induction p arbitrary: l)
  case (Cons f p)
  show ?case
  proof (cases "l + 1 = f")
    case True
    with Cons.IH [of f] Cons.prems show ?thesis by (auto simp: algebra_simps)
  next
    case False
    have "l + 1 \<le> f" using Cons.prems(2) word_Suc_le(1) by simp
    with False have "l + 1 < f" by simp
    with False Cons.prems show ?thesis by auto
  qed
qed simp

lemma ready_run_bound:
  assumes "sorted_wrt (<) p" and "\<forall>x \<in> set p. l < x"
  shows "unat l + length (ready_run l p) < 2 ^ 32"
  using assms
proof (induction p arbitrary: l)
  case Nil
  show ?case using unsigned_less [of l] by simp
next
  case (Cons f p)
  have "unat l < 2 ^ 32" using unsigned_less [of l] by simp
  moreover have "unat f + length (ready_run f p) < 2 ^ 32" using Cons.IH [of f] Cons.prems by simp
  moreover have "unat (l + 1) = Suc (unat l)" using word_Suc_le(2) [of l f] Cons.prems by simp
  ultimately show ?case by auto
qed

section \<open>What the scheduler sees\<close>

text \<open>The fences of an engine that a list of interrupts reports as finished, in order.\<close>

fun fence_of :: "engine \<Rightarrow> interrupt \<Rightarrow> u32 list" where
  "fence_of e (DmaCompleted e' f) = (if e' = e then [f] else [])"
| "fence_of e (DmaFaulted e' f) = (if e' = e then [f] else [])"
| "fence_of e (DmaPreempted e' p f) = []"
| "fence_of e (VSync a) = []"

definition fences_of :: "engine \<Rightarrow> interrupt list \<Rightarrow> u32 list" where
  "fences_of e is = concat (map (fence_of e) is)"

lemma fences_of_simps [simp]:
  "fences_of e [] = []"
  "fences_of e (i # is) = fence_of e i @ fences_of e is"
  "fences_of e (is @ js) = fences_of e is @ fences_of e js"
  by (simp_all add: fences_of_def)

text \<open>A step that changes engine \<open>i\<close> only and reports exactly the fences \<open>fs\<close> of \<open>e\<close>.\<close>

definition engine_only :: "nat \<Rightarrow> 'k gpu_data \<Rightarrow> 'k gpu_data \<Rightarrow> bool" where
  "engine_only i d d' \<longleftrightarrow> resource_id d' = resource_id d \<and> context_id d' = context_id d
     \<and> offset_allocator d' = offset_allocator d \<and> irq d' = irq d \<and> fence d' = fence d
     \<and> fence_submissions d' = fence_submissions d \<and> length (engines d') = length (engines d)
     \<and> (\<forall>j. j \<noteq> i \<longrightarrow> engines d' ! j = engines d ! j)"

definition reports :: "engine \<Rightarrow> u32 list \<Rightarrow> 'k gpu_data \<Rightarrow> 'k gpu_data \<Rightarrow> bool" where
  "reports e fs d d' \<longleftrightarrow>
     (\<exists>is. interrupts d' = interrupts d @ is \<and> fences_of e is = fs \<and> (\<forall>e'. e' \<noteq> e \<longrightarrow> fences_of e' is = []))"

lemma engine_only_trans: "engine_only i d d1 \<Longrightarrow> engine_only i d1 d2 \<Longrightarrow> engine_only i d d2"
  by (simp add: engine_only_def)

lemma engine_only_refl [simp]: "engine_only i d d"
  by (simp add: engine_only_def)

lemma reports_trans:
  assumes "reports e fs d d1" and "reports e gs d1 d2"
  shows "reports e (fs @ gs) d d2"
proof -
  obtain us js where "interrupts d1 = interrupts d @ us" "fences_of e us = fs" "\<forall>e'. e' \<noteq> e \<longrightarrow> fences_of e' us = []"
    "interrupts d2 = interrupts d1 @ js" "fences_of e js = gs" "\<forall>e'. e' \<noteq> e \<longrightarrow> fences_of e' js = []"
    using assms by (auto simp: reports_def)
  then show ?thesis unfolding reports_def by (intro exI [of _ "us @ js"]) simp
qed

lemma reports_refl [simp]: "reports e [] d d"
  unfolding reports_def by (intro exI [of _ "[]"]) simp

lemma reports_one:
  assumes "interrupts d' = interrupts d @ [i]" and "fence_of e i = fs" and "\<forall>e'. e' \<noteq> e \<longrightarrow> fence_of e' i = []"
  shows "reports e fs d d'"
  unfolding reports_def using assms by (intro exI [of _ "[i]"]) simp

lemma reports_same: "reports e [] d (d'\<lparr>engines := es\<rparr>) \<longleftrightarrow> reports e [] d d'"
  by (simp add: reports_def)

lemma complete_engine_ok:
  assumes "i < length (engines d)"
  shows "engine_only i d (complete_engine counter i f d)"
    and "interrupts (complete_engine counter i f d) = interrupts d"
    and "\<exists>ts. engines (complete_engine counter i f d) ! i
        = (engines d ! i)\<lparr>last_completed_fence := f, last_completed_timestamp := ts\<rparr>"
  using assms
  by (auto simp: complete_engine_def complete_def engine_only_def set_engine_def Let_def split: prod.splits)

lemma stamp_ex: "\<exists>ts. es = es\<lparr>last_completed_timestamp := ts\<rparr>"
  by (rule exI [of _ "last_completed_timestamp es"]) simp

lemma queued_loop_ok:
  assumes "sorted_wrt (<) p" and "\<forall>x \<in> set p. l < x" and "i < length (engines d)"
    and "last_completed_fence (engines d ! i) = l"
  shows "\<exists>d' ts. queued_loop counter e i l p d
      = Some (l + of_nat (length (ready_run l p)), drop (length (ready_run l p)) p, d')
    \<and> engine_only i d d' \<and> reports e (ready_run l p) d d'
    \<and> engines d' ! i = (engines d ! i)\<lparr>last_completed_fence := l + of_nat (length (ready_run l p)),
        last_completed_timestamp := ts\<rparr>"
  using assms
proof (induction p arbitrary: l d)
  case Nil
  then show ?case using stamp_ex [of "engines d ! i"] by auto
next
  case (Cons f p)
  show ?case
  proof (cases "l + 1 = f")
    case True
    let ?d = "complete_engine counter i f (notify_interrupt (DmaCompleted e f) d)"
    have i: "i < length (engines (notify_interrupt (DmaCompleted e f) d))"
      using Cons.prems(3) by (simp add: notify_interrupt_def)
    note c = complete_engine_ok [OF i, where counter = counter and f = f]
    have d: "engine_only i d ?d"
      using c(1) by (auto simp: engine_only_def notify_interrupt_def)
    have r: "reports e [f] d ?d"
      by (rule reports_one [where i = "DmaCompleted e f"]) (simp_all add: c(2), simp add: notify_interrupt_def)
    obtain ts where e: "engines ?d ! i = (engines d ! i)\<lparr>last_completed_fence := f, last_completed_timestamp := ts\<rparr>"
      using c(3) by (auto simp: notify_interrupt_def)
    obtain d' ts' where IH: "queued_loop counter e i f p ?d
      = Some (f + of_nat (length (ready_run f p)), drop (length (ready_run f p)) p, d')"
      "engine_only i ?d d'" "reports e (ready_run f p) ?d d'"
      "engines d' ! i = (engines ?d ! i)\<lparr>last_completed_fence := f + of_nat (length (ready_run f p)),
        last_completed_timestamp := ts'\<rparr>"
      using Cons.IH [of f ?d] Cons.prems e d by (auto simp: engine_only_def)
    show ?thesis
      using True IH(1,4) e engine_only_trans [OF d IH(2)] reports_trans [OF r IH(3)]
      by (auto simp: algebra_simps)
  next
    case False
    have "l + 1 \<le> f" using Cons.prems(2) word_Suc_le(1) by simp
    then show ?thesis
      using False stamp_ex [of "engines d ! i"] Cons.prems(4) by (auto simp: not_less)
  qed
qed

lemma set_engine_ok:
  assumes "i < length (engines d)"
  shows "engine_only i d (set_engine i es d)" and "engines (set_engine i es d) ! i = es"
    and "interrupts (set_engine i es d) = interrupts d"
  using assms by (auto simp: set_engine_def engine_only_def)

lemma notify_queued_ok:
  fixes l p n
  defines "r \<equiv> ready_run l p"
  assumes ord: "node_ordinal e = Some n" and len: "unat n < length (engines d)"
    and l: "last_completed_fence (engines d ! unat n) = l" and p: "pending_fences (engines d ! unat n) = p"
    and sorted: "sorted_wrt (<) p" "\<forall>x \<in> set p. l < x"
  shows "\<exists>d'. notify_queued_fences counter e d = Some d' \<and> engine_only (unat n) d d' \<and> reports e r d d'
    \<and> last_completed_fence (engines d' ! unat n) = l + of_nat (length r)
    \<and> pending_fences (engines d' ! unat n) = drop (length r) p"
proof -
  let ?i = "unat n"
  obtain d1 ts where d1: "queued_loop counter e ?i l p d = Some (l + of_nat (length r), drop (length r) p, d1)"
    "engine_only ?i d d1" "reports e r d d1"
    "engines d1 ! ?i = (engines d ! ?i)\<lparr>last_completed_fence := l + of_nat (length r), last_completed_timestamp := ts\<rparr>"
    using queued_loop_ok [OF sorted len l, where counter = counter and e = e] unfolding r_def by blast
  define es where "es = (engines d1 ! ?i)\<lparr>pending_fences := drop (length r) p\<rparr>"
  have i1: "?i < length (engines d1)" using len d1(2) by (simp add: engine_only_def)
  note s = set_engine_ok [OF i1, of es]
  have s2: "engine_only ?i d (set_engine ?i es d1)" "reports e r d (set_engine ?i es d1)"
    using engine_only_trans [OF d1(2) s(1)] d1(3) s(3) by (simp_all add: reports_def)
  show ?thesis
  proof (cases "l + of_nat (length r) = last_submitted_fence es")
    case False
    then show ?thesis
      using s2 s(2) d1(1,4) ord len l p by (auto simp: notify_queued_fences_def Let_def es_def)
  next
    case True
    let ?d2 = "set_engine ?i (es\<lparr>last_preemption_fence := 0\<rparr>) (set_engine ?i es d1)"
    let ?d3 = "if last_preemption_fence es \<noteq> 0
      then notify_dma_preempted e (last_preemption_fence es) (l + of_nat (length r)) ?d2 else ?d2"
    have eq: "notify_queued_fences counter e d = Some ?d3"
      using True d1(1) ord len l p by (auto simp: notify_queued_fences_def Let_def es_def)
    have i2: "?i < length (engines (set_engine ?i es d1))" using i1 by (simp add: set_engine_def)
    note t = set_engine_ok [OF i2, of "es\<lparr>last_preemption_fence := 0\<rparr>"]
    have "engine_only ?i d ?d3"
      using engine_only_trans [OF s2(1) t(1)]
      by (auto simp: notify_dma_preempted_def notify_interrupt_def engine_only_def)
    moreover have "reports e (r @ []) d ?d3"
    proof (rule reports_trans [OF s2(2)])
      show "reports e [] (set_engine ?i es d1) ?d3"
        using t(3) by (auto simp: notify_dma_preempted_def notify_interrupt_def reports_def)
    qed
    moreover have "engines ?d3 ! ?i = es\<lparr>last_preemption_fence := 0\<rparr>"
      using t(2) by (simp add: notify_dma_preempted_def notify_interrupt_def)
    ultimately show ?thesis unfolding eq using d1(4) by (simp add: es_def)
  qed
qed

text \<open>
  What holds between two calls: the scheduler has seen \<open>rep\<close>, of the fences \<open>C\<close> that are finished the
  others wait in the pending set, and the next one in order is not finished yet.
\<close>

definition engine_inv :: "u32 set \<Rightarrow> u32 list \<Rightarrow> engine_state \<Rightarrow> bool" where
  "engine_inv C rep es \<longleftrightarrow> (\<exists>k. rep = consec 0 k \<and> k < 2 ^ 32 \<and> last_completed_fence es = of_nat k
     \<and> sorted_wrt (<) (pending_fences es) \<and> set (pending_fences es) = {f \<in> C. of_nat k < f}
     \<and> set rep \<subseteq> C \<and> of_nat k + 1 \<notin> C \<and> 0 \<notin> C)"

lemma sorted_insort_strict:
  fixes p :: "u32 list"
  assumes "sorted_wrt (<) p"
  shows "sorted_wrt (<) (insort_insert f p)" and "set (insort_insert f p) = insert f (set p)"
proof -
  have "sorted p" "distinct p" using assms by (simp_all add: strict_sorted_iff)
  then show "sorted_wrt (<) (insort_insert f p)"
    by (simp add: strict_sorted_iff sorted_insort_insert distinct_insort_insert)
  show "set (insort_insert f p) = insert f (set p)" by (rule set_insort_insert)
qed

lemma set_consec:
  assumes "k < 2 ^ 32"
  shows "set (consec 0 k) = {f. f \<noteq> 0 \<and> f \<le> of_nat k}"
proof (rule set_eqI)
  fix f :: u32
  have k: "unat (of_nat k :: u32) = k" using assms by (simp add: unat_of_nat_u32)
  have "f \<in> set (consec 0 k) \<longleftrightarrow> (\<exists>j < k. f = of_nat (Suc j))"
    by (auto simp: consec_def)
  also have "\<dots> \<longleftrightarrow> unat f \<noteq> 0 \<and> unat f \<le> k"
  proof
    assume "\<exists>j < k. f = of_nat (Suc j)"
    then obtain j where j: "j < k" "f = of_nat (Suc j)" by blast
    have "unat (of_nat (Suc j) :: u32) = Suc j" using j(1) assms by (intro unat_of_nat_u32) simp
    with j show "unat f \<noteq> 0 \<and> unat f \<le> k" by simp
  next
    assume "unat f \<noteq> 0 \<and> unat f \<le> k"
    then have "unat f - 1 < k" "f = of_nat (Suc (unat f - 1))" by (linarith, simp)
    then show "\<exists>j < k. f = of_nat (Suc j)" by blast
  qed
  finally show "f \<in> set (consec 0 k) \<longleftrightarrow> f \<in> {f. f \<noteq> 0 \<and> f \<le> of_nat k}"
    by (simp add: word_le_nat_alt k unat_eq_0)
qed

lemma less_Suc_word:
  assumes "(x :: u32) + 1 \<noteq> 0"
  shows "x < x + 1"
proof (cases "unat x + 1 < 2 ^ 32")
  case True
  then have "unat (x + 1) = unat x + 1" by (subst unat_add_lt) simp_all
  then show ?thesis by (simp add: word_less_nat_alt)
next
  case False
  then have "unat x + 1 = 2 ^ 32" using unat_u32_lt [of x] by simp
  then have "unat (x + 1) = 0" by (simp add: unat_word_ariths)
  with assms show ?thesis by (simp add: unat_eq_0)
qed

lemma engine_inv_run:
  fixes k q
  defines "l \<equiv> of_nat k :: u32"
  defines "m \<equiv> length (ready_run l q)"
  assumes q: "sorted_wrt (<) q" "set q = {f \<in> C. l < f}" and k: "k < 2 ^ 32"
    and C: "set (consec 0 k) \<subseteq> C" "0 \<notin> C"
    and es: "last_completed_fence es = l + of_nat m" "pending_fences es = drop m q"
  shows "engine_inv C (consec 0 k @ ready_run l q) es"
proof -
  have gt: "\<forall>x \<in> set q. l < x" using q(2) by simp
  have l: "unat l = k" using k by (simp add: l_def unat_of_nat_u32)
  have km: "k + m < 2 ^ 32" using ready_run_bound [OF q(1) gt] l by (simp add: m_def)
  have lm: "l + of_nat m = of_nat (k + m)" by (simp add: l_def)
  have run: "consec 0 k @ ready_run l q = consec 0 (k + m)"
    using ready_run_consec [of l q] by (simp add: consec_append m_def l_def)
  have split: "set q = set (ready_run l q) \<union> set (drop m q)"
    using ready_run_append [of l q] by (metis m_def set_append)
  have rest: "l + of_nat m < x \<and> x \<noteq> l + of_nat m + 1" if "x \<in> set (drop m q)" for x
    using ready_run_rest [OF q(1) gt, of x] that by (simp add: m_def)
  have first: "set (ready_run l q) \<subseteq> {f. f \<noteq> 0 \<and> f \<le> of_nat (k + m)}"
    using run set_consec [OF km] by (metis Un_upper2 set_append)
  have up: "of_nat k \<le> (of_nat (k + m) :: u32)"
    using km unat_of_nat_u32 [OF km] by (simp add: word_le_nat_alt unat_of_nat_u32 del: of_nat_add)
  have sub: "set (consec 0 (k + m)) \<subseteq> C"
    using C(1) q(2) split by (auto simp: run [symmetric])
  have pend: "x \<in> set (drop m q) \<longleftrightarrow> x \<in> C \<and> of_nat (k + m) < x" for x
  proof
    assume "x \<in> set (drop m q)"
    then show "x \<in> C \<and> of_nat (k + m) < x" using split q(2) rest lm by auto
  next
    assume x: "x \<in> C \<and> of_nat (k + m) < x"
    then have "l < x" using up unfolding l_def by (blast intro: le_less_trans)
    then have "x \<in> set q" using x q(2) by simp
    moreover have "x \<notin> set (ready_run l q)" using first x by (auto simp: not_le)
    ultimately show "x \<in> set (drop m q)" using split by simp
  qed
  have nxt: "of_nat (k + m) + 1 \<notin> C"
  proof
    assume c: "of_nat (k + m) + 1 \<in> C"
    with C(2) have "of_nat (k + m) + (1 :: u32) \<noteq> 0" by metis
    then have "of_nat (k + m) < of_nat (k + m) + (1 :: u32)" by (rule less_Suc_word)
    with c pend rest lm show False by auto
  qed
  show ?thesis
    unfolding engine_inv_def run
    using km es pend sub nxt C(2) sorted_wrt_drop [OF q(1)] lm by (intro exI [of _ "k + m"]) auto
qed

lemma ready_run_none: "l + 1 \<notin> set p \<Longrightarrow> ready_run l p = []"
  by (cases p) auto

text \<open>A fence that is next in order is reported at once, with the pending ones that follow it.\<close>

lemma notify_fence_now:
  fixes p n
  assumes ord: "node_ordinal e = Some n" and len: "unat n < length (engines d)"
    and f: "last_completed_fence (engines d ! unat n) + 1 = f" and p: "pending_fences (engines d ! unat n) = p"
    and sorted: "sorted_wrt (<) p" "\<forall>x \<in> set p. f < x"
    and cb: "\<And>e'. fence_of e' (notify_cb e f) = (if e' = e then [f] else [])"
  shows "\<exists>d'. notify_fence counter e f notify_cb d = Some d' \<and> engine_only (unat n) d d'
    \<and> reports e (f # ready_run f p) d d'
    \<and> last_completed_fence (engines d' ! unat n) = f + of_nat (length (ready_run f p))
    \<and> pending_fences (engines d' ! unat n) = drop (length (ready_run f p)) p"
proof -
  let ?i = "unat n"
  let ?d1 = "notify_interrupt (notify_cb e f) d"
  let ?d2 = "complete_engine counter ?i f ?d1"
  have l1: "?i < length (engines ?d1)" using len by (simp add: notify_interrupt_def)
  note c = complete_engine_ok [OF l1, where counter = counter and f = f]
  have d2: "engine_only ?i d ?d2" "reports e [f] d ?d2"
    using c(1,2) reports_one [where d = d and d' = ?d2 and i = "notify_cb e f" and e = e and fs = "[f]"] cb
    by (auto simp: engine_only_def notify_interrupt_def)
  have es2: "last_completed_fence (engines ?d2 ! ?i) = f" "pending_fences (engines ?d2 ! ?i) = p"
    using c(3) p by (auto simp: notify_interrupt_def)
  have l2: "?i < length (engines ?d2)" using len d2(1) by (simp add: engine_only_def)
  obtain d' where d': "notify_queued_fences counter e ?d2 = Some d'" "engine_only ?i ?d2 d'"
    "reports e (ready_run f p) ?d2 d'"
    "last_completed_fence (engines d' ! ?i) = f + of_nat (length (ready_run f p))"
    "pending_fences (engines d' ! ?i) = drop (length (ready_run f p)) p"
    using notify_queued_ok [OF ord l2 es2 sorted, where counter = counter] by blast
  have "notify_fence counter e f notify_cb d = Some d'"
    using d'(1) f ord len by (simp add: notify_fence_def Let_def)
  then show ?thesis
    using d'(4,5) engine_only_trans [OF d2(1) d'(2)] reports_trans [OF d2(2) d'(3)] by auto
qed

text \<open>A later fence joins the pending ones and nothing is reported.\<close>

lemma notify_fence_later:
  fixes p n
  assumes ord: "node_ordinal e = Some n" and len: "unat n < length (engines d)"
    and l: "last_completed_fence (engines d ! unat n) = l" "l < f" "l + 1 \<noteq> f"
    and p: "pending_fences (engines d ! unat n) = p" "sorted_wrt (<) p" "\<forall>x \<in> set p. l < x" "l + 1 \<notin> set p"
  shows "\<exists>d'. notify_fence counter e f notify_cb d = Some d' \<and> engine_only (unat n) d d' \<and> reports e [] d d'
    \<and> last_completed_fence (engines d' ! unat n) = l \<and> pending_fences (engines d' ! unat n) = insort_insert f p"
proof -
  let ?i = "unat n" and ?es = "engines d ! unat n" and ?q = "insort_insert f p"
  let ?d1 = "set_engine ?i (?es\<lparr>pending_fences := ?q\<rparr>) d"
  note s = set_engine_ok [OF len, of "?es\<lparr>pending_fences := ?q\<rparr>"]
  have l1: "?i < length (engines ?d1)" using len s(1) by (simp add: engine_only_def)
  have es1: "last_completed_fence (engines ?d1 ! ?i) = l" "pending_fences (engines ?d1 ! ?i) = ?q"
    using s(2) l(1) by simp_all
  note q = sorted_insort_strict [OF p(2), of f]
  have gt: "\<forall>x \<in> set ?q. l < x" using q(2) p(3) l(2) by simp
  have none: "ready_run l ?q = []" using q(2) p(4) l(3) by (intro ready_run_none) auto
  obtain d' where d': "notify_queued_fences counter e ?d1 = Some d'" "engine_only ?i ?d1 d'" "reports e [] ?d1 d'"
    "last_completed_fence (engines d' ! ?i) = l" "pending_fences (engines d' ! ?i) = ?q"
    using notify_queued_ok [OF ord l1 es1 q(1) gt, where counter = counter] by (auto simp: none)
  have "notify_fence counter e f notify_cb d = Some d'"
    using d'(1) l p(1) ord len by (simp add: notify_fence_def Let_def)
  then show ?thesis
    using d'(4,5) engine_only_trans [OF s(1) d'(2)] d'(3) s(3) by (auto simp: reports_def)
qed

lemma notify_fence_ok:
  assumes ord: "node_ordinal e = Some n" and len: "unat n < length (engines d)"
    and inv: "engine_inv C rep (engines d ! unat n)" and f: "f \<notin> C" "f \<noteq> 0"
    and cb: "\<And>e'. fence_of e' (notify_cb e f) = (if e' = e then [f] else [])"
  shows "\<exists>d' fs. notify_fence counter e f notify_cb d = Some d' \<and> engine_only (unat n) d d' \<and> reports e fs d d'
    \<and> engine_inv (insert f C) (rep @ fs) (engines d' ! unat n)"
proof -
  let ?i = "unat n" and ?es = "engines d ! unat n"
  obtain k where k: "rep = consec 0 k" "k < 2 ^ 32" "last_completed_fence ?es = of_nat k"
    "sorted_wrt (<) (pending_fences ?es)" "set (pending_fences ?es) = {f \<in> C. of_nat k < f}"
    "set rep \<subseteq> C" "of_nat k + 1 \<notin> C" "0 \<notin> C"
    using inv unfolding engine_inv_def by blast
  let ?l = "of_nat k :: u32" and ?p = "pending_fences ?es"
  have fl: "?l < f" using f k(6) set_consec [OF k(2)] by (auto simp: k(1) not_le [symmetric])
  show ?thesis
  proof (cases "?l + 1 = f")
    case True
    have k1: "Suc k < 2 ^ 32" "f = of_nat (Suc k)"
      using word_Suc_le(2) [OF fl] unat_u32_lt [of f] True by (auto simp: unat_of_nat_u32 [OF k(2)] add.commute)
    have p: "set ?p = {x \<in> insert f C. f < x}"
      using k(5,7) True fl word_Suc_le(1) by (auto simp: order.strict_iff_order)
    then have gt: "\<forall>x \<in> set ?p. f < x" by simp
    have rep: "consec 0 (Suc k) = rep @ [f]"
      using k(1) True consec_append [of 0 k 1] by (simp add: consec_Suc)
    obtain d' where d': "notify_fence counter e f notify_cb d = Some d'" "engine_only ?i d d'"
      "reports e (f # ready_run f ?p) d d'"
      "last_completed_fence (engines d' ! ?i) = f + of_nat (length (ready_run f ?p))"
      "pending_fences (engines d' ! ?i) = drop (length (ready_run f ?p)) ?p"
      using notify_fence_now [OF ord len _ refl k(4) gt, where counter = counter and notify_cb = notify_cb] True k(3) cb by auto
    have "set (consec 0 (Suc k)) \<subseteq> insert f C" using rep k(6) by auto
    then have "engine_inv (insert f C) (consec 0 (Suc k) @ ready_run f ?p) (engines d' ! ?i)"
      using engine_inv_run [OF k(4), of "insert f C" "Suc k" "engines d' ! ?i"] k1 p f(2) k(8) d'(4,5) by simp
    then show ?thesis using d'(1,2,3) rep by auto
  next
    case False
    have p: "\<forall>x \<in> set ?p. ?l < x" "?l + 1 \<notin> set ?p" using k(5,7) by auto
    obtain d' where d': "notify_fence counter e f notify_cb d = Some d'" "engine_only ?i d d'" "reports e [] d d'"
      "last_completed_fence (engines d' ! ?i) = ?l" "pending_fences (engines d' ! ?i) = insort_insert f ?p"
      using notify_fence_later [OF ord len k(3) fl False refl k(4) p] by blast
    note q = sorted_insort_strict [OF k(4), of f]
    have none: "ready_run ?l (insort_insert f ?p) = []" using q(2) p(2) False by (intro ready_run_none) auto
    have "engine_inv (insert f C) (consec 0 k @ []) (engines d' ! ?i)"
      using engine_inv_run [OF q(1), of "insert f C" k "engines d' ! ?i"] q(2) k f(2) fl d'(4,5) none by auto
    then show ?thesis using d'(1,2,3) k(1) by auto
  qed
qed

text \<open>The invariant over all engines; \<open>C\<close> are the finished fences with their engines.\<close>

definition fences_inv :: "(engine \<times> u32) set \<Rightarrow> 'k gpu_data \<Rightarrow> bool" where
  "fences_inv C d \<longleftrightarrow> length (engines d) = 64
     \<and> (\<forall>e n. node_ordinal e = Some n \<longrightarrow>
          engine_inv {f. (e, f) \<in> C} (fences_of e (interrupts d)) (engines d ! unat n))"

abbreviation real_engine :: "engine \<Rightarrow> bool" where
  "real_engine e \<equiv> node_ordinal e \<noteq> None"

definition reports_fence :: "(engine \<Rightarrow> u32 \<Rightarrow> interrupt) \<Rightarrow> bool" where
  "reports_fence cb \<longleftrightarrow> (\<forall>e f e'. fence_of e' (cb e f) = (if e' = e then [f] else []))"

lemma reports_fence_simps [simp]: "reports_fence DmaCompleted" "reports_fence DmaFaulted"
  by (auto simp: reports_fence_def)

lemma fences_inv_frame:
  assumes inv: "fences_inv C d" and ord: "node_ordinal e = Some n" and only: "engine_only (unat n) d d'"
    and rep: "reports e fs d d'"
    and new: "engine_inv {g. (e, g) \<in> C'} (fences_of e (interrupts d) @ fs) (engines d' ! unat n)"
    and rest: "\<And>e' g. e' \<noteq> e \<Longrightarrow> (e', g) \<in> C' \<longleftrightarrow> (e', g) \<in> C"
  shows "fences_inv C' d'"
  unfolding fences_inv_def
proof (intro conjI allI impI)
  show "length (engines d') = 64" using inv only by (simp add: fences_inv_def engine_only_def)
  fix e' n' assume ord': "node_ordinal e' = Some n'"
  show "engine_inv {f. (e', f) \<in> C'} (fences_of e' (interrupts d')) (engines d' ! unat n')"
  proof (cases "e' = e")
    case True
    with ord ord' new rep show ?thesis by (auto simp: reports_def)
  next
    case False
    then have "unat n' \<noteq> unat n" using node_ordinal_inj [OF ord' ord] by blast
    moreover have "{f. (e', f) \<in> C'} = {f. (e', f) \<in> C}" using rest False by simp
    ultimately show ?thesis
      using inv ord' only rep False by (auto simp: fences_inv_def engine_only_def reports_def)
  qed
qed

lemma fences_inv_notify:
  assumes inv: "fences_inv C d" and e: "real_engine e" and f: "(e, f) \<notin> C" "f \<noteq> 0" and cb: "reports_fence cb"
  shows "\<exists>d' n. notify_fence counter e f cb d = Some d' \<and> fences_inv (insert (e, f) C) d'
    \<and> node_ordinal e = Some n \<and> engine_only (unat n) d d'"
proof -
  obtain n where ord: "node_ordinal e = Some n" using e by auto
  have len: "unat n < length (engines d)"
    using node_ordinal_bound [OF ord] inv by (simp add: fences_inv_def)
  have old: "engine_inv {g. (e, g) \<in> C} (fences_of e (interrupts d)) (engines d ! unat n)"
    using inv ord by (simp add: fences_inv_def)
  obtain d' fs where d': "notify_fence counter e f cb d = Some d'" "engine_only (unat n) d d'" "reports e fs d d'"
    "engine_inv (insert f {g. (e, g) \<in> C}) (fences_of e (interrupts d) @ fs) (engines d' ! unat n)"
    using notify_fence_ok [OF ord len old, of f cb counter] f cb by (auto simp: reports_fence_def)
  moreover have "{g. (e, g) \<in> insert (e, f) C} = insert f {g. (e, g) \<in> C}" by auto
  ultimately have "fences_inv (insert (e, f) C) d'"
    by (intro fences_inv_frame [OF inv ord d'(2,3)]) auto
  with d' ord show ?thesis by blast
qed

text \<open>Changes of other fields keep it.\<close>

lemma fences_inv_same:
  assumes "fences_inv C d" and "interrupts d' = interrupts d" and "length (engines d') = length (engines d)"
    and "\<And>i. i < 64 \<Longrightarrow> last_completed_fence (engines d' ! i) = last_completed_fence (engines d ! i)
      \<and> pending_fences (engines d' ! i) = pending_fences (engines d ! i)"
  shows "fences_inv C d'"
  using assms node_ordinal_bound unfolding fences_inv_def engine_inv_def by simp

section \<open>Submissions that wait for a virtio fence\<close>

abbreviation skey :: "fence_submission \<Rightarrow> engine \<times> u32" where
  "skey s \<equiv> (fs_engine s, dxgk_fence s)"

definition what :: "fence_submission \<Rightarrow> (engine \<times> u32) \<times> u64" where
  "what s = (skey s, virtio_fence s)"

lemma submission_new_what: "what (fst (submission_new counter e f v k)) = ((e, f), v)"
  by (simp add: submission_new_def what_def Let_def split: prod.splits)

text \<open>The fields that completion does not touch.\<close>

definition other_fields :: "'k gpu_data \<Rightarrow> id_allocator \<times> id_allocator \<times> allocator \<times> u32 \<times> fence_tracker" where
  "other_fields d = (resource_id d, context_id d, offset_allocator d, irq d, fence d)"

lemma other_fields_kernel: "other_fields (d\<lparr>kernel := k\<rparr>) = other_fields d" "fence (d\<lparr>kernel := k\<rparr>) = fence d"
  by (simp_all add: other_fields_def)

lemma retain_ok:
  assumes "fences_inv C d" and "distinct (map skey ss)" and "skey ` set ss \<inter> C = {}"
    and "\<forall>s \<in> set ss. real_engine (fs_engine s) \<and> dxgk_fence s \<noteq> 0"
  shows "\<exists>kept re d'. retain_submissions counter ss resubmit d = Some (kept, resubmit @ re, d')
    \<and> fences_inv (C \<union> skey ` {s \<in> set ss. is_ready (fence d) s}) d' \<and> other_fields d' = other_fields d
    \<and> mset (map what (kept @ re)) = mset (map what (filter (\<lambda>s. \<not> is_ready (fence d) s) ss))"
  using assms
proof (induction ss arbitrary: C d resubmit)
  case (Cons s ss)
  have ss: "distinct (map skey ss)" "\<forall>s \<in> set ss. real_engine (fs_engine s) \<and> dxgk_fence s \<noteq> 0"
    using Cons.prems by simp_all
  show ?case
  proof (cases "is_ready (fence d) s")
    case True
    have pre: "real_engine (fs_engine s)" "skey s \<notin> C" "dxgk_fence s \<noteq> 0"
      using Cons.prems(3,4) by auto
    obtain d1 and n :: u32 where d1: "notify_fence counter (fs_engine s) (dxgk_fence s) DmaCompleted d = Some d1"
      "fences_inv (insert (skey s) C) d1" "engine_only (unat n) d d1"
      using fences_inv_notify [OF Cons.prems(1) pre reports_fence_simps(1), of counter] by blast
    have f: "fence d1 = fence d" "other_fields d1 = other_fields d"
      using d1(3) by (simp_all add: engine_only_def other_fields_def)
    have C: "insert (skey s) C \<union> skey ` {t \<in> set ss. is_ready (fence d) t}
      = C \<union> skey ` {t \<in> set (s # ss). is_ready (fence d) t}"
      using True by auto
    have eq: "retain_submissions counter (s # ss) resubmit d = retain_submissions counter ss resubmit d1"
      "filter (\<lambda>s. \<not> is_ready (fence d) s) (s # ss) = filter (\<lambda>s. \<not> is_ready (fence d) s) ss"
      using True d1(1) by (simp_all add: notify_dma_completed_def)
    have "skey ` set ss \<inter> insert (skey s) C = {}" using Cons.prems(2,3) by auto
    from Cons.IH [OF d1(2) ss(1) this ss(2), of resubmit] show ?thesis
      unfolding eq f C .
  next
    case False
    have sub: "skey ` set ss \<inter> C = {}" using Cons.prems(3) by auto
    have C: "skey ` {t \<in> set (s # ss). is_ready (fence d) t} = skey ` {t \<in> set ss. is_ready (fence d) t}"
      using False by auto
    obtain late k where t: "is_timeout counter s (kernel d) = (late, k)" by force
    show ?thesis
    proof (cases late)
      case True
      obtain s' k' where s': "submission_new counter (fs_engine s) (dxgk_fence s) (virtio_fence s) k = (s', k')" by force
      have w: "what s' = what s"
        using submission_new_what [of counter "fs_engine s" "dxgk_fence s" "virtio_fence s" k] s' by (simp add: what_def)
      let ?d = "d\<lparr>kernel := k'\<rparr>"
      have inv: "fences_inv C ?d" using Cons.prems(1) by (rule fences_inv_same) simp_all
      obtain kept re d' where IH: "retain_submissions counter ss (resubmit @ [s']) ?d = Some (kept, (resubmit @ [s']) @ re, d')"
        "fences_inv (C \<union> skey ` {s \<in> set ss. is_ready (fence d) s}) d'" "other_fields d' = other_fields d"
        "mset (map what (kept @ re)) = mset (map what (filter (\<lambda>s. \<not> is_ready (fence d) s) ss))"
        using Cons.IH [OF inv ss(1) sub ss(2), of "resubmit @ [s']"] unfolding other_fields_kernel by blast
      have a: "retain_submissions counter (s # ss) resubmit d = Some (kept, resubmit @ (s' # re), d')"
        using IH(1) False True t s' by simp
      have b: "mset (map what (kept @ s' # re)) = mset (map what (filter (\<lambda>s. \<not> is_ready (fence d) s) (s # ss)))"
        using IH(4) False w by simp
      show ?thesis unfolding C by (intro exI conjI, rule a, rule IH(2), rule IH(3), rule b)
    next
      case no: False
      let ?d = "d\<lparr>kernel := k\<rparr>"
      have inv: "fences_inv C ?d" using Cons.prems(1) by (rule fences_inv_same) simp_all
      obtain kept re d' where IH: "retain_submissions counter ss resubmit ?d = Some (kept, resubmit @ re, d')"
        "fences_inv (C \<union> skey ` {s \<in> set ss. is_ready (fence d) s}) d'" "other_fields d' = other_fields d"
        "mset (map what (kept @ re)) = mset (map what (filter (\<lambda>s. \<not> is_ready (fence d) s) ss))"
        using Cons.IH [OF inv ss(1) sub ss(2), of resubmit] unfolding other_fields_kernel by blast
      have a: "retain_submissions counter (s # ss) resubmit d = Some (s # kept, resubmit @ re, d')"
        using IH(1) False no t by simp
      have b: "mset (map what ((s # kept) @ re)) = mset (map what (filter (\<lambda>s. \<not> is_ready (fence d) s) (s # ss)))"
        using IH(4) False by simp
      show ?thesis unfolding C by (intro exI conjI, rule a, rule IH(2), rule IH(3), rule b)
    qed
  qed
qed simp

section \<open>Histories\<close>

text \<open>
  What can happen to the fences: a command asks for a virtio fence, the device signals one, a command
  of an engine completes or fails, the scheduler submits a fence that waits for a virtio fence or asks
  for preemption, and the handler thread looks at the waiting submissions.
\<close>

datatype gpu_event = NewFence | Signaled u64 | Completed engine u32 | Faulted engine u32
  | SubmitFence engine u32 u64 | Preempt engine u32 | HandleSubmissions

fun gpu_event_step :: "'k counter \<Rightarrow> gpu_event \<Rightarrow> 'k gpu_data \<Rightarrow> 'k gpu_data option" where
  "gpu_event_step counter NewFence d = Some (d\<lparr>fence := snd (next_fence (fence d))\<rparr>)"
| "gpu_event_step counter (Signaled v) d = do { ft \<leftarrow> signal v (fence d); Some (d\<lparr>fence := ft\<rparr>) }"
| "gpu_event_step counter (Completed e f) d = notify_dma_completed counter e f d"
| "gpu_event_step counter (Faulted e f) d = notify_dma_faulted counter e f d"
| "gpu_event_step counter (SubmitFence e f v) d = submit_fence counter e f v d"
| "gpu_event_step counter (Preempt e f) d = submit_preemption e f d"
| "gpu_event_step counter HandleSubmissions d = handle_fence_submissions counter d"

fun gpu_run :: "'k counter \<Rightarrow> gpu_event list \<Rightarrow> 'k gpu_data \<Rightarrow> 'k gpu_data option" where
  "gpu_run counter [] d = Some d"
| "gpu_run counter (ev # evs) d = do { d \<leftarrow> gpu_event_step counter ev d; gpu_run counter evs d }"

text \<open>The fence of an engine that an event hands in.\<close>

fun handed :: "gpu_event \<Rightarrow> (engine \<times> u32) list" where
  "handed (Completed e f) = [(e, f)]"
| "handed (Faulted e f) = [(e, f)]"
| "handed (SubmitFence e f v) = [(e, f)]"
| "handed _ = []"

text \<open>The device signals only fences it was given; engines exist and fence 0 is not used.\<close>

fun sound_events :: "nat \<Rightarrow> gpu_event list \<Rightarrow> bool" where
  "sound_events n [] \<longleftrightarrow> True"
| "sound_events n (NewFence # evs) \<longleftrightarrow> sound_events (Suc n) evs"
| "sound_events n (Signaled v # evs) \<longleftrightarrow> unat v < n \<and> sound_events n evs"
| "sound_events n (Preempt e f # evs) \<longleftrightarrow> real_engine e \<and> sound_events n evs"
| "sound_events n (ev # evs) \<longleftrightarrow> (\<forall>(e, f) \<in> set (handed ev). real_engine e \<and> f \<noteq> 0) \<and> sound_events n evs"

definition waiting :: "'k gpu_data \<Rightarrow> (engine \<times> u32) set" where
  "waiting d = skey ` set (fence_submissions d)"

definition run_inv :: "(engine \<times> u32) set \<Rightarrow> 'k gpu_data \<Rightarrow> bool" where
  "run_inv H d \<longleftrightarrow> fences_inv (H - waiting d) d \<and> waiting d \<subseteq> H \<and> distinct (map skey (fence_submissions d))
     \<and> (\<forall>(e, f) \<in> H. real_engine e \<and> f \<noteq> 0)"

lemma run_inv_notify:
  assumes inv: "run_inv H d" and e: "real_engine e" "f \<noteq> 0" "(e, f) \<notin> H" and cb: "reports_fence cb"
  shows "\<exists>d'. notify_fence counter e f cb d = Some d' \<and> run_inv (insert (e, f) H) d' \<and> fence d' = fence d"
proof -
  have "fences_inv (H - waiting d) d" "(e, f) \<notin> H - waiting d" using inv e by (simp_all add: run_inv_def)
  then obtain d' and n :: u32 where d': "notify_fence counter e f cb d = Some d'" "fences_inv (insert (e, f) (H - waiting d)) d'"
    "engine_only (unat n) d d'"
    using fences_inv_notify [OF _ e(1) _ e(2) cb] by blast
  have s: "fence_submissions d' = fence_submissions d" "fence d' = fence d" using d'(3) by (simp_all add: engine_only_def)
  then have w: "waiting d' = waiting d" by (simp add: waiting_def)
  have "insert (e, f) (H - waiting d) = insert (e, f) H - waiting d'"
    using inv e(3) by (auto simp: run_inv_def w)
  with d' s w inv e show ?thesis by (auto simp: run_inv_def)
qed

text \<open>After the submissions were looked at, none that could be completed waits any more.\<close>

lemma run_inv_handle:
  assumes inv: "run_inv H d"
  shows "\<exists>d'. handle_fence_submissions counter d = Some d' \<and> run_inv H d' \<and> other_fields d' = other_fields d
    \<and> mset (map what (fence_submissions d'))
      = mset (map what (filter (\<lambda>s. \<not> is_ready (fence d) s) (fence_submissions d)))"
proof -
  let ?ss = "fence_submissions d"
  let ?ready = "skey ` {s \<in> set ?ss. is_ready (fence d) s}"
  have pre: "fences_inv (H - waiting d) d" "distinct (map skey ?ss)" "skey ` set ?ss \<inter> (H - waiting d) = {}"
    "\<forall>s \<in> set ?ss. real_engine (fs_engine s) \<and> dxgk_fence s \<noteq> 0"
    using inv by (auto simp: run_inv_def waiting_def)
  obtain kept re d1 where r: "retain_submissions counter ?ss [] d = Some (kept, [] @ re, d1)"
    "fences_inv (H - waiting d \<union> ?ready) d1" "other_fields d1 = other_fields d"
    "mset (map what (kept @ re)) = mset (map what (filter (\<lambda>s. \<not> is_ready (fence d) s) ?ss))"
    using retain_ok [OF pre, of counter "[]"] by blast
  let ?d = "d1\<lparr>fence_submissions := kept @ re\<rparr>"
  have keys: "mset (map skey (kept @ re)) = mset (map skey (filter (\<lambda>s. \<not> is_ready (fence d) s) ?ss))"
  proof -
    have "mset (map skey xs) = image_mset fst (mset (map what xs))" for xs
      by (simp add: what_def image_mset.compositionality comp_def)
    then show ?thesis unfolding r(4) by (simp only: r(4))
  qed
  have w: "waiting ?d = skey ` {s \<in> set ?ss. \<not> is_ready (fence d) s}"
    using arg_cong [OF keys, of set_mset] by (simp add: waiting_def image_Un)
  have dist: "distinct (map skey (kept @ re))"
    using mset_eq_imp_distinct_iff [OF keys] pre(2) by (simp add: distinct_map_filter)
  have H: "H - waiting d \<union> ?ready = H - waiting ?d"
    unfolding w using inv pre(2) by (auto simp: run_inv_def waiting_def distinct_map inj_on_def)
  have "fences_inv (H - waiting ?d) ?d"
    using r(2) unfolding H by (rule fences_inv_same) simp_all
  moreover have "waiting ?d \<subseteq> H" unfolding w using inv by (auto simp: run_inv_def waiting_def)
  ultimately have "run_inv H ?d" using dist inv by (simp add: run_inv_def)
  then show ?thesis using r(1,3,4) by (auto simp: handle_fence_submissions_def other_fields_def)
qed

lemma run_inv_engine:
  assumes inv: "run_inv H d" and ord: "node_ordinal e = Some n"
    and es: "last_completed_fence es = last_completed_fence (engines d ! unat n)"
      "pending_fences es = pending_fences (engines d ! unat n)"
  shows "run_inv H (set_engine (unat n) es (d\<lparr>kernel := k\<rparr>))"
proof -
  have len: "length (engines d) = 64" using inv by (simp add: run_inv_def fences_inv_def)
  have "fences_inv (H - waiting d) (set_engine (unat n) es (d\<lparr>kernel := k\<rparr>))"
  proof (rule fences_inv_same [of _ d])
    show "fences_inv (H - waiting d) d" using inv by (simp add: run_inv_def)
  qed (use es len node_ordinal_bound [OF ord] in \<open>auto simp: set_engine_def nth_list_update\<close>)
  then show ?thesis using inv by (simp add: run_inv_def waiting_def set_engine_def)
qed

lemma submit_engine_ok:
  assumes inv: "run_inv H d" and e: "real_engine e"
  shows "\<exists>d'. submit_engine counter e f d = Some d' \<and> run_inv H d' \<and> fence d' = fence d
    \<and> fence_submissions d' = fence_submissions d"
proof -
  obtain n where ord: "node_ordinal e = Some n" using e by auto
  have len: "unat n < length (engines d)"
    using node_ordinal_bound [OF ord] inv by (simp add: run_inv_def fences_inv_def)
  obtain es k where s: "submit counter f (engines d ! unat n) (kernel d) = (es, k)" by force
  then have "last_completed_fence es = last_completed_fence (engines d ! unat n)"
    "pending_fences es = pending_fences (engines d ! unat n)"
    by (auto simp: submit_def Let_def split: prod.splits)
  with run_inv_engine [OF inv ord this, of k] s ord len show ?thesis
    by (simp add: submit_engine_def set_engine_def)
qed

lemma run_inv_wait:
  assumes inv: "run_inv H d" and e: "real_engine e" "f \<noteq> 0" "(e, f) \<notin> H" and s: "skey s = (e, f)"
  shows "run_inv (insert (e, f) H) (d\<lparr>fence_submissions := fence_submissions d @ [s], kernel := k\<rparr>)"
proof -
  let ?d = "d\<lparr>fence_submissions := fence_submissions d @ [s], kernel := k\<rparr>"
  have w: "waiting ?d = insert (e, f) (waiting d)" using s by (simp add: waiting_def)
  have "(e, f) \<notin> waiting d" using inv e(3) by (auto simp: run_inv_def)
  then have "distinct (map skey (fence_submissions ?d))"
    using inv s by (auto simp: run_inv_def waiting_def simp del: prod.inject)
  moreover have "insert (e, f) H - waiting ?d = H - waiting d" using w e(3) by auto
  moreover have "fences_inv (H - waiting d) ?d"
  proof (rule fences_inv_same [of _ d])
    show "fences_inv (H - waiting d) d" using inv by (simp add: run_inv_def)
  qed simp_all
  ultimately show ?thesis using inv e w by (auto simp: run_inv_def)
qed

lemma submit_fence_ok:
  assumes inv: "run_inv H d" and e: "real_engine e" "f \<noteq> 0" "(e, f) \<notin> H"
  shows "\<exists>d'. submit_fence counter e f v d = Some d' \<and> run_inv (insert (e, f) H) d' \<and> fence d' = fence d"
proof -
  obtain d1 where d1: "submit_engine counter e f d = Some d1" "run_inv H d1" "fence d1 = fence d"
    using submit_engine_ok [OF inv e(1)] by blast
  show ?thesis
  proof (cases "query v (fence d1)")
    case True
    then show ?thesis
      using run_inv_notify [OF d1(2) e reports_fence_simps(1), of counter] d1
      by (auto simp: submit_fence_def notify_dma_completed_def)
  next
    case False
    obtain s k where s: "submission_new counter e f v (kernel d1) = (s, k)" by force
    have "skey s = (e, f)"
      using submission_new_what [of counter e f v "kernel d1"] s by (simp add: what_def)
    then have "run_inv (insert (e, f) H) (d1\<lparr>fence_submissions := fence_submissions d1 @ [s], kernel := k\<rparr>)"
      by (rule run_inv_wait [OF d1(2) e])
    from run_inv_handle [OF this, of counter] show ?thesis
      using False s d1 by (auto simp: submit_fence_def other_fields_def)
  qed
qed

lemma run_inv_fence: "run_inv H (d\<lparr>fence := ft\<rparr>) \<longleftrightarrow> run_inv H d"
  by (simp add: run_inv_def fences_inv_def waiting_def)

lemma tracker_next_ok:
  assumes "unat (next_fence_id ft) = n" and "Suc n < 2 ^ 64"
  shows "unat (next_fence_id (snd (next_fence ft))) = Suc n"
  using assms by (simp add: next_fence_def Let_def) (subst unat_add_lt, simp_all)

lemma signal_ok:
  assumes "unat v < unat (next_fence_id ft)"
  shows "\<exists>ft'. signal v ft = Some ft' \<and> next_fence_id ft' = next_fence_id ft"
  using assms by (auto simp: signal_def word_less_nat_alt split: option.splits)

lemma gpu_step_ok:
  assumes inv: "run_inv H d" and n: "unat (next_fence_id (fence d)) = n" "Suc n < 2 ^ 64"
    and ev: "sound_events n [ev]" "set (handed ev) \<inter> H = {}"
  shows "\<exists>d'. gpu_event_step counter ev d = Some d' \<and> run_inv (set (handed ev) \<union> H) d'
    \<and> unat (next_fence_id (fence d')) = (if ev = NewFence then Suc n else n)"
proof (cases ev)
  case NewFence
  then show ?thesis using inv tracker_next_ok [OF n] by (simp add: run_inv_fence)
next
  case (Signaled v)
  then show ?thesis using inv n signal_ok [of v "fence d"] ev(1) by (auto simp: run_inv_fence)
next
  case (Completed e f)
  then show ?thesis
    using run_inv_notify [OF inv, of e f DmaCompleted counter] ev n by (auto simp: notify_dma_completed_def)
next
  case (Faulted e f)
  then show ?thesis
    using run_inv_notify [OF inv, of e f DmaFaulted counter] ev n by (auto simp: notify_dma_faulted_def)
next
  case (SubmitFence e f v)
  then show ?thesis
    using submit_fence_ok [OF inv, of e f counter v] ev n by auto
next
  case (Preempt e f)
  then obtain m where ord: "node_ordinal e = Some m" using ev(1) by auto
  then have "unat m < length (engines d)"
    using node_ordinal_bound [OF ord] inv by (simp add: run_inv_def fences_inv_def)
  then show ?thesis
    using Preempt n ord run_inv_engine [OF inv ord, of "(engines d ! unat m)\<lparr>last_preemption_fence := f\<rparr>" "kernel d"]
    by (simp add: submit_preemption_def set_engine_def)
next
  case HandleSubmissions
  then show ?thesis using run_inv_handle [OF inv, of counter] n by (auto simp: other_fields_def)
qed

lemma sound_events_Cons:
  "sound_events n (ev # evs) \<longleftrightarrow> sound_events n [ev] \<and> sound_events (if ev = NewFence then Suc n else n) evs"
  by (cases ev) auto

lemma gpu_run_ok:
  assumes "run_inv H d" and "unat (next_fence_id (fence d)) = n" and "n + length evs < 2 ^ 64"
    and "sound_events n evs" and "distinct (concat (map handed evs))" and "set (concat (map handed evs)) \<inter> H = {}"
  shows "\<exists>d'. gpu_run counter evs d = Some d' \<and> run_inv (set (concat (map handed evs)) \<union> H) d'"
  using assms
proof (induction evs arbitrary: H d n)
  case (Cons ev evs)
  let ?n = "if ev = NewFence then Suc n else n"
  have ev: "sound_events n [ev]" "sound_events ?n evs" using Cons.prems(4) sound_events_Cons by blast+
  obtain d1 where d1: "gpu_event_step counter ev d = Some d1" "run_inv (set (handed ev) \<union> H) d1"
    "unat (next_fence_id (fence d1)) = ?n"
    using gpu_step_ok [OF Cons.prems(1,2) _ ev(1), of counter] Cons.prems(3,6) by auto
  have bound: "?n + length evs < 2 ^ 64" using Cons.prems(3) by auto
  have sep: "distinct (concat (map handed evs))" "set (concat (map handed evs)) \<inter> (set (handed ev) \<union> H) = {}"
    using Cons.prems(5,6) by auto
  have "set (concat (map handed evs)) \<union> (set (handed ev) \<union> H) = set (concat (map handed (ev # evs))) \<union> H"
    by auto
  then show ?case using Cons.IH [OF d1(2,3) bound ev(2) sep] d1(1) by simp
qed simp

lemma run_inv_new: "run_inv {} (gpu_data_with alloc k)"
proof -
  have "engine_inv {} [] engine_new" unfolding engine_inv_def by (intro exI [of _ 0]) (simp add: engine_new_def)
  then show ?thesis
    using node_ordinal_bound by (auto simp: run_inv_def fences_inv_def waiting_def gpu_data_with_def engine_consts)
qed

lemma engine_inv_read:
  assumes "engine_inv C rep es"
  shows "\<exists>k < 2 ^ 32. rep = map of_nat [1..<Suc k] \<and> set (map of_nat [1..<Suc k]) \<subseteq> C \<and> of_nat (Suc k) \<notin> C
    \<and> last_completed_fence es = of_nat k \<and> set (pending_fences es) = C - set (map of_nat [1..<Suc k])"
proof -
  obtain k where k: "rep = consec 0 k" "k < 2 ^ 32" "last_completed_fence es = of_nat k"
    "set (pending_fences es) = {f \<in> C. of_nat k < f}" "set rep \<subseteq> C" "of_nat k + 1 \<notin> C" "0 \<notin> C"
    using assms unfolding engine_inv_def by blast
  have C: "consec 0 k = map of_nat [1..<Suc k]"
    by (simp add: consec_def map_Suc_upt [symmetric] comp_def del: upt_Suc)
  have "{f \<in> C. of_nat k < f} = C - set (consec 0 k)"
    using k(7) by (auto simp: set_consec [OF k(2)] not_le)
  then show ?thesis
    using k unfolding C by (intro exI [of _ k]) (simp add: add.commute del: upt_Suc set_map)
qed

text \<open>
  C21. The scheduler sees fences in order. From the start of the driver, whatever the order in which
  commands complete or fail, virtio fences are signaled and submissions are looked at: if each fence of
  an engine is handed in once and is not 0, nothing panics, and the fences reported for an engine are
  1, 2, 3 and so on up to the last one before the first that is not finished, each once. Finished
  fences beyond that gap are exactly the pending ones. A fence counts as finished when its
  command did, or when it was handed in with a virtio fence and is no longer waiting for it.
\<close>

theorem fences_in_order:
  assumes "sound_events 0 evs" and "length evs < 2 ^ 64" and "distinct (concat (map handed evs))"
  shows "\<exists>d. gpu_run counter evs (gpu_data_with alloc k0) = Some d
    \<and> (\<forall>e n. node_ordinal e = Some n \<longrightarrow>
         (let finished = {f. (e, f) \<in> set (concat (map handed evs)) - waiting d} in
          \<exists>k < 2 ^ 32. fences_of e (interrupts d) = map of_nat [1..<Suc k]
            \<and> set (map of_nat [1..<Suc k]) \<subseteq> finished \<and> of_nat (Suc k) \<notin> finished
            \<and> last_completed_fence (engines d ! unat n) = of_nat k
            \<and> set (pending_fences (engines d ! unat n)) = finished - set (map of_nat [1..<Suc k])))"
proof -
  obtain d where d: "gpu_run counter evs (gpu_data_with alloc k0) = Some d" "run_inv (set (concat (map handed evs))) d"
    using gpu_run_ok [OF run_inv_new [of alloc k0] _ _ assms(1,3), of counter] assms(2)
    by (auto simp: gpu_data_with_def tracker_new_def)
  have "engine_inv {f. (e, f) \<in> set (concat (map handed evs)) - waiting d} (fences_of e (interrupts d)) (engines d ! unat n)"
    if "node_ordinal e = Some n" for e n
    using d(2) that by (simp add: run_inv_def fences_inv_def)
  then show ?thesis
    unfolding Let_def using d(1) engine_inv_read by blast
qed

theorem fences_in_order_witness:
  "\<forall>alloc. \<exists>d. gpu_run (\<lambda>k. ((0, 0), k)) [NewFence, SubmitFence Graphics 2 0, Completed Graphics 1, Signaled 0, HandleSubmissions]
       (gpu_data_with alloc ()) = Some d
    \<and> (\<forall>e n. node_ordinal e = Some n \<longrightarrow>
         (let finished = {f. (e, f) \<in> set (concat (map handed
              [NewFence, SubmitFence Graphics 2 0, Completed Graphics 1, Signaled 0, HandleSubmissions])) - waiting d} in
          \<exists>k < 2 ^ 32. fences_of e (interrupts d) = map of_nat [1..<Suc k]
            \<and> set (map of_nat [1..<Suc k]) \<subseteq> finished \<and> of_nat (Suc k) \<notin> finished
            \<and> last_completed_fence (engines d ! unat n) = of_nat k
            \<and> set (pending_fences (engines d ! unat n)) = finished - set (map of_nat [1..<Suc k])))"
  using fences_in_order [of "[NewFence, SubmitFence Graphics 2 0, Completed Graphics 1, Signaled 0, HandleSubmissions]"
      "\<lambda>k. ((0, 0), k)" _ "()"]
  by (simp del: upt_Suc)

text \<open>
  The panic in the completion of fences, of which the code asks whether it is possible: it happens
  exactly when a completed fence is not above the last reported one. So it is reached when a fence
  completes twice, and when the fence number has wrapped around and the fences on both sides of
  the wrap complete out of order.
\<close>

theorem completion_panics_iff:
  assumes ord: "node_ordinal e = Some n" and len: "unat n < length (engines d)"
    and sorted: "sorted_wrt (<) (pending_fences (engines d ! unat n))"
    and above: "\<forall>x \<in> set (pending_fences (engines d ! unat n)). last_completed_fence (engines d ! unat n) + 1 < x"
    and no_wrap: "last_completed_fence (engines d ! unat n) \<noteq> - 1"
  shows "notify_dma_completed counter e f d = None \<longleftrightarrow> f \<le> last_completed_fence (engines d ! unat n)"
proof -
  let ?es = "engines d ! unat n"
  let ?l = "last_completed_fence ?es" and ?p = "pending_fences ?es"
  have "?l + 1 \<noteq> 0" using no_wrap by (metis add_eq_0_iff2)
  then have l: "?l < ?l + 1" by (rule less_Suc_word)
  have p: "\<forall>x \<in> set ?p. ?l < x" "?l + 1 \<notin> set ?p" using above l by auto
  consider "f \<le> ?l" | "f = ?l + 1" | "?l < f" "?l + 1 \<noteq> f" by (metis not_le)
  then show ?thesis
  proof cases
    case 1
    then have below: "\<forall>x \<in> set ?p. f < x" using p(1) by (auto intro: le_less_trans)
    then have "insort_insert f ?p = f # ?p"
      by (auto simp: insort_insert_key_def insort_is_Cons less_imp_le)
    then have "notify_dma_completed counter e f d = None"
      using 1 l ord len by (auto simp: notify_dma_completed_def notify_fence_def notify_queued_fences_def set_engine_def)
    with 1 show ?thesis by simp
  next
    case 2
    have cb: "\<And>e'. fence_of e' (DmaCompleted e f) = (if e' = e then [f] else [])" by auto
    from 2 have "\<exists>d'. notify_dma_completed counter e f d = Some d'"
      using notify_fence_now [where notify_cb = DmaCompleted, OF ord len _ refl sorted _ cb, of counter] above
      by (auto simp: notify_dma_completed_def)
    with 2 l show ?thesis by (auto simp: not_le)
  next
    case 3
    then have "\<exists>d'. notify_dma_completed counter e f d = Some d'"
      using notify_fence_later [OF ord len refl 3 refl sorted p, of counter DmaCompleted]
      by (auto simp: notify_dma_completed_def)
    with 3 show ?thesis by auto
  qed
qed

theorem completion_panics_iff_witness:
  "\<forall>alloc. notify_dma_completed (\<lambda>k. ((0, 0), k)) Graphics 0
     ((gpu_data_with alloc ())\<lparr>engines := [engine_new\<lparr>last_completed_fence := - 2\<rparr>]\<rparr>) = None"
proof
  fix alloc
  let ?d = "(gpu_data_with alloc ())\<lparr>engines := [engine_new\<lparr>last_completed_fence := - 2\<rparr>]\<rparr>"
  have "node_ordinal Graphics = Some 0" "unat (0 :: u32) < length (engines ?d)" by (simp_all add: engine_consts)
  moreover have "sorted_wrt (<) (pending_fences (engines ?d ! unat (0 :: u32)))"
    "\<forall>x \<in> set (pending_fences (engines ?d ! unat (0 :: u32))). last_completed_fence (engines ?d ! unat (0 :: u32)) + 1 < x"
    "last_completed_fence (engines ?d ! unat (0 :: u32)) \<noteq> - 1"
    by (simp_all add: engine_new_def)
  ultimately show "notify_dma_completed (\<lambda>k. ((0, 0), k)) Graphics 0 ?d = None"
    using completion_panics_iff [of Graphics 0 ?d "\<lambda>k. ((0, 0), k)" 0] by simp
qed

section \<open>Virtio fences\<close>

lemma position_None: "position p xs = None \<longleftrightarrow> (\<forall>x \<in> set xs. \<not> p x)"
  by (induction xs) auto

lemma position_Some: "position p xs = Some i \<Longrightarrow> i < length xs \<and> p (xs ! i)"
  by (induction xs arbitrary: i) (auto split: if_splits)

lemma swap_remove_at_mset:
  assumes "i < length xs"
  shows "add_mset (xs ! i) (mset (swap_remove_at i xs)) = mset xs"
proof -
  obtain ys z where xs: "xs = ys @ [z]" using assms by (cases xs rule: rev_cases) auto
  show ?thesis
  proof (cases "i < length ys")
    case True
    then have "swap_remove_at i xs = ys[i := z]" by (simp add: swap_remove_at_def xs list_update_append)
    moreover have "mset (ys[i := z]) = add_mset z (mset ys - {# ys ! i #})" by (rule mset_update [OF True])
    ultimately show ?thesis using True by (simp add: xs nth_append insert_DiffM)
  next
    case False
    with assms xs have "i = length ys" by simp
    then show ?thesis by (simp add: xs swap_remove_at_def)
  qed
qed

datatype fence_op = Issue | Signal u64

fun fence_run :: "fence_op list \<Rightarrow> fence_tracker \<Rightarrow> fence_tracker option" where
  "fence_run [] ft = Some ft"
| "fence_run (Issue # ops) ft = fence_run ops (snd (next_fence ft))"
| "fence_run (Signal v # ops) ft = do { ft \<leftarrow> signal v ft; fence_run ops ft }"

definition tracker_inv :: "nat \<Rightarrow> u64 set \<Rightarrow> fence_tracker \<Rightarrow> bool" where
  "tracker_inv n S ft \<longleftrightarrow> unat (next_fence_id ft) = n \<and> distinct (unsignaled ft)
     \<and> set (unsignaled ft) = {v. unat v < n} - S \<and> (\<forall>v \<in> S. unat v < n)"

lemma tracker_inv_next:
  assumes "tracker_inv n S ft" and "Suc n < 2 ^ 64"
  shows "tracker_inv (Suc n) S (snd (next_fence ft))"
proof -
  have n: "unat (next_fence_id ft) = n" using assms(1) by (simp add: tracker_inv_def)
  have "v = next_fence_id ft \<longleftrightarrow> unat v = n" for v using n by (metis word_unat_eq_iff)
  with assms show ?thesis
    using tracker_next_ok [OF n assms(2)]
    by (auto simp: tracker_inv_def next_fence_def Let_def less_Suc_eq)
qed

lemma tracker_inv_signal:
  assumes inv: "tracker_inv n S ft" and "signal v ft = Some ft'"
  shows "tracker_inv n (insert v S) ft'"
proof -
  have v: "unat v < n" using assms by (auto simp: tracker_inv_def signal_def word_less_nat_alt)
  show ?thesis
  proof (cases "position (\<lambda>x. x = v) (unsignaled ft)")
    case None
    then have "ft' = ft" "v \<notin> set (unsignaled ft)"
      using assms(2) position_None [of "\<lambda>x. x = v" "unsignaled ft"] None by (simp_all add: signal_def) blast
    with inv v show ?thesis by (auto simp: tracker_inv_def)
  next
    case (Some i)
    let ?u = "swap_remove_at i (unsignaled ft)"
    have i: "i < length (unsignaled ft)" "unsignaled ft ! i = v" using position_Some [OF Some] by simp_all
    have ft': "ft' = ft\<lparr>unsignaled := ?u\<rparr>" using assms(2) Some by (auto simp: signal_def)
    have m: "add_mset v (mset ?u) = mset (unsignaled ft)" using swap_remove_at_mset [OF i(1)] i(2) by simp
    then have "distinct (v # ?u)" using inv mset_eq_imp_distinct_iff [of "v # ?u" "unsignaled ft"] by (simp add: tracker_inv_def)
    moreover have "insert v (set ?u) = set (unsignaled ft)" using arg_cong [OF m, of set_mset] by simp
    ultimately show ?thesis using inv v unfolding tracker_inv_def ft' by auto
  qed
qed

lemma tracker_run_inv:
  assumes "tracker_inv n S ft" and "n + length ops < 2 ^ 64" and "fence_run ops ft = Some ft'"
  shows "\<exists>m. tracker_inv m (S \<union> {v. Signal v \<in> set ops}) ft'"
  using assms
proof (induction ops arbitrary: n S ft)
  case (Cons op ops)
  show ?case
  proof (cases op)
    case Issue
    with Cons.IH [OF tracker_inv_next [OF Cons.prems(1)]] Cons.prems(2,3) show ?thesis by simp
  next
    case (Signal v)
    then obtain ft1 where "signal v ft = Some ft1" "fence_run ops ft1 = Some ft'"
      using Cons.prems(3) by (auto simp: bind_eq_Some_conv)
    moreover have "insert v S \<union> {w. Signal w \<in> set ops} = S \<union> {w. Signal w \<in> set (op # ops)}"
      using Signal by auto
    ultimately show ?thesis
      using Cons.IH [OF tracker_inv_signal [OF Cons.prems(1)]] Cons.prems(2) by (metis add_Suc_right length_Cons Suc_lessD)
  qed
qed auto

text \<open>
  A virtio fence counts as signaled exactly if it was: after any history of fresh fences and
  signals, \<open>query\<close> answers whether the fence was signaled. A signal for a fence that was
  never given out, which a device can send, is the only panic.
\<close>

theorem query_exact:
  assumes "fence_run ops tracker_new = Some ft" and "length ops < 2 ^ 64"
  shows "(query v ft \<longleftrightarrow> Signal v \<in> set ops) \<and> (signal v ft = None \<longleftrightarrow> next_fence_id ft \<le> v)"
proof -
  have "tracker_inv 0 {} tracker_new" by (simp add: tracker_inv_def tracker_new_def)
  from tracker_run_inv [OF this _ assms(1)] obtain m where "tracker_inv m {v. Signal v \<in> set ops} ft"
    using assms(2) by auto
  then have "query v ft \<longleftrightarrow> Signal v \<in> set ops"
    by (auto simp: query_def tracker_inv_def word_less_nat_alt)
  moreover have "signal v ft = None \<longleftrightarrow> next_fence_id ft \<le> v"
    by (auto simp: signal_def assert_def not_le split: option.splits)
  ultimately show ?thesis by simp
qed

theorem query_exact_witness:
  "fence_run [Issue, Issue, Signal 1] tracker_new = Some \<lparr>next_fence_id = 2, unsignaled = [0]\<rparr>
   \<and> (query 1 \<lparr>next_fence_id = 2, unsignaled = [0]\<rparr> \<longleftrightarrow> Signal 1 \<in> set [Issue, Issue, Signal 1])"
proof -
  have run: "fence_run [Issue, Issue, Signal 1] tracker_new = Some \<lparr>next_fence_id = 2, unsignaled = [0]\<rparr>"
    by (simp add: tracker_new_def next_fence_def signal_def swap_remove_at_def Let_def)
  show ?thesis using run query_exact [OF run, of 1] by simp
qed

section \<open>Identifiers\<close>

text \<open>
  A history of the id allocator with the ids in use as a list; an id is given back only by its user.
\<close>

inductive id_history :: "u32 \<Rightarrow> id_allocator \<Rightarrow> u32 list \<Rightarrow> bool" for initial where
  start: "id_history initial (id_new initial) []"
| take_id: "id_history initial a used \<Longrightarrow> id_next a = (Some x, a') \<Longrightarrow> id_history initial a' (x # used)"
| refused: "id_history initial a used \<Longrightarrow> id_next a = (None, a') \<Longrightarrow> id_history initial a' used"
| give_back: "id_history initial a used \<Longrightarrow> x \<in> set used \<Longrightarrow> id_history initial (id_free x a) (remove1 x used)"

definition id_inv :: "u32 \<Rightarrow> id_allocator \<Rightarrow> u32 list \<Rightarrow> bool" where
  "id_inv initial a used \<longleftrightarrow> distinct (free_ids a @ used) \<and> initial \<le> next_id a
     \<and> set (free_ids a) \<union> set used = {initial ..< next_id a}"

lemma id_inv_next:
  assumes inv: "id_inv initial a used" and "id_next a = (r, a')"
  shows "case r of Some x \<Rightarrow> id_inv initial a' (x # used)
    | None \<Rightarrow> a' = a \<and> free_ids a = [] \<and> next_id a = - 1"
proof (cases "free_ids a")
  case Nil
  show ?thesis
  proof (cases "next_id a = - 1")
    case True
    with Nil assms(2) show ?thesis by (auto simp: id_next_def Let_def)
  next
    case False
    then have "next_id a + 1 \<noteq> 0" by (metis add_eq_0_iff2)
    then have lt: "next_id a < next_id a + 1" and le: "y < next_id a + 1 \<longleftrightarrow> y \<le> next_id a" for y
      using unatSuc [of "next_id a"] by (simp_all add: add.commute word_less_nat_alt word_le_nat_alt less_Suc_eq_le)
    have used: "set used = {initial ..< next_id a}" using inv Nil by (simp add: id_inv_def)
    have "insert (next_id a) (set used) = {initial ..< next_id a + 1}"
      using inv le by (auto simp: used id_inv_def)
    then show ?thesis
      using Nil False assms lt used by (auto simp: id_next_def Let_def id_inv_def)
  qed
qed (use assms in \<open>auto simp: id_next_def id_inv_def\<close>)

lemma id_inv_history: "id_history initial a used \<Longrightarrow> id_inv initial a used"
proof (induction rule: id_history.induct)
  case start
  show ?case by (simp add: id_inv_def id_new_def)
next
  case (take_id a used x a')
  from id_inv_next [OF this(3,2)] show ?case by simp
next
  case (refused a used a')
  from id_inv_next [OF this(3,2)] this(3) show ?case by simp
next
  case (give_back a used x)
  then show ?case by (auto simp: id_inv_def id_free_def)
qed

lemma id_next_none:
  assumes inv: "id_inv initial a used"
  shows "fst (id_next a) = None \<longleftrightarrow> set used = {initial ..< - 1}"
proof
  assume "fst (id_next a) = None"
  then have "free_ids a = [] \<and> next_id a = - 1"
    by (auto simp: id_next_def Let_def split: list.splits if_splits)
  then show "set used = {initial ..< - 1}" using inv by (simp add: id_inv_def)
next
  assume all: "set used = {initial ..< - 1}"
  have "free_ids a = []"
  proof (rule ccontr)
    assume "free_ids a \<noteq> []"
    then obtain x where x: "x \<in> set (free_ids a)" by (cases "free_ids a") auto
    then have "initial \<le> x" "x < next_id a" "x \<notin> set used" using inv by (auto simp: id_inv_def)
    moreover have "next_id a \<le> - 1" by simp
    ultimately show False using all by (auto dest: less_le_trans)
  qed
  moreover have "next_id a = - 1"
  proof (rule ccontr)
    assume "next_id a \<noteq> - 1"
    then have "next_id a \<in> {initial ..< - 1}" using inv by (simp add: id_inv_def word_order.not_eq_extremum)
    then show False using inv all by (auto simp: id_inv_def)
  qed
  ultimately show "fst (id_next a) = None" by (simp add: id_next_def)
qed

text \<open>
  Ids are unique while in use: the ids that are in use are all different and lie in the range the
  comment promises, from the initial one up to and without the largest number, and \<open>next\<close> gives
  none exactly when every id of the range is in use.
\<close>

theorem ids_unique:
  assumes "id_history initial a used"
  shows "distinct used \<and> set used \<subseteq> {initial ..< - 1}
    \<and> (fst (id_next a) = None \<longleftrightarrow> set used = {initial ..< - 1})"
proof -
  have inv: "id_inv initial a used" using assms by (rule id_inv_history)
  moreover have "x < - 1" if "x < next_id a" for x using that by (rule less_le_trans) simp
  ultimately show ?thesis using id_next_none [OF inv] by (auto simp: id_inv_def)
qed

theorem ids_unique_witness:
  "id_history 1 \<lparr>next_id = 3, free_ids = [1]\<rparr> [2] \<and> distinct [2 :: u32] \<and> {2 :: u32} \<subseteq> {1 ..< - 1}
   \<and> (fst (id_next \<lparr>next_id = 3, free_ids = [1]\<rparr>) = None \<longleftrightarrow> {2 :: u32} = {1 ..< - 1})"
proof -
  have "id_history 1 \<lparr>next_id = 2, free_ids = []\<rparr> [1]"
    by (rule id_history.take_id [OF id_history.start]) (simp add: id_next_def id_new_def)
  from id_history.take_id [OF this, of 2 "\<lparr>next_id = 3, free_ids = []\<rparr>"]
  have "id_history 1 \<lparr>next_id = 3, free_ids = []\<rparr> [2, 1]" by (simp add: id_next_def)
  from id_history.give_back [OF this, of 1] have h: "id_history 1 \<lparr>next_id = 3, free_ids = [1]\<rparr> [2]"
    by (simp add: id_free_def)
  show ?thesis using h ids_unique [OF h] by simp
qed

text \<open>
  Run by run of whole calls the allocator is right; its accesses to the counter are not atomic
  together. Once the counter has reached the largest number, a thread that reads it makes the
  counter 0 before it stores the largest number back, and other threads can get 0, 1 and so on in between.
\<close>

inductive id_steps :: "id_system \<Rightarrow> u32 list \<Rightarrow> id_system \<Rightarrow> bool" where
  none: "id_steps s [] s"
| silent: "id_step s None s1 \<Longrightarrow> id_steps s1 xs s2 \<Longrightarrow> id_steps s xs s2"
| refuse: "id_step s (Some None) s1 \<Longrightarrow> id_steps s1 xs s2 \<Longrightarrow> id_steps s xs s2"
| give: "id_step s (Some (Some x)) s1 \<Longrightarrow> id_steps s1 xs s2 \<Longrightarrow> id_steps s (x # xs) s2"

text \<open>
  Interleaved calls of the id allocator break its promise: from a state in which all ids are in
  use and two threads call \<open>next\<close>, there is a run of the atomic accesses that ends with the counter back
  at the largest number and hands out the id 0, and a run with a third call that hands out id 1
  again.
\<close>

theorem id_race:
  assumes "freed s = []" and "cell s = - 1" and "threads s = (\<lambda>_. Idle)"
  shows "id_steps s [0] s \<and> id_steps s [0, 1] s"
proof -
  let ?T = "\<lambda>a b c. (\<lambda>_. Idle)(0 := a, 1 := b, 2 := c)" and ?S = "\<lambda>w t. s\<lparr>cell := w, threads := t\<rparr>"
  have s: "s = ?S (- 1) (?T Idle Idle Idle)" using assms by (cases s) (simp add: fun_eq_iff)
  have found: "id_step (?S w (?T Idle b c)) None (?S w (?T FoundNone b c))"
    "id_step (?S w (?T a Idle c)) None (?S w (?T a FoundNone c))"
    "id_step (?S w (?T a b Idle)) None (?S w (?T a b FoundNone))" for w a b c
    using id_step.found_none [of "?S w (?T Idle b c)" 0] id_step.found_none [of "?S w (?T a Idle c)" 1]
      id_step.found_none [of "?S w (?T a b Idle)" 2] assms(1)
    by (simp_all add: fun_upd_twist)
  have read: "id_step (?S (- 1) (?T FoundNone b c)) None (?S 0 (?T ReadMax b c))"
    "id_step (?S 0 (?T a FoundNone c)) (Some (Some 0)) (?S 1 (?T a Idle c))"
    "id_step (?S 1 (?T a b FoundNone)) (Some (Some 1)) (?S 2 (?T a b Idle))"
    "id_step (?S w (?T ReadMax b c)) (Some None) (?S (- 1) (?T Idle b c))" for a b c w
    using id_step.fetch_max [of "?S (- 1) (?T FoundNone b c)" 0] id_step.fetch_add [of "?S 0 (?T a FoundNone c)" 1]
      id_step.fetch_add [of "?S 1 (?T a b FoundNone)" 2] id_step.store_max [of "?S w (?T ReadMax b c)" 0]
    by (simp_all add: fun_upd_twist)
  have "id_steps (?S (- 1) (?T Idle Idle Idle)) [0] (?S (- 1) (?T Idle Idle Idle))"
    by (rule id_steps.silent [OF found(1)], rule id_steps.silent [OF found(2)], rule id_steps.silent [OF read(1)],
        rule id_steps.give [OF read(2)], rule id_steps.refuse [OF read(4)], rule id_steps.none)
  moreover have "id_steps (?S (- 1) (?T Idle Idle Idle)) [0, 1] (?S (- 1) (?T Idle Idle Idle))"
    by (rule id_steps.silent [OF found(1)], rule id_steps.silent [OF found(2)], rule id_steps.silent [OF found(3)],
        rule id_steps.silent [OF read(1)], rule id_steps.give [OF read(2)], rule id_steps.give [OF read(3)],
        rule id_steps.refuse [OF read(4)], rule id_steps.none)
  ultimately show ?thesis using s by metis
qed

theorem id_race_witness:
  "id_steps \<lparr>cell = - 1, freed = [], threads = (\<lambda>_. Idle)\<rparr> [0, 1] \<lparr>cell = - 1, freed = [], threads = (\<lambda>_. Idle)\<rparr>"
  using id_race [of "\<lparr>cell = - 1, freed = [], threads = (\<lambda>_. Idle)\<rparr>"] by simp

end
