(* ===== verification/Gpu_Protocol.thy ===== *)
theory Gpu_Protocol
  imports Device_Common
begin

text \<open>
  The messages of the graphics device (\<open>src/virtio-drivers/src/device/gpu/mod.rs\<close>): the numbers of
  commands and answers, the header, the structures of the commands and answers and their bytes. Padding
  fields are zero in every message the drivers build and are not read from answers, so the structures
  leave them out; their bytes are in the encoding.
\<close>

section \<open>Numbers\<close>

definition GET_DISPLAY_INFO :: u32 where "GET_DISPLAY_INFO = 0x100"
definition RESOURCE_CREATE_2D :: u32 where "RESOURCE_CREATE_2D = 0x101"
definition RESOURCE_UNREF :: u32 where "RESOURCE_UNREF = 0x102"
definition SET_SCANOUT :: u32 where "SET_SCANOUT = 0x103"
definition RESOURCE_FLUSH :: u32 where "RESOURCE_FLUSH = 0x104"
definition TRANSFER_TO_HOST_2D :: u32 where "TRANSFER_TO_HOST_2D = 0x105"
definition RESOURCE_ATTACH_BACKING :: u32 where "RESOURCE_ATTACH_BACKING = 0x106"
definition RESOURCE_DETACH_BACKING :: u32 where "RESOURCE_DETACH_BACKING = 0x107"
definition GET_CAPSET_INFO :: u32 where "GET_CAPSET_INFO = 0x108"
definition GET_CAPSET :: u32 where "GET_CAPSET = 0x109"
definition GET_EDID :: u32 where "GET_EDID = 0x10a"
definition RESOURCE_ASSIGN_UUID :: u32 where "RESOURCE_ASSIGN_UUID = 0x10b"
definition RESOURCE_CREATE_BLOB :: u32 where "RESOURCE_CREATE_BLOB = 0x10c"
definition SET_SCANOUT_BLOB :: u32 where "SET_SCANOUT_BLOB = 0x10d"
definition CTX_CREATE :: u32 where "CTX_CREATE = 0x200"
definition CTX_DESTROY :: u32 where "CTX_DESTROY = 0x201"
definition CTX_ATTACH_RESOURCE :: u32 where "CTX_ATTACH_RESOURCE = 0x202"
definition CTX_DETACH_RESOURCE :: u32 where "CTX_DETACH_RESOURCE = 0x203"
definition RESOURCE_CREATE_3D :: u32 where "RESOURCE_CREATE_3D = 0x204"
definition TRANSFER_TO_HOST_3D :: u32 where "TRANSFER_TO_HOST_3D = 0x205"
definition TRANSFER_FROM_HOST_3D :: u32 where "TRANSFER_FROM_HOST_3D = 0x206"
definition SUBMIT_3D :: u32 where "SUBMIT_3D = 0x207"
definition RESOURCE_MAP_BLOB :: u32 where "RESOURCE_MAP_BLOB = 0x208"
definition RESOURCE_UNMAP_BLOB :: u32 where "RESOURCE_UNMAP_BLOB = 0x209"
definition UPDATE_CURSOR :: u32 where "UPDATE_CURSOR = 0x300"
definition MOVE_CURSOR :: u32 where "MOVE_CURSOR = 0x301"
definition OK_NODATA :: u32 where "OK_NODATA = 0x1100"
definition OK_DISPLAY_INFO :: u32 where "OK_DISPLAY_INFO = 0x1101"
definition OK_CAPSET_INFO :: u32 where "OK_CAPSET_INFO = 0x1102"
definition OK_CAPSET :: u32 where "OK_CAPSET = 0x1103"
definition OK_EDID :: u32 where "OK_EDID = 0x1104"
definition OK_RESOURCE_UUID :: u32 where "OK_RESOURCE_UUID = 0x1105"
definition OK_MAP_INFO :: u32 where "OK_MAP_INFO = 0x1106"
definition ERR_UNSPEC :: u32 where "ERR_UNSPEC = 0x1200"
definition ERR_OUT_OF_MEMORY :: u32 where "ERR_OUT_OF_MEMORY = 0x1201"
definition ERR_INVALID_SCANOUT_ID :: u32 where "ERR_INVALID_SCANOUT_ID = 0x1202"
definition ERR_INVALID_RESOURCE_ID :: u32 where "ERR_INVALID_RESOURCE_ID = 0x1203"
definition ERR_INVALID_CONTEXT_ID :: u32 where "ERR_INVALID_CONTEXT_ID = 0x1204"
definition ERR_INVALID_PARAMETER :: u32 where "ERR_INVALID_PARAMETER = 0x1205"

lemmas gpu_numbers = GET_DISPLAY_INFO_def RESOURCE_CREATE_2D_def RESOURCE_UNREF_def SET_SCANOUT_def RESOURCE_FLUSH_def
  TRANSFER_TO_HOST_2D_def RESOURCE_ATTACH_BACKING_def RESOURCE_DETACH_BACKING_def GET_CAPSET_INFO_def GET_CAPSET_def
  GET_EDID_def RESOURCE_ASSIGN_UUID_def RESOURCE_CREATE_BLOB_def SET_SCANOUT_BLOB_def CTX_CREATE_def CTX_DESTROY_def
  CTX_ATTACH_RESOURCE_def CTX_DETACH_RESOURCE_def RESOURCE_CREATE_3D_def TRANSFER_TO_HOST_3D_def
  TRANSFER_FROM_HOST_3D_def SUBMIT_3D_def RESOURCE_MAP_BLOB_def RESOURCE_UNMAP_BLOB_def UPDATE_CURSOR_def MOVE_CURSOR_def

lemmas gpu_answers = OK_NODATA_def OK_DISPLAY_INFO_def OK_CAPSET_INFO_def OK_CAPSET_def OK_EDID_def OK_RESOURCE_UUID_def
  OK_MAP_INFO_def ERR_UNSPEC_def ERR_OUT_OF_MEMORY_def ERR_INVALID_SCANOUT_ID_def ERR_INVALID_RESOURCE_ID_def
  ERR_INVALID_CONTEXT_ID_def ERR_INVALID_PARAMETER_def

definition is_response :: "u32 \<Rightarrow> bool" where "is_response c \<longleftrightarrow> c \<ge> OK_NODATA"
definition is_error :: "u32 \<Rightarrow> bool" where "is_error c \<longleftrightarrow> c \<ge> ERR_UNSPEC"
definition is_cursor :: "u32 \<Rightarrow> bool" where "is_cursor c \<longleftrightarrow> c = UPDATE_CURSOR \<or> c = MOVE_CURSOR"

definition GPU_FLAG_FENCE :: u32 where "GPU_FLAG_FENCE = push_bit 0 1"
definition GPU_FLAG_RING_INDEX :: u32 where "GPU_FLAG_RING_INDEX = push_bit 1 1"

section \<open>The header\<close>

record ctrl_header =
  hdr_type :: u32
  hdr_flags :: u32
  hdr_fence_id :: u64
  hdr_ctx_id :: u32
  hdr_ring_idx :: u8

definition CTRL_SIZE :: nat where "CTRL_SIZE = 24"

definition ctrl_bytes :: "ctrl_header \<Rightarrow> u8 list" where
  "ctrl_bytes h = le32 (hdr_type h) @ le32 (hdr_flags h) @ le64 (hdr_fence_id h) @ le32 (hdr_ctx_id h)
     @ le8 (hdr_ring_idx h) @ [0, 0, 0]"

definition ctrl_from_prefix :: "u8 list \<Rightarrow> ctrl_header option" where
  "ctrl_from_prefix bs =
     (if length bs < CTRL_SIZE then None
      else Some \<lparr>hdr_type = le_field 0 4 bs, hdr_flags = le_field 4 4 bs, hdr_fence_id = le_field 8 8 bs,
        hdr_ctx_id = le_field 16 4 bs, hdr_ring_idx = le_field 20 1 bs\<rparr>)"

definition with_type :: "u32 \<Rightarrow> ctrl_header" where
  "with_type c = \<lparr>hdr_type = c, hdr_flags = 0, hdr_fence_id = 0, hdr_ctx_id = 0, hdr_ring_idx = 0\<rparr>"

definition with_type_and_ctx :: "u32 \<Rightarrow> u32 \<Rightarrow> ctrl_header" where
  "with_type_and_ctx c ctx = \<lparr>hdr_type = c, hdr_flags = 0, hdr_fence_id = 0, hdr_ctx_id = ctx, hdr_ring_idx = 0\<rparr>"

definition with_fence :: "u32 \<Rightarrow> u32 \<Rightarrow> u64 \<Rightarrow> ctrl_header" where
  "with_fence c ctx f =
     \<lparr>hdr_type = c, hdr_flags = GPU_FLAG_FENCE, hdr_fence_id = f, hdr_ctx_id = ctx, hdr_ring_idx = 0\<rparr>"

definition check_type :: "ctrl_header \<Rightarrow> u32 \<Rightarrow> unit result" where
  "check_type h expected = (if hdr_type h = expected then Inr () else Inl IoError)"

section \<open>Parts\<close>

record rect =
  rect_x :: u32
  rect_y :: u32
  rect_width :: u32
  rect_height :: u32

definition rect_default :: rect where
  "rect_default = \<lparr>rect_x = 0, rect_y = 0, rect_width = 0, rect_height = 0\<rparr>"

definition rect_bytes :: "rect \<Rightarrow> u8 list" where
  "rect_bytes r = le32 (rect_x r) @ le32 (rect_y r) @ le32 (rect_width r) @ le32 (rect_height r)"

definition rect_at :: "nat \<Rightarrow> u8 list \<Rightarrow> rect" where
  "rect_at i bs = \<lparr>rect_x = le_field i 4 bs, rect_y = le_field (i + 4) 4 bs, rect_width = le_field (i + 8) 4 bs,
     rect_height = le_field (i + 12) 4 bs\<rparr>"

record display_one =
  mode_rect :: rect
  mode_enabled :: u32
  mode_flags :: u32

definition VIRTIO_GPU_MAX_SCANOUTS :: nat where "VIRTIO_GPU_MAX_SCANOUTS = 16"

record resp_display_info =
  di_header :: ctrl_header
  pmodes :: "display_one list"

datatype gpu_format = B8G8R8A8UNORM | B8G8R8X8UNORM | A8R8G8B8UNORM | X8R8G8B8UNORM | R8G8B8A8UNORM | X8B8G8R8UNORM
  | A8B8G8R8UNORM | R8G8B8X8UNORM

fun format_bits :: "gpu_format \<Rightarrow> u32" where
  "format_bits B8G8R8A8UNORM = 1"
| "format_bits B8G8R8X8UNORM = 2"
| "format_bits A8R8G8B8UNORM = 3"
| "format_bits X8R8G8B8UNORM = 4"
| "format_bits R8G8B8A8UNORM = 67"
| "format_bits X8B8G8R8UNORM = 68"
| "format_bits A8B8G8R8UNORM = 121"
| "format_bits R8G8B8X8UNORM = 134"

fun format_stride :: "gpu_format \<Rightarrow> nat" where
  "format_stride B8G8R8A8UNORM = 4"
| "format_stride B8G8R8X8UNORM = 4"
| "format_stride A8R8G8B8UNORM = 4"
| "format_stride X8R8G8B8UNORM = 4"
| "format_stride R8G8B8A8UNORM = 4"
| "format_stride X8B8G8R8UNORM = 4"
| "format_stride A8B8G8R8UNORM = 4"
| "format_stride R8G8B8X8UNORM = 4"

record mem_entry =
  me_addr :: u64
  me_length :: u32

definition mem_entry_bytes :: "mem_entry \<Rightarrow> u8 list" where
  "mem_entry_bytes e = le64 (me_addr e) @ le32 (me_length e) @ le32 0"

record gpu_box =
  box_x :: u32
  box_y :: u32
  box_z :: u32
  box_w :: u32
  box_h :: u32
  box_d :: u32

definition box_bytes :: "gpu_box \<Rightarrow> u8 list" where
  "box_bytes b = le32 (box_x b) @ le32 (box_y b) @ le32 (box_z b) @ le32 (box_w b) @ le32 (box_h b) @ le32 (box_d b)"

section \<open>Commands\<close>

text \<open>The structures sent in two-dimensional mode; the header comes first in each.\<close>

datatype gpu_2d =
    CmdHeader ctrl_header
  | CmdGetEdid ctrl_header u32
  | ResourceCreate2D ctrl_header u32 gpu_format u32 u32
  | ResourceAttachBackingSingleEntry ctrl_header u32 u32 mem_entry
  | ResourceDetachBacking ctrl_header u32
  | ResourceUnref ctrl_header u32
  | SetScanout ctrl_header rect u32 u32
  | TransferToHost2D ctrl_header rect u64 u32
  | ResourceFlush ctrl_header rect u32

fun gpu_2d_bytes :: "gpu_2d \<Rightarrow> u8 list" where
  "gpu_2d_bytes (CmdHeader h) = ctrl_bytes h"
| "gpu_2d_bytes (CmdGetEdid h scanout) = ctrl_bytes h @ le32 scanout @ le32 0"
| "gpu_2d_bytes (ResourceCreate2D h rid format w ht) =
     ctrl_bytes h @ le32 rid @ le32 (format_bits format) @ le32 w @ le32 ht"
| "gpu_2d_bytes (ResourceAttachBackingSingleEntry h rid n e) = ctrl_bytes h @ le32 rid @ le32 n @ mem_entry_bytes e"
| "gpu_2d_bytes (ResourceDetachBacking h rid) = ctrl_bytes h @ le32 rid @ le32 0"
| "gpu_2d_bytes (ResourceUnref h rid) = ctrl_bytes h @ le32 rid @ le32 0"
| "gpu_2d_bytes (SetScanout h r scanout rid) = ctrl_bytes h @ rect_bytes r @ le32 scanout @ le32 rid"
| "gpu_2d_bytes (TransferToHost2D h r offset rid) = ctrl_bytes h @ rect_bytes r @ le64 offset @ le32 rid @ le32 0"
| "gpu_2d_bytes (ResourceFlush h r rid) = ctrl_bytes h @ rect_bytes r @ le32 rid @ le32 0"

text \<open>The structures of three-dimensional mode and of blobs.\<close>

datatype gpu_3d =
    CmdGetCapsetInfo ctrl_header u32
  | CmdGetCapset ctrl_header u32 u32
  | CmdCtxCreate ctrl_header u32 u32 "u8 list"
  | CmdCtxResource ctrl_header u32
  | CmdResourceCreate3D ctrl_header u32 u32 u32 u32 u32 u32 u32 u32 u32 u32 u32
  | CmdTransferHost3D ctrl_header gpu_box u64 u32 u32 u32 u32
  | CmdSubmit3D ctrl_header u32
  | CmdResourceCreateBlob ctrl_header u32 u32 u32 u32 u64 u64

datatype gpu_blob =
    CmdResourceMapBlob ctrl_header u32 u64
  | CmdResourceUnmapBlob ctrl_header u32
  | CmdResourceAssignUuid ctrl_header u32
  | SetScanoutBlob ctrl_header rect u32 u32 u32 u32 u32 "u32 list" "u32 list"

fun gpu_3d_bytes :: "gpu_3d \<Rightarrow> u8 list" where
  "gpu_3d_bytes (CmdGetCapsetInfo h i) = ctrl_bytes h @ le32 i @ le32 0"
| "gpu_3d_bytes (CmdGetCapset h i v) = ctrl_bytes h @ le32 i @ le32 v"
| "gpu_3d_bytes (CmdCtxCreate h nlen init name) = ctrl_bytes h @ le32 nlen @ le32 init @ name"
| "gpu_3d_bytes (CmdCtxResource h rid) = ctrl_bytes h @ le32 rid @ le32 0"
| "gpu_3d_bytes (CmdResourceCreate3D h rid target format bnd w ht depth asize level samples fl) =
     ctrl_bytes h @ le32 rid @ le32 target @ le32 format @ le32 bnd @ le32 w @ le32 ht @ le32 depth @ le32 asize
       @ le32 level @ le32 samples @ le32 fl @ le32 0"
| "gpu_3d_bytes (CmdTransferHost3D h b offset rid level stride lstride) =
     ctrl_bytes h @ box_bytes b @ le64 offset @ le32 rid @ le32 level @ le32 stride @ le32 lstride"
| "gpu_3d_bytes (CmdSubmit3D h n) = ctrl_bytes h @ le32 n @ le32 0"
| "gpu_3d_bytes (CmdResourceCreateBlob h rid mem fl n bid sz) =
     ctrl_bytes h @ le32 rid @ le32 mem @ le32 fl @ le32 n @ le64 bid @ le64 sz"

fun gpu_blob_bytes :: "gpu_blob \<Rightarrow> u8 list" where
  "gpu_blob_bytes (CmdResourceMapBlob h rid offset) = ctrl_bytes h @ le32 rid @ le32 0 @ le64 offset"
| "gpu_blob_bytes (CmdResourceUnmapBlob h rid) = ctrl_bytes h @ le32 rid @ le32 0"
| "gpu_blob_bytes (CmdResourceAssignUuid h rid) = ctrl_bytes h @ le32 rid @ le32 0"
| "gpu_blob_bytes (SetScanoutBlob h r scanout rid w ht format strides offsets) =
     ctrl_bytes h @ rect_bytes r @ le32 scanout @ le32 rid @ le32 w @ le32 ht @ le32 format @ le32 0
       @ concat (map le32 strides) @ concat (map le32 offsets)"

record cursor_pos =
  cp_scanout_id :: u32
  cp_x :: u32
  cp_y :: u32

datatype gpu_cursor = UpdateCursor ctrl_header cursor_pos u32 u32 u32

fun gpu_cursor_bytes :: "gpu_cursor \<Rightarrow> u8 list" where
  "gpu_cursor_bytes (UpdateCursor h pos rid hot_x hot_y) =
     ctrl_bytes h @ le32 (cp_scanout_id pos) @ le32 (cp_x pos) @ le32 (cp_y pos) @ le32 0
       @ le32 rid @ le32 hot_x @ le32 hot_y @ le32 0"

section \<open>Answers\<close>

text \<open>Answers are read from a buffer of the size of their structure.\<close>

definition display_one_at :: "nat \<Rightarrow> u8 list \<Rightarrow> display_one" where
  "display_one_at i bs = \<lparr>mode_rect = rect_at i bs, mode_enabled = le_field (i + 16) 4 bs,
     mode_flags = le_field (i + 20) 4 bs\<rparr>"

definition DISPLAY_INFO_SIZE :: nat where "DISPLAY_INFO_SIZE = 408"

definition display_info_from :: "u8 list \<Rightarrow> resp_display_info option" where
  "display_info_from bs = do {
     h \<leftarrow> ctrl_from_prefix bs;
     if length bs < DISPLAY_INFO_SIZE then None
     else Some \<lparr>di_header = h, pmodes = map (\<lambda>i. display_one_at (24 + 24 * i) bs) [0..<VIRTIO_GPU_MAX_SCANOUTS]\<rparr>
   }"

record resp_edid =
  re_header :: ctrl_header
  re_size :: u32
  re_edid :: "u8 list"

definition RESP_EDID_SIZE :: nat where "RESP_EDID_SIZE = 1056"

definition resp_edid_from :: "u8 list \<Rightarrow> resp_edid option" where
  "resp_edid_from bs = do {
     h \<leftarrow> ctrl_from_prefix bs;
     if length bs < RESP_EDID_SIZE then None
     else Some \<lparr>re_header = h, re_size = le_field 24 4 bs, re_edid = take 1024 (drop 32 bs)\<rparr>
   }"

record resp_capset_info =
  rc_header :: ctrl_header
  rc_capset_id :: u32
  rc_max_version :: u32
  rc_max_size :: u32

definition CAPSET_INFO_SIZE :: nat where "CAPSET_INFO_SIZE = 40"

definition capset_info_from :: "u8 list \<Rightarrow> resp_capset_info option" where
  "capset_info_from bs = do {
     h \<leftarrow> ctrl_from_prefix bs;
     if length bs < CAPSET_INFO_SIZE then None
     else Some \<lparr>rc_header = h, rc_capset_id = le_field 24 4 bs, rc_max_version = le_field 28 4 bs,
       rc_max_size = le_field 32 4 bs\<rparr>
   }"

record resp_map_info =
  rm_header :: ctrl_header
  rm_map_info :: u32

definition MAP_INFO_SIZE :: nat where "MAP_INFO_SIZE = 32"

definition map_info_from :: "u8 list \<Rightarrow> resp_map_info option" where
  "map_info_from bs = do {
     h \<leftarrow> ctrl_from_prefix bs;
     if length bs < MAP_INFO_SIZE then None else Some \<lparr>rm_header = h, rm_map_info = le_field 24 4 bs\<rparr>
   }"

section \<open>Queues and names\<close>

definition QUEUE_TRANSMIT :: u16 where "QUEUE_TRANSMIT = 0"
definition QUEUE_CURSOR :: u16 where "QUEUE_CURSOR = 1"
definition SCANOUT_ID :: u32 where "SCANOUT_ID = 0"
definition RESOURCE_ID_FB :: u32 where "RESOURCE_ID_FB = 0xbabe"
definition RESOURCE_ID_CURSOR :: u32 where "RESOURCE_ID_CURSOR = 0xdade"

definition CURSOR_RECT :: rect where
  "CURSOR_RECT = \<lparr>rect_x = 0, rect_y = 0, rect_width = 64, rect_height = 64\<rparr>"

definition VIRGL :: u64 where "VIRGL = push_bit 0 1"
definition EDID :: u64 where "EDID = push_bit 1 1"
definition CONTEXT_INIT :: u64 where "CONTEXT_INIT = push_bit 4 1"
definition RESOURCE_BLOB :: u64 where "RESOURCE_BLOB = push_bit 3 1"
definition BLOB_ALIGNMENT :: u64 where "BLOB_ALIGNMENT = push_bit 5 1"

definition gpu_features :: u64 where
  "gpu_features = VIRGL OR EDID OR CONTEXT_INIT OR RESOURCE_BLOB OR BLOB_ALIGNMENT OR NOTIFY_ON_EMPTY OR ANY_LAYOUT
     OR RING_INDIRECT_DESC OR RING_EVENT_IDX OR UNUSED OR VERSION_1 OR ACCESS_PLATFORM OR RING_PACKED OR IN_ORDER
     OR ORDER_PLATFORM OR SR_IOV OR NOTIFICATION_DATA"

section \<open>Encoding and reading\<close>

lemma length_parts [simp]:
  "length (ctrl_bytes h) = 24" "length (rect_bytes r) = 16" "length (mem_entry_bytes e) = 16" "length (box_bytes b) = 24"
  by (simp_all add: ctrl_bytes_def rect_bytes_def mem_entry_bytes_def box_bytes_def)

lemma ctrl_parse_bytes [simp]: "ctrl_from_prefix (ctrl_bytes h @ bs) = Some h"
proof -
  have "ctrl_from_prefix (ctrl_bytes h @ bs) = Some \<lparr>hdr_type = hdr_type h, hdr_flags = hdr_flags h,
      hdr_fence_id = hdr_fence_id h, hdr_ctx_id = hdr_ctx_id h, hdr_ring_idx = hdr_ring_idx h\<rparr>"
    by (simp add: ctrl_from_prefix_def CTRL_SIZE_def le_field_def) (simp add: ctrl_bytes_def)
  then show ?thesis by simp
qed

lemma ctrl_parse_header [simp]: "ctrl_from_prefix (ctrl_bytes h) = Some h"
  using ctrl_parse_bytes [of h "[]"] by simp

lemma ctrl_from_prefix_total: "24 \<le> length bs \<Longrightarrow> \<exists>h. ctrl_from_prefix bs = Some h"
  by (simp add: ctrl_from_prefix_def CTRL_SIZE_def)

end
