(* ===== verification/Edid.thy ===== *)
theory Edid
  imports Virt_Layout Byte_Codec "HOL-Library.Multiset"
begin

text \<open>
  Reading a monitor's description (\<open>src/virtio-drivers/src/device/gpu/edid.rs\<close>): the preferred mode from
  the first detailed timing, and the list of standard modes. The description is 1024 bytes, of which
  the device says how many it wrote.
\<close>

section \<open>Definitions\<close>

definition NUM_STANDARD_TIMINGS :: nat where "NUM_STANDARD_TIMINGS = 8"
definition DTD1_OFFSET :: nat where "DTD1_OFFSET = 0x36"
definition DTD_LEN :: nat where "DTD_LEN = 18"
definition STANDARD_TIMINGS_OFFSET :: nat where "STANDARD_TIMINGS_OFFSET = 38"
definition STANDARD_TIMING_LEN :: nat where "STANDARD_TIMING_LEN = 2"

datatype aspect_ratio = Ratio16x10 | Ratio4x3 | Ratio5x4 | Ratio16x9

definition aspect_from_bits :: "u8 \<Rightarrow> aspect_ratio option" where
  "aspect_from_bits bits =
     (if bits = 0 then Some Ratio16x10 else if bits = 1 then Some Ratio4x3
      else if bits = 2 then Some Ratio5x4 else if bits = 3 then Some Ratio16x9 else None)"

fun v_pixels_of :: "aspect_ratio \<Rightarrow> u32 \<Rightarrow> u32" where
  "v_pixels_of Ratio16x10 h = h * 10 div 16"
| "v_pixels_of Ratio4x3 h = h * 3 div 4"
| "v_pixels_of Ratio5x4 h = h * 4 div 5"
| "v_pixels_of Ratio16x9 h = h * 9 div 16"

record standard_timing =
  h_pixels :: u32
  v_pixels :: u32

definition UNUSED_TIMING :: "u8 list" where "UNUSED_TIMING = [1, 1]"

text \<open>The parsers panic on the \<open>unreachable!\<close> of the aspect ratio only.\<close>

definition standard_timing_parse :: "u8 list \<Rightarrow> standard_timing option option" where
  "standard_timing_parse bytes =
     (if bytes = UNUSED_TIMING then Some None
      else do {
        b0 \<leftarrow> get bytes 0;
        b1 \<leftarrow> get bytes 1;
        let h = (ucast b0 + 31) * 8;
        aspect \<leftarrow> aspect_from_bits (drop_bit 6 b1 AND 3);
        Some (Some \<lparr>h_pixels = h, v_pixels = v_pixels_of aspect h\<rparr>)
      })"

record detailed_timing =
  h_active :: u32
  h_blank :: u32
  v_active :: u32
  v_blank :: u32
  pixel_clock_hz :: u32

definition detailed_timing_parse :: "u8 list \<Rightarrow> detailed_timing option" where
  "detailed_timing_parse bytes =
     (let pixel_clock_10khz = ucast (of_nat (from_le [bytes ! 0, bytes ! 1]) :: u16) :: u32;
          byte = (\<lambda>i. ucast (bytes ! i) :: u32)
      in
      if pixel_clock_10khz = 0 then None
      else
        let ha = byte 2 OR push_bit 4 (byte 4 AND 0xF0);
            hb = byte 3 OR push_bit 8 (byte 4 AND 0x0F);
            va = byte 5 OR push_bit 4 (byte 7 AND 0xF0);
            vb = byte 6 OR push_bit 8 (byte 7 AND 0x0F)
        in
        if ha = 0 \<or> va = 0 then None
        else Some \<lparr>h_active = ha, h_blank = hb, v_active = va, v_blank = vb,
                     pixel_clock_hz = pixel_clock_10khz * 10000\<rparr>)"

record edid =
  edid_data :: "u8 list"
  edid_size :: u32

definition has_base_block :: "edid \<Rightarrow> bool" where
  "has_base_block e \<longleftrightarrow> edid_size e \<ge> 128"

text \<open>\<open>&data[offset..][..n]\<close> panics when the range is not inside the array.\<close>

definition byte_range :: "u8 list \<Rightarrow> nat \<Rightarrow> nat \<Rightarrow> u8 list option" where
  "byte_range data offset n = (if offset + n \<le> length data then Some (take n (drop offset data)) else None)"

definition first_detailed_timing :: "edid \<Rightarrow> detailed_timing option option" where
  "first_detailed_timing e =
     (if \<not> has_base_block e then Some None
      else do {
        bytes \<leftarrow> byte_range (edid_data e) DTD1_OFFSET DTD_LEN;
        Some (detailed_timing_parse bytes)
      })"

definition standard_timing_at :: "nat \<Rightarrow> edid \<Rightarrow> standard_timing option option" where
  "standard_timing_at index e = do {
     bytes \<leftarrow> byte_range (edid_data e) (STANDARD_TIMINGS_OFFSET + index * STANDARD_TIMING_LEN) STANDARD_TIMING_LEN;
     standard_timing_parse bytes
   }"

definition preferred_timing :: "edid \<Rightarrow> detailed_timing result option" where
  "preferred_timing e = do {
     t \<leftarrow> first_detailed_timing e;
     Some (case t of None \<Rightarrow> Inl IoError | Some t \<Rightarrow> Inr t)
   }"

definition preferred_resolution :: "edid \<Rightarrow> (u32 \<times> u32) result option" where
  "preferred_resolution e = do {
     r \<leftarrow> preferred_timing e;
     Some (case r of Inl err \<Rightarrow> Inl err | Inr timing \<Rightarrow> Inr (h_active timing, v_active timing))
   }"

fun collect_timings :: "nat list \<Rightarrow> edid \<Rightarrow> (u32 \<times> u32) list option" where
  "collect_timings [] e = Some []"
| "collect_timings (i # is) e = do {
     st \<leftarrow> standard_timing_at i e;
     rest \<leftarrow> collect_timings is e;
     Some (case st of None \<Rightarrow> rest | Some st \<Rightarrow> (h_pixels st, v_pixels st) # rest)
   }"

definition pixel_count :: "u32 \<times> u32 \<Rightarrow> u64" where
  "pixel_count r = ucast (fst r) * ucast (snd r)"

text \<open>\<open>sort_by\<close> is stable; comparing \<open>b\<close> with \<open>a\<close> sorts by decreasing pixel count.\<close>

definition standard_timings :: "edid \<Rightarrow> (u32 \<times> u32) list option" where
  "standard_timings e =
     (if \<not> has_base_block e then Some []
      else do {
        resolutions \<leftarrow> collect_timings [0..<NUM_STANDARD_TIMINGS] e;
        Some (sort_key (\<lambda>r. - int (unat (pixel_count r))) resolutions)
      })"

section \<open>Properties\<close>

lemma aspect_bits: "\<exists>a. aspect_from_bits (drop_bit 6 b AND 3) = Some a"
proof -
  have "drop_bit 6 b AND 3 = take_bit 2 (drop_bit 6 b)" by (simp add: take_bit_eq_mask mask_eq_exp_minus_1)
  moreover have "unat (take_bit 2 (drop_bit 6 b)) < 4" by (simp add: unat_take_bit_mod)
  ultimately have "unat (drop_bit 6 b AND 3) \<in> {0, 1, 2, 3}" by auto
  then have "drop_bit 6 b AND 3 \<in> {0, 1, 2, 3}" by (simp add: word_unat_eq_iff)
  then show ?thesis by (auto simp: aspect_from_bits_def)
qed

lemma two_list: "length xs = 2 \<Longrightarrow> \<exists>a b. xs = [a, b]"
  by (cases xs; cases "tl xs") auto

lemma standard_timing_total:
  assumes "length (edid_data e) = 1024" and "i < 8"
  shows "\<exists>t. standard_timing_at i e = Some t"
proof -
  let ?bs = "take 2 (drop (38 + i * 2) (edid_data e))"
  have "length ?bs = 2" using assms by simp
  then obtain b0 b1 where "?bs = [b0, b1]" using two_list by blast
  then show ?thesis
    using assms aspect_bits [of b1]
    by (auto simp: standard_timing_at_def byte_range_def STANDARD_TIMINGS_OFFSET_def STANDARD_TIMING_LEN_def
        standard_timing_parse_def Let_def get_def)
qed

lemma collect_total:
  assumes "length (edid_data e) = 1024" and "\<forall>i \<in> set is. i < 8"
  shows "\<exists>rs. collect_timings is e = Some rs \<and> length rs \<le> length is"
  using assms
proof (induction "is")
  case (Cons i js)
  then obtain t rs where "standard_timing_at i e = Some t" "collect_timings js e = Some rs" "length rs \<le> length js"
    using standard_timing_total [of e i] by auto
  then show ?case by (cases t) auto
qed simp

text \<open>The 18 bytes that stand for a mode, as the standard lays them out.\<close>

definition dtd_bytes :: "u16 \<Rightarrow> u32 \<Rightarrow> u32 \<Rightarrow> u32 \<Rightarrow> u32 \<Rightarrow> u8 list \<Rightarrow> u8 list" where
  "dtd_bytes clock ha hb va vb rest =
     le16 clock @ [ucast ha, ucast hb, push_bit 4 (ucast (drop_bit 8 ha)) OR ucast (drop_bit 8 hb),
       ucast va, ucast vb, push_bit 4 (ucast (drop_bit 8 va)) OR ucast (drop_bit 8 vb)] @ rest"

lemma twelve_bits:
  assumes "(w :: u32) < 0x1000" and "bit w n"
  shows "n < 12"
proof (rule ccontr)
  assume "\<not> n < 12"
  then have "(2 :: nat) ^ 12 \<le> 2 ^ n" by (intro power_increasing) simp_all
  moreover have "unat w < 2 ^ 12" using assms(1) by (simp add: word_less_nat_alt)
  ultimately have "unat w div 2 ^ n = 0" by simp
  with assms(2) show False by (simp add: bit_word_odd)
qed

lemma high_nibble:
  fixes a b :: u32
  assumes "a < 0x1000" and "b < 0x1000"
  shows "ucast (ucast a :: u8) OR push_bit 4 (ucast (push_bit 4 (ucast (drop_bit 8 a)) OR ucast (drop_bit 8 b) :: u8) AND 0xF0) = a"
    and "ucast (ucast b :: u8) OR push_bit 8 (ucast (push_bit 4 (ucast (drop_bit 8 a)) OR ucast (drop_bit 8 b) :: u8) AND 0x0F) = b"
proof -
  have m: "(0xF0 :: u32) = push_bit 4 (mask 4)" "(0x0F :: u32) = mask 4" by (simp_all add: mask_eq_exp_minus_1)
  show "ucast (ucast a :: u8) OR push_bit 4 (ucast (push_bit 4 (ucast (drop_bit 8 a)) OR ucast (drop_bit 8 b) :: u8) AND 0xF0) = a"
    unfolding m by (intro bit_word_eqI) (auto simp: bit_simps dest: twelve_bits [OF assms(1)] twelve_bits [OF assms(2)])
  show "ucast (ucast b :: u8) OR push_bit 8 (ucast (push_bit 4 (ucast (drop_bit 8 a)) OR ucast (drop_bit 8 b) :: u8) AND 0x0F) = b"
    unfolding m by (intro bit_word_eqI) (auto simp: bit_simps dest: twelve_bits [OF assms(1)] twelve_bits [OF assms(2)])
qed

text \<open>
  A mode survives its encoding: the parser gives back every mode with nonzero active sizes below
  4096 and a nonzero pixel clock, in hertz and without wrap-around.
\<close>

theorem edid_modes:
  assumes "ha < 0x1000" "hb < 0x1000" "va < 0x1000" "vb < 0x1000" and "ha \<noteq> 0" "va \<noteq> 0" "clock \<noteq> 0"
  shows "\<exists>t. detailed_timing_parse (dtd_bytes clock ha hb va vb rest) = Some t \<and> h_active t = ha \<and> h_blank t = hb
      \<and> v_active t = va \<and> v_blank t = vb \<and> unat (pixel_clock_hz t) = unat clock * 10000"
proof -
  let ?bs = "dtd_bytes clock ha hb va vb rest"
  have le: "from_le [le16 clock ! 0, le16 clock ! 1] = from_le (le16 clock)"
    using two_list [of "le16 clock"] by auto
  have c0: "from_le [?bs ! 0, ?bs ! 1] = from_le (le16 clock)"
    using le by (simp add: dtd_bytes_def nth_append)
  have clk: "unat (ucast clock :: u32) = unat clock" by (rule unat_ucast_up) simp
  have nz: "(ucast clock :: u32) \<noteq> 0" using assms(7) clk by (metis unat_0 unat_eq_0)
  have mult: "unat (ucast clock * 10000 :: u32) = unat clock * 10000"
    using unat_u16_lt [of clock] by (subst unat_mult_lt) (simp_all add: clk)
  have bytes: "?bs ! 2 = ucast ha" "?bs ! 3 = ucast hb"
    "?bs ! 4 = push_bit 4 (ucast (drop_bit 8 ha)) OR ucast (drop_bit 8 hb)" "?bs ! 5 = ucast va" "?bs ! 6 = ucast vb"
    "?bs ! 7 = push_bit 4 (ucast (drop_bit 8 va)) OR ucast (drop_bit 8 vb)"
    by (simp_all add: dtd_bytes_def nth_append)
  show ?thesis
    using assms(5,6) nz mult
    unfolding detailed_timing_parse_def Let_def c0 bytes high_nibble [OF assms(1,2)] high_nibble [OF assms(3,4)]
    by simp
qed

theorem edid_modes_witness:
  "\<exists>t. detailed_timing_parse (dtd_bytes 21714 1920 672 1080 37 []) = Some t \<and> h_active t = 1920 \<and> h_blank t = 672
      \<and> v_active t = 1080 \<and> v_blank t = 37 \<and> unat (pixel_clock_hz t) = 217140000"
  using edid_modes [of 1920 672 1080 37 21714 "[]"] by simp

text \<open>
  On any 1024 bytes the preferred mode and the list of standard modes are found without a panic; there
  are at most eight standard modes, largest first.
\<close>

lemma edid_total:
  assumes "length (edid_data e) = 1024"
  shows "(\<exists>r. preferred_resolution e = Some r)
    \<and> (\<exists>rs. standard_timings e = Some rs \<and> length rs \<le> 8
        \<and> sorted_wrt (\<lambda>a b. pixel_count b \<le> pixel_count a) rs)"
proof -
  obtain rs where rs: "collect_timings [0..<8] e = Some rs" "length rs \<le> 8"
    using collect_total [OF assms, of "[0..<8]"] by auto
  have "sorted_wrt (\<lambda>a b. pixel_count b \<le> pixel_count a) (sort_key (\<lambda>r. - int (unat (pixel_count r))) rs)"
    using sorted_sort_key [of "\<lambda>r. - int (unat (pixel_count r))" rs]
    by (simp add: sorted_map word_le_def)
  with rs assms show ?thesis
    by (auto simp: standard_timings_def NUM_STANDARD_TIMINGS_def preferred_resolution_def preferred_timing_def
        first_detailed_timing_def byte_range_def DTD1_OFFSET_def DTD_LEN_def)
qed

end
