(* ===== verification/Exchange.thy ===== *)
theory Exchange
  imports Device_Common
begin

text \<open>
  Blocking requests (\<open>VirtQueue::add_notify_wait_pop\<close> of \<open>src/virtio-drivers/src/queue.rs\<close>) as the drivers use them: the
  bytes of some messages go to the device, and the driver waits for the device to fill the buffers of the answer.
\<close>

text \<open>Messages lie one after the other in a frame on the stack.\<close>

fun frame_slices :: "u64 \<Rightarrow> u8 list list \<Rightarrow> slice list" where
  "frame_slices p [] = []"
| "frame_slices p (b # bs) = \<lparr>slice_ptr = p, slice_len = of_nat (length b)\<rparr> # frame_slices (p + of_nat (length b)) bs"

definition stack_exchange :: "'h hal \<Rightarrow> 't transport \<Rightarrow> (virt_queue \<Rightarrow> virt_queue) \<Rightarrow> u8 list list \<Rightarrow> u8 list list
    \<Rightarrow> virt_queue \<Rightarrow> 't \<Rightarrow> 'h \<Rightarrow> ((u32 \<times> u8 list list) result \<times> virt_queue \<times> 't \<times> 'h) option" where
  "stack_exchange hal tr device ins outs q t h = do {
     let all = ins @ outs;
     let p = stack_slot hal (length (concat all)) h;
     let h = mem_store hal p (concat all) h;
     let slices = frame_slices p all;
     let inputs = take (length ins) slices;
     let outputs = drop (length ins) slices;
     (r, q, t, h) \<leftarrow> add_notify_wait_pop hal tr device inputs outputs q t h;
     (case r of
        Inl e \<Rightarrow> Some (Inl e, q, t, h)
      | Inr n \<Rightarrow> Some (Inr (n, map (\<lambda>s. mem_load hal s h) outputs), q, t, h))
   }"

text \<open>
  The drivers with one queue and blocking requests only see the exchange: the bytes to send, the initial contents of the
  buffers for the answer, and what comes back. \<open>queue_exchange\<close> is the exchange of the code.
\<close>

type_synonym 'w exchange = "u8 list list \<Rightarrow> u8 list list \<Rightarrow> 'w \<Rightarrow> ((u32 \<times> u8 list list) result \<times> 'w) option"

record ('t, 'h) device_world =
  world_transport :: 't
  world_queue :: virt_queue
  world_platform :: 'h

definition queue_exchange :: "'h hal \<Rightarrow> 't transport \<Rightarrow> (virt_queue \<Rightarrow> virt_queue) \<Rightarrow> ('t, 'h) device_world exchange" where
  "queue_exchange hal tr device ins outs w = do {
     (r, q, t, h) \<leftarrow> stack_exchange hal tr device ins outs (world_queue w) (world_transport w) (world_platform w);
     Some (r, w\<lparr>world_queue := q, world_transport := t, world_platform := h\<rparr>)
   }"

end
