(* ===== verification/Virt_Gpu.thy ===== *)
theory Virt_Gpu
  imports Gpu_Protocol Edid Exchange
begin

text \<open>
  The driver of the graphics device (\<open>VirtIOGpu\<close> of \<open>src/virtio-drivers/src/device/gpu/mod.rs\<close>).

  The operations talk to the device through two blocking requests, one on each queue, and to the platform through
  the allocation of DMA memory. These are the operations of an environment, the record \<open>gpu_env\<close> over a state
  \<open>'w\<close>; \<open>queue_env\<close> is the environment of the code, in which a request puts the messages on
  the stack and calls \<open>add_notify_wait_pop\<close> on the queue.
\<close>

section \<open>The environment\<close>

text \<open>
  \<open>exchange_control ins outs\<close> sends the buffers \<open>ins\<close> and waits for the answer into buffers with the
  initial contents \<open>outs\<close>; it gives the number of bytes the device wrote and the contents of the buffers.
\<close>

record 'w gpu_env =
  exchange_control :: "u8 list list \<Rightarrow> u8 list list \<Rightarrow> 'w \<Rightarrow> ((u32 \<times> u8 list list) result \<times> 'w) option"
  exchange_cursor :: "u8 list list \<Rightarrow> u8 list list \<Rightarrow> 'w \<Rightarrow> ((u32 \<times> u8 list list) result \<times> 'w) option"
  env_dma_new :: "u64 \<Rightarrow> buffer_direction \<Rightarrow> bool \<Rightarrow> 'w \<Rightarrow> dma result \<times> 'w"
  env_dma_drop :: "dma \<Rightarrow> 'w \<Rightarrow> 'w option"
  env_store :: "u64 \<Rightarrow> u8 list \<Rightarrow> 'w \<Rightarrow> 'w"
  env_ack_interrupt :: "'w \<Rightarrow> u32 \<times> 'w"
  env_queue_unset :: "u16 \<Rightarrow> 'w \<Rightarrow> 'w"

record ('t, 'h) gpu_world =
  gpu_transport :: 't
  control_queue :: virt_queue
  cursor_queue :: virt_queue
  platform :: 'h

definition queue_env :: "'h hal \<Rightarrow> 't transport \<Rightarrow> (virt_queue \<Rightarrow> virt_queue) \<Rightarrow> (virt_queue \<Rightarrow> virt_queue)
    \<Rightarrow> ('t, 'h) gpu_world gpu_env" where
  "queue_env hal tr control_device cursor_device =
     \<lparr>exchange_control = (\<lambda>ins outs w. do {
        (r, q, t, h) \<leftarrow> stack_exchange hal tr control_device ins outs (control_queue w) (gpu_transport w) (platform w);
        Some (r, w\<lparr>control_queue := q, gpu_transport := t, platform := h\<rparr>) }),
      exchange_cursor = (\<lambda>ins outs w. do {
        (r, q, t, h) \<leftarrow> stack_exchange hal tr cursor_device ins outs (cursor_queue w) (gpu_transport w) (platform w);
        Some (r, w\<lparr>cursor_queue := q, gpu_transport := t, platform := h\<rparr>) }),
      env_dma_new = (\<lambda>n d ap w. let (r, h) = dma_new hal n d ap (platform w) in (r, w\<lparr>platform := h\<rparr>)),
      env_dma_drop = (\<lambda>d w. do { h \<leftarrow> dma_drop hal d (platform w); Some (w\<lparr>platform := h\<rparr>) }),
      env_store = (\<lambda>p bs w. w\<lparr>platform := mem_store hal p bs (platform w)\<rparr>),
      env_ack_interrupt = (\<lambda>w. let (s, t) = ack_interrupt tr (gpu_transport w) in (s, w\<lparr>gpu_transport := t\<rparr>)),
      env_queue_unset = (\<lambda>i w. w\<lparr>gpu_transport := queue_unset tr i (gpu_transport w)\<rparr>)\<rparr>"

section \<open>The driver\<close>

record virtio_gpu =
  gpu_rect :: "rect option"
  frame_buffer_dma :: "dma option"
  cursor_buffer_dma :: "dma option"
  has_edid :: bool
  gpu_access_platform :: bool
  has_virgl :: bool
  has_resource_blob :: bool

definition GPU_QUEUE_SIZE :: nat where "GPU_QUEUE_SIZE = 16"

definition gpu_supported_features :: u64 where
  "gpu_supported_features = RING_EVENT_IDX OR RING_INDIRECT_DESC OR VERSION_1 OR ACCESS_PLATFORM OR EDID OR VIRGL
     OR CONTEXT_INIT OR RESOURCE_BLOB"

text \<open>The three reads of configuration space at the start; their values are only logged.\<close>

definition read_gpu_config :: "'t transport \<Rightarrow> 't \<Rightarrow> unit result \<times> 't" where
  "read_gpu_config tr t =
     (case read_config tr 0 4 t of (Inl e, t) \<Rightarrow> (Inl e, t)
      | (Inr (events_read :: u32), t) \<Rightarrow>
        (case read_config tr 8 4 t of (Inl e, t) \<Rightarrow> (Inl e, t)
         | (Inr (num_scanouts :: u32), t) \<Rightarrow>
           (case read_config tr 12 4 t of (Inl e, t) \<Rightarrow> (Inl e, t)
            | (Inr (num_capsets :: u32), t) \<Rightarrow> (Inr (), t))))"

definition gpu_new :: "'h hal \<Rightarrow> 't transport \<Rightarrow> 't \<Rightarrow> 'h
    \<Rightarrow> ((virtio_gpu \<times> ('t, 'h) gpu_world) result \<times> 't \<times> 'h) option" where
  "gpu_new hal tr t h = do {
     let (negotiated, t) = begin_init tr gpu_features gpu_supported_features t;
     let (r, t) = read_gpu_config tr t;
     (case r of Inl e \<Rightarrow> Some (Inl e, t, h) | Inr _ \<Rightarrow> do {
       (r, t, h) \<leftarrow> features_queue hal tr GPU_QUEUE_SIZE QUEUE_TRANSMIT negotiated t h;
       (case r of Inl e \<Rightarrow> Some (Inl e, t, h) | Inr control \<Rightarrow> do {
         (r, t, h) \<leftarrow> features_queue hal tr GPU_QUEUE_SIZE QUEUE_CURSOR negotiated t h;
         (case r of Inl e \<Rightarrow> do { h \<leftarrow> queue_drop hal control h; Some (Inl e, t, h) } | Inr cursor \<Rightarrow> do {
           let t = finish_init tr t;
           Some (Inr (\<lparr>gpu_rect = None, frame_buffer_dma = None, cursor_buffer_dma = None,
               has_edid = contains negotiated EDID, gpu_access_platform = contains negotiated ACCESS_PLATFORM,
               has_virgl = contains negotiated VIRGL, has_resource_blob = contains negotiated RESOURCE_BLOB\<rparr>,
             \<lparr>gpu_transport = t, control_queue = control, cursor_queue = cursor, platform = h\<rparr>), t, h)
         })
       })
     })
   }"

definition gpu_ack_interrupt :: "'w gpu_env \<Rightarrow> 'w \<Rightarrow> u32 \<times> 'w" where
  "gpu_ack_interrupt env w = env_ack_interrupt env w"

definition gpu_drop :: "'w gpu_env \<Rightarrow> 'w \<Rightarrow> 'w" where
  "gpu_drop env w = env_queue_unset env QUEUE_CURSOR (env_queue_unset env QUEUE_TRANSMIT w)"

section \<open>Requests\<close>

definition zeroed :: "nat \<Rightarrow> u8 list" where "zeroed n = replicate n 0"

text \<open>An answer is the contents of a buffer of its size, so reading it cannot fail.\<close>

definition gpu_request :: "'w gpu_env \<Rightarrow> u8 list \<Rightarrow> nat \<Rightarrow> 'w \<Rightarrow> (u8 list result \<times> 'w) option" where
  "gpu_request env req rsp_size w = do {
     (r, w) \<leftarrow> exchange_control env [req] [zeroed rsp_size] w;
     (case r of Inl e \<Rightarrow> Some (Inl e, w) | Inr (_, outs) \<Rightarrow> do { rsp \<leftarrow> get outs 0; Some (Inr rsp, w) })
   }"

definition request_with_extra_response :: "'w gpu_env \<Rightarrow> u8 list \<Rightarrow> nat \<Rightarrow> u8 list \<Rightarrow> 'w
    \<Rightarrow> ((u8 list \<times> u8 list \<times> nat) result \<times> 'w) option" where
  "request_with_extra_response env req rsp_size extra w = do {
     (r, w) \<leftarrow> exchange_control env [req] [zeroed rsp_size, extra] w;
     (case r of Inl e \<Rightarrow> Some (Inl e, w)
      | Inr (written, outs) \<Rightarrow> do {
          rsp \<leftarrow> get outs 0;
          extra_response \<leftarrow> get outs 1;
          Some (Inr (rsp, extra_response, min (unat written - rsp_size) (length extra_response)), w)
        })
   }"

definition cursor_request :: "'w gpu_env \<Rightarrow> u8 list \<Rightarrow> 'w \<Rightarrow> (unit result \<times> 'w) option" where
  "cursor_request env req w = do {
     (r, w) \<leftarrow> exchange_cursor env [req] [] w;
     (case r of Inl e \<Rightarrow> Some (Inl e, w) | Inr _ \<Rightarrow> Some (Inr (), w))
   }"

definition request_with_data :: "'w gpu_env \<Rightarrow> u8 list \<Rightarrow> u8 list \<Rightarrow> nat \<Rightarrow> 'w \<Rightarrow> (u8 list result \<times> 'w) option" where
  "request_with_data env req data rsp_size w = do {
     (r, w) \<leftarrow> (if data = [] then exchange_control env [req] [zeroed rsp_size] w
                else exchange_control env [req, data] [zeroed rsp_size] w);
     (case r of Inl e \<Rightarrow> Some (Inl e, w) | Inr (_, outs) \<Rightarrow> do { rsp \<leftarrow> get outs 0; Some (Inr rsp, w) })
   }"

text \<open>The end that most operations share: the answer is a header of the expected type.\<close>

definition expect_header :: "u32 \<Rightarrow> u8 list result \<Rightarrow> unit result option" where
  "expect_header expected r =
     (case r of Inl e \<Rightarrow> Some (Inl e)
      | Inr rsp \<Rightarrow> do { hdr \<leftarrow> ctrl_from_prefix rsp; Some (check_type hdr expected) })"

definition simple_request :: "'w gpu_env \<Rightarrow> u8 list \<Rightarrow> 'w \<Rightarrow> (unit result \<times> 'w) option" where
  "simple_request env req w = do {
     (r, w) \<leftarrow> gpu_request env req CTRL_SIZE w;
     r \<leftarrow> expect_header OK_NODATA r;
     Some (r, w)
   }"

definition get_display_info :: "'w gpu_env \<Rightarrow> 'w \<Rightarrow> (resp_display_info result \<times> 'w) option" where
  "get_display_info env w = do {
     (r, w) \<leftarrow> gpu_request env (gpu_2d_bytes (CmdHeader (with_type GET_DISPLAY_INFO))) DISPLAY_INFO_SIZE w;
     (case r of Inl e \<Rightarrow> Some (Inl e, w)
      | Inr rsp \<Rightarrow> do {
          info \<leftarrow> display_info_from rsp;
          Some (case check_type (di_header info) OK_DISPLAY_INFO of Inl e \<Rightarrow> Inl e | Inr _ \<Rightarrow> Inr info, w)
        })
   }"

definition resource_create_2d :: "'w gpu_env \<Rightarrow> u32 \<Rightarrow> u32 \<Rightarrow> u32 \<Rightarrow> 'w \<Rightarrow> (unit result \<times> 'w) option" where
  "resource_create_2d env rid width height w =
     simple_request env (gpu_2d_bytes (ResourceCreate2D (with_type RESOURCE_CREATE_2D) rid B8G8R8A8UNORM width height)) w"

definition set_scanout :: "'w gpu_env \<Rightarrow> rect \<Rightarrow> u32 \<Rightarrow> u32 \<Rightarrow> 'w \<Rightarrow> (unit result \<times> 'w) option" where
  "set_scanout env r scanout rid w =
     simple_request env (gpu_2d_bytes (SetScanout (with_type SET_SCANOUT) r scanout rid)) w"

definition resource_flush :: "'w gpu_env \<Rightarrow> rect \<Rightarrow> u32 \<Rightarrow> 'w \<Rightarrow> (unit result \<times> 'w) option" where
  "resource_flush env r rid w = simple_request env (gpu_2d_bytes (ResourceFlush (with_type RESOURCE_FLUSH) r rid)) w"

definition transfer_to_host_2d :: "'w gpu_env \<Rightarrow> rect \<Rightarrow> u64 \<Rightarrow> u32 \<Rightarrow> 'w \<Rightarrow> (unit result \<times> 'w) option" where
  "transfer_to_host_2d env r offset rid w =
     simple_request env (gpu_2d_bytes (TransferToHost2D (with_type TRANSFER_TO_HOST_2D) r offset rid)) w"

definition resource_attach_backing :: "'w gpu_env \<Rightarrow> u32 \<Rightarrow> u64 \<Rightarrow> u32 \<Rightarrow> 'w \<Rightarrow> (unit result \<times> 'w) option" where
  "resource_attach_backing env rid paddr n w =
     simple_request env (gpu_2d_bytes (ResourceAttachBackingSingleEntry (with_type RESOURCE_ATTACH_BACKING) rid 1
       \<lparr>me_addr = paddr, me_length = n\<rparr>)) w"

definition resource_detach_backing :: "'w gpu_env \<Rightarrow> u32 \<Rightarrow> 'w \<Rightarrow> (unit result \<times> 'w) option" where
  "resource_detach_backing env rid w =
     simple_request env (gpu_2d_bytes (ResourceDetachBacking (with_type RESOURCE_DETACH_BACKING) rid)) w"

definition resource_unref :: "'w gpu_env \<Rightarrow> u32 \<Rightarrow> 'w \<Rightarrow> (unit result \<times> 'w) option" where
  "resource_unref env rid w = simple_request env (gpu_2d_bytes (ResourceUnref (with_type RESOURCE_UNREF) rid)) w"

definition update_cursor :: "'w gpu_env \<Rightarrow> u32 \<Rightarrow> u32 \<Rightarrow> u32 \<Rightarrow> u32 \<Rightarrow> u32 \<Rightarrow> u32 \<Rightarrow> bool \<Rightarrow> 'w
    \<Rightarrow> (unit result \<times> 'w) option" where
  "update_cursor env rid scanout pos_x pos_y hot_x hot_y is_move w =
     cursor_request env (gpu_cursor_bytes (UpdateCursor
       (if is_move then with_type MOVE_CURSOR else with_type UPDATE_CURSOR)
       \<lparr>cp_scanout_id = scanout, cp_x = pos_x, cp_y = pos_y\<rparr> rid hot_x hot_y)) w"

section \<open>Display\<close>

definition resolution :: "'w gpu_env \<Rightarrow> 'w \<Rightarrow> ((u32 \<times> u32) result \<times> 'w) option" where
  "resolution env w = do {
     (r, w) \<leftarrow> get_display_info env w;
     (case r of Inl e \<Rightarrow> Some (Inl e, w)
      | Inr info \<Rightarrow> do {
          m \<leftarrow> get (pmodes info) 0;
          Some (Inr (rect_width (mode_rect m), rect_height (mode_rect m)), w)
        })
   }"

definition get_edid :: "'w gpu_env \<Rightarrow> u32 \<Rightarrow> virtio_gpu \<Rightarrow> 'w \<Rightarrow> (edid result \<times> 'w) option" where
  "get_edid env scanout g w =
     (if \<not> has_edid g then Some (Inl Unsupported, w)
      else do {
        (r, w) \<leftarrow> gpu_request env (gpu_2d_bytes (CmdGetEdid (with_type GET_EDID) scanout)) RESP_EDID_SIZE w;
        (case r of Inl e \<Rightarrow> Some (Inl e, w)
         | Inr bs \<Rightarrow> do {
             rsp \<leftarrow> resp_edid_from bs;
             Some (case check_type (re_header rsp) OK_EDID of Inl e \<Rightarrow> Inl e
                   | Inr _ \<Rightarrow> Inr \<lparr>edid_data = re_edid rsp, edid_size = re_size rsp\<rparr>, w)
           })
      })"

definition edid_preferred_resolution :: "'w gpu_env \<Rightarrow> virtio_gpu \<Rightarrow> 'w \<Rightarrow> ((u32 \<times> u32) result \<times> 'w) option" where
  "edid_preferred_resolution env g w = do {
     (r, w) \<leftarrow> get_edid env SCANOUT_ID g w;
     (case r of Inl e \<Rightarrow> Some (Inl e, w) | Inr ed \<Rightarrow> do { r \<leftarrow> preferred_resolution ed; Some (r, w) })
   }"

definition edid_supported_resolutions :: "'w gpu_env \<Rightarrow> virtio_gpu \<Rightarrow> 'w \<Rightarrow> ((u32 \<times> u32) list result \<times> 'w) option" where
  "edid_supported_resolutions env g w = do {
     (r, w) \<leftarrow> get_edid env SCANOUT_ID g w;
     (case r of Inl e \<Rightarrow> Some (Inl e, w) | Inr ed \<Rightarrow> do { ts \<leftarrow> standard_timings ed; Some (Inr ts, w) })
   }"

text \<open>The first part of \<open>change_resolution\<close>: the existing frame buffer is taken down, then its memory is freed.\<close>

definition tear_down :: "'w gpu_env \<Rightarrow> virtio_gpu \<Rightarrow> 'w \<Rightarrow> (unit result \<times> virtio_gpu \<times> 'w) option" where
  "tear_down env g w =
     (case frame_buffer_dma g of
        None \<Rightarrow> Some (Inr (), g, w)
      | Some old \<Rightarrow> do {
          (r, w) \<leftarrow> set_scanout env rect_default SCANOUT_ID 0 w;
          (case r of Inl e \<Rightarrow> Some (Inl e, g, w) | Inr _ \<Rightarrow> do {
            (r, w) \<leftarrow> resource_detach_backing env RESOURCE_ID_FB w;
            (case r of Inl e \<Rightarrow> Some (Inl e, g, w) | Inr _ \<Rightarrow> do {
              (r, w) \<leftarrow> resource_unref env RESOURCE_ID_FB w;
              (case r of Inl e \<Rightarrow> Some (Inl e, g, w) | Inr _ \<Rightarrow> do {
                w \<leftarrow> env_dma_drop env old w;
                Some (Inr (), g\<lparr>frame_buffer_dma := None\<rparr>, w)
              })
            })
          })
        })"

text \<open>
  An error after the allocation drops the local \<open>frame_buffer_dma\<close> on return, which frees the memory.
\<close>

definition change_resolution :: "'w gpu_env \<Rightarrow> u32 \<Rightarrow> u32 \<Rightarrow> virtio_gpu \<Rightarrow> 'w
    \<Rightarrow> (slice result \<times> virtio_gpu \<times> 'w) option" where
  "change_resolution env width height g w = do {
     let r0 = \<lparr>rect_x = 0, rect_y = 0, rect_width = width, rect_height = height\<rparr>;
     (r, g, w) \<leftarrow> tear_down env g w;
     (case r of Inl e \<Rightarrow> Some (Inl e, g, w) | Inr _ \<Rightarrow> do {
       let g = g\<lparr>gpu_rect := Some r0\<rparr>;
       (r, w) \<leftarrow> resource_create_2d env RESOURCE_ID_FB width height w;
       (case r of Inl e \<Rightarrow> Some (Inl e, g, w) | Inr _ \<Rightarrow> do {
         let sz = width * height * 4;
         let (r, w) = env_dma_new env (pages (ucast sz)) DriverToDevice (gpu_access_platform g) w;
         (case r of Inl e \<Rightarrow> Some (Inl e, g, w) | Inr d \<Rightarrow> do {
           (r, w) \<leftarrow> resource_attach_backing env RESOURCE_ID_FB (dma_paddr d) sz w;
           (case r of Inl e \<Rightarrow> do { w \<leftarrow> env_dma_drop env d w; Some (Inl e, g, w) } | Inr _ \<Rightarrow> do {
             (r, w) \<leftarrow> set_scanout env r0 SCANOUT_ID RESOURCE_ID_FB w;
             (case r of Inl e \<Rightarrow> do { w \<leftarrow> env_dma_drop env d w; Some (Inl e, g, w) } | Inr _ \<Rightarrow> do {
               buf \<leftarrow> raw_slice d;
               Some (Inr buf, g\<lparr>frame_buffer_dma := Some d\<rparr>, w)
             })
           })
         })
       })
     })
   }"

definition setup_framebuffer :: "'w gpu_env \<Rightarrow> virtio_gpu \<Rightarrow> 'w \<Rightarrow> (slice result \<times> virtio_gpu \<times> 'w) option" where
  "setup_framebuffer env g w = do {
     (r, w) \<leftarrow> get_display_info env w;
     (case r of Inl e \<Rightarrow> Some (Inl e, g, w)
      | Inr info \<Rightarrow> do {
          m \<leftarrow> get (pmodes info) 0;
          change_resolution env (rect_width (mode_rect m)) (rect_height (mode_rect m)) g w
        })
   }"

definition gpu_flush :: "'w gpu_env \<Rightarrow> virtio_gpu \<Rightarrow> 'w \<Rightarrow> (unit result \<times> 'w) option" where
  "gpu_flush env g w =
     (case gpu_rect g of None \<Rightarrow> Some (Inl NotReady, w)
      | Some r0 \<Rightarrow> do {
          (r, w) \<leftarrow> transfer_to_host_2d env r0 0 RESOURCE_ID_FB w;
          (case r of Inl e \<Rightarrow> Some (Inl e, w) | Inr _ \<Rightarrow> resource_flush env r0 RESOURCE_ID_FB w)
        })"

text \<open>The commands of \<open>setup_cursor\<close> after the image was copied; replacing the old buffer frees it.\<close>

definition cursor_commands :: "'w gpu_env \<Rightarrow> dma \<Rightarrow> u32 \<Rightarrow> u32 \<Rightarrow> u32 \<Rightarrow> u32 \<Rightarrow> u32 \<Rightarrow> 'w \<Rightarrow> (unit result \<times> 'w) option" where
  "cursor_commands env d sz pos_x pos_y hot_x hot_y w = do {
     (r, w) \<leftarrow> resource_create_2d env RESOURCE_ID_CURSOR (rect_width CURSOR_RECT) (rect_height CURSOR_RECT) w;
     (case r of Inl e \<Rightarrow> Some (Inl e, w) | Inr _ \<Rightarrow> do {
       (r, w) \<leftarrow> resource_attach_backing env RESOURCE_ID_CURSOR (dma_paddr d) sz w;
       (case r of Inl e \<Rightarrow> Some (Inl e, w) | Inr _ \<Rightarrow> do {
         (r, w) \<leftarrow> transfer_to_host_2d env CURSOR_RECT 0 RESOURCE_ID_CURSOR w;
         (case r of Inl e \<Rightarrow> Some (Inl e, w)
          | Inr _ \<Rightarrow> update_cursor env RESOURCE_ID_CURSOR SCANOUT_ID pos_x pos_y hot_x hot_y False w)
       })
     })
   }"

definition setup_cursor :: "'w gpu_env \<Rightarrow> u8 list \<Rightarrow> u32 \<Rightarrow> u32 \<Rightarrow> u32 \<Rightarrow> u32 \<Rightarrow> virtio_gpu \<Rightarrow> 'w
    \<Rightarrow> (unit result \<times> virtio_gpu \<times> 'w) option" where
  "setup_cursor env cursor_image pos_x pos_y hot_x hot_y g w = do {
     let sz = rect_width CURSOR_RECT * rect_height CURSOR_RECT * 4;
     if length cursor_image \<noteq> unat sz then Some (Inl InvalidParam, g, w)
     else do {
       let (r, w) = env_dma_new env (pages (ucast sz)) DriverToDevice (gpu_access_platform g) w;
       (case r of Inl e \<Rightarrow> Some (Inl e, g, w) | Inr d \<Rightarrow> do {
         buf \<leftarrow> raw_slice d;
         assert (unat (slice_len buf) = length cursor_image);
         let w = env_store env (slice_ptr buf) cursor_image w;
         (r, w) \<leftarrow> cursor_commands env d sz pos_x pos_y hot_x hot_y w;
         (case r of
            Inl e \<Rightarrow> do { w \<leftarrow> env_dma_drop env d w; Some (Inl e, g, w) }
          | Inr _ \<Rightarrow> do {
              w \<leftarrow> (case cursor_buffer_dma g of None \<Rightarrow> Some w | Some old \<Rightarrow> env_dma_drop env old w);
              Some (Inr (), g\<lparr>cursor_buffer_dma := Some d\<rparr>, w)
            })
       })
     }
   }"

definition move_cursor :: "'w gpu_env \<Rightarrow> u32 \<Rightarrow> u32 \<Rightarrow> 'w \<Rightarrow> (unit result \<times> 'w) option" where
  "move_cursor env pos_x pos_y w = update_cursor env RESOURCE_ID_CURSOR SCANOUT_ID pos_x pos_y 0 0 True w"

section \<open>Three-dimensional mode\<close>

definition require_virgl :: "virtio_gpu \<Rightarrow> unit result" where
  "require_virgl g = (if has_virgl g then Inr () else Inl IoError)"

text \<open>An operation that needs the feature and otherwise is one request.\<close>

definition virgl_request :: "'w gpu_env \<Rightarrow> u8 list \<Rightarrow> virtio_gpu \<Rightarrow> 'w \<Rightarrow> (unit result \<times> 'w) option" where
  "virgl_request env req g w =
     (case require_virgl g of Inl e \<Rightarrow> Some (Inl e, w) | Inr _ \<Rightarrow> simple_request env req w)"

definition get_capset_info :: "'w gpu_env \<Rightarrow> u32 \<Rightarrow> virtio_gpu \<Rightarrow> 'w \<Rightarrow> (resp_capset_info result \<times> 'w) option" where
  "get_capset_info env index g w =
     (case require_virgl g of Inl e \<Rightarrow> Some (Inl e, w)
      | Inr _ \<Rightarrow> do {
          (r, w) \<leftarrow> gpu_request env (gpu_3d_bytes (CmdGetCapsetInfo (with_type GET_CAPSET_INFO) index)) CAPSET_INFO_SIZE w;
          (case r of Inl e \<Rightarrow> Some (Inl e, w)
           | Inr bs \<Rightarrow> do {
               rsp \<leftarrow> capset_info_from bs;
               Some (case check_type (rc_header rsp) OK_CAPSET_INFO of Inl e \<Rightarrow> Inl e | Inr _ \<Rightarrow> Inr rsp, w)
             })
        })"

definition get_capset :: "'w gpu_env \<Rightarrow> u32 \<Rightarrow> u32 \<Rightarrow> u32 \<Rightarrow> virtio_gpu \<Rightarrow> 'w \<Rightarrow> (u8 list result \<times> 'w) option" where
  "get_capset env capset_id version sz g w =
     (case require_virgl g of Inl e \<Rightarrow> Some (Inl e, w)
      | Inr _ \<Rightarrow> do {
          let extra = zeroed (unat sz);
          (r, w) \<leftarrow> request_with_extra_response env
            (gpu_3d_bytes (CmdGetCapset (with_type GET_CAPSET) capset_id version)) CTRL_SIZE extra w;
          (case r of Inl e \<Rightarrow> Some (Inl e, w)
           | Inr (rsp, extra_response, n) \<Rightarrow> do {
               hdr \<leftarrow> ctrl_from_prefix rsp;
               Some (case check_type hdr OK_CAPSET of Inl e \<Rightarrow> Inl e | Inr _ \<Rightarrow> Inr (take n extra_response), w)
             })
        })"

definition ctx_create :: "'w gpu_env \<Rightarrow> u32 \<Rightarrow> u8 list \<Rightarrow> u32 \<Rightarrow> virtio_gpu \<Rightarrow> 'w \<Rightarrow> (unit result \<times> 'w) option" where
  "ctx_create env ctx name context_init g w =
     (let nlen = min (length name) 64;
          debug_name = take nlen name @ replicate (64 - nlen) 0
      in virgl_request env
           (gpu_3d_bytes (CmdCtxCreate (with_type_and_ctx CTX_CREATE ctx) (of_nat nlen) context_init debug_name)) g w)"

definition ctx_destroy :: "'w gpu_env \<Rightarrow> u32 \<Rightarrow> virtio_gpu \<Rightarrow> 'w \<Rightarrow> (unit result \<times> 'w) option" where
  "ctx_destroy env ctx g w = virgl_request env (gpu_2d_bytes (CmdHeader (with_type_and_ctx CTX_DESTROY ctx))) g w"

definition ctx_attach_resource :: "'w gpu_env \<Rightarrow> u32 \<Rightarrow> u32 \<Rightarrow> virtio_gpu \<Rightarrow> 'w \<Rightarrow> (unit result \<times> 'w) option" where
  "ctx_attach_resource env ctx rid g w =
     virgl_request env (gpu_3d_bytes (CmdCtxResource (with_type_and_ctx CTX_ATTACH_RESOURCE ctx) rid)) g w"

definition ctx_detach_resource :: "'w gpu_env \<Rightarrow> u32 \<Rightarrow> u32 \<Rightarrow> virtio_gpu \<Rightarrow> 'w \<Rightarrow> (unit result \<times> 'w) option" where
  "ctx_detach_resource env ctx rid g w =
     virgl_request env (gpu_3d_bytes (CmdCtxResource (with_type_and_ctx CTX_DETACH_RESOURCE ctx) rid)) g w"

definition resource_create_3d :: "'w gpu_env \<Rightarrow> u32 \<Rightarrow> u32 \<Rightarrow> u32 \<Rightarrow> u32 \<Rightarrow> u32 \<Rightarrow> u32 \<Rightarrow> u32 \<Rightarrow> u32 \<Rightarrow> u32 \<Rightarrow> u32 \<Rightarrow> u32
    \<Rightarrow> u32 \<Rightarrow> virtio_gpu \<Rightarrow> 'w \<Rightarrow> (unit result \<times> 'w) option" where
  "resource_create_3d env ctx rid target format bnd width height depth array_size last_level nr_samples fl g w =
     virgl_request env (gpu_3d_bytes (CmdResourceCreate3D (with_type_and_ctx RESOURCE_CREATE_3D ctx) rid target format bnd
       width height depth array_size last_level nr_samples fl)) g w"

definition transfer_to_host_3d :: "'w gpu_env \<Rightarrow> u32 \<Rightarrow> u32 \<Rightarrow> gpu_box \<Rightarrow> u64 \<Rightarrow> u32 \<Rightarrow> u32 \<Rightarrow> u32 \<Rightarrow> virtio_gpu \<Rightarrow> 'w
    \<Rightarrow> (unit result \<times> 'w) option" where
  "transfer_to_host_3d env ctx rid b offset level stride layer_stride g w =
     virgl_request env (gpu_3d_bytes (CmdTransferHost3D (with_type_and_ctx TRANSFER_TO_HOST_3D ctx) b offset rid level
       stride layer_stride)) g w"

definition transfer_from_host_3d :: "'w gpu_env \<Rightarrow> u32 \<Rightarrow> u32 \<Rightarrow> gpu_box \<Rightarrow> u64 \<Rightarrow> u32 \<Rightarrow> u32 \<Rightarrow> u32 \<Rightarrow> virtio_gpu \<Rightarrow> 'w
    \<Rightarrow> (unit result \<times> 'w) option" where
  "transfer_from_host_3d env ctx rid b offset level stride layer_stride g w =
     virgl_request env (gpu_3d_bytes (CmdTransferHost3D (with_type_and_ctx TRANSFER_FROM_HOST_3D ctx) b offset rid level
       stride layer_stride)) g w"

definition submit_3d :: "'w gpu_env \<Rightarrow> u32 \<Rightarrow> u64 \<Rightarrow> u8 list \<Rightarrow> virtio_gpu \<Rightarrow> 'w \<Rightarrow> (unit result \<times> 'w) option" where
  "submit_3d env ctx fence_id cmds g w =
     (case require_virgl g of Inl e \<Rightarrow> Some (Inl e, w)
      | Inr _ \<Rightarrow>
          if length cmds mod 4 \<noteq> 0 then Some (Inl InvalidParam, w)
          else if length cmds \<ge> 2 ^ 32 then Some (Inl IoError, w)
          else do {
            (r, w) \<leftarrow> request_with_data env
              (gpu_3d_bytes (CmdSubmit3D (with_fence SUBMIT_3D ctx fence_id) (of_nat (length cmds)))) cmds CTRL_SIZE w;
            r \<leftarrow> expect_header OK_NODATA r;
            Some (r, w)
          })"

fun mem_entries_bytes :: "(u64 \<times> u64) list \<Rightarrow> u8 list result" where
  "mem_entries_bytes [] = Inr []"
| "mem_entries_bytes ((a, n) # es) =
     (if unat n \<ge> 2 ^ 32 then Inl InvalidParam
      else case mem_entries_bytes es of Inl e \<Rightarrow> Inl e
        | Inr bs \<Rightarrow> Inr (mem_entry_bytes \<lparr>me_addr = a, me_length = ucast n\<rparr> @ bs))"

definition resource_create_blob :: "'w gpu_env \<Rightarrow> u32 \<Rightarrow> u32 \<Rightarrow> u32 \<Rightarrow> u32 \<Rightarrow> u64 \<Rightarrow> u64 \<Rightarrow> (u64 \<times> u64) list \<Rightarrow> virtio_gpu \<Rightarrow> 'w
    \<Rightarrow> (unit result \<times> 'w) option" where
  "resource_create_blob env ctx rid blob_mem blob_flags sz blob_id mem_entries g w =
     (case require_virgl g of Inl e \<Rightarrow> Some (Inl e, w)
      | Inr _ \<Rightarrow>
          if \<not> has_resource_blob g then Some (Inl Unsupported, w)
          else if length mem_entries \<ge> 2 ^ 32 then Some (Inl IoError, w)
          else case mem_entries_bytes mem_entries of Inl e \<Rightarrow> Some (Inl e, w)
            | Inr data \<Rightarrow> do {
                (r, w) \<leftarrow> request_with_data env
                  (gpu_3d_bytes (CmdResourceCreateBlob (with_type_and_ctx RESOURCE_CREATE_BLOB ctx) rid blob_mem blob_flags
                    (of_nat (length mem_entries)) blob_id sz)) data CTRL_SIZE w;
                r \<leftarrow> expect_header OK_NODATA r;
                Some (r, w)
              })"

end
