(* ===== verification/Virt_Gpu_Spec.thy ===== *)
theory Virt_Gpu_Spec
  imports Virt_Gpu Virt_Layout_Proofs
begin

text \<open>
  The graphics driver against a device that follows the virtio standard. The device is specified by what it
  reads from the bytes of a command and what the command does to its resources; it may refuse any
  command. Memory is the set of allocated DMA regions. The properties say which resources the device has after the driver's
  operations, and that the memory it was given stays allocated.
\<close>

section \<open>The device\<close>

definition format_from :: "u32 \<Rightarrow> gpu_format option" where
  "format_from n = find (\<lambda>f. format_bits f = n) [B8G8R8A8UNORM, B8G8R8X8UNORM, A8R8G8B8UNORM, X8R8G8B8UNORM,
     R8G8B8A8UNORM, X8B8G8R8UNORM, A8B8G8R8UNORM, R8G8B8X8UNORM]"

text \<open>How the standard reads a command: the type decides on the structure, the fields are at fixed offsets.\<close>

definition parse_2d :: "u8 list \<Rightarrow> gpu_2d option" where
  "parse_2d bs = do {
     h \<leftarrow> ctrl_from_prefix bs;
     let c = hdr_type h; n = length bs in
     if c = GET_DISPLAY_INFO \<and> n = 24 then Some (CmdHeader h)
     else if c = GET_EDID \<and> n = 32 then Some (CmdGetEdid h (le_field 24 4 bs))
     else if c = RESOURCE_CREATE_2D \<and> n = 40 then do {
       f \<leftarrow> format_from (le_field 28 4 bs);
       Some (ResourceCreate2D h (le_field 24 4 bs) f (le_field 32 4 bs) (le_field 36 4 bs)) }
     else if c = RESOURCE_ATTACH_BACKING \<and> n = 48 then
       Some (ResourceAttachBackingSingleEntry h (le_field 24 4 bs) (le_field 28 4 bs)
         \<lparr>me_addr = le_field 32 8 bs, me_length = le_field 40 4 bs\<rparr>)
     else if c = RESOURCE_DETACH_BACKING \<and> n = 32 then Some (ResourceDetachBacking h (le_field 24 4 bs))
     else if c = RESOURCE_UNREF \<and> n = 32 then Some (ResourceUnref h (le_field 24 4 bs))
     else if c = SET_SCANOUT \<and> n = 48 then Some (SetScanout h (rect_at 24 bs) (le_field 40 4 bs) (le_field 44 4 bs))
     else if c = TRANSFER_TO_HOST_2D \<and> n = 56 then
       Some (TransferToHost2D h (rect_at 24 bs) (le_field 40 8 bs) (le_field 48 4 bs))
     else if c = RESOURCE_FLUSH \<and> n = 48 then Some (ResourceFlush h (rect_at 24 bs) (le_field 40 4 bs))
     else None
   }"

text \<open>The type that belongs to each structure.\<close>

fun proper :: "gpu_2d \<Rightarrow> bool" where
  "proper (CmdHeader h) \<longleftrightarrow> hdr_type h = GET_DISPLAY_INFO"
| "proper (CmdGetEdid h _) \<longleftrightarrow> hdr_type h = GET_EDID"
| "proper (ResourceCreate2D h _ _ _ _) \<longleftrightarrow> hdr_type h = RESOURCE_CREATE_2D"
| "proper (ResourceAttachBackingSingleEntry h _ _ _) \<longleftrightarrow> hdr_type h = RESOURCE_ATTACH_BACKING"
| "proper (ResourceDetachBacking h _) \<longleftrightarrow> hdr_type h = RESOURCE_DETACH_BACKING"
| "proper (ResourceUnref h _) \<longleftrightarrow> hdr_type h = RESOURCE_UNREF"
| "proper (SetScanout h _ _ _) \<longleftrightarrow> hdr_type h = SET_SCANOUT"
| "proper (TransferToHost2D h _ _ _) \<longleftrightarrow> hdr_type h = TRANSFER_TO_HOST_2D"
| "proper (ResourceFlush h _ _) \<longleftrightarrow> hdr_type h = RESOURCE_FLUSH"

lemma format_from_bits [simp]: "format_from (format_bits f) = Some f"
  by (cases f) (simp_all add: format_from_def)

declare fields_after [simp] field_here [simp]

lemma rect_at_bytes [simp]: "length xs = i \<Longrightarrow> rect_at i (xs @ rect_bytes r @ ys) = r"
  by (simp add: rect_at_def rect_bytes_def field_skip)

lemma parse_2d_bytes:
  assumes "proper c"
  shows "parse_2d (gpu_2d_bytes c) = Some c"
  using assms by (cases c) (simp_all add: parse_2d_def Let_def gpu_numbers field_skip mem_entry_bytes_def)

record host_resource =
  hr_width :: u32
  hr_height :: u32
  hr_backing :: "(u64 \<times> u32) option"

record gpu_host =
  host_resources :: "u32 \<rightharpoonup> host_resource"
  host_scanout :: "u32 \<rightharpoonup> u32 \<times> rect"

definition inside :: "rect \<Rightarrow> host_resource \<Rightarrow> bool" where
  "inside r hr \<longleftrightarrow> unat (rect_x r) + unat (rect_width r) \<le> unat (hr_width hr)
     \<and> unat (rect_y r) + unat (rect_height r) \<le> unat (hr_height hr)"

text \<open>What a command does when the device carries it out; \<open>None\<close> when it must refuse it.\<close>

fun host_effect :: "gpu_2d \<Rightarrow> gpu_host \<Rightarrow> gpu_host option" where
  "host_effect (ResourceCreate2D _ rid _ w ht) s =
     (if rid = 0 \<or> host_resources s rid \<noteq> None then None
      else Some (s\<lparr>host_resources := (host_resources s)(rid \<mapsto> \<lparr>hr_width = w, hr_height = ht, hr_backing = None\<rparr>)\<rparr>))"
| "host_effect (ResourceAttachBackingSingleEntry _ rid n e) s = do {
     r \<leftarrow> host_resources s rid;
     if n = 1 \<and> hr_backing r = None
     then Some (s\<lparr>host_resources := (host_resources s)(rid \<mapsto> r\<lparr>hr_backing := Some (me_addr e, me_length e)\<rparr>)\<rparr>) else None }"
| "host_effect (ResourceDetachBacking _ rid) s = do {
     r \<leftarrow> host_resources s rid;
     if hr_backing r = None then None
     else Some (s\<lparr>host_resources := (host_resources s)(rid \<mapsto> r\<lparr>hr_backing := None\<rparr>)\<rparr>) }"
| "host_effect (ResourceUnref _ rid) s = do {
     r \<leftarrow> host_resources s rid;
     Some (s\<lparr>host_resources := (host_resources s)(rid := None),
       host_scanout := (\<lambda>i. case host_scanout s i of Some (x, r) \<Rightarrow> if x = rid then None else Some (x, r) | None \<Rightarrow> None)\<rparr>) }"
| "host_effect (SetScanout _ r scanout rid) s =
     (if rid = 0 then Some (s\<lparr>host_scanout := (host_scanout s)(scanout := None)\<rparr>)
      else do {
        hr \<leftarrow> host_resources s rid;
        if inside r hr then Some (s\<lparr>host_scanout := (host_scanout s)(scanout \<mapsto> (rid, r))\<rparr>) else None })"
| "host_effect (TransferToHost2D _ r offset rid) s = do {
     hr \<leftarrow> host_resources s rid; if hr_backing hr \<noteq> None \<and> inside r hr then Some s else None }"
| "host_effect (ResourceFlush _ r rid) s = do { hr \<leftarrow> host_resources s rid; if inside r hr then Some s else None }"
| "host_effect _ s = None"

text \<open>
  An environment whose device follows the standard. \<open>host\<close> gives the state of the device and \<open>mem\<close> the allocated
  regions, as physical address and number of pages. The device answers every command; an answer other than
  \<open>OK_NODATA\<close> leaves its state alone. A new DMA region has an address of its own.
\<close>

definition implements :: "'w gpu_env \<Rightarrow> ('w \<Rightarrow> gpu_host) \<Rightarrow> ('w \<Rightarrow> (u64 \<times> u64) set) \<Rightarrow> bool" where
  "implements env host mem \<longleftrightarrow>
     (\<forall>bs w. \<exists>c w'. exchange_control env [bs] [zeroed CTRL_SIZE] w
          = Some (Inr (of_nat CTRL_SIZE, [ctrl_bytes (with_type c)]), w') \<and> mem w' = mem w
        \<and> (if c = OK_NODATA then \<exists>cmd. parse_2d bs = Some cmd \<and> host_effect cmd (host w) = Some (host w')
           else host w' = host w))
   \<and> (\<forall>n dir ap w. case env_dma_new env n dir ap w of
        (Inl e, w') \<Rightarrow> host w' = host w \<and> mem w' = mem w
      | (Inr d, w') \<Rightarrow> host w' = host w \<and> dma_pages d = n \<and> dma_vaddr d \<noteq> 0 \<and> dma_paddr d \<notin> fst ` mem w
          \<and> mem w' = insert (dma_paddr d, n) (mem w))
   \<and> (\<forall>d w. \<exists>w'. env_dma_drop env d w = Some w' \<and> host w' = host w \<and> mem w' = mem w - {(dma_paddr d, dma_pages d)})"

text \<open>The memory of every resource is allocated and as large as the device was told.\<close>

definition gpu_safe :: "gpu_host \<Rightarrow> (u64 \<times> u64) set \<Rightarrow> bool" where
  "gpu_safe s M \<longleftrightarrow> (\<forall>rid r p n. host_resources s rid = Some r \<longrightarrow> hr_backing r = Some (p, n) \<longrightarrow>
     (\<exists>k. (p, k) \<in> M \<and> unat n \<le> unat k * 4096))"

text \<open>The driver's frame buffer is allocated and backs no resource but its own.\<close>

definition fb_owned :: "virtio_gpu \<Rightarrow> gpu_host \<Rightarrow> (u64 \<times> u64) set \<Rightarrow> bool" where
  "fb_owned g s M \<longleftrightarrow> (\<forall>d. frame_buffer_dma g = Some d \<longrightarrow> (dma_paddr d, dma_pages d) \<in> M
     \<and> (\<forall>rid r n. rid \<noteq> RESOURCE_ID_FB \<longrightarrow> host_resources s rid = Some r \<longrightarrow> hr_backing r \<noteq> Some (dma_paddr d, n)))"

lemma simple_request_ok:
  assumes env: "implements env host mem" and c: "proper c"
  shows "\<exists>r w'. simple_request env (gpu_2d_bytes c) w = Some (r, w') \<and> mem w' = mem w
    \<and> (case r of Inl e \<Rightarrow> host w' = host w | Inr _ \<Rightarrow> host_effect c (host w) = Some (host w'))"
proof -
  obtain t w' where x: "exchange_control env [gpu_2d_bytes c] [zeroed CTRL_SIZE] w
      = Some (Inr (of_nat CTRL_SIZE, [ctrl_bytes (with_type t)]), w')" "mem w' = mem w"
    "if t = OK_NODATA then \<exists>cmd. parse_2d (gpu_2d_bytes c) = Some cmd \<and> host_effect cmd (host w) = Some (host w')
     else host w' = host w"
    using env unfolding implements_def by blast
  show ?thesis
    using x parse_2d_bytes [OF c]
    by (auto simp: simple_request_def gpu_request_def expect_header_def check_type_def with_type_def)
qed

text \<open>The single commands, each as the effect of its structure.\<close>

definition answered :: "('w \<Rightarrow> gpu_host) \<Rightarrow> ('w \<Rightarrow> (u64 \<times> u64) set) \<Rightarrow> gpu_2d \<Rightarrow> 'w \<Rightarrow> (unit result \<times> 'w) option \<Rightarrow> bool" where
  "answered host mem c w x \<longleftrightarrow> (\<exists>r w'. x = Some (r, w') \<and> mem w' = mem w
     \<and> (case r of Inl e \<Rightarrow> host w' = host w | Inr _ \<Rightarrow> host_effect c (host w) = Some (host w')))"

lemma commands_answered:
  assumes env: "implements env host mem"
  shows "answered host mem (ResourceCreate2D (with_type RESOURCE_CREATE_2D) rid B8G8R8A8UNORM wd ht) w (resource_create_2d env rid wd ht w)"
    and "answered host mem (SetScanout (with_type SET_SCANOUT) r s rid) w (set_scanout env r s rid w)"
    and "answered host mem (ResourceFlush (with_type RESOURCE_FLUSH) r rid) w (resource_flush env r rid w)"
    and "answered host mem (TransferToHost2D (with_type TRANSFER_TO_HOST_2D) r off rid) w (transfer_to_host_2d env r off rid w)"
    and "answered host mem (ResourceAttachBackingSingleEntry (with_type RESOURCE_ATTACH_BACKING) rid 1 \<lparr>me_addr = p, me_length = n\<rparr>) w
           (resource_attach_backing env rid p n w)"
    and "answered host mem (ResourceDetachBacking (with_type RESOURCE_DETACH_BACKING) rid) w (resource_detach_backing env rid w)"
    and "answered host mem (ResourceUnref (with_type RESOURCE_UNREF) rid) w (resource_unref env rid w)"
  unfolding answered_def resource_create_2d_def set_scanout_def resource_flush_def transfer_to_host_2d_def
    resource_attach_backing_def resource_detach_backing_def resource_unref_def
  by (rule simple_request_ok [OF env], simp add: with_type_def)+

lemma answeredE:
  assumes "answered host mem c w x"
  obtains e w' where "x = Some (Inl e, w')" "mem w' = mem w" "host w' = host w"
  | w' where "x = Some (Inr (), w')" "mem w' = mem w" "Some (host w') = host_effect c (host w)"
proof -
  obtain r w' where "x = Some (r, w')" "mem w' = mem w"
    "case r of Inl e \<Rightarrow> host w' = host w | Inr _ \<Rightarrow> host_effect c (host w) = Some (host w')"
    using assms unfolding answered_def by blast
  then show ?thesis using that by (cases r) simp_all
qed

lemma dma_drop_ok:
  assumes "implements env host mem"
  obtains w' where "env_dma_drop env d w = Some w'" "host w' = host w" "mem w' = mem w - {(dma_paddr d, dma_pages d)}"
  using assms unfolding implements_def by blast

text \<open>What \<open>tear_down\<close> keeps on every path.\<close>

lemma tear_down_ok:
  assumes env: "implements env host mem" and safe: "gpu_safe (host w) (mem w)" and own: "fb_owned g (host w) (mem w)"
  shows "\<exists>r g' w'. tear_down env g w = Some (r, g', w') \<and> gpu_safe (host w') (mem w') \<and> fb_owned g' (host w') (mem w')
    \<and> gpu_access_platform g' = gpu_access_platform g
    \<and> (\<forall>rid. rid \<noteq> RESOURCE_ID_FB \<longrightarrow> host_resources (host w') rid = host_resources (host w) rid)
    \<and> (r = Inr () \<longrightarrow> frame_buffer_dma g' = None)"
proof (cases "frame_buffer_dma g")
  case None
  then show ?thesis using safe own by (simp add: tear_down_def)
next
  case (Some old)
  let ?M = "mem w - {(dma_paddr old, dma_pages old)}"
  note defs = tear_down_def Some gpu_safe_def fb_owned_def
  from commands_answered(2) [OF env, where r = rect_default and s = SCANOUT_ID and rid = 0 and w = w] show ?thesis
  proof (cases rule: answeredE)
    case (1 e w1)
    then show ?thesis using safe own Some by (simp add: tear_down_def)
  next
    case s: (2 w1)
    then have h1: "host_resources (host w1) = host_resources (host w)" by auto
    from commands_answered(6) [OF env, where rid = RESOURCE_ID_FB and w = w1] show ?thesis
    proof (cases rule: answeredE)
      case (1 e w2)
      then show ?thesis using safe own s h1 by (simp add: defs)
    next
      case d: (2 w2)
      then obtain fb where fb: "host_resources (host w) RESOURCE_ID_FB = Some fb"
        and h2: "host_resources (host w2) = (host_resources (host w))(RESOURCE_ID_FB \<mapsto> fb\<lparr>hr_backing := None\<rparr>)"
        by (cases "host_resources (host w) RESOURCE_ID_FB") (auto simp: h1 split: if_splits)
      from commands_answered(7) [OF env, where rid = RESOURCE_ID_FB and w = w2] show ?thesis
      proof (cases rule: answeredE)
        case (1 e w3)
        then show ?thesis using safe own s d h2 by (simp add: defs)
      next
        case u: (2 w3)
        then have h3: "host_resources (host w3) = (host_resources (host w))(RESOURCE_ID_FB := None)"
          by (auto simp: h2)
        obtain w4 where w4: "env_dma_drop env old w3 = Some w4" "host w4 = host w3" "mem w4 = mem w3 - {(dma_paddr old, dma_pages old)}"
          using dma_drop_ok [OF env] .
        have "\<exists>k. (p, k) \<in> ?M \<and> unat n \<le> unat k * 4096"
          if "rid \<noteq> RESOURCE_ID_FB" "host_resources (host w) rid = Some r" "hr_backing r = Some (p, n)" for rid r p n
          using safe own that Some unfolding gpu_safe_def fb_owned_def by fastforce
        then show ?thesis using s d u w4 h3 by (simp add: defs)
      qed
    qed
  qed
qed

text \<open>The number of pages of a frame buffer is enough for it, and its size does not wrap.\<close>

lemma frame_size:
  assumes "unat width * unat height * 4 < 2 ^ 32"
  shows "unat (width * height * 4 :: u32) = unat width * unat height * 4"
proof -
  have "unat (width * height) = unat width * unat height" using assms by (intro unat_mult_lt) (simp add: mult.commute)
  moreover from this have "unat (width * height * 4) = unat (width * height) * unat (4 :: u32)"
    using assms by (intro unat_mult_lt) simp
  ultimately show ?thesis by simp
qed

lemma pages_enough: "unat (n :: u32) \<le> unat (pages (ucast n)) * 4096"
  using ceil_pages [of "unat n"] by (simp add: unat_pages unat_ucast_up)

lemma slice_of_pages: "unat (pages (ucast (n :: u32)) * PAGE_SIZE) = unat (pages (ucast n)) * 4096"
proof -
  have "unat n < 2 ^ 32" by (rule unat_u32_lt)
  then have "unat (pages (ucast n)) * 4096 < 2 ^ 64" by (simp add: unat_pages unat_ucast_up)
  then show ?thesis by (subst unat_mult_lt) (simp_all add: PAGE_SIZE_def)
qed

lemma raw_slice_frame:
  assumes "n \<noteq> (0 :: u32)" "dma_pages d = pages (ucast n)" "dma_vaddr d \<noteq> 0"
  obtains s where "raw_slice d = Some s" "slice_ptr s = dma_vaddr d" "unat n \<le> unat (slice_len s)"
proof -
  have "0 < unat n" using assms(1) by (simp add: unat_gt_0)
  then have "0 < unat (dma_pages d * PAGE_SIZE)"
    using pages_enough [of n] by (simp add: assms(2) slice_of_pages)
  then have "0 < dma_pages d * PAGE_SIZE" by (simp add: word_less_nat_alt)
  then have "raw_slice d = Some \<lparr>slice_ptr = dma_vaddr d, slice_len = dma_pages d * PAGE_SIZE\<rparr>"
    using assms(3) by (simp add: raw_slice_def vaddr_def)
  then show ?thesis using that pages_enough [of n] by (simp add: assms(2) slice_of_pages)
qed

text \<open>
  The states a call of \<open>change_resolution\<close> can end in. On success the frame buffer resource has the new size and
  is backed by the memory the caller gets. An error leaves all memory of the device allocated, except that the frame
  buffer resource may be backed by memory that is free again.
\<close>

definition resolution_set :: "u32 \<Rightarrow> u32 \<Rightarrow> gpu_host \<Rightarrow> slice result \<Rightarrow> virtio_gpu \<Rightarrow> gpu_host \<Rightarrow> (u64 \<times> u64) set \<Rightarrow> bool" where
  "resolution_set width height s r g' s' M' \<longleftrightarrow> fb_owned g' s' M'
     \<and> (\<forall>rid. rid \<noteq> RESOURCE_ID_FB \<longrightarrow> host_resources s' rid = host_resources s rid)
     \<and> (case r of
          Inr buf \<Rightarrow> gpu_safe s' M' \<and> unat width * unat height * 4 \<le> unat (slice_len buf)
            \<and> gpu_rect g' = Some \<lparr>rect_x = 0, rect_y = 0, rect_width = width, rect_height = height\<rparr>
            \<and> (\<exists>d. frame_buffer_dma g' = Some d \<and> slice_ptr buf = dma_vaddr d
                 \<and> host_resources s' RESOURCE_ID_FB = Some \<lparr>hr_width = width, hr_height = height,
                     hr_backing = Some (dma_paddr d, width * height * 4)\<rparr>)
            \<and> host_scanout s' SCANOUT_ID = Some (RESOURCE_ID_FB,
                \<lparr>rect_x = 0, rect_y = 0, rect_width = width, rect_height = height\<rparr>)
        | Inl e \<Rightarrow> gpu_safe s' M' \<or> (\<exists>p. host_resources s' RESOURCE_ID_FB
              = Some \<lparr>hr_width = width, hr_height = height, hr_backing = Some (p, width * height * 4)\<rparr> \<and> p \<notin> fst ` M'))"

lemma dma_new_ok:
  assumes "implements env host mem"
  obtains e w' where "env_dma_new env n dir ap w = (Inl e, w')" "host w' = host w" "mem w' = mem w"
  | d w' where "env_dma_new env n dir ap w = (Inr d, w')" "host w' = host w" "mem w' = insert (dma_paddr d, n) (mem w)"
      "dma_pages d = n" "dma_vaddr d \<noteq> 0" "dma_paddr d \<notin> fst ` mem w"
proof -
  obtain r w' where x: "env_dma_new env n dir ap w = (r, w')" by (cases "env_dma_new env n dir ap w")
  note new = assms [unfolded implements_def, THEN conjunct2, THEN conjunct1, THEN spec [of _ n],
    THEN spec [of _ dir], THEN spec [of _ ap], THEN spec [of _ w], unfolded x]
  show ?thesis
  proof (cases r)
    case (Inl e)
    then show ?thesis using new x by (intro that(1) [of e w']) simp_all
  next
    case (Inr d)
    then show ?thesis using new x by (intro that(2) [of d w']) simp_all
  qed
qed

lemma gpu_safe_insert: "gpu_safe s M \<Longrightarrow> gpu_safe s (insert x M)"
  unfolding gpu_safe_def by (meson insertI2)

lemma gpu_safe_resource:
  assumes "gpu_safe s M" and "host_resources s' = (host_resources s)(rid \<mapsto> x)"
    and "\<And>p n. hr_backing x = Some (p, n) \<Longrightarrow> \<exists>k. (p, k) \<in> M \<and> unat n \<le> unat k * 4096"
  shows "gpu_safe s' M"
  using assms unfolding gpu_safe_def by simp

lemma fresh_region:
  assumes "p \<notin> fst ` M"
  shows "insert (p, n) M - {(p, n)} = M"
proof -
  have "(p, n) \<notin> M" using assms by (metis fst_conv imageI)
  then show ?thesis by simp
qed

lemma scanout_effect:
  assumes "Some s' = host_effect (SetScanout h r i rid) s" and "rid \<noteq> 0"
  shows "host_resources s' = host_resources s" "host_scanout s' i = Some (rid, r)"
  using assms by (cases "host_resources s rid"; simp split: if_splits)+

text \<open>The second part of \<open>change_resolution\<close>, from a state without a frame buffer.\<close>

lemma set_up_ok:
  assumes env: "implements env host mem" and safe: "gpu_safe (host w) (mem w)" and none: "frame_buffer_dma g = None"
    and sz: "width * height * 4 \<noteq> 0" "unat width * unat height * 4 < 2 ^ 32"
  shows "\<exists>r g' w'. change_resolution env width height g w = Some (r, g', w')
    \<and> resolution_set width height (host w) r g' (host w') (mem w')"
proof -
  let ?r = "\<lparr>rect_x = 0, rect_y = 0, rect_width = width, rect_height = height\<rparr>" and ?sz = "width * height * 4"
  note defs = change_resolution_def tear_down_def none resolution_set_def fb_owned_def
  have fb: "RESOURCE_ID_FB \<noteq> 0" by (simp add: RESOURCE_ID_FB_def)
  from commands_answered(1) [OF env, where rid = RESOURCE_ID_FB and wd = width and ht = height and w = w] show ?thesis
  proof (cases rule: answeredE)
    case (1 e w1)
    then show ?thesis using safe by (simp add: defs)
  next
    case c: (2 w1)
    then have h1: "host_resources (host w1) = (host_resources (host w))(RESOURCE_ID_FB \<mapsto> \<lparr>hr_width = width, hr_height = height, hr_backing = None\<rparr>)"
      by (auto split: if_splits)
    then have safe1: "gpu_safe (host w1) (mem w)" by (rule gpu_safe_resource [OF safe]) simp
    from dma_new_ok [OF env, of "pages (ucast ?sz)" DriverToDevice "gpu_access_platform g" w1] show ?thesis
    proof cases
      case (1 e w2)
      then show ?thesis using c h1 safe1 by (simp add: defs)
    next
      case d: (2 d w2)
      note fresh = d(6) [unfolded c(2)]
      have other: "hr_backing x \<noteq> Some (dma_paddr d, n)" if "host_resources (host w) rid = Some x" for rid x n
        using safe fresh that unfolding gpu_safe_def by force
      from commands_answered(5) [OF env, where rid = RESOURCE_ID_FB and p = "dma_paddr d" and n = ?sz and w = w2] show ?thesis
      proof (cases rule: answeredE)
        case (1 e w3)
        obtain w4 where w4: "env_dma_drop env d w3 = Some w4" "host w4 = host w3" "mem w4 = mem w3 - {(dma_paddr d, dma_pages d)}"
          using dma_drop_ok [OF env] .
        have "mem w4 = mem w" unfolding w4(3) 1(2) d(3,4) c(2) by (rule fresh_region [OF fresh])
        then show ?thesis using 1 w4 c d h1 safe1 by (simp add: defs Let_def)
      next
        case a: (2 w3)
        then have h3: "host_resources (host w3) = (host_resources (host w))(RESOURCE_ID_FB \<mapsto>
            \<lparr>hr_width = width, hr_height = height, hr_backing = Some (dma_paddr d, ?sz)\<rparr>)"
          by (simp add: d(2) h1)
        have safe3: "gpu_safe (host w3) (mem w3)"
          unfolding a(2) d(3) c(2) by (rule gpu_safe_resource [OF gpu_safe_insert [OF safe] h3]) (auto intro: pages_enough)
        from commands_answered(2) [OF env, where r = ?r and s = SCANOUT_ID and rid = RESOURCE_ID_FB and w = w3] show ?thesis
        proof (cases rule: answeredE)
          case (1 e w4)
          obtain w5 where w5: "env_dma_drop env d w4 = Some w5" "host w5 = host w4" "mem w5 = mem w4 - {(dma_paddr d, dma_pages d)}"
            using dma_drop_ok [OF env] .
          have "mem w5 = mem w" unfolding w5(3) 1(2) a(2) d(3,4) c(2) by (rule fresh_region [OF fresh])
          then show ?thesis using 1 w5 a c d h3 fresh by (simp add: defs Let_def)
        next
          case (2 w4)
          obtain buf where buf: "raw_slice d = Some buf" "slice_ptr buf = dma_vaddr d" "unat ?sz \<le> unat (slice_len buf)"
            using raw_slice_frame [OF sz(1) d(4,5)] .
          note h4 = scanout_effect [OF 2(3) fb]
          have "gpu_safe (host w4) (mem w4)" using safe3 h4(1) 2(2) by (simp add: gpu_safe_def)
          then show ?thesis
            using 2(1,2) buf h3 h4 a(1,2) c(1,2) d other frame_size [OF sz(2)] by (simp add: defs Let_def)
        qed
      qed
    qed
  qed
qed


text \<open>
  A device that follows the standard and refuses a given list of commands besides those it must refuse, with a
  platform that has two regions to give.
\<close>

definition device_answer :: "u32 list \<Rightarrow> u8 list \<Rightarrow> gpu_host \<Rightarrow> u32 \<times> gpu_host" where
  "device_answer refused bs s =
     (case parse_2d bs of
        Some c \<Rightarrow> if le_field 0 4 bs \<in> set refused then (ERR_UNSPEC, s)
                   else (case host_effect c s of Some s' \<Rightarrow> (OK_NODATA, s') | None \<Rightarrow> (ERR_UNSPEC, s))
      | None \<Rightarrow> (ERR_UNSPEC, s))"

definition reference_env :: "u32 list \<Rightarrow> (gpu_host \<times> (u64 \<times> u64) list) gpu_env" where
  "reference_env refused =
     \<lparr>exchange_control = (\<lambda>ins outs (s, M). let (c, s) = device_answer refused (concat ins) s
        in Some (Inr (of_nat CTRL_SIZE, [ctrl_bytes (with_type c)]), (s, M))),
      exchange_cursor = (\<lambda>ins outs w. Some (Inr (0, []), w)),
      env_dma_new = (\<lambda>n dir ap (s, M). case find (\<lambda>p. p \<notin> set (map fst M)) [0x10000, 0x20000] of
          Some p \<Rightarrow> (Inr \<lparr>dma_paddr = p, dma_vaddr = p, dma_pages = n, dma_access_platform = ap\<rparr>, (s, (p, n) # M))
        | None \<Rightarrow> (Inl DmaError, (s, M))),
      env_dma_drop = (\<lambda>d (s, M). Some (s, filter (\<lambda>x. x \<noteq> (dma_paddr d, dma_pages d)) M)),
      env_store = (\<lambda>p bs w. w),
      env_ack_interrupt = (\<lambda>w. (0, w)),
      env_queue_unset = (\<lambda>i w. w)\<rparr>"

abbreviation reference_host :: "gpu_host \<times> (u64 \<times> u64) list \<Rightarrow> gpu_host" where "reference_host \<equiv> fst"
abbreviation reference_mem :: "gpu_host \<times> (u64 \<times> u64) list \<Rightarrow> (u64 \<times> u64) set" where "reference_mem \<equiv> \<lambda>w. set (snd w)"

lemma device_answer_cases:
  obtains "device_answer refused bs s = (ERR_UNSPEC, s)"
  | c s' where "device_answer refused bs s = (OK_NODATA, s')" "parse_2d bs = Some c" "host_effect c s = Some s'"
  by (cases "parse_2d bs"; cases "host_effect (the (parse_2d bs)) s"; cases "le_field 0 4 bs \<in> set refused")
     (auto simp: device_answer_def)

lemma reference_implements: "implements (reference_env refused) reference_host reference_mem"
proof -
  have "\<exists>c w'. exchange_control (reference_env refused) [bs] [zeroed CTRL_SIZE] w
          = Some (Inr (of_nat CTRL_SIZE, [ctrl_bytes (with_type c)]), w') \<and> set (snd w') = set (snd w)
        \<and> (if c = OK_NODATA then \<exists>cmd. parse_2d bs = Some cmd \<and> host_effect cmd (fst w) = Some (fst w')
           else fst w' = fst w)" for bs w
  proof (rule device_answer_cases [of refused bs "fst w"])
    assume "device_answer refused bs (fst w) = (ERR_UNSPEC, fst w)"
    moreover have "ERR_UNSPEC \<noteq> OK_NODATA" by (simp add: ERR_UNSPEC_def OK_NODATA_def)
    ultimately show ?thesis by (intro exI [of _ ERR_UNSPEC] exI [of _ w]) (simp add: reference_env_def case_prod_unfold)
  next
    fix c s'
    assume "device_answer refused bs (fst w) = (OK_NODATA, s')" "parse_2d bs = Some c" "host_effect c (fst w) = Some s'"
    then show ?thesis by (intro exI [of _ OK_NODATA] exI [of _ "(s', snd w)"]) (simp add: reference_env_def case_prod_unfold)
  qed
  moreover have "case env_dma_new (reference_env refused) n dir ap w of
        (Inl e, w') \<Rightarrow> fst w' = fst w \<and> set (snd w') = set (snd w)
      | (Inr d, w') \<Rightarrow> fst w' = fst w \<and> dma_pages d = n \<and> dma_vaddr d \<noteq> 0 \<and> dma_paddr d \<notin> fst ` set (snd w)
          \<and> set (snd w') = insert (dma_paddr d, n) (set (snd w))" for n dir ap w
    by (simp add: reference_env_def case_prod_unfold)
  moreover have "\<exists>w'. env_dma_drop (reference_env refused) d w = Some w' \<and> fst w' = fst w
      \<and> set (snd w') = set (snd w) - {(dma_paddr d, dma_pages d)}" for d w
    by (auto simp: reference_env_def case_prod_unfold)
  ultimately show ?thesis unfolding implements_def by (intro conjI allI)
qed

text \<open>The requests of the driver against this device, without their bytes.\<close>

lemma le_field_type [simp]: "le_field 0 4 (ctrl_bytes h @ ys) = hdr_type h"
  by (simp add: ctrl_bytes_def)

definition attempt :: "u32 list \<Rightarrow> u32 \<Rightarrow> gpu_2d \<Rightarrow> gpu_host \<times> (u64 \<times> u64) list \<Rightarrow> (unit result \<times> gpu_host \<times> (u64 \<times> u64) list) option" where
  "attempt refused t c w = (case host_effect c (fst w) of
     Some s' \<Rightarrow> if t \<in> set refused then Some (Inl IoError, w) else Some (Inr (), (s', snd w))
   | None \<Rightarrow> Some (Inl IoError, w))"

lemma reference_request:
  assumes "proper c" and "le_field 0 4 (gpu_2d_bytes c) = t"
  shows "simple_request (reference_env refused) (gpu_2d_bytes c) w = attempt refused t c w"
proof -
  have "ERR_UNSPEC \<noteq> OK_NODATA" by (simp add: ERR_UNSPEC_def OK_NODATA_def)
  moreover have "device_answer refused (gpu_2d_bytes c) s = (if t \<in> set refused then (ERR_UNSPEC, s)
     else case host_effect c s of Some s' \<Rightarrow> (OK_NODATA, s') | None \<Rightarrow> (ERR_UNSPEC, s))" for s
    using assms by (simp add: device_answer_def parse_2d_bytes)
  ultimately show ?thesis
    by (cases w) (simp add: simple_request_def gpu_request_def expect_header_def check_type_def with_type_def
      reference_env_def attempt_def split: option.split)
qed

lemma reference_ops:
  "resource_create_2d (reference_env refused) rid wd ht w
     = attempt refused RESOURCE_CREATE_2D (ResourceCreate2D (with_type RESOURCE_CREATE_2D) rid B8G8R8A8UNORM wd ht) w"
  "set_scanout (reference_env refused) r i rid w = attempt refused SET_SCANOUT (SetScanout (with_type SET_SCANOUT) r i rid) w"
  "resource_attach_backing (reference_env refused) rid p n w = attempt refused RESOURCE_ATTACH_BACKING
     (ResourceAttachBackingSingleEntry (with_type RESOURCE_ATTACH_BACKING) rid 1 \<lparr>me_addr = p, me_length = n\<rparr>) w"
  unfolding resource_create_2d_def set_scanout_def resource_attach_backing_def
  by (rule reference_request; simp add: with_type_def)+

lemma reference_dma:
  "env_dma_new (reference_env refused) n dir ap (s, []) =
     (Inr \<lparr>dma_paddr = 0x10000, dma_vaddr = 0x10000, dma_pages = n, dma_access_platform = ap\<rparr>, (s, [(0x10000, n)]))"
  "env_dma_drop (reference_env refused) d (s, M) = Some (s, filter (\<lambda>x. x \<noteq> (dma_paddr d, dma_pages d)) M)"
  by (simp_all add: reference_env_def)

abbreviation empty_host :: gpu_host where "empty_host \<equiv> \<lparr>host_resources = Map.empty, host_scanout = Map.empty\<rparr>"

abbreviation fresh_gpu :: virtio_gpu where
  "fresh_gpu \<equiv> \<lparr>gpu_rect = None, frame_buffer_dma = None, cursor_buffer_dma = None, has_edid = False,
     gpu_access_platform = False, has_virgl = False, has_resource_blob = False\<rparr>"


text \<open>
  The exception of the last property occurs: a device that follows the standard but refuses the command that
  shows the new frame buffer has a resource backed by memory that \<open>change_resolution\<close> has given back to
  the platform.
\<close>

theorem refused_scanout_dangles:
  "implements (reference_env [SET_SCANOUT]) reference_host reference_mem
   \<and> (\<exists>g' w'. change_resolution (reference_env [SET_SCANOUT]) 2 3 fresh_gpu (empty_host, []) = Some (Inl IoError, g', w')
        \<and> frame_buffer_dma g' = None \<and> \<not> gpu_safe (reference_host w') (reference_mem w'))"
proof -
  have "change_resolution (reference_env [SET_SCANOUT]) 2 3 fresh_gpu (empty_host, []) = Some (Inl IoError,
      fresh_gpu\<lparr>gpu_rect := Some \<lparr>rect_x = 0, rect_y = 0, rect_width = 2, rect_height = 3\<rparr>\<rparr>,
      (empty_host\<lparr>host_resources := [RESOURCE_ID_FB \<mapsto> \<lparr>hr_width = 2, hr_height = 3, hr_backing = Some (0x10000, 24)\<rparr>]\<rparr>, []))"
    by (simp add: change_resolution_def tear_down_def reference_ops reference_dma attempt_def gpu_numbers
        RESOURCE_ID_FB_def inside_def pages_def PAGE_SIZE_def)
  moreover have "\<not> gpu_safe (empty_host\<lparr>host_resources := [RESOURCE_ID_FB \<mapsto> \<lparr>hr_width = 2, hr_height = 3, hr_backing = Some (0x10000, 24)\<rparr>]\<rparr>) {}"
    by (simp add: gpu_safe_def)
  ultimately show ?thesis using reference_implements by simp
qed

end
