(* ===== verification/Gpu_Queue.thy ===== *)
theory Gpu_Queue
  imports Gpu_Fence Gpu_Protocol
begin

text \<open>
  The asynchronous command queue of the display driver (\<open>Queue\<close>, \<open>QueueChannel\<close>, \<open>ArraySegQueue\<close>
  and their buffers in \<open>src/gpu-wddm/src/queue.rs\<close>).

  Requests are put on a channel by any thread; the handler thread moves them from the channel to a free
  slot and on to the device, and carries out the callback of each request when the device has answered.
  The lock-free queues of the crossbeam package are parameters, the records \<open>array_queue\<close> and \<open>seg_queue\<close>.
  Objects that several parties share by reference (buffers a caller waits on, batches of allocations,
  the allocations themselves) lie in a store, the record \<open>objects\<close>.
\<close>

section \<open>Status codes\<close>

text \<open>The status codes the queue returns, and the conversion of the driver library's errors (\<open>src/gpu-wddm/src/adapter.rs\<close>).\<close>

datatype nt_status =
    BUFFER_TOO_SMALL | DEVICE_NOT_READY | INVALID_HANDLE | ALREADY_COMMITTED | INVALID_PARAMETER | NO_MEMORY
  | IO_DEVICE_ERROR | INVALID_DEVICE_REQUEST | DEVICE_CONFIGURATION_ERROR | UNEXPECTED_NETWORK_ERROR
  | INVALID_DEVICE_STATE | INSUFFICIENT_RESOURCES | UNSUCCESSFUL | WAIT_TIMEOUT | REINITIALIZATION_NEEDED
  | NOT_SUPPORTED | GRAPHICS_INSUFFICIENT_DMA_BUFFER

fun nt_status_from :: "error \<Rightarrow> nt_status" where
  "nt_status_from QueueFull = BUFFER_TOO_SMALL"
| "nt_status_from NotReady = DEVICE_NOT_READY"
| "nt_status_from WrongToken = INVALID_HANDLE"
| "nt_status_from AlreadyUsed = ALREADY_COMMITTED"
| "nt_status_from InvalidParam = INVALID_PARAMETER"
| "nt_status_from DmaError = NO_MEMORY"
| "nt_status_from IoError = IO_DEVICE_ERROR"
| "nt_status_from Unsupported = INVALID_DEVICE_REQUEST"
| "nt_status_from ConfigSpaceTooSmall = BUFFER_TOO_SMALL"
| "nt_status_from ConfigSpaceMissing = DEVICE_CONFIGURATION_ERROR"
| "nt_status_from (SocketDeviceError _) = UNEXPECTED_NETWORK_ERROR"

type_synonym 'r nt_result = "nt_status + 'r"

section \<open>Lock-free queues\<close>

text \<open>
  \<open>push\<close> and \<open>force_push\<close> of a bounded queue give back an element: the refused one, or the oldest one that
  had to leave.
\<close>

record ('q, 'a) array_queue =
  aq_new :: "nat \<Rightarrow> 'q"
  aq_push :: "'a \<Rightarrow> 'q \<Rightarrow> 'a option \<times> 'q"
  aq_force_push :: "'a \<Rightarrow> 'q \<Rightarrow> 'a option \<times> 'q"
  aq_pop :: "'q \<Rightarrow> 'a option \<times> 'q"

record ('s, 'a) seg_queue =
  sq_new :: 's
  sq_push :: "'a \<Rightarrow> 's \<Rightarrow> 's"
  sq_pop :: "'s \<Rightarrow> 'a option \<times> 's"

record ('q, 's) array_seg_queue =
  fast :: 'q
  slow :: 's

definition aseg_new :: "('q, 'a) array_queue \<Rightarrow> ('s, 'a) seg_queue \<Rightarrow> nat \<Rightarrow> ('q, 's) array_seg_queue" where
  "aseg_new aq sq cap = \<lparr>fast = aq_new aq cap, slow = sq_new sq\<rparr>"

definition aseg_push :: "('q, 'a) array_queue \<Rightarrow> ('s, 'a) seg_queue \<Rightarrow> 'a \<Rightarrow> ('q, 's) array_seg_queue \<Rightarrow> ('q, 's) array_seg_queue" where
  "aseg_push aq sq v c =
     (case aq_push aq v (fast c) of
        (None, f) \<Rightarrow> c\<lparr>fast := f\<rparr>
      | (Some v, f) \<Rightarrow> c\<lparr>fast := f, slow := sq_push sq v (slow c)\<rparr>)"

definition aseg_pop :: "('q, 'a) array_queue \<Rightarrow> ('s, 'a) seg_queue \<Rightarrow> ('q, 's) array_seg_queue \<Rightarrow> 'a option \<times> ('q, 's) array_seg_queue" where
  "aseg_pop aq sq c =
     (case sq_pop sq (slow c) of
        (Some v, s) \<Rightarrow>
          (case aq_force_push aq v (fast c) of
             (Some v, f) \<Rightarrow> (Some v, c\<lparr>fast := f, slow := s\<rparr>)
           | (None, f) \<Rightarrow> let (r, f) = aq_pop aq f in (r, c\<lparr>fast := f, slow := s\<rparr>))
      | (None, s) \<Rightarrow> let (r, f) = aq_pop aq (fast c) in (r, c\<lparr>fast := f, slow := s\<rparr>))"

section \<open>Shared objects\<close>

text \<open>The data of a message: inline, in a box of its own, or in memory of the caller.\<close>

datatype maybe_inline_buffer = Inline "u8 list" | Boxed slice | Dma slice

record blocking_buffer =
  bb_event :: bool
  bb_cancel :: bool
  bb_data :: "maybe_inline_buffer option"

text \<open>
  An allocation counts the commands that use it; \<open>al_event\<close> is set while it is idle and \<open>al_sync\<close> are the events
  of those who wait for it. A \<open>device_specific_allocation\<close> refers to a device and an allocation that may be gone.
\<close>

record allocation_state =
  al_busy :: u64
  al_event :: bool
  al_sync :: "nat list"

record device_specific_allocation =
  dsa_device :: nat
  dsa_alloc :: nat

type_synonym allocations_batch = "device_specific_allocation list"

record objects =
  blockings :: "nat \<rightharpoonup> blocking_buffer"
  next_object :: nat
  batches :: "nat \<rightharpoonup> nat \<times> allocations_batch"
  devices :: "nat set"
  allocs :: "nat \<rightharpoonup> allocation_state"
  signalled :: "nat list"

definition blocking_new :: "objects \<Rightarrow> nat \<times> objects" where
  "blocking_new ob = (next_object ob, ob\<lparr>next_object := next_object ob + 1,
     blockings := (blockings ob)(next_object ob \<mapsto> \<lparr>bb_event = False, bb_cancel = False, bb_data = None\<rparr>)\<rparr>)"

definition update_blocking :: "nat \<Rightarrow> (blocking_buffer \<Rightarrow> blocking_buffer) \<Rightarrow> objects \<Rightarrow> objects" where
  "update_blocking b f ob = ob\<lparr>blockings := (blockings ob)(b := map_option f (blockings ob b))\<rparr>"

definition blocking_set :: "nat \<Rightarrow> objects \<Rightarrow> objects" where
  "blocking_set b = update_blocking b (\<lambda>x. x\<lparr>bb_event := True\<rparr>)"

definition blocking_cancel :: "nat \<Rightarrow> objects \<Rightarrow> objects" where
  "blocking_cancel b = update_blocking b (\<lambda>x. x\<lparr>bb_cancel := True\<rparr>)"

definition blocking_cancelled :: "nat \<Rightarrow> objects \<Rightarrow> bool" where
  "blocking_cancelled b ob = (case blockings ob b of Some x \<Rightarrow> bb_cancel x | None \<Rightarrow> False)"

definition blocking_write :: "nat \<Rightarrow> maybe_inline_buffer \<Rightarrow> objects \<Rightarrow> objects" where
  "blocking_write b d = update_blocking b (\<lambda>x. x\<lparr>bb_data := Some d\<rparr>)"

definition blocking_read :: "nat \<Rightarrow> objects \<Rightarrow> maybe_inline_buffer option \<times> objects" where
  "blocking_read b ob = (case blockings ob b of Some x \<Rightarrow> bb_data x | None \<Rightarrow> None,
     update_blocking b (\<lambda>x. x\<lparr>bb_data := None\<rparr>) ob)"

text \<open>\<open>mark_free\<close> of \<open>src/gpu-wddm/src/allocation.rs\<close>, and the destructor of a batch, which panics when the device is gone.\<close>

definition mark_free_alloc :: "nat \<Rightarrow> objects \<Rightarrow> objects" where
  "mark_free_alloc a ob =
     (case allocs ob a of None \<Rightarrow> ob
      | Some x \<Rightarrow>
          if al_busy x = 1
          then ob\<lparr>allocs := (allocs ob)(a \<mapsto> \<lparr>al_busy = al_busy x - 1, al_event = True, al_sync = []\<rparr>),
                  signalled := signalled ob @ al_sync x\<rparr>
          else ob\<lparr>allocs := (allocs ob)(a \<mapsto> x\<lparr>al_busy := al_busy x - 1\<rparr>)\<rparr>)"

fun drop_batch :: "allocations_batch \<Rightarrow> objects \<Rightarrow> objects option" where
  "drop_batch [] ob = Some ob"
| "drop_batch (d # ds) ob = do {
     assert (dsa_device d \<in> devices ob);
     drop_batch ds (mark_free_alloc (dsa_alloc d) ob)
   }"

text \<open>\<open>Arc::into_inner\<close>: the last reference gives the batch, any other only goes away.\<close>

definition batch_into_inner :: "nat \<Rightarrow> objects \<Rightarrow> allocations_batch option \<times> objects" where
  "batch_into_inner k ob =
     (case batches ob k of
        None \<Rightarrow> (None, ob)
      | Some (n, ds) \<Rightarrow>
          if n \<le> 1 then (Some ds, ob\<lparr>batches := (batches ob)(k := None)\<rparr>)
          else (None, ob\<lparr>batches := (batches ob)(k \<mapsto> (n - 1, ds))\<rparr>))"

section \<open>Messages\<close>

datatype callback =
    NoCallback
  | SetEvent nat
  | FreeContextId u32
  | FreeResourceId u32
  | OnDmaCompleted engine u32
  | OnDmaCompletedWithAllocations engine u32 allocations_batch
  | OnDmaCompletedBatched engine u32 nat

fun as_dma_completed :: "callback \<Rightarrow> (engine \<times> u32) option" where
  "as_dma_completed (OnDmaCompleted e f) = Some (e, f)"
| "as_dma_completed (OnDmaCompletedWithAllocations e f _) = Some (e, f)"
| "as_dma_completed (OnDmaCompletedBatched e f _) = Some (e, f)"
| "as_dma_completed _ = None"

record message =
  msg_input :: maybe_inline_buffer
  msg_output :: maybe_inline_buffer
  msg_callback :: callback

definition MAX_COMMAND_SIZE :: nat where "MAX_COMMAND_SIZE = 120"
definition MAX_RESPONSE_SIZE :: nat where "MAX_RESPONSE_SIZE = 56"
definition CURSOR_COMMAND_SIZE :: nat where "CURSOR_COMMAND_SIZE = 56"
definition CURSOR_RESPONSE_SIZE :: nat where "CURSOR_RESPONSE_SIZE = 24"
definition CONTROL_QUEUE_SIZE :: nat where "CONTROL_QUEUE_SIZE = 256"
definition CURSOR_QUEUE_SIZE :: nat where "CURSOR_QUEUE_SIZE = 16"
definition CONTROL_FAST_QUEUE_SIZE :: nat where "CONTROL_FAST_QUEUE_SIZE = CONTROL_QUEUE_SIZE * 3"
definition CURSOR_FAST_QUEUE_SIZE :: nat where "CURSOR_FAST_QUEUE_SIZE = CURSOR_QUEUE_SIZE * 4"

text \<open>A buffer with given contents; \<open>cap\<close> is the constant \<open>MAX_INLINE\<close>.\<close>

definition try_from_bytes :: "'h hal \<Rightarrow> nat \<Rightarrow> u8 list \<Rightarrow> 'h \<Rightarrow> maybe_inline_buffer nt_result \<times> 'h" where
  "try_from_bytes hal cap bs h =
     (if length bs \<le> cap then (Inr (Inline bs), h)
      else if length bs \<le> unat PAGE_SIZE then
        (case new_box hal (of_nat (length bs)) h of
           (None, h) \<Rightarrow> (Inl NO_MEMORY, h)
         | (Some p, h) \<Rightarrow> (Inr (Boxed \<lparr>slice_ptr = p, slice_len = of_nat (length bs)\<rparr>), mem_store hal p bs h))
      else (Inl NO_MEMORY, h))"

definition try_new_zeroed :: "'h hal \<Rightarrow> nat \<Rightarrow> nat \<Rightarrow> 'h \<Rightarrow> maybe_inline_buffer nt_result \<times> 'h" where
  "try_new_zeroed hal cap n h = try_from_bytes hal cap (replicate n 0) h"

definition try_from_hdr_with_body :: "'h hal \<Rightarrow> nat \<Rightarrow> u8 list \<Rightarrow> u8 list \<Rightarrow> 'h \<Rightarrow> maybe_inline_buffer nt_result \<times> 'h" where
  "try_from_hdr_with_body hal cap hdr body h = try_from_bytes hal cap (hdr @ body) h"

definition try_from_value :: "'h hal \<Rightarrow> nat \<Rightarrow> u8 list \<Rightarrow> 'h \<Rightarrow> maybe_inline_buffer nt_result \<times> 'h" where
  "try_from_value hal cap value h = try_from_bytes hal cap value h"

text \<open>The bytes of a buffer that is not in a slot.\<close>

fun buffer_bytes :: "'h hal \<Rightarrow> maybe_inline_buffer \<Rightarrow> 'h \<Rightarrow> u8 list" where
  "buffer_bytes hal (Inline bs) h = bs"
| "buffer_bytes hal (Boxed s) h = mem_load hal s h"
| "buffer_bytes hal (Dma s) h = mem_load hal s h"

text \<open>
  The rest of a buffer as a box of its own. An empty box takes no memory: its pointer is the dangling one.
\<close>

definition boxed :: "'h hal \<Rightarrow> u8 list \<Rightarrow> 'h \<Rightarrow> slice nt_result \<times> 'h" where
  "boxed hal bs h =
     (if bs = [] then (Inr \<lparr>slice_ptr = 1, slice_len = 0\<rparr>, h)
      else (case new_box hal (of_nat (length bs)) h of
          (None, h) \<Rightarrow> (Inl NO_MEMORY, h)
        | (Some p, h) \<Rightarrow> (Inr \<lparr>slice_ptr = p, slice_len = of_nat (length bs)\<rparr>, mem_store hal p bs h)))"

fun is_dma :: "maybe_inline_buffer \<Rightarrow> bool" where
  "is_dma (Dma _) = True"
| "is_dma _ = False"

fun drop_buffer :: "'h hal \<Rightarrow> maybe_inline_buffer option \<Rightarrow> 'h \<Rightarrow> 'h" where
  "drop_buffer hal (Some (Boxed s)) h = drop_box hal (slice_ptr s) h"
| "drop_buffer hal _ h = h"

definition into_boxed :: "'h hal \<Rightarrow> maybe_inline_buffer \<Rightarrow> nat \<Rightarrow> 'h \<Rightarrow> (slice nt_result \<times> 'h) option" where
  "into_boxed hal b strip_prefix h = do {
     let bs = buffer_bytes hal b h;
     assert (strip_prefix \<le> length bs);
     let (r, h) = boxed hal (drop strip_prefix bs) h;
     Some (r, drop_buffer hal (Some b) h)
   }"

fun drop_callback :: "callback \<Rightarrow> objects \<Rightarrow> objects option" where
  "drop_callback (OnDmaCompletedWithAllocations _ _ ds) ob = drop_batch ds ob"
| "drop_callback (OnDmaCompletedBatched _ _ k) ob =
     (case batch_into_inner k ob of (None, ob) \<Rightarrow> Some ob | (Some ds, ob) \<Rightarrow> drop_batch ds ob)"
| "drop_callback _ ob = Some ob"

definition slice_in_one_page :: "slice \<Rightarrow> bool" where
  "slice_in_one_page s =
     (slice_len s = 0
      \<or> slice_ptr s div PAGE_SIZE = (slice_ptr s + slice_len s - 1) div PAGE_SIZE)"

section \<open>The queue\<close>

text \<open>
  A slot holds the buffers of one request. An inline buffer lies in the page-aligned array of the slots, at the
  offset that the size assertion \<open>IN_OK\<close> and the padding of the variant give it.
\<close>

record ('f, 'q, 's) gpu_queue =
  gq_queue :: virt_queue
  in_base :: u64
  out_base :: u64
  inputs :: "maybe_inline_buffer option list"
  outputs :: "maybe_inline_buffer option list"
  callbacks :: "callback list"
  indices :: "nat option list"
  free_slots :: 'f
  chan :: "('q, 's) array_seg_queue"
  chan_event :: bool

record ('f, 'q, 's, 't, 'h, 'k) gq_env =
  g_hal :: "'h hal"
  g_transport :: "'t transport"
  g_counter :: "'k counter"
  free_ops :: "('f, nat) array_queue"
  fast_ops :: "('q, message) array_queue"
  slow_ops :: "('s, message) seg_queue"
  cap_in :: nat
  cap_out :: nat

record ('k, 't, 'h) handler_world =
  gw_data :: "'k gpu_data"
  gw_objects :: objects
  gw_transport :: 't
  gw_hal :: 'h

definition slot_address :: "u64 \<Rightarrow> nat \<Rightarrow> nat \<Rightarrow> u64" where
  "slot_address base cap i = base + of_nat (i * (cap + 8) + 8)"

fun slot_slice :: "u64 \<Rightarrow> nat \<Rightarrow> nat \<Rightarrow> maybe_inline_buffer \<Rightarrow> slice" where
  "slot_slice base cap i (Inline bs) = \<lparr>slice_ptr = slot_address base cap i, slice_len = of_nat (length bs)\<rparr>"
| "slot_slice base cap i (Boxed s) = s"
| "slot_slice base cap i (Dma s) = s"

text \<open>Moving a buffer into a slot writes the contents of an inline buffer to the slot's memory.\<close>

fun store_slot :: "'h hal \<Rightarrow> u64 \<Rightarrow> nat \<Rightarrow> nat \<Rightarrow> maybe_inline_buffer \<Rightarrow> 'h \<Rightarrow> 'h" where
  "store_slot hal base cap i (Inline bs) h = mem_store hal (slot_address base cap i) bs h"
| "store_slot hal base cap i _ h = h"

fun fill_free :: "('f, nat) array_queue \<Rightarrow> nat list \<Rightarrow> 'f \<Rightarrow> 'f option" where
  "fill_free aq [] f = Some f"
| "fill_free aq (i # ns) f = (case aq_push aq i f of (None, f) \<Rightarrow> fill_free aq ns f | (Some _, f) \<Rightarrow> None)"

text \<open>\<open>Queue::new\<close>; \<open>ibase\<close> and \<open>obase\<close> are where the arrays of the slots were allocated.\<close>

definition gq_new :: "('f, 'q, 's, 't, 'h, 'k) gq_env \<Rightarrow> nat \<Rightarrow> nat \<Rightarrow> u16 \<Rightarrow> u64 option \<Rightarrow> u64 option \<Rightarrow> bool \<Rightarrow> bool \<Rightarrow> bool
    \<Rightarrow> 't \<Rightarrow> 'h \<Rightarrow> (('f, 'q, 's) gpu_queue nt_result \<times> 't \<times> 'h) option" where
  "gq_new env n fast_size idx ibase obase ap ind ev t h = do {
     (r, t, h) \<leftarrow> new_queue (g_hal env) (g_transport env) n idx ind ev ap t h;
     (case r of Inl e \<Rightarrow> Some (Inl (nt_status_from e), t, h)
      | Inr q \<Rightarrow>
          (case (ibase, obase) of
             (Some ib, Some ob) \<Rightarrow> do {
               f \<leftarrow> fill_free (free_ops env) [0..<n] (aq_new (free_ops env) n);
               Some (Inr \<lparr>gq_queue = set_dev_notify True q, in_base = ib, out_base = ob,
                 inputs = replicate n None, outputs = replicate n None, callbacks = replicate n NoCallback,
                 indices = replicate n None, free_slots = f,
                 chan = aseg_new (fast_ops env) (slow_ops env) fast_size, chan_event = False\<rparr>, t, h)
             }
           | _ \<Rightarrow> do { h \<leftarrow> queue_drop (g_hal env) q h; Some (Inl NO_MEMORY, t, h) }))
   }"

subsection \<open>Channel\<close>

definition request_async_buf :: "('f, 'q, 's, 't, 'h, 'k) gq_env \<Rightarrow> maybe_inline_buffer \<Rightarrow> maybe_inline_buffer \<Rightarrow> callback
    \<Rightarrow> ('f, 'q, 's) gpu_queue \<Rightarrow> ('f, 'q, 's) gpu_queue" where
  "request_async_buf env input output cb Q =
     Q\<lparr>chan := aseg_push (fast_ops env) (slow_ops env) \<lparr>msg_input = input, msg_output = output, msg_callback = cb\<rparr> (chan Q),
       chan_event := True\<rparr>"

definition request_async_into_buf :: "('f, 'q, 's, 't, 'h, 'k) gq_env \<Rightarrow> u8 list \<Rightarrow> maybe_inline_buffer \<Rightarrow> callback
    \<Rightarrow> ('f, 'q, 's) gpu_queue \<Rightarrow> ('k, 't, 'h) handler_world
    \<Rightarrow> (unit nt_result \<times> ('f, 'q, 's) gpu_queue \<times> ('k, 't, 'h) handler_world) option" where
  "request_async_into_buf env req output cb Q w =
     (case try_from_value (g_hal env) (cap_in env) req (gw_hal w) of
        (Inl e, h) \<Rightarrow> do {
          ob \<leftarrow> drop_callback cb (gw_objects w);
          Some (Inl e, Q, w\<lparr>gw_objects := ob, gw_hal := drop_buffer (g_hal env) (Some output) h\<rparr>)
        }
      | (Inr input, h) \<Rightarrow> Some (Inr (), request_async_buf env input output cb Q, w\<lparr>gw_hal := h\<rparr>))"

definition request_async :: "('f, 'q, 's, 't, 'h, 'k) gq_env \<Rightarrow> u8 list \<Rightarrow> nat \<Rightarrow> callback
    \<Rightarrow> ('f, 'q, 's) gpu_queue \<Rightarrow> ('k, 't, 'h) handler_world
    \<Rightarrow> (unit nt_result \<times> ('f, 'q, 's) gpu_queue \<times> ('k, 't, 'h) handler_world) option" where
  "request_async env req rsp_size cb Q w =
     (case try_new_zeroed (g_hal env) (cap_out env) rsp_size (gw_hal w) of
        (Inl e, h) \<Rightarrow> do {
          ob \<leftarrow> drop_callback cb (gw_objects w);
          Some (Inl e, Q, w\<lparr>gw_objects := ob, gw_hal := h\<rparr>)
        }
      | (Inr output, h) \<Rightarrow> request_async_into_buf env req output cb Q (w\<lparr>gw_hal := h\<rparr>))"

text \<open>
  A blocking request waits for the event of its buffer. \<open>wait b\<close> is what the rest of the system does until the wait
  ends, with the status of the wait.
\<close>

definition request_blocking_buf :: "('f, 'q, 's, 't, 'h, 'k) gq_env
    \<Rightarrow> (nat \<Rightarrow> ('f, 'q, 's) gpu_queue \<Rightarrow> ('k, 't, 'h) handler_world \<Rightarrow> unit nt_result \<times> ('f, 'q, 's) gpu_queue \<times> ('k, 't, 'h) handler_world)
    \<Rightarrow> maybe_inline_buffer \<Rightarrow> maybe_inline_buffer \<Rightarrow> ('f, 'q, 's) gpu_queue \<Rightarrow> ('k, 't, 'h) handler_world
    \<Rightarrow> maybe_inline_buffer nt_result \<times> ('f, 'q, 's) gpu_queue \<times> ('k, 't, 'h) handler_world" where
  "request_blocking_buf env wait input output Q w =
     (let (b, ob) = blocking_new (gw_objects w);
          w = w\<lparr>gw_objects := ob\<rparr>;
          Q = request_async_buf env input output (SetEvent b) Q;
          (r, Q, w) = wait b Q w in
      (case r of
         Inl e \<Rightarrow> (Inl e, Q, w\<lparr>gw_objects := blocking_cancel b (gw_objects w)\<rparr>)
       | Inr _ \<Rightarrow> let (d, ob) = blocking_read b (gw_objects w) in
           (case d of None \<Rightarrow> Inl IO_DEVICE_ERROR | Some x \<Rightarrow> Inr x, Q, w\<lparr>gw_objects := ob\<rparr>)))"

definition request_blocking_into_buf :: "('f, 'q, 's, 't, 'h, 'k) gq_env
    \<Rightarrow> (nat \<Rightarrow> ('f, 'q, 's) gpu_queue \<Rightarrow> ('k, 't, 'h) handler_world \<Rightarrow> unit nt_result \<times> ('f, 'q, 's) gpu_queue \<times> ('k, 't, 'h) handler_world)
    \<Rightarrow> u8 list \<Rightarrow> maybe_inline_buffer \<Rightarrow> ('f, 'q, 's) gpu_queue \<Rightarrow> ('k, 't, 'h) handler_world
    \<Rightarrow> maybe_inline_buffer nt_result \<times> ('f, 'q, 's) gpu_queue \<times> ('k, 't, 'h) handler_world" where
  "request_blocking_into_buf env wait req output Q w =
     (case try_from_value (g_hal env) (cap_in env) req (gw_hal w) of
        (Inl e, h) \<Rightarrow> (Inl e, Q, w\<lparr>gw_hal := drop_buffer (g_hal env) (Some output) h\<rparr>)
      | (Inr input, h) \<Rightarrow> request_blocking_buf env wait input output Q (w\<lparr>gw_hal := h\<rparr>))"

text \<open>The answer is read as a structure of \<open>rsp_size\<close> bytes; a shorter one panics. The buffer is then dropped.\<close>

definition request_blocking :: "('f, 'q, 's, 't, 'h, 'k) gq_env
    \<Rightarrow> (nat \<Rightarrow> ('f, 'q, 's) gpu_queue \<Rightarrow> ('k, 't, 'h) handler_world \<Rightarrow> unit nt_result \<times> ('f, 'q, 's) gpu_queue \<times> ('k, 't, 'h) handler_world)
    \<Rightarrow> u8 list \<Rightarrow> nat \<Rightarrow> ('f, 'q, 's) gpu_queue \<Rightarrow> ('k, 't, 'h) handler_world
    \<Rightarrow> (u8 list nt_result \<times> ('f, 'q, 's) gpu_queue \<times> ('k, 't, 'h) handler_world) option" where
  "request_blocking env wait req rsp_size Q w =
     (case try_new_zeroed (g_hal env) (cap_out env) rsp_size (gw_hal w) of
        (Inl e, h) \<Rightarrow> Some (Inl e, Q, w\<lparr>gw_hal := h\<rparr>)
      | (Inr output, h) \<Rightarrow>
          (case request_blocking_into_buf env wait req output Q (w\<lparr>gw_hal := h\<rparr>) of
             (Inl e, Q, w) \<Rightarrow> Some (Inl e, Q, w)
           | (Inr response, Q, w) \<Rightarrow> do {
               let bs = buffer_bytes (g_hal env) response (gw_hal w);
               assert (rsp_size \<le> length bs);
               Some (Inr (take rsp_size bs), Q, w\<lparr>gw_hal := drop_buffer (g_hal env) (Some response) (gw_hal w)\<rparr>)
             }))"

text \<open>When there is no memory for the answer, the arguments are dropped on return.\<close>

definition request_async_dma :: "('f, 'q, 's, 't, 'h, 'k) gq_env \<Rightarrow> nat \<Rightarrow> slice \<Rightarrow> engine \<Rightarrow> u32 \<Rightarrow> allocations_batch option
    \<Rightarrow> ('f, 'q, 's) gpu_queue \<Rightarrow> ('k, 't, 'h) handler_world
    \<Rightarrow> (unit nt_result \<times> ('f, 'q, 's) gpu_queue \<times> ('k, 't, 'h) handler_world) option" where
  "request_async_dma env rsp_size d e f ds Q w =
     (let cb = (case ds of Some ds \<Rightarrow> OnDmaCompletedWithAllocations e f ds | None \<Rightarrow> OnDmaCompleted e f) in
      case try_new_zeroed (g_hal env) (cap_out env) rsp_size (gw_hal w) of
        (Inl x, h) \<Rightarrow> do {
          ob \<leftarrow> drop_callback cb (gw_objects w);
          Some (Inl x, Q, w\<lparr>gw_objects := ob, gw_hal := h\<rparr>)
        }
      | (Inr output, h) \<Rightarrow> Some (Inr (), request_async_buf env (Dma d) output cb Q, w\<lparr>gw_hal := h\<rparr>))"

definition request_async_dma_batched :: "('f, 'q, 's, 't, 'h, 'k) gq_env \<Rightarrow> nat \<Rightarrow> slice \<Rightarrow> engine \<Rightarrow> u32 \<Rightarrow> nat
    \<Rightarrow> ('f, 'q, 's) gpu_queue \<Rightarrow> ('k, 't, 'h) handler_world
    \<Rightarrow> (unit nt_result \<times> ('f, 'q, 's) gpu_queue \<times> ('k, 't, 'h) handler_world) option" where
  "request_async_dma_batched env rsp_size d e f k Q w =
     (case try_new_zeroed (g_hal env) (cap_out env) rsp_size (gw_hal w) of
        (Inl x, h) \<Rightarrow> do {
          ob \<leftarrow> drop_callback (OnDmaCompletedBatched e f k) (gw_objects w);
          Some (Inl x, Q, w\<lparr>gw_objects := ob, gw_hal := h\<rparr>)
        }
      | (Inr output, h) \<Rightarrow>
          Some (Inr (), request_async_buf env (Dma d) output (OnDmaCompletedBatched e f k) Q, w\<lparr>gw_hal := h\<rparr>))"

subsection \<open>Handler\<close>

definition in_slice :: "('f, 'q, 's, 't, 'h, 'k) gq_env \<Rightarrow> nat \<Rightarrow> maybe_inline_buffer \<Rightarrow> ('f, 'q, 's) gpu_queue \<Rightarrow> slice" where
  "in_slice env i b Q = slot_slice (in_base Q) (cap_in env) i b"

definition out_slice :: "('f, 'q, 's, 't, 'h, 'k) gq_env \<Rightarrow> nat \<Rightarrow> maybe_inline_buffer \<Rightarrow> ('f, 'q, 's) gpu_queue \<Rightarrow> slice" where
  "out_slice env i b Q = slot_slice (out_base Q) (cap_out env) i b"

text \<open>The three assignments into a slot; what was there before is dropped.\<close>

definition fill_slot :: "('f, 'q, 's, 't, 'h, 'k) gq_env \<Rightarrow> nat \<Rightarrow> maybe_inline_buffer option \<Rightarrow> maybe_inline_buffer option \<Rightarrow> callback
    \<Rightarrow> ('f, 'q, 's) gpu_queue \<Rightarrow> ('k, 't, 'h) handler_world \<Rightarrow> (('f, 'q, 's) gpu_queue \<times> ('k, 't, 'h) handler_world) option" where
  "fill_slot env i input output cb Q w = do {
     old_in \<leftarrow> get (inputs Q) i;
     old_out \<leftarrow> get (outputs Q) i;
     old_cb \<leftarrow> get (callbacks Q) i;
     ob \<leftarrow> drop_callback old_cb (gw_objects w);
     let h = drop_buffer (g_hal env) old_in (gw_hal w);
     let h = drop_buffer (g_hal env) old_out h;
     let h = (case input of Some b \<Rightarrow> store_slot (g_hal env) (in_base Q) (cap_in env) i b h | None \<Rightarrow> h);
     let h = (case output of Some b \<Rightarrow> store_slot (g_hal env) (out_base Q) (cap_out env) i b h | None \<Rightarrow> h);
     Some (Q\<lparr>inputs := (inputs Q)[i := input], outputs := (outputs Q)[i := output], callbacks := (callbacks Q)[i := cb]\<rparr>,
           w\<lparr>gw_objects := ob, gw_hal := h\<rparr>)
   }"

definition push_to_device :: "('f, 'q, 's, 't, 'h, 'k) gq_env \<Rightarrow> nat \<Rightarrow> message \<Rightarrow> ('f, 'q, 's) gpu_queue \<Rightarrow> ('k, 't, 'h) handler_world
    \<Rightarrow> (unit nt_result \<times> ('f, 'q, 's) gpu_queue \<times> ('k, 't, 'h) handler_world) option" where
  "push_to_device env i m Q w = do {
     (Q, w) \<leftarrow> fill_slot env i (Some (msg_input m)) (Some (msg_output m)) (msg_callback m) Q w;
     let input = in_slice env i (msg_input m) Q;
     let output = out_slice env i (msg_output m) Q;
     assert (is_dma (msg_input m) \<or> slice_in_one_page input);
     assert (is_dma (msg_output m) \<or> slice_in_one_page output);
     (r, q, h) \<leftarrow> add (g_hal env) [input] [output] (gq_queue Q) (gw_hal w);
     let Q = Q\<lparr>gq_queue := q\<rparr>;
     let w = w\<lparr>gw_hal := h\<rparr>;
     (case r of
        Inl e \<Rightarrow> Some (Inl (nt_status_from e), Q, w)
      | Inr token \<Rightarrow> do {
          ix \<leftarrow> put (indices Q) (unat token) (Some i);
          let Q = Q\<lparr>indices := ix\<rparr>;
          let w = (if should_notify (gq_queue Q)
                   then w\<lparr>gw_transport := notify (g_transport env) (queue_idx (gq_queue Q)) (gw_transport w)\<rparr> else w);
          Some (Inr (), Q, w)
        })
   }"

definition pop_from_device :: "('f, 'q, 's, 't, 'h, 'k) gq_env \<Rightarrow> ('f, 'q, 's) gpu_queue \<Rightarrow> 'h
    \<Rightarrow> ((nat \<times> u32) option nt_result \<times> ('f, 'q, 's) gpu_queue \<times> 'h) option" where
  "pop_from_device env Q h = do {
     peek \<leftarrow> peek_used (gq_queue Q);
     (case peek of None \<Rightarrow> Some (Inr None, Q, h)
      | Some token \<Rightarrow> do {
          ix \<leftarrow> get (indices Q) (unat token);
          (case ix of None \<Rightarrow> Some (Inl INVALID_DEVICE_STATE, Q, h)
           | Some i \<Rightarrow> do {
               input \<leftarrow> get (inputs Q) i;
               output \<leftarrow> get (outputs Q) i;
               (case (input, output) of
                  (Some ib, Some ob) \<Rightarrow> do {
                    (r, q, h) \<leftarrow> pop_used (g_hal env) token [in_slice env i ib Q] [out_slice env i ob Q] (gq_queue Q) h;
                    let Q = Q\<lparr>gq_queue := q\<rparr>;
                    (case r of Inl e \<Rightarrow> Some (Inl (nt_status_from e), Q, h)
                     | Inr n \<Rightarrow> Some (Inr (Some (i, n)), Q\<lparr>indices := (indices Q)[unat token := None]\<rparr>, h))
                  }
                | _ \<Rightarrow> Some (Inl INVALID_DEVICE_STATE, Q, h))
             })
        })
   }"

definition mark_free :: "('f, 'q, 's, 't, 'h, 'k) gq_env \<Rightarrow> nat \<Rightarrow> ('f, 'q, 's) gpu_queue \<Rightarrow> ('k, 't, 'h) handler_world
    \<Rightarrow> (('f, 'q, 's) gpu_queue \<times> ('k, 't, 'h) handler_world) option" where
  "mark_free env i Q w = do {
     (Q, w) \<leftarrow> fill_slot env i None None NoCallback Q w;
     (case aq_push (free_ops env) i (free_slots Q) of
        (None, f) \<Rightarrow> Some (Q\<lparr>free_slots := f\<rparr>, w)
      | (Some _, _) \<Rightarrow> None)
   }"

text \<open>The bytes in a slot; an empty slot panics.\<close>

definition slot_bytes :: "'h hal \<Rightarrow> u64 \<Rightarrow> nat \<Rightarrow> nat \<Rightarrow> maybe_inline_buffer option list \<Rightarrow> 'h \<Rightarrow> u8 list option" where
  "slot_bytes hal base cap i slots h = do {
     b \<leftarrow> get slots i;
     b \<leftarrow> b;
     Some (mem_load hal (slot_slice base cap i b) h)
   }"

definition read_req_header :: "('f, 'q, 's, 't, 'h, 'k) gq_env \<Rightarrow> nat \<Rightarrow> ('f, 'q, 's) gpu_queue \<Rightarrow> 'h \<Rightarrow> ctrl_header option" where
  "read_req_header env i Q h = do {
     bs \<leftarrow> slot_bytes (g_hal env) (in_base Q) (cap_in env) i (inputs Q) h;
     ctrl_from_prefix bs
   }"

definition read_rsp_header :: "('f, 'q, 's, 't, 'h, 'k) gq_env \<Rightarrow> nat \<Rightarrow> ('f, 'q, 's) gpu_queue \<Rightarrow> 'h \<Rightarrow> ctrl_header option" where
  "read_rsp_header env i Q h = do {
     bs \<leftarrow> slot_bytes (g_hal env) (out_base Q) (cap_out env) i (outputs Q) h;
     ctrl_from_prefix bs
   }"

text \<open>Which of the two headers carries the fence number: \<open>Some None\<close> when neither does.\<close>

definition completed_fence :: "ctrl_header \<Rightarrow> ctrl_header \<Rightarrow> u64 option" where
  "completed_fence req rsp =
     (if hdr_flags rsp AND GPU_FLAG_FENCE \<noteq> 0 then Some (hdr_fence_id rsp)
      else if hdr_flags req AND GPU_FLAG_FENCE \<noteq> 0 then Some (hdr_fence_id req)
      else None)"

definition read_completed_fence :: "('f, 'q, 's, 't, 'h, 'k) gq_env \<Rightarrow> nat \<Rightarrow> ('f, 'q, 's) gpu_queue \<Rightarrow> 'h \<Rightarrow> u64 option option" where
  "read_completed_fence env i Q h = do {
     rsp \<leftarrow> read_rsp_header env i Q h;
     req \<leftarrow> read_req_header env i Q h;
     Some (completed_fence req rsp)
   }"

definition check_response :: "('f, 'q, 's, 't, 'h, 'k) gq_env \<Rightarrow> nat \<Rightarrow> ('f, 'q, 's) gpu_queue \<Rightarrow> 'h \<Rightarrow> bool option" where
  "check_response env i Q h = do {
     rsp \<leftarrow> read_rsp_header env i Q h;
     req \<leftarrow> read_req_header env i Q h;
     if is_error (hdr_type rsp) then do {
       bs \<leftarrow> slot_bytes (g_hal env) (in_base Q) (cap_in env) i (inputs Q) h;
       assert (hdr_type req \<noteq> RESOURCE_UNREF \<or> 32 \<le> length bs);
       Some False
     }
     else Some (is_response (hdr_type rsp) \<or> is_cursor (hdr_type req))
   }"

definition request :: "('f, 'q, 's, 't, 'h, 'k) gq_env \<Rightarrow> ('f, 'q, 's) gpu_queue \<Rightarrow> ('k, 't, 'h) handler_world
    \<Rightarrow> (unit option nt_result \<times> ('f, 'q, 's) gpu_queue \<times> ('k, 't, 'h) handler_world) option" where
  "request env Q w =
     (case aq_pop (free_ops env) (free_slots Q) of
        (None, f) \<Rightarrow> Some (Inr None, Q\<lparr>free_slots := f\<rparr>, w)
      | (Some i, f) \<Rightarrow>
          (case aseg_pop (fast_ops env) (slow_ops env) (chan Q) of
             (None, c) \<Rightarrow>
               (case aq_push (free_ops env) i f of
                  (None, f) \<Rightarrow> Some (Inr None, Q\<lparr>free_slots := f, chan := c\<rparr>, w)
                | (Some _, _) \<Rightarrow> None)
           | (Some m, c) \<Rightarrow> do {
               (r, Q, w) \<leftarrow> push_to_device env i m (Q\<lparr>free_slots := f, chan := c\<rparr>) w;
               Some (case r of Inl e \<Rightarrow> Inl e | Inr _ \<Rightarrow> Inr (Some ()), Q, w)
             }))"

partial_function (option) handle_requests :: "('f, 'q, 's, 't, 'h, 'k) gq_env \<Rightarrow> ('f, 'q, 's) gpu_queue \<Rightarrow> ('k, 't, 'h) handler_world
    \<Rightarrow> (('f, 'q, 's) gpu_queue \<times> ('k, 't, 'h) handler_world) option" where
  "handle_requests env Q w = do {
     (r, Q, w) \<leftarrow> request env Q w;
     (case r of Inr None \<Rightarrow> Some (Q, w) | _ \<Rightarrow> handle_requests env Q w)
   }"

text \<open>
  The callback of an answered request. Taking the output buffer of a waiting caller moves an inline buffer out of its
  slot, with the bytes the device wrote.
\<close>

fun taken :: "'h hal \<Rightarrow> slice \<Rightarrow> maybe_inline_buffer \<Rightarrow> 'h \<Rightarrow> maybe_inline_buffer" where
  "taken hal s (Inline _) h = Inline (mem_load hal s h)"
| "taken hal s b h = b"

definition notify_completed :: "('f, 'q, 's, 't, 'h, 'k) gq_env \<Rightarrow> engine \<Rightarrow> u32 \<Rightarrow> ('k, 't, 'h) handler_world \<Rightarrow> ('k, 't, 'h) handler_world option" where
  "notify_completed env e f w = do {
     d \<leftarrow> notify_dma_completed (g_counter env) e f (gw_data w);
     Some (w\<lparr>gw_data := d\<rparr>)
   }"

definition run_callback :: "('f, 'q, 's, 't, 'h, 'k) gq_env \<Rightarrow> nat \<Rightarrow> callback \<Rightarrow> ('f, 'q, 's) gpu_queue \<Rightarrow> ('k, 't, 'h) handler_world
    \<Rightarrow> (('f, 'q, 's) gpu_queue \<times> ('k, 't, 'h) handler_world) option" where
  "run_callback env i cb Q w =
     (case cb of
        NoCallback \<Rightarrow> mark_free env i Q w
      | SetEvent b \<Rightarrow> do {
          out \<leftarrow> get (outputs Q) i;
          out \<leftarrow> out;
          let output = taken (g_hal env) (out_slice env i out Q) out (gw_hal w);
          let Q = Q\<lparr>outputs := (outputs Q)[i := None]\<rparr>;
          let w = (if blocking_cancelled b (gw_objects w)
                   then w\<lparr>gw_hal := drop_buffer (g_hal env) (Some output) (gw_hal w)\<rparr>
                   else w\<lparr>gw_objects := blocking_write b output (gw_objects w)\<rparr>);
          (Q, w) \<leftarrow> mark_free env i Q w;
          Some (Q, w\<lparr>gw_objects := blocking_set b (gw_objects w)\<rparr>)
        }
      | FreeResourceId n \<Rightarrow>
          mark_free env i Q (w\<lparr>gw_data := (gw_data w)\<lparr>resource_id := id_free n (resource_id (gw_data w))\<rparr>\<rparr>)
      | FreeContextId n \<Rightarrow>
          mark_free env i Q (w\<lparr>gw_data := (gw_data w)\<lparr>context_id := id_free n (context_id (gw_data w))\<rparr>\<rparr>)
      | OnDmaCompleted e f \<Rightarrow> do {
          w \<leftarrow> notify_completed env e f w;
          mark_free env i Q w
        }
      | OnDmaCompletedWithAllocations e f ds \<Rightarrow> do {
          ob \<leftarrow> drop_batch ds (gw_objects w);
          w \<leftarrow> notify_completed env e f (w\<lparr>gw_objects := ob\<rparr>);
          mark_free env i Q w
        }
      | OnDmaCompletedBatched e f k \<Rightarrow> do {
          let (inner, ob) = batch_into_inner k (gw_objects w);
          let w = w\<lparr>gw_objects := ob\<rparr>;
          w \<leftarrow> (case inner of None \<Rightarrow> Some w
                | Some ds \<Rightarrow> do { ob \<leftarrow> drop_batch ds ob; notify_completed env e f (w\<lparr>gw_objects := ob\<rparr>) });
          mark_free env i Q w
        })"

definition signal_fence :: "u64 option \<Rightarrow> ('k, 't, 'h) handler_world \<Rightarrow> ('k, 't, 'h) handler_world option" where
  "signal_fence vf w =
     (case vf of None \<Rightarrow> Some w
      | Some f \<Rightarrow> do {
          tracker \<leftarrow> signal f (fence (gw_data w));
          Some (w\<lparr>gw_data := (gw_data w)\<lparr>fence := tracker\<rparr>\<rparr>)
        })"

definition response :: "('f, 'q, 's, 't, 'h, 'k) gq_env \<Rightarrow> ('f, 'q, 's) gpu_queue \<Rightarrow> ('k, 't, 'h) handler_world
    \<Rightarrow> (unit option nt_result \<times> ('f, 'q, 's) gpu_queue \<times> ('k, 't, 'h) handler_world) option" where
  "response env Q w = do {
     (r, Q, h) \<leftarrow> pop_from_device env Q (gw_hal w);
     let w = w\<lparr>gw_hal := h\<rparr>;
     (case r of
        Inl e \<Rightarrow> Some (Inl e, Q, w)
      | Inr None \<Rightarrow> Some (Inr None, Q, w)
      | Inr (Some (i, n)) \<Rightarrow> do {
          cb \<leftarrow> get (callbacks Q) i;
          let Q = Q\<lparr>callbacks := (callbacks Q)[i := NoCallback]\<rparr>;
          _ \<leftarrow> check_response env i Q (gw_hal w);
          vf \<leftarrow> read_completed_fence env i Q (gw_hal w);
          w \<leftarrow> signal_fence vf w;
          (Q, w) \<leftarrow> run_callback env i cb Q w;
          Some (Inr (Some ()), Q, w)
        })
   }"

partial_function (option) handle_responses :: "('f, 'q, 's, 't, 'h, 'k) gq_env \<Rightarrow> ('f, 'q, 's) gpu_queue \<Rightarrow> ('k, 't, 'h) handler_world
    \<Rightarrow> (('f, 'q, 's) gpu_queue \<times> ('k, 't, 'h) handler_world) option" where
  "handle_responses env Q w = do {
     (r, Q, w) \<leftarrow> response env Q w;
     (case r of Inr None \<Rightarrow> Some (Q, w) | _ \<Rightarrow> handle_responses env Q w)
   }"

end
