(* ===== verification/Gpu_Channel.thy ===== *)
theory Gpu_Channel
  imports Gpu_Queue
begin

text \<open>
  The commands of the display driver (\<open>GpuChannel\<close> in \<open>src/gpu-wddm/src/queue.rs\<close>). A channel shares the queue of
  requests and the data of the adapter with the handler thread. An operation builds a message, puts it on the channel
  and either returns or waits for the answer. What the rest of the system does during a wait is the parameter \<open>wait\<close>.
\<close>

type_synonym ('f, 'q, 's, 't, 'h, 'k) waiting =
  "nat \<Rightarrow> ('f, 'q, 's) gpu_queue \<Rightarrow> ('k, 't, 'h) handler_world \<Rightarrow> unit nt_result \<times> ('f, 'q, 's) gpu_queue \<times> ('k, 't, 'h) handler_world"

type_synonym ('f, 'q, 's, 't, 'h, 'k, 'r) outcome =
  "('r nt_result \<times> ('f, 'q, 's) gpu_queue \<times> ('k, 't, 'h) handler_world) option"

text \<open>The operator \<open>?\<close>: an error is the result of the whole operation.\<close>

definition then_ok :: "('a nt_result \<times> 'b) option \<Rightarrow> ('a \<Rightarrow> 'b \<Rightarrow> ('c nt_result \<times> 'b) option) \<Rightarrow> ('c nt_result \<times> 'b) option" where
  "then_ok m f = do { (r, s) \<leftarrow> m; (case r of Inl e \<Rightarrow> Some (Inl e, s) | Inr x \<Rightarrow> f x s) }"

lemma then_ok_simps [simp]:
  "then_ok None f = None" "then_ok (Some (Inl e, s)) f = Some (Inl e, s)" "then_ok (Some (Inr x, s)) f = f x s"
  by (simp_all add: then_ok_def)

section \<open>Identifiers and headers\<close>

definition non_zero :: "u32 option \<Rightarrow> u32 option" where
  "non_zero r = (case r of Some x \<Rightarrow> if x = 0 then None else Some x | None \<Rightarrow> None)"

definition next_resource_id :: "('k, 't, 'h) handler_world \<Rightarrow> u32 option \<times> ('k, 't, 'h) handler_world" where
  "next_resource_id w =
     (let (r, a) = id_next (resource_id (gw_data w)) in (non_zero r, w\<lparr>gw_data := (gw_data w)\<lparr>resource_id := a\<rparr>\<rparr>))"

definition next_context_id :: "('k, 't, 'h) handler_world \<Rightarrow> u32 option \<times> ('k, 't, 'h) handler_world" where
  "next_context_id w =
     (let (r, a) = id_next (context_id (gw_data w)) in (non_zero r, w\<lparr>gw_data := (gw_data w)\<lparr>context_id := a\<rparr>\<rparr>))"

definition free_resource_id :: "u32 \<Rightarrow> ('k, 't, 'h) handler_world \<Rightarrow> ('k, 't, 'h) handler_world" where
  "free_resource_id n w = w\<lparr>gw_data := (gw_data w)\<lparr>resource_id := id_free n (resource_id (gw_data w))\<rparr>\<rparr>"

definition new_header :: "u32 \<Rightarrow> bool \<Rightarrow> u32 option \<Rightarrow> u8 option \<Rightarrow> ('k, 't, 'h) handler_world
    \<Rightarrow> ctrl_header \<times> ('k, 't, 'h) handler_world" where
  "new_header c fenced ctx ring w =
     (let (f, ft) = (if fenced then next_fence (fence (gw_data w)) else (0, fence (gw_data w))) in
      (\<lparr>hdr_type = c,
        hdr_flags = (if fenced then GPU_FLAG_FENCE else 0) OR (if ring = None then 0 else GPU_FLAG_RING_INDEX),
        hdr_fence_id = f, hdr_ctx_id = (case ctx of Some x \<Rightarrow> x | None \<Rightarrow> 0),
        hdr_ring_idx = (case ring of Some x \<Rightarrow> x | None \<Rightarrow> 0)\<rparr>,
       w\<lparr>gw_data := (gw_data w)\<lparr>fence := ft\<rparr>\<rparr>))"

section \<open>Requests that are answered with a header\<close>

definition check_nt :: "ctrl_header \<Rightarrow> u32 \<Rightarrow> unit nt_result" where
  "check_nt h expected = (case check_type h expected of Inl e \<Rightarrow> Inl (nt_status_from e) | Inr u \<Rightarrow> Inr u)"

definition request_header :: "('f, 'q, 's, 't, 'h, 'k) gq_env \<Rightarrow> ('f, 'q, 's, 't, 'h, 'k) waiting \<Rightarrow> u8 list
    \<Rightarrow> ('f, 'q, 's) gpu_queue \<Rightarrow> ('k, 't, 'h) handler_world \<Rightarrow> ('f, 'q, 's, 't, 'h, 'k, ctrl_header) outcome" where
  "request_header env wait req Q w =
     then_ok (request_blocking env wait req CTRL_SIZE Q w)
       (\<lambda>bs (Q, w). do { h \<leftarrow> ctrl_from_prefix bs; Some (Inr h, Q, w) })"

definition request_checked :: "('f, 'q, 's, 't, 'h, 'k) gq_env \<Rightarrow> ('f, 'q, 's, 't, 'h, 'k) waiting \<Rightarrow> u8 list
    \<Rightarrow> ('f, 'q, 's) gpu_queue \<Rightarrow> ('k, 't, 'h) handler_world \<Rightarrow> ('f, 'q, 's, 't, 'h, 'k, unit) outcome" where
  "request_checked env wait req Q w =
     then_ok (request_header env wait req Q w) (\<lambda>h (Q, w). Some (check_nt h OK_NODATA, Q, w))"

section \<open>Capability sets and displays\<close>

datatype capset_id = Virgl | Virgl2 | Gfxstream | Venus | CrossDomain | Drm

fun capset_bits :: "capset_id \<Rightarrow> u32" where
  "capset_bits Virgl = 1"
| "capset_bits Virgl2 = 2"
| "capset_bits Gfxstream = 3"
| "capset_bits Venus = 4"
| "capset_bits CrossDomain = 5"
| "capset_bits Drm = 6"

definition capset_try_from :: "u32 \<Rightarrow> capset_id nt_result" where
  "capset_try_from v =
     (if v = 1 then Inr Virgl else if v = 2 then Inr Virgl2 else if v = 3 then Inr Gfxstream
      else if v = 4 then Inr Venus else if v = 5 then Inr CrossDomain else if v = 6 then Inr Drm
      else Inl INVALID_PARAMETER)"

fun capset_mask :: "capset_id \<Rightarrow> u64" where
  "capset_mask Virgl = push_bit 1 1"
| "capset_mask Virgl2 = push_bit 2 1"
| "capset_mask Gfxstream = push_bit 3 1"
| "capset_mask Venus = push_bit 4 1"
| "capset_mask CrossDomain = push_bit 5 1"
| "capset_mask Drm = push_bit 6 1"

record capset_info =
  ci_version :: u32
  ci_size :: u32

definition get_capset_info :: "('f, 'q, 's, 't, 'h, 'k) gq_env \<Rightarrow> ('f, 'q, 's, 't, 'h, 'k) waiting \<Rightarrow> u32
    \<Rightarrow> ('f, 'q, 's) gpu_queue \<Rightarrow> ('k, 't, 'h) handler_world \<Rightarrow> ('f, 'q, 's, 't, 'h, 'k, u32 \<times> capset_info) outcome" where
  "get_capset_info env wait capset_index Q w =
     (let (h, w) = new_header GET_CAPSET_INFO True None None w in
      then_ok (request_blocking env wait (gpu_3d_bytes (CmdGetCapsetInfo h capset_index)) CAPSET_INFO_SIZE Q w)
        (\<lambda>bs (Q, w). do {
           resp \<leftarrow> capset_info_from bs;
           Some (case check_nt (rc_header resp) OK_CAPSET_INFO of
               Inl e \<Rightarrow> Inl e
             | Inr _ \<Rightarrow> Inr (rc_capset_id resp, \<lparr>ci_version = rc_max_version resp, ci_size = rc_max_size resp\<rparr>), Q, w)
         }))"

text \<open>The loop over the capability sets; a set the driver cannot read is skipped.\<close>

fun capset_loop :: "('f, 'q, 's, 't, 'h, 'k) gq_env \<Rightarrow> ('f, 'q, 's, 't, 'h, 'k) waiting \<Rightarrow> nat list \<Rightarrow> u64 \<Rightarrow> capset_info list
    \<Rightarrow> ('f, 'q, 's) gpu_queue \<Rightarrow> ('k, 't, 'h) handler_world
    \<Rightarrow> ((u64 \<times> capset_info list) \<times> ('f, 'q, 's) gpu_queue \<times> ('k, 't, 'h) handler_world) option" where
  "capset_loop env wait [] found infos Q w = Some ((found, infos), Q, w)"
| "capset_loop env wait (i # ns) found infos Q w = do {
     (r, Q, w) \<leftarrow> get_capset_info env wait (of_nat i) Q w;
     (case r of
        Inl e \<Rightarrow> capset_loop env wait ns found infos Q w
      | Inr (cid, info) \<Rightarrow>
          (case capset_try_from cid of
             Inl e \<Rightarrow> capset_loop env wait ns found infos Q w
           | Inr known \<Rightarrow>
               if unat cid > length infos then capset_loop env wait ns found infos Q w
               else do {
                 infos \<leftarrow> put infos (unat cid) info;
                 capset_loop env wait ns (found OR capset_mask known) infos Q w
               }))
   }"

definition get_capset_infos :: "('f, 'q, 's, 't, 'h, 'k) gq_env \<Rightarrow> ('f, 'q, 's, 't, 'h, 'k) waiting \<Rightarrow> u32
    \<Rightarrow> ('f, 'q, 's) gpu_queue \<Rightarrow> ('k, 't, 'h) handler_world \<Rightarrow> ('f, 'q, 's, 't, 'h, 'k, u64 \<times> capset_info list) outcome" where
  "get_capset_infos env wait num_capsets Q w = do {
     ((found, infos), Q, w) \<leftarrow>
       capset_loop env wait [0..<unat num_capsets] 0 (replicate 64 \<lparr>ci_version = 0, ci_size = 0\<rparr>) Q w;
     Some (if found = 0 then Inl UNSUCCESSFUL else Inr (found, infos), Q, w)
   }"

definition get_capset :: "('f, 'q, 's, 't, 'h, 'k) gq_env \<Rightarrow> ('f, 'q, 's, 't, 'h, 'k) waiting \<Rightarrow> capset_id \<Rightarrow> capset_info
    \<Rightarrow> ('f, 'q, 's) gpu_queue \<Rightarrow> ('k, 't, 'h) handler_world \<Rightarrow> ('f, 'q, 's, 't, 'h, 'k, slice) outcome" where
  "get_capset env wait cid info Q w =
     (let (h, w) = new_header GET_CAPSET True None None w in
      case try_new_zeroed (g_hal env) (cap_out env) (CTRL_SIZE + unat (ci_size info)) (gw_hal w) of
        (Inl e, hl) \<Rightarrow> Some (Inl e, Q, w\<lparr>gw_hal := hl\<rparr>)
      | (Inr output, hl) \<Rightarrow>
          (case request_blocking_into_buf env wait (gpu_3d_bytes (CmdGetCapset h (capset_bits cid) (ci_version info))) output Q
               (w\<lparr>gw_hal := hl\<rparr>) of
             (Inl e, Q, w) \<Rightarrow> Some (Inl e, Q, w)
           | (Inr output, Q, w) \<Rightarrow> do {
               h \<leftarrow> ctrl_from_prefix (buffer_bytes (g_hal env) output (gw_hal w));
               (case check_nt h OK_CAPSET of
                  Inl e \<Rightarrow> Some (Inl e, Q, w\<lparr>gw_hal := drop_buffer (g_hal env) (Some output) (gw_hal w)\<rparr>)
                | Inr _ \<Rightarrow> do {
                    (r, hl) \<leftarrow> into_boxed (g_hal env) output CTRL_SIZE (gw_hal w);
                    Some (r, Q, w\<lparr>gw_hal := hl\<rparr>)
                  })
             }))"

definition get_display_info :: "('f, 'q, 's, 't, 'h, 'k) gq_env \<Rightarrow> ('f, 'q, 's, 't, 'h, 'k) waiting
    \<Rightarrow> ('f, 'q, 's) gpu_queue \<Rightarrow> ('k, 't, 'h) handler_world \<Rightarrow> ('f, 'q, 's, 't, 'h, 'k, display_one list) outcome" where
  "get_display_info env wait Q w =
     (let (h, w) = new_header GET_DISPLAY_INFO True None None w in
      then_ok (request_blocking env wait (ctrl_bytes h) DISPLAY_INFO_SIZE Q w)
        (\<lambda>bs (Q, w). do {
           resp \<leftarrow> display_info_from bs;
           Some (case check_nt (di_header resp) OK_DISPLAY_INFO of Inl e \<Rightarrow> Inl e | Inr _ \<Rightarrow> Inr (pmodes resp), Q, w)
         }))"

text \<open>The result is a new box: where it lies and what it holds.\<close>

definition get_edid :: "('f, 'q, 's, 't, 'h, 'k) gq_env \<Rightarrow> ('f, 'q, 's, 't, 'h, 'k) waiting \<Rightarrow> u32
    \<Rightarrow> ('f, 'q, 's) gpu_queue \<Rightarrow> ('k, 't, 'h) handler_world \<Rightarrow> ('f, 'q, 's, 't, 'h, 'k, u64 \<times> u8 list \<times> u32) outcome" where
  "get_edid env wait scanout Q w =
     (let (h, w) = new_header GET_EDID True None None w in
      case try_new_zeroed (g_hal env) (cap_out env) RESP_EDID_SIZE (gw_hal w) of
        (Inl e, hl) \<Rightarrow> Some (Inl e, Q, w\<lparr>gw_hal := hl\<rparr>)
      | (Inr output, hl) \<Rightarrow>
          (case request_blocking_into_buf env wait (gpu_2d_bytes (CmdGetEdid h scanout)) output Q (w\<lparr>gw_hal := hl\<rparr>) of
             (Inl e, Q, w) \<Rightarrow> Some (Inl e, Q, w)
           | (Inr out, Q, w) \<Rightarrow>
               let (r, hl) =
                 (case resp_edid_from (buffer_bytes (g_hal env) out (gw_hal w)) of
                    None \<Rightarrow> (Inl IO_DEVICE_ERROR, gw_hal w)
                  | Some resp \<Rightarrow>
                      (case check_nt (re_header resp) OK_EDID of
                         Inl e \<Rightarrow> (Inl e, gw_hal w)
                       | Inr _ \<Rightarrow>
                           (case new_box (g_hal env) 1028 (gw_hal w) of
                              (None, hl) \<Rightarrow> (Inl NO_MEMORY, hl)
                            | (Some p, hl) \<Rightarrow> (Inr (p, re_edid resp, re_size resp), hl))))
               in Some (r, Q, w\<lparr>gw_hal := drop_buffer (g_hal env) (Some out) hl\<rparr>)))"

section \<open>Contexts and resources\<close>

definition context_create :: "('f, 'q, 's, 't, 'h, 'k) gq_env \<Rightarrow> ('f, 'q, 's, 't, 'h, 'k) waiting \<Rightarrow> capset_id \<Rightarrow> u8 list
    \<Rightarrow> ('f, 'q, 's) gpu_queue \<Rightarrow> ('k, 't, 'h) handler_world \<Rightarrow> ('f, 'q, 's, 't, 'h, 'k, u32) outcome" where
  "context_create env wait cid name Q w =
     (let (r, w) = next_context_id w in
      case r of None \<Rightarrow> Some (Inl INSUFFICIENT_RESOURCES, Q, w)
      | Some ctx \<Rightarrow>
          if length name > 64 then Some (Inl BUFFER_TOO_SMALL, Q, w)
          else
            let (h, w) = new_header CTX_CREATE True (Some ctx) None w;
                cmd = CmdCtxCreate h (of_nat (length name)) (capset_bits cid) (name @ replicate (64 - length name) 0) in
            then_ok (request_header env wait (gpu_3d_bytes cmd) Q w)
              (\<lambda>h (Q, w). Some (case check_nt h OK_NODATA of Inl e \<Rightarrow> Inl e | Inr _ \<Rightarrow> Inr ctx, Q, w)))"

definition context_destroy :: "('f, 'q, 's, 't, 'h, 'k) gq_env \<Rightarrow> u32
    \<Rightarrow> ('f, 'q, 's) gpu_queue \<Rightarrow> ('k, 't, 'h) handler_world \<Rightarrow> ('f, 'q, 's, 't, 'h, 'k, unit) outcome" where
  "context_destroy env n Q w =
     (let (h, w) = new_header CTX_DESTROY True (Some n) None w in
      request_async env (ctrl_bytes h) CTRL_SIZE (FreeContextId n) Q w)"

text \<open>
  The common part of the two ways to create a resource: take an id, send the command built from it, and give the id
  back when the device refuses.
\<close>

definition create_resource :: "('f, 'q, 's, 't, 'h, 'k) gq_env \<Rightarrow> ('f, 'q, 's, 't, 'h, 'k) waiting \<Rightarrow> u32 \<Rightarrow> (ctrl_header \<Rightarrow> u32 \<Rightarrow> u8 list)
    \<Rightarrow> ('f, 'q, 's) gpu_queue \<Rightarrow> ('k, 't, 'h) handler_world \<Rightarrow> ('f, 'q, 's, 't, 'h, 'k, u32) outcome" where
  "create_resource env wait c cmd Q w =
     (let (r, w) = next_resource_id w in
      case r of None \<Rightarrow> Some (Inl NO_MEMORY, Q, w)
      | Some rid \<Rightarrow>
          let (h, w) = new_header c True None None w in
          then_ok (request_header env wait (cmd h rid) Q w)
            (\<lambda>h (Q, w). case check_nt h OK_NODATA of
               Inl e \<Rightarrow> Some (Inl e, Q, free_resource_id rid w)
             | Inr _ \<Rightarrow> Some (Inr rid, Q, w)))"

definition resource_create_2d :: "('f, 'q, 's, 't, 'h, 'k) gq_env \<Rightarrow> ('f, 'q, 's, 't, 'h, 'k) waiting \<Rightarrow> u32 \<Rightarrow> u32 \<Rightarrow> gpu_format
    \<Rightarrow> ('f, 'q, 's) gpu_queue \<Rightarrow> ('k, 't, 'h) handler_world \<Rightarrow> ('f, 'q, 's, 't, 'h, 'k, u32) outcome" where
  "resource_create_2d env wait width height format =
     create_resource env wait RESOURCE_CREATE_2D (\<lambda>h rid. gpu_2d_bytes (ResourceCreate2D h rid format width height))"

record allocate_3d =
  a3_target :: u32
  a3_format :: u32
  a3_bind :: u32
  a3_width :: u32
  a3_height :: u32
  a3_depth :: u32
  a3_array_size :: u32
  a3_last_level :: u32
  a3_nr_samples :: u32
  a3_flags :: u32
  a3_size :: u64

definition resource_create_3d :: "('f, 'q, 's, 't, 'h, 'k) gq_env \<Rightarrow> ('f, 'q, 's, 't, 'h, 'k) waiting \<Rightarrow> allocate_3d
    \<Rightarrow> ('f, 'q, 's) gpu_queue \<Rightarrow> ('k, 't, 'h) handler_world \<Rightarrow> ('f, 'q, 's, 't, 'h, 'k, u32) outcome" where
  "resource_create_3d env wait a =
     create_resource env wait RESOURCE_CREATE_3D
       (\<lambda>h rid. gpu_3d_bytes (CmdResourceCreate3D h rid (a3_target a) (a3_format a) (a3_bind a) (a3_width a) (a3_height a)
          (a3_depth a) (a3_array_size a) (a3_last_level a) (a3_nr_samples a) (a3_flags a)))"

definition context_attach_resource :: "('f, 'q, 's, 't, 'h, 'k) gq_env \<Rightarrow> ('f, 'q, 's, 't, 'h, 'k) waiting \<Rightarrow> u32 \<Rightarrow> u32
    \<Rightarrow> ('f, 'q, 's) gpu_queue \<Rightarrow> ('k, 't, 'h) handler_world \<Rightarrow> ('f, 'q, 's, 't, 'h, 'k, unit) outcome" where
  "context_attach_resource env wait ctx rid Q w =
     (let (h, w) = new_header CTX_ATTACH_RESOURCE True (Some ctx) None w in
      request_checked env wait (gpu_3d_bytes (CmdCtxResource h rid)) Q w)"

definition context_detach_resource :: "('f, 'q, 's, 't, 'h, 'k) gq_env \<Rightarrow> ('f, 'q, 's, 't, 'h, 'k) waiting \<Rightarrow> u32 \<Rightarrow> u32
    \<Rightarrow> ('f, 'q, 's) gpu_queue \<Rightarrow> ('k, 't, 'h) handler_world \<Rightarrow> ('f, 'q, 's, 't, 'h, 'k, unit) outcome" where
  "context_detach_resource env wait ctx rid Q w =
     (let (h, w) = new_header CTX_DETACH_RESOURCE True (Some ctx) None w in
      request_checked env wait (gpu_3d_bytes (CmdCtxResource h rid)) Q w)"

text \<open>A failed transfer gives back the id of the resource, like a failed creation.\<close>

definition resource_transfer_to_host_2d :: "('f, 'q, 's, 't, 'h, 'k) gq_env \<Rightarrow> ('f, 'q, 's, 't, 'h, 'k) waiting \<Rightarrow> rect \<Rightarrow> u64 \<Rightarrow> u32
    \<Rightarrow> ('f, 'q, 's) gpu_queue \<Rightarrow> ('k, 't, 'h) handler_world \<Rightarrow> ('f, 'q, 's, 't, 'h, 'k, unit) outcome" where
  "resource_transfer_to_host_2d env wait r offset rid Q w =
     (let (h, w) = new_header TRANSFER_TO_HOST_2D True None None w in
      then_ok (request_header env wait (gpu_2d_bytes (TransferToHost2D h r offset rid)) Q w)
        (\<lambda>h (Q, w). case check_nt h OK_NODATA of
           Inl e \<Rightarrow> Some (Inl e, Q, free_resource_id rid w)
         | Inr _ \<Rightarrow> Some (Inr (), Q, w)))"

definition resource_flush :: "('f, 'q, 's, 't, 'h, 'k) gq_env \<Rightarrow> u32 \<Rightarrow> rect
    \<Rightarrow> ('f, 'q, 's) gpu_queue \<Rightarrow> ('k, 't, 'h) handler_world \<Rightarrow> ('f, 'q, 's, 't, 'h, 'k, unit) outcome" where
  "resource_flush env rid r Q w =
     (let (h, w) = new_header RESOURCE_FLUSH False None None w in
      request_async env (gpu_2d_bytes (ResourceFlush h r rid)) CTRL_SIZE NoCallback Q w)"

definition resource_detach_backing :: "('f, 'q, 's, 't, 'h, 'k) gq_env \<Rightarrow> ('f, 'q, 's, 't, 'h, 'k) waiting \<Rightarrow> u32
    \<Rightarrow> ('f, 'q, 's) gpu_queue \<Rightarrow> ('k, 't, 'h) handler_world \<Rightarrow> ('f, 'q, 's, 't, 'h, 'k, unit) outcome" where
  "resource_detach_backing env wait rid Q w =
     (let (h, w) = new_header RESOURCE_DETACH_BACKING True None None w in
      request_checked env wait (gpu_2d_bytes (ResourceDetachBacking h rid)) Q w)"

definition resource_unref :: "('f, 'q, 's, 't, 'h, 'k) gq_env \<Rightarrow> u32
    \<Rightarrow> ('f, 'q, 's) gpu_queue \<Rightarrow> ('k, 't, 'h) handler_world \<Rightarrow> ('f, 'q, 's, 't, 'h, 'k, unit) outcome" where
  "resource_unref env rid Q w =
     (let (h, w) = new_header RESOURCE_UNREF True None None w in
      request_async env (gpu_2d_bytes (ResourceUnref h rid)) CTRL_SIZE (FreeResourceId rid) Q w)"

section \<open>Blobs\<close>

definition resource_create_blob :: "('f, 'q, 's, 't, 'h, 'k) gq_env \<Rightarrow> ('f, 'q, 's, 't, 'h, 'k) waiting \<Rightarrow> u32 \<Rightarrow> u32 \<Rightarrow> u64 \<Rightarrow> u32 \<Rightarrow> u32 \<Rightarrow> u64
    \<Rightarrow> ('f, 'q, 's) gpu_queue \<Rightarrow> ('k, 't, 'h) handler_world \<Rightarrow> ('f, 'q, 's, 't, 'h, 'k, unit) outcome" where
  "resource_create_blob env wait ctx rid blob_id mem fl sz Q w =
     (let (h, w) = new_header RESOURCE_CREATE_BLOB True (Some ctx) None w in
      request_checked env wait (gpu_3d_bytes (CmdResourceCreateBlob h rid mem fl 0 blob_id sz)) Q w)"

text \<open>The memory the host maps is divided into pages, whose offsets the offset allocator hands out.\<close>

definition resource_map_blob :: "('f, 'q, 's, 't, 'h, 'k) gq_env \<Rightarrow> ('f, 'q, 's, 't, 'h, 'k) waiting \<Rightarrow> u32 \<Rightarrow> u32 \<Rightarrow> u64
    \<Rightarrow> ('f, 'q, 's) gpu_queue \<Rightarrow> ('k, 't, 'h) handler_world \<Rightarrow> ('f, 'q, 's, 't, 'h, 'k, allocation \<times> u64 \<times> u32) outcome" where
  "resource_map_blob env wait ctx rid sz Q w = do {
     let n_pages = ucast (sz div PAGE_SIZE);
     (r, a) \<leftarrow> allocate n_pages (offset_allocator (gw_data w));
     let w = w\<lparr>gw_data := (gw_data w)\<lparr>offset_allocator := a\<rparr>\<rparr>;
     (case r of None \<Rightarrow> Some (Inl NO_MEMORY, Q, w)
      | Some al \<Rightarrow>
          let bar_offset = ucast (alloc_offset al) * PAGE_SIZE;
              (h, w) = new_header RESOURCE_MAP_BLOB True (Some ctx) None w in
          then_ok (request_blocking env wait (gpu_blob_bytes (CmdResourceMapBlob h rid bar_offset)) MAP_INFO_SIZE Q w)
            (\<lambda>bs (Q, w). do {
               resp \<leftarrow> map_info_from bs;
               Some (case check_nt (rm_header resp) OK_MAP_INFO of
                   Inl e \<Rightarrow> Inl e
                 | Inr _ \<Rightarrow> Inr (al, bar_offset, rm_map_info resp), Q, w)
             }))
   }"

definition resource_unmap_blob :: "('f, 'q, 's, 't, 'h, 'k) gq_env \<Rightarrow> ('f, 'q, 's, 't, 'h, 'k) waiting \<Rightarrow> u32 \<Rightarrow> allocation
    \<Rightarrow> ('f, 'q, 's) gpu_queue \<Rightarrow> ('k, 't, 'h) handler_world \<Rightarrow> ('f, 'q, 's, 't, 'h, 'k, unit) outcome" where
  "resource_unmap_blob env wait rid al Q w = do {
     a \<leftarrow> free al (offset_allocator (gw_data w));
     let (h, w) = new_header RESOURCE_UNMAP_BLOB True None None (w\<lparr>gw_data := (gw_data w)\<lparr>offset_allocator := a\<rparr>\<rparr>);
     then_ok (request_header env wait (gpu_blob_bytes (CmdResourceUnmapBlob h rid)) Q w) (\<lambda>h (Q, w). Some (Inr (), Q, w))
   }"

section \<open>Scanouts and the cursor\<close>

definition set_scanout :: "('f, 'q, 's, 't, 'h, 'k) gq_env \<Rightarrow> rect \<Rightarrow> u32 \<Rightarrow> u32
    \<Rightarrow> ('f, 'q, 's) gpu_queue \<Rightarrow> ('k, 't, 'h) handler_world \<Rightarrow> ('f, 'q, 's, 't, 'h, 'k, unit) outcome" where
  "set_scanout env r scanout rid Q w =
     (let (h, w) = new_header SET_SCANOUT False None None w in
      request_async env (gpu_2d_bytes (SetScanout h r scanout rid)) CTRL_SIZE NoCallback Q w)"

record blob_info =
  bi_width :: u32
  bi_height :: u32
  bi_format :: u32
  bi_bind :: u32
  bi_modifier :: u64
  bi_strides :: "u32 list"
  bi_offsets :: "u32 list"

definition set_scanout_blob :: "('f, 'q, 's, 't, 'h, 'k) gq_env \<Rightarrow> rect \<Rightarrow> u32 \<Rightarrow> u32 \<Rightarrow> blob_info
    \<Rightarrow> ('f, 'q, 's) gpu_queue \<Rightarrow> ('k, 't, 'h) handler_world \<Rightarrow> ('f, 'q, 's, 't, 'h, 'k, unit) outcome" where
  "set_scanout_blob env r scanout rid info Q w =
     (let (h, w) = new_header SET_SCANOUT_BLOB False None None w in
      request_async env (gpu_blob_bytes (SetScanoutBlob h r scanout rid (bi_width info) (bi_height info) (bi_format info)
        (bi_strides info) (bi_offsets info))) CTRL_SIZE NoCallback Q w)"

definition move_cursor :: "('f, 'q, 's, 't, 'h, 'k) gq_env \<Rightarrow> u32 \<Rightarrow> u32 \<Rightarrow> u32
    \<Rightarrow> ('f, 'q, 's) gpu_queue \<Rightarrow> ('k, 't, 'h) handler_world \<Rightarrow> ('f, 'q, 's, 't, 'h, 'k, unit) outcome" where
  "move_cursor env scanout x y Q w =
     (let (h, w) = new_header MOVE_CURSOR True None None w in
      request_async env (gpu_cursor_bytes (UpdateCursor h \<lparr>cp_scanout_id = scanout, cp_x = x, cp_y = y\<rparr> 0 0 0)) CTRL_SIZE NoCallback Q w)"

definition update_cursor :: "('f, 'q, 's, 't, 'h, 'k) gq_env \<Rightarrow> u32 \<Rightarrow> u32 \<Rightarrow> u32 \<Rightarrow> u32 \<Rightarrow> u32 \<Rightarrow> u32
    \<Rightarrow> ('f, 'q, 's) gpu_queue \<Rightarrow> ('k, 't, 'h) handler_world \<Rightarrow> ('f, 'q, 's, 't, 'h, 'k, unit) outcome" where
  "update_cursor env scanout rid hot_x hot_y x y Q w =
     (let (h, w) = new_header UPDATE_CURSOR True None None w in
      request_async env (gpu_cursor_bytes (UpdateCursor h \<lparr>cp_scanout_id = scanout, cp_x = x, cp_y = y\<rparr> rid hot_x hot_y))
        CTRL_SIZE NoCallback Q w)"

end
