(* ===== verification/Gpu_Command.thy ===== *)
theory Gpu_Command
  imports Gpu_Channel
begin

text \<open>
  The commands that reach the device from user mode: the format in which user mode writes them
  (\<open>CommandHeader\<close>, \<open>CommandBody\<close> in \<open>src/gpu-wddm/src/uapi.rs\<close>), their translation to messages of the device in a
  DMA buffer (\<open>Command\<close> in \<open>src/gpu-wddm/src/command.rs\<close>) and their submission (\<open>GpuChannel\<close>).

  A DMA buffer is its address and its bytes. Building a message in it takes a fence number and panics when the
  buffer is too short.
\<close>

section \<open>The format of user mode\<close>

datatype command_id = Nop | Submit | TransferToHost | TransferFromHost | Fence | MapAperture | UnmapAperture

definition command_id_try_from :: "u16 \<Rightarrow> command_id option" where
  "command_id_try_from v =
     (if v = 0 then Some Nop else if v = 1 then Some Submit else if v = 2 then Some TransferToHost
      else if v = 3 then Some TransferFromHost else if v = 4 then Some Fence else None)"

definition RING_IDX :: u8 where "RING_IDX = 1"
definition SHADOW_VIRGL :: u8 where "SHADOW_VIRGL = 2"
definition NEEDS_PATCH :: u8 where "NEEDS_PATCH = 4"

record command_header =
  ch_id :: command_id
  ch_flags :: u8
  ch_ring :: u8
  ch_size :: u32

definition HEADER_RAW_SIZE :: nat where "HEADER_RAW_SIZE = 8"

text \<open>\<open>CommandHeaderRaw::try_as_hdr\<close> on the bytes of a raw header: unknown ids and unknown flags are refused.\<close>

definition try_as_hdr :: "u8 list \<Rightarrow> command_header option" where
  "try_as_hdr bs = do {
     c \<leftarrow> command_id_try_from (le_field 0 2 bs);
     assert (le_field 2 1 bs AND NOT (RING_IDX OR SHADOW_VIRGL) = (0 :: u8));
     Some \<lparr>ch_id = c, ch_flags = le_field 2 1 bs, ch_ring = le_field 3 1 bs, ch_size = le_field 4 4 bs\<rparr>
   }"

definition header_ring :: "command_header \<Rightarrow> u8 option" where
  "header_ring h = (if ch_flags h AND RING_IDX = RING_IDX then Some (ch_ring h) else None)"

definition shadow_virgl :: "command_header \<Rightarrow> bool" where
  "shadow_virgl h \<longleftrightarrow> ch_flags h AND SHADOW_VIRGL = SHADOW_VIRGL"

record command_transfer =
  ct_res_id :: u32
  ct_stride :: u32
  ct_offset :: u64
  ct_level :: u32
  ct_layer_stride :: u32
  ct_box :: gpu_box

definition TRANSFER_SIZE :: nat where "TRANSFER_SIZE = 48"

definition transfer_from :: "u8 list \<Rightarrow> command_transfer" where
  "transfer_from bs = \<lparr>ct_res_id = le_field 0 4 bs, ct_stride = le_field 4 4 bs, ct_offset = le_field 8 8 bs,
     ct_level = le_field 16 4 bs, ct_layer_stride = le_field 20 4 bs,
     ct_box = \<lparr>box_x = le_field 24 4 bs, box_y = le_field 28 4 bs, box_z = le_field 32 4 bs,
       box_w = le_field 36 4 bs, box_h = le_field 40 4 bs, box_d = le_field 44 4 bs\<rparr>\<rparr>"

text \<open>
  The body of a command is a slice of memory: where it starts and how many bytes or elements it has. Nothing is read
  from it yet, except for a fence.
\<close>

datatype command_body = BodyNop | BodySubmit nat nat | BodyFence u64 | BodyTransferToHost nat nat | BodyTransferFromHost nat nat

text \<open>
  Memory as a driver sees it through a pointer of user mode: \<open>m n\<close> is the byte \<open>n\<close> bytes after the start of the
  command buffer, and \<^term>\<open>None\<close> where nothing is mapped and an access raises an exception.
\<close>

type_synonym user_memory = "nat \<Rightarrow> u8 option"

definition user_bytes :: "user_memory \<Rightarrow> nat \<Rightarrow> nat \<Rightarrow> u8 list option" where
  "user_bytes m start n = those (map m [start..<start + n])"

text \<open>
  \<open>try_commands_from_body\<close> for elements of \<open>width\<close> bytes and the given alignment, in a buffer at address \<open>base\<close>:
  the number of elements.
\<close>

definition try_commands_from_body :: "u64 \<Rightarrow> nat \<Rightarrow> nat \<Rightarrow> nat \<Rightarrow> command_header \<Rightarrow> nat option" where
  "try_commands_from_body base width alignment body h =
     (if (unat base + body) mod alignment \<noteq> 0 then None
      else if unat (ch_size h) mod width \<noteq> 0 then None
      else Some (unat (ch_size h) div width))"

definition command_slice :: "user_memory \<Rightarrow> u64 \<Rightarrow> nat \<Rightarrow> command_header \<Rightarrow> command_body option" where
  "command_slice m base body h =
     (case ch_id h of
        Nop \<Rightarrow> Some BodyNop
      | Submit \<Rightarrow> do { n \<leftarrow> try_commands_from_body base 1 1 body h; Some (BodySubmit body n) }
      | Fence \<Rightarrow> do {
          n \<leftarrow> try_commands_from_body base 8 8 body h;
          assert (n = 1);
          bs \<leftarrow> user_bytes m body 8;
          Some (BodyFence (le_field 0 8 bs))
        }
      | TransferToHost \<Rightarrow> do { n \<leftarrow> try_commands_from_body base TRANSFER_SIZE 1 body h; Some (BodyTransferToHost body n) }
      | TransferFromHost \<Rightarrow> do { n \<leftarrow> try_commands_from_body base TRANSFER_SIZE 1 body h; Some (BodyTransferFromHost body n) }
      | _ \<Rightarrow> None)"

fun body_len :: "command_body \<Rightarrow> nat" where
  "body_len BodyNop = 0"
| "body_len (BodySubmit _ _) = 1"
| "body_len (BodyFence _) = 1"
| "body_len (BodyTransferToHost _ n) = n"
| "body_len (BodyTransferFromHost _ n) = n"

text \<open>The items of a body, read from memory as they are needed.\<close>

datatype body_item = ItemNop | ItemSubmit "u8 list" | ItemFence u64 | ItemTransferToHost command_transfer | ItemTransferFromHost command_transfer

fun body_items :: "user_memory \<Rightarrow> command_body \<Rightarrow> body_item option list" where
  "body_items m BodyNop = []"
| "body_items m (BodySubmit start n) = [map_option ItemSubmit (user_bytes m start n)]"
| "body_items m (BodyFence f) = [Some (ItemFence f)]"
| "body_items m (BodyTransferToHost start n) =
     map (\<lambda>i. map_option (\<lambda>bs. ItemTransferToHost (transfer_from bs)) (user_bytes m (start + i * TRANSFER_SIZE) TRANSFER_SIZE)) [0..<n]"
| "body_items m (BodyTransferFromHost start n) =
     map (\<lambda>i. map_option (\<lambda>bs. ItemTransferFromHost (transfer_from bs)) (user_bytes m (start + i * TRANSFER_SIZE) TRANSFER_SIZE)) [0..<n]"

section \<open>Messages in a DMA buffer\<close>

record command =
  cmd_id :: command_id
  cmd_flags :: u8
  cmd_ring :: u8
  cmd_dma :: "slice option"

definition command_new :: "command_id \<Rightarrow> u8 option \<Rightarrow> u8 \<Rightarrow> slice option \<Rightarrow> command" where
  "command_new c ring fl d =
     (case ring of Some r \<Rightarrow> \<lparr>cmd_id = c, cmd_flags = RING_IDX OR fl, cmd_ring = r, cmd_dma = d\<rparr>
      | None \<Rightarrow> \<lparr>cmd_id = c, cmd_flags = fl, cmd_ring = 0, cmd_dma = d\<rparr>)"

definition command_nop :: command where
  "command_nop = command_new Nop None 0 None"

definition dma_of :: "command \<Rightarrow> slice option" where
  "dma_of c = (if cmd_flags c AND NEEDS_PATCH = NEEDS_PATCH then None else cmd_dma c)"

definition command_len :: "command \<Rightarrow> nat" where
  "command_len c = (case cmd_dma c of Some s \<Rightarrow> unat (slice_len s) | None \<Rightarrow> 0)"

definition SUBMIT_3D_SIZE :: nat where "SUBMIT_3D_SIZE = 32"
definition TRANSFER_HOST_SIZE :: nat where "TRANSFER_HOST_SIZE = 72"

text \<open>\<^term>\<open>None\<close> is the panic on a fence, which is never sent to the device.\<close>

fun body_dma_len :: "command_body \<Rightarrow> nat option" where
  "body_dma_len BodyNop = Some 0"
| "body_dma_len (BodyFence _) = None"
| "body_dma_len (BodySubmit start n) = Some ((SUBMIT_3D_SIZE + n) * body_len (BodySubmit start n))"
| "body_dma_len (BodyTransferToHost start n) = Some (TRANSFER_HOST_SIZE * body_len (BodyTransferToHost start n))"
| "body_dma_len (BodyTransferFromHost start n) = Some (TRANSFER_HOST_SIZE * body_len (BodyTransferFromHost start n))"

fun item_dma_len :: "body_item \<Rightarrow> nat option" where
  "item_dma_len ItemNop = Some 0"
| "item_dma_len (ItemFence _) = None"
| "item_dma_len (ItemSubmit bs) = Some (SUBMIT_3D_SIZE + length bs)"
| "item_dma_len (ItemTransferToHost _) = Some TRANSFER_HOST_SIZE"
| "item_dma_len (ItemTransferFromHost _) = Some TRANSFER_HOST_SIZE"

text \<open>A message at the start of the buffer \<open>dma\<close>, which lies at \<open>base\<close>: its slice and the buffer after writing it.\<close>

definition write_dma :: "u8 list \<Rightarrow> u64 \<Rightarrow> u8 list \<Rightarrow> (slice \<times> u8 list) option" where
  "write_dma bs base dma = do {
     assert (length bs \<le> length dma);
     Some (\<lparr>slice_ptr = base, slice_len = of_nat (length bs)\<rparr>, bs @ drop (length bs) dma)
   }"

definition transfer_bytes :: "ctrl_header \<Rightarrow> command_transfer \<Rightarrow> u8 list" where
  "transfer_bytes h t = gpu_3d_bytes (CmdTransferHost3D h (ct_box t) (ct_offset t) (ct_res_id t) (ct_level t) (ct_stride t) (ct_layer_stride t))"

fun item_id :: "body_item \<Rightarrow> command_id" where
  "item_id ItemNop = Nop"
| "item_id (ItemSubmit _) = Submit"
| "item_id (ItemFence _) = Fence"
| "item_id (ItemTransferToHost _) = TransferToHost"
| "item_id (ItemTransferFromHost _) = TransferFromHost"

text \<open>\<open>from_item\<close>: an empty item has no message, a fence panics.\<close>

fun from_item :: "u32 option \<Rightarrow> body_item \<Rightarrow> u8 option \<Rightarrow> u64 \<Rightarrow> u8 list \<Rightarrow> ('k, 't, 'h) handler_world
    \<Rightarrow> (command \<times> u8 list \<times> ('k, 't, 'h) handler_world) option" where
  "from_item ctx ItemNop ring base dma w = Some (command_new Nop ring 0 None, dma, w)"
| "from_item ctx (ItemSubmit bs) ring base dma w = do {
     let (h, w) = new_header SUBMIT_3D True ctx ring w;
     (s, dma) \<leftarrow> write_dma (gpu_3d_bytes (CmdSubmit3D h (of_nat (length bs))) @ bs) base dma;
     Some (command_new Submit ring 0 (Some s), dma, w)
   }"
| "from_item ctx (ItemTransferToHost t) ring base dma w = do {
     let (h, w) = new_header TRANSFER_TO_HOST_3D True ctx ring w;
     (s, dma) \<leftarrow> write_dma (transfer_bytes h t) base dma;
     Some (command_new TransferToHost ring 0 (Some s), dma, w)
   }"
| "from_item ctx (ItemTransferFromHost t) ring base dma w = do {
     let (h, w) = new_header TRANSFER_FROM_HOST_3D True ctx ring w;
     (s, dma) \<leftarrow> write_dma (transfer_bytes h t) base dma;
     Some (command_new TransferFromHost ring 0 (Some s), dma, w)
   }"
| "from_item ctx (ItemFence f) ring base dma w = None"

subsection \<open>Copies between resources\<close>

text \<open>Rectangles have signed coordinates; their sums and differences wrap around.\<close>

record rect_lr =
  r_left :: u32
  r_top :: u32
  r_right :: u32
  r_bottom :: u32

definition smin :: "u32 \<Rightarrow> u32 \<Rightarrow> u32" where "smin a b = (if sint a \<le> sint b then a else b)"
definition smax :: "u32 \<Rightarrow> u32 \<Rightarrow> u32" where "smax a b = (if sint a \<le> sint b then b else a)"

definition rect_cover :: "rect_lr \<Rightarrow> rect_lr \<Rightarrow> rect_lr" where
  "rect_cover a b = \<lparr>r_left = smin (r_left a) (r_left b), r_top = smin (r_top a) (r_top b),
     r_right = smax (r_right a) (r_right b), r_bottom = smax (r_bottom a) (r_bottom b)\<rparr>"

definition rect_shift :: "rect_lr \<Rightarrow> u32 \<times> u32 \<Rightarrow> rect_lr" where
  "rect_shift r d = \<lparr>r_left = r_left r + fst d, r_top = r_top r + snd d, r_right = r_right r + fst d, r_bottom = r_bottom r + snd d\<rparr>"

definition top_left :: "rect_lr \<Rightarrow> u32 \<times> u32 \<times> u32" where
  "top_left r = (r_left r, r_top r, 0)"

definition dimensions :: "rect_lr \<Rightarrow> u32 \<times> u32 \<times> u32" where
  "dimensions r = (r_right r - r_left r, r_bottom r - r_top r, 1)"

definition copy_region_words :: "u32 \<Rightarrow> u32 \<Rightarrow> u32 \<times> u32 \<times> u32 \<Rightarrow> u32 \<Rightarrow> u32 \<Rightarrow> u32 \<times> u32 \<times> u32 \<Rightarrow> u32 \<times> u32 \<times> u32 \<Rightarrow> u32 list" where
  "copy_region_words dst_id dst_level dp src_id src_level sp dim =
     [17 OR push_bit 8 0 OR push_bit 16 13, dst_id, dst_level, fst dp, fst (snd dp), snd (snd dp),
      src_id, src_level, fst sp, fst (snd sp), snd (snd sp), fst dim, fst (snd dim), snd (snd dim)]"

definition set_type_words :: "u32 \<Rightarrow> u32 \<Rightarrow> u32 \<Rightarrow> u32 \<Rightarrow> u32 \<Rightarrow> u32 \<Rightarrow> u64 \<Rightarrow> u32 \<Rightarrow> u32 \<Rightarrow> u32 list" where
  "set_type_words rid format bnd width height usage modifier stride offset =
     [49 OR push_bit 8 0 OR push_bit 16 10, rid, format, bnd, width, height, usage,
      ucast (modifier AND 0xFFFFFFFF), ucast (drop_bit 32 modifier AND 0xFFFFFFFF), stride, offset]"

definition resource_layout_words :: "u32 \<Rightarrow> u32 \<Rightarrow> u32 list" where
  "resource_layout_words out target = [63 OR push_bit 8 0 OR push_bit 16 2, out, target]"

definition words_bytes :: "u32 list \<Rightarrow> u8 list" where
  "words_bytes ws = concat (map le32 ws)"

text \<open>A command for the renderer of the host in front of its body.\<close>

definition submit_words :: "u32 option \<Rightarrow> u8 option \<Rightarrow> u8 list \<Rightarrow> u64 \<Rightarrow> u8 list \<Rightarrow> ('k, 't, 'h) handler_world
    \<Rightarrow> (command \<times> u8 list \<times> ('k, 't, 'h) handler_world) option" where
  "submit_words ctx ring body base dma w = do {
     let (h, w) = new_header SUBMIT_3D True ctx ring w;
     (s, dma) \<leftarrow> write_dma (gpu_3d_bytes (CmdSubmit3D h (of_nat (length body))) @ body) base dma;
     Some (command_new Submit ring 0 (Some s), dma, w)
   }"

definition virgl_blit_dma_len :: "rect_lr list \<Rightarrow> nat" where
  "virgl_blit_dma_len rects = SUBMIT_3D_SIZE + 56 * length rects"

definition virgl_blit :: "u32 option \<Rightarrow> u32 \<Rightarrow> u32 \<Rightarrow> u32 \<times> u32 \<Rightarrow> rect_lr list \<Rightarrow> u8 option \<Rightarrow> u64 \<Rightarrow> u8 list \<Rightarrow> ('k, 't, 'h) handler_world
    \<Rightarrow> (command \<times> u8 list \<times> ('k, 't, 'h) handler_world) option" where
  "virgl_blit ctx src dst delta rects ring =
     submit_words ctx ring (concat (map (\<lambda>r. words_bytes (copy_region_words dst 0 (top_left r) src 0 (top_left (rect_shift r delta)) (dimensions r))) rects))"

definition virgl_set_type_dma_len :: nat where
  "virgl_set_type_dma_len = SUBMIT_3D_SIZE + 44"

text \<open>The driver only passes on the first plane.\<close>

definition virgl_set_type :: "u32 option \<Rightarrow> u32 \<Rightarrow> blob_info \<Rightarrow> u8 option \<Rightarrow> u64 \<Rightarrow> u8 list \<Rightarrow> ('k, 't, 'h) handler_world
    \<Rightarrow> (command \<times> u8 list \<times> ('k, 't, 'h) handler_world) option" where
  "virgl_set_type ctx rid info ring =
     submit_words ctx ring (words_bytes (set_type_words rid (bi_format info) (bi_bind info) (bi_width info) (bi_height info) 0
       (bi_modifier info) (bi_strides info ! 0) (bi_offsets info ! 0)))"

definition virgl_get_resource_layout :: "u32 \<Rightarrow> u32 \<Rightarrow> u32 \<Rightarrow> u8 option \<Rightarrow> u64 \<Rightarrow> u8 list \<Rightarrow> ('k, 't, 'h) handler_world
    \<Rightarrow> (command \<times> u8 list \<times> ('k, 't, 'h) handler_world) option" where
  "virgl_get_resource_layout ctx out target ring = submit_words (Some ctx) ring (words_bytes (resource_layout_words out target))"

subsection \<open>Backing memory\<close>

definition attach_backing_dma_len :: "nat \<Rightarrow> nat" where
  "attach_backing_dma_len n_pages = 32 + n_pages * 16"

definition attach_header_bytes :: "ctrl_header \<Rightarrow> u32 \<Rightarrow> nat \<Rightarrow> u8 list" where
  "attach_header_bytes h rid n_pages = ctrl_bytes h @ le32 rid @ le32 (of_nat n_pages)"

text \<open>
  The loop goes over all pages of the list from \<open>offset\<close> on and writes into an array of \<open>n_pages\<close> entries: more pages
  than entries panic, and entries without a page keep what the buffer held.
\<close>

definition attach_backing :: "u32 \<Rightarrow> u64 list \<Rightarrow> nat \<Rightarrow> nat \<Rightarrow> u64 \<Rightarrow> u8 list \<Rightarrow> ('k, 't, 'h) handler_world
    \<Rightarrow> (command \<times> u8 list \<times> ('k, 't, 'h) handler_world) option" where
  "attach_backing rid mdl_pages offset n_pages base dma w = do {
     let (h, w) = new_header RESOURCE_ATTACH_BACKING True None None w;
     assert (attach_backing_dma_len n_pages \<le> length dma);
     assert (offset \<le> length mdl_pages);
     let phys_pages = drop offset mdl_pages;
     assert (length phys_pages \<le> n_pages);
     let bs = attach_header_bytes h rid n_pages
       @ concat (map (\<lambda>p. mem_entry_bytes \<lparr>me_addr = p * PAGE_SIZE, me_length = ucast PAGE_SIZE\<rparr>) phys_pages);
     Some (command_new MapAperture None 0 (Some \<lparr>slice_ptr = base, slice_len = of_nat (attach_backing_dma_len n_pages)\<rparr>),
       bs @ drop (length bs) dma, w)
   }"

text \<open>\<open>paddr i\<close> is the physical address of page \<open>i\<close> of the box, which has \<open>len\<close> bytes.\<close>

definition attach_backing_box :: "u32 \<Rightarrow> (nat \<Rightarrow> u64) \<Rightarrow> nat \<Rightarrow> u64 \<Rightarrow> u8 list \<Rightarrow> ('k, 't, 'h) handler_world
    \<Rightarrow> (command \<times> u8 list \<times> ('k, 't, 'h) handler_world) option" where
  "attach_backing_box rid paddr box_len base dma w = do {
     let n_pages = (box_len + 4095) div 4096;
     let (h, w) = new_header RESOURCE_ATTACH_BACKING True None None w;
     (s, dma) \<leftarrow> write_dma (attach_header_bytes h rid n_pages
       @ concat (map (\<lambda>i. mem_entry_bytes \<lparr>me_addr = paddr i, me_length = ucast PAGE_SIZE\<rparr>) [0..<n_pages])) base dma;
     Some (command_new MapAperture None 0 (Some s), dma, w)
   }"

definition detach_backing_dma_len :: nat where "detach_backing_dma_len = 32"

definition detach_backing :: "u32 \<Rightarrow> u64 \<Rightarrow> u8 list \<Rightarrow> ('k, 't, 'h) handler_world
    \<Rightarrow> (command \<times> u8 list \<times> ('k, 't, 'h) handler_world) option" where
  "detach_backing rid base dma w = do {
     let (h, w) = new_header RESOURCE_DETACH_BACKING True None None w;
     (s, dma) \<leftarrow> write_dma (gpu_2d_bytes (ResourceDetachBacking h rid)) base dma;
     Some (command_new UnmapAperture None 0 (Some s), dma, w)
   }"

section \<open>Submission\<close>

definition submit_async :: "('f, 'q, 's, 't, 'h, 'k) gq_env \<Rightarrow> slice
    \<Rightarrow> ('f, 'q, 's) gpu_queue \<Rightarrow> ('k, 't, 'h) handler_world \<Rightarrow> ('f, 'q, 's, 't, 'h, 'k, unit) outcome" where
  "submit_async env s Q w =
     (case try_new_zeroed (g_hal env) (cap_out env) CTRL_SIZE (gw_hal w) of
        (Inl e, h) \<Rightarrow> Some (Inl e, Q, w\<lparr>gw_hal := drop_buffer (g_hal env) (Some (Boxed s)) h\<rparr>)
      | (Inr output, h) \<Rightarrow> Some (Inr (), request_async_buf env (Boxed s) output NoCallback Q, w\<lparr>gw_hal := h\<rparr>))"

definition submit_command_sync :: "('f, 'q, 's, 't, 'h, 'k) gq_env \<Rightarrow> ('f, 'q, 's, 't, 'h, 'k) waiting \<Rightarrow> command
    \<Rightarrow> ('f, 'q, 's) gpu_queue \<Rightarrow> ('k, 't, 'h) handler_world \<Rightarrow> ('f, 'q, 's, 't, 'h, 'k, unit) outcome" where
  "submit_command_sync env wait cmd Q w = do {
     assert (cmd_id cmd \<noteq> Nop);
     (case dma_of cmd of
        None \<Rightarrow> Some (Inl UNSUCCESSFUL, Q, w)
      | Some s \<Rightarrow>
          (case try_new_zeroed (g_hal env) (cap_out env) CTRL_SIZE (gw_hal w) of
             (Inl e, h) \<Rightarrow> Some (Inl e, Q, w\<lparr>gw_hal := h\<rparr>)
           | (Inr output, h) \<Rightarrow>
               (case request_blocking_buf env wait (Dma s) output Q (w\<lparr>gw_hal := h\<rparr>) of
                  (Inl e, Q, w) \<Rightarrow> Some (Inl e, Q, w)
                | (Inr rsp, Q, w) \<Rightarrow> Some (Inr (), Q, w\<lparr>gw_hal := drop_buffer (g_hal env) (Some rsp) (gw_hal w)\<rparr>))))
   }"

definition submit_world :: "('f, 'q, 's, 't, 'h, 'k) gq_env \<Rightarrow> engine \<Rightarrow> u32 \<Rightarrow> ('k, 't, 'h) handler_world \<Rightarrow> ('k, 't, 'h) handler_world option" where
  "submit_world env e f w = do { d \<leftarrow> submit_engine (g_counter env) e f (gw_data w); Some (w\<lparr>gw_data := d\<rparr>) }"

text \<open>The allocations of a command that is not handed on are dropped on return.\<close>

definition drop_allocations :: "allocations_batch option \<Rightarrow> ('k, 't, 'h) handler_world \<Rightarrow> ('k, 't, 'h) handler_world option" where
  "drop_allocations ds w =
     (case ds of None \<Rightarrow> Some w | Some ds \<Rightarrow> do { ob \<leftarrow> drop_batch ds (gw_objects w); Some (w\<lparr>gw_objects := ob\<rparr>) })"

definition submit_command :: "('f, 'q, 's, 't, 'h, 'k) gq_env \<Rightarrow> engine \<Rightarrow> u32 \<Rightarrow> command \<Rightarrow> allocations_batch option
    \<Rightarrow> ('f, 'q, 's) gpu_queue \<Rightarrow> ('k, 't, 'h) handler_world \<Rightarrow> ('f, 'q, 's, 't, 'h, 'k, unit) outcome" where
  "submit_command env e f cmd ds Q w = do {
     w \<leftarrow> submit_world env e f w;
     if cmd_id cmd = Nop then do {
       w \<leftarrow> notify_completed env e f w;
       w \<leftarrow> drop_allocations ds w;
       Some (Inr (), Q, w)
     } else
       (case dma_of cmd of
          None \<Rightarrow> do { w \<leftarrow> drop_allocations ds w; Some (Inl UNSUCCESSFUL, Q, w) }
        | Some s \<Rightarrow> request_async_dma env CTRL_SIZE s e f ds Q w)
   }"

text \<open>Reference-counted batches: a new one has one reference, each command of a batch takes another.\<close>

definition batch_new :: "allocations_batch \<Rightarrow> objects \<Rightarrow> nat \<times> objects" where
  "batch_new ds ob = (next_object ob, ob\<lparr>next_object := next_object ob + 1, batches := (batches ob)(next_object ob \<mapsto> (1, ds))\<rparr>)"

definition batch_clone :: "nat \<Rightarrow> objects \<Rightarrow> objects" where
  "batch_clone k ob = ob\<lparr>batches := (batches ob)(k := map_option (\<lambda>(n, ds). (n + 1, ds)) (batches ob k))\<rparr>"

fun submit_batch_loop :: "('f, 'q, 's, 't, 'h, 'k) gq_env \<Rightarrow> engine \<Rightarrow> u32 \<Rightarrow> nat \<Rightarrow> command list
    \<Rightarrow> ('f, 'q, 's) gpu_queue \<Rightarrow> ('k, 't, 'h) handler_world \<Rightarrow> ('f, 'q, 's, 't, 'h, 'k, unit) outcome" where
  "submit_batch_loop env e f k [] Q w = Some (Inr (), Q, w)"
| "submit_batch_loop env e f k (cmd # cmds) Q w = do {
     assert (cmd_id cmd \<noteq> Nop);
     s \<leftarrow> dma_of cmd;
     then_ok (request_async_dma_batched env CTRL_SIZE s e f k Q (w\<lparr>gw_objects := batch_clone k (gw_objects w)\<rparr>))
       (\<lambda>_ (Q, w). submit_batch_loop env e f k cmds Q w)
   }"

definition submit_command_batch :: "('f, 'q, 's, 't, 'h, 'k) gq_env \<Rightarrow> engine \<Rightarrow> u32 \<Rightarrow> command list \<Rightarrow> allocations_batch
    \<Rightarrow> ('f, 'q, 's) gpu_queue \<Rightarrow> ('k, 't, 'h) handler_world \<Rightarrow> ('f, 'q, 's, 't, 'h, 'k, unit) outcome" where
  "submit_command_batch env e f cmds ds Q w = do {
     assert (length cmds > 1);
     w \<leftarrow> submit_world env e f w;
     let (k, ob) = batch_new ds (gw_objects w);
     (r, Q, w) \<leftarrow> submit_batch_loop env e f k cmds Q (w\<lparr>gw_objects := ob\<rparr>);
     (case r of
        Inl x \<Rightarrow> do {
          ob \<leftarrow> drop_callback (OnDmaCompletedBatched e f k) (gw_objects w);
          Some (Inl x, Q, w\<lparr>gw_objects := ob\<rparr>)
        }
      | Inr _ \<Rightarrow> do {
          let Q = Q\<lparr>chan_event := True\<rparr>;
          let (inner, ob) = batch_into_inner k (gw_objects w);
          let w = w\<lparr>gw_objects := ob\<rparr>;
          (case inner of
             None \<Rightarrow> Some (Inr (), Q, w)
           | Some ds \<Rightarrow> do {
               ob \<leftarrow> drop_batch ds ob;
               w \<leftarrow> notify_completed env e f (w\<lparr>gw_objects := ob\<rparr>);
               Some (Inr (), Q, w)
             })
        })
   }"

text \<open>A message with a body of its own: the two buffers are allocated one after the other.\<close>

definition submit_buffers :: "('f, 'q, 's, 't, 'h, 'k) gq_env \<Rightarrow> ctrl_header \<Rightarrow> u8 list \<Rightarrow> callback
    \<Rightarrow> ('f, 'q, 's) gpu_queue \<Rightarrow> ('k, 't, 'h) handler_world \<Rightarrow> ('f, 'q, 's, 't, 'h, 'k, unit) outcome" where
  "submit_buffers env hdr body cb Q w =
     (case try_from_hdr_with_body (g_hal env) (cap_in env) (gpu_3d_bytes (CmdSubmit3D hdr (of_nat (length body)))) body (gw_hal w) of
        (Inl x, h) \<Rightarrow> Some (Inl x, Q, w\<lparr>gw_hal := h\<rparr>)
      | (Inr input, h) \<Rightarrow>
          (case try_new_zeroed (g_hal env) (cap_out env) CTRL_SIZE h of
             (Inl x, h) \<Rightarrow> Some (Inl x, Q, w\<lparr>gw_hal := drop_buffer (g_hal env) (Some input) h\<rparr>)
           | (Inr output, h) \<Rightarrow> Some (Inr (), request_async_buf env input output cb Q, w\<lparr>gw_hal := h\<rparr>)))"

definition submit_command_buffer :: "('f, 'q, 's, 't, 'h, 'k) gq_env \<Rightarrow> engine \<Rightarrow> u32 \<Rightarrow> u32 \<Rightarrow> u8 option \<Rightarrow> u8 list
    \<Rightarrow> ('f, 'q, 's) gpu_queue \<Rightarrow> ('k, 't, 'h) handler_world \<Rightarrow> ('f, 'q, 's, 't, 'h, 'k, unit) outcome" where
  "submit_command_buffer env e f ctx ring body Q w = do {
     w \<leftarrow> submit_world env e f w;
     let (hdr, w) = new_header SUBMIT_3D True (Some ctx) ring w;
     submit_buffers env hdr body (OnDmaCompleted e f) Q w
   }"

definition submit_command_buffer_with_fence :: "('f, 'q, 's, 't, 'h, 'k) gq_env \<Rightarrow> u32 \<Rightarrow> u8 option \<Rightarrow> u8 list
    \<Rightarrow> ('f, 'q, 's) gpu_queue \<Rightarrow> ('k, 't, 'h) handler_world \<Rightarrow> ('f, 'q, 's, 't, 'h, 'k, u64) outcome" where
  "submit_command_buffer_with_fence env ctx ring body Q w = do {
     let (hdr, w) = new_header SUBMIT_3D True (Some ctx) ring w;
     (r, Q, w) \<leftarrow> submit_buffers env hdr body NoCallback Q w;
     Some (case r of Inl x \<Rightarrow> Inl x | Inr _ \<Rightarrow> Inr (hdr_fence_id hdr), Q, w)
   }"

end
