(* ===== verification/Gpu_Device.thy ===== *)
theory Gpu_Device
  imports Gpu_Command
begin

text \<open>
  The rendering contexts of a device object of the display driver and the translation of a command buffer of user mode
  (\<open>Device\<close> in \<open>src/gpu-wddm/src/device.rs\<close>). \<open>render\<close> reads the command buffer through a pointer of user mode, under an
  exception handler; the model takes the memory not to change during the call. The copy of the patch locations, with
  which \<open>render\<close> begins, is left out.
\<close>

section \<open>Names\<close>

definition ascii :: "string \<Rightarrow> u8 list" where
  "ascii s = map of_char s"

text \<open>\<open>ContextInit::debug_name\<close>: the bytes before the first zero.\<close>

definition debug_name :: "u8 list \<Rightarrow> u8 list" where
  "debug_name raw = (let name = takeWhile (\<lambda>b. b \<noteq> 0) raw in if valid_utf8 name then name else ascii ''<invalid>'')"

text \<open>\<open>BufferWriter\<close> of \<open>src/gpu-wddm/src/logger.rs\<close>: what does not fit is cut off; \<open>as_str\<close> panics on a partial character.\<close>

definition write_str :: "nat \<Rightarrow> u8 list \<Rightarrow> u8 list \<Rightarrow> u8 list" where
  "write_str max_len s buf = buf @ take (max_len - length buf) s"

definition as_str :: "u8 list \<Rightarrow> u8 list option" where
  "as_str buf = (if valid_utf8 buf then Some buf else None)"

section \<open>Contexts\<close>

record context_3d =
  cx_id :: u32
  cx_capset :: capset_id

record gpu_device =
  main_context :: "context_3d option"
  virgl_blit_context :: "context_3d option"

definition device_new :: gpu_device where
  "device_new = \<lparr>main_context = None, virgl_blit_context = None\<rparr>"

definition context_virgl :: "gpu_device \<Rightarrow> context_3d option" where
  "context_virgl dev = do {
     main \<leftarrow> main_context dev;
     if cx_capset main \<in> {Virgl, Virgl2} then Some main else virgl_blit_context dev
   }"

definition context_internal :: "gpu_device \<Rightarrow> bool \<Rightarrow> context_3d option" where
  "context_internal dev shadow = (if shadow then virgl_blit_context dev else main_context dev)"

record context_init =
  in_capset :: capset_id
  in_debug_name :: "u8 list"

definition init_context :: "('f, 'q, 's, 't, 'h, 'k) gq_env \<Rightarrow> ('f, 'q, 's, 't, 'h, 'k) waiting \<Rightarrow> u64 \<Rightarrow> context_init \<Rightarrow> gpu_device
    \<Rightarrow> ('f, 'q, 's) gpu_queue \<Rightarrow> ('k, 't, 'h) handler_world
    \<Rightarrow> (unit nt_result \<times> gpu_device \<times> ('f, 'q, 's) gpu_queue \<times> ('k, 't, 'h) handler_world) option" where
  "init_context env wait supported params dev Q w =
     (if supported AND capset_mask (in_capset params) \<noteq> capset_mask (in_capset params) then Some (Inl NOT_SUPPORTED, dev, Q, w)
      else do {
        (r, Q, w) \<leftarrow> context_create env wait (in_capset params) (debug_name (in_debug_name params)) Q w;
        (case r of Inl e \<Rightarrow> Some (Inl e, dev, Q, w)
         | Inr n \<Rightarrow> do {
             let dev = dev\<lparr>main_context := Some \<lparr>cx_id = n, cx_capset = in_capset params\<rparr>\<rparr>;
             if in_capset params \<in> {Venus, Drm} then do {
               let shadow = (if supported AND capset_mask Virgl2 = capset_mask Virgl2 then Virgl2 else Virgl);
               name \<leftarrow> as_str (write_str 64 (debug_name (in_debug_name params)) (write_str 64 (ascii ''shadow-virgl-'') []));
               (r, Q, w) \<leftarrow> context_create env wait shadow name Q w;
               (case r of Inl e \<Rightarrow> Some (Inl e, dev, Q, w)
                | Inr n \<Rightarrow> Some (Inr (), dev\<lparr>virgl_blit_context := Some \<lparr>cx_id = n, cx_capset = shadow\<rparr>\<rparr>, Q, w))
             } else Some (Inr (), dev, Q, w)
           })
      })"

section \<open>Rendering\<close>

text \<open>
  The state of the loop over the commands: the DMA buffer, how much of it is used, the commands built so far, whether
  an empty command was seen, and by how much the caller's pointer into the buffer is moved on.
\<close>

record ('k, 't, 'h) render_state =
  rs_dma :: "u8 list"
  rs_off :: nat
  rs_commands :: "command list"
  rs_nop :: bool
  rs_advance :: nat
  rs_world :: "('k, 't, 'h) handler_world"

text \<open>An item that cannot be read raises an exception, which \<open>render\<close> answers with an invalid parameter.\<close>

fun render_items :: "u32 option \<Rightarrow> u8 option \<Rightarrow> u64 \<Rightarrow> body_item option list \<Rightarrow> ('k, 't, 'h) render_state
    \<Rightarrow> (unit nt_result \<times> ('k, 't, 'h) render_state) option" where
  "render_items ctx ring base [] s = Some (Inr (), s)"
| "render_items ctx ring base (None # items) s = Some (Inl INVALID_PARAMETER, s)"
| "render_items ctx ring base (Some item # items) s =
     (if item_id item = Nop then render_items ctx ring base items s
      else do {
        (cmd, rest, w) \<leftarrow> from_item ctx item ring (base + of_nat (rs_off s)) (drop (rs_off s) (rs_dma s)) (rs_world s);
        render_items ctx ring base items
          (s\<lparr>rs_dma := take (rs_off s) (rs_dma s) @ rest, rs_off := rs_off s + command_len cmd,
             rs_commands := rs_commands s @ [cmd], rs_world := w\<rparr>)
      })"

definition render_command :: "gpu_device \<Rightarrow> user_memory \<Rightarrow> u64 \<Rightarrow> command_header \<Rightarrow> command_body \<Rightarrow> ('k, 't, 'h) render_state
    \<Rightarrow> (unit nt_result \<times> ('k, 't, 'h) render_state) option" where
  "render_command dev m base h body s =
     (case body of BodyFence _ \<Rightarrow> Some (Inl INVALID_HANDLE, s)
      | _ \<Rightarrow> do {
          assert (case body of BodySubmit _ _ \<Rightarrow> context_internal dev False \<noteq> None | _ \<Rightarrow> True);
          let s = (if body = BodyNop then s\<lparr>rs_nop := True\<rparr> else s);
          (case context_internal dev (shadow_virgl h) of
             None \<Rightarrow> Some (Inl REINITIALIZATION_NEEDED, s)
           | Some ctx \<Rightarrow> do {
               needed \<leftarrow> body_dma_len body;
               assert (rs_off s \<le> length (rs_dma s));
               if needed > length (rs_dma s) - rs_off s
               then Some (Inl GRAPHICS_INSUFFICIENT_DMA_BUFFER, s\<lparr>rs_advance := rs_off s + needed\<rparr>)
               else then_ok (render_items (Some (cx_id ctx)) (header_ring h) base (body_items m body) s)
                 (\<lambda>_ s'. do { assert (rs_nop s' \<or> rs_off s' = rs_off s + needed); Some (Inr (), s') })
             })
        })"

lemma then_ok_cong [fundef_cong]:
  "m = m' \<Longrightarrow> (\<And>x s. m' = Some (Inr x, s) \<Longrightarrow> f x s = g x s) \<Longrightarrow> then_ok m f = then_ok m' g"
  by (cases m') (auto simp: then_ok_def split: sum.splits)

text \<open>The loop over the command buffer of \<open>n\<close> bytes at address \<open>pcmd\<close>; \<open>off\<close> is the offset of the next header.\<close>

function render_loop :: "gpu_device \<Rightarrow> user_memory \<Rightarrow> u64 \<Rightarrow> nat \<Rightarrow> u64 \<Rightarrow> nat \<Rightarrow> ('k, 't, 'h) render_state
    \<Rightarrow> (unit nt_result \<times> ('k, 't, 'h) render_state) option" where
  "render_loop dev m pcmd n base off s =
     (if n \<le> off then Some (Inr (), s)
      else if n < off + HEADER_RAW_SIZE then Some (Inl INVALID_PARAMETER, s)
      else
        (case user_bytes m off HEADER_RAW_SIZE of None \<Rightarrow> Some (Inl INVALID_PARAMETER, s)
         | Some bs \<Rightarrow>
             (case try_as_hdr bs of None \<Rightarrow> Some (Inl INVALID_PARAMETER, s)
              | Some h \<Rightarrow>
                  (case command_slice m pcmd (off + HEADER_RAW_SIZE) h of None \<Rightarrow> Some (Inl INVALID_PARAMETER, s)
                   | Some body \<Rightarrow>
                       then_ok (render_command dev m base h body s)
                         (\<lambda>_ s. render_loop dev m pcmd n base (off + HEADER_RAW_SIZE + unat (ch_size h)) s)))))"
  by pat_completeness auto
termination
  by (relation "measure (\<lambda>(dev, m, pcmd, n, base, off, s). n - off)") (auto simp: HEADER_RAW_SIZE_def)

declare render_loop.simps [simp del]

text \<open>The allocations a command buffer uses: the handles must be valid and the allocations alive.\<close>

definition mark_busy :: "nat \<Rightarrow> objects \<Rightarrow> objects" where
  "mark_busy a ob =
     (case allocs ob a of None \<Rightarrow> ob
      | Some x \<Rightarrow> ob\<lparr>allocs := (allocs ob)(a \<mapsto> x\<lparr>al_busy := al_busy x + 1, al_event := False\<rparr>),
                    signalled := filter (\<lambda>e. e \<notin> set (al_sync x)) (signalled ob)\<rparr>)"

definition alloc_good :: "objects \<Rightarrow> device_specific_allocation option \<Rightarrow> bool" where
  "alloc_good ob handle = (case handle of None \<Rightarrow> False | Some d \<Rightarrow> allocs ob (dsa_alloc d) \<noteq> None)"

record command_dma_private =
  dp_commands :: "command list"
  dp_allocations :: "device_specific_allocation list"

definition DMA_PRIVATE_SIZE :: nat where "DMA_PRIVATE_SIZE = 112"

record render_args =
  ra_memory :: user_memory
  ra_command :: u64
  ra_command_length :: nat
  ra_dma_base :: u64
  ra_allocations :: "device_specific_allocation option list"
  ra_private_null :: bool
  ra_private_size :: nat

definition render_inner :: "gpu_device \<Rightarrow> render_args \<Rightarrow> ('k, 't, 'h) render_state
    \<Rightarrow> (command_dma_private nt_result \<times> ('k, 't, 'h) render_state) option" where
  "render_inner dev a s =
     (if \<not> list_all (alloc_good (gw_objects (rs_world s))) (ra_allocations a) then Some (Inl INVALID_HANDLE, s)
      else then_ok (render_loop dev (ra_memory a) (ra_command a) (ra_command_length a) (ra_dma_base a) 0 s)
        (\<lambda>_ s. let cmds = (if rs_nop s \<and> rs_commands s = [] then [command_nop] else rs_commands s);
                   handles = map the (ra_allocations a);
                   ob = fold (\<lambda>d. mark_busy (dsa_alloc d)) handles (gw_objects (rs_world s)) in
           Some (Inr \<lparr>dp_commands = cmds, dp_allocations = handles\<rparr>,
             s\<lparr>rs_advance := rs_off s, rs_world := (rs_world s)\<lparr>gw_objects := ob\<rparr>\<rparr>)))"

text \<open>Every error of the translation becomes an invalid parameter. The private data are written last.\<close>

definition render :: "gpu_device \<Rightarrow> render_args \<Rightarrow> u8 list \<Rightarrow> ('k, 't, 'h) handler_world
    \<Rightarrow> (command_dma_private nt_result \<times> ('k, 't, 'h) render_state) option" where
  "render dev a dma w = do {
     (r, s) \<leftarrow> render_inner dev a \<lparr>rs_dma = dma, rs_off = 0, rs_commands = [], rs_nop = False, rs_advance = 0, rs_world = w\<rparr>;
     Some (case r of
         Inl e \<Rightarrow> Inl INVALID_PARAMETER
       | Inr p \<Rightarrow> if ra_private_size a < DMA_PRIVATE_SIZE then Inl GRAPHICS_INSUFFICIENT_DMA_BUFFER
                   else if ra_private_null a then Inl INVALID_PARAMETER else Inr p, s)
   }"

end
