(* ===== verification/Gpu_Device_Spec.thy ===== *)
theory Gpu_Device_Spec
  imports Gpu_Device
begin

text \<open>
  What \<open>render\<close> does with a command buffer: a buffer that holds well-formed commands is translated, message by message,
  into the DMA buffer; a header that claims more bytes than the buffer has makes it copy what lies behind the buffer.
\<close>

section \<open>Commands of user mode\<close>

datatype user_command = UNop u8 u8 "u8 list" | USubmit u8 u8 "u8 list" | UTransfer bool u8 u8 "command_transfer list"

definition encode_transfer :: "command_transfer \<Rightarrow> u8 list" where
  "encode_transfer t = le32 (ct_res_id t) @ le32 (ct_stride t) @ le64 (ct_offset t) @ le32 (ct_level t) @ le32 (ct_layer_stride t)
     @ box_bytes (ct_box t)"

fun encode_body :: "user_command \<Rightarrow> u8 list" where
  "encode_body (UNop _ _ bs) = bs"
| "encode_body (USubmit _ _ bs) = bs"
| "encode_body (UTransfer _ _ _ ts) = concat (map encode_transfer ts)"

fun user_id :: "user_command \<Rightarrow> command_id" where
  "user_id (UNop _ _ _) = Nop"
| "user_id (USubmit _ _ _) = Submit"
| "user_id (UTransfer to_host _ _ _) = (if to_host then TransferToHost else TransferFromHost)"

fun user_flags :: "user_command \<Rightarrow> u8" where
  "user_flags (UNop fl _ _) = fl"
| "user_flags (USubmit fl _ _) = fl"
| "user_flags (UTransfer _ fl _ _) = fl"

fun user_ring :: "user_command \<Rightarrow> u8" where
  "user_ring (UNop _ r _) = r"
| "user_ring (USubmit _ r _) = r"
| "user_ring (UTransfer _ _ r _) = r"

fun id_number :: "command_id \<Rightarrow> u16" where
  "id_number Nop = 0"
| "id_number Submit = 1"
| "id_number TransferToHost = 2"
| "id_number TransferFromHost = 3"
| "id_number Fence = 4"
| "id_number MapAperture = 0xF000"
| "id_number UnmapAperture = 0xF001"

definition encode_header :: "command_id \<Rightarrow> u8 \<Rightarrow> u8 \<Rightarrow> u32 \<Rightarrow> u8 list" where
  "encode_header c fl r n = le16 (id_number c) @ le8 fl @ le8 r @ le32 n"

definition user_header :: "user_command \<Rightarrow> command_header" where
  "user_header c = \<lparr>ch_id = user_id c, ch_flags = user_flags c, ch_ring = user_ring c, ch_size = of_nat (length (encode_body c))\<rparr>"

definition encode_command :: "user_command \<Rightarrow> u8 list" where
  "encode_command c = encode_header (user_id c) (user_flags c) (user_ring c) (of_nat (length (encode_body c))) @ encode_body c"

definition user_ok :: "gpu_device \<Rightarrow> user_command \<Rightarrow> bool" where
  "user_ok dev c \<longleftrightarrow> user_flags c AND NOT (RING_IDX OR SHADOW_VIRGL) = 0 \<and> length (encode_body c) < 2 ^ 32
     \<and> main_context dev \<noteq> None \<and> context_internal dev (shadow_virgl (user_header c)) \<noteq> None"

fun user_items :: "user_command \<Rightarrow> body_item list" where
  "user_items (UNop _ _ _) = []"
| "user_items (USubmit _ _ bs) = [ItemSubmit bs]"
| "user_items (UTransfer to_host _ _ ts) = map (if to_host then ItemTransferToHost else ItemTransferFromHost) ts"

lemma length_encode_transfer [simp]: "length (encode_transfer t) = 48"
  by (simp add: encode_transfer_def box_bytes_def)

lemma length_encode_header [simp]: "length (encode_header c fl r n) = 8"
  by (simp add: encode_header_def)

lemma transfer_round_trip [simp]: "transfer_from (encode_transfer t) = t"
  by (cases t; cases "ct_box t") (simp add: transfer_from_def encode_transfer_def box_bytes_def le_field_def)

lemma header_round_trip:
  assumes "c \<in> {Nop, Submit, TransferToHost, TransferFromHost, Fence}" and "fl AND NOT (RING_IDX OR SHADOW_VIRGL) = 0"
  shows "try_as_hdr (encode_header c fl r n) = Some \<lparr>ch_id = c, ch_flags = fl, ch_ring = r, ch_size = n\<rparr>"
proof -
  have f: "le_field 0 2 (encode_header c fl r n) = id_number c" "le_field 2 1 (encode_header c fl r n) = fl"
    "le_field 3 1 (encode_header c fl r n) = r" "le_field 4 4 (encode_header c fl r n) = n"
    by (simp_all add: le_field_def encode_header_def)
  have "command_id_try_from (id_number c) = Some c" using assms(1) by (auto simp: command_id_try_from_def)
  then show ?thesis using assms(2) unfolding try_as_hdr_def f by simp
qed

section \<open>Memory\<close>

definition holds_at :: "user_memory \<Rightarrow> nat \<Rightarrow> u8 list \<Rightarrow> bool" where
  "holds_at m start bs \<longleftrightarrow> user_bytes m start (length bs) = Some bs"

lemma user_bytes_add:
  "user_bytes m start (k + n) = do { a \<leftarrow> user_bytes m start k; b \<leftarrow> user_bytes m (start + k) n; Some (a @ b) }"
proof -
  have those_append: "those (xs @ ys) = do { a \<leftarrow> those xs; b \<leftarrow> those ys; Some (a @ b) }" for xs ys :: "u8 option list"
    by (induction xs) (auto split: option.splits simp: bind_eq_Some_conv option.map_comp o_def Option.map_conv_bind_option)
  have "[start..<start + (k + n)] = [start..<start + k] @ [start + k..<start + k + n]"
    by (metis add.assoc upt_add_eq_append le_add1)
  then show ?thesis by (simp add: user_bytes_def those_append)
qed

lemma user_bytes_length: "user_bytes m start n = Some bs \<Longrightarrow> length bs = n"
proof -
  have those_length: "those xs = Some ys \<Longrightarrow> length ys = length xs" for xs :: "u8 option list" and ys
    by (induction xs arbitrary: ys) (auto split: option.splits)
  assume "user_bytes m start n = Some bs"
  then show ?thesis using those_length unfolding user_bytes_def by fastforce
qed

lemma holds_at_append [simp]:
  "holds_at m start (a @ b) \<longleftrightarrow> holds_at m start a \<and> holds_at m (start + length a) b"
  unfolding holds_at_def length_append user_bytes_add
  by (auto simp: bind_eq_Some_conv dest: user_bytes_length)

lemma holds_at_Nil [simp]: "holds_at m start []"
  by (simp add: holds_at_def user_bytes_def)

section \<open>Messages\<close>

text \<open>The header of the message with fence number \<open>f\<close>, and the messages of a sequence of items.\<close>

definition item_header :: "u32 \<Rightarrow> u32 \<Rightarrow> u8 option \<Rightarrow> u64 \<Rightarrow> ctrl_header" where
  "item_header c ctx ring f =
     \<lparr>hdr_type = c, hdr_flags = GPU_FLAG_FENCE OR (if ring = None then 0 else GPU_FLAG_RING_INDEX), hdr_fence_id = f,
      hdr_ctx_id = ctx, hdr_ring_idx = (case ring of Some x \<Rightarrow> x | None \<Rightarrow> 0)\<rparr>"

fun item_message :: "u32 \<Rightarrow> u8 option \<Rightarrow> u64 \<Rightarrow> body_item \<Rightarrow> u8 list" where
  "item_message ctx ring f (ItemSubmit bs) = gpu_3d_bytes (CmdSubmit3D (item_header SUBMIT_3D ctx ring f) (of_nat (length bs))) @ bs"
| "item_message ctx ring f (ItemTransferToHost t) = transfer_bytes (item_header TRANSFER_TO_HOST_3D ctx ring f) t"
| "item_message ctx ring f (ItemTransferFromHost t) = transfer_bytes (item_header TRANSFER_FROM_HOST_3D ctx ring f) t"
| "item_message ctx ring f ItemNop = []"
| "item_message ctx ring f (ItemFence _) = []"

fun sendable :: "body_item \<Rightarrow> bool" where
  "sendable ItemNop = False"
| "sendable (ItemFence _) = False"
| "sendable _ = True"

text \<open>An item in its place: the context and the ring it is for.\<close>

type_synonym placed_item = "u32 \<times> u8 option \<times> body_item"

fun messages :: "u64 \<Rightarrow> placed_item list \<Rightarrow> u8 list list" where
  "messages f [] = []"
| "messages f ((ctx, ring, item) # ps) = item_message ctx ring f item # messages (f + 1) ps"

text \<open>The commands for messages that lie one after the other from address \<open>base + off\<close> on.\<close>

fun placed_commands :: "u64 \<Rightarrow> nat \<Rightarrow> u64 \<Rightarrow> placed_item list \<Rightarrow> command list" where
  "placed_commands base off f [] = []"
| "placed_commands base off f ((ctx, ring, item) # ps) =
     (let msg = item_message ctx ring f item in
      command_new (item_id item) ring 0 (Some \<lparr>slice_ptr = base + of_nat off, slice_len = of_nat (length msg)\<rparr>)
        # placed_commands base (off + length msg) (f + 1) ps)"

definition take_fences :: "nat \<Rightarrow> ('k, 't, 'h) handler_world \<Rightarrow> ('k, 't, 'h) handler_world" where
  "take_fences k w = w\<lparr>gw_data := (gw_data w)\<lparr>fence :=
     \<lparr>next_fence_id = next_fence_id (fence (gw_data w)) + of_nat k,
      unsignaled = unsignaled (fence (gw_data w)) @ map (\<lambda>i. next_fence_id (fence (gw_data w)) + of_nat i) [0..<k]\<rparr>\<rparr>\<rparr>"

abbreviation "fence_of w \<equiv> next_fence_id (fence (gw_data w))"

lemma take_fences_0 [simp]: "take_fences 0 w = w"
  by (simp add: take_fences_def)

lemma take_fences_add: "take_fences j (take_fences k w) = take_fences (k + j) w"
proof -
  have "map (\<lambda>i. fence_of w + of_nat k + of_nat i) [0..<j] = map (\<lambda>i. fence_of w + of_nat i) [k..<k + j]"
    by (induction j) (simp_all add: add.assoc)
  then have "map (\<lambda>i. fence_of w + of_nat i) [0..<k] @ map (\<lambda>i. fence_of w + of_nat k + of_nat i) [0..<j]
      = map (\<lambda>i. fence_of w + of_nat i) [0..<k + j]"
    by (metis map_append upt_add_eq_append le0)
  then show ?thesis by (simp add: take_fences_def add.assoc)
qed

lemma take_fences_simps [simp]: "fence_of (take_fences k w) = fence_of w + of_nat k" "gw_objects (take_fences k w) = gw_objects w"
  by (simp_all add: take_fences_def)

lemma new_header_fence:
  "new_header c True (Some ctx) ring w = (item_header c ctx ring (fence_of w), take_fences 1 w)"
  by (simp add: new_header_def next_fence_def item_header_def take_fences_def Let_def)

lemma length_submit [simp]: "length (gpu_3d_bytes (CmdSubmit3D h n)) = 32" "length (transfer_bytes h t) = 72"
  by (simp_all add: transfer_bytes_def)

lemma from_item_ok:
  assumes "sendable item" and "length (item_message ctx ring (fence_of w) item) \<le> length dma"
  shows "from_item (Some ctx) item ring base dma w =
    Some (command_new (item_id item) ring 0 (Some \<lparr>slice_ptr = base, slice_len = of_nat (length (item_message ctx ring (fence_of w) item))\<rparr>),
      item_message ctx ring (fence_of w) item @ drop (length (item_message ctx ring (fence_of w) item)) dma, take_fences 1 w)"
  using assms by (cases item) (simp_all add: new_header_fence write_dma_def)

lemma command_len_new [simp]: "command_len (command_new c ring fl (Some s)) = unat (slice_len s)" "command_len (command_new c ring fl None) = 0"
  by (simp_all add: command_len_def command_new_def split: option.splits)

abbreviation "total_length msgs \<equiv> length (concat msgs)"

text \<open>The state of the loop after some items have been sent.\<close>

definition sent_items :: "u64 \<Rightarrow> placed_item list \<Rightarrow> ('k, 't, 'h) render_state \<Rightarrow> ('k, 't, 'h) render_state" where
  "sent_items base ps s =
     (let msgs = messages (fence_of (rs_world s)) ps in
      s\<lparr>rs_dma := take (rs_off s) (rs_dma s) @ concat msgs @ drop (rs_off s + total_length msgs) (rs_dma s),
        rs_off := rs_off s + total_length msgs,
        rs_commands := rs_commands s @ placed_commands base (rs_off s) (fence_of (rs_world s)) ps,
        rs_world := take_fences (length ps) (rs_world s)\<rparr>)"

lemma messages_append: "messages f (ps @ qs) = messages f ps @ messages (f + of_nat (length ps)) qs"
  by (induction f ps rule: messages.induct) (simp_all add: add.assoc)

lemma placed_append: "placed_commands base off f (ps @ qs)
  = placed_commands base off f ps @ placed_commands base (off + total_length (messages f ps)) (f + of_nat (length ps)) qs"
  by (induction base off f ps rule: placed_commands.induct) (simp_all add: Let_def add.assoc)

lemma splice_splice:
  fixes d :: "'x list"
  assumes "off + length a + length b \<le> length d"
  shows "take (off + length a) (take off d @ a @ drop (off + length a) d) @ b
      @ drop (off + length a + length b) (take off d @ a @ drop (off + length a) d)
    = take off d @ (a @ b) @ drop (off + length (a @ b)) d"
  using assms by (simp add: min_absorb2 ac_simps)

lemma sent_items_append:
  assumes "rs_off s + total_length (messages (fence_of (rs_world s)) (ps @ qs)) \<le> length (rs_dma s)"
  shows "sent_items base qs (sent_items base ps s) = sent_items base (ps @ qs) s"
proof -
  define A where "A = concat (messages (fence_of (rs_world s)) ps)"
  define B where "B = concat (messages (fence_of (rs_world s) + of_nat (length ps)) qs)"
  have "rs_off s + length A + length B \<le> length (rs_dma s)"
    using assms by (simp add: messages_append A_def B_def)
  note splice = splice_splice [OF this]
  show ?thesis
    using splice
    by (simp add: sent_items_def Let_def messages_append placed_append take_fences_add A_def [symmetric] B_def [symmetric] add.assoc
        del: length_concat take_append drop_append)
qed

lemma sent_items_Nil: "rs_off s \<le> length (rs_dma s) \<Longrightarrow> sent_items base [] s = s"
  by (simp add: sent_items_def)

lemma sent_items_fields [simp]:
  "rs_off (sent_items base ps s) = rs_off s + total_length (messages (fence_of (rs_world s)) ps)"
  "rs_world (sent_items base ps s) = take_fences (length ps) (rs_world s)"
  "rs_nop (sent_items base ps s) = rs_nop s" "rs_advance (sent_items base ps s) = rs_advance s"
  by (simp_all add: sent_items_def Let_def)

section \<open>One command\<close>

definition place :: "u32 \<Rightarrow> u8 option \<Rightarrow> body_item list \<Rightarrow> placed_item list" where
  "place ctx ring items = map (\<lambda>i. (ctx, ring, i)) items"

lemma place_simps [simp]: "place ctx ring [] = []" "place ctx ring (i # items) = (ctx, ring, i) # place ctx ring items"
  by (simp_all add: place_def)

lemma render_items_ok:
  assumes "list_all sendable items" and "rs_off s + total_length (messages (fence_of (rs_world s)) (place ctx ring items)) \<le> length (rs_dma s)"
    and "length (rs_dma s) < 2 ^ 64"
  shows "render_items (Some ctx) ring base (map Some items) s = Some (Inr (), sent_items base (place ctx ring items) s)"
  using assms
proof (induction items arbitrary: s)
  case Nil
  then show ?case by (simp add: sent_items_Nil)
next
  case (Cons item items)
  let ?msg = "item_message ctx ring (fence_of (rs_world s)) item"
  let ?s = "sent_items base [(ctx, ring, item)] s"
  have room: "rs_off s + length ?msg + total_length (messages (fence_of (rs_world s) + 1) (place ctx ring items)) \<le> length (rs_dma s)"
    using Cons.prems(2) by simp
  have n: "item_id item \<noteq> Nop" using Cons.prems(1) by (cases item) simp_all
  have l: "unat (of_nat (length ?msg) :: u64) = length ?msg" using room Cons.prems(3) by (simp add: unat_of_nat)
  have step: "render_items (Some ctx) ring base (map Some (item # items)) s = render_items (Some ctx) ring base (map Some items) ?s"
    using Cons.prems(1) room n l from_item_ok [of item ctx ring "rs_world s" "drop (rs_off s) (rs_dma s)" "base + of_nat (rs_off s)"]
    by (simp add: sent_items_def Let_def add.commute)
  have len: "length (rs_dma ?s) = length (rs_dma s)" using room by (simp add: sent_items_def Let_def)
  have "render_items (Some ctx) ring base (map Some items) ?s = Some (Inr (), sent_items base (place ctx ring items) ?s)"
    using Cons.prems room by (intro Cons.IH) (simp_all add: len)
  also have "sent_items base (place ctx ring items) ?s = sent_items base ([(ctx, ring, item)] @ place ctx ring items) s"
    using room by (intro sent_items_append) simp
  finally show ?case using step by simp
qed

text \<open>A command with its context and ring.\<close>

definition user_placed :: "gpu_device \<Rightarrow> user_command \<Rightarrow> placed_item list" where
  "user_placed dev c = place (cx_id (the (context_internal dev (shadow_virgl (user_header c))))) (header_ring (user_header c)) (user_items c)"

fun is_nop :: "user_command \<Rightarrow> bool" where
  "is_nop (UNop _ _ _) = True"
| "is_nop _ = False"

definition user_body :: "nat \<Rightarrow> user_command \<Rightarrow> command_body" where
  "user_body off c =
     (case c of UNop _ _ _ \<Rightarrow> BodyNop | USubmit _ _ bs \<Rightarrow> BodySubmit off (length bs)
      | UTransfer to_host _ _ ts \<Rightarrow> (if to_host then BodyTransferToHost off (length ts) else BodyTransferFromHost off (length ts)))"

lemma user_items_sendable [simp]: "list_all sendable (user_items c)"
  by (cases c) (auto simp: list_all_iff)

lemma concat_transfers: "length (concat (map encode_transfer ts)) = 48 * length ts"
  by (induction ts) simp_all

lemma command_slice_ok:
  assumes "length (encode_body c) < 2 ^ 32"
  shows "command_slice m pcmd off (user_header c) = Some (user_body off c)"
proof -
  have "unat (of_nat (length (encode_body c)) :: u32) = length (encode_body c)" using assms by (simp add: unat_of_nat)
  then show ?thesis
    by (cases c) (auto simp: command_slice_def user_header_def user_body_def try_commands_from_body_def TRANSFER_SIZE_def
        concat_transfers simp del: length_concat)
qed

lemma holds_transfer:
  assumes "holds_at m off (concat (map encode_transfer ts))" and "i < length ts"
  shows "user_bytes m (off + i * 48) 48 = Some (encode_transfer (ts ! i))"
proof -
  have "ts = take i ts @ ts ! i # drop (Suc i) ts" using assms(2) by (rule id_take_nth_drop)
  then have "concat (map encode_transfer ts) = concat (map encode_transfer (take i ts)) @ encode_transfer (ts ! i)
      @ concat (map encode_transfer (drop (Suc i) ts))"
    by (metis concat.simps(2) concat_append list.simps(9) map_append)
  then have "holds_at m (off + length (concat (map encode_transfer (take i ts)))) (encode_transfer (ts ! i))"
    using assms(1) by simp
  moreover have "length (concat (map encode_transfer (take i ts))) = 48 * i"
    using assms(2) by (simp add: concat_transfers del: length_concat)
  ultimately show ?thesis by (simp add: holds_at_def mult.commute)
qed

lemma body_items_ok:
  assumes "holds_at m off (encode_body c)"
  shows "body_items m (user_body off c) = map Some (user_items c)"
proof (cases c)
  case (UTransfer to_host fl r ts)
  then have "user_bytes m (off + i * 48) 48 = Some (encode_transfer (ts ! i))" if "i < length ts" for i
    using assms that holds_transfer by simp
  then show ?thesis
    using UTransfer by (auto simp: user_body_def TRANSFER_SIZE_def intro!: nth_equalityI)
qed (use assms in \<open>simp_all add: user_body_def holds_at_def\<close>)

lemma body_dma_len_ok: "body_dma_len (user_body off c) = Some (total_length (messages f (user_placed dev c)))"
proof -
  have "total_length (messages f (place ctx ring (map I ts))) = 72 * length ts"
    if "I = ItemTransferToHost \<or> I = ItemTransferFromHost" for I f ctx ring and ts :: "command_transfer list"
    using that by (induction ts arbitrary: f) auto
  then show ?thesis
    by (cases c) (simp_all add: user_body_def user_placed_def SUBMIT_3D_SIZE_def TRANSFER_HOST_SIZE_def)
qed

definition see_nop :: "bool \<Rightarrow> ('k, 't, 'h) render_state \<Rightarrow> ('k, 't, 'h) render_state" where
  "see_nop b s = s\<lparr>rs_nop := rs_nop s \<or> b\<rparr>"

lemma see_nop_simps [simp]: "see_nop False s = s" "see_nop b (see_nop b' s) = see_nop (b' \<or> b) s"
  "rs_off (see_nop b s) = rs_off s" "rs_dma (see_nop b s) = rs_dma s" "rs_world (see_nop b s) = rs_world s"
  "rs_commands (see_nop b s) = rs_commands s" "rs_nop (see_nop b s) = (rs_nop s \<or> b)" "rs_advance (see_nop b s) = rs_advance s"
  by (auto simp: see_nop_def)

lemma sent_items_nop: "sent_items base ps (see_nop b s) = see_nop b (sent_items base ps s)"
  by (simp add: sent_items_def see_nop_def Let_def)

lemma render_command_ok:
  assumes ok: "user_ok dev c" and mem: "holds_at m off (encode_body c)"
    and room: "rs_off s + total_length (messages (fence_of (rs_world s)) (user_placed dev c)) \<le> length (rs_dma s)" "length (rs_dma s) < 2 ^ 64"
  shows "render_command dev m base (user_header c) (user_body off c) s = Some (Inr (), see_nop (is_nop c) (sent_items base (user_placed dev c) s))"
proof -
  obtain ctx where ctx: "context_internal dev (shadow_virgl (user_header c)) = Some ctx" and main: "context_internal dev False \<noteq> None"
    using ok by (auto simp: user_ok_def context_internal_def)
  let ?s = "see_nop (is_nop c) s"
  have items: "render_items (Some (cx_id ctx)) (header_ring (user_header c)) base (body_items m (user_body off c)) ?s
      = Some (Inr (), sent_items base (user_placed dev c) ?s)"
    using render_items_ok [of "user_items c" ?s "cx_id ctx" "header_ring (user_header c)" base] room
    by (simp add: body_items_ok [OF mem] user_placed_def ctx)
  have nofence: "(case user_body off c of BodyFence f \<Rightarrow> x | _ \<Rightarrow> y) = y" for x y :: "(unit nt_result \<times> ('a, 'b, 'c) render_state) option"
    by (cases c) (simp_all add: user_body_def)
  have nop: "(if user_body off c = BodyNop then s\<lparr>rs_nop := True\<rparr> else s) = ?s"
    by (cases c) (simp_all add: user_body_def see_nop_def)
  have sub: "case user_body off c of BodySubmit _ _ \<Rightarrow> context_internal dev False \<noteq> None | _ \<Rightarrow> True"
    using main by (simp split: command_body.split)
  show ?thesis
    using room(1) items sub
    by (simp add: render_command_def nofence nop ctx body_dma_len_ok [of off c "fence_of (rs_world s)" dev] sent_items_nop Let_def)
qed

section \<open>A command buffer\<close>

abbreviation "all_placed dev cmds \<equiv> concat (map (user_placed dev) cmds)"
abbreviation "encode_all cmds \<equiv> concat (map encode_command cmds)"

lemma render_loop_step:
  assumes ok: "user_ok dev c" and mem: "holds_at m off (encode_command c)" and n: "off + 8 \<le> n"
    and room: "rs_off s + total_length (messages (fence_of (rs_world s)) (user_placed dev c)) \<le> length (rs_dma s)" "length (rs_dma s) < 2 ^ 64"
  shows "render_loop dev m pcmd n base off s
    = render_loop dev m pcmd n base (off + length (encode_command c)) (see_nop (is_nop c) (sent_items base (user_placed dev c) s))"
proof -
  have len: "length (encode_body c) < 2 ^ 32" and fl: "user_flags c AND NOT (RING_IDX OR SHADOW_VIRGL) = 0"
    using ok by (simp_all add: user_ok_def)
  have h: "user_bytes m off 8 = Some (encode_header (user_id c) (user_flags c) (user_ring c) (of_nat (length (encode_body c))))"
    and b: "holds_at m (off + 8) (encode_body c)"
    using mem by (simp_all add: encode_command_def holds_at_def [of m off "encode_header _ _ _ _"])
  have hdr: "try_as_hdr (encode_header (user_id c) (user_flags c) (user_ring c) (of_nat (length (encode_body c)))) = Some (user_header c)"
    using header_round_trip [OF _ fl, of "user_id c"] by (cases c) (simp_all add: user_header_def)
  have sz: "unat (ch_size (user_header c)) = length (encode_body c)" using len by (simp add: user_header_def unat_of_nat)
  show ?thesis
    using n by (subst render_loop.simps)
      (simp add: HEADER_RAW_SIZE_def h hdr command_slice_ok [OF len] render_command_ok [OF ok b room] sz encode_command_def add.assoc)
qed

lemma length_sent [simp]:
  assumes "rs_off s + total_length (messages (fence_of (rs_world s)) ps) \<le> length (rs_dma s)"
  shows "length (rs_dma (sent_items base ps s)) = length (rs_dma s)"
  using assms by (simp add: sent_items_def Let_def)

lemma render_loop_ok:
  assumes "list_all (user_ok dev) cmds" and "holds_at m off (encode_all cmds)" and "n = off + length (encode_all cmds)"
    and "rs_off s + total_length (messages (fence_of (rs_world s)) (all_placed dev cmds)) \<le> length (rs_dma s)" "length (rs_dma s) < 2 ^ 64"
  shows "render_loop dev m pcmd n base off s = Some (Inr (), see_nop (list_ex is_nop cmds) (sent_items base (all_placed dev cmds) s))"
  using assms
proof (induction cmds arbitrary: off s)
  case Nil
  then show ?case by (simp add: render_loop.simps sent_items_Nil)
next
  case (Cons c cmds)
  have room: "rs_off s + total_length (messages (fence_of (rs_world s)) (user_placed dev c)) \<le> length (rs_dma s)"
    using Cons.prems(4) by (simp add: messages_append)
  let ?s = "see_nop (is_nop c) (sent_items base (user_placed dev c) s)"
  have "render_loop dev m pcmd n base off s = render_loop dev m pcmd n base (off + length (encode_command c)) ?s"
    using Cons.prems room by (intro render_loop_step) (simp_all add: encode_command_def)
  also have "\<dots> = Some (Inr (), see_nop (list_ex is_nop cmds) (sent_items base (all_placed dev cmds) ?s))"
    using Cons.prems room by (intro Cons.IH) (simp_all add: messages_append add.assoc)
  also have "sent_items base (all_placed dev cmds) ?s = see_nop (is_nop c) (sent_items base (all_placed dev (c # cmds)) s)"
    using sent_items_append [of s "user_placed dev c" "all_placed dev cmds" base] Cons.prems(4) by (simp add: sent_items_nop)
  finally show ?case by (simp add: disj_commute)
qed

definition start_state :: "u8 list \<Rightarrow> ('k, 't, 'h) handler_world \<Rightarrow> ('k, 't, 'h) render_state" where
  "start_state dma w = \<lparr>rs_dma = dma, rs_off = 0, rs_commands = [], rs_nop = False, rs_advance = 0, rs_world = w\<rparr>"

definition all_busy :: "render_args \<Rightarrow> objects \<Rightarrow> objects" where
  "all_busy a ob = fold (\<lambda>d. mark_busy (dsa_alloc d)) (map the (ra_allocations a)) ob"

text \<open>What \<open>render\<close> makes of a loop that ended well.\<close>

lemma render_finish:
  assumes "render_loop dev (ra_memory a) (ra_command a) (ra_command_length a) (ra_dma_base a) 0 (start_state dma w) = Some (Inr (), s)"
    and "list_all (alloc_good (gw_objects w)) (ra_allocations a)"
  shows "render dev a dma w =
    Some (if ra_private_size a < DMA_PRIVATE_SIZE then Inl GRAPHICS_INSUFFICIENT_DMA_BUFFER
        else if ra_private_null a then Inl INVALID_PARAMETER
        else Inr \<lparr>dp_commands = if rs_nop s \<and> rs_commands s = [] then [command_nop] else rs_commands s,
               dp_allocations = map the (ra_allocations a)\<rparr>,
      s\<lparr>rs_advance := rs_off s, rs_world := (rs_world s)\<lparr>gw_objects := all_busy a (gw_objects (rs_world s))\<rparr>\<rparr>)"
  using assms by (simp add: render_def render_inner_def start_state_def all_busy_def Let_def)

lemma start_state_simps [simp]: "rs_off (start_state dma w) = 0" "rs_dma (start_state dma w) = dma" "rs_world (start_state dma w) = w"
  "rs_commands (start_state dma w) = []" "rs_nop (start_state dma w) = False"
  by (simp_all add: start_state_def)

lemma placed_commands_Nil [simp]: "placed_commands base off f ps = [] \<longleftrightarrow> ps = []"
  by (cases ps) (auto simp: Let_def)

text \<open>
  C25. A command buffer that holds well-formed commands is translated completely: the DMA buffer starts with one
  message for every item of every command, in order, each with the context and the ring of its command and with the
  next fence number, the rest of the buffer is as before, and the list of commands names exactly these messages. The
  allocations of the buffer are busy afterwards.
\<close>

theorem render_translates:
  assumes "list_all (user_ok dev) cmds" and "holds_at (ra_memory a) 0 (encode_all cmds)"
    and "ra_command_length a = length (encode_all cmds)"
    and "total_length (messages (fence_of w) (all_placed dev cmds)) \<le> length dma" and "length dma < 2 ^ 64"
    and "list_all (alloc_good (gw_objects w)) (ra_allocations a)"
    and "DMA_PRIVATE_SIZE \<le> ra_private_size a" and "\<not> ra_private_null a"
  shows "\<exists>p s. render dev a dma w = Some (Inr p, s)
    \<and> rs_dma s = concat (messages (fence_of w) (all_placed dev cmds)) @ drop (total_length (messages (fence_of w) (all_placed dev cmds))) dma
    \<and> rs_advance s = total_length (messages (fence_of w) (all_placed dev cmds))
    \<and> dp_commands p = (if all_placed dev cmds = [] \<and> list_ex is_nop cmds then [command_nop]
        else placed_commands (ra_dma_base a) 0 (fence_of w) (all_placed dev cmds))
    \<and> dp_allocations p = map the (ra_allocations a)
    \<and> rs_world s = (take_fences (length (all_placed dev cmds)) w)\<lparr>gw_objects := all_busy a (gw_objects w)\<rparr>"
proof -
  let ?s = "see_nop (list_ex is_nop cmds) (sent_items (ra_dma_base a) (all_placed dev cmds) (start_state dma w))"
  have "render_loop dev (ra_memory a) (ra_command a) (ra_command_length a) (ra_dma_base a) 0 (start_state dma w) = Some (Inr (), ?s)"
    using assms(1-5) by (intro render_loop_ok) simp_all
  from render_finish [OF this assms(6)] assms(7,8) show ?thesis
    by (auto simp: sent_items_def Let_def)
qed

text \<open>
  The size in a header is not compared with the length of the command buffer. A buffer that consists of a single
  header, which claims \<open>secret\<close> as its body, makes \<open>render\<close> copy the bytes behind the buffer into the message.
\<close>

theorem render_overreads:
  assumes "main_context dev = Some ctx"
    and "holds_at (ra_memory a) 0 (encode_header Submit 0 0 (of_nat (length secret)) @ secret)"
    and "ra_command_length a = HEADER_RAW_SIZE" and "0 < length secret" and "length secret < 2 ^ 32"
    and "SUBMIT_3D_SIZE + length secret \<le> length dma" and "length dma < 2 ^ 64"
    and "list_all (alloc_good (gw_objects w)) (ra_allocations a)"
    and "DMA_PRIVATE_SIZE \<le> ra_private_size a" and "\<not> ra_private_null a"
  shows "\<exists>p s. render dev a dma w = Some (Inr p, s) \<and> take (length secret) (drop SUBMIT_3D_SIZE (rs_dma s)) = secret"
proof -
  let ?c = "USubmit 0 0 secret"
  let ?s = "see_nop (is_nop ?c) (sent_items (ra_dma_base a) (user_placed dev ?c) (start_state dma w))"
  have ok: "user_ok dev ?c"
    using assms(1,5) by (simp add: user_ok_def context_internal_def shadow_virgl_def user_header_def SHADOW_VIRGL_def)
  have "render_loop dev (ra_memory a) (ra_command a) (ra_command_length a) (ra_dma_base a) 0 (start_state dma w)
      = render_loop dev (ra_memory a) (ra_command a) (ra_command_length a) (ra_dma_base a) (0 + length (encode_command ?c)) ?s"
    using assms(2,3,6,7) ok
    by (intro render_loop_step) (simp_all add: encode_command_def HEADER_RAW_SIZE_def SUBMIT_3D_SIZE_def user_placed_def)
  also have "\<dots> = Some (Inr (), ?s)"
    using assms(3) by (subst render_loop.simps) (simp add: encode_command_def HEADER_RAW_SIZE_def)
  finally have "render_loop dev (ra_memory a) (ra_command a) (ra_command_length a) (ra_dma_base a) 0 (start_state dma w) = Some (Inr (), ?s)" .
  from render_finish [OF this assms(8)] assms(9,10) show ?thesis
    by (auto simp: sent_items_def user_placed_def SUBMIT_3D_SIZE_def Let_def)
qed

text \<open>
  A command buffer with data for the renderer brings the driver down when the device object has no context yet: the
  capability set of the missing context is unwrapped before the check that refuses the command.
\<close>

theorem render_panics:
  assumes "main_context dev = None"
    and "holds_at (ra_memory a) 0 (encode_command (USubmit fl ring body))"
    and "fl AND NOT (RING_IDX OR SHADOW_VIRGL) = 0" and "length body < 2 ^ 32"
    and "HEADER_RAW_SIZE \<le> ra_command_length a"
    and "list_all (alloc_good (gw_objects w)) (ra_allocations a)"
  shows "render dev a dma w = None"
proof -
  let ?c = "USubmit fl ring body"
  have h: "user_bytes (ra_memory a) 0 8 = Some (encode_header Submit fl ring (of_nat (length body)))"
    using assms(2) by (simp add: encode_command_def holds_at_def [of _ 0 "encode_header _ _ _ _"])
  have "try_as_hdr (encode_header Submit fl ring (of_nat (length body))) = Some (user_header ?c)"
    using header_round_trip [OF _ assms(3), of Submit] by (simp add: user_header_def)
  moreover have "command_slice (ra_memory a) (ra_command a) 8 (user_header ?c) = Some (user_body 8 ?c)"
    using assms(4) by (intro command_slice_ok) simp
  moreover have "render_command dev (ra_memory a) (ra_dma_base a) (user_header ?c) (user_body 8 ?c) s = None" for s :: "('a, 'b, 'c) render_state"
    using assms(1) by (simp add: render_command_def user_body_def context_internal_def assert_def)
  ultimately have "render_loop dev (ra_memory a) (ra_command a) (ra_command_length a) (ra_dma_base a) 0 s = None" for s :: "('a, 'b, 'c) render_state"
    using assms(5) h by (subst render_loop.simps) (simp add: HEADER_RAW_SIZE_def)
  then show ?thesis using assms(6) by (simp add: render_def render_inner_def)
qed

text \<open>
  \<open>render\<close> marks the allocations busy before it looks whether there is room for the private data. When there is not,
  it fails, and nobody ever releases the allocations: whoever waits for one of them waits forever.
\<close>

theorem render_leaves_busy:
  assumes "list_all (user_ok dev) cmds" and "holds_at (ra_memory a) 0 (encode_all cmds)"
    and "ra_command_length a = length (encode_all cmds)"
    and "total_length (messages (fence_of w) (all_placed dev cmds)) \<le> length dma" and "length dma < 2 ^ 64"
    and "ra_allocations a = [Some d]" and "allocs (gw_objects w) (dsa_alloc d) = Some x"
    and "ra_private_size a < DMA_PRIVATE_SIZE"
  shows "\<exists>s. render dev a dma w = Some (Inl GRAPHICS_INSUFFICIENT_DMA_BUFFER, s)
    \<and> allocs (gw_objects (rs_world s)) (dsa_alloc d) = Some (x\<lparr>al_busy := al_busy x + 1, al_event := False\<rparr>)"
proof -
  let ?s = "see_nop (list_ex is_nop cmds) (sent_items (ra_dma_base a) (all_placed dev cmds) (start_state dma w))"
  have "render_loop dev (ra_memory a) (ra_command a) (ra_command_length a) (ra_dma_base a) 0 (start_state dma w) = Some (Inr (), ?s)"
    using assms(1-5) by (intro render_loop_ok) simp_all
  from render_finish [OF this] assms(6-8) show ?thesis
    by (simp add: alloc_good_def all_busy_def mark_busy_def)
qed

section \<open>Instances\<close>

definition memory_of :: "u8 list \<Rightarrow> user_memory" where
  "memory_of bs n = (if n < length bs then Some (bs ! n) else None)"

lemma memory_of_holds: "holds_at (memory_of bs) 0 bs"
proof -
  have "those (map (memory_of bs) [0..<length ys]) = Some ys" if "ys = take (length ys) bs" for ys
    using that
  proof (induction ys rule: rev_induct)
    case (snoc y ys)
    have "length ys < length bs" using snoc.prems by (metis length_append_singleton length_take less_Suc_eq_le min.cobounded1 order_less_le_trans lessI)
    then have "take (Suc (length ys)) bs = take (length ys) bs @ [bs ! length ys]" by (rule take_Suc_conv_app_nth)
    with snoc.prems have "ys = take (length ys) bs" "y = bs ! length ys" by simp_all
    moreover have those_snoc: "those (xs @ [x]) = (case those xs of None \<Rightarrow> None | Some zs \<Rightarrow> map_option (\<lambda>z. zs @ [z]) x)" for xs :: "u8 option list" and x
      by (induction xs) (auto split: option.splits simp: option.map_comp o_def)
    ultimately show ?case using snoc.IH \<open>length ys < length bs\<close> by (simp add: memory_of_def)
  qed simp
  from this [of bs] show ?thesis by (simp add: holds_at_def user_bytes_def)
qed

definition demo_device :: gpu_device where
  "demo_device = \<lparr>main_context = Some \<lparr>cx_id = 7, cx_capset = Virgl\<rparr>, virgl_blit_context = None\<rparr>"

definition demo_args :: "u8 list \<Rightarrow> nat \<Rightarrow> render_args" where
  "demo_args bs n = \<lparr>ra_memory = memory_of bs, ra_command = 0x1000, ra_command_length = n, ra_dma_base = 0x2000,
     ra_allocations = [], ra_private_null = False, ra_private_size = 112\<rparr>"

definition demo_commands :: "user_command list" where
  "demo_commands = [USubmit 1 3 [1, 2, 3, 4],
     UTransfer True 0 0 [\<lparr>ct_res_id = 5, ct_stride = 0, ct_offset = 0, ct_level = 0, ct_layer_stride = 0,
       ct_box = \<lparr>box_x = 0, box_y = 0, box_z = 0, box_w = 16, box_h = 16, box_d = 1\<rparr>\<rparr>]]"

theorem render_translates_witness:
  "\<forall>w :: (unit, unit, unit) handler_world.
     \<exists>p s. render demo_device (demo_args (encode_all demo_commands) (length (encode_all demo_commands))) (replicate 200 0) w = Some (Inr p, s)
       \<and> rs_advance s = 108 \<and> length (dp_commands p) = 2"
proof
  fix w :: "(unit, unit, unit) handler_world"
  let ?a = "demo_args (encode_all demo_commands) (length (encode_all demo_commands))"
  have ok: "list_all (user_ok demo_device) demo_commands"
    by (simp add: demo_commands_def user_ok_def demo_device_def context_internal_def shadow_virgl_def user_header_def
        SHADOW_VIRGL_def RING_IDX_def)
  have msgs: "total_length (messages f (all_placed demo_device demo_commands)) = 108" "length (placed_commands base off f (all_placed demo_device demo_commands)) = 2"
    for f base off by (simp_all add: demo_commands_def user_placed_def Let_def)
  have ne: "all_placed demo_device demo_commands \<noteq> []" by (simp add: demo_commands_def user_placed_def)
  have "\<exists>p s. render demo_device ?a (replicate 200 0) w = Some (Inr p, s)
    \<and> rs_dma s = concat (messages (fence_of w) (all_placed demo_device demo_commands)) @ drop (total_length (messages (fence_of w) (all_placed demo_device demo_commands))) (replicate 200 0)
    \<and> rs_advance s = total_length (messages (fence_of w) (all_placed demo_device demo_commands))
    \<and> dp_commands p = (if all_placed demo_device demo_commands = [] \<and> list_ex is_nop demo_commands then [command_nop]
        else placed_commands (ra_dma_base ?a) 0 (fence_of w) (all_placed demo_device demo_commands))
    \<and> dp_allocations p = map the (ra_allocations ?a)
    \<and> rs_world s = (take_fences (length (all_placed demo_device demo_commands)) w)\<lparr>gw_objects := all_busy ?a (gw_objects w)\<rparr>"
    by (rule render_translates) (use ok memory_of_holds msgs in \<open>simp_all add: demo_args_def DMA_PRIVATE_SIZE_def del: length_concat\<close>)
  then show "\<exists>p s. render demo_device ?a (replicate 200 0) w = Some (Inr p, s) \<and> rs_advance s = 108 \<and> length (dp_commands p) = 2"
    using msgs ne by (auto simp del: length_concat)
qed

theorem render_overreads_witness:
  "\<forall>w :: (unit, unit, unit) handler_world.
     \<exists>p s. render demo_device (demo_args (encode_header Submit 0 0 4 @ [0xde, 0xad, 0xbe, 0xef]) 8) (replicate 64 0) w = Some (Inr p, s)
       \<and> take (length [0xde, 0xad, 0xbe, 0xef :: u8]) (drop 32 (rs_dma s)) = [0xde, 0xad, 0xbe, 0xef]"
proof
  fix w :: "(unit, unit, unit) handler_world"
  show "\<exists>p s. render demo_device (demo_args (encode_header Submit 0 0 4 @ [0xde, 0xad, 0xbe, 0xef]) 8) (replicate 64 0) w = Some (Inr p, s)
      \<and> take (length [0xde, 0xad, 0xbe, 0xef :: u8]) (drop 32 (rs_dma s)) = [0xde, 0xad, 0xbe, 0xef]"
    using render_overreads [of demo_device "\<lparr>cx_id = 7, cx_capset = Virgl\<rparr>"
        "demo_args (encode_header Submit 0 0 4 @ [0xde, 0xad, 0xbe, 0xef]) 8" "[0xde, 0xad, 0xbe, 0xef]" "replicate 64 0" w]
      memory_of_holds [of "encode_header Submit 0 0 4 @ [0xde, 0xad, 0xbe, 0xef]"]
    by (simp add: demo_device_def demo_args_def HEADER_RAW_SIZE_def SUBMIT_3D_SIZE_def DMA_PRIVATE_SIZE_def del: holds_at_append)
qed

theorem render_panics_witness:
  "\<forall>w :: (unit, unit, unit) handler_world. render device_new (demo_args (encode_command (USubmit 0 0 [0])) 9) [] w = None"
proof
  fix w :: "(unit, unit, unit) handler_world"
  show "render device_new (demo_args (encode_command (USubmit 0 0 [0])) 9) [] w = None"
    by (rule render_panics [of device_new "demo_args (encode_command (USubmit 0 0 [0])) 9" 0 0 "[0]" w "[]"])
       (simp_all add: device_new_def demo_args_def HEADER_RAW_SIZE_def memory_of_holds)
qed

theorem render_leaves_busy_witness:
  "\<forall>w :: (unit, unit, unit) handler_world.
     \<exists>s. render demo_device ((demo_args [] 0)\<lparr>ra_allocations := [Some \<lparr>dsa_device = 0, dsa_alloc = 1\<rparr>], ra_private_size := 0\<rparr>) []
           (w\<lparr>gw_objects := (gw_objects w)\<lparr>allocs := [1 \<mapsto> \<lparr>al_busy = 0, al_event = True, al_sync = []\<rparr>]\<rparr>\<rparr>)
         = Some (Inl GRAPHICS_INSUFFICIENT_DMA_BUFFER, s)
       \<and> allocs (gw_objects (rs_world s)) 1 = Some \<lparr>al_busy = 1, al_event = False, al_sync = []\<rparr>"
proof
  fix w :: "(unit, unit, unit) handler_world"
  show "\<exists>s. render demo_device ((demo_args [] 0)\<lparr>ra_allocations := [Some \<lparr>dsa_device = 0, dsa_alloc = 1\<rparr>], ra_private_size := 0\<rparr>) []
           (w\<lparr>gw_objects := (gw_objects w)\<lparr>allocs := [1 \<mapsto> \<lparr>al_busy = 0, al_event = True, al_sync = []\<rparr>]\<rparr>\<rparr>)
         = Some (Inl GRAPHICS_INSUFFICIENT_DMA_BUFFER, s)
       \<and> allocs (gw_objects (rs_world s)) 1 = Some \<lparr>al_busy = 1, al_event = False, al_sync = []\<rparr>"
    using render_leaves_busy [of demo_device "[]" "(demo_args [] 0)\<lparr>ra_allocations := [Some \<lparr>dsa_device = 0, dsa_alloc = 1\<rparr>], ra_private_size := 0\<rparr>"
        "w\<lparr>gw_objects := (gw_objects w)\<lparr>allocs := [1 \<mapsto> \<lparr>al_busy = 0, al_event = True, al_sync = []\<rparr>]\<rparr>\<rparr>" "[]" "\<lparr>dsa_device = 0, dsa_alloc = 1\<rparr>"
        "\<lparr>al_busy = 0, al_event = True, al_sync = []\<rparr>"]
    by (simp add: demo_args_def DMA_PRIVATE_SIZE_def)
qed

end
