(* ===== verification/Gpu_Queue_Spec.thy ===== *)
theory Gpu_Queue_Spec
  imports Gpu_Queue Virt_Queue_Spec "HOL-Library.Multiset"
begin

text \<open>
  The asynchronous command queue: the channel hands out messages in order, the slots of the queue are never lost
  or used twice, every message reaches the device and every answer its callback, and what happens when the device
  answers with a token of its own.
\<close>

section \<open>The lock-free queues\<close>

text \<open>What the package documents: bounded and unbounded first-in first-out queues with the given contents.\<close>

definition array_queue_law :: "('q, 'a) array_queue \<Rightarrow> ('q \<Rightarrow> 'a list) \<Rightarrow> ('q \<Rightarrow> nat) \<Rightarrow> bool" where
  "array_queue_law aq content cap \<longleftrightarrow>
     (\<forall>n. 0 < n \<longrightarrow> content (aq_new aq n) = [] \<and> cap (aq_new aq n) = n)
   \<and> (\<forall>v q. length (content q) < cap q \<longrightarrow>
        (\<exists>q'. aq_push aq v q = (None, q') \<and> aq_force_push aq v q = (None, q') \<and> content q' = content q @ [v] \<and> cap q' = cap q))
   \<and> (\<forall>v q. length (content q) = cap q \<longrightarrow> aq_push aq v q = (Some v, q))
   \<and> (\<forall>v q. length (content q) = cap q \<longrightarrow> content q \<noteq> [] \<longrightarrow>
        (\<exists>q'. aq_force_push aq v q = (Some (hd (content q)), q') \<and> content q' = tl (content q) @ [v] \<and> cap q' = cap q))
   \<and> (\<forall>q. content q = [] \<longrightarrow> aq_pop aq q = (None, q))
   \<and> (\<forall>q. content q \<noteq> [] \<longrightarrow> (\<exists>q'. aq_pop aq q = (Some (hd (content q)), q') \<and> content q' = tl (content q) \<and> cap q' = cap q))"

definition seg_queue_law :: "('s, 'a) seg_queue \<Rightarrow> ('s \<Rightarrow> 'a list) \<Rightarrow> bool" where
  "seg_queue_law sq content \<longleftrightarrow>
     content (sq_new sq) = []
   \<and> (\<forall>v q. content (sq_push sq v q) = content q @ [v])
   \<and> (\<forall>q. content q = [] \<longrightarrow> sq_pop sq q = (None, q))
   \<and> (\<forall>q. content q \<noteq> [] \<longrightarrow> (\<exists>q'. sq_pop sq q = (Some (hd (content q)), q') \<and> content q' = tl (content q)))"

lemma array_queue_push:
  assumes "array_queue_law aq content cap" and "length (content q) < cap q"
  obtains q' where "aq_push aq v q = (None, q')" "aq_force_push aq v q = (None, q')" "content q' = content q @ [v]" "cap q' = cap q"
  using assms unfolding array_queue_law_def by blast

lemma array_queue_push_full:
  assumes "array_queue_law aq content cap" and "length (content q) = cap q"
  shows "aq_push aq v q = (Some v, q)"
  using assms unfolding array_queue_law_def by blast

lemma array_queue_force_push_full:
  assumes "array_queue_law aq content cap" and "length (content q) = cap q" and "content q = x # xs"
  obtains q' where "aq_force_push aq v q = (Some x, q')" "content q' = xs @ [v]" "cap q' = cap q"
proof -
  have "content q \<noteq> []" using assms(3) by simp
  then obtain q' where "aq_force_push aq v q = (Some (hd (content q)), q')" "content q' = tl (content q) @ [v]" "cap q' = cap q"
    using assms(1,2) unfolding array_queue_law_def by blast
  then show ?thesis using that assms(3) by simp
qed

lemma array_queue_pop:
  assumes "array_queue_law aq content cap"
  obtains "content q = []" "aq_pop aq q = (None, q)"
  | x xs q' where "content q = x # xs" "aq_pop aq q = (Some x, q')" "content q' = xs" "cap q' = cap q"
proof (cases "content q")
  case Nil
  then have "aq_pop aq q = (None, q)" using assms unfolding array_queue_law_def by blast
  then show ?thesis using that(1) Nil by blast
next
  case (Cons x xs)
  then have "content q \<noteq> []" by simp
  then obtain q' where "aq_pop aq q = (Some (hd (content q)), q')" "content q' = tl (content q)" "cap q' = cap q"
    using assms unfolding array_queue_law_def by blast
  then show ?thesis using that(2) Cons by simp
qed

lemma seg_queue_pop:
  assumes "seg_queue_law sq content"
  obtains "content q = []" "sq_pop sq q = (None, q)"
  | x xs q' where "content q = x # xs" "sq_pop sq q = (Some x, q')" "content q' = xs"
proof (cases "content q")
  case Nil
  then have "sq_pop sq q = (None, q)" using assms unfolding seg_queue_law_def by blast
  then show ?thesis using that(1) Nil by blast
next
  case (Cons x xs)
  then have "content q \<noteq> []" by simp
  then obtain q' where "sq_pop sq q = (Some (hd (content q)), q')" "content q' = tl (content q)"
    using assms unfolding seg_queue_law_def by blast
  then show ?thesis using that(2) Cons by simp
qed

text \<open>The channel: elements wait in the slow part only while the fast part is full.\<close>

definition chan_inv :: "('q \<Rightarrow> 'a list) \<Rightarrow> ('q \<Rightarrow> nat) \<Rightarrow> ('s \<Rightarrow> 'a list) \<Rightarrow> ('q, 's) array_seg_queue \<Rightarrow> bool" where
  "chan_inv fc cap sc c \<longleftrightarrow> 0 < cap (fast c) \<and> length (fc (fast c)) \<le> cap (fast c)
     \<and> (sc (slow c) \<noteq> [] \<longrightarrow> length (fc (fast c)) = cap (fast c))"

definition chan_content :: "('q \<Rightarrow> 'a list) \<Rightarrow> ('s \<Rightarrow> 'a list) \<Rightarrow> ('q, 's) array_seg_queue \<Rightarrow> 'a list" where
  "chan_content fc sc c = fc (fast c) @ sc (slow c)"

lemma aseg_new_ok:
  assumes "array_queue_law aq fc cap" and "seg_queue_law sq sc" and "0 < n"
  shows "chan_inv fc cap sc (aseg_new aq sq n)" "chan_content fc sc (aseg_new aq sq n) = []"
  using assms by (simp_all add: aseg_new_def chan_inv_def chan_content_def array_queue_law_def seg_queue_law_def)

lemma aseg_push_ok:
  assumes aq: "array_queue_law aq fc cap" and sq: "seg_queue_law sq sc" and inv: "chan_inv fc cap sc c"
  shows "chan_inv fc cap sc (aseg_push aq sq v c) \<and> chan_content fc sc (aseg_push aq sq v c) = chan_content fc sc c @ [v]"
proof (cases "length (fc (fast c)) < cap (fast c)")
  case True
  then have "sc (slow c) = []" using inv by (auto simp: chan_inv_def)
  with True inv show ?thesis
    by (auto simp: aseg_push_def chan_inv_def chan_content_def intro: array_queue_push [OF aq True, of v])
next
  case False
  then have full: "length (fc (fast c)) = cap (fast c)" using inv by (simp add: chan_inv_def)
  have "sc (sq_push sq v (slow c)) = sc (slow c) @ [v]" using sq by (simp add: seg_queue_law_def)
  with full inv show ?thesis
    by (simp add: aseg_push_def array_queue_push_full [OF aq full] chan_inv_def chan_content_def)
qed

lemma aseg_pop_ok:
  assumes aq: "array_queue_law aq fc cap" and sq: "seg_queue_law sq sc" and inv: "chan_inv fc cap sc c"
  shows "\<exists>c'. chan_inv fc cap sc c' \<and> (case chan_content fc sc c of
      [] \<Rightarrow> aseg_pop aq sq c = (None, c') \<and> chan_content fc sc c' = []
    | v # vs \<Rightarrow> aseg_pop aq sq c = (Some v, c') \<and> chan_content fc sc c' = vs)"
proof (rule seg_queue_pop [OF sq, of "slow c"])
  assume s: "sc (slow c) = []" "sq_pop sq (slow c) = (None, slow c)"
  show ?thesis
    by (rule array_queue_pop [OF aq, of "fast c"])
       (use s inv in \<open>auto simp: aseg_pop_def chan_inv_def chan_content_def intro!: exI [of _ "c\<lparr>fast := _\<rparr>"]\<close>)
next
  fix x xs s'
  assume s: "sc (slow c) = x # xs" "sq_pop sq (slow c) = (Some x, s')" "sc s' = xs"
  then have full: "length (fc (fast c)) = cap (fast c)" "0 < cap (fast c)" using inv by (auto simp: chan_inv_def)
  then obtain y ys where y: "fc (fast c) = y # ys" by (cases "fc (fast c)") auto
  show ?thesis
    by (rule array_queue_force_push_full [OF aq full(1) y, of x])
       (use s y full in \<open>auto simp: aseg_pop_def chan_inv_def chan_content_def intro!: exI [of _ "c\<lparr>fast := _, slow := s'\<rparr>"]\<close>)
qed

text \<open>A run of pushes (\<open>Some v\<close>) and pops (\<open>None\<close>) with the results of the pops, on the channel and on a plain list.\<close>

fun aseg_run :: "('q, 'a) array_queue \<Rightarrow> ('s, 'a) seg_queue \<Rightarrow> 'a option list \<Rightarrow> ('q, 's) array_seg_queue
    \<Rightarrow> 'a option list \<times> ('q, 's) array_seg_queue" where
  "aseg_run aq sq [] c = ([], c)"
| "aseg_run aq sq (Some v # ops) c = aseg_run aq sq ops (aseg_push aq sq v c)"
| "aseg_run aq sq (None # ops) c =
     (let (r, c) = aseg_pop aq sq c; (rs, c) = aseg_run aq sq ops c in (r # rs, c))"

fun list_run :: "'a option list \<Rightarrow> 'a list \<Rightarrow> 'a option list \<times> 'a list" where
  "list_run [] xs = ([], xs)"
| "list_run (Some v # ops) xs = list_run ops (xs @ [v])"
| "list_run (None # ops) [] = (let (rs, xs) = list_run ops [] in (None # rs, xs))"
| "list_run (None # ops) (x # xs) = (let (rs, xs) = list_run ops xs in (Some x # rs, xs))"

lemma aseg_run_list:
  assumes aq: "array_queue_law aq fc cap" and sq: "seg_queue_law sq sc" and "chan_inv fc cap sc c"
  shows "(let (rs, c') = aseg_run aq sq ops c in (rs, chan_content fc sc c')) = list_run ops (chan_content fc sc c)"
  using assms(3)
proof (induction ops arbitrary: c)
  case (Cons x ops)
  show ?case
  proof (cases x)
    case (Some v)
    then show ?thesis using Cons.IH [of "aseg_push aq sq v c"] aseg_push_ok [OF aq sq Cons.prems, of v] by simp
  next
    case None
    obtain c' where c': "chan_inv fc cap sc c'" "case chan_content fc sc c of
      [] \<Rightarrow> aseg_pop aq sq c = (None, c') \<and> chan_content fc sc c' = []
    | v # vs \<Rightarrow> aseg_pop aq sq c = (Some v, c') \<and> chan_content fc sc c' = vs"
      using aseg_pop_ok [OF aq sq Cons.prems] by blast
    then show ?thesis using Cons.IH [of c'] None
      by (cases "chan_content fc sc c") (auto simp: case_prod_unfold Let_def prod_eq_iff)
  qed
qed simp

text \<open>
  The channel is first in, first out: any sequence of pushes and pops on a new channel gives
  the results of the same sequence on a list, although an element may go through the unbounded
  queue and from there into the bounded one.
\<close>

theorem channel_fifo:
  assumes "array_queue_law aq fc cap" and "seg_queue_law sq sc" and "0 < n"
  shows "fst (aseg_run aq sq ops (aseg_new aq sq n)) = fst (list_run ops [])
    \<and> chan_content fc sc (snd (aseg_run aq sq ops (aseg_new aq sq n))) = snd (list_run ops [])"
  using aseg_run_list [OF assms(1,2) aseg_new_ok(1) [OF assms], of ops] aseg_new_ok(2) [OF assms]
  by (simp add: case_prod_unfold Let_def prod_eq_iff)

text \<open>Queues of the package with lists as their state: the contents and, for a bounded queue, its capacity.\<close>

definition list_array_queue :: "('a list \<times> nat, 'a) array_queue" where
  "list_array_queue =
     \<lparr>aq_new = (\<lambda>n. ([], n)),
      aq_push = (\<lambda>v (xs, n). if length xs < n then (None, (xs @ [v], n)) else (Some v, (xs, n))),
      aq_force_push = (\<lambda>v (xs, n). if length xs < n then (None, (xs @ [v], n)) else (Some (hd xs), (tl xs @ [v], n))),
      aq_pop = (\<lambda>(xs, n). case xs of [] \<Rightarrow> (None, (xs, n)) | x # xs \<Rightarrow> (Some x, (xs, n)))\<rparr>"

definition list_seg_queue :: "('a list, 'a) seg_queue" where
  "list_seg_queue = \<lparr>sq_new = [], sq_push = (\<lambda>v xs. xs @ [v]),
     sq_pop = (\<lambda>xs. case xs of [] \<Rightarrow> (None, xs) | x # xs \<Rightarrow> (Some x, xs))\<rparr>"

lemma list_queue_laws:
  "array_queue_law list_array_queue fst snd" "seg_queue_law list_seg_queue (\<lambda>xs. xs)"
  by (auto simp: array_queue_law_def seg_queue_law_def list_array_queue_def list_seg_queue_def neq_Nil_conv split: list.splits)

theorem channel_fifo_witness:
  "array_queue_law list_array_queue fst snd \<and> seg_queue_law list_seg_queue (\<lambda>xs. xs)
   \<and> fst (aseg_run list_array_queue list_seg_queue [Some 1, Some 2, Some 3, None, Some 4, None, None, None, None]
        (aseg_new list_array_queue list_seg_queue 2)) = [Some 1, Some 2, Some 3, Some (4 :: nat), None]"
  using channel_fifo [OF list_queue_laws, of 2 "[Some 1, Some 2, Some 3, None, Some (4 :: nat), None, None, None, None]"]
    list_queue_laws by simp

section \<open>The virtqueue under the slots\<close>

text \<open>
  What the driver has outstanding on the virtqueue, as for any queue, and besides that each request of two buffers
  takes one descriptor with indirect descriptors and two without.
\<close>

definition table :: "virt_queue \<Rightarrow> (u16 \<times> (slice \<times> buffer_direction) list) list \<Rightarrow> bool" where
  "table q out \<longleftrightarrow> (\<exists>fl fs. vq_inv q fl fs \<and> out = map (\<lambda>f. (token_of f, bufs_of f)) fs
     \<and> (\<forall>f \<in> set fs. length (ids f) = (if indirect q then 1 else 2)))"

lemma table_outstanding: "table q out \<Longrightarrow> outstanding q out"
  by (auto simp: table_def outstanding_def)

lemma table_used:
  assumes "table q out"
  shows "unat (num_used q) = (if indirect q then 1 else 2) * length out"
proof -
  obtain fl fs where I: "vq_inv q fl fs" "out = map (\<lambda>f. (token_of f, bufs_of f)) fs"
    "\<forall>f \<in> set fs. length (ids f) = (if indirect q then 1 else 2)"
    using assms by (auto simp: table_def)
  have "length (occupied fs) = (if indirect q then 1 else 2) * length fs"
    using I(3) by (induction fs) auto
  then show ?thesis using vq_invD(7) [OF I(1)] I(2) by simp
qed

lemma table_add:
  assumes t: "table q out" and law: "hal_box_law hal" and ok: "list_all buf_ok (input_output [a] [b])"
    and room: "if indirect q then length out < SIZE q else 2 * length out + 2 \<le> SIZE q" and two: "2 \<le> SIZE q"
  obtains tok q' h' where "add hal [a] [b] q h = Some (Inr tok, q', h')" "table q' ((tok, input_output [a] [b]) # out)"
    "SIZE q' = SIZE q" "indirect q' = indirect q" "queue_idx q' = queue_idx q"
    "vq_used q' = vq_used q" "last_used_idx q' = last_used_idx q"
    "\<exists>ps. map (\<lambda>(s, d, p). (s, d)) ps = input_output [a] [b] \<and> device_buffers q' tok = Some (map visible ps)"
proof -
  obtain fl fs where I: "vq_inv q fl fs" "out = map (\<lambda>f. (token_of f, bufs_of f)) fs"
    "\<forall>f \<in> set fs. length (ids f) = (if indirect q then 1 else 2)"
    using t by (auto simp: table_def)
  let ?bs = "input_output [a] [b]"
  have bs: "?bs \<noteq> []" "length ?bs = 2" by (simp_all add: input_output_def)
  have "\<not> no_room q (length ?bs)"
    using room two table_used [OF t] by (auto simp: no_room_def bs(2) split: if_splits)
  from add_ok [OF I(1) refl ok bs(1) this law, of h] obtain q1 h1 f fl' where
    A: "add hal [a] [b] q h = Some (Inr (token_of f), q1, h1)" "vq_inv q1 fl' (f # fs)" "bufs_of f = ?bs" "added q f q1"
    "(\<exists>i ptr ps p. f = Indirect i ptr ps p) \<longleftrightarrow> indirect q \<and> 1 < length ?bs"
    "\<exists>ps. map (\<lambda>(s, d, p). (s, d)) ps = ?bs \<and> device_buffers q1 (token_of f) = Some (map visible ps)" by blast
  have "length (ids f) = (if indirect q then 1 else 2)"
  proof (cases f)
    case (Direct xs ps)
    have "flight_ok (desc_shadow q1) (indirect_lists q1) f" using vq_invD(5) [OF A(2)] by simp
    then have "length xs = length ps" using flight_chain_length Direct by auto
    moreover have "length ps = 2" using A(3) bs(2) Direct by (metis bufs_of.simps(1) length_map)
    moreover have "\<not> indirect q" using A(5) bs(2) Direct by auto
    ultimately show ?thesis using Direct by simp
  next
    case Indirect
    then show ?thesis using A(5) by auto
  qed
  moreover have same: "SIZE q1 = SIZE q" "indirect q1 = indirect q" "queue_idx q1 = queue_idx q"
    "vq_used q1 = vq_used q" "last_used_idx q1 = last_used_idx q" using A(4) by (simp_all add: added_def)
  ultimately have "table q1 ((token_of f, ?bs) # out)"
    unfolding table_def using A(2,3) I(2,3) by (intro exI [of _ fl'] exI [of _ "f # fs"]) simp
  then show ?thesis using that A(1,6) same by blast
qed

lemma table_token:
  assumes "table q out" and "(tok, bs) \<in> set out"
  shows "unat tok < SIZE q"
proof -
  obtain fl fs1 f fs2 where I: "vq_inv q fl (fs1 @ f # fs2)" "tok = token_of f"
    by (rule outstanding_split [OF table_outstanding [OF assms(1)] assms(2)])
  have "tok \<in> set (ids f)" using vq_invD(5) [OF I(1), of f] token_in_ids I(2) by auto
  then have "tok \<in> set (fl @ occupied (fs1 @ f # fs2))" by simp
  then show ?thesis using vq_invD(4) [OF I(1)] by blast
qed

lemma table_full:
  assumes t: "table q out" and full: "\<not> indirect q" "SIZE q < 2 * length out + 2"
  shows "add hal [a] [b] q h = Some (Inl QueueFull, q, h)"
proof (rule add_errors(2))
  show "no_room q (length (input_output [a] [b]))"
    using full table_used [OF t] by (simp add: no_room_def input_output_def)
qed (simp add: input_output_def)

lemma table_pop:
  assumes t: "table q (out1 @ (tok, input_output [a] [b]) # out2)"
    and pop: "can_pop q" "ucast (used_id (next_used q)) = tok"
  obtains q' h' where "pop_used hal tok [a] [b] q h = Some (Inr (used_len (next_used q)), q', h')" "table q' (out1 @ out2)"
    "SIZE q' = SIZE q" "indirect q' = indirect q" "queue_idx q' = queue_idx q"
    "vq_used q' = vq_used q" "last_used_idx q' = last_used_idx q + 1"
proof -
  obtain fl fs1 f fs2 where I: "vq_inv q fl (fs1 @ f # fs2)" "tok = token_of f" "input_output [a] [b] = bufs_of f"
    "out1 = map (\<lambda>f. (token_of f, bufs_of f)) fs1" "out2 = map (\<lambda>f. (token_of f, bufs_of f)) fs2"
    "\<forall>f \<in> set (fs1 @ f # fs2). length (ids f) = (if indirect q then 1 else 2)"
    using t by (auto simp: table_def append_eq_map_conv Cons_eq_map_conv)
  obtain q' where q': "pop_used hal tok [a] [b] q h = Some (Inr (used_len (next_used q)), q', unshare_flight hal (access_platform q) f h)"
    "vq_inv q' (ids f @ fl) (fs1 @ fs2)" "SIZE q' = SIZE q" "indirect q' = indirect q" "queue_idx q' = queue_idx q"
    "vq_used q' = vq_used q" "last_used_idx q' = last_used_idx q + 1"
    using pop_used_success [OF I(1,3) pop(1) pop(2) [unfolded I(2)], of hal h] I(2) by auto
  have "table q' (out1 @ out2)"
    unfolding table_def using q'(2,4) I(4,5,6) by (intro exI [of _ "ids f @ fl"] exI [of _ "fs1 @ fs2"]) simp
  then show ?thesis using that q' by blast
qed

section \<open>Slots\<close>

text \<open>The contents of the queues of the package, and the laws they keep.\<close>

record ('f, 'q, 's) views =
  free_content :: "'f \<Rightarrow> nat list"
  free_cap :: "'f \<Rightarrow> nat"
  fast_content :: "'q \<Rightarrow> message list"
  fast_cap :: "'q \<Rightarrow> nat"
  slow_content :: "'s \<Rightarrow> message list"

definition laws :: "('f, 'q, 's, 't, 'h, 'k) gq_env \<Rightarrow> ('f, 'q, 's) views \<Rightarrow> bool" where
  "laws env V \<longleftrightarrow> array_queue_law (free_ops env) (free_content V) (free_cap V)
     \<and> array_queue_law (fast_ops env) (fast_content V) (fast_cap V) \<and> seg_queue_law (slow_ops env) (slow_content V)
     \<and> hal_box_law (g_hal env)"

definition free_list :: "('f, 'q, 's) views \<Rightarrow> ('f, 'q, 's) gpu_queue \<Rightarrow> nat list" where
  "free_list V Q = free_content V (free_slots Q)"

definition queued :: "('f, 'q, 's) views \<Rightarrow> ('f, 'q, 's) gpu_queue \<Rightarrow> message list" where
  "queued V Q = chan_content (fast_content V) (slow_content V) (chan Q)"

abbreviation slots :: "('f, 'q, 's) gpu_queue \<Rightarrow> nat" where "slots Q \<equiv> SIZE (gq_queue Q)"

text \<open>A message that may be sent: no empty buffer, and no box that crosses a page.\<close>

fun buffer_ok :: "nat \<Rightarrow> maybe_inline_buffer \<Rightarrow> bool" where
  "buffer_ok cap (Inline bs) \<longleftrightarrow> bs \<noteq> [] \<and> length bs \<le> cap"
| "buffer_ok cap (Boxed s) \<longleftrightarrow> slice_len s \<noteq> 0 \<and> unat (slice_len s) < 2 ^ 32 \<and> slice_in_one_page s"
| "buffer_ok cap (Dma s) \<longleftrightarrow> slice_len s \<noteq> 0 \<and> unat (slice_len s) < 2 ^ 32"

definition message_ok :: "('f, 'q, 's, 't, 'h, 'k) gq_env \<Rightarrow> message \<Rightarrow> bool" where
  "message_ok env m \<longleftrightarrow> buffer_ok (cap_in env) (msg_input m) \<and> buffer_ok (cap_out env) (msg_output m)"

text \<open>The arrays of the slots: aligned to a page, a page divides into whole slots, and they end inside the address space.\<close>

definition array_ok :: "u64 \<Rightarrow> nat \<Rightarrow> nat \<Rightarrow> bool" where
  "array_ok base cap n \<longleftrightarrow> unat base mod 4096 = 0 \<and> (cap + 8) dvd 4096 \<and> unat base + n * (cap + 8) \<le> 2 ^ 64"

lemma slot_pages:
  assumes "(s :: nat) dvd 4096" "4096 dvd b" "x < s"
  shows "(b + i * s + x) div 4096 = (b + i * s) div 4096"
proof -
  obtain k where k: "4096 = s * k" using assms(1) by (elim dvdE)
  obtain c where c: "b = 4096 * c" using assms(2) by (elim dvdE)
  have s: "0 < s" using assms(3) by simp
  have b: "b + i * s = s * (k * c + i)" unfolding c k by (simp add: algebra_simps)
  have "(s * (k * c + i) + x) div (s * k) = (s * (k * c + i) + x) div s div k" by (rule div_mult2_eq)
  also have "\<dots> = (k * c + i) div k" using assms(3) s by simp
  also have "\<dots> = s * (k * c + i) div (s * k)" using s by simp
  finally show ?thesis unfolding b k by simp
qed

lemma slot_in_one_page:
  assumes arr: "array_ok base cap n" and i: "i < n" and len: "0 < l" "l \<le> cap"
  shows "slice_in_one_page \<lparr>slice_ptr = slot_address base cap i, slice_len = of_nat l\<rparr>"
proof -
  let ?b = "unat base" and ?s = "cap + 8"
  have "?b + Suc i * ?s \<le> ?b + n * ?s" using i by (intro add_left_mono mult_right_mono) simp_all
  then have fits: "?b + i * ?s + (8 + l) \<le> 2 ^ 64" using arr len by (simp add: array_ok_def)
  have a: "unat (slot_address base cap i) = ?b + i * ?s + 8"
  proof -
    have "slot_address base cap i = of_nat (?b + i * ?s + 8)" by (simp add: slot_address_def)
    also have "unat \<dots> = (?b + i * ?s + 8) mod 2 ^ 64" by (simp only: unat_of_nat) simp
    finally show ?thesis using fits len(1) by simp
  qed
  have e: "unat (slot_address base cap i + of_nat l - 1) = ?b + i * ?s + (8 + l - 1)"
  proof -
    have "slot_address base cap i + of_nat l - 1 = of_nat (?b + i * ?s + (8 + l - 1))"
      using len(1) by (simp add: slot_address_def of_nat_diff)
    also have "unat \<dots> = (?b + i * ?s + (8 + l - 1)) mod 2 ^ 64" by (simp only: unat_of_nat) simp
    finally show ?thesis using fits len(1) by simp
  qed
  have b: "4096 dvd ?b" "?s dvd 4096" using arr by (auto simp: array_ok_def)
  have "(?b + i * ?s + 8) div 4096 = (?b + i * ?s + (8 + l - 1)) div 4096"
    using slot_pages [OF b(2,1), of 8 i] slot_pages [OF b(2,1), of "8 + l - 1" i] len by simp
  then have "slot_address base cap i div PAGE_SIZE = (slot_address base cap i + of_nat l - 1) div PAGE_SIZE"
    by (simp add: word_unat_eq_iff unat_div a e PAGE_SIZE_def)
  then show ?thesis by (simp add: slice_in_one_page_def)
qed

lemma buffer_ok_slot:
  assumes "array_ok base cap n" and "i < n" and "buffer_ok cap b"
  shows "is_dma b \<or> slice_in_one_page (slot_slice base cap i b)"
    and "slice_len (slot_slice base cap i b) \<noteq> 0 \<and> unat (slice_len (slot_slice base cap i b)) < 2 ^ 32"
proof -
  have "cap < 4096" using assms(1) dvd_imp_le [of "cap + 8" 4096] by (simp add: array_ok_def)
  then have u: "unat (of_nat (length bs) :: u64) = length bs" if "length bs \<le> cap" for bs :: "u8 list"
    using that by (simp add: unat_of_nat)
  show "is_dma b \<or> slice_in_one_page (slot_slice base cap i b)"
    using assms slot_in_one_page [OF assms(1,2)] by (cases b) auto
  show "slice_len (slot_slice base cap i b) \<noteq> 0 \<and> unat (slice_len (slot_slice base cap i b)) < 2 ^ 32"
  proof (cases b)
    case (Inline bs)
    then have "bs \<noteq> []" "length bs \<le> cap" using assms(3) by simp_all
    then show ?thesis using u [of bs] \<open>cap < 4096\<close> Inline by (auto simp: word_unat_eq_iff)
  qed (use assms(3) in auto)
qed

text \<open>
  The invariant. \<open>fl\<close> lists the requests in flight, each with its token and its slot. Free slots are empty, the slots
  of requests hold the buffers the device was given, no slot is both free and in flight, and the table of
  indices finds the slot of every token in flight and of no other.
\<close>

definition slot_bufs :: "('f, 'q, 's, 't, 'h, 'k) gq_env \<Rightarrow> ('f, 'q, 's) gpu_queue \<Rightarrow> nat \<Rightarrow> (slice \<times> buffer_direction) list" where
  "slot_bufs env Q i = input_output [in_slice env i (the (inputs Q ! i)) Q] [out_slice env i (the (outputs Q ! i)) Q]"

definition in_flight :: "('f, 'q, 's, 't, 'h, 'k) gq_env \<Rightarrow> ('f, 'q, 's) gpu_queue \<Rightarrow> (u16 \<times> nat) list \<Rightarrow> (u16 \<times> (slice \<times> buffer_direction) list) list" where
  "in_flight env Q fl = map (\<lambda>(tok, i). (tok, slot_bufs env Q i)) fl"

definition gq_inv :: "('f, 'q, 's, 't, 'h, 'k) gq_env \<Rightarrow> ('f, 'q, 's) views \<Rightarrow> ('f, 'q, 's) gpu_queue \<Rightarrow> (u16 \<times> nat) list \<Rightarrow> bool" where
  "gq_inv env V Q fl \<longleftrightarrow> table (gq_queue Q) (in_flight env Q fl) \<and> 2 \<le> slots Q
     \<and> length (inputs Q) = slots Q \<and> length (outputs Q) = slots Q \<and> length (callbacks Q) = slots Q
     \<and> length (indices Q) = slots Q \<and> free_cap V (free_slots Q) = slots Q
     \<and> distinct (free_list V Q @ map snd fl) \<and> set (free_list V Q @ map snd fl) \<subseteq> {..<slots Q}
     \<and> (\<forall>t < slots Q. indices Q ! t = map_of (map (\<lambda>(tok, i). (unat tok, i)) fl) t)
     \<and> (\<forall>i \<in> snd ` set fl. inputs Q ! i \<noteq> None \<and> outputs Q ! i \<noteq> None)
     \<and> (\<forall>i \<in> set (free_list V Q). inputs Q ! i = None \<and> outputs Q ! i = None \<and> callbacks Q ! i = NoCallback)
     \<and> chan_inv (fast_content V) (fast_cap V) (slow_content V) (chan Q) \<and> list_all (message_ok env) (queued V Q)
     \<and> array_ok (in_base Q) (cap_in env) (slots Q) \<and> array_ok (out_base Q) (cap_out env) (slots Q)"

lemma gq_invD:
  assumes "gq_inv env V Q fl"
  shows "table (gq_queue Q) (in_flight env Q fl)" "2 \<le> slots Q"
    "length (inputs Q) = slots Q" "length (outputs Q) = slots Q" "length (callbacks Q) = slots Q"
    "length (indices Q) = slots Q" "free_cap V (free_slots Q) = slots Q"
    "distinct (free_list V Q @ map snd fl)" "set (free_list V Q @ map snd fl) \<subseteq> {..<slots Q}"
    "\<And>t. t < slots Q \<Longrightarrow> indices Q ! t = map_of (map (\<lambda>(tok, i). (unat tok, i)) fl) t"
    "\<And>i. i \<in> snd ` set fl \<Longrightarrow> inputs Q ! i \<noteq> None \<and> outputs Q ! i \<noteq> None"
    "\<And>i. i \<in> set (free_list V Q) \<Longrightarrow> inputs Q ! i = None \<and> outputs Q ! i = None \<and> callbacks Q ! i = NoCallback"
    "chan_inv (fast_content V) (fast_cap V) (slow_content V) (chan Q)" "list_all (message_ok env) (queued V Q)"
    "array_ok (in_base Q) (cap_in env) (slots Q)" "array_ok (out_base Q) (cap_out env) (slots Q)"
  using assms unfolding gq_inv_def by blast+

lemma slots_bound:
  assumes "gq_inv env V Q fl"
  shows "length (free_list V Q) + length fl \<le> slots Q"
proof -
  have "length (free_list V Q @ map snd fl) = card (set (free_list V Q @ map snd fl))"
    using gq_invD(8) [OF assms] by (simp only: distinct_card)
  also have "\<dots> \<le> card {..<slots Q}" using gq_invD(9) [OF assms] by (intro card_mono) simp_all
  finally show ?thesis by simp
qed

text \<open>The buffers of a slot do not depend on the other slots.\<close>

lemma in_flight_cong:
  assumes "\<And>i. i \<in> snd ` set fl \<Longrightarrow> inputs Q' ! i = inputs Q ! i \<and> outputs Q' ! i = outputs Q ! i"
    and "in_base Q' = in_base Q" "out_base Q' = out_base Q"
  shows "in_flight env Q' fl = in_flight env Q fl"
proof -
  have "slot_bufs env Q' i = slot_bufs env Q i" if "(tok, i) \<in> set fl" for tok i
    using assms(1) [of i] assms(2,3) that by (force simp: slot_bufs_def in_slice_def out_slice_def)
  then show ?thesis by (auto simp: in_flight_def)
qed

lemma in_flight_simps [simp]:
  "in_flight env Q [] = []"
  "in_flight env Q ((tok, i) # fl) = (tok, slot_bufs env Q i) # in_flight env Q fl"
  "in_flight env Q (fl1 @ fl2) = in_flight env Q fl1 @ in_flight env Q fl2"
  by (simp_all add: in_flight_def)

lemma fill_free_slot:
  assumes "i < length (inputs Q)" "i < length (outputs Q)" "i < length (callbacks Q)"
    and "inputs Q ! i = None" "outputs Q ! i = None" "callbacks Q ! i = NoCallback"
  obtains w' where "fill_slot env i (Some a) (Some b) cb Q w
      = Some (Q\<lparr>inputs := (inputs Q)[i := Some a], outputs := (outputs Q)[i := Some b], callbacks := (callbacks Q)[i := cb]\<rparr>, w')"
    "gw_data w' = gw_data w" "gw_objects w' = gw_objects w" "gw_transport w' = gw_transport w"
  using assms by (simp add: fill_slot_def get_lt Let_def)

lemma push_to_device_ok:
  fixes Q :: "('f, 'q, 's) gpu_queue"
  assumes law: "hal_box_law (g_hal env)"
    and t: "table (gq_queue Q) (in_flight env Q fl)" "2 \<le> slots Q"
    and len: "length (inputs Q) = slots Q" "length (outputs Q) = slots Q" "length (callbacks Q) = slots Q" "length (indices Q) = slots Q"
    and empty: "inputs Q ! i = None" "outputs Q ! i = None" "callbacks Q ! i = NoCallback"
    and i: "i < slots Q" "i \<notin> snd ` set fl" and m: "message_ok env m"
    and arr: "array_ok (in_base Q) (cap_in env) (slots Q)" "array_ok (out_base Q) (cap_out env) (slots Q)"
  defines "Q1 \<equiv> Q\<lparr>inputs := (inputs Q)[i := Some (msg_input m)], outputs := (outputs Q)[i := Some (msg_output m)],
      callbacks := (callbacks Q)[i := msg_callback m]\<rparr>"
  shows "(if if indirect (gq_queue Q) then length fl < slots Q else 2 * length fl + 2 \<le> slots Q
    then \<exists>tok q w'. push_to_device env i m Q w = Some (Inr (), Q1\<lparr>gq_queue := q, indices := (indices Q)[unat tok := Some i]\<rparr>, w')
      \<and> table q ((tok, slot_bufs env Q1 i) # in_flight env Q fl) \<and> unat tok < slots Q
      \<and> SIZE q = slots Q \<and> indirect q = indirect (gq_queue Q) \<and> queue_idx q = queue_idx (gq_queue Q)
      \<and> (\<exists>ps. map (\<lambda>(s, d, p). (s, d)) ps = slot_bufs env Q1 i \<and> device_buffers q tok = Some (map visible ps))
      \<and> gw_data w' = gw_data w \<and> gw_objects w' = gw_objects w
    else indirect (gq_queue Q) \<or> (\<exists>w'. push_to_device env i m Q w = Some (Inl BUFFER_TOO_SMALL, Q1, w')
      \<and> gw_data w' = gw_data w \<and> gw_objects w' = gw_objects w))"
proof -
  let ?a = "in_slice env i (msg_input m) Q1" and ?b = "out_slice env i (msg_output m) Q1"
  obtain w1 where w1: "fill_slot env i (Some (msg_input m)) (Some (msg_output m)) (msg_callback m) Q w = Some (Q1, w1)"
    "gw_data w1 = gw_data w" "gw_objects w1 = gw_objects w"
    using fill_free_slot [of i Q env "msg_input m" "msg_output m" "msg_callback m" w] i len empty unfolding Q1_def by metis
  note ok = buffer_ok_slot [OF arr(1) i(1), of "msg_input m"] buffer_ok_slot [OF arr(2) i(1), of "msg_output m"]
  have one: "is_dma (msg_input m) \<or> slice_in_one_page ?a" "is_dma (msg_output m) \<or> slice_in_one_page ?b"
    and bufs: "list_all buf_ok (input_output [?a] [?b])"
    using ok m by (auto simp: in_slice_def out_slice_def Q1_def message_ok_def input_output_def buf_ok_def)
  have sb: "slot_bufs env Q1 i = input_output [?a] [?b]"
    using i(1) len by (simp add: slot_bufs_def Q1_def)
  have q1: "gq_queue Q1 = gq_queue Q" "indices Q1 = indices Q" by (simp_all add: Q1_def)
  show ?thesis
  proof (cases "if indirect (gq_queue Q) then length fl < slots Q else 2 * length fl + 2 \<le> slots Q")
    case True
    obtain tok q' h' where A: "add (g_hal env) [?a] [?b] (gq_queue Q) (gw_hal w1) = Some (Inr tok, q', h')"
      "table q' ((tok, input_output [?a] [?b]) # in_flight env Q fl)" "SIZE q' = slots Q"
      "indirect q' = indirect (gq_queue Q)" "queue_idx q' = queue_idx (gq_queue Q)"
      "\<exists>ps. map (\<lambda>(s, d, p). (s, d)) ps = input_output [?a] [?b] \<and> device_buffers q' tok = Some (map visible ps)"
      by (rule table_add [OF t(1) law bufs _ t(2), of "gw_hal w1"]) (use True in \<open>auto simp: in_flight_def\<close>)
    have tok: "unat tok < slots Q" using table_token [OF A(2), of tok "input_output [?a] [?b]"] A(3) by simp
    define w2 where "w2 = (if should_notify q' then w1\<lparr>gw_hal := h', gw_transport := notify (g_transport env) (queue_idx q') (gw_transport w1)\<rparr>
      else w1\<lparr>gw_hal := h'\<rparr>)"
    have "push_to_device env i m Q w = Some (Inr (), Q1\<lparr>gq_queue := q', indices := (indices Q)[unat tok := Some i]\<rparr>, w2)"
      using tok len(4) one by (simp add: push_to_device_def w1(1) q1 A(1) w2_def Let_def)
    moreover have "gw_data w2 = gw_data w" "gw_objects w2 = gw_objects w" using w1 by (simp_all add: w2_def)
    ultimately show ?thesis using True A(2-6) tok unfolding if_P [OF True] sb by blast
  next
    case False
    show ?thesis
    proof (cases "indirect (gq_queue Q)")
      case True
      with False show ?thesis by simp
    next
      case direct: False
      then have "add (g_hal env) [?a] [?b] (gq_queue Q) (gw_hal w1) = Some (Inl QueueFull, gq_queue Q, gw_hal w1)"
        using False by (intro table_full [OF t(1)]) (simp_all add: in_flight_def)
      then have "push_to_device env i m Q w = Some (Inl BUFFER_TOO_SMALL, Q1, w1)"
        using one by (simp add: push_to_device_def w1(1) q1)
      then show ?thesis using False w1 by (simp only: if_False) blast
    qed
  qed
qed

definition slot_message :: "('f, 'q, 's) gpu_queue \<Rightarrow> nat \<Rightarrow> message" where
  "slot_message Q i = \<lparr>msg_input = the (inputs Q ! i), msg_output = the (outputs Q ! i), msg_callback = callbacks Q ! i\<rparr>"

lemma request_idle:
  assumes inv: "gq_inv env V Q fl" and law: "laws env V" and idle: "free_list V Q = [] \<or> queued V Q = []"
  obtains Q' where "request env Q w = Some (Inr None, Q', w)" "gq_inv env V Q' fl"
    "mset (free_list V Q') = mset (free_list V Q)" "queued V Q' = queued V Q"
    "gq_queue Q' = gq_queue Q" "slot_message Q' = slot_message Q"
proof (rule array_queue_pop [of "free_ops env" "free_content V" "free_cap V" "free_slots Q"])
  show "array_queue_law (free_ops env) (free_content V) (free_cap V)" using law by (simp add: laws_def)
next
  assume "aq_pop (free_ops env) (free_slots Q) = (None, free_slots Q)"
  then have "request env Q w = Some (Inr None, Q, w)" by (simp add: request_def)
  then show thesis using that inv by blast
next
  fix x xs f
  assume pop: "free_content V (free_slots Q) = x # xs" "aq_pop (free_ops env) (free_slots Q) = (Some x, f)"
    "free_content V f = xs" "free_cap V f = free_cap V (free_slots Q)"
  have aq: "array_queue_law (free_ops env) (free_content V) (free_cap V)"
    and "array_queue_law (fast_ops env) (fast_content V) (fast_cap V)" "seg_queue_law (slow_ops env) (slow_content V)"
    using law by (simp_all add: laws_def)
  note chan = aseg_pop_ok [OF this(2,3) gq_invD(13) [OF inv]]
  have "queued V Q = []" using idle pop(1) by (simp add: free_list_def)
  then obtain c where c: "aseg_pop (fast_ops env) (slow_ops env) (chan Q) = (None, c)"
    "chan_inv (fast_content V) (fast_cap V) (slow_content V) c" "chan_content (fast_content V) (slow_content V) c = []"
    using chan by (auto simp: queued_def)
  have "length (free_list V Q) \<le> slots Q" using slots_bound [OF inv] by simp
  then have "length (free_content V f) < free_cap V f"
    using pop gq_invD(7) [OF inv] by (simp add: free_list_def)
  then obtain f' where f': "aq_push (free_ops env) x f = (None, f')" "free_content V f' = xs @ [x]" "free_cap V f' = free_cap V f"
    using array_queue_push [OF aq, of f x] pop(3) by metis
  let ?Q = "Q\<lparr>free_slots := f', chan := c\<rparr>"
  have "request env Q w = Some (Inr None, ?Q, w)" by (simp add: request_def pop c f')
  moreover have "in_flight env ?Q fl = in_flight env Q fl" by (rule in_flight_cong) simp_all
  then have "gq_inv env V ?Q fl"
    using inv pop c f' \<open>queued V Q = []\<close> unfolding gq_inv_def by (auto simp: free_list_def queued_def)
  ultimately show thesis
    using that [of ?Q] pop f' c \<open>queued V Q = []\<close> by (simp add: free_list_def queued_def slot_message_def fun_eq_iff)
qed

text \<open>What a successful request leaves: its message is in the slot and visible to the device under the new token.\<close>

definition sent :: "('f, 'q, 's, 't, 'h, 'k) gq_env \<Rightarrow> ('f, 'q, 's) gpu_queue \<Rightarrow> u16 \<Rightarrow> nat \<Rightarrow> message \<Rightarrow> bool" where
  "sent env Q tok i m \<longleftrightarrow> inputs Q ! i = Some (msg_input m) \<and> outputs Q ! i = Some (msg_output m) \<and> callbacks Q ! i = msg_callback m
     \<and> (\<exists>ps. map (\<lambda>(s, d, p). (s, d)) ps = slot_bufs env Q i \<and> device_buffers (gq_queue Q) tok = Some (map visible ps))"

lemma request_step:
  assumes inv: "gq_inv env V Q fl" and law: "laws env V" and free: "free_list V Q = i # is'" and msg: "queued V Q = m # ms"
  obtains f c where "aq_pop (free_ops env) (free_slots Q) = (Some i, f)" "aseg_pop (fast_ops env) (slow_ops env) (chan Q) = (Some m, c)"
    "request env Q w = do {
       (r, Q, w) \<leftarrow> push_to_device env i m (Q\<lparr>free_slots := f, chan := c\<rparr>) w;
       Some (case r of Inl e \<Rightarrow> Inl e | Inr _ \<Rightarrow> Inr (Some ()), Q, w) }"
    "gq_inv env V (Q\<lparr>free_slots := f, chan := c\<rparr>) fl" "free_list V (Q\<lparr>free_slots := f, chan := c\<rparr>) = is'"
    "queued V (Q\<lparr>free_slots := f, chan := c\<rparr>) = ms" "message_ok env m"
proof -
  have aq: "array_queue_law (free_ops env) (free_content V) (free_cap V)"
    and "array_queue_law (fast_ops env) (fast_content V) (fast_cap V)" "seg_queue_law (slow_ops env) (slow_content V)"
    using law by (simp_all add: laws_def)
  note chan = aseg_pop_ok [OF this(2,3) gq_invD(13) [OF inv]]
  obtain c where c: "aseg_pop (fast_ops env) (slow_ops env) (chan Q) = (Some m, c)"
    "chan_inv (fast_content V) (fast_cap V) (slow_content V) c" "chan_content (fast_content V) (slow_content V) c = ms"
    using chan msg by (auto simp: queued_def)
  obtain f where f: "aq_pop (free_ops env) (free_slots Q) = (Some i, f)" "free_content V f = is'" "free_cap V f = free_cap V (free_slots Q)"
    using array_queue_pop [OF aq, of "free_slots Q"] free by (metis free_list_def list.distinct(1) list.inject)
  have "in_flight env (Q\<lparr>free_slots := f, chan := c\<rparr>) fl = in_flight env Q fl" by (rule in_flight_cong) simp_all
  moreover have "list_all (message_ok env) ms" "message_ok env m" using gq_invD(14) [OF inv] msg by simp_all
  ultimately have "gq_inv env V (Q\<lparr>free_slots := f, chan := c\<rparr>) fl"
    using inv free f c unfolding gq_inv_def by (auto simp: free_list_def queued_def)
  then show ?thesis using that f c \<open>message_ok env m\<close> by (simp add: request_def free_list_def queued_def)
qed

lemma request_sent:
  assumes inv: "gq_inv env V Q fl" and law: "laws env V" and free: "free_list V Q = i # is'" and msg: "queued V Q = m # ms"
    and room: "indirect (gq_queue Q) \<or> 2 * length fl + 2 \<le> slots Q"
  obtains tok Q' w' where "request env Q w = Some (Inr (Some ()), Q', w')" "gq_inv env V Q' ((tok, i) # fl)"
    "free_list V Q' = is'" "queued V Q' = ms" "sent env Q' tok i m" "indirect (gq_queue Q') = indirect (gq_queue Q)"
    "slots Q' = slots Q" "gw_data w' = gw_data w" "gw_objects w' = gw_objects w"
    "\<And>j. j \<noteq> i \<Longrightarrow> slot_message Q' j = slot_message Q j"
proof -
  obtain f c where S: "request env Q w = do {
       (r, Q, w) \<leftarrow> push_to_device env i m (Q\<lparr>free_slots := f, chan := c\<rparr>) w;
       Some (case r of Inl e \<Rightarrow> Inl e | Inr _ \<Rightarrow> Inr (Some ()), Q, w) }"
    "gq_inv env V (Q\<lparr>free_slots := f, chan := c\<rparr>) fl" "free_list V (Q\<lparr>free_slots := f, chan := c\<rparr>) = is'"
    "queued V (Q\<lparr>free_slots := f, chan := c\<rparr>) = ms" "message_ok env m"
    by (rule request_step [OF inv law free msg, of w])
  define Q0 where "Q0 = Q\<lparr>free_slots := f, chan := c\<rparr>"
  note inv0 = S(2) [folded Q0_def]
  have i: "i < slots Q0" "i \<notin> snd ` set fl" "i \<notin> set is'"
    and empty: "inputs Q0 ! i = None" "outputs Q0 ! i = None" "callbacks Q0 ! i = NoCallback"
    using gq_invD(8,9,12) [OF inv] free by (auto simp: Q0_def)
  have q0: "gq_queue Q0 = gq_queue Q" by (simp add: Q0_def)
  have box: "hal_box_law (g_hal env)" using law by (simp add: laws_def)
  define Q1 where "Q1 = Q0\<lparr>inputs := (inputs Q0)[i := Some (msg_input m)], outputs := (outputs Q0)[i := Some (msg_output m)],
      callbacks := (callbacks Q0)[i := msg_callback m]\<rparr>"
  have R: "if indirect (gq_queue Q0) then length fl < slots Q0 else 2 * length fl + 2 \<le> slots Q0"
    using room slots_bound [OF inv] free by (auto simp: q0)
  obtain tok q w' where P: "push_to_device env i m Q0 w = Some (Inr (), Q1\<lparr>gq_queue := q, indices := (indices Q0)[unat tok := Some i]\<rparr>, w')"
    "table q ((tok, slot_bufs env Q1 i) # in_flight env Q0 fl)" "unat tok < slots Q0"
    "SIZE q = slots Q0" "indirect q = indirect (gq_queue Q0)" "gw_data w' = gw_data w" "gw_objects w' = gw_objects w"
    "\<exists>ps. map (\<lambda>(s, d, p). (s, d)) ps = slot_bufs env Q1 i \<and> device_buffers q tok = Some (map visible ps)"
    using push_to_device_ok [OF box gq_invD(1-6) [OF inv0] empty i(1,2) S(5) gq_invD(15,16) [OF inv0], of w, folded Q1_def,
      unfolded if_P [OF R]] by blast
  define Q2 where "Q2 = Q1\<lparr>gq_queue := q, indices := (indices Q0)[unat tok := Some i]\<rparr>"
  have len: "i < length (inputs Q0)" "i < length (outputs Q0)" "i < length (callbacks Q0)" using gq_invD(3-5) [OF inv0] i(1) by simp_all
  have Q2: "gq_queue Q2 = q" "inputs Q2 = (inputs Q0)[i := Some (msg_input m)]" "outputs Q2 = (outputs Q0)[i := Some (msg_output m)]"
    "callbacks Q2 = (callbacks Q0)[i := msg_callback m]" "indices Q2 = (indices Q0)[unat tok := Some i]"
    "free_slots Q2 = free_slots Q0" "chan Q2 = chan Q0" "in_base Q2 = in_base Q0" "out_base Q2 = out_base Q0"
    by (simp_all add: Q2_def Q1_def)
  have sb: "slot_bufs env Q1 i = slot_bufs env Q2 i" by (simp add: slot_bufs_def Q2_def in_slice_def out_slice_def)
  have "i \<noteq> j" if "j \<in> snd ` set fl" for j using i(2) that by blast
  then have "in_flight env Q2 fl = in_flight env Q0 fl" by (intro in_flight_cong) (simp_all add: Q2)
  then have "table (gq_queue Q2) (in_flight env Q2 ((tok, i) # fl))" using P(2) sb by (simp add: Q2)
  moreover have fr: "free_list V Q2 = is'" "queued V Q2 = ms" using S(3,4) by (simp_all add: free_list_def queued_def Q2 Q0_def)
  ultimately have "gq_inv env V Q2 ((tok, i) # fl)"
    using inv0 i len P(3,4) gq_invD(6) [OF inv0] S(3,4) [folded Q0_def]
    unfolding gq_inv_def by (auto simp: Q2 nth_list_update)
  moreover have "request env Q w = Some (Inr (Some ()), Q2, w')" using S(1) P(1) by (simp add: Q0_def Q2_def)
  moreover have "sent env Q2 tok i m" using P(8) sb len by (simp add: sent_def Q2)
  moreover have "slot_message Q2 j = slot_message Q j" if "j \<noteq> i" for j
    using that by (simp add: slot_message_def Q2 Q0_def)
  ultimately show ?thesis using that fr P(4-7) by (simp add: Q2 q0)
qed

text \<open>A request that finds no descriptors: the slot and the message are gone, and nothing is in flight for them.\<close>

lemma request_lost:
  assumes inv: "gq_inv env V Q fl" and law: "laws env V" and free: "free_list V Q = i # is'" and msg: "queued V Q = m # ms"
    and full: "\<not> indirect (gq_queue Q)" "slots Q < 2 * length fl + 2"
  obtains Q' w' where "request env Q w = Some (Inl BUFFER_TOO_SMALL, Q', w')" "gq_inv env V Q' fl"
    "free_list V Q' = is'" "queued V Q' = ms" "gq_queue Q' = gq_queue Q" "gw_data w' = gw_data w" "gw_objects w' = gw_objects w"
proof -
  obtain f c where S: "request env Q w = do {
       (r, Q, w) \<leftarrow> push_to_device env i m (Q\<lparr>free_slots := f, chan := c\<rparr>) w;
       Some (case r of Inl e \<Rightarrow> Inl e | Inr _ \<Rightarrow> Inr (Some ()), Q, w) }"
    "gq_inv env V (Q\<lparr>free_slots := f, chan := c\<rparr>) fl" "free_list V (Q\<lparr>free_slots := f, chan := c\<rparr>) = is'"
    "queued V (Q\<lparr>free_slots := f, chan := c\<rparr>) = ms" "message_ok env m"
    by (rule request_step [OF inv law free msg, of w])
  define Q0 where "Q0 = Q\<lparr>free_slots := f, chan := c\<rparr>"
  note inv0 = S(2) [folded Q0_def]
  have i: "i < slots Q0" "i \<notin> snd ` set fl" "i \<notin> set is'"
    and empty: "inputs Q0 ! i = None" "outputs Q0 ! i = None" "callbacks Q0 ! i = NoCallback"
    using gq_invD(8,9,12) [OF inv] free by (auto simp: Q0_def)
  have q0: "gq_queue Q0 = gq_queue Q" by (simp add: Q0_def)
  have box: "hal_box_law (g_hal env)" using law by (simp add: laws_def)
  define Q1 where "Q1 = Q0\<lparr>inputs := (inputs Q0)[i := Some (msg_input m)], outputs := (outputs Q0)[i := Some (msg_output m)],
      callbacks := (callbacks Q0)[i := msg_callback m]\<rparr>"
  from push_to_device_ok [OF box gq_invD(1-6) [OF inv0] empty i(1,2) S(5) gq_invD(15,16) [OF inv0], of w, folded Q1_def] full
  obtain w' where P: "push_to_device env i m Q0 w = Some (Inl BUFFER_TOO_SMALL, Q1, w')" "gw_data w' = gw_data w" "gw_objects w' = gw_objects w"
    by (auto simp: q0)
  have "i \<noteq> j" if "j \<in> snd ` set fl" for j using i(2) that by blast
  then have "in_flight env Q1 fl = in_flight env Q0 fl" by (intro in_flight_cong) (simp_all add: Q1_def)
  moreover have fr: "free_list V Q1 = is'" "queued V Q1 = ms" using S(3,4) by (simp_all add: free_list_def queued_def Q1_def Q0_def)
  ultimately have "gq_inv env V Q1 fl"
    using inv0 i S(3,4) [folded Q0_def] unfolding gq_inv_def by (auto simp: Q1_def nth_list_update)
  moreover have "request env Q w = Some (Inl BUFFER_TOO_SMALL, Q1, w')" using S(1) P(1) by (simp add: Q0_def)
  ultimately show ?thesis using that fr P(2,3) by (simp add: Q1_def q0)
qed

lemma handle_requests_step:
  "request env Q w = Some (Inr None, Q', w') \<Longrightarrow> handle_requests env Q w = Some (Q', w')"
  "request env Q w = Some (Inr (Some ()), Q', w') \<Longrightarrow> handle_requests env Q w = handle_requests env Q' w'"
  "request env Q w = Some (Inl e, Q', w') \<Longrightarrow> handle_requests env Q w = handle_requests env Q' w'"
  by (subst handle_requests.simps, simp)+

lemma handle_requests_idle:
  assumes "gq_inv env V Q fl" and "laws env V" and "free_list V Q = [] \<or> queued V Q = []"
  obtains Q' where "handle_requests env Q w = Some (Q', w)" "gq_inv env V Q' fl"
    "mset (free_list V Q') = mset (free_list V Q)" "queued V Q' = queued V Q"
    "gq_queue Q' = gq_queue Q" "slot_message Q' = slot_message Q"
proof -
  obtain Q' where "request env Q w = Some (Inr None, Q', w)" "gq_inv env V Q' fl"
    "mset (free_list V Q') = mset (free_list V Q)" "queued V Q' = queued V Q"
    "gq_queue Q' = gq_queue Q" "slot_message Q' = slot_message Q"
    by (rule request_idle [OF assms, of w])
  then show ?thesis using that by (simp add: handle_requests_step)
qed

lemma handle_requests_moves:
  assumes "gq_inv env V Q fl" and law: "laws env V" and "indirect (gq_queue Q)"
  shows "\<exists>Q' w' new. handle_requests env Q w = Some (Q', w') \<and> gq_inv env V Q' (new @ fl)
    \<and> map (\<lambda>(tok, i). slot_message Q' i) (rev new) = take (length (free_list V Q)) (queued V Q)
    \<and> queued V Q' = drop (length (free_list V Q)) (queued V Q)
    \<and> (\<forall>i. i \<notin> set (free_list V Q) \<longrightarrow> slot_message Q' i = slot_message Q i)
    \<and> gw_data w' = gw_data w \<and> gw_objects w' = gw_objects w"
  using assms(1,3)
proof (induction "queued V Q" arbitrary: Q fl w)
  case Nil
  then obtain Q' where "handle_requests env Q w = Some (Q', w)" "gq_inv env V Q' fl" "queued V Q' = queued V Q" "slot_message Q' = slot_message Q"
    using handle_requests_idle [OF Nil.prems(1) law, of w] by metis
  then show ?case using Nil.hyps [symmetric] by (intro exI [of _ Q'] exI [of _ w] exI [of _ "[]"]) simp
next
  case (Cons m ms)
  show ?case
  proof (cases "free_list V Q")
    case Nil
    then obtain Q' where "handle_requests env Q w = Some (Q', w)" "gq_inv env V Q' fl" "queued V Q' = queued V Q" "slot_message Q' = slot_message Q"
      using handle_requests_idle [OF Cons.prems(1) law, of w] by metis
    then show ?thesis using Nil by (intro exI [of _ Q'] exI [of _ w] exI [of _ "[]"]) simp
  next
    case (Cons i is')
    obtain tok Q1 w1 where R: "request env Q w = Some (Inr (Some ()), Q1, w1)" "gq_inv env V Q1 ((tok, i) # fl)"
      "free_list V Q1 = is'" "queued V Q1 = ms" "sent env Q1 tok i m" "indirect (gq_queue Q1) = indirect (gq_queue Q)"
      "gw_data w1 = gw_data w" "gw_objects w1 = gw_objects w" "\<And>j. j \<noteq> i \<Longrightarrow> slot_message Q1 j = slot_message Q j"
      using request_sent [OF Cons.prems(1) law Cons Cons.hyps(2) [symmetric], of w] Cons.prems(2) by metis
    obtain Q' w' new where H: "handle_requests env Q1 w1 = Some (Q', w')" "gq_inv env V Q' (new @ (tok, i) # fl)"
      "map (\<lambda>(tok, i). slot_message Q' i) (rev new) = take (length is') ms" "queued V Q' = drop (length is') ms"
      "\<And>j. j \<notin> set is' \<Longrightarrow> slot_message Q' j = slot_message Q1 j" "gw_data w' = gw_data w1" "gw_objects w' = gw_objects w1"
      using Cons.hyps(1) [OF R(4) [symmetric] R(2), of w1] R(3,4,6) Cons.prems(2) by auto
    have "i \<notin> set is'" using gq_invD(8) [OF Cons.prems(1)] Cons by simp
    then have "slot_message Q' i = m" using H(5) R(5) by (simp add: slot_message_def sent_def)
    then show ?thesis
      using H R Cons Cons.hyps(2) [symmetric]
      by (intro exI [of _ Q'] exI [of _ w'] exI [of _ "new @ [(tok, i)]"]) (simp add: handle_requests_step)
  qed
qed

text \<open>
  The handler sends what it can: with indirect descriptors \<open>handle_requests\<close> returns, no message and no slot is
  lost, and as many messages as there were free slots have moved from the channel, in order, each into a slot of its
  own under a token of its own that the device can see; the other messages stay on the channel.
\<close>

theorem handle_requests_sends:
  assumes "gq_inv env V Q fl" and law: "laws env V" and "indirect (gq_queue Q)"
  shows "\<exists>Q' w' new. handle_requests env Q w = Some (Q', w') \<and> gq_inv env V Q' (new @ fl)
    \<and> map (\<lambda>(tok, i). slot_message Q' i) (rev new) = take (length (free_list V Q)) (queued V Q)
    \<and> queued V Q' = drop (length (free_list V Q)) (queued V Q)
    \<and> (\<forall>i. i \<notin> set (free_list V Q) \<longrightarrow> slot_message Q' i = slot_message Q i)
    \<and> gw_data w' = gw_data w \<and> gw_objects w' = gw_objects w"
  by (rule handle_requests_moves [OF assms])

text \<open>
  Without indirect descriptors a request takes two descriptors but the queue has a slot for each single one. Once
  half of the slots are in flight, \<open>handle_requests\<close> takes every further message off the channel, sends none of them
  and never frees their slots: the messages are lost, with their callbacks, and the slots are gone for good.
\<close>

theorem handle_requests_loses:
  assumes "gq_inv env V Q fl" and law: "laws env V" and "\<not> indirect (gq_queue Q)" and "slots Q < 2 * length fl + 2"
    and "length (queued V Q) \<le> length (free_list V Q)"
  shows "\<exists>Q' w'. handle_requests env Q w = Some (Q', w') \<and> gq_inv env V Q' fl \<and> queued V Q' = []
    \<and> gq_queue Q' = gq_queue Q \<and> length (free_list V Q') + length (queued V Q) = length (free_list V Q)
    \<and> gw_data w' = gw_data w \<and> gw_objects w' = gw_objects w"
  using assms(1,3-5)
proof (induction "queued V Q" arbitrary: Q w)
  case Nil
  then obtain Q' where "handle_requests env Q w = Some (Q', w)" "gq_inv env V Q' fl" "queued V Q' = queued V Q"
    "mset (free_list V Q') = mset (free_list V Q)" "gq_queue Q' = gq_queue Q"
    using handle_requests_idle [OF Nil.prems(1) law, of w] by metis
  moreover from this(4) have "length (free_list V Q') = length (free_list V Q)" by (rule mset_eq_length)
  ultimately show ?case using Nil.hyps [symmetric] by (intro exI [of _ Q'] exI [of _ w]) simp
next
  case (Cons m ms)
  then obtain i is' where f: "free_list V Q = i # is'" by (cases "free_list V Q") auto
  obtain Q1 w1 where R: "request env Q w = Some (Inl BUFFER_TOO_SMALL, Q1, w1)" "gq_inv env V Q1 fl"
    "free_list V Q1 = is'" "queued V Q1 = ms" "gq_queue Q1 = gq_queue Q" "gw_data w1 = gw_data w" "gw_objects w1 = gw_objects w"
    by (rule request_lost [OF Cons.prems(1) law f Cons.hyps(2) [symmetric] Cons.prems(2,3), of w])
  have fit: "length (queued V Q1) \<le> length (free_list V Q1)" using Cons.prems(4) Cons.hyps(2) [symmetric] f R(3,4) by simp
  have "\<not> indirect (gq_queue Q1)" "slots Q1 < 2 * length fl + 2" using Cons.prems(2,3) R(5) by simp_all
  from Cons.hyps(1) [OF R(4) [symmetric] R(2) this fit, of w1] obtain Q' w' where H: "handle_requests env Q1 w1 = Some (Q', w')" "gq_inv env V Q' fl" "queued V Q' = []"
    "gq_queue Q' = gq_queue Q1" "length (free_list V Q') + length (queued V Q1) = length (free_list V Q1)"
    "gw_data w' = gw_data w1" "gw_objects w' = gw_objects w1"
    by blast
  show ?case using H R f Cons.hyps(2) [symmetric] by (intro exI [of _ Q'] exI [of _ w']) (simp add: handle_requests_step)
qed

section \<open>Answers\<close>

definition next_token :: "('f, 'q, 's) gpu_queue \<Rightarrow> u16" where
  "next_token Q = ucast (used_id (next_used (gq_queue Q)))"

lemma table_shape: "table q out \<Longrightarrow> shape_ok q"
  by (auto simp: table_def dest: vq_invD(1))

lemma peek_next:
  assumes "gq_inv env V Q fl" and "can_pop (gq_queue Q)"
  shows "peek_used (gq_queue Q) = Some (Some (next_token Q))"
  using assms(2) used_slot_ok [OF table_shape [OF gq_invD(1) [OF assms(1)]]]
  by (simp add: peek_used_def next_token_def next_used_def)

lemma tokens_distinct:
  assumes "gq_inv env V Q fl"
  shows "distinct (map fst fl)" "\<And>tok i. (tok, i) \<in> set fl \<Longrightarrow> unat tok < slots Q"
proof -
  have "map fst (in_flight env Q fl) = map fst fl" by (simp add: in_flight_def o_def case_prod_unfold)
  then show "distinct (map fst fl)" using outstanding_tokens [OF table_outstanding [OF gq_invD(1) [OF assms]]] by metis
  show "unat tok < slots Q" if "(tok, i) \<in> set fl" for tok i
    using that by (intro table_token [OF gq_invD(1) [OF assms], of tok "slot_bufs env Q i"]) (auto simp: in_flight_def)
qed

lemma map_of_unat: "map_of (map (\<lambda>(tok, i). (unat tok, i)) fl) (unat (tok :: u16)) = map_of fl tok"
  by (induction fl) (auto simp: word_unat_eq_iff)

lemma map_of_remove:
  assumes "distinct (map fst (fl1 @ (tok :: u16, i) # fl2))"
  shows "map_of (map (\<lambda>(tok, i). (unat tok, i)) (fl1 @ fl2)) t
    = (if t = unat tok then None else map_of (map (\<lambda>(tok, i). (unat tok, i)) (fl1 @ (tok, i) # fl2)) t)"
proof (cases "t = unat tok")
  case True
  have "map_of (fl1 @ fl2) tok = None" using assms by (simp add: map_of_eq_None_iff)
  then show ?thesis using True map_of_unat [of "fl1 @ fl2" tok] by simp
next
  case False
  then show ?thesis by (simp add: map_add_def split: option.split)
qed

text \<open>The slot of a token, as the table of indices gives it.\<close>

lemma indices_token:
  assumes inv: "gq_inv env V Q fl" and t: "unat tok < slots Q"
  shows "indices Q ! unat tok = map_of fl tok"
proof -
  show ?thesis using gq_invD(10) [OF inv t] by (simp add: map_of_unat)
qed

lemma foreign_token:
  assumes inv: "gq_inv env V Q fl" and pop: "can_pop (gq_queue Q)" and foreign: "next_token Q \<notin> fst ` set fl"
  shows "pop_from_device env Q h = (if unat (next_token Q) < slots Q then Some (Inl INVALID_DEVICE_STATE, Q, h) else None)"
proof (cases "unat (next_token Q) < slots Q")
  case True
  then have "indices Q ! unat (next_token Q) = None" using foreign by (simp add: indices_token [OF inv] map_of_eq_None_iff)
  then show ?thesis using True peek_next [OF inv pop] gq_invD(6) [OF inv] by (simp add: pop_from_device_def)
next
  case False
  then show ?thesis using peek_next [OF inv pop] gq_invD(6) [OF inv] by (simp add: pop_from_device_def)
qed

lemma answered_token:
  assumes inv: "gq_inv env V Q (fl1 @ (tok, i) # fl2)" and pop: "can_pop (gq_queue Q)" "next_token Q = tok"
  obtains q' h' where "pop_from_device env Q h = Some (Inr (Some (i, used_len (next_used (gq_queue Q)))),
      Q\<lparr>gq_queue := q', indices := (indices Q)[unat tok := None]\<rparr>, h')"
    "gq_inv env V (Q\<lparr>gq_queue := q', indices := (indices Q)[unat tok := None]\<rparr>) (fl1 @ fl2)"
    "SIZE q' = slots Q" "indirect q' = indirect (gq_queue Q)" "vq_used q' = vq_used (gq_queue Q)"
    "last_used_idx q' = last_used_idx (gq_queue Q) + 1"
proof -
  have tk: "unat tok < slots Q" and d: "distinct (map fst (fl1 @ (tok, i) # fl2))"
    using tokens_distinct [OF inv] by auto
  have ix: "indices Q ! unat tok = Some i"
    using d by (simp add: indices_token [OF inv tk] map_of_eq_None_iff [THEN iffD2] map_add_def)
  have il: "i < slots Q" using gq_invD(9) [OF inv] by auto
  obtain a b where ab: "inputs Q ! i = Some a" "outputs Q ! i = Some b" using gq_invD(11) [OF inv, of i] by auto
  have sb: "slot_bufs env Q i = input_output [in_slice env i a Q] [out_slice env i b Q]" by (simp add: slot_bufs_def ab)
  obtain q' h' where P: "pop_used (g_hal env) tok [in_slice env i a Q] [out_slice env i b Q] (gq_queue Q) h
      = Some (Inr (used_len (next_used (gq_queue Q))), q', h')"
    "table q' (in_flight env Q fl1 @ in_flight env Q fl2)" "SIZE q' = slots Q" "indirect q' = indirect (gq_queue Q)"
    "vq_used q' = vq_used (gq_queue Q)" "last_used_idx q' = last_used_idx (gq_queue Q) + 1"
    by (rule table_pop [of "gq_queue Q" "in_flight env Q fl1" tok "in_slice env i a Q" "out_slice env i b Q" "in_flight env Q fl2" "g_hal env" h])
       (use gq_invD(1) [OF inv] pop in \<open>simp_all add: sb next_token_def\<close>)
  let ?Q = "Q\<lparr>gq_queue := q', indices := (indices Q)[unat tok := None]\<rparr>"
  have "pop_from_device env Q h = Some (Inr (Some (i, used_len (next_used (gq_queue Q)))), ?Q, h')"
    using peek_next [OF inv pop(1)] pop(2) tk il ix ab P(1) gq_invD(3,4,6) [OF inv] by (simp add: pop_from_device_def)
  moreover have "in_flight env ?Q (fl1 @ fl2) = in_flight env Q (fl1 @ fl2)" by (rule in_flight_cong) simp_all
  moreover have "indices ?Q ! t = map_of (map (\<lambda>(tok, i). (unat tok, i)) (fl1 @ fl2)) t" if "t < slots Q" for t
    using that gq_invD(10) [OF inv that] gq_invD(6) [OF inv] by (simp add: map_of_remove [OF d] nth_list_update del: map_append)
  ultimately have "gq_inv env V ?Q (fl1 @ fl2)"
    using inv P(2,3) unfolding gq_inv_def by (auto simp: free_list_def queued_def)
  then show ?thesis using that \<open>pop_from_device env Q h = _\<close> P(3-6) by blast
qed

text \<open>The contents of a slot that is neither free nor in flight do not matter.\<close>

lemma gq_inv_slot:
  assumes inv: "gq_inv env V Q fl" and i: "i \<notin> set (free_list V Q)" "i \<notin> snd ` set fl"
  shows "gq_inv env V (Q\<lparr>inputs := (inputs Q)[i := a], outputs := (outputs Q)[i := b], callbacks := (callbacks Q)[i := c]\<rparr>) fl"
    (is "gq_inv env V ?Q fl")
proof -
  have ne: "i \<noteq> j" if "j \<in> snd ` set fl" for j using i(2) that by blast
  then have "in_flight env ?Q fl = in_flight env Q fl" by (intro in_flight_cong) simp_all
  moreover have "\<forall>j \<in> snd ` set fl. inputs ?Q ! j \<noteq> None \<and> outputs ?Q ! j \<noteq> None"
    using gq_invD(11) [OF inv] ne by simp
  moreover have "\<forall>j \<in> set (free_list V ?Q). inputs ?Q ! j = None \<and> outputs ?Q ! j = None \<and> callbacks ?Q ! j = NoCallback"
  proof
    fix j assume "j \<in> set (free_list V ?Q)"
    then have "j \<in> set (free_list V Q)" "i \<noteq> j" using i(1) by (auto simp: free_list_def)
    then show "inputs ?Q ! j = None \<and> outputs ?Q ! j = None \<and> callbacks ?Q ! j = NoCallback"
      using gq_invD(12) [OF inv] by simp
  qed
  ultimately show ?thesis
    unfolding gq_inv_def using gq_invD [OF inv] by (simp add: free_list_def queued_def)
qed

text \<open>A slot that is neither free nor in flight: that of a request just answered.\<close>

definition between :: "('f, 'q, 's, 't, 'h, 'k) gq_env \<Rightarrow> ('f, 'q, 's) views \<Rightarrow> ('f, 'q, 's) gpu_queue \<Rightarrow> (u16 \<times> nat) list \<Rightarrow> nat \<Rightarrow> bool" where
  "between env V Q fl i \<longleftrightarrow> gq_inv env V Q fl \<and> i < slots Q \<and> i \<notin> set (free_list V Q) \<and> i \<notin> snd ` set fl
     \<and> callbacks Q ! i = NoCallback"

lemma mark_free_ok:
  assumes b: "between env V Q fl i" and law: "laws env V"
  obtains Q' w' where "mark_free env i Q w = Some (Q', w')" "gq_inv env V Q' fl" "free_list V Q' = free_list V Q @ [i]"
    "queued V Q' = queued V Q" "gq_queue Q' = gq_queue Q" "gw_data w' = gw_data w" "gw_objects w' = gw_objects w"
proof -
  note inv = b [unfolded between_def, THEN conjunct1]
  have i: "i < slots Q" "i \<notin> set (free_list V Q)" "i \<notin> snd ` set fl" "callbacks Q ! i = NoCallback"
    using b by (simp_all add: between_def)
  define Q1 where "Q1 = Q\<lparr>inputs := (inputs Q)[i := None], outputs := (outputs Q)[i := None], callbacks := (callbacks Q)[i := NoCallback]\<rparr>"
  obtain w1 where w1: "fill_slot env i None None NoCallback Q w = Some (Q1, w1)" "gw_data w1 = gw_data w" "gw_objects w1 = gw_objects w"
    using i(1,4) gq_invD(3-5) [OF inv] by (simp add: fill_slot_def Q1_def Let_def)
  have aq: "array_queue_law (free_ops env) (free_content V) (free_cap V)" using law by (simp add: laws_def)
  have "distinct (i # free_list V Q)" "set (i # free_list V Q) \<subseteq> {..<slots Q}"
    using i gq_invD(8,9) [OF inv] by auto
  then have "length (i # free_list V Q) \<le> card {..<slots Q}" using distinct_card card_mono finite_lessThan by metis
  then have "length (free_content V (free_slots Q)) < free_cap V (free_slots Q)"
    using gq_invD(7) [OF inv] by (simp add: free_list_def)
  then obtain f where f: "aq_push (free_ops env) i (free_slots Q) = (None, f)" "free_content V f = free_content V (free_slots Q) @ [i]"
    "free_cap V f = free_cap V (free_slots Q)"
    using array_queue_push [OF aq] by metis
  let ?Q = "Q1\<lparr>free_slots := f\<rparr>"
  have fs: "free_slots Q1 = free_slots Q" by (simp add: Q1_def)
  have run: "mark_free env i Q w = Some (?Q, w1)" by (simp add: mark_free_def w1(1) f(1) fs)
  have "i \<noteq> j" if "j \<in> snd ` set fl" for j using i(3) that by blast
  then have "in_flight env ?Q fl = in_flight env Q fl" by (intro in_flight_cong) (simp_all add: Q1_def)
  moreover have fr: "free_list V ?Q = free_list V Q @ [i]" by (simp add: free_list_def f(2))
  ultimately have "gq_inv env V ?Q fl"
    using inv i f(3) unfolding gq_inv_def fr by (auto simp: Q1_def queued_def nth_list_update)
  then show ?thesis using that [OF run] fr w1 by (simp add: Q1_def queued_def)
qed

lemma run_callback_inv:
  assumes b: "between env V Q fl i" and law: "laws env V" and run: "run_callback env i cb Q w = Some (Q', w')"
  shows "gq_inv env V Q' fl \<and> free_list V Q' = free_list V Q @ [i] \<and> queued V Q' = queued V Q \<and> gq_queue Q' = gq_queue Q"
proof -
  have mf: "gq_inv env V Q2 fl \<and> free_list V Q2 = free_list V Q1 @ [i] \<and> queued V Q2 = queued V Q1 \<and> gq_queue Q2 = gq_queue Q1"
    if "mark_free env i Q1 w1 = Some (Q2, w2)" "between env V Q1 fl i" for Q1 Q2 w1 w2
    using mark_free_ok [OF that(2) law, of w1] that(1) by (metis option.inject prod.inject)
  show ?thesis
  proof (cases cb)
    case (SetEvent s)
    let ?Q = "Q\<lparr>outputs := (outputs Q)[i := None]\<rparr>"
    have "gq_inv env V Q fl" "i \<notin> set (free_list V Q)" "i \<notin> snd ` set fl" using b by (simp_all add: between_def)
    from gq_inv_slot [OF this, where a = "inputs Q ! i" and b = None and c = "callbacks Q ! i"] have "gq_inv env V ?Q fl" by simp
    then have "between env V ?Q fl i" using b by (simp add: between_def free_list_def)
    with mf [OF _ this] run SetEvent show ?thesis
      by (auto simp: run_callback_def bind_eq_Some_conv Let_def free_list_def queued_def split: prod.splits)
  next
    case NoCallback
    with run mf b show ?thesis by (auto simp: run_callback_def)
  next
    case FreeContextId
    with run mf b show ?thesis by (auto simp: run_callback_def)
  next
    case FreeResourceId
    with run mf b show ?thesis by (auto simp: run_callback_def)
  next
    case OnDmaCompleted
    with run mf b show ?thesis by (auto simp: run_callback_def bind_eq_Some_conv)
  next
    case OnDmaCompletedWithAllocations
    with run mf b show ?thesis by (auto simp: run_callback_def bind_eq_Some_conv)
  next
    case OnDmaCompletedBatched
    with run mf b show ?thesis by (auto simp: run_callback_def bind_eq_Some_conv Let_def split: prod.splits)
  qed
qed

text \<open>What a single answer does to the queue, whatever the device has written.\<close>

lemma response_cases:
  assumes inv: "gq_inv env V Q fl" and law: "laws env V" and run: "response env Q w = Some (r, Q', w')"
  obtains "r = Inr None" "\<not> can_pop (gq_queue Q)" "Q' = Q" "w' = w"
  | "r = Inl INVALID_DEVICE_STATE" "can_pop (gq_queue Q)" "next_token Q \<notin> fst ` set fl" "Q' = Q" "w' = w"
  | fl1 i fl2 where "r = Inr (Some ())" "can_pop (gq_queue Q)" "fl = fl1 @ (next_token Q, i) # fl2" "gq_inv env V Q' (fl1 @ fl2)"
      "free_list V Q' = free_list V Q @ [i]" "queued V Q' = queued V Q" "slots Q' = slots Q"
      "indirect (gq_queue Q') = indirect (gq_queue Q)" "last_used_idx (gq_queue Q') = last_used_idx (gq_queue Q) + 1"
proof (cases "can_pop (gq_queue Q)")
  case False
  then have "pop_from_device env Q (gw_hal w) = Some (Inr None, Q, gw_hal w)" by (simp add: pop_from_device_def peek_used_def)
  then have "r = Inr None" "Q' = Q" "w' = w" using run by (simp_all add: response_def)
  then show thesis using that(1) False by blast
next
  case pop: True
  show thesis
  proof (cases "next_token Q \<in> fst ` set fl")
    case False
    then have "r = Inl INVALID_DEVICE_STATE" "Q' = Q" "w' = w"
      using run foreign_token [OF inv pop False] by (simp_all add: response_def split: if_splits)
    then show thesis using that(2) False pop by blast
  next
    case True
    then obtain fl1 i fl2 where fl: "fl = fl1 @ (next_token Q, i) # fl2" using split_list by fastforce
    let ?Q = "\<lambda>q. Q\<lparr>gq_queue := q, indices := (indices Q)[unat (next_token Q) := None]\<rparr>"
    obtain q h where P: "pop_from_device env Q (gw_hal w) = Some (Inr (Some (i, used_len (next_used (gq_queue Q)))), ?Q q, h)"
      "gq_inv env V (?Q q) (fl1 @ fl2)" "SIZE q = slots Q" "indirect q = indirect (gq_queue Q)" "vq_used q = vq_used (gq_queue Q)"
      "last_used_idx q = last_used_idx (gq_queue Q) + 1"
      by (rule answered_token [OF inv [unfolded fl] pop refl, of "gw_hal w"])
    let ?Q1 = "(?Q q)\<lparr>callbacks := (callbacks Q)[i := NoCallback]\<rparr>"
    have i: "i < slots Q" "i \<notin> set (free_list V Q)" "i \<notin> snd ` set (fl1 @ fl2)" using gq_invD(8,9) [OF inv] fl by auto
    have "gq_inv env V ?Q1 (fl1 @ fl2)"
      using gq_inv_slot [OF P(2), where i = i and a = "inputs Q ! i" and b = "outputs Q ! i" and c = NoCallback] i by (simp add: free_list_def)
    then have "between env V ?Q1 (fl1 @ fl2) i"
      using i P(3) gq_invD(5) [OF inv] by (simp add: between_def free_list_def)
    moreover obtain w1 cb where "r = Inr (Some ())" "run_callback env i cb ?Q1 w1 = Some (Q', w')"
      using run by (auto simp: response_def P(1) bind_eq_Some_conv Let_def)
    ultimately show thesis
      using that(3) [of fl1 i fl2] run_callback_inv [of env V ?Q1 "fl1 @ fl2" i cb w1 Q' w'] law pop fl P(3-6)
      by (simp add: free_list_def queued_def)
  qed
qed

section \<open>Everything that can happen to the queue\<close>

lemma table_device:
  assumes "table q out" and "length D = SIZE q" "length (avail_ring_slots a) = SIZE q" "length (used_slots u) = SIZE q"
  shows "table (q\<lparr>vq_desc := D, vq_avail := a, vq_used := u\<rparr>) out"
proof -
  obtain fl fs where "vq_inv q fl fs" "out = map (\<lambda>f. (token_of f, bufs_of f)) fs"
    "\<forall>f \<in> set fs. length (ids f) = (if indirect q then 1 else 2)"
    using assms(1) by (auto simp: table_def)
  then show ?thesis
    using vq_inv_rings [of q fl fs a u D] assms(2-4) unfolding table_def
    by (intro exI [of _ fl] exI [of _ fs]) simp
qed

lemma gq_inv_queue:
  assumes inv: "gq_inv env V Q fl" and q: "table q (in_flight env Q fl)" "SIZE q = slots Q"
  shows "gq_inv env V (Q\<lparr>gq_queue := q\<rparr>) fl"
proof -
  have "in_flight env (Q\<lparr>gq_queue := q\<rparr>) fl = in_flight env Q fl" by (rule in_flight_cong) simp_all
  then show ?thesis using inv q unfolding gq_inv_def by (simp add: free_list_def queued_def)
qed

lemma fill_free_ok:
  assumes aq: "array_queue_law aq fc cap" and "length (fc f) + length ns \<le> cap f"
  shows "\<exists>f'. fill_free aq ns f = Some f' \<and> fc f' = fc f @ ns \<and> cap f' = cap f"
  using assms(2)
proof (induction ns arbitrary: f)
  case (Cons n ns)
  then have "length (fc f) < cap f" by simp
  from array_queue_push [OF aq this, of n] obtain f1 where "aq_push aq n f = (None, f1)" "fc f1 = fc f @ [n]" "cap f1 = cap f" .
  with Cons.IH [of f1] Cons.prems show ?case by simp
qed simp

lemma vq_inv_notify: "vq_inv q fl fs \<Longrightarrow> vq_inv (set_dev_notify b q) fl fs"
  by (simp add: set_dev_notify_def Let_def vq_inv_def shape_ok_def)

lemma fresh_table:
  assumes "n < 2 ^ 16" "is_power_of_two (of_nat n :: u16)"
  shows "table (set_dev_notify True (fresh_queue L n idx ind ev ap)) []" "SIZE (set_dev_notify True (fresh_queue L n idx ind ev ap)) = n"
    "indirect (set_dev_notify True (fresh_queue L n idx ind ev ap)) = ind"
proof -
  have "vq_inv (set_dev_notify True (fresh_queue L n idx ind ev ap)) (map of_nat [0..<n]) []"
    by (rule vq_inv_notify [OF fresh_inv [OF assms(2,1)]])
  then show "table (set_dev_notify True (fresh_queue L n idx ind ev ap)) []"
    unfolding table_def by (intro exI [of _ "map of_nat [0..<n]"] exI [of _ "[]"]) simp
  show "SIZE (set_dev_notify True (fresh_queue L n idx ind ev ap)) = n" "indirect (set_dev_notify True (fresh_queue L n idx ind ev ap)) = ind"
    by (simp_all add: set_dev_notify_def Let_def fresh_queue_def initial_shadow_def)
qed

lemma gq_new_ok:
  assumes law: "laws env V" "hal_dma_law (g_hal env)" "hal_dealloc_law (g_hal env)"
    and n: "n < 2 ^ 16" "is_power_of_two (of_nat n :: u16)" "2 \<le> n" "0 < fast_size"
    and arr: "array_ok ib (cap_in env) n" "array_ok ob (cap_out env) n"
  shows "\<exists>r t' h'. gq_new env n fast_size idx (Some ib) (Some ob) ap ind ev t h = Some (r, t', h')
    \<and> (case r of Inl e \<Rightarrow> e \<in> {ALREADY_COMMITTED, INVALID_PARAMETER, NO_MEMORY}
       | Inr Q \<Rightarrow> gq_inv env V Q [] \<and> free_list V Q = [0..<n] \<and> queued V Q = [] \<and> slots Q = n \<and> indirect (gq_queue Q) = ind)"
proof -
  obtain used t1 where u: "queue_used (g_transport env) idx t = (used, t1)" by (rule prod.exhaust)
  obtain m t2 where m: "max_queue_size (g_transport env) idx t1 = (m, t2)" by (rule prod.exhaust)
  obtain r t' h' where r: "new_queue (g_hal env) (g_transport env) n idx ind ev ap t h = Some (r, t', h')"
    "r \<in> {Inl AlreadyUsed, Inl InvalidParam, Inl DmaError} \<or> (\<exists>L. r = Inr (fresh_queue L n idx ind ev ap))"
    using new_queue_run [OF n(1,2) law(2,3) u m, of ind ev ap h] by (auto split: if_splits)
  have free: "array_queue_law (free_ops env) (free_content V) (free_cap V)" using law by (simp add: laws_def)
  have "free_content V (aq_new (free_ops env) n) = []" "free_cap V (aq_new (free_ops env) n) = n"
    using free n(3) by (simp_all add: array_queue_law_def)
  then obtain f where f: "fill_free (free_ops env) [0..<n] (aq_new (free_ops env) n) = Some f" "free_content V f = [0..<n]" "free_cap V f = n"
    using fill_free_ok [OF free, of "aq_new (free_ops env) n" "[0..<n]"] by auto
  have chan: "chan_inv (fast_content V) (fast_cap V) (slow_content V) (aseg_new (fast_ops env) (slow_ops env) fast_size)"
    "chan_content (fast_content V) (slow_content V) (aseg_new (fast_ops env) (slow_ops env) fast_size) = []"
    using aseg_new_ok law(1) n(4) unfolding laws_def by blast+
  show ?thesis
  proof (cases r)
    case (Inl e)
    then show ?thesis using r by (auto simp: gq_new_def)
  next
    case (Inr q)
    then obtain L where L: "q = fresh_queue L n idx ind ev ap" using r(2) by auto
    then show ?thesis
      using r(1) f chan arr n(3) Inr fresh_table [OF n(1,2), of L idx ind ev ap]
      by (simp add: gq_new_def gq_inv_def free_list_def queued_def atLeast0LessThan)
  qed
qed

inductive gq_step :: "('f, 'q, 's, 't, 'h, 'k) gq_env \<Rightarrow> ('f, 'q, 's) gpu_queue \<times> ('k, 't, 'h) handler_world
    \<Rightarrow> ('f, 'q, 's) gpu_queue \<times> ('k, 't, 'h) handler_world \<Rightarrow> bool" for env where
  gq_submit: "message_ok env m \<Longrightarrow> gq_step env (Q, w) (request_async_buf env (msg_input m) (msg_output m) (msg_callback m) Q, w)"
| gq_request: "request env Q w = Some (r, Q', w') \<Longrightarrow> gq_step env (Q, w) (Q', w')"
| gq_response: "response env Q w = Some (r, Q', w') \<Longrightarrow> gq_step env (Q, w) (Q', w')"
| gq_device: "length D = slots Q \<Longrightarrow> length (avail_ring_slots a) = slots Q \<Longrightarrow> length (used_slots u) = slots Q \<Longrightarrow>
    gq_step env (Q, w) (Q\<lparr>gq_queue := (gq_queue Q)\<lparr>vq_desc := D, vq_avail := a, vq_used := u\<rparr>\<rparr>, w)"
| gq_others: "gq_step env (Q, w) (Q, w')"

text \<open>No slot is lost: every slot is free or in flight.\<close>

definition complete_slots :: "('f, 'q, 's, 't, 'h, 'k) gq_env \<Rightarrow> ('f, 'q, 's) views \<Rightarrow> ('f, 'q, 's) gpu_queue \<Rightarrow> (u16 \<times> nat) list \<Rightarrow> bool" where
  "complete_slots env V Q fl \<longleftrightarrow> gq_inv env V Q fl \<and> indirect (gq_queue Q) \<and> length (free_list V Q) + length fl = slots Q"

lemma request_async_ok:
  assumes inv: "gq_inv env V Q fl" and law: "laws env V" and m: "message_ok env m"
  shows "gq_inv env V (request_async_buf env (msg_input m) (msg_output m) (msg_callback m) Q) fl"
    "queued V (request_async_buf env (msg_input m) (msg_output m) (msg_callback m) Q) = queued V Q @ [m]"
proof -
  have chan: "array_queue_law (fast_ops env) (fast_content V) (fast_cap V)" "seg_queue_law (slow_ops env) (slow_content V)"
    using law by (simp_all add: laws_def)
  let ?Q = "request_async_buf env (msg_input m) (msg_output m) (msg_callback m) Q"
  have m': "\<lparr>msg_input = msg_input m, msg_output = msg_output m, msg_callback = msg_callback m\<rparr> = m" by (cases m) simp
  show q: "queued V ?Q = queued V Q @ [m]"
    using aseg_push_ok [OF chan gq_invD(13) [OF inv], of m] by (simp add: request_async_buf_def queued_def m')
  have "in_flight env ?Q fl = in_flight env Q fl" by (rule in_flight_cong) (simp_all add: request_async_buf_def)
  moreover have "chan_inv (fast_content V) (fast_cap V) (slow_content V) (chan ?Q)"
    using aseg_push_ok [OF chan gq_invD(13) [OF inv], of m] by (simp add: request_async_buf_def m')
  ultimately show "gq_inv env V ?Q fl"
    using inv m q unfolding gq_inv_def by (simp add: request_async_buf_def free_list_def)
qed

lemma request_complete:
  assumes c: "complete_slots env V Q fl" and law: "laws env V"
  shows "\<exists>r Q' w' fl'. request env Q w = Some (Inr r, Q', w') \<and> complete_slots env V Q' fl'"
proof (cases "free_list V Q = [] \<or> queued V Q = []")
  case True
  note inv = c [unfolded complete_slots_def, THEN conjunct1]
  obtain Q' where R: "request env Q w = Some (Inr None, Q', w)" "gq_inv env V Q' fl"
    "mset (free_list V Q') = mset (free_list V Q)" "gq_queue Q' = gq_queue Q"
    by (rule request_idle [OF inv law True, of w])
  then have "length (free_list V Q') = length (free_list V Q)" by (intro mset_eq_length)
  then have "complete_slots env V Q' fl" using c R(2,4) by (simp add: complete_slots_def)
  then show ?thesis using R(1) by blast
next
  case False
  note inv = c [unfolded complete_slots_def, THEN conjunct1]
  from False obtain i is' m ms where f: "free_list V Q = i # is'" "queued V Q = m # ms" by (auto simp: neq_Nil_conv)
  have ind: "indirect (gq_queue Q)" using c by (simp add: complete_slots_def)
  obtain tok Q' w' where R: "request env Q w = Some (Inr (Some ()), Q', w')" "gq_inv env V Q' ((tok, i) # fl)"
    "free_list V Q' = is'" "indirect (gq_queue Q') = indirect (gq_queue Q)" "slots Q' = slots Q"
    by (rule request_sent [OF inv law f disjI1 [OF ind], of w])
  then have "complete_slots env V Q' ((tok, i) # fl)" using c f by (simp add: complete_slots_def)
  then show ?thesis using R(1) by blast
qed

lemma response_complete:
  assumes c: "complete_slots env V Q fl" and law: "laws env V" and run: "response env Q w = Some (r, Q', w')"
  shows "\<exists>fl'. complete_slots env V Q' fl'"
proof -
  have inv: "gq_inv env V Q fl" using c by (simp add: complete_slots_def)
  from response_cases [OF inv law run] show ?thesis
  proof cases
    case (3 fl1 i fl2)
    then have "complete_slots env V Q' (fl1 @ fl2)" using c by (simp add: complete_slots_def)
    then show ?thesis by blast
  qed (use c in auto)
qed

lemma gq_step_complete:
  assumes "gq_step env s s'" and "laws env V" and "complete_slots env V (fst s) fl"
  shows "\<exists>fl'. complete_slots env V (fst s') fl'"
  using assms
proof (cases rule: gq_step.cases)
  case (gq_submit m Q w)
  then have "complete_slots env V (fst s') fl"
    using assms request_async_ok(1) [of env V Q fl m] by (simp add: complete_slots_def request_async_buf_def free_list_def)
  then show ?thesis by blast
next
  case (gq_request Q w r Q' w')
  then show ?thesis using request_complete [OF _ assms(2), of Q fl w] assms(3) by auto
next
  case (gq_response Q w r Q' w')
  then show ?thesis using response_complete [OF _ assms(2)] assms(3) by auto
next
  case (gq_device D Q a u w)
  then have "complete_slots env V (fst s') fl"
    using assms(3) gq_inv_queue [of env V Q fl] table_device [of "gq_queue Q" "in_flight env Q fl" D a u] gq_invD(1) [of env V Q fl]
    by (simp add: complete_slots_def free_list_def)
  then show ?thesis by blast
next
  case (gq_others Q w w')
  then show ?thesis using assms(3) by auto
qed


text \<open>
  C24. One wrong answer stops the driver: while the next used entry carries a token that is not in flight,
  \<open>handle_responses\<close> does not return, since it tries the same entry again after the error.
\<close>

theorem handle_responses_stuck:
  assumes inv: "gq_inv env V Q fl" and pop: "can_pop (gq_queue Q)" "next_token Q \<notin> fst ` set fl"
  shows "handle_responses env Q w = None"
proof -
  have run: "response env Q w = (if unat (next_token Q) < slots Q then Some (Inl INVALID_DEVICE_STATE, Q, w) else None)"
    using foreign_token [OF inv pop, of "gw_hal w"] by (simp add: response_def)
  have "env' = env \<Longrightarrow> Q' = Q \<Longrightarrow> w' = w \<Longrightarrow> False" if "handle_responses env' Q' w' = Some y" for env' Q' w' y
    using that
  proof (induction rule: handle_responses.raw_induct [rotated 1, consumes 1, case_names step])
    case (step hr e Qa wa ya)
    then show ?case using run by (auto split: if_splits)
  qed
  then show ?thesis by (cases "handle_responses env Q w") auto
qed

section \<open>A concrete queue\<close>

definition demo_env :: "(nat list \<times> nat, message list \<times> nat, message list, register_write list, u64, nat) gq_env" where
  "demo_env = \<lparr>g_hal = bump_hal, g_transport = recording 0 (\<lambda>_. 256) False, g_counter = (\<lambda>k. ((0, 1), k)),
     free_ops = list_array_queue, fast_ops = list_array_queue, slow_ops = list_seg_queue, cap_in = 120, cap_out = 56\<rparr>"

definition demo_views :: "(nat list \<times> nat, message list \<times> nat, message list) views" where
  "demo_views = \<lparr>free_content = fst, free_cap = snd, fast_content = fst, fast_cap = snd, slow_content = (\<lambda>xs. xs)\<rparr>"

definition demo_queue :: "bool \<Rightarrow> message list \<Rightarrow> (nat list \<times> nat, message list \<times> nat, message list) gpu_queue" where
  "demo_queue ind ms = \<lparr>gq_queue = set_dev_notify True (fresh_queue sample_layout 4 0 ind True False), in_base = 0x10000, out_base = 0x20000,
     inputs = replicate 4 None, outputs = replicate 4 None, callbacks = replicate 4 NoCallback, indices = replicate 4 None,
     free_slots = ([0, 1, 2, 3], 4), chan = \<lparr>fast = (ms, 8), slow = []\<rparr>, chan_event = False\<rparr>"

definition demo_message :: message where
  "demo_message = \<lparr>msg_input = Inline (ctrl_bytes (with_type GET_DISPLAY_INFO)), msg_output = Inline (replicate 24 0), msg_callback = NoCallback\<rparr>"

lemma demo_laws: "laws demo_env demo_views"
  by (simp add: laws_def demo_env_def demo_views_def list_queue_laws bump_hal_laws)

lemma demo_inv:
  assumes "length ms \<le> 8" and "list_all (message_ok demo_env) ms"
  shows "gq_inv demo_env demo_views (demo_queue ind ms) []" "free_list demo_views (demo_queue ind ms) = [0..<slots (demo_queue ind ms)]"
    "queued demo_views (demo_queue ind ms) = ms" "indirect (gq_queue (demo_queue ind ms)) = ind" "slots (demo_queue ind ms) = 4"
proof -
  have two: "is_power_of_two (of_nat 4 :: u16)" by (simp add: is_power_of_two_def)
  note fresh = fresh_table [of 4 sample_layout 0 ind True False, OF _ two]
  have list: "[0..<4] = [0, 1, 2, 3 :: nat]" by (simp add: upt_rec)
  show "gq_inv demo_env demo_views (demo_queue ind ms) []" "free_list demo_views (demo_queue ind ms) = [0..<slots (demo_queue ind ms)]"
    "queued demo_views (demo_queue ind ms) = ms" "indirect (gq_queue (demo_queue ind ms)) = ind" "slots (demo_queue ind ms) = 4"
    using fresh assms
    by (simp_all add: gq_inv_def demo_queue_def free_list_def queued_def chan_inv_def chan_content_def demo_views_def array_ok_def
        demo_env_def message_ok_def list)
qed

lemma demo_message_ok: "message_ok demo_env demo_message"
  by (simp add: message_ok_def demo_message_def demo_env_def ctrl_bytes_def)

theorem handle_requests_sends_witness:
  "gq_inv demo_env demo_views (demo_queue True [demo_message]) [] \<and> laws demo_env demo_views
   \<and> (\<forall>w. \<exists>Q' w' new. handle_requests demo_env (demo_queue True [demo_message]) w = Some (Q', w') \<and> gq_inv demo_env demo_views Q' new
        \<and> map (\<lambda>(tok, i). slot_message Q' i) (rev new) = [demo_message] \<and> queued demo_views Q' = [])"
proof -
  have ok: "list_all (message_ok demo_env) [demo_message]" "length [demo_message] \<le> 8" using demo_message_ok by simp_all
  note inv = demo_inv [OF ok(2,1), of True]
  have "\<exists>Q' w' new. handle_requests demo_env (demo_queue True [demo_message]) w = Some (Q', w') \<and> gq_inv demo_env demo_views Q' new
        \<and> map (\<lambda>(tok, i). slot_message Q' i) (rev new) = [demo_message] \<and> queued demo_views Q' = []" for w
  proof -
    have "indirect (gq_queue (demo_queue True [demo_message]))" using inv(4) by simp
    from handle_requests_sends [OF inv(1) demo_laws this, of w] obtain Q' w' new where
      "handle_requests demo_env (demo_queue True [demo_message]) w = Some (Q', w')" "gq_inv demo_env demo_views Q' (new @ [])"
      "map (\<lambda>(tok, i). slot_message Q' i) (rev new) = take 4 [demo_message]" "queued demo_views Q' = drop 4 [demo_message]"
      unfolding inv(2,3,5) length_upt by auto
    then show ?thesis by (intro exI [of _ Q'] exI [of _ w'] exI [of _ new]) simp
  qed
  then show ?thesis using inv(1) demo_laws by blast
qed

theorem handle_requests_loses_witness:
  "\<forall>w :: (nat, register_write list, u64) handler_world.
     \<exists>Q fl Q' w'. gq_inv demo_env demo_views Q fl \<and> length fl = 2 \<and> queued demo_views Q = [demo_message]
       \<and> handle_requests demo_env Q w = Some (Q', w') \<and> gq_inv demo_env demo_views Q' fl \<and> queued demo_views Q' = []
       \<and> gq_queue Q' = gq_queue Q"
proof
  fix w :: "(nat, register_write list, u64) handler_world"
  let ?ms = "[demo_message, demo_message, demo_message]"
  have ok: "list_all (message_ok demo_env) ?ms" "length ?ms \<le> 8" using demo_message_ok by simp_all
  note inv = demo_inv [OF ok(2,1), of False]
  have f: "free_list demo_views (demo_queue False ?ms) = 0 # [1, 2, 3]" using inv(2,5) by (simp add: upt_rec)
  have room: "indirect (gq_queue (demo_queue False ?ms)) \<or> 2 * length ([] :: (u16 \<times> nat) list) + 2 \<le> slots (demo_queue False ?ms)"
    using inv(5) by simp
  obtain t1 Q1 where R1: "gq_inv demo_env demo_views Q1 [(t1, 0)]" "free_list demo_views Q1 = [1, 2, 3]"
    "queued demo_views Q1 = [demo_message, demo_message]" "indirect (gq_queue Q1) = False" "slots Q1 = 4"
    using request_sent [OF inv(1) demo_laws f inv(3) room, of w] inv(4,5) by metis
  have room: "indirect (gq_queue Q1) \<or> 2 * length [(t1, 0 :: nat)] + 2 \<le> slots Q1" using R1(5) by simp
  obtain t2 Q2 where R2: "gq_inv demo_env demo_views Q2 [(t2, 1), (t1, 0)]" "free_list demo_views Q2 = [2, 3]"
    "queued demo_views Q2 = [demo_message]" "indirect (gq_queue Q2) = False" "slots Q2 = 4"
    using request_sent [OF R1(1) demo_laws R1(2,3) room, of w] R1(4,5) by metis
  have "\<not> indirect (gq_queue Q2)" "slots Q2 < 2 * length [(t2, 1 :: nat), (t1, 0)] + 2"
    "length (queued demo_views Q2) \<le> length (free_list demo_views Q2)" using R2 by simp_all
  from handle_requests_loses [OF R2(1) demo_laws this, of w] obtain Q' w' where
    "handle_requests demo_env Q2 w = Some (Q', w')" "gq_inv demo_env demo_views Q' [(t2, 1), (t1, 0)]" "queued demo_views Q' = []"
    "gq_queue Q' = gq_queue Q2" by blast
  then show "\<exists>Q fl Q' w'. gq_inv demo_env demo_views Q fl \<and> length fl = 2 \<and> queued demo_views Q = [demo_message]
       \<and> handle_requests demo_env Q w = Some (Q', w') \<and> gq_inv demo_env demo_views Q' fl \<and> queued demo_views Q' = []
       \<and> gq_queue Q' = gq_queue Q"
    using R2 by (intro exI [of _ Q2] exI [of _ "[(t2, 1), (t1, 0)]"] exI [of _ Q'] exI [of _ w']) simp
qed

text \<open>The device answers a request that was never made.\<close>

definition forged :: "(nat list \<times> nat, message list \<times> nat, message list) gpu_queue" where
  "forged = (let Q = demo_queue True [] in Q\<lparr>gq_queue := (gq_queue Q)\<lparr>vq_desc := vq_desc (gq_queue Q), vq_avail := vq_avail (gq_queue Q),
     vq_used := (vq_used (gq_queue Q))\<lparr>used_idx := 1\<rparr>\<rparr>\<rparr>)"

lemma forged_reached: "gq_step demo_env (demo_queue True [], w) (forged, w)"
  unfolding forged_def Let_def
  by (rule gq_device) (simp_all add: demo_queue_def set_dev_notify_def fresh_queue_def initial_shadow_def initial_desc_def)

lemma forged_pop: "can_pop (gq_queue forged)" "next_token forged = 0" "slots forged = 4"
  by (simp_all add: forged_def Let_def demo_queue_def can_pop_def set_dev_notify_def fresh_queue_def next_token_def next_used_def
      initial_shadow_def)


theorem handle_responses_stuck_witness:
  "gq_inv demo_env demo_views forged [] \<and> can_pop (gq_queue forged) \<and> (\<forall>w. handle_responses demo_env forged w = None)"
proof -
  note inv = demo_inv [of "[]" True, simplified]
  have "gq_inv demo_env demo_views forged []"
    unfolding forged_def Let_def
    by (rule gq_inv_queue [OF inv(1)], rule table_device [OF gq_invD(1) [OF inv(1)]])
       (simp_all add: demo_queue_def set_dev_notify_def fresh_queue_def initial_shadow_def initial_desc_def)
  then show ?thesis using handle_responses_stuck [of demo_env demo_views forged "[]"] forged_pop by simp
qed

end
