(* ===== verification/Gpu_Channel_Spec.thy ===== *)
theory Gpu_Channel_Spec
  imports Gpu_Device Gpu_Queue_Spec Offset_Allocator_Spec
begin

text \<open>
  What the commands of the display driver promise: the ranges of the shared memory that blobs are mapped to, and what
  happens to ids and ranges when the device refuses a command.
\<close>

section \<open>Answered requests\<close>

text \<open>A wait that ends with an answer: the handler has put the bytes into the buffer the caller waits for.\<close>

definition answers :: "('f, 'q, 's, 't, 'h, 'k) waiting \<Rightarrow> u8 list \<Rightarrow> bool" where
  "answers wait bs \<longleftrightarrow> (\<forall>b Q w. blockings (gw_objects w) b \<noteq> None \<longrightarrow>
     (\<exists>Q' w' x. wait b Q w = (Inr (), Q', w') \<and> blockings (gw_objects w') b = Some x \<and> bb_data x = Some (Inline bs)
        \<and> gw_data w' = gw_data w))"

lemma request_blocking_answered:
  assumes "answers wait bs" and "length req \<le> cap_in env" and "n \<le> cap_out env" and "n \<le> length bs"
  shows "\<exists>Q' w'. request_blocking env wait req n Q w = Some (Inr (take n bs), Q', w') \<and> gw_data w' = gw_data w"
proof -
  define b where "b = next_object (gw_objects w)"
  define w1 where "w1 = w\<lparr>gw_objects := snd (blocking_new (gw_objects w))\<rparr>"
  define Q1 where "Q1 = request_async_buf env (Inline req) (Inline (replicate n 0)) (SetEvent b) Q"
  have "blockings (gw_objects w1) b \<noteq> None" by (simp add: w1_def b_def blocking_new_def)
  then obtain Q' w' x where W: "wait b Q1 w1 = (Inr (), Q', w')" "blockings (gw_objects w') b = Some x" "bb_data x = Some (Inline bs)"
    "gw_data w' = gw_data w1" using assms(1) unfolding answers_def by blast
  have "request_blocking env wait req n Q w = Some (Inr (take n bs), Q', w'\<lparr>gw_objects := snd (blocking_read b (gw_objects w'))\<rparr>)"
    using W assms(2-4)
    by (simp add: request_blocking_def try_new_zeroed_def try_from_bytes_def request_blocking_into_buf_def try_from_value_def
        request_blocking_buf_def blocking_new_def b_def w1_def Q1_def blocking_read_def Let_def)
  then show ?thesis using W(4) by (simp add: w1_def)
qed

lemma request_header_answered:
  assumes "answers wait bs" and "length req \<le> cap_in env" and "24 \<le> cap_out env" and "ctrl_from_prefix bs = Some h"
  shows "\<exists>Q' w'. request_header env wait req Q w = Some (Inr h, Q', w') \<and> gw_data w' = gw_data w"
proof -
  have l: "24 \<le> length bs" using assms(4) by (simp add: ctrl_from_prefix_def CTRL_SIZE_def split: if_splits)
  have "ctrl_from_prefix (take 24 bs) = Some h"
    using assms(4) l by (simp add: ctrl_from_prefix_def CTRL_SIZE_def le_field_def drop_take min_def)
  then show ?thesis
    using request_blocking_answered [OF assms(1,2), of 24 Q w] assms(3) l by (auto simp: request_header_def CTRL_SIZE_def)
qed

lemma new_header_data [simp]:
  "resource_id (gw_data (snd (new_header c fenced ctx ring w))) = resource_id (gw_data w)"
  "context_id (gw_data (snd (new_header c fenced ctx ring w))) = context_id (gw_data w)"
  "offset_allocator (gw_data (snd (new_header c fenced ctx ring w))) = offset_allocator (gw_data w)"
  by (simp_all add: new_header_def Let_def split: prod.splits)

lemma new_header_alloc: "new_header c fenced ctx ring w = (h, w2) \<Longrightarrow> offset_allocator (gw_data w2) = offset_allocator (gw_data w)"
  by (metis new_header_data(3) snd_conv)

text \<open>An answer that is only looked at: the world is the one the request left.\<close>

lemma then_ok_keeps:
  assumes "then_ok R f = Some (r, Q', w')" and "\<forall>x Q w r2 Q2 w2. f x (Q, w) = Some (r2, Q2, w2) \<longrightarrow> w2 = w"
  shows "\<exists>r1 Q1. R = Some (r1, Q1, w') \<and> (case r1 of Inl e \<Rightarrow> r = Inl e | Inr x \<Rightarrow> f x (Q1, w') = Some (r, Q', w'))"
proof -
  obtain r1 Q1 w1 where R: "R = Some (r1, Q1, w1)" using assms(1) by (cases R) (auto simp: then_ok_def)
  show ?thesis
  proof (cases r1)
    case (Inl e)
    then show ?thesis using assms(1) R by simp
  next
    case (Inr x)
    then have f: "f x (Q1, w1) = Some (r, Q', w')" using assms(1) R by simp
    then have "w' = w1" using assms(2) by blast
    then show ?thesis using f R Inr by simp
  qed
qed

lemma request_header_keeps:
  assumes "request_header env wait req Q w = Some (r, Q', w')"
  shows "\<exists>r1 Q1. request_blocking env wait req CTRL_SIZE Q w = Some (r1, Q1, w')"
  using then_ok_keeps [OF assms [unfolded request_header_def]] by (auto simp: bind_eq_Some_conv)

section \<open>Identifiers\<close>

text \<open>
  When the device refuses to copy to a resource, the driver gives the id of the resource back, although the
  resource still exists: the next resource it creates gets the same id.
\<close>

theorem refused_transfer_frees_id:
  assumes "answers wait bs" and "ctrl_from_prefix bs = Some h" and "hdr_type h \<noteq> OK_NODATA"
    and "56 \<le> cap_in env" and "24 \<le> cap_out env" and "rid \<noteq> 0" and "free_ids (resource_id (gw_data w)) = []"
  shows "\<exists>Q' w'. resource_transfer_to_host_2d env wait r offset rid Q w = Some (Inl IO_DEVICE_ERROR, Q', w')
    \<and> fst (next_resource_id w') = Some rid"
proof -
  obtain hd w1 where H: "new_header TRANSFER_TO_HOST_2D True None None w = (hd, w1)" by (rule prod.exhaust)
  then have ids: "resource_id (gw_data w1) = resource_id (gw_data w)" by (metis new_header_data(1) snd_conv)
  have "length (gpu_2d_bytes (TransferToHost2D hd r offset rid)) \<le> cap_in env" using assms(4) by simp
  from request_header_answered [OF assms(1) this assms(5,2), of Q w1] obtain Q' w' where
    R: "request_header env wait (gpu_2d_bytes (TransferToHost2D hd r offset rid)) Q w1 = Some (Inr h, Q', w')" "gw_data w' = gw_data w1"
    by blast
  have "check_nt h OK_NODATA = Inl IO_DEVICE_ERROR" using assms(3) by (simp add: check_nt_def check_type_def)
  then have "resource_transfer_to_host_2d env wait r offset rid Q w = Some (Inl IO_DEVICE_ERROR, Q', free_resource_id rid w')"
    by (simp add: resource_transfer_to_host_2d_def H R(1) del: gpu_2d_bytes.simps)
  moreover have "fst (next_resource_id (free_resource_id rid w')) = Some rid"
    using assms(6,7) R(2) ids by (simp add: next_resource_id_def free_resource_id_def id_free_def id_next_def non_zero_def)
  ultimately show ?thesis by blast
qed

section \<open>Blobs in the shared memory\<close>

text \<open>
  The mapped blobs as (handle, first byte, number of bytes). During a wait other threads may map further blobs: \<open>grows\<close>
  says that whatever is reserved before the wait is reserved after it.
\<close>

abbreviation "page_alloc w \<equiv> offset_allocator (gw_data w)"

definition byte_regions :: "u32 live \<Rightarrow> u32 live" where
  "byte_regions V = (\<lambda>(i, p, z). (i, 4096 * p, 4096 * z)) ` V"

definition reserved :: "u32 \<Rightarrow> u32 live \<Rightarrow> ('k, 't, 'h) handler_world \<Rightarrow> bool" where
  "reserved tot M w \<longleftrightarrow> total_size (page_alloc w) = tot \<and> (\<exists>V. holds (page_alloc w) V \<and> M \<subseteq> byte_regions V)"

definition grows :: "('f, 'q, 's, 't, 'h, 'k) waiting \<Rightarrow> bool" where
  "grows wait \<longleftrightarrow> (\<forall>b Q w tot M. reserved tot M w \<longrightarrow> reserved tot M (snd (snd (wait b Q w))))"

definition blob_bytes :: "u64 \<Rightarrow> nat" where
  "blob_bytes sz = 4096 * unat (ucast (sz div PAGE_SIZE) :: u32)"

inductive blob_step :: "('f, 'q, 's, 't, 'h, 'k) gq_env \<Rightarrow> ('k, 't, 'h) handler_world \<times> u32 live \<Rightarrow> ('k, 't, 'h) handler_world \<times> u32 live \<Rightarrow> bool"
  for env where
  blob_mapped: "grows wait \<Longrightarrow> resource_map_blob env wait ctx rid sz Q w = Some (Inr (al, off, info), Q', w')
    \<Longrightarrow> blob_step env (w, M) (w', insert (alloc_metadata al, unat off, blob_bytes sz) M)"
| blob_refused: "grows wait \<Longrightarrow> resource_map_blob env wait ctx rid sz Q w = Some (Inl e, Q', w') \<Longrightarrow> blob_step env (w, M) (w', M)"
| blob_unmapped: "grows wait \<Longrightarrow> (alloc_metadata al, p, z) \<in> M \<Longrightarrow> resource_unmap_blob env wait rid al Q w = Some (r, Q', w')
    \<Longrightarrow> blob_step env (w, M) (w', M - {(alloc_metadata al, p, z)})"

lemma reserved_cong: "page_alloc w' = page_alloc w \<Longrightarrow> reserved tot M w' \<longleftrightarrow> reserved tot M w"
  by (simp add: reserved_def)

lemma reserved_objects [simp]: "reserved tot M (w\<lparr>gw_objects := ob\<rparr>) \<longleftrightarrow> reserved tot M w" "reserved tot M (w\<lparr>gw_hal := h\<rparr>) \<longleftrightarrow> reserved tot M w"
  by (simp_all add: reserved_def)

lemma request_blocking_reserved:
  assumes "grows wait" and "reserved tot M w" and "request_blocking env wait req n Q w = Some (r, Q', w')"
  shows "reserved tot M w'"
proof -
  have keep: "reserved tot M (snd (snd (request_blocking_buf env wait inp out Q w)))" if "reserved tot M w" for inp out Q w
  proof -
    obtain b ob where B: "blocking_new (gw_objects w) = (b, ob)" by (rule prod.exhaust)
    let ?Q = "request_async_buf env inp out (SetEvent b) Q" and ?w = "w\<lparr>gw_objects := ob\<rparr>"
    obtain x Q1 w1 where W: "wait b ?Q ?w = (x, Q1, w1)" by (metis prod.exhaust)
    have "reserved tot M ?w" using that by simp
    with assms(1) have "reserved tot M (snd (snd (wait b ?Q ?w)))" unfolding grows_def by blast
    then show ?thesis
      using B W by (auto simp: request_blocking_buf_def blocking_read_def Let_def split: sum.split)
  qed
  show ?thesis
    using assms(2,3) keep
    by (auto simp: request_blocking_def request_blocking_into_buf_def bind_eq_Some_conv Let_def split: prod.splits sum.splits)
      (metis snd_conv reserved_objects(2))+
qed

lemma ucast_page: "unat (ucast (p :: u32) * PAGE_SIZE) = 4096 * unat p"
proof -
  have "unat (ucast p :: u64) = unat p" by (rule unat_ucast_up) simp
  moreover have "unat p * 4096 < 2 ^ 64" using unat_u32_lt [of p] by simp
  ultimately show ?thesis by (simp add: unat_word_ariths(2) PAGE_SIZE_def)
qed

text \<open>The two parts of \<open>resource_map_blob\<close>: the allocation and the request.\<close>

definition map_answer :: "allocation \<Rightarrow> u8 list \<Rightarrow> 'q \<times> 'w \<Rightarrow> ((allocation \<times> u64 \<times> u32) nt_result \<times> 'q \<times> 'w) option" where
  "map_answer al = (\<lambda>bs (Q, w). do {
     resp \<leftarrow> map_info_from bs;
     Some (case check_nt (rm_header resp) OK_MAP_INFO of
         Inl e \<Rightarrow> Inl e
       | Inr _ \<Rightarrow> Inr (al, ucast (alloc_offset al) * PAGE_SIZE, rm_map_info resp), Q, w)
   })"

lemma map_answer_cases:
  assumes "map_answer al bs (Q, w) = Some (r, Q', w')"
  shows "w' = w" "(\<exists>e. r = Inl e) \<or> (\<exists>info. r = Inr (al, ucast (alloc_offset al) * PAGE_SIZE, info))"
proof -
  obtain resp where "map_info_from bs = Some resp" using assms by (cases "map_info_from bs") (auto simp: map_answer_def)
  then show "w' = w" "(\<exists>e. r = Inl e) \<or> (\<exists>info. r = Inr (al, ucast (alloc_offset al) * PAGE_SIZE, info))"
    using assms by (cases "check_nt (rm_header resp) OK_MAP_INFO"; auto simp: map_answer_def)+
qed

lemma map_blob_run:
  assumes "holds (page_alloc w) V"
  obtains a where "resource_map_blob env wait ctx rid sz Q w = Some (Inl NO_MEMORY, Q, w\<lparr>gw_data := (gw_data w)\<lparr>offset_allocator := a\<rparr>\<rparr>)"
      "a = page_alloc w" "allocate (ucast (sz div PAGE_SIZE)) (page_alloc w) = Some (None, a)"
  | al a w2 req where "resource_map_blob env wait ctx rid sz Q w = then_ok (request_blocking env wait req MAP_INFO_SIZE Q w2) (map_answer al)"
      "allocate (ucast (sz div PAGE_SIZE)) (page_alloc w) = Some (Some al, a)" "page_alloc w2 = a" "length req = 40"
      "same_frame (page_alloc w) a"
      "holds a (insert (alloc_metadata al, unat (alloc_offset al), unat (ucast (sz div PAGE_SIZE) :: u32)) V)"
proof -
  define n where "n = (ucast (sz div PAGE_SIZE) :: u32)"
  obtain x a where A: "allocate n (page_alloc w) = Some (x, a)" "same_frame (page_alloc w) a"
    "case x of None \<Rightarrow> a = page_alloc w | Some al \<Rightarrow> holds a (insert (alloc_metadata al, unat (alloc_offset al), unat n) V)"
    using allocate_holds [OF assms, of n] by (auto split: option.splits)
  define w1 where "w1 = w\<lparr>gw_data := (gw_data w)\<lparr>offset_allocator := a\<rparr>\<rparr>"
  obtain hdr w2 where H: "new_header RESOURCE_MAP_BLOB True (Some ctx) None w1 = (hdr, w2)" by (rule prod.exhaust)
  have w2: "page_alloc w2 = a" using new_header_alloc [OF H] by (simp add: w1_def)
  show thesis
  proof (cases x)
    case None
    then have "resource_map_blob env wait ctx rid sz Q w = Some (Inl NO_MEMORY, Q, w1)"
      using A(1) by (simp add: resource_map_blob_def n_def [symmetric] w1_def)
    then show thesis using that(1) A(1,3) None by (simp add: w1_def n_def)
  next
    case (Some al)
    let ?req = "gpu_blob_bytes (CmdResourceMapBlob hdr rid (ucast (alloc_offset al) * PAGE_SIZE))"
    have "resource_map_blob env wait ctx rid sz Q w = then_ok (request_blocking env wait ?req MAP_INFO_SIZE Q w2) (map_answer al)"
      using A(1) Some H by (simp add: resource_map_blob_def n_def [symmetric] w1_def [symmetric] map_answer_def Let_def del: gpu_blob_bytes.simps)
    moreover have "length ?req = 40" by simp
    ultimately show thesis using that(2) A Some w2 by (simp add: n_def del: gpu_blob_bytes.simps)
  qed
qed

lemma map_blob_reserved:
  assumes g: "grows wait" and M: "reserved tot M w" and run: "resource_map_blob env wait ctx rid sz Q w = Some (r, Q', w')"
  shows "reserved tot (case r of Inl e \<Rightarrow> M | Inr (al, off, info) \<Rightarrow> insert (alloc_metadata al, unat off, blob_bytes sz) M) w'"
proof -
  obtain V where V: "total_size (page_alloc w) = tot" "holds (page_alloc w) V" "M \<subseteq> byte_regions V" using M by (auto simp: reserved_def)
  show ?thesis
  proof (rule map_blob_run [OF V(2), of env wait ctx rid sz Q])
    fix a
    assume "resource_map_blob env wait ctx rid sz Q w = Some (Inl NO_MEMORY, Q, w\<lparr>gw_data := (gw_data w)\<lparr>offset_allocator := a\<rparr>\<rparr>)" "a = page_alloc w"
    with run have "r = Inl NO_MEMORY" "w' = w" by auto
    with M show ?thesis by simp
  next
    fix al a w2 req
    assume R: "resource_map_blob env wait ctx rid sz Q w = then_ok (request_blocking env wait req MAP_INFO_SIZE Q w2) (map_answer al)"
      "page_alloc w2 = a" "same_frame (page_alloc w) a"
      "holds a (insert (alloc_metadata al, unat (alloc_offset al), unat (ucast (sz div PAGE_SIZE) :: u32)) V)"
    let ?new = "(alloc_metadata al, unat (ucast (alloc_offset al) * PAGE_SIZE), blob_bytes sz)"
    have "byte_regions (insert (alloc_metadata al, unat (alloc_offset al), unat (ucast (sz div PAGE_SIZE) :: u32)) V) = insert ?new (byte_regions V)"
      unfolding ucast_page by (simp add: byte_regions_def blob_bytes_def)
    then have "insert ?new M \<subseteq> byte_regions (insert (alloc_metadata al, unat (alloc_offset al), unat (ucast (sz div PAGE_SIZE) :: u32)) V)"
      using V(3) by auto
    moreover have "total_size (page_alloc w2) = tot" using R(2,3) V(1) by (simp add: same_frame_def)
    ultimately have res: "reserved tot (insert ?new M) w2" unfolding reserved_def using R(2,4) by metis
    have "\<forall>x Q w r2 Q2 w2. map_answer al x (Q, w) = Some (r2, Q2, w2) \<longrightarrow> w2 = w" by (intro allI impI, erule map_answer_cases(1))
    from then_ok_keeps [OF run [unfolded R(1)] this] obtain r1 Q1 where W: "request_blocking env wait req MAP_INFO_SIZE Q w2 = Some (r1, Q1, w')"
      "case r1 of Inl e \<Rightarrow> r = Inl e | Inr bs \<Rightarrow> map_answer al bs (Q1, w') = Some (r, Q', w')"
      by (elim exE conjE) (rule that)
    have "reserved tot (insert ?new M) w'" by (rule request_blocking_reserved [OF g res W(1)])
    moreover have "(\<exists>e. r = Inl e) \<or> (\<exists>info. r = Inr (al, ucast (alloc_offset al) * PAGE_SIZE, info))"
    proof (cases r1)
      case (Inr bs)
      then have "map_answer al bs (Q1, w') = Some (r, Q', w')" using W(2) by simp
      then show ?thesis by (rule map_answer_cases(2))
    qed (use W(2) in simp)
    ultimately show ?thesis by (auto simp: reserved_def)
  qed
qed

lemma unmap_blob_reserved:
  assumes g: "grows wait" and M: "reserved tot M w" and al: "(alloc_metadata al, p, z) \<in> M"
    and run: "resource_unmap_blob env wait rid al Q w = Some (r, Q', w')"
  shows "reserved tot (M - {(alloc_metadata al, p, z)}) w'"
proof -
  obtain V where V: "total_size (page_alloc w) = tot" "holds (page_alloc w) V" "M \<subseteq> byte_regions V" using M by (auto simp: reserved_def)
  then obtain p' z' where v: "(alloc_metadata al, p', z') \<in> V" "p = 4096 * p'" "z = 4096 * z'" using al by (auto simp: byte_regions_def)
  obtain a where A: "free al (page_alloc w) = Some a" "same_frame (page_alloc w) a" "holds a (V - {(alloc_metadata al, p', z')})"
    using free_holds [OF V(2) v(1)] by (auto simp: free_metadata)
  have "M - {(alloc_metadata al, p, z)} \<subseteq> byte_regions (V - {(alloc_metadata al, p', z')})"
  proof -
    have "byte_regions V - byte_regions {(alloc_metadata al, p', z')} \<subseteq> byte_regions (V - {(alloc_metadata al, p', z')})"
      unfolding byte_regions_def by (rule image_diff_subset)
    moreover have "byte_regions {(alloc_metadata al, p', z')} = {(alloc_metadata al, p, z)}" using v by (simp add: byte_regions_def)
    ultimately show ?thesis using V(3) by blast
  qed
  define w1 where "w1 = w\<lparr>gw_data := (gw_data w)\<lparr>offset_allocator := a\<rparr>\<rparr>"
  obtain hdr w2 where H: "new_header RESOURCE_UNMAP_BLOB True None None w1 = (hdr, w2)" by (rule prod.exhaust)
  have w2: "page_alloc w2 = a" using new_header_alloc [OF H] by (simp add: w1_def)
  have res: "reserved tot (M - {(alloc_metadata al, p, z)}) w2"
    using A(2,3) V(1) \<open>M - _ \<subseteq> _\<close> unfolding reserved_def w2 by (auto simp: same_frame_def)
  have "resource_unmap_blob env wait rid al Q w =
      then_ok (request_header env wait (gpu_blob_bytes (CmdResourceUnmapBlob hdr rid)) Q w2) (\<lambda>h (Q, w). Some (Inr (), Q, w))"
    by (simp add: resource_unmap_blob_def A(1) w1_def [symmetric] H del: gpu_blob_bytes.simps)
  from then_ok_keeps [OF run [unfolded this]] obtain r2 Q2 where
    "request_header env wait (gpu_blob_bytes (CmdResourceUnmapBlob hdr rid)) Q w2 = Some (r2, Q2, w')"
    by (auto simp del: gpu_blob_bytes.simps)
  from request_header_keeps [OF this] obtain rb Q3 where
    "request_blocking env wait (gpu_blob_bytes (CmdResourceUnmapBlob hdr rid)) CTRL_SIZE Q w2 = Some (rb, Q3, w')" by blast
  from request_blocking_reserved [OF g res this] show ?thesis .
qed

lemma map_blob_answered:
  assumes "holds (page_alloc w) V" and "allocate (ucast (sz div PAGE_SIZE)) (page_alloc w) = Some (Some al, a)"
    and "answers wait bs" and "40 \<le> cap_in env" and "32 \<le> cap_out env" and "length bs = 32"
  shows "\<exists>Q' w'. resource_map_blob env wait ctx rid sz Q w = map_answer al bs (Q', w') \<and> page_alloc w' = a"
proof (rule map_blob_run [OF assms(1), of env wait ctx rid sz Q])
  fix al' a' w2 req
  assume R: "resource_map_blob env wait ctx rid sz Q w = then_ok (request_blocking env wait req MAP_INFO_SIZE Q w2) (map_answer al')"
    "allocate (ucast (sz div PAGE_SIZE)) (page_alloc w) = Some (Some al', a')" "page_alloc w2 = a'" "length req = 40"
  from request_blocking_answered [OF assms(3), of req env MAP_INFO_SIZE Q w2] obtain Q' w' where
    "request_blocking env wait req MAP_INFO_SIZE Q w2 = Some (Inr (take MAP_INFO_SIZE bs), Q', w')" "gw_data w' = gw_data w2"
    using assms(4-6) R(4) by (auto simp: MAP_INFO_SIZE_def)
  then show ?thesis using R assms(2,6) by (intro exI [of _ Q'] exI [of _ w']) (simp add: MAP_INFO_SIZE_def)
qed (use assms(2) in simp)

text \<open>A fresh allocator can give a region whose size rounds up to no more than its own size rounds down to.\<close>

lemma fresh_allocates:
  assumes "2 < n" and "n < 0xFFFFFFFE" and "with_max_allocs tot n = Some a" and "uint_to_float_round_up s \<le> uint_to_float_round_down tot"
  shows "holds a {}" "total_size a = tot" "\<exists>al a'. allocate s a = Some (Some al, a')"
proof -
  have "2 \<le> n" using assms(1) by simp
  then obtain i bl where a: "alloc_inv a [i] bl" "regions a [i] = [(i, 0, unat tot, False)]" "free_offset a = n - 2" "holds a {}" "total_size a = tot"
    using with_max_allocs_inv [OF _ assms(2), of tot] assms(3) by auto
  show "holds a {}" "total_size a = tot" using a by simp_all
  have "size_of a i = tot" using a(2) by (simp add: region_def word_unat_eq_iff)
  moreover have "i \<in> free_set a [i]" using a(2) by (simp add: region_def free_set_def)
  ultimately have "\<exists>i \<in> free_set a [i]. uint_to_float_round_up s \<le> uint_to_float_round_down (size_of a i)" using assms(4) by blast
  moreover have "free_offset a \<noteq> 0" using a(3) assms(1) by auto
  ultimately show "\<exists>al a'. allocate s a = Some (Some al, a')" using allocate_some_iff [OF a(1), of s] by (auto simp: word_neq_0_conv)
qed

lemma blob_step_reserved:
  assumes "blob_step env s s'" and "reserved tot (snd s) (fst s)"
  shows "reserved tot (snd s') (fst s')"
  using assms
proof cases
  case (blob_mapped wait ctx rid sz Q w al off info Q' w' M)
  then show ?thesis using map_blob_reserved [of wait tot M w env ctx rid sz Q "Inr (al, off, info)" Q' w'] assms(2) by simp
next
  case (blob_refused wait ctx rid sz Q w e Q' w' M)
  then show ?thesis using map_blob_reserved [of wait tot M w env ctx rid sz Q "Inl e" Q' w'] assms(2) by simp
next
  case (blob_unmapped wait al p z M rid Q w r Q' w')
  then show ?thesis using unmap_blob_reserved [of wait tot M w al p z env rid Q r Q' w'] assms(2) by simp
qed

lemma byte_regions_ok:
  assumes "holds a V"
  shows "disjoint_regions (byte_regions V)" and "(i, p, z) \<in> byte_regions V \<Longrightarrow> p + z \<le> 4096 * unat (total_size a)"
proof -
  show "disjoint_regions (byte_regions V)"
    using oa.holds_disjoint [OF assms] unfolding disjoint_regions_def byte_regions_def
    by (clarsimp simp: apart_def) (metis (no_types, lifting) add_mult_distrib2 fst_conv mult_le_mono2 snd_conv)
  assume "(i, p, z) \<in> byte_regions V"
  then obtain p' z' where "(i, p', z') \<in> V" "p = 4096 * p'" "z = 4096 * z'" by (auto simp: byte_regions_def)
  then show "p + z \<le> 4096 * unat (total_size a)" using oa.holds_limit [OF assms, of i p' z'] by simp
qed

lemma reserved_ok:
  assumes "reserved tot M w"
  shows "disjoint_regions M" and "(i, p, z) \<in> M \<Longrightarrow> p + z \<le> 4096 * unat tot"
proof -
  obtain V where V: "holds (page_alloc w) V" "M \<subseteq> byte_regions V" "total_size (page_alloc w) = tot" using assms by (auto simp: reserved_def)
  show "disjoint_regions M" using byte_regions_ok(1) [OF V(1)] V(2) unfolding disjoint_regions_def by blast
  show "p + z \<le> 4096 * unat tot" if "(i, p, z) \<in> M" using byte_regions_ok(2) [OF V(1)] V(2,3) that by blast
qed

lemma allocated_storage:
  assumes "holds a V" and "allocate s a = Some (Some al, a')"
  shows "unat (free_storage a') + unat s = unat (free_storage a)"
proof -
  have new: "alloc_metadata al \<notin> fst ` V" "same_frame a a'" "holds a' (insert (alloc_metadata al, unat (alloc_offset al), unat s) V)"
    using allocate_holds [OF assms(1), of s] assms(2) by auto
  have sum: "unat (free_storage b) + (\<Sum>(i, p, z)\<in>W. z) = unat (total_size b)" "finite W" if h: "holds b W" for b W
  proof -
    obtain rs bl where "alloc_inv b rs bl" "W = live b rs" using h unfolding holds_def by blast
    then show "unat (free_storage b) + (\<Sum>(i, p, z)\<in>W. z) = unat (total_size b)" "finite W"
      using free_sum [of b rs bl] finite_subset [of W "(\<lambda>(i, p, z, u). (i, p, z)) ` set (regions b rs)"] by (force simp: live_of_def)+
  qed
  have "(alloc_metadata al, unat (alloc_offset al), unat s) \<notin> V" using new(1) by force
  then show ?thesis using sum [OF assms(1)] sum(1) [OF new(3)] new(2) by (simp add: same_frame_def)
qed

lemma shmem_pages: "4096 * unat (ucast (l div 4096 :: u64) :: u32) \<le> unat (l :: u64)"
proof -
  have "unat (ucast (l div 4096) :: u32) \<le> unat (l div 4096)" by (simp add: unsigned_ucast_eq unsigned_take_bit_eq)
  also have "unat (l div 4096) = unat l div 4096" by (simp add: unat_div)
  finally show ?thesis by linarith
qed

lemma gpu_data_new_reserved:
  assumes "gpu_data_new shmem_length k = Some (gw_data w)"
  shows "reserved (ucast (shmem_length div 4096)) {} w"
proof -
  obtain a where a: "with_max_allocs (ucast (shmem_length div 4096)) (1024 * 1024) = Some a" "gw_data w = gpu_data_with a k"
    using assms by (auto simp: gpu_data_new_def bind_eq_Some_conv)
  then show ?thesis using with_max_allocs_inv [of "1024 * 1024" "ucast (shmem_length div 4096)"] by (auto simp: reserved_def gpu_data_with_def)
qed


text \<open>
  When the device refuses to map a blob, the call fails but the range stays allocated: the pages are missing from the
  free storage of the allocator, and no value that was returned names them.
\<close>

theorem map_refused_leaks:
  assumes "holds (page_alloc w) V" and "allocate (ucast (sz div PAGE_SIZE)) (page_alloc w) = Some (Some al, a)"
    and "answers wait bs" and "40 \<le> cap_in env" and "32 \<le> cap_out env" and "length bs = 32"
    and "ctrl_from_prefix bs = Some h" and "hdr_type h \<noteq> OK_MAP_INFO"
  shows "\<exists>Q' w'. resource_map_blob env wait ctx rid sz Q w = Some (Inl IO_DEVICE_ERROR, Q', w')
    \<and> unat (free_storage (page_alloc w')) + unat (ucast (sz div PAGE_SIZE) :: u32) = unat (free_storage (page_alloc w))"
proof -
  obtain Q' w' where W: "resource_map_blob env wait ctx rid sz Q w = map_answer al bs (Q', w')" "page_alloc w' = a"
    using map_blob_answered [OF assms(1-6)] by blast
  have "map_answer al bs (Q', w') = Some (Inl IO_DEVICE_ERROR, Q', w')"
    using assms(6-8) by (simp add: map_answer_def map_info_from_def MAP_INFO_SIZE_def check_nt_def check_type_def)
  moreover have "unat (free_storage a) + unat (ucast (sz div PAGE_SIZE) :: u32) = unat (free_storage (page_alloc w))"
    using allocated_storage [OF assms(1,2)] .
  ultimately show ?thesis using W by metis
qed

section \<open>A concrete device\<close>

text \<open>A wait during which the device answers with the given bytes.\<close>

definition demo_wait :: "u8 list \<Rightarrow> ('f, 'q, 's, 't, 'h, 'k) waiting" where
  "demo_wait bs b Q w = (Inr (), Q, w\<lparr>gw_objects := blocking_set b (blocking_write b (Inline bs) (gw_objects w))\<rparr>)"

lemma demo_wait_ok: "answers (demo_wait bs) bs" "grows (demo_wait bs)"
  by (auto simp: answers_def grows_def demo_wait_def blocking_set_def blocking_write_def update_blocking_def)

definition demo_map_answer :: "u32 \<Rightarrow> u8 list" where
  "demo_map_answer c = ctrl_bytes (with_type c) @ [0, 0, 0, 0, 0, 0, 0, 0]"

lemma demo_map_answer_ok:
  "length (demo_map_answer c) = 32" "ctrl_from_prefix (demo_map_answer c) = Some (with_type c)" "hdr_type (with_type c) = c"
  by (simp_all add: demo_map_answer_def with_type_def)

text \<open>A new adapter with a megabyte of shared memory, in which sixteen pages can be allocated.\<close>

lemma demo_memory:
  obtains d al a where "gpu_data_new 0x100000 (0 :: nat) = Some d" "holds (offset_allocator d) {}"
    "allocate (ucast (0x10000 div PAGE_SIZE :: u64)) (offset_allocator d) = Some (Some al, a)"
proof -
  obtain a0 where a0: "with_max_allocs 0x100 (1024 * 1024) = Some a0" using with_max_allocs_inv [of "1024 * 1024" 256] by auto
  have fit: "uint_to_float_round_up 0x10 \<le> uint_to_float_round_down 0x100" by (simp add: small_float_eval)
  have "(2 :: u32) < 1024 * 1024" "(1024 * 1024 :: u32) < 0xFFFFFFFE" by simp_all
  note F = fresh_allocates [OF this a0 fit]
  have "gpu_data_new 0x100000 0 = Some (gpu_data_with a0 (0 :: nat))" using a0 by (simp add: gpu_data_new_def)
  then show thesis using that F by (auto simp: gpu_data_with_def PAGE_SIZE_def)
qed

theorem refused_transfer_frees_id_witness:
  "\<forall>a. \<forall>w :: (nat, register_write list, u64) handler_world. \<forall>r.
     \<exists>Q' w'. resource_transfer_to_host_2d demo_env (demo_wait (ctrl_bytes (with_type 0x1200))) r 0 9 (demo_queue True []) (w\<lparr>gw_data := gpu_data_with a 0\<rparr>)
         = Some (Inl IO_DEVICE_ERROR, Q', w')
       \<and> fst (next_resource_id w') = Some 9"
proof (intro allI)
  fix a r
  fix w :: "(nat, register_write list, u64) handler_world"
  show "\<exists>Q' w'. resource_transfer_to_host_2d demo_env (demo_wait (ctrl_bytes (with_type 0x1200))) r 0 9 (demo_queue True []) (w\<lparr>gw_data := gpu_data_with a 0\<rparr>)
         = Some (Inl IO_DEVICE_ERROR, Q', w')
       \<and> fst (next_resource_id w') = Some 9"
    by (rule refused_transfer_frees_id [OF demo_wait_ok(1) ctrl_parse_header])
      (simp_all add: with_type_def OK_NODATA_def demo_env_def gpu_data_with_def id_new_def)
qed


theorem map_refused_leaks_witness:
  "\<forall>w :: (nat, register_write list, u64) handler_world.
     \<exists>d Q' w'. gpu_data_new 0x100000 0 = Some d
       \<and> resource_map_blob demo_env (demo_wait (demo_map_answer 0x1200)) 1 5 0x10000 (demo_queue True []) (w\<lparr>gw_data := d\<rparr>) = Some (Inl IO_DEVICE_ERROR, Q', w')
       \<and> unat (free_storage (page_alloc w')) + 16 = unat (free_storage (offset_allocator d))"
proof
  fix w :: "(nat, register_write list, u64) handler_world"
  obtain d al a where D: "gpu_data_new 0x100000 (0 :: nat) = Some d" "holds (offset_allocator d) {}"
    "allocate (ucast (0x10000 div PAGE_SIZE :: u64)) (offset_allocator d) = Some (Some al, a)" by (rule demo_memory)
  let ?w = "w\<lparr>gw_data := d\<rparr>"
  have pre: "holds (page_alloc ?w) {}" "allocate (ucast (0x10000 div PAGE_SIZE :: u64)) (page_alloc ?w) = Some (Some al, a)" using D by simp_all
  have cap: "40 \<le> cap_in demo_env" "32 \<le> cap_out demo_env" by (simp_all add: demo_env_def)
  have "hdr_type (with_type 0x1200) \<noteq> OK_MAP_INFO" by (simp add: with_type_def OK_MAP_INFO_def)
  from map_refused_leaks [OF pre demo_wait_ok(1) cap demo_map_answer_ok(1,2) this, of 1 5 "demo_queue True []"] D(1)
  show "\<exists>d Q' w'. gpu_data_new 0x100000 0 = Some d
       \<and> resource_map_blob demo_env (demo_wait (demo_map_answer 0x1200)) 1 5 0x10000 (demo_queue True []) (w\<lparr>gw_data := d\<rparr>) = Some (Inl IO_DEVICE_ERROR, Q', w')
       \<and> unat (free_storage (page_alloc w')) + 16 = unat (free_storage (offset_allocator d))"
    by (intro exI [of _ d]) (auto simp: PAGE_SIZE_def)
qed

end
