(* ===== verification/Gpu_Handler.thy ===== *)
theory Gpu_Handler
  imports Gpu_Channel
begin

text \<open>
  The handler thread of the display driver (\<open>QueueHandler\<close> and \<open>Thread\<close> in \<open>src/gpu-wddm/src/queue.rs\<close>). It owns the
  control queue and the cursor queue and sleeps until one of six events is set: an interrupt or a new request for
  either queue, a change of the configuration, or the order to stop. The events reset themselves when a wait ends.
  The interrupt routine and the deferred procedure call only record the cause and set events.
\<close>

section \<open>State\<close>

record thread_events =
  control_irq :: bool
  cursor_irq :: bool
  config_irq :: bool
  stop :: bool

definition thread_new :: thread_events where
  "thread_new = \<lparr>control_irq = False, cursor_irq = False, config_irq = False, stop = False\<rparr>"

record ('f, 'q, 's, 'k, 't, 'h) queue_handler =
  qh_control :: "('f, 'q, 's) gpu_queue"
  qh_cursor :: "('f, 'q, 's) gpu_queue"
  qh_world :: "('k, 't, 'h) handler_world"
  qh_events :: thread_events

text \<open>
  \<open>QueueHandler::new\<close>. The features negotiated with the device decide how the queues work; \<open>bases\<close> are where the arrays
  of slots were allocated and \<open>memory\<close> tells whether the kernel has memory for the thread object and the shared data.
  On an error the queues already set up are dropped.
\<close>

definition handler_new :: "('f, 'q, 's, 't, 'h, 'k) gq_env \<Rightarrow> ('f, 'q, 's, 't, 'h, 'k) gq_env \<Rightarrow> u64 \<Rightarrow> u64
    \<Rightarrow> u64 option \<times> u64 option \<Rightarrow> u64 option \<times> u64 option \<Rightarrow> bool \<Rightarrow> objects \<Rightarrow> 'k \<Rightarrow> 't \<Rightarrow> 'h
    \<Rightarrow> (('f, 'q, 's, 'k, 't, 'h) queue_handler nt_result \<times> 't \<times> 'h) option" where
  "handler_new ce ue features shmem_length control_bases cursor_bases memory ob k t h = do {
     let access_platform = contains features ACCESS_PLATFORM;
     let ind = contains features RING_INDIRECT_DESC;
     let ev = contains features RING_EVENT_IDX;
     (r, t, h) \<leftarrow> gq_new ce CONTROL_QUEUE_SIZE CONTROL_FAST_QUEUE_SIZE QUEUE_TRANSMIT (fst control_bases) (snd control_bases)
       access_platform ind ev t h;
     (case r of Inl e \<Rightarrow> Some (Inl e, t, h)
      | Inr control \<Rightarrow> do {
          (r, t, h) \<leftarrow> gq_new ue CURSOR_QUEUE_SIZE CURSOR_FAST_QUEUE_SIZE QUEUE_CURSOR (fst cursor_bases) (snd cursor_bases)
            access_platform ind ev t h;
          (case r of Inl e \<Rightarrow> do { h \<leftarrow> queue_drop (g_hal ce) (gq_queue control) h; Some (Inl e, t, h) }
           | Inr cursor \<Rightarrow>
               if memory then do {
                 d \<leftarrow> gpu_data_new shmem_length k;
                 Some (Inr \<lparr>qh_control = control, qh_cursor = cursor,
                   qh_world = \<lparr>gw_data = d, gw_objects = ob, gw_transport = t, gw_hal = h\<rparr>, qh_events = thread_new\<rparr>, t, h)
               } else do {
                 h \<leftarrow> queue_drop (g_hal ue) (gq_queue cursor) h;
                 h \<leftarrow> queue_drop (g_hal ce) (gq_queue control) h;
                 Some (Inl NO_MEMORY, t, h)
               })
        })
   }"

section \<open>Events\<close>

text \<open>\<open>ack_interrupt\<close> runs in the interrupt routine and \<open>handle_dpc\<close> after it.\<close>

definition handler_ack_interrupt :: "'t transport \<Rightarrow> ('f, 'q, 's, 'k, 't, 'h) queue_handler \<Rightarrow> ('f, 'q, 's, 'k, 't, 'h) queue_handler" where
  "handler_ack_interrupt tr H =
     (let w = qh_world H; (cause, t) = ack_interrupt tr (gw_transport w) in
      H\<lparr>qh_world := w\<lparr>gw_transport := t, gw_data := (gw_data w)\<lparr>irq := irq (gw_data w) OR cause\<rparr>\<rparr>\<rparr>)"

definition handle_dpc :: "('f, 'q, 's, 'k, 't, 'h) queue_handler \<Rightarrow> ('f, 'q, 's, 'k, 't, 'h) queue_handler" where
  "handle_dpc H =
     (let cause = irq (gw_data (qh_world H));
          H = (if cause AND QUEUE_INTERRUPT = QUEUE_INTERRUPT
               then H\<lparr>qh_events := (qh_events H)\<lparr>control_irq := True, cursor_irq := True\<rparr>\<rparr> else H) in
      if cause AND DEVICE_CONFIGURATION_INTERRUPT = DEVICE_CONFIGURATION_INTERRUPT
      then H\<lparr>qh_events := (qh_events H)\<lparr>config_irq := True\<rparr>\<rparr> else H)"

definition handler_kick :: "('f, 'q, 's, 'k, 't, 'h) queue_handler \<Rightarrow> ('f, 'q, 's, 'k, 't, 'h) queue_handler" where
  "handler_kick H = H\<lparr>qh_control := (qh_control H)\<lparr>chan_event := True\<rparr>, qh_cursor := (qh_cursor H)\<lparr>chan_event := True\<rparr>,
     qh_events := (qh_events H)\<lparr>control_irq := True, cursor_irq := True, config_irq := True\<rparr>\<rparr>"

definition thread_stop :: "('f, 'q, 's, 'k, 't, 'h) queue_handler \<Rightarrow> ('f, 'q, 's, 'k, 't, 'h) queue_handler" where
  "thread_stop H = H\<lparr>qh_events := (qh_events H)\<lparr>stop := True\<rparr>\<rparr>"

section \<open>The loop of the thread\<close>

datatype arm = ControlIrq | ControlMsg | CursorIrq | CursorMsg | ConfigIrq | Stop

text \<open>A wait can end with any event that is set; that event is then reset.\<close>

fun arm_set :: "arm \<Rightarrow> ('f, 'q, 's, 'k, 't, 'h) queue_handler \<Rightarrow> bool" where
  "arm_set ControlIrq H = control_irq (qh_events H)"
| "arm_set ControlMsg H = chan_event (qh_control H)"
| "arm_set CursorIrq H = cursor_irq (qh_events H)"
| "arm_set CursorMsg H = chan_event (qh_cursor H)"
| "arm_set ConfigIrq H = config_irq (qh_events H)"
| "arm_set Stop H = stop (qh_events H)"

fun arm_reset :: "arm \<Rightarrow> ('f, 'q, 's, 'k, 't, 'h) queue_handler \<Rightarrow> ('f, 'q, 's, 'k, 't, 'h) queue_handler" where
  "arm_reset ControlIrq H = H\<lparr>qh_events := (qh_events H)\<lparr>control_irq := False\<rparr>\<rparr>"
| "arm_reset ControlMsg H = H\<lparr>qh_control := (qh_control H)\<lparr>chan_event := False\<rparr>\<rparr>"
| "arm_reset CursorIrq H = H\<lparr>qh_events := (qh_events H)\<lparr>cursor_irq := False\<rparr>\<rparr>"
| "arm_reset CursorMsg H = H\<lparr>qh_cursor := (qh_cursor H)\<lparr>chan_event := False\<rparr>\<rparr>"
| "arm_reset ConfigIrq H = H\<lparr>qh_events := (qh_events H)\<lparr>config_irq := False\<rparr>\<rparr>"
| "arm_reset Stop H = H\<lparr>qh_events := (qh_events H)\<lparr>stop := False\<rparr>\<rparr>"

definition serve_control :: "(('f, 'q, 's) gpu_queue \<Rightarrow> ('k, 't, 'h) handler_world \<Rightarrow> (('f, 'q, 's) gpu_queue \<times> ('k, 't, 'h) handler_world) option)
    \<Rightarrow> ('f, 'q, 's, 'k, 't, 'h) queue_handler \<Rightarrow> ('f, 'q, 's, 'k, 't, 'h) queue_handler option" where
  "serve_control f H = do { (Q, w) \<leftarrow> f (qh_control H) (qh_world H); Some (H\<lparr>qh_control := Q, qh_world := w\<rparr>) }"

definition serve_cursor :: "(('f, 'q, 's) gpu_queue \<Rightarrow> ('k, 't, 'h) handler_world \<Rightarrow> (('f, 'q, 's) gpu_queue \<times> ('k, 't, 'h) handler_world) option)
    \<Rightarrow> ('f, 'q, 's, 'k, 't, 'h) queue_handler \<Rightarrow> ('f, 'q, 's, 'k, 't, 'h) queue_handler option" where
  "serve_cursor f H = do { (Q, w) \<leftarrow> f (qh_cursor H) (qh_world H); Some (H\<lparr>qh_cursor := Q, qh_world := w\<rparr>) }"

text \<open>The arms of the selection; \<open>None\<close> inside the option is the return of the thread.\<close>

fun handler_arm :: "('f, 'q, 's, 't, 'h, 'k) gq_env \<Rightarrow> ('f, 'q, 's, 't, 'h, 'k) gq_env \<Rightarrow> arm
    \<Rightarrow> ('f, 'q, 's, 'k, 't, 'h) queue_handler \<Rightarrow> ('f, 'q, 's, 'k, 't, 'h) queue_handler option option" where
  "handler_arm ce ue ControlIrq H = do {
     H \<leftarrow> serve_control (handle_responses ce) H;
     H \<leftarrow> serve_control (handle_requests ce) H;
     Some (Some H)
   }"
| "handler_arm ce ue ControlMsg H = do { H \<leftarrow> serve_control (handle_requests ce) H; Some (Some H) }"
| "handler_arm ce ue CursorIrq H = do {
     H \<leftarrow> serve_cursor (handle_responses ue) H;
     H \<leftarrow> serve_cursor (handle_requests ue) H;
     Some (Some H)
   }"
| "handler_arm ce ue CursorMsg H = do { H \<leftarrow> serve_cursor (handle_responses ue) H; Some (Some H) }"
| "handler_arm ce ue ConfigIrq H = Some (Some H)"
| "handler_arm ce ue Stop H = Some None"

text \<open>One turn of the loop in \<open>handler_thread_routine\<close>.\<close>

definition handler_turn :: "('f, 'q, 's, 't, 'h, 'k) gq_env \<Rightarrow> ('f, 'q, 's, 't, 'h, 'k) gq_env \<Rightarrow> arm
    \<Rightarrow> ('f, 'q, 's, 'k, 't, 'h) queue_handler \<Rightarrow> ('f, 'q, 's, 'k, 't, 'h) queue_handler option option" where
  "handler_turn ce ue a H = do {
     r \<leftarrow> handler_arm ce ue a (arm_reset a H);
     (case r of None \<Rightarrow> Some None
      | Some H \<Rightarrow> do {
          d \<leftarrow> handle_fence_submissions (g_counter ce) (gw_data (qh_world H));
          Some (Some (H\<lparr>qh_world := (qh_world H)\<lparr>gw_data := d\<rparr>\<rparr>))
        })
   }"

inductive handler_step :: "('f, 'q, 's, 't, 'h, 'k) gq_env \<Rightarrow> ('f, 'q, 's, 't, 'h, 'k) gq_env
    \<Rightarrow> ('f, 'q, 's, 'k, 't, 'h) queue_handler \<Rightarrow> ('f, 'q, 's, 'k, 't, 'h) queue_handler \<Rightarrow> bool" for ce ue where
  "arm_set a H \<Longrightarrow> handler_turn ce ue a H = Some (Some H') \<Longrightarrow> handler_step ce ue H H'"

text \<open>The destructor, once the thread has ended.\<close>

definition handler_drop :: "'t transport \<Rightarrow> ('f, 'q, 's, 'k, 't, 'h) queue_handler \<Rightarrow> 't" where
  "handler_drop tr H = queue_unset tr QUEUE_CURSOR (queue_unset tr QUEUE_TRANSMIT (gw_transport (qh_world H)))"

section \<open>Queries\<close>

definition check_engine :: "'k counter \<Rightarrow> engine \<Rightarrow> ('f, 'q, 's, 'k, 't, 'h) queue_handler
    \<Rightarrow> (bool \<times> ('f, 'q, 's, 'k, 't, 'h) queue_handler) option" where
  "check_engine counter e H = do {
     n \<leftarrow> node_ordinal e;
     es \<leftarrow> get (engines (gw_data (qh_world H))) (unat n);
     let (r, k) = is_responsive counter es (kernel (gw_data (qh_world H)));
     Some (r, H\<lparr>qh_world := (qh_world H)\<lparr>gw_data := (gw_data (qh_world H))\<lparr>kernel := k\<rparr>\<rparr>\<rparr>)
   }"

definition handler_last_completed :: "engine \<Rightarrow> ('f, 'q, 's, 'k, 't, 'h) queue_handler \<Rightarrow> u32 option" where
  "handler_last_completed e H = do {
     n \<leftarrow> node_ordinal e;
     es \<leftarrow> get (engines (gw_data (qh_world H))) (unat n);
     Some (last_completed_fence es)
   }"

definition handler_last_submitted :: "engine \<Rightarrow> ('f, 'q, 's, 'k, 't, 'h) queue_handler \<Rightarrow> u32 option" where
  "handler_last_submitted e H = do {
     n \<leftarrow> node_ordinal e;
     es \<leftarrow> get (engines (gw_data (qh_world H))) (unat n);
     Some (last_submitted_fence es)
   }"

end
