(* ===== verification/Gpu_Handler_Spec.thy ===== *)
theory Gpu_Handler_Spec
  imports Gpu_Handler Gpu_Queue_Spec
begin

text \<open>
  What one turn of the handler thread does for a request that a caller has just queued: requests on the control queue
  are sent, requests on the cursor queue are not.
\<close>

section \<open>The turns of the thread\<close>

lemma no_submissions [simp]:
  assumes "fence_submissions d = []"
  shows "handle_fence_submissions counter d = Some d"
  using assms by (cases d) (simp add: handle_fence_submissions_def)

lemma turn_world [simp]: "H\<lparr>qh_world := (qh_world H)\<lparr>gw_data := gw_data (qh_world H)\<rparr>\<rparr> = H"
  by (cases H) simp

text \<open>A handler for which only one event is set has only one turn to take.\<close>

lemma only_turn:
  assumes "\<forall>b. arm_set b H \<longleftrightarrow> b = a" and "handler_turn ce ue a H = Some (Some H')"
  shows "handler_step ce ue H H'' \<longleftrightarrow> H'' = H'"
  using assms by (auto simp: handler_step.simps)

lemma idle_responses:
  assumes "peek_used (gq_queue Q) = Some None"
  shows "handle_responses env Q w = Some (Q, w)"
  using assms by (simp add: handle_responses.simps [of env Q w] response_def pop_from_device_def)

lemma request_async_queued:
  assumes "gq_inv env V Q fl" and "laws env V" and "request_async env req n cb Q w = Some (Inr (), Q', w')"
  shows "\<exists>m. queued V Q' = queued V Q @ [m]" "gq_queue Q' = gq_queue Q" "chan_event Q'" "gw_data w' = gw_data w"
proof -
  obtain inp out where Q': "Q' = request_async_buf env inp out cb Q" and "gw_data w' = gw_data w"
    using assms(3) by (auto simp: request_async_def request_async_into_buf_def bind_eq_Some_conv split: prod.splits sum.splits)
  moreover have "chan_content (fast_content V) (slow_content V) (aseg_push (fast_ops env) (slow_ops env) m (chan Q))
      = chan_content (fast_content V) (slow_content V) (chan Q) @ [m]" for m
  proof -
    have "array_queue_law (fast_ops env) (fast_content V) (fast_cap V)" "seg_queue_law (slow_ops env) (slow_content V)"
      using assms(2) by (simp_all add: laws_def)
    moreover have "chan_inv (fast_content V) (fast_cap V) (slow_content V) (chan Q)" using assms(1) by (simp add: gq_inv_def)
    ultimately show ?thesis using aseg_push_ok [of _ _ _ _ _ "chan Q" m] by blast
  qed
  ultimately show "\<exists>m. queued V Q' = queued V Q @ [m]" "gq_queue Q' = gq_queue Q" "chan_event Q'" "gw_data w' = gw_data w"
    by (auto simp: queued_def request_async_buf_def)
qed

section \<open>Properties\<close>

text \<open>
  A cursor movement is not sent: when the handler is idle and \<open>move_cursor\<close> queues its command, the only turn the
  handler can take leaves the command on the channel and the virtqueue as it was, and then no event is set that would
  wake it up again.
\<close>

theorem cursor_move_not_sent:
  assumes "\<forall>a. \<not> arm_set a H" and "gq_inv ue V (qh_cursor H) fl" and "laws ue V"
    and "peek_used (gq_queue (qh_cursor H)) = Some None" and "fence_submissions (gw_data (qh_world H)) = []"
    and "move_cursor ue scanout x y (qh_cursor H) (qh_world H) = Some (Inr (), Q, w)"
  shows "\<exists>H'. (\<forall>H''. handler_step ce ue (H\<lparr>qh_cursor := Q, qh_world := w\<rparr>) H'' \<longleftrightarrow> H'' = H')
    \<and> (\<forall>a. \<not> arm_set a H') \<and> (\<exists>m. queued V (qh_cursor H') = queued V (qh_cursor H) @ [m])
    \<and> gq_queue (qh_cursor H') = gq_queue (qh_cursor H)"
proof -
  obtain hdr w1 where N: "new_header MOVE_CURSOR True None None (qh_world H) = (hdr, w1)" by (rule prod.exhaust)
  then have subs: "fence_submissions (gw_data w1) = fence_submissions (gw_data (qh_world H))"
    by (auto simp: new_header_def Let_def split: prod.splits)
  have "\<exists>req n cb. request_async ue req n cb (qh_cursor H) w1 = Some (Inr (), Q, w)"
    using assms(6) by (auto simp: move_cursor_def N)
  then obtain req n cb where "request_async ue req n cb (qh_cursor H) w1 = Some (Inr (), Q, w)" by blast
  note sent = request_async_queued [OF assms(2,3) this]
  let ?H = "H\<lparr>qh_cursor := Q, qh_world := w\<rparr>" and ?H' = "H\<lparr>qh_cursor := Q\<lparr>chan_event := False\<rparr>, qh_world := w\<rparr>"
  have only: "\<forall>b. arm_set b ?H \<longleftrightarrow> b = CursorMsg"
  proof
    fix b
    show "arm_set b ?H \<longleftrightarrow> b = CursorMsg" using assms(1) [rule_format, of b] sent(3) by (cases b) simp_all
  qed
  have turn: "handler_turn ce ue CursorMsg ?H = Some (Some ?H')"
    using assms(4,5) sent(2,4) subs by (simp add: handler_turn_def serve_cursor_def idle_responses)
  have quiet: "\<forall>a. \<not> arm_set a ?H'"
  proof
    fix a
    show "\<not> arm_set a ?H'" using assms(1) [rule_format, of a] by (cases a) simp_all
  qed
  have "queued V (qh_cursor ?H') = queued V Q" by (simp add: queued_def)
  then show ?thesis using only_turn [OF only turn] quiet sent(1,2) by (intro exI [of _ ?H']) auto
qed


section \<open>A concrete handler\<close>

definition demo_handler :: "bool \<Rightarrow> message list \<Rightarrow> (nat, register_write list, u64) handler_world
    \<Rightarrow> (nat list \<times> nat, message list \<times> nat, message list, nat, register_write list, u64) queue_handler" where
  "demo_handler e ms w = \<lparr>qh_control = (demo_queue True ms)\<lparr>chan_event := e\<rparr>, qh_cursor = demo_queue True [], qh_world = w, qh_events = thread_new\<rparr>"

theorem cursor_move_not_sent_witness:
  "\<forall>a. \<forall>w :: (nat, register_write list, u64) handler_world.
     \<exists>Q w' H'. move_cursor demo_env 0 10 20 (demo_queue True []) (w\<lparr>gw_data := gpu_data_with a 0\<rparr>) = Some (Inr (), Q, w')
       \<and> (\<forall>H''. handler_step demo_env demo_env ((demo_handler False [] (w\<lparr>gw_data := gpu_data_with a 0\<rparr>))\<lparr>qh_cursor := Q, qh_world := w'\<rparr>) H'' \<longleftrightarrow> H'' = H')
       \<and> (\<forall>a. \<not> arm_set a H') \<and> length (queued demo_views (qh_cursor H')) = 1"
proof (intro allI)
  fix a and w :: "(nat, register_write list, u64) handler_world"
  let ?w = "w\<lparr>gw_data := gpu_data_with a 0\<rparr>"
  let ?H = "demo_handler False [] ?w"
  have ok: "list_all (message_ok demo_env) []" "length [] \<le> (8 :: nat)" by simp_all
  note inv = demo_inv [OF ok(2,1), of True]
  obtain hdr w1 where N: "new_header MOVE_CURSOR True None None ?w = (hdr, w1)" by (rule prod.exhaust)
  obtain Q w' where M: "move_cursor demo_env 0 10 20 (demo_queue True []) ?w = Some (Inr (), Q, w')"
    by (simp add: move_cursor_def N request_async_def try_new_zeroed_def try_from_bytes_def request_async_into_buf_def try_from_value_def
        demo_env_def CTRL_SIZE_def)
  have quiet: "\<forall>a. \<not> arm_set a ?H"
  proof
    fix a
    show "\<not> arm_set a ?H" by (cases a) (simp_all add: demo_handler_def thread_new_def demo_queue_def)
  qed
  have "peek_used (gq_queue (demo_queue True [])) = Some None"
    by (simp add: demo_queue_def fresh_queue_def set_dev_notify_def peek_used_def can_pop_def)
  then have "\<exists>H'. (\<forall>H''. handler_step demo_env demo_env (?H\<lparr>qh_cursor := Q, qh_world := w'\<rparr>) H'' \<longleftrightarrow> H'' = H')
      \<and> (\<forall>a. \<not> arm_set a H') \<and> (\<exists>m. queued demo_views (qh_cursor H') = queued demo_views (qh_cursor ?H) @ [m])
      \<and> gq_queue (qh_cursor H') = gq_queue (qh_cursor ?H)"
    using inv(1) demo_laws M
    by (intro cursor_move_not_sent [OF quiet, of demo_env demo_views "[]" 0 10 20]) (simp_all add: demo_handler_def gpu_data_with_def)
  then show "\<exists>Q w' H'. move_cursor demo_env 0 10 20 (demo_queue True []) ?w = Some (Inr (), Q, w')
       \<and> (\<forall>H''. handler_step demo_env demo_env (?H\<lparr>qh_cursor := Q, qh_world := w'\<rparr>) H'' \<longleftrightarrow> H'' = H')
       \<and> (\<forall>a. \<not> arm_set a H') \<and> length (queued demo_views (qh_cursor H')) = 1"
    using M inv(3) by (intro exI [of _ Q] exI [of _ w']) (auto simp: demo_handler_def)
qed


end
