(* ===== verification/Virt_Console.thy ===== *)
theory Virt_Console
  imports Device_Common
begin

text \<open>
  The driver of the console device (\<open>src/virtio-drivers/src/device/console.rs\<close> and \<open>console/embedded_io.rs\<close>). It keeps one
  request for a page of input outstanding on the receive queue and hands out the bytes the device put there one after
  the other; \<open>rx_page\<close> is the address of the page. Logging and \<open>Display\<close> are left out.
\<close>

section \<open>State and set-up\<close>

definition QUEUE_RECEIVEQ_PORT_0 :: u16 where "QUEUE_RECEIVEQ_PORT_0 = 0"
definition QUEUE_TRANSMITQ_PORT_0 :: u16 where "QUEUE_TRANSMITQ_PORT_0 = 1"
definition CONSOLE_QUEUE_SIZE :: nat where "CONSOLE_QUEUE_SIZE = 2"
definition CONSOLE_SIZE :: u64 where "CONSOLE_SIZE = 1"
definition MULTIPORT :: u64 where "MULTIPORT = push_bit 1 1"
definition EMERG_WRITE :: u64 where "EMERG_WRITE = push_bit 2 1"

definition console_features :: u64 where
  "console_features = CONSOLE_SIZE OR MULTIPORT OR EMERG_WRITE OR common_features"

definition console_supported_features :: u64 where
  "console_supported_features = RING_EVENT_IDX OR RING_INDIRECT_DESC OR CONSOLE_SIZE OR EMERG_WRITE OR VERSION_1 OR ACCESS_PLATFORM"

record 't virtio_console =
  con_transport :: 't
  con_features :: u64
  receiveq :: virt_queue
  transmitq :: virt_queue
  rx_page :: u64
  cursor :: nat
  pending_len :: nat
  receive_token :: "u16 option"

record console_size =
  columns :: u16
  rows :: u16

definition rx_slice :: "'t virtio_console \<Rightarrow> slice" where
  "rx_slice c = \<lparr>slice_ptr = rx_page c, slice_len = PAGE_SIZE\<rparr>"

definition poll_retrieve :: "'h hal \<Rightarrow> 't transport \<Rightarrow> 't virtio_console \<Rightarrow> 'h \<Rightarrow> (unit result \<times> 't virtio_console \<times> 'h) option" where
  "poll_retrieve hal tr c h =
     (if receive_token c = None \<and> cursor c = pending_len c then do {
        (r, q, h) \<leftarrow> add hal [] [rx_slice c] (receiveq c) h;
        let c = c\<lparr>receiveq := q\<rparr>;
        (case r of
           Inl e \<Rightarrow> Some (Inl e, c, h)
         | Inr token \<Rightarrow>
             let c = c\<lparr>receive_token := Some token\<rparr>;
                 t = (if should_notify (receiveq c) then notify tr QUEUE_RECEIVEQ_PORT_0 (con_transport c) else con_transport c) in
             Some (Inr (), c\<lparr>con_transport := t\<rparr>, h))
      } else Some (Inr (), c, h))"

text \<open>The destructor, and then those of the fields.\<close>

definition console_drop :: "'h hal \<Rightarrow> 't transport \<Rightarrow> 't virtio_console \<Rightarrow> 'h \<Rightarrow> ('t \<times> 'h) option" where
  "console_drop hal tr c h = do {
     let t = queue_unset tr QUEUE_TRANSMITQ_PORT_0 (queue_unset tr QUEUE_RECEIVEQ_PORT_0 (con_transport c));
     h \<leftarrow> queue_drop hal (receiveq c) h;
     h \<leftarrow> queue_drop hal (transmitq c) h;
     Some (t, drop_box hal (rx_page c) h)
   }"

definition console_new :: "'h hal \<Rightarrow> 't transport \<Rightarrow> 't \<Rightarrow> 'h \<Rightarrow> ('t virtio_console result \<times> 't \<times> 'h) option" where
  "console_new hal tr t h = do {
     let (negotiated, t) = begin_init tr console_features console_supported_features t;
     (r, t, h) \<leftarrow> features_queue hal tr CONSOLE_QUEUE_SIZE QUEUE_RECEIVEQ_PORT_0 negotiated t h;
     (case r of Inl e \<Rightarrow> Some (Inl e, t, h) | Inr rq \<Rightarrow> do {
       (r, t, h) \<leftarrow> features_queue hal tr CONSOLE_QUEUE_SIZE QUEUE_TRANSMITQ_PORT_0 negotiated t h;
       (case r of Inl e \<Rightarrow> do { h \<leftarrow> queue_drop hal rq h; Some (Inl e, t, h) } | Inr tq \<Rightarrow> do {
         let (b, h) = new_box hal PAGE_SIZE h;
         p \<leftarrow> b;
         let h = mem_store hal p (replicate 4096 0) h;
         let t = finish_init tr t;
         (r, c, h) \<leftarrow> poll_retrieve hal tr \<lparr>con_transport = t, con_features = negotiated, receiveq = rq, transmitq = tq,
           rx_page = p, cursor = 0, pending_len = 0, receive_token = None\<rparr> h;
         (case r of
            Inl e \<Rightarrow> do { (t, h) \<leftarrow> console_drop hal tr c h; Some (Inl e, t, h) }
          | Inr _ \<Rightarrow> Some (Inr c, con_transport c, h))
       })
     })
   }"

text \<open>The closure of \<open>size\<close>, and \<open>size\<close>.\<close>

definition read_size :: "'t transport \<Rightarrow> 't \<Rightarrow> console_size option result \<times> 't" where
  "read_size tr t =
     (case read_config tr 0 2 t of
        (Inl e, t) \<Rightarrow> (Inl e, t)
      | (Inr cols, t) \<Rightarrow>
          (case read_config tr 2 2 t of
             (Inl e, t) \<Rightarrow> (Inl e, t)
           | (Inr rws, t) \<Rightarrow> (Inr (Some \<lparr>columns = cols, rows = rws\<rparr>), t)))"

definition con_size :: "'t transport \<Rightarrow> 't virtio_console \<Rightarrow> (console_size option result \<times> 't virtio_console) option" where
  "con_size tr c =
     (if contains (con_features c) CONSOLE_SIZE then do {
        (r, t) \<leftarrow> read_consistent tr (read_size tr) (con_transport c);
        Some (r, c\<lparr>con_transport := t\<rparr>)
      } else Some (Inr None, c))"

section \<open>Receiving\<close>

definition finish_receive :: "'h hal \<Rightarrow> 't virtio_console \<Rightarrow> 'h \<Rightarrow> (bool result \<times> 't virtio_console \<times> 'h) option" where
  "finish_receive hal c h =
     (case receive_token c of
        None \<Rightarrow> Some (Inr False, c, h)
      | Some token \<Rightarrow> do {
          peek \<leftarrow> peek_used (receiveq c);
          (if peek = Some token then do {
             (r, q, h) \<leftarrow> pop_used hal token [] [rx_slice c] (receiveq c) h;
             let c = c\<lparr>receiveq := q\<rparr>;
             (case r of
                Inl e \<Rightarrow> Some (Inl e, c, h)
              | Inr n \<Rightarrow> do {
                  assert (n \<noteq> 0);
                  Some (Inr True, c\<lparr>cursor := 0, pending_len := unat n, receive_token := None\<rparr>, h)
                })
           } else Some (Inr False, c, h))
        })"

definition con_ack_interrupt :: "'h hal \<Rightarrow> 't transport \<Rightarrow> 't virtio_console \<Rightarrow> 'h \<Rightarrow> (bool result \<times> 't virtio_console \<times> 'h) option" where
  "con_ack_interrupt hal tr c h =
     (let (status, t) = ack_interrupt tr (con_transport c); c = c\<lparr>con_transport := t\<rparr> in
      if status AND QUEUE_INTERRUPT \<noteq> QUEUE_INTERRUPT then Some (Inr False, c, h) else finish_receive hal c h)"

definition recv :: "'h hal \<Rightarrow> 't transport \<Rightarrow> bool \<Rightarrow> 't virtio_console \<Rightarrow> 'h \<Rightarrow> (u8 option result \<times> 't virtio_console \<times> 'h) option" where
  "recv hal tr pop c h = do {
     (r, c, h) \<leftarrow> finish_receive hal c h;
     (case r of
        Inl e \<Rightarrow> Some (Inl e, c, h)
      | Inr _ \<Rightarrow>
          if cursor c = pending_len c then Some (Inr None, c, h)
          else do {
            ch \<leftarrow> get (mem_load hal (rx_slice c) h) (cursor c);
            if pop then do {
              (r, c, h) \<leftarrow> poll_retrieve hal tr (c\<lparr>cursor := cursor c + 1\<rparr>) h;
              (case r of Inl e \<Rightarrow> Some (Inl e, c, h) | Inr _ \<Rightarrow> Some (Inr (Some ch), c, h))
            } else Some (Inr (Some ch), c, h)
          })
   }"

text \<open>The loop of \<open>wait_for_receive\<close>: \<open>device\<close> is what the device does to the queue between two looks at it.\<close>

partial_function (option) receive_loop :: "'h hal \<Rightarrow> (virt_queue \<Rightarrow> virt_queue) \<Rightarrow> 't virtio_console \<Rightarrow> 'h
    \<Rightarrow> (unit result \<times> 't virtio_console \<times> 'h) option" where
  "receive_loop hal device c h =
     (if cursor c = pending_len c then do {
        (r, c, h) \<leftarrow> finish_receive hal (c\<lparr>receiveq := device (receiveq c)\<rparr>) h;
        (case r of Inl e \<Rightarrow> Some (Inl e, c, h) | Inr _ \<Rightarrow> receive_loop hal device c h)
      } else Some (Inr (), c, h))"

definition wait_for_receive :: "'h hal \<Rightarrow> 't transport \<Rightarrow> (virt_queue \<Rightarrow> virt_queue) \<Rightarrow> 't virtio_console \<Rightarrow> 'h
    \<Rightarrow> (unit result \<times> 't virtio_console \<times> 'h) option" where
  "wait_for_receive hal tr device c h = do {
     (r, c, h) \<leftarrow> poll_retrieve hal tr c h;
     (case r of Inl e \<Rightarrow> Some (Inl e, c, h) | Inr _ \<Rightarrow> receive_loop hal device c h)
   }"

section \<open>Sending\<close>

definition send_bytes :: "'h hal \<Rightarrow> 't transport \<Rightarrow> (virt_queue \<Rightarrow> virt_queue) \<Rightarrow> slice \<Rightarrow> 't virtio_console \<Rightarrow> 'h
    \<Rightarrow> (unit result \<times> 't virtio_console \<times> 'h) option" where
  "send_bytes hal tr device buffer c h = do {
     (r, q, t, h) \<leftarrow> add_notify_wait_pop hal tr device [buffer] [] (transmitq c) (con_transport c) h;
     let c = c\<lparr>transmitq := q, con_transport := t\<rparr>;
     (case r of Inl e \<Rightarrow> Some (Inl e, c, h) | Inr _ \<Rightarrow> Some (Inr (), c, h))
   }"

definition send :: "'h hal \<Rightarrow> 't transport \<Rightarrow> (virt_queue \<Rightarrow> virt_queue) \<Rightarrow> u8 \<Rightarrow> 't virtio_console \<Rightarrow> 'h
    \<Rightarrow> (unit result \<times> 't virtio_console \<times> 'h) option" where
  "send hal tr device chr c h =
     (let p = stack_slot hal 1 h in
      send_bytes hal tr device \<lparr>slice_ptr = p, slice_len = 1\<rparr> c (mem_store hal p [chr] h))"

definition emergency_write :: "'t transport \<Rightarrow> u8 \<Rightarrow> 't virtio_console \<Rightarrow> unit result \<times> 't virtio_console" where
  "emergency_write tr chr c =
     (if contains (con_features c) EMERG_WRITE
      then let (r, t) = write_config tr 8 (le32 (ucast chr)) (con_transport c) in (r, c\<lparr>con_transport := t\<rparr>)
      else (Inl Unsupported, c))"

section \<open>The traits of \<open>embedded-io\<close>\<close>

definition io_write :: "'h hal \<Rightarrow> 't transport \<Rightarrow> (virt_queue \<Rightarrow> virt_queue) \<Rightarrow> slice \<Rightarrow> 't virtio_console \<Rightarrow> 'h
    \<Rightarrow> (u64 result \<times> 't virtio_console \<times> 'h) option" where
  "io_write hal tr device buf c h =
     (if slice_len buf = 0 then Some (Inr 0, c, h)
      else do {
        (r, c, h) \<leftarrow> send_bytes hal tr device buf c h;
        Some (case r of Inl e \<Rightarrow> Inl e | Inr _ \<Rightarrow> Inr (slice_len buf), c, h)
      })"

definition read_ready :: "'h hal \<Rightarrow> 't virtio_console \<Rightarrow> 'h \<Rightarrow> (bool result \<times> 't virtio_console \<times> 'h) option" where
  "read_ready hal c h = do {
     (r, c, h) \<leftarrow> finish_receive hal c h;
     Some (case r of Inl e \<Rightarrow> Inl e | Inr _ \<Rightarrow> Inr (cursor c \<noteq> pending_len c), c, h)
   }"

text \<open>\<open>read\<close> fills a buffer of \<open>n\<close> bytes; the result is what it copied. A range outside of the page panics.\<close>

definition page_range :: "'h hal \<Rightarrow> 't virtio_console \<Rightarrow> nat \<Rightarrow> nat \<Rightarrow> 'h \<Rightarrow> u8 list option" where
  "page_range hal c i j h =
     (let bs = mem_load hal (rx_slice c) h in if i \<le> j \<and> j \<le> length bs then Some (take (j - i) (drop i bs)) else None)"

definition io_read :: "'h hal \<Rightarrow> 't transport \<Rightarrow> (virt_queue \<Rightarrow> virt_queue) \<Rightarrow> nat \<Rightarrow> 't virtio_console \<Rightarrow> 'h
    \<Rightarrow> (u8 list result \<times> 't virtio_console \<times> 'h) option" where
  "io_read hal tr device n c h =
     (if n = 0 then Some (Inr [], c, h)
      else do {
        (r, c, h) \<leftarrow> wait_for_receive hal tr device c h;
        (case r of
           Inl e \<Rightarrow> Some (Inl e, c, h)
         | Inr _ \<Rightarrow> do {
             let read_length = min n (pending_len c - cursor c);
             bs \<leftarrow> page_range hal c (cursor c) (cursor c + read_length) h;
             Some (Inr bs, c\<lparr>cursor := cursor c + read_length\<rparr>, h)
           })
      })"

definition fill_buf :: "'h hal \<Rightarrow> 't transport \<Rightarrow> (virt_queue \<Rightarrow> virt_queue) \<Rightarrow> 't virtio_console \<Rightarrow> 'h
    \<Rightarrow> (u8 list result \<times> 't virtio_console \<times> 'h) option" where
  "fill_buf hal tr device c h = do {
     (r, c, h) \<leftarrow> wait_for_receive hal tr device c h;
     (case r of
        Inl e \<Rightarrow> Some (Inl e, c, h)
      | Inr _ \<Rightarrow> do { bs \<leftarrow> page_range hal c (cursor c) (pending_len c) h; Some (Inr bs, c, h) })
   }"

definition consume :: "nat \<Rightarrow> 't virtio_console \<Rightarrow> 't virtio_console option" where
  "consume amt c = do { assert (cursor c + amt \<le> pending_len c); Some (c\<lparr>cursor := cursor c + amt\<rparr>) }"

end
