(* ===== verification/Virt_Console_Spec.thy ===== *)
theory Virt_Console_Spec
  imports Virt_Console
begin

text \<open>
  What the console driver promises: the bytes of one answer of the device come out of \<open>recv\<close> once each and in order,
  and then the page is lent to the device again. The driver trusts the length the device reports.
\<close>

section \<open>The receive request\<close>

definition console_inv :: "'t virtio_console \<Rightarrow> bool" where
  "console_inv c \<longleftrightarrow> cursor c \<le> pending_len c
     \<and> (case receive_token c of
          None \<Rightarrow> \<exists>fl. vq_inv (receiveq c) fl []
        | Some token \<Rightarrow> cursor c = pending_len c \<and> (\<exists>fl f. vq_inv (receiveq c) fl [f] \<and> token_of f = token
            \<and> bufs_of f = [(rx_slice c, DeviceToDriver)]))"

text \<open>The device has answered the outstanding request with \<open>n\<close> bytes.\<close>

definition answered :: "'t virtio_console \<Rightarrow> u32 \<Rightarrow> bool" where
  "answered c n \<longleftrightarrow> can_pop (receiveq c) \<and> receive_token c = Some (ucast (used_id (next_used (receiveq c))))
     \<and> n = used_len (next_used (receiveq c))"

lemma rx_slice_cong [simp]:
  "rx_slice (c\<lparr>receiveq := q\<rparr>) = rx_slice c" "rx_slice (c\<lparr>cursor := i\<rparr>) = rx_slice c" "rx_slice (c\<lparr>pending_len := n\<rparr>) = rx_slice c"
  "rx_slice (c\<lparr>receive_token := tok\<rparr>) = rx_slice c" "rx_slice (c\<lparr>con_transport := t\<rparr>) = rx_slice c"
  by (simp_all add: rx_slice_def)

lemma page_size: "PAGE_SIZE \<noteq> 0" "unat PAGE_SIZE = 4096"
  by (simp_all add: PAGE_SIZE_def)

lemma poll_retrieve_lends:
  assumes inv: "console_inv c" and law: "hal_box_law hal" and idle: "receive_token c = None" "cursor c = pending_len c"
  shows "\<exists>c' h'. poll_retrieve hal tr c h = Some (Inr (), c', h') \<and> console_inv c' \<and> receive_token c' \<noteq> None
    \<and> cursor c' = pending_len c' \<and> rx_slice c' = rx_slice c"
proof -
  obtain fl where "vq_inv (receiveq c) fl []" using inv idle by (auto simp: console_inv_def)
  moreover from this have "fl \<noteq> []" using free_and_used [of "receiveq c" fl "[]"] vq_invD(1,7) shape_size [of "receiveq c"] by auto
  ultimately obtain i fl' where q: "vq_inv (receiveq c) (i # fl') []" by (cases fl) auto
  from add_single [OF q page_size(1) _ law, of "rx_page c" h] obtain q' h' f where A:
    "add hal [] [rx_slice c] (receiveq c) h = Some (Inr i, q', h')" "vq_inv q' fl' [f]" "token_of f = i"
    "bufs_of f = [(rx_slice c, DeviceToDriver)]"
    by (auto simp: rx_slice_def page_size(2))
  let ?t = "if should_notify q' then notify tr QUEUE_RECEIVEQ_PORT_0 (con_transport c) else con_transport c"
  let ?c = "c\<lparr>receiveq := q', receive_token := Some i, con_transport := ?t\<rparr>"
  have "poll_retrieve hal tr c h = Some (Inr (), ?c, h')" using A(1) idle by (simp add: poll_retrieve_def)
  moreover have "console_inv ?c" using A(2-4) idle by (auto simp: console_inv_def)
  ultimately show ?thesis using idle by (intro exI [of _ ?c] exI [of _ h']) simp
qed

lemma finish_receive_takes:
  assumes inv: "console_inv c" and ans: "answered c n" and n: "n \<noteq> 0"
  shows "\<exists>c' h'. finish_receive hal c h = Some (Inr True, c', h') \<and> console_inv c' \<and> receive_token c' = None
    \<and> cursor c' = 0 \<and> pending_len c' = unat n \<and> rx_slice c' = rx_slice c"
proof -
  let ?tok = "ucast (used_id (next_used (receiveq c))) :: u16"
  obtain fl f where f: "vq_inv (receiveq c) fl ([] @ f # [])" "token_of f = ?tok" "bufs_of f = [(rx_slice c, DeviceToDriver)]"
    using inv ans by (auto simp: console_inv_def answered_def)
  have bs: "input_output [] [rx_slice c] = bufs_of f" using f(3) by (simp add: input_output_def)
  have pop: "can_pop (receiveq c)" "receive_token c = Some ?tok" "n = used_len (next_used (receiveq c))" using ans by (auto simp: answered_def)
  from pop_used_success [OF f(1) bs pop(1) f(2) [symmetric], of hal h] obtain q' where P:
    "pop_used hal ?tok [] [rx_slice c] (receiveq c) h = Some (Inr n, q', unshare_flight hal (access_platform (receiveq c)) f h)"
    "vq_inv q' (ids f @ fl) []" using f(2) pop(3) by auto
  let ?c = "c\<lparr>receiveq := q', cursor := 0, pending_len := unat n, receive_token := None\<rparr>"
  have "peek_used (receiveq c) = Some (Some ?tok)" using peek_used_ok [OF vq_invD(1) [OF f(1)]] pop(1) by simp
  then have "finish_receive hal c h = Some (Inr True, ?c, unshare_flight hal (access_platform (receiveq c)) f h)"
    using P(1) pop(2) n by (simp add: finish_receive_def assert_def)
  moreover have "console_inv ?c" using P(2) by (auto simp: console_inv_def)
  ultimately show ?thesis by (intro exI [of _ ?c] exI) simp
qed

section \<open>Reading the bytes\<close>

fun recv_many :: "'h hal \<Rightarrow> 't transport \<Rightarrow> nat \<Rightarrow> 't virtio_console \<Rightarrow> 'h \<Rightarrow> (u8 option result list \<times> 't virtio_console \<times> 'h) option" where
  "recv_many hal tr 0 c h = Some ([], c, h)"
| "recv_many hal tr (Suc k) c h = do {
     (r, c, h) \<leftarrow> recv hal tr True c h;
     (rs, c, h) \<leftarrow> recv_many hal tr k c h;
     Some (r # rs, c, h)
   }"

lemma recv_mid:
  assumes "receive_token c = None" and "cursor c + 1 < pending_len c" and "cursor c < 4096" and "load_law hal"
  shows "recv hal tr True c h = Some (Inr (Some (mem_load hal (rx_slice c) h ! cursor c)), c\<lparr>cursor := cursor c + 1\<rparr>, h)"
proof -
  have "cursor c < length (mem_load hal (rx_slice c) h)" using assms(3,4) by (simp add: load_law_def rx_slice_def page_size(2))
  then show ?thesis using assms(1,2) by (simp add: recv_def finish_receive_def poll_retrieve_def)
qed

lemma recv_last:
  assumes inv: "console_inv c" and law: "hal_box_law hal" "load_law hal"
    and c: "receive_token c = None" "cursor c + 1 = pending_len c" "cursor c < 4096"
  shows "\<exists>c' h'. recv hal tr True c h = Some (Inr (Some (mem_load hal (rx_slice c) h ! cursor c)), c', h') \<and> console_inv c'
    \<and> receive_token c' \<noteq> None \<and> cursor c' = pending_len c'"
proof -
  let ?c = "c\<lparr>cursor := cursor c + 1\<rparr>"
  have "console_inv ?c" using inv c by (auto simp: console_inv_def)
  from poll_retrieve_lends [OF this law(1), of tr h] c obtain c' h' where
    "poll_retrieve hal tr ?c h = Some (Inr (), c', h')" "console_inv c'" "receive_token c' \<noteq> None" "cursor c' = pending_len c'" by auto
  moreover have "cursor c < length (mem_load hal (rx_slice c) h)" using c(3) law(2) by (simp add: load_law_def rx_slice_def page_size(2))
  ultimately show ?thesis using c(1,2) by (simp add: recv_def finish_receive_def)
qed

lemma recv_rest:
  assumes "console_inv c" and law: "hal_box_law hal" "load_law hal"
    and "receive_token c = None" "cursor c < pending_len c" "pending_len c \<le> 4096"
  shows "\<exists>c' h'. recv_many hal tr (pending_len c - cursor c) c h
      = Some (map (Inr \<circ> Some) (drop (cursor c) (take (pending_len c) (mem_load hal (rx_slice c) h))), c', h')
    \<and> console_inv c' \<and> receive_token c' \<noteq> None \<and> cursor c' = pending_len c'"
  using assms(1,4-6)
proof (induction "pending_len c - cursor c" arbitrary: c)
  case (Suc k)
  let ?bs = "mem_load hal (rx_slice c) h"
  have "cursor c < length (take (pending_len c) ?bs)"
    using Suc.prems law(2) by (simp add: load_law_def rx_slice_def page_size(2))
  then have d: "drop (cursor c) (take (pending_len c) ?bs) = ?bs ! cursor c # drop (cursor c + 1) (take (pending_len c) ?bs)"
    using Cons_nth_drop_Suc [of "cursor c" "take (pending_len c) ?bs"] Suc.prems(3) by simp
  have k: "pending_len c - cursor c = Suc k" using Suc.hyps(2) by simp
  show ?case
  proof (cases "k = 0")
    case True
    then have "cursor c + 1 = pending_len c" "cursor c < 4096" using k Suc.prems by simp_all
    from recv_last [OF Suc.prems(1) law Suc.prems(2) this, of tr h] True d k show ?thesis by auto
  next
    case False
    then have mid: "cursor c + 1 < pending_len c" "cursor c < 4096" using k Suc.prems by simp_all
    let ?c = "c\<lparr>cursor := cursor c + 1\<rparr>"
    have kk: "pending_len c - Suc (cursor c) = k" using k by simp
    then have "k = pending_len ?c - cursor ?c" "console_inv ?c" using Suc.prems mid by (auto simp: console_inv_def)
    from Suc.hyps(1) [OF this] Suc.prems mid obtain c' h' where
      "recv_many hal tr k ?c h = Some (map (Inr \<circ> Some) (drop (cursor c + 1) (take (pending_len c) ?bs)), c', h')"
      "console_inv c'" "receive_token c' \<noteq> None" "cursor c' = pending_len c'"
      by (auto simp: kk)
    then show ?thesis using recv_mid [OF Suc.prems(2) mid law(2), of tr h] d k by simp
  qed
qed simp

section \<open>Properties\<close>

text \<open>
  C32. When the device has answered the receive request with \<open>n\<close> bytes, the next \<open>n\<close> calls of \<open>recv\<close> return exactly the
  first \<open>n\<close> bytes of the page, in order, and after the last of them the page is lent to the device again.
\<close>

theorem console_receives:
  assumes "console_inv c" and "answered c n" and "n \<noteq> 0" and "unat n \<le> 4096" and law: "hal_box_law hal" "load_law hal"
  shows "\<exists>c1 h1 c' h'. finish_receive hal c h = Some (Inr True, c1, h1)
    \<and> recv_many hal tr (unat n) c h = Some (map (Inr \<circ> Some) (take (unat n) (mem_load hal (rx_slice c) h1)), c', h')
    \<and> console_inv c' \<and> receive_token c' \<noteq> None \<and> cursor c' = pending_len c'"
proof -
  obtain c1 h1 where F: "finish_receive hal c h = Some (Inr True, c1, h1)" "console_inv c1" "receive_token c1 = None"
    "cursor c1 = 0" "pending_len c1 = unat n" "rx_slice c1 = rx_slice c"
    using finish_receive_takes [OF assms(1-3), of hal h] by blast
  have "unat n \<noteq> 0" using assms(3) by (simp add: unat_eq_0)
  then obtain k where k: "unat n = Suc k" by (cases "unat n") auto
  have "recv hal tr True c h = recv hal tr True c1 h1" using F(1,3) by (simp add: recv_def finish_receive_def [of hal c1])
  then have "recv_many hal tr (unat n) c h = recv_many hal tr (unat n) c1 h1" by (simp add: k)
  moreover have "\<exists>c' h'. recv_many hal tr (unat n) c1 h1
      = Some (map (Inr \<circ> Some) (take (unat n) (mem_load hal (rx_slice c) h1)), c', h')
    \<and> console_inv c' \<and> receive_token c' \<noteq> None \<and> cursor c' = pending_len c'"
    using recv_rest [OF F(2) law F(3), of tr h1] F(4-6) assms(4) k by simp
  ultimately show ?thesis using F(1) by auto
qed

lemma recv_beyond:
  assumes "receive_token c = None" and "cursor c \<le> 4096" and "4096 < pending_len c" and "load_law hal"
  shows "recv_many hal tr (4097 - cursor c) c h = None"
  using assms(1-3)
proof (induction "4096 - cursor c" arbitrary: c)
  case 0
  then have c: "cursor c = 4096" by simp
  have "length (mem_load hal (rx_slice c) h) = 4096" using assms(4) by (simp add: load_law_def rx_slice_def page_size(2))
  then have "recv hal tr True c h = None" using 0 c by (simp add: recv_def finish_receive_def)
  then show ?case by (simp add: c)
next
  case (Suc k)
  let ?c = "c\<lparr>cursor := cursor c + 1\<rparr>"
  have k: "4097 - cursor c = Suc (4097 - cursor ?c)" "k = 4096 - cursor ?c" "cursor c + 1 < pending_len c" "cursor c < 4096"
    using Suc by simp_all
  have "recv_many hal tr (4097 - cursor ?c) ?c h = None" using Suc.hyps(1) [OF k(2)] Suc.prems k by simp
  then show ?case unfolding k(1) using recv_mid [OF Suc.prems(1) k(3,4) assms(4), of tr h] by simp
qed

text \<open>
  The driver trusts the length the device reports. An answer of no bytes makes \<open>recv\<close> panic at once, and an answer
  of more bytes than the page has makes it panic once the bytes of the page are used up.
\<close>

theorem console_trusts_length:
  assumes "console_inv c" and "answered c n" and "load_law hal"
  shows "(n = 0 \<longrightarrow> recv hal tr pop c h = None) \<and> (4096 < unat n \<longrightarrow> recv_many hal tr 4097 c h = None)"
proof (intro conjI impI)
  assume n: "n = 0"
  have "finish_receive hal c h = None"
  proof -
    let ?tok = "ucast (used_id (next_used (receiveq c))) :: u16"
    obtain fl f where f: "vq_inv (receiveq c) fl ([] @ f # [])" "token_of f = ?tok" "bufs_of f = [(rx_slice c, DeviceToDriver)]"
      using assms(1,2) by (auto simp: console_inv_def answered_def)
    have bs: "input_output [] [rx_slice c] = bufs_of f" using f(3) by (simp add: input_output_def)
    have pop: "can_pop (receiveq c)" "receive_token c = Some ?tok" "n = used_len (next_used (receiveq c))" using assms(2) by (auto simp: answered_def)
    from pop_used_success [OF f(1) bs pop(1) f(2) [symmetric], of hal h] obtain q' where
      "pop_used hal ?tok [] [rx_slice c] (receiveq c) h = Some (Inr n, q', unshare_flight hal (access_platform (receiveq c)) f h)"
      using f(2) pop(3) by auto
    then show ?thesis using peek_used_ok [OF vq_invD(1) [OF f(1)]] pop n by (simp add: finish_receive_def assert_def)
  qed
  then show "recv hal tr pop c h = None" by (simp add: recv_def)
next
  assume n: "4096 < unat n"
  then have "n \<noteq> 0" by auto
  from finish_receive_takes [OF assms(1,2) this, of hal h] obtain c1 h1 where F: "finish_receive hal c h = Some (Inr True, c1, h1)"
    "receive_token c1 = None" "cursor c1 = 0" "pending_len c1 = unat n" by blast
  have "recv hal tr True c h = recv hal tr True c1 h1" using F(1,2) by (simp add: recv_def finish_receive_def [of hal c1])
  then have "recv_many hal tr (Suc 4096) c h = recv_many hal tr (Suc 4096) c1 h1" by (simp only: recv_many.simps)
  then show "recv_many hal tr 4097 c h = None" using recv_beyond [OF F(2) _ _ assms(3), of tr h1] F(3,4) n by simp
qed

section \<open>A concrete console\<close>

text \<open>A console whose request the device has answered with \<open>n\<close> bytes.\<close>

definition demo_console :: "register_write list virtio_console" where
  "demo_console = \<lparr>con_transport = [], con_features = 0, receiveq = sample_queue False, transmitq = sample_queue False,
     rx_page = 0x8000, cursor = 0, pending_len = 0, receive_token = None\<rparr>"

lemma demo_answered: obtains c :: "register_write list virtio_console" where "console_inv c" "answered c n"
proof -
  have "console_inv demo_console" using sample_inv [of False] by (auto simp: console_inv_def demo_console_def)
  from poll_retrieve_lends [OF this bump_hal_laws(2), of "recording 0 (\<lambda>_. 256) False" 0] obtain c :: "register_write list virtio_console" and tok where
    c: "console_inv c" "receive_token c = Some tok" by (auto simp: demo_console_def)
  obtain fl f where f: "vq_inv (receiveq c) fl [f]" "token_of f = tok" "bufs_of f = [(rx_slice c, DeviceToDriver)]" "cursor c = pending_len c"
    using c by (auto simp: console_inv_def)
  let ?u = "(vq_used (receiveq c))\<lparr>used_idx := last_used_idx (receiveq c) + 1, used_slots := replicate (SIZE (receiveq c)) \<lparr>used_id = ucast tok, used_len = n\<rparr>\<rparr>"
  let ?q = "(receiveq c)\<lparr>vq_used := ?u\<rparr>"
  have q: "vq_inv ?q fl [f]" by (rule vq_inv_device [OF f(1)]) simp
  have "unat (last_used_idx (receiveq c)) mod SIZE (receiveq c) < SIZE (receiveq c)" using shape_size [OF vq_invD(1) [OF f(1)]] by simp
  then have "next_used ?q = \<lparr>used_id = ucast tok, used_len = n\<rparr>" by (simp add: next_used_def)
  moreover have "console_inv (c\<lparr>receiveq := ?q\<rparr>)" using c(2) f(2-4) q by (auto simp: console_inv_def)
  ultimately show thesis using that [of "c\<lparr>receiveq := ?q\<rparr>"] c(2) by (simp add: answered_def can_pop_def ucast_u16_u32_u16)
qed

lemma bump_load: "load_law bump_hal"
  by (simp add: load_law_def bump_hal_def)

theorem console_receives_witness:
  "\<exists>(c :: register_write list virtio_console) c' h'. answered c 5
     \<and> recv_many bump_hal (recording 0 (\<lambda>_. 256) False) 5 c 0 = Some (map (Inr \<circ> Some) [0, 0, 0, 0, 0], c', h') \<and> receive_token c' \<noteq> None"
proof -
  obtain c :: "register_write list virtio_console" where c: "console_inv c" "answered c 5" by (rule demo_answered)
  have ld: "take 5 (mem_load bump_hal (rx_slice c) h1) = [0, 0, 0, 0, 0]" for h1
  proof -
    have "take 5 (mem_load bump_hal (rx_slice c) h1) = replicate 5 0" by (simp add: bump_hal_def rx_slice_def page_size(2))
    also have "replicate 5 (0 :: u8) = [0, 0, 0, 0, 0]" by (simp add: numeral_eq_Suc)
    finally show ?thesis .
  qed
  obtain c' h' where "recv_many bump_hal (recording 0 (\<lambda>_. 256) False) 5 c 0 = Some (map (Inr \<circ> Some) [0, 0, 0, 0, 0], c', h')" "receive_token c' \<noteq> None"
    using console_receives [OF c _ _ bump_hal_laws(2) bump_load, of 0 "recording 0 (\<lambda>_. 256) False"] by (auto simp: ld)
  with c(2) show ?thesis by blast
qed

theorem console_trusts_length_witness:
  "\<exists>c c' :: register_write list virtio_console. answered c 0 \<and> recv bump_hal (recording 0 (\<lambda>_. 256) False) True c 0 = None
     \<and> answered c' 5000 \<and> recv_many bump_hal (recording 0 (\<lambda>_. 256) False) 4097 c' 0 = None"
proof -
  obtain c :: "register_write list virtio_console" where c: "console_inv c" "answered c 0" by (rule demo_answered)
  obtain c' :: "register_write list virtio_console" where c': "console_inv c'" "answered c' 5000" by (rule demo_answered)
  show ?thesis
    using console_trusts_length [OF c bump_load, of "recording 0 (\<lambda>_. 256) False" True 0] c(2)
      console_trusts_length [OF c' bump_load, of "recording 0 (\<lambda>_. 256) False" True 0] c'(2) by auto
qed

end
