(* ===== verification/Virt_Input.thy ===== *)
theory Virt_Input
  imports Device_Common
begin

text \<open>
  The driver of input devices (\<open>src/virtio-drivers/src/device/input.rs\<close>). The driver lends the device 32 buffers for
  events, which lie one after the other in a box at address \<open>event_buf\<close>, and asks for properties of the device through a
  window in the configuration space.
\<close>

section \<open>Messages\<close>

record input_event =
  event_type :: u16
  code :: u16
  value_of :: u32

definition event_from :: "u8 list \<Rightarrow> input_event" where
  "event_from bs = \<lparr>event_type = le_field 0 2 bs, code = le_field 2 2 bs, value_of = le_field 4 4 bs\<rparr>"

record abs_info =
  abs_min :: u32
  abs_max :: u32
  abs_fuzz :: u32
  abs_flat :: u32
  abs_res :: u32

definition abs_info_from :: "u8 list \<Rightarrow> abs_info" where
  "abs_info_from bs = \<lparr>abs_min = le_field 0 4 bs, abs_max = le_field 4 4 bs, abs_fuzz = le_field 8 4 bs,
     abs_flat = le_field 12 4 bs, abs_res = le_field 16 4 bs\<rparr>"

record dev_ids =
  bustype :: u16
  vendor :: u16
  product :: u16
  version :: u16

definition dev_ids_from :: "u8 list \<Rightarrow> dev_ids" where
  "dev_ids_from bs = \<lparr>bustype = le_field 0 2 bs, vendor = le_field 2 2 bs, product = le_field 4 2 bs, version = le_field 6 2 bs\<rparr>"

datatype config_select = IdName | IdSerial | IdDevids | PropBits | EvBits | AbsInfo

fun select_bits :: "config_select \<Rightarrow> u8" where
  "select_bits IdName = 0x01"
| "select_bits IdSerial = 0x02"
| "select_bits IdDevids = 0x03"
| "select_bits PropBits = 0x10"
| "select_bits EvBits = 0x11"
| "select_bits AbsInfo = 0x12"

section \<open>State and set-up\<close>

definition QUEUE_EVENT :: u16 where "QUEUE_EVENT = 0"
definition QUEUE_STATUS :: u16 where "QUEUE_STATUS = 1"
definition INPUT_QUEUE_SIZE :: nat where "INPUT_QUEUE_SIZE = 32"
definition CONFIG_DATA_MAX_LENGTH :: nat where "CONFIG_DATA_MAX_LENGTH = 128"

definition input_supported_features :: u64 where
  "input_supported_features = RING_EVENT_IDX OR RING_INDIRECT_DESC OR VERSION_1 OR ACCESS_PLATFORM"

record 't virtio_input =
  in_transport :: 't
  in_event_queue :: virt_queue
  in_status_queue :: virt_queue
  event_buf :: u64

definition event_slice :: "u64 \<Rightarrow> nat \<Rightarrow> slice" where
  "event_slice p i = \<lparr>slice_ptr = p + of_nat (8 * i), slice_len = 8\<rparr>"

text \<open>The loop of \<open>new\<close> over the events still to be lent.\<close>

fun input_fill :: "'h hal \<Rightarrow> u64 \<Rightarrow> nat list \<Rightarrow> virt_queue \<Rightarrow> 'h \<Rightarrow> (unit result \<times> virt_queue \<times> 'h) option" where
  "input_fill hal p [] q h = Some (Inr (), q, h)"
| "input_fill hal p (i # rest) q h = do {
     (r, q, h) \<leftarrow> add hal [] [event_slice p i] q h;
     (case r of
        Inl e \<Rightarrow> Some (Inl e, q, h)
      | Inr token \<Rightarrow> do { assert (token = of_nat i); input_fill hal p rest q h })
   }"

definition input_new :: "'h hal \<Rightarrow> 't transport \<Rightarrow> 't \<Rightarrow> 'h \<Rightarrow> ('t virtio_input result \<times> 't \<times> 'h) option" where
  "input_new hal tr t h = do {
     let (b, h) = new_box hal 256 h;
     p \<leftarrow> b;
     let h = mem_store hal p (replicate 256 0) h;
     let (negotiated, t) = begin_init tr common_features input_supported_features t;
     (r, t, h) \<leftarrow> features_queue hal tr INPUT_QUEUE_SIZE QUEUE_EVENT negotiated t h;
     (case r of Inl e \<Rightarrow> Some (Inl e, t, drop_box hal p h) | Inr eq \<Rightarrow> do {
       (r, t, h) \<leftarrow> features_queue hal tr INPUT_QUEUE_SIZE QUEUE_STATUS negotiated t h;
       (case r of Inl e \<Rightarrow> do { h \<leftarrow> queue_drop hal eq h; Some (Inl e, t, drop_box hal p h) } | Inr sq \<Rightarrow> do {
         (r, eq, h) \<leftarrow> input_fill hal p [0..<INPUT_QUEUE_SIZE] eq h;
         (case r of
            Inl e \<Rightarrow> do { h \<leftarrow> queue_drop hal sq h; h \<leftarrow> queue_drop hal eq h; Some (Inl e, t, drop_box hal p h) }
          | Inr _ \<Rightarrow>
              let t = (if should_notify eq then notify tr QUEUE_EVENT t else t);
                  t = finish_init tr t in
              Some (Inr \<lparr>in_transport = t, in_event_queue = eq, in_status_queue = sq, event_buf = p\<rparr>, t, h))
       })
     })
   }"

definition input_ack_interrupt :: "'t transport \<Rightarrow> 't virtio_input \<Rightarrow> u32 \<times> 't virtio_input" where
  "input_ack_interrupt tr v = (let (s, t) = ack_interrupt tr (in_transport v) in (s, v\<lparr>in_transport := t\<rparr>))"

definition input_drop :: "'h hal \<Rightarrow> 't transport \<Rightarrow> 't virtio_input \<Rightarrow> 'h \<Rightarrow> ('t \<times> 'h) option" where
  "input_drop hal tr v h = do {
     let t = queue_unset tr QUEUE_STATUS (queue_unset tr QUEUE_EVENT (in_transport v));
     h \<leftarrow> queue_drop hal (in_event_queue v) h;
     h \<leftarrow> queue_drop hal (in_status_queue v) h;
     Some (t, drop_box hal (event_buf v) h)
   }"

section \<open>Events\<close>

definition pop_pending_event :: "'h hal \<Rightarrow> 't transport \<Rightarrow> 't virtio_input \<Rightarrow> 'h
    \<Rightarrow> (input_event option \<times> 't virtio_input \<times> 'h) option" where
  "pop_pending_event hal tr v h = do {
     peek \<leftarrow> peek_used (in_event_queue v);
     (case peek of
        None \<Rightarrow> Some (None, v, h)
      | Some token \<Rightarrow> do {
          assert (unat token < INPUT_QUEUE_SIZE);
          let event = event_slice (event_buf v) (unat token);
          (r, q, h) \<leftarrow> pop_used hal token [] [event] (in_event_queue v) h;
          let v = v\<lparr>in_event_queue := q\<rparr>;
          (case r of
             Inl _ \<Rightarrow> Some (None, v, h)
           | Inr _ \<Rightarrow> do {
               let event_saved = event_from (mem_load hal event h);
               (r, q, h) \<leftarrow> add hal [] [event] (in_event_queue v) h;
               let v = v\<lparr>in_event_queue := q\<rparr>;
               (case r of
                  Inl _ \<Rightarrow> Some (None, v, h)
                | Inr new_token \<Rightarrow> do {
                    assert (new_token = token);
                    let t = (if should_notify (in_event_queue v) then notify tr QUEUE_EVENT (in_transport v) else in_transport v);
                    Some (Some event_saved, v\<lparr>in_transport := t\<rparr>, h)
                  })
             })
        })
   }"

section \<open>Properties of the device\<close>

text \<open>\<open>n\<close> single bytes of the configuration space from the given offset on.\<close>

fun read_data :: "'t transport \<Rightarrow> nat \<Rightarrow> nat \<Rightarrow> 't \<Rightarrow> u8 list result \<times> 't" where
  "read_data tr off 0 t = (Inr [], t)"
| "read_data tr off (Suc n) t =
     (case read_config tr off 1 t of
        (Inl e, t) \<Rightarrow> (Inl e, t)
      | (Inr b, t) \<Rightarrow>
          (case read_data tr (off + 1) n t of (Inl e, t) \<Rightarrow> (Inl e, t) | (Inr bs, t) \<Rightarrow> (Inr (b # bs), t)))"

text \<open>The three accesses every query begins with.\<close>

definition select_size :: "'t transport \<Rightarrow> config_select \<Rightarrow> u8 \<Rightarrow> 't \<Rightarrow> u8 result \<times> 't" where
  "select_size tr select subsel t =
     (case write_config tr 0 (le8 (select_bits select)) t of
        (Inl e, t) \<Rightarrow> (Inl e, t)
      | (Inr _, t) \<Rightarrow>
          (case write_config tr 1 (le8 subsel) t of
             (Inl e, t) \<Rightarrow> (Inl e, t)
           | (Inr _, t) \<Rightarrow> read_config tr 2 1 t))"

text \<open>\<open>query_config_select\<close> into a buffer of \<open>n\<close> bytes: the size the device reports and the bytes that were copied.\<close>

definition query_config_select :: "'t transport \<Rightarrow> config_select \<Rightarrow> u8 \<Rightarrow> nat \<Rightarrow> 't \<Rightarrow> (u8 \<times> u8 list) result \<times> 't" where
  "query_config_select tr select subsel n t =
     (case select_size tr select subsel t of
        (Inl e, t) \<Rightarrow> (Inl e, t)
      | (Inr sz, t) \<Rightarrow>
          (case read_data tr 8 (min (unat sz) n) t of (Inl e, t) \<Rightarrow> (Inl e, t) | (Inr bs, t) \<Rightarrow> (Inr (sz, bs), t)))"

definition query_config_select_alloc :: "'t transport \<Rightarrow> config_select \<Rightarrow> u8 \<Rightarrow> 't \<Rightarrow> u8 list result \<times> 't" where
  "query_config_select_alloc tr select subsel t =
     (case select_size tr select subsel t of
        (Inl e, t) \<Rightarrow> (Inl e, t)
      | (Inr sz, t) \<Rightarrow> if CONFIG_DATA_MAX_LENGTH < unat sz then (Inl IoError, t) else read_data tr 8 (unat sz) t)"

text \<open>A string that is not valid UTF-8 is an \<open>IoError\<close> (the conversion in \<open>src/virtio-drivers/src/lib.rs\<close>).\<close>

definition query_config_string :: "'t transport \<Rightarrow> config_select \<Rightarrow> u8 \<Rightarrow> 't \<Rightarrow> u8 list result \<times> 't" where
  "query_config_string tr select subsel t =
     (case query_config_select_alloc tr select subsel t of
        (Inl e, t) \<Rightarrow> (Inl e, t)
      | (Inr bs, t) \<Rightarrow> if valid_utf8 bs then (Inr bs, t) else (Inl IoError, t))"

definition input_name :: "'t transport \<Rightarrow> 't \<Rightarrow> u8 list result \<times> 't" where
  "input_name tr t = query_config_string tr IdName 0 t"

definition serial_number :: "'t transport \<Rightarrow> 't \<Rightarrow> u8 list result \<times> 't" where
  "serial_number tr t = query_config_string tr IdSerial 0 t"

definition input_ids :: "'t transport \<Rightarrow> 't \<Rightarrow> dev_ids result \<times> 't" where
  "input_ids tr t =
     (case query_config_select tr IdDevids 0 8 t of
        (Inl e, t) \<Rightarrow> (Inl e, t)
      | (Inr (sz, bs), t) \<Rightarrow> if unat sz = 8 then (Inr (dev_ids_from bs), t) else (Inl IoError, t))"

definition prop_bits :: "'t transport \<Rightarrow> 't \<Rightarrow> u8 list result \<times> 't" where
  "prop_bits tr t = query_config_select_alloc tr PropBits 0 t"

definition ev_bits :: "'t transport \<Rightarrow> u8 \<Rightarrow> 't \<Rightarrow> u8 list result \<times> 't" where
  "ev_bits tr ty t = query_config_select_alloc tr EvBits ty t"

definition input_abs_info :: "'t transport \<Rightarrow> u8 \<Rightarrow> 't \<Rightarrow> abs_info result \<times> 't" where
  "input_abs_info tr axis t =
     (case query_config_select tr AbsInfo axis 20 t of
        (Inl e, t) \<Rightarrow> (Inl e, t)
      | (Inr (sz, bs), t) \<Rightarrow> if unat sz = 20 then (Inr (abs_info_from bs), t) else (Inl IoError, t))"

end
