(* ===== verification/Virt_Input_Spec.thy ===== *)
theory Virt_Input_Spec
  imports Virt_Input
begin

text \<open>
  What the driver of input devices promises: all 32 event buffers are lent to the device between any two calls, buffer
  \<open>i\<close> under token \<open>i\<close>, and every event the device returns is handed out once, from the buffer it was written to. A token
  that is none of the 32 buffers stops the driver with a panic.
\<close>

section \<open>The event queue\<close>

definition event_buffers :: "'t virtio_input \<Rightarrow> owning_queue" where
  "event_buffers v = \<lparr>queue = in_event_queue v, buffers = map (\<lambda>i. event_buf v + of_nat (8 * i)) [0..<INPUT_QUEUE_SIZE]\<rparr>"

definition input_inv :: "'t virtio_input \<Rightarrow> bool" where
  "input_inv v \<longleftrightarrow> owning_inv 8 (event_buffers v) []"

lemma event_slice_buffer:
  assumes "i < INPUT_QUEUE_SIZE"
  shows "event_slice (event_buf v) i = \<lparr>slice_ptr = buffers (event_buffers v) ! i, slice_len = 8\<rparr>"
  using assms by (simp add: event_slice_def event_buffers_def)

lemma event_buffers_cong [simp]:
  "event_buffers (v\<lparr>in_transport := t\<rparr>) = event_buffers v"
  "event_buffers (v\<lparr>in_event_queue := q\<rparr>) = (event_buffers v)\<lparr>queue := q\<rparr>"
  "queue (event_buffers v) = in_event_queue v"
  by (simp_all add: event_buffers_def)

lemma input_size: "owning_inv 8 (event_buffers v) l \<Longrightarrow> SIZE (in_event_queue v) = INPUT_QUEUE_SIZE"
  by (simp add: owning_inv_def event_buffers_def)

lemma input_fill_ok:
  assumes "vq_inv q (map of_nat [i..<SIZE q]) fs" and "i \<le> SIZE q" and "hal_box_law hal"
    and "\<forall>f \<in> set fs. owns 8 (map (\<lambda>i. p + of_nat (8 * i)) [0..<SIZE q]) (token_of f) f"
  shows "\<exists>q' h'. input_fill hal p [i..<SIZE q] q h = Some (Inr (), q', h') \<and> SIZE q' = SIZE q
    \<and> owning_inv 8 \<lparr>queue = q', buffers = map (\<lambda>i. p + of_nat (8 * i)) [0..<SIZE q]\<rparr> [] \<and> same_config q q'"
  using assms
proof (induction "SIZE q - i" arbitrary: i q fs h)
  case 0
  then show ?case by (auto simp: owning_inv_def same_config_def)
next
  case (Suc k)
  then have i: "i < SIZE q" by simp
  then have ups: "[i..<SIZE q] = i # [Suc i..<SIZE q]" by (rule upt_conv_Cons)
  have "SIZE q \<le> 2 ^ 15" using shape_size [OF vq_invD(1) [OF Suc.prems(1)]] by simp
  then have ui: "unat (of_nat i :: u16) = i" using i by (simp add: unat_of_nat)
  obtain q1 h1 f where A: "add hal [] [event_slice p i] q h = Some (Inr (of_nat i), q1, h1)"
    "vq_inv q1 (map of_nat [Suc i..<SIZE q]) (f # fs)" "SIZE q1 = SIZE q" "ids f = [of_nat i]" "token_of f = of_nat i"
    "added q f q1" "bufs_of f = [(event_slice p i, DeviceToDriver)]"
    using add_single [of q "of_nat i" "map of_nat [Suc i..<SIZE q]" fs 8 hal "p + of_nat (8 * i)" h] Suc.prems ups
    by (auto simp: event_slice_def)
  have own: "\<forall>g \<in> set (f # fs). owns 8 (map (\<lambda>i. p + of_nat (8 * i)) [0..<SIZE q1]) (token_of g) g"
    using Suc.prems(4) A(3-5,7) ui i by (auto simp: owns_def event_slice_def)
  have "k = SIZE q1 - Suc i" using Suc.hyps(2) A(3) by simp
  from Suc.hyps(1) [OF this, of "f # fs" h1] A(2,3) own Suc.prems(3) i
  obtain q' h' where "input_fill hal p [Suc i..<SIZE q] q1 h1 = Some (Inr (), q', h')" "SIZE q' = SIZE q"
    "owning_inv 8 \<lparr>queue = q', buffers = map (\<lambda>i. p + of_nat (8 * i)) [0..<SIZE q]\<rparr> []" "same_config q1 q'" by auto
  moreover have "same_config q q1" using A(6) by (simp add: added_def same_config_def)
  ultimately show ?case using A(1) ups by (auto simp: same_config_def assert_def)
qed

lemma pop_pending_event_ok:
  assumes inv: "input_inv v" and law: "hal_box_law hal" and pop: "can_pop (in_event_queue v)"
    and tok: "unat (ucast (used_id (next_used (in_event_queue v))) :: u16) < INPUT_QUEUE_SIZE"
  shows "\<exists>v' q' h1 h'. (let tok = ucast (used_id (next_used (in_event_queue v))); b = event_slice (event_buf v) (unat tok) in
    pop_used hal tok [] [b] (in_event_queue v) h = Some (Inr (used_len (next_used (in_event_queue v))), q', h1)
    \<and> pop_pending_event hal tr v h = Some (Some (event_from (mem_load hal b h1)), v', h')
    \<and> input_inv v' \<and> event_buf v' = event_buf v \<and> last_used_idx q' = last_used_idx (in_event_queue v')
    \<and> in_transport v' = (if should_notify (in_event_queue v') then notify tr QUEUE_EVENT (in_transport v) else in_transport v))"
proof -
  let ?tok = "ucast (used_id (next_used (in_event_queue v))) :: u16"
  let ?b = "event_slice (event_buf v) (unat ?tok)"
  note oi = inv [unfolded input_inv_def]
  have b: "?b = \<lparr>slice_ptr = buffers (event_buffers v) ! unat ?tok, slice_len = 8\<rparr>" by (rule event_slice_buffer [OF tok])
  obtain q1 h1 where P: "pop_used hal ?tok [] [?b] (in_event_queue v) h
      = Some (Inr (used_len (next_used (in_event_queue v))), q1, h1)"
    "owning_inv 8 ((event_buffers v)\<lparr>queue := q1\<rparr>) [?tok]"
    using owning_take [OF oi, of hal h] pop tok input_size [OF oi] by (auto simp: Let_def b)
  obtain q2 h2 where A: "add hal [] [?b] q1 h1 = Some (Inr ?tok, q2, h2)"
    "owning_inv 8 ((event_buffers v)\<lparr>queue := q2\<rparr>) []" "same_config q1 q2"
    using owning_give [OF P(2) law, of h1] by (auto simp: b)
  have "shape_ok (in_event_queue v)" using oi vq_invD(1) by (auto simp: owning_inv_def)
  then have "peek_used (in_event_queue v) = Some (Some ?tok)" using peek_used_ok pop by metis
  with P(1) A tok show ?thesis
    by (auto simp: pop_pending_event_def Let_def assert_def input_inv_def same_config_def)
qed

lemma input_new_run:
  assumes law: "hal_dma_law hal" "hal_dealloc_law hal" "hal_box_law hal"
  shows "\<exists>r t' h'. input_new hal tr t h = Some (r, t', h')
    \<and> (case r of Inl e \<Rightarrow> e \<in> {AlreadyUsed, InvalidParam, DmaError} | Inr v \<Rightarrow> input_inv v \<and> in_transport v = t')"
proof -
  have n: "INPUT_QUEUE_SIZE < 2 ^ 16" "is_power_of_two (of_nat INPUT_QUEUE_SIZE :: u16)"
    by (simp_all add: INPUT_QUEUE_SIZE_def is_power_of_two_def)
  obtain p h1 where box: "new_box hal 256 h = (Some p, h1)"
    using law(3) unfolding hal_box_law_def by (metis not_None_eq prod.collapse)
  obtain nf t1 where init: "begin_init tr common_features input_supported_features t = (nf, t1)" by (rule prod.exhaust)
  obtain r t2 h2 where E: "features_queue hal tr INPUT_QUEUE_SIZE QUEUE_EVENT nf t1 (mem_store hal p (replicate 256 0) h1) = Some (r, t2, h2)"
    "case r of Inl e \<Rightarrow> e \<in> {AlreadyUsed, InvalidParam, DmaError}
       | Inr q \<Rightarrow> vq_inv q (map of_nat [0..<SIZE q]) [] \<and> SIZE q = INPUT_QUEUE_SIZE"
    by (rule features_queue_total [OF n law(1,2)])
  show ?thesis
  proof (cases r)
    case (Inr eq)
    obtain r' t3 h3 where S: "features_queue hal tr INPUT_QUEUE_SIZE QUEUE_STATUS nf t2 h2 = Some (r', t3, h3)"
      "case r' of Inl e \<Rightarrow> e \<in> {AlreadyUsed, InvalidParam, DmaError}
         | Inr q \<Rightarrow> vq_inv q (map of_nat [0..<SIZE q]) [] \<and> SIZE q = INPUT_QUEUE_SIZE"
      by (rule features_queue_total [OF n law(1,2)])
    obtain h4 where "queue_drop hal eq h3 = Some h4" using queue_drop_total [OF law(2)] by metis
    moreover obtain q' h5 where "input_fill hal p [0..<INPUT_QUEUE_SIZE] eq h3 = Some (Inr (), q', h5)"
      "owning_inv 8 \<lparr>queue = q', buffers = map (\<lambda>i. p + of_nat (8 * i)) [0..<INPUT_QUEUE_SIZE]\<rparr> []"
      using input_fill_ok [of eq 0 "[]" hal p h3] law(3) E(2) Inr by auto
    ultimately show ?thesis using S box init E(1) Inr
      by (cases r') (simp_all add: input_new_def Let_def input_inv_def event_buffers_def)
  qed (use box init E in \<open>simp add: input_new_def Let_def\<close>)
qed

section \<open>Properties\<close>

text \<open>
  C31. One call of \<open>pop_pending_event\<close> when all event buffers are with the device. Nothing is used: it returns nothing and
  changes nothing. The device returns token \<open>i\<close> of one of the 32 buffers: the event is read from buffer \<open>i\<close> after the
  descriptor came back, the buffer goes to the device again under the same token (the assertion of the code holds), the
  device is notified if it asked for it, and again all buffers are with the device. The device returns a token that is
  no buffer: the driver panics.
\<close>

theorem input_events:
  assumes inv: "input_inv v" and law: "hal_box_law hal"
  defines "token \<equiv> ucast (used_id (next_used (in_event_queue v))) :: u16"
    and "b \<equiv> event_slice (event_buf v) (unat (ucast (used_id (next_used (in_event_queue v))) :: u16))"
  shows "if \<not> can_pop (in_event_queue v) then pop_pending_event hal tr v h = Some (None, v, h)
    else if INPUT_QUEUE_SIZE \<le> unat token then pop_pending_event hal tr v h = None
    else \<exists>v' q' h1 h' n. pop_used hal token [] [b] (in_event_queue v) h = Some (Inr n, q', h1)
      \<and> pop_pending_event hal tr v h = Some (Some (event_from (mem_load hal b h1)), v', h')
      \<and> input_inv v' \<and> event_buf v' = event_buf v
      \<and> in_transport v' = (if should_notify (in_event_queue v') then notify tr QUEUE_EVENT (in_transport v) else in_transport v)"
proof -
  have "shape_ok (in_event_queue v)" using inv vq_invD(1) by (auto simp: owning_inv_def input_inv_def)
  note peek = peek_used_ok [OF this]
  show ?thesis
    using pop_pending_event_ok [OF inv law, of h tr] peek
    by (fastforce simp: pop_pending_event_def token_def b_def Let_def assert_def)
qed

text \<open>A driver over a new queue of 32 descriptors, for the witnesses.\<close>

definition sample_input_queue :: virt_queue where
  "sample_input_queue = fresh_queue sample_layout 32 0 False True False"

lemma sample_input:
  obtains q bufs where "owning_inv 8 \<lparr>queue = q, buffers = bufs\<rparr> []" "SIZE q = 32" "same_config sample_input_queue q"
    "bufs = map (\<lambda>i. 64 + of_nat (8 * i)) [0..<32]"
proof -
  have i: "vq_inv sample_input_queue (map of_nat [0..<SIZE sample_input_queue]) []" "SIZE sample_input_queue = 32"
    using fresh_inv [of 32 sample_layout 0 False True False]
    by (simp_all add: sample_input_queue_def is_power_of_two_def fresh_available)
  from input_fill_ok [OF i(1) _ bump_hal_laws(2), of 64 0] i(2) obtain q where
    "owning_inv 8 \<lparr>queue = q, buffers = map (\<lambda>i. 64 + of_nat (8 * i)) [0..<32]\<rparr> []" "SIZE q = 32" "same_config sample_input_queue q"
    by auto
  then show thesis by (rule that) simp
qed

lemma sample_event: "event_from (replicate 8 0) = \<lparr>event_type = 0, code = 0, value_of = 0\<rparr>"
  by (simp add: event_from_def le_field_def numeral_eq_Suc)

theorem input_events_witness:
  "\<exists>v v' h'. input_inv v \<and> can_pop (in_event_queue v)
    \<and> pop_pending_event bump_hal (recording 0 (\<lambda>_. 256) False) v 0
        = Some (Some \<lparr>event_type = 0, code = 0, value_of = 0\<rparr>, v', h') \<and> input_inv v'"
proof -
  obtain q bufs where q: "owning_inv 8 \<lparr>queue = q, buffers = bufs\<rparr> []" "SIZE q = 32" "same_config sample_input_queue q"
    and bufs: "bufs = map (\<lambda>i. 64 + of_nat (8 * i)) [0..<32]" by (rule sample_input)
  let ?oq = "device_returns 5 8 \<lparr>queue = q, buffers = bufs\<rparr>"
  define v where "v = \<lparr>in_transport = [] :: register_write list, in_event_queue = queue ?oq,
    in_status_queue = sample_input_queue, event_buf = 64\<rparr>"
  obtain fs where fs: "vq_inv q [] fs" using q(1) by (auto simp: owning_inv_def)
  have "length (used_slots (vq_used q)) = 32" using vq_invD(1) [OF fs] q(2) by (simp add: shape_ok_def)
  moreover have "used_idx (vq_used q) = 0" "last_used_idx q = 0"
    using q(3) by (simp_all add: same_config_def sample_input_queue_def fresh_queue_def)
  ultimately have d: "can_pop (in_event_queue v)" "next_used (in_event_queue v) = \<lparr>used_id = 5, used_len = 8\<rparr>" "event_buf v = 64"
    using q(2) by (simp_all add: v_def device_returns_def can_pop_def next_used_def)
  have "event_buffers v = ?oq"
    unfolding v_def event_buffers_def device_returns_def INPUT_QUEUE_SIZE_def bufs by (simp del: upt_rec_numeral)
  then have inv: "input_inv v" using device_returns_inv [OF q(1), of 5 8] by (simp only: input_inv_def)
  have e: "event_from (mem_load bump_hal (event_slice 64 5) h1) = \<lparr>event_type = 0, code = 0, value_of = 0\<rparr>" for h1
    by (simp add: bump_hal_def event_slice_def sample_event)
  from input_events [OF inv bump_hal_laws(2), where h = 0 and tr = "recording 0 (\<lambda>_. 256) False"] d
  obtain v' h' where "pop_pending_event bump_hal (recording 0 (\<lambda>_. 256) False) v 0
      = Some (Some \<lparr>event_type = 0, code = 0, value_of = 0\<rparr>, v', h')" "input_inv v'"
    by (auto simp: INPUT_QUEUE_SIZE_def e)
  with inv d(1) show ?thesis by blast
qed

text \<open>
  Whatever the device offers, \<open>new\<close> does not panic: it fails with \<open>AlreadyUsed\<close>, \<open>InvalidParam\<close> or \<open>DmaError\<close> for one
  of the two queues, or hands out a driver that has lent all 32 event buffers to the device, each under the token the
  code asserts.
\<close>

theorem input_new_lends_all:
  assumes "hal_dma_law hal" "hal_dealloc_law hal" "hal_box_law hal"
  shows "\<exists>r t' h'. input_new hal tr t h = Some (r, t', h')
    \<and> (case r of Inl e \<Rightarrow> e \<in> {AlreadyUsed, InvalidParam, DmaError} | Inr v \<Rightarrow> input_inv v \<and> in_transport v = t')"
  by (rule input_new_run [OF assms])

theorem input_new_lends_all_witness:
  "\<exists>r t' h'. input_new bump_hal (recording 0 (\<lambda>_. 256) False) [] 0x10000 = Some (r, t', h')
    \<and> (case r of Inl e \<Rightarrow> e \<in> {AlreadyUsed, InvalidParam, DmaError} | Inr v \<Rightarrow> input_inv v \<and> in_transport v = t')"
  by (rule input_new_lends_all [OF bump_hal_law bump_hal_laws])

end
