(* ===== verification/Virt_Blk.thy ===== *)
theory Virt_Blk
  imports Exchange
begin

text \<open>
  The drivers of block devices (\<open>src/virtio-drivers/src/device/blk.rs\<close>) and of random number generators (\<open>rng.rs\<close>). The
  blocking operations work over an exchange with the device; the others add to the queue and complete requests there.
\<close>

section \<open>Messages\<close>

datatype req_type = In | Out | Flush | GetId | GetLifetime | Discard | WriteZeroes | SecureErase

fun req_type_bits :: "req_type \<Rightarrow> u32" where
  "req_type_bits In = 0"
| "req_type_bits Out = 1"
| "req_type_bits Flush = 4"
| "req_type_bits GetId = 8"
| "req_type_bits GetLifetime = 10"
| "req_type_bits Discard = 11"
| "req_type_bits WriteZeroes = 13"
| "req_type_bits SecureErase = 14"

record blk_req =
  req_type :: req_type
  req_reserved :: u32
  req_sector :: u64

definition default_req :: blk_req where
  "default_req = \<lparr>req_type = In, req_reserved = 0, req_sector = 0\<rparr>"

definition blk_req_bytes :: "blk_req \<Rightarrow> u8 list" where
  "blk_req_bytes r = le32 (req_type_bits (req_type r)) @ le32 (req_reserved r) @ le64 (req_sector r)"

definition STATUS_OK :: u8 where "STATUS_OK = 0"
definition STATUS_IO_ERR :: u8 where "STATUS_IO_ERR = 1"
definition STATUS_UNSUPPORTED :: u8 where "STATUS_UNSUPPORTED = 2"
definition STATUS_NOT_READY :: u8 where "STATUS_NOT_READY = 3"

definition status_result :: "u8 \<Rightarrow> unit result" where
  "status_result s =
     (if s = STATUS_OK then Inr () else if s = STATUS_IO_ERR then Inl IoError
      else if s = STATUS_UNSUPPORTED then Inl Unsupported else if s = STATUS_NOT_READY then Inl NotReady else Inl IoError)"

definition default_resp :: "u8 list" where "default_resp = [STATUS_NOT_READY]"

section \<open>State and set-up\<close>

definition BLK_QUEUE :: u16 where "BLK_QUEUE = 0"
definition BLK_QUEUE_SIZE :: u16 where "BLK_QUEUE_SIZE = 16"
definition SECTOR_SIZE :: nat where "SECTOR_SIZE = 512"

definition BLK_RO :: u64 where "BLK_RO = push_bit 5 1"
definition BLK_FLUSH :: u64 where "BLK_FLUSH = push_bit 9 1"

text \<open>All flags the type knows: the bits 0 to 2, 4 to 7 and 9 to 16, and the device-independent ones.\<close>

definition blk_features :: u64 where
  "blk_features = 0x1FEF7 OR common_features"

definition blk_supported_features :: u64 where
  "blk_supported_features = BLK_RO OR BLK_FLUSH OR RING_INDIRECT_DESC OR RING_EVENT_IDX OR VERSION_1 OR ACCESS_PLATFORM"

record virtio_blk =
  blk_capacity :: u64
  blk_negotiated :: u64

definition read_capacity :: "'t transport \<Rightarrow> 't \<Rightarrow> u64 result \<times> 't" where
  "read_capacity tr t =
     (case read_config tr 0 4 t of
        (Inl e, t) \<Rightarrow> (Inl e, t)
      | (Inr (low :: u32), t) \<Rightarrow>
          (case read_config tr 4 4 t of
             (Inl e, t) \<Rightarrow> (Inl e, t)
           | (Inr (high :: u32), t) \<Rightarrow> (Inr (ucast low OR push_bit 32 (ucast high)), t)))"

definition blk_new :: "'h hal \<Rightarrow> 't transport \<Rightarrow> 't \<Rightarrow> 'h
    \<Rightarrow> ((virtio_blk \<times> ('t, 'h) device_world) result \<times> 't \<times> 'h) option" where
  "blk_new hal tr t h = do {
     let (negotiated, t) = begin_init tr blk_features blk_supported_features t;
     (r, t) \<leftarrow> read_consistent tr (read_capacity tr) t;
     (case r of Inl e \<Rightarrow> Some (Inl e, t, h) | Inr capacity \<Rightarrow> do {
       (r, t, h) \<leftarrow> features_queue hal tr (unat BLK_QUEUE_SIZE) BLK_QUEUE negotiated t h;
       (case r of
          Inl e \<Rightarrow> Some (Inl e, t, h)
        | Inr q \<Rightarrow>
            let t = finish_init tr t in
            Some (Inr (\<lparr>blk_capacity = capacity, blk_negotiated = negotiated\<rparr>,
              \<lparr>world_transport = t, world_queue = q, world_platform = h\<rparr>), t, h))
     })
   }"

definition capacity :: "virtio_blk \<Rightarrow> u64" where "capacity b = blk_capacity b"

definition readonly :: "virtio_blk \<Rightarrow> bool" where "readonly b = contains (blk_negotiated b) BLK_RO"

definition blk_virt_queue_size :: u16 where "blk_virt_queue_size = BLK_QUEUE_SIZE"

text \<open>What the drivers with one queue do to the queue and to the transport alone.\<close>

definition blk_ack_interrupt :: "'t transport \<Rightarrow> ('t, 'h) device_world \<Rightarrow> u32 \<times> ('t, 'h) device_world" where
  "blk_ack_interrupt tr w = (let (s, t) = ack_interrupt tr (world_transport w) in (s, w\<lparr>world_transport := t\<rparr>))"

definition enable_interrupts :: "('t, 'h) device_world \<Rightarrow> ('t, 'h) device_world" where
  "enable_interrupts w = w\<lparr>world_queue := set_dev_notify True (world_queue w)\<rparr>"

definition disable_interrupts :: "('t, 'h) device_world \<Rightarrow> ('t, 'h) device_world" where
  "disable_interrupts w = w\<lparr>world_queue := set_dev_notify False (world_queue w)\<rparr>"

definition blk_peek_used :: "('t, 'h) device_world \<Rightarrow> u16 option option" where
  "blk_peek_used w = peek_used (world_queue w)"

definition blk_drop :: "'h hal \<Rightarrow> 't transport \<Rightarrow> ('t, 'h) device_world \<Rightarrow> ('t \<times> 'h) option" where
  "blk_drop hal tr w = do {
     let t = queue_unset tr BLK_QUEUE (world_transport w);
     h \<leftarrow> queue_drop hal (world_queue w) (world_platform w);
     Some (t, h)
   }"

section \<open>Blocking requests\<close>

text \<open>The status is the single byte of the last buffer of the answer, which has the size the driver gave it.\<close>

definition answer_status :: "nat \<Rightarrow> u8 list list \<Rightarrow> unit result option" where
  "answer_status i outs = do { resp \<leftarrow> get outs i; s \<leftarrow> get resp 0; Some (status_result s) }"

definition blk_request :: "'w exchange \<Rightarrow> blk_req \<Rightarrow> 'w \<Rightarrow> (unit result \<times> 'w) option" where
  "blk_request xch req w = do {
     (r, w) \<leftarrow> xch [blk_req_bytes req] [default_resp] w;
     (case r of
        Inl e \<Rightarrow> Some (Inl e, w)
      | Inr (_, outs) \<Rightarrow> do { s \<leftarrow> answer_status 0 outs; Some (s, w) })
   }"

text \<open>
  The second component of the result is what is in the buffer of the caller afterwards; after an error of the exchange
  itself, what the device may have written there is not looked at.
\<close>

definition request_read :: "'w exchange \<Rightarrow> blk_req \<Rightarrow> u8 list \<Rightarrow> 'w \<Rightarrow> (unit result \<times> u8 list \<times> 'w) option" where
  "request_read xch req data w = do {
     (r, w) \<leftarrow> xch [blk_req_bytes req] [data, default_resp] w;
     (case r of
        Inl e \<Rightarrow> Some (Inl e, data, w)
      | Inr (_, outs) \<Rightarrow> do { data \<leftarrow> get outs 0; s \<leftarrow> answer_status 1 outs; Some (s, data, w) })
   }"

definition request_write :: "'w exchange \<Rightarrow> blk_req \<Rightarrow> u8 list \<Rightarrow> 'w \<Rightarrow> (unit result \<times> 'w) option" where
  "request_write xch req data w = do {
     (r, w) \<leftarrow> xch [blk_req_bytes req, data] [default_resp] w;
     (case r of
        Inl e \<Rightarrow> Some (Inl e, w)
      | Inr (_, outs) \<Rightarrow> do { s \<leftarrow> answer_status 0 outs; Some (s, w) })
   }"

definition flush :: "'w exchange \<Rightarrow> virtio_blk \<Rightarrow> 'w \<Rightarrow> (unit result \<times> 'w) option" where
  "flush xch b w =
     (if contains (blk_negotiated b) BLK_FLUSH then blk_request xch (default_req\<lparr>req_type := Flush\<rparr>) w else Some (Inr (), w))"

text \<open>\<open>position\<close> of the first zero byte.\<close>

definition id_length :: "u8 list \<Rightarrow> nat" where
  "id_length bs = (if 0 \<in> set bs then length (takeWhile (\<lambda>x. x \<noteq> 0) bs) else 20)"

definition device_id :: "'w exchange \<Rightarrow> u8 list \<Rightarrow> 'w \<Rightarrow> (nat result \<times> u8 list \<times> 'w) option" where
  "device_id xch buf w = do {
     (r, buf, w) \<leftarrow> request_read xch (default_req\<lparr>req_type := GetId\<rparr>) buf w;
     Some (case r of Inl e \<Rightarrow> Inl e | Inr _ \<Rightarrow> Inr (id_length buf), buf, w)
   }"

definition read_blocks :: "'w exchange \<Rightarrow> u64 \<Rightarrow> u8 list \<Rightarrow> 'w \<Rightarrow> (unit result \<times> u8 list \<times> 'w) option" where
  "read_blocks xch block_id buf w = do {
     assert (length buf \<noteq> 0);
     assert (length buf mod SECTOR_SIZE = 0);
     request_read xch \<lparr>req_type = In, req_reserved = 0, req_sector = block_id\<rparr> buf w
   }"

definition write_blocks :: "'w exchange \<Rightarrow> u64 \<Rightarrow> u8 list \<Rightarrow> 'w \<Rightarrow> (unit result \<times> 'w) option" where
  "write_blocks xch block_id buf w = do {
     assert (length buf \<noteq> 0);
     assert (length buf mod SECTOR_SIZE = 0);
     request_write xch (default_req\<lparr>req_type := Out, req_sector := block_id\<rparr>) buf w
   }"

section \<open>Requests in flight\<close>

text \<open>
  The request, the data and the answer are memory of the caller; a request is stored there, the rest is only handed to
  the device. \<open>blk_submit\<close> is the end the two operations share.
\<close>

definition blk_submit :: "'h hal \<Rightarrow> 't transport \<Rightarrow> slice list \<Rightarrow> slice list \<Rightarrow> ('t, 'h) device_world
    \<Rightarrow> (u16 result \<times> ('t, 'h) device_world) option" where
  "blk_submit hal tr ins outs w = do {
     (r, q, h) \<leftarrow> add hal ins outs (world_queue w) (world_platform w);
     let w = w\<lparr>world_queue := q, world_platform := h\<rparr>;
     (case r of
        Inl e \<Rightarrow> Some (Inl e, w)
      | Inr token \<Rightarrow>
          let t = (if should_notify q then notify tr BLK_QUEUE (world_transport w) else world_transport w) in
          Some (Inr token, w\<lparr>world_transport := t\<rparr>))
   }"

definition read_blocks_nb :: "'h hal \<Rightarrow> 't transport \<Rightarrow> u64 \<Rightarrow> slice \<Rightarrow> slice \<Rightarrow> slice \<Rightarrow> ('t, 'h) device_world
    \<Rightarrow> (u16 result \<times> ('t, 'h) device_world) option" where
  "read_blocks_nb hal tr block_id req buf resp w = do {
     assert (slice_len buf \<noteq> 0);
     assert (unat (slice_len buf) mod SECTOR_SIZE = 0);
     let h = mem_store hal (slice_ptr req) (blk_req_bytes \<lparr>req_type = In, req_reserved = 0, req_sector = block_id\<rparr>) (world_platform w);
     blk_submit hal tr [req] [buf, resp] (w\<lparr>world_platform := h\<rparr>)
   }"

definition write_blocks_nb :: "'h hal \<Rightarrow> 't transport \<Rightarrow> u64 \<Rightarrow> slice \<Rightarrow> slice \<Rightarrow> slice \<Rightarrow> ('t, 'h) device_world
    \<Rightarrow> (u16 result \<times> ('t, 'h) device_world) option" where
  "write_blocks_nb hal tr block_id req buf resp w = do {
     assert (slice_len buf \<noteq> 0);
     assert (unat (slice_len buf) mod SECTOR_SIZE = 0);
     let h = mem_store hal (slice_ptr req) (blk_req_bytes \<lparr>req_type = Out, req_reserved = 0, req_sector = block_id\<rparr>) (world_platform w);
     blk_submit hal tr [req, buf] [resp] (w\<lparr>world_platform := h\<rparr>)
   }"

definition blk_complete :: "'h hal \<Rightarrow> u16 \<Rightarrow> slice list \<Rightarrow> slice list \<Rightarrow> slice \<Rightarrow> ('t, 'h) device_world
    \<Rightarrow> (unit result \<times> ('t, 'h) device_world) option" where
  "blk_complete hal token ins outs resp w = do {
     (r, q, h) \<leftarrow> pop_used hal token ins outs (world_queue w) (world_platform w);
     let w = w\<lparr>world_queue := q, world_platform := h\<rparr>;
     (case r of
        Inl e \<Rightarrow> Some (Inl e, w)
      | Inr _ \<Rightarrow> do { s \<leftarrow> get (mem_load hal resp h) 0; Some (status_result s, w) })
   }"

definition complete_read_blocks :: "'h hal \<Rightarrow> u16 \<Rightarrow> slice \<Rightarrow> slice \<Rightarrow> slice \<Rightarrow> ('t, 'h) device_world
    \<Rightarrow> (unit result \<times> ('t, 'h) device_world) option" where
  "complete_read_blocks hal token req buf resp w = blk_complete hal token [req] [buf, resp] resp w"

definition complete_write_blocks :: "'h hal \<Rightarrow> u16 \<Rightarrow> slice \<Rightarrow> slice \<Rightarrow> slice \<Rightarrow> ('t, 'h) device_world
    \<Rightarrow> (unit result \<times> ('t, 'h) device_world) option" where
  "complete_write_blocks hal token req buf resp w = blk_complete hal token [req, buf] [resp] resp w"

section \<open>Random numbers\<close>

definition RNG_QUEUE_IDX :: u16 where "RNG_QUEUE_IDX = 0"
definition RNG_QUEUE_SIZE :: nat where "RNG_QUEUE_SIZE = 8"

definition rng_supported_features :: u64 where
  "rng_supported_features = RING_INDIRECT_DESC OR RING_EVENT_IDX OR VERSION_1 OR ACCESS_PLATFORM"

definition rng_new :: "'h hal \<Rightarrow> 't transport \<Rightarrow> 't \<Rightarrow> 'h \<Rightarrow> (('t, 'h) device_world result \<times> 't \<times> 'h) option" where
  "rng_new hal tr t h = do {
     let (feat, t) = begin_init tr common_features rng_supported_features t;
     (r, t, h) \<leftarrow> features_queue hal tr RNG_QUEUE_SIZE RNG_QUEUE_IDX feat t h;
     (case r of
        Inl e \<Rightarrow> Some (Inl e, t, h)
      | Inr q \<Rightarrow>
          let t = finish_init tr t in
          Some (Inr \<lparr>world_transport = t, world_queue = q, world_platform = h\<rparr>, t, h))
   }"

text \<open>The result is the number of bytes the device reports, and the destination afterwards.\<close>

definition request_entropy :: "'w exchange \<Rightarrow> u8 list \<Rightarrow> 'w \<Rightarrow> (nat result \<times> u8 list \<times> 'w) option" where
  "request_entropy xch dst w = do {
     (r, w) \<leftarrow> xch [] [dst] w;
     (case r of
        Inl e \<Rightarrow> Some (Inl e, dst, w)
      | Inr (num, outs) \<Rightarrow> do { dst \<leftarrow> get outs 0; Some (Inr (unat num), dst, w) })
   }"

definition rng_drop :: "'h hal \<Rightarrow> 't transport \<Rightarrow> ('t, 'h) device_world \<Rightarrow> ('t \<times> 'h) option" where
  "rng_drop hal tr w = do {
     let t = queue_unset tr RNG_QUEUE_IDX (world_transport w);
     h \<leftarrow> queue_drop hal (world_queue w) (world_platform w);
     Some (t, h)
   }"

end
