(* ===== verification/Virt_Blk_Spec.thy ===== *)
theory Virt_Blk_Spec
  imports Virt_Blk
begin

text \<open>
  What the block driver promises: over a device that serves requests as the virtio specification describes, the driver
  is a disk. The requests are bytes to the device, so the proofs cover the encoding of the messages.
\<close>

section \<open>The specification: a disk\<close>

definition disk_write :: "nat \<Rightarrow> u8 list \<Rightarrow> u8 list \<Rightarrow> u8 list" where
  "disk_write p bs d = take p d @ bs @ drop (p + length bs) d"

definition disk_read :: "nat \<Rightarrow> nat \<Rightarrow> u8 list \<Rightarrow> u8 list" where
  "disk_read p n d = take n (drop p d)"

definition on_disk :: "u64 \<Rightarrow> nat \<Rightarrow> u8 list \<Rightarrow> bool" where
  "on_disk s n d \<longleftrightarrow> SECTOR_SIZE * unat s + n \<le> length d"

text \<open>How a device with the disk \<open>d\<close> answers one request: the buffers of the answer and the disk afterwards.\<close>

definition disk_serve :: "u8 list list \<Rightarrow> u8 list list \<Rightarrow> u8 list \<Rightarrow> u8 list list \<times> u8 list" where
  "disk_serve ins outs d =
     (let ty = (le_field 0 4 (hd ins) :: u32); s = (le_field 8 8 (hd ins) :: u64); p = SECTOR_SIZE * unat s in
      if ty = 0 \<and> length ins = 1 \<and> length outs = 2 then
        (let n = length (hd outs) in if on_disk s n d then ([disk_read p n d, [0]], d) else ([hd outs, [1]], d))
      else if ty = 1 \<and> length ins = 2 \<and> length outs = 1 then
        (let bs = ins ! 1 in if on_disk s (length bs) d then ([[0]], disk_write p bs d) else ([[1]], d))
      else if ty = 4 \<and> length ins = 1 \<and> length outs = 1 then ([[0]], d)
      else (butlast outs @ [[2]], d))"

definition serves_disk :: "'w exchange \<Rightarrow> ('w \<Rightarrow> u8 list) \<Rightarrow> bool" where
  "serves_disk xch disk \<longleftrightarrow> (\<forall>ins outs w. \<exists>n w'.
     xch ins outs w = Some (Inr (n, fst (disk_serve ins outs (disk w))), w') \<and> disk w' = snd (disk_serve ins outs (disk w)))"

lemma req_fields [simp]:
  "le_field 0 4 (blk_req_bytes r) = req_type_bits (req_type r)" "le_field 8 8 (blk_req_bytes r) = req_sector r"
  using fields_after(2) [of "le32 (req_type_bits (req_type r)) @ le32 (req_reserved r)" 8 "req_sector r" "[]"]
  by (simp_all add: blk_req_bytes_def field_here)

section \<open>The operations\<close>

lemma read_blocks_disk:
  assumes law: "serves_disk xch disk" and n: "buf \<noteq> []" "length buf mod SECTOR_SIZE = 0"
  shows "\<exists>w'. read_blocks xch s buf w =
      (if on_disk s (length buf) (disk w) then Some (Inr (), disk_read (SECTOR_SIZE * unat s) (length buf) (disk w), w')
       else Some (Inl IoError, buf, w')) \<and> disk w' = disk w"
proof -
  let ?r = "\<lparr>req_type = In, req_reserved = 0, req_sector = s\<rparr>"
  obtain k w' where "xch [blk_req_bytes ?r] [buf, default_resp] w
      = Some (Inr (k, fst (disk_serve [blk_req_bytes ?r] [buf, default_resp] (disk w))), w')"
    "disk w' = snd (disk_serve [blk_req_bytes ?r] [buf, default_resp] (disk w))"
    using law unfolding serves_disk_def by meson
  then show ?thesis
    using n by (auto simp: read_blocks_def request_read_def assert_def disk_serve_def Let_def answer_status_def get_def
        status_result_def STATUS_OK_def STATUS_IO_ERR_def)
qed

lemma write_blocks_disk:
  assumes law: "serves_disk xch disk" and n: "buf \<noteq> []" "length buf mod SECTOR_SIZE = 0"
  shows "\<exists>w'. write_blocks xch s buf w = Some (if on_disk s (length buf) (disk w) then Inr () else Inl IoError, w')
    \<and> disk w' = (if on_disk s (length buf) (disk w) then disk_write (SECTOR_SIZE * unat s) buf (disk w) else disk w)"
proof -
  let ?r = "default_req\<lparr>req_type := Out, req_sector := s\<rparr>"
  obtain k w' where "xch [blk_req_bytes ?r, buf] [default_resp] w
      = Some (Inr (k, fst (disk_serve [blk_req_bytes ?r, buf] [default_resp] (disk w))), w')"
    "disk w' = snd (disk_serve [blk_req_bytes ?r, buf] [default_resp] (disk w))"
    using law unfolding serves_disk_def by meson
  then show ?thesis
    using n by (auto simp: write_blocks_def request_write_def assert_def disk_serve_def Let_def answer_status_def get_def
        status_result_def STATUS_OK_def STATUS_IO_ERR_def)
qed

lemma disk_write_length: "p + length bs \<le> length d \<Longrightarrow> length (disk_write p bs d) = length d"
  by (simp add: disk_write_def)

lemma disk_read_same: "p + length bs \<le> length d \<Longrightarrow> disk_read p (length bs) (disk_write p bs d) = bs"
  by (simp add: disk_read_def disk_write_def)

lemma disk_read_other:
  assumes "p + length bs \<le> length d" and "q + n \<le> p \<or> p + length bs \<le> q"
  shows "disk_read q n (disk_write p bs d) = disk_read q n d"
proof (rule nth_equalityI)
  show "length (disk_read q n (disk_write p bs d)) = length (disk_read q n d)"
    using disk_write_length [OF assms(1)] by (simp add: disk_read_def)
  fix i
  assume "i < length (disk_read q n (disk_write p bs d))"
  then have "i < n" "q + i < length d" using disk_write_length [OF assms(1)] by (auto simp: disk_read_def)
  then show "disk_read q n (disk_write p bs d) ! i = disk_read q n d ! i"
    using assms by (auto simp: disk_read_def disk_write_def nth_append)
qed

section \<open>Properties\<close>


text \<open>The device of the specification itself, for the witnesses.\<close>

definition disk_device :: "u8 list exchange" where
  "disk_device ins outs d = Some (Inr (0, fst (disk_serve ins outs d)), snd (disk_serve ins outs d))"

lemma disk_device_serves: "serves_disk disk_device (\<lambda>d. d)"
  by (simp add: serves_disk_def disk_device_def)


text \<open>
  Sectors that were written are read back, and no other sector changes: after a write of \<open>data\<close> at sector \<open>s\<close>, reading
  as many bytes from \<open>s\<close> gives \<open>data\<close>, and reading any range of the disk that does not overlap gives what was there before.
\<close>

theorem blk_read_back:
  assumes law: "serves_disk xch disk" and data: "data \<noteq> []" "length data mod SECTOR_SIZE = 0" "on_disk s (length data) (disk w)"
    and buf: "buf \<noteq> []" "length buf mod SECTOR_SIZE = 0" "on_disk s' (length buf) (disk w)"
  shows "\<exists>w1 w2 bs. write_blocks xch s data w = Some (Inr (), w1) \<and> read_blocks xch s' buf w1 = Some (Inr (), bs, w2)
    \<and> (s' = s \<and> length buf = length data \<longrightarrow> bs = data)
    \<and> (SECTOR_SIZE * unat s' + length buf \<le> SECTOR_SIZE * unat s \<or> SECTOR_SIZE * unat s + length data \<le> SECTOR_SIZE * unat s'
        \<longrightarrow> bs = disk_read (SECTOR_SIZE * unat s') (length buf) (disk w))"
proof -
  let ?p = "SECTOR_SIZE * unat s"
  have p: "?p + length data \<le> length (disk w)" using data(3) by (simp add: on_disk_def)
  obtain w1 where W: "write_blocks xch s data w = Some (Inr (), w1)" "disk w1 = disk_write ?p data (disk w)"
    using write_blocks_disk [OF law data(1,2), of s w] data(3) by auto
  have "on_disk s' (length buf) (disk w1)" using buf(3) disk_write_length [OF p] by (simp add: on_disk_def W(2))
  then obtain w2 where "read_blocks xch s' buf w1 = Some (Inr (), disk_read (SECTOR_SIZE * unat s') (length buf) (disk w1), w2)"
    using read_blocks_disk [OF law buf(1,2), of s' w1] by auto
  with W disk_read_same [OF p] disk_read_other [OF p] show ?thesis by metis
qed

theorem blk_read_back_witness:
  "\<exists>w1 w2. write_blocks disk_device 1 (replicate 512 9) (replicate 1536 7) = Some (Inr (), w1)
    \<and> read_blocks disk_device 1 (replicate 512 0) w1 = Some (Inr (), replicate 512 9, w2)"
  using blk_read_back [OF disk_device_serves, of "replicate 512 9" 1 "replicate 1536 7" "replicate 512 0" 1]
  by (auto simp: SECTOR_SIZE_def on_disk_def)

end
