(* ===== verification/Virt_Net.thy ===== *)
theory Virt_Net
  imports Device_Common
begin

text \<open>
  The drivers of network devices (\<open>src/virtio-drivers/src/device/net/\<close>): \<open>VirtIONetRaw\<close> of \<open>dev_raw.rs\<close>, which moves slices of
  the caller through the two queues, and \<open>VirtIONet\<close> of \<open>dev.rs\<close>, which owns the receive buffers of \<open>net_buf.rs\<close>. Logging is
  left out. The length of a queue, a constant parameter of the types, is the argument \<open>n\<close> of the constructors.
\<close>

section \<open>Constants and headers (mod.rs)\<close>

definition MIN_BUFFER_LEN :: nat where "MIN_BUFFER_LEN = 1526"
definition QUEUE_RECEIVE :: u16 where "QUEUE_RECEIVE = 0"
definition NET_QUEUE_TRANSMIT :: u16 where "NET_QUEUE_TRANSMIT = 1"
definition NET_MAC :: u64 where "NET_MAC = push_bit 5 1"
definition MRG_RXBUF :: u64 where "MRG_RXBUF = push_bit 15 1"
definition NET_STATUS :: u64 where "NET_STATUS = push_bit 16 1"

text \<open>All flags the type knows: the bits 0 to 3 and 5 to 23, and four of the device-independent ones.\<close>

definition net_features :: u64 where
  "net_features = 0xFFFFEF OR RING_INDIRECT_DESC OR RING_EVENT_IDX OR VERSION_1 OR ACCESS_PLATFORM"

definition net_supported_features :: u64 where
  "net_supported_features = NET_MAC OR NET_STATUS OR RING_EVENT_IDX OR RING_INDIRECT_DESC OR VERSION_1 OR ACCESS_PLATFORM"

record virtio_net_hdr =
  hdr_flags :: u8
  gso_type :: u8
  hdr_len :: u16
  gso_size :: u16
  csum_start :: u16
  csum_offset :: u16
  num_buffers :: u16

text \<open>The legacy header is the same without the last field.\<close>

definition hdr_size :: "bool \<Rightarrow> nat" where "hdr_size legacy = (if legacy then 10 else 12)"

definition default_hdr_bytes :: "bool \<Rightarrow> u8 list" where "default_hdr_bytes legacy = replicate (hdr_size legacy) 0"

definition hdr_from :: "bool \<Rightarrow> u8 list \<Rightarrow> virtio_net_hdr option" where
  "hdr_from legacy bs = do {
     assert (hdr_size legacy \<le> length bs);
     Some \<lparr>hdr_flags = le_field 0 1 bs, gso_type = le_field 1 1 bs, hdr_len = le_field 2 2 bs, gso_size = le_field 4 2 bs,
       csum_start = le_field 6 2 bs, csum_offset = le_field 8 2 bs, num_buffers = (if legacy then 0 else le_field 10 2 bs)\<rparr>
   }"

section \<open>The raw driver (\<open>dev_raw.rs\<close>)\<close>

record 't net_raw =
  net_transport :: 't
  mac :: "u8 list"
  recv_queue :: virt_queue
  send_queue :: virt_queue
  legacy_header :: bool

definition net_raw_new :: "'h hal \<Rightarrow> 't transport \<Rightarrow> nat \<Rightarrow> 't \<Rightarrow> 'h \<Rightarrow> ('t net_raw result \<times> 't \<times> 'h) option" where
  "net_raw_new hal tr n t h = do {
     let (negotiated, t) = begin_init tr net_features net_supported_features t;
     (r, t) \<leftarrow> read_consistent tr (read_config_space tr 0 6) t;
     (case r of Inl e \<Rightarrow> Some (Inl e, t, h) | Inr address \<Rightarrow>
       (case read_config tr 6 2 t of (Inl e, t) \<Rightarrow> Some (Inl e, t, h) | (Inr (status :: u16), t) \<Rightarrow> do {
         (r, t, h) \<leftarrow> features_queue hal tr n NET_QUEUE_TRANSMIT negotiated t h;
         (case r of Inl e \<Rightarrow> Some (Inl e, t, h) | Inr sq \<Rightarrow> do {
           (r, t, h) \<leftarrow> features_queue hal tr n QUEUE_RECEIVE negotiated t h;
           (case r of Inl e \<Rightarrow> do { h \<leftarrow> queue_drop hal sq h; Some (Inl e, t, h) } | Inr rq \<Rightarrow>
             let t = finish_init tr t in
             Some (Inr \<lparr>net_transport = t, mac = address, recv_queue = rq, send_queue = sq,
               legacy_header = (\<not> contains negotiated VERSION_1 \<and> \<not> contains negotiated MRG_RXBUF)\<rparr>, t, h))
         })
       }))
   }"

definition net_ack_interrupt :: "'t transport \<Rightarrow> 't net_raw \<Rightarrow> u32 \<times> 't net_raw" where
  "net_ack_interrupt tr v = (let (s, t) = ack_interrupt tr (net_transport v) in (s, v\<lparr>net_transport := t\<rparr>))"

definition net_disable_interrupts :: "'t net_raw \<Rightarrow> 't net_raw" where
  "net_disable_interrupts v = v\<lparr>send_queue := set_dev_notify False (send_queue v), recv_queue := set_dev_notify False (recv_queue v)\<rparr>"

definition net_enable_interrupts :: "'t net_raw \<Rightarrow> 't net_raw" where
  "net_enable_interrupts v = v\<lparr>send_queue := set_dev_notify True (send_queue v), recv_queue := set_dev_notify True (recv_queue v)\<rparr>"

definition mac_address :: "'t net_raw \<Rightarrow> u8 list" where "mac_address v = mac v"

definition can_send :: "'t net_raw \<Rightarrow> bool" where "can_send v \<longleftrightarrow> 2 \<le> available_desc (send_queue v)"

definition check_rx_buf_len :: "slice \<Rightarrow> unit result" where
  "check_rx_buf_len s = (if unat (slice_len s) < MIN_BUFFER_LEN then Inl InvalidParam else Inr ())"

definition check_tx_buf_len :: "'t net_raw \<Rightarrow> slice \<Rightarrow> unit result" where
  "check_tx_buf_len v s = (if unat (slice_len s) < hdr_size (legacy_header v) then Inl InvalidParam else Inr ())"

text \<open>The number of bytes and the buffer afterwards.\<close>

definition fill_buffer_header :: "'t net_raw \<Rightarrow> u8 list \<Rightarrow> nat result \<times> u8 list" where
  "fill_buffer_header v buf =
     (let k = hdr_size (legacy_header v) in
      if length buf < k then (Inl InvalidParam, buf) else (Inr k, default_hdr_bytes (legacy_header v) @ drop k buf))"

definition transmit_begin :: "'h hal \<Rightarrow> 't transport \<Rightarrow> slice \<Rightarrow> 't net_raw \<Rightarrow> 'h \<Rightarrow> (u16 result \<times> 't net_raw \<times> 'h) option" where
  "transmit_begin hal tr tx_buf v h =
     (case check_tx_buf_len v tx_buf of
        Inl e \<Rightarrow> Some (Inl e, v, h)
      | Inr _ \<Rightarrow> do {
          (r, q, h) \<leftarrow> add hal [tx_buf] [] (send_queue v) h;
          let v = v\<lparr>send_queue := q\<rparr>;
          (case r of
             Inl e \<Rightarrow> Some (Inl e, v, h)
           | Inr token \<Rightarrow>
               let t = (if should_notify q then notify tr NET_QUEUE_TRANSMIT (net_transport v) else net_transport v) in
               Some (Inr token, v\<lparr>net_transport := t\<rparr>, h))
        })"

definition poll_transmit :: "'t net_raw \<Rightarrow> u16 option option" where "poll_transmit v = peek_used (send_queue v)"

definition transmit_complete :: "'h hal \<Rightarrow> u16 \<Rightarrow> slice \<Rightarrow> 't net_raw \<Rightarrow> 'h \<Rightarrow> (nat result \<times> 't net_raw \<times> 'h) option" where
  "transmit_complete hal token tx_buf v h = do {
     (r, q, h) \<leftarrow> pop_used hal token [tx_buf] [] (send_queue v) h;
     Some (case r of Inl e \<Rightarrow> Inl e | Inr n \<Rightarrow> Inr (unat n), v\<lparr>send_queue := q\<rparr>, h)
   }"

definition receive_begin :: "'h hal \<Rightarrow> 't transport \<Rightarrow> slice \<Rightarrow> 't net_raw \<Rightarrow> 'h \<Rightarrow> (u16 result \<times> 't net_raw \<times> 'h) option" where
  "receive_begin hal tr rx_buf v h =
     (case check_rx_buf_len rx_buf of
        Inl e \<Rightarrow> Some (Inl e, v, h)
      | Inr _ \<Rightarrow> do {
          (r, q, h) \<leftarrow> add hal [] [rx_buf] (recv_queue v) h;
          let v = v\<lparr>recv_queue := q\<rparr>;
          (case r of
             Inl e \<Rightarrow> Some (Inl e, v, h)
           | Inr token \<Rightarrow>
               let t = (if should_notify q then notify tr QUEUE_RECEIVE (net_transport v) else net_transport v) in
               Some (Inr token, v\<lparr>net_transport := t\<rparr>, h))
        })"

definition poll_receive :: "'t net_raw \<Rightarrow> u16 option option" where "poll_receive v = peek_used (recv_queue v)"

text \<open>The lengths of the header and of the packet.\<close>

definition receive_complete :: "'h hal \<Rightarrow> u16 \<Rightarrow> slice \<Rightarrow> 't net_raw \<Rightarrow> 'h \<Rightarrow> ((nat \<times> nat) result \<times> 't net_raw \<times> 'h) option" where
  "receive_complete hal token rx_buf v h = do {
     (r, q, h) \<leftarrow> pop_used hal token [] [rx_buf] (recv_queue v) h;
     let v = v\<lparr>recv_queue := q\<rparr>;
     Some (case r of
         Inl e \<Rightarrow> Inl e
       | Inr n \<Rightarrow> let k = hdr_size (legacy_header v) in if unat n < k then Inl IoError else Inr (k, unat n - k), v, h)
   }"

definition net_raw_send :: "'h hal \<Rightarrow> 't transport \<Rightarrow> (virt_queue \<Rightarrow> virt_queue) \<Rightarrow> slice \<Rightarrow> 't net_raw \<Rightarrow> 'h
    \<Rightarrow> (unit result \<times> 't net_raw \<times> 'h) option" where
  "net_raw_send hal tr device tx_buf v h = do {
     let bytes = default_hdr_bytes (legacy_header v);
     let p = stack_slot hal (length bytes) h;
     let h = mem_store hal p bytes h;
     let header = \<lparr>slice_ptr = p, slice_len = of_nat (length bytes)\<rparr>;
     (r, q, t, h) \<leftarrow> (if slice_len tx_buf = 0 then add_notify_wait_pop hal tr device [header] [] (send_queue v) (net_transport v) h
                     else add_notify_wait_pop hal tr device [header, tx_buf] [] (send_queue v) (net_transport v) h);
     Some (case r of Inl e \<Rightarrow> Inl e | Inr _ \<Rightarrow> Inr (), v\<lparr>send_queue := q, net_transport := t\<rparr>, h)
   }"

definition receive_wait :: "'h hal \<Rightarrow> 't transport \<Rightarrow> (virt_queue \<Rightarrow> virt_queue) \<Rightarrow> slice \<Rightarrow> 't net_raw \<Rightarrow> 'h
    \<Rightarrow> ((nat \<times> nat) result \<times> 't net_raw \<times> 'h) option" where
  "receive_wait hal tr device rx_buf v h = do {
     (r, v, h) \<leftarrow> receive_begin hal tr rx_buf v h;
     (case r of
        Inl e \<Rightarrow> Some (Inl e, v, h)
      | Inr token \<Rightarrow> do {
          q \<leftarrow> wait_can_pop device (recv_queue v);
          receive_complete hal token rx_buf (v\<lparr>recv_queue := q\<rparr>) h
        })
   }"

text \<open>The destructor, and then those of the fields.\<close>

definition net_raw_drop :: "'h hal \<Rightarrow> 't transport \<Rightarrow> 't net_raw \<Rightarrow> 'h \<Rightarrow> ('t \<times> 'h) option" where
  "net_raw_drop hal tr v h = do {
     let t = queue_unset tr NET_QUEUE_TRANSMIT (queue_unset tr QUEUE_RECEIVE (net_transport v));
     h \<leftarrow> queue_drop hal (recv_queue v) h;
     h \<leftarrow> queue_drop hal (send_queue v) h;
     Some (t, h)
   }"

section \<open>Receive buffers (\<open>net_buf.rs\<close>)\<close>

text \<open>\<open>rx_ptr\<close> is the address of the \<open>rx_words\<close> words of the vector.\<close>

record rx_buffer =
  rx_ptr :: u64
  rx_words :: nat
  rx_packet_len :: nat
  rx_idx :: u16
  rx_legacy :: bool

definition rx_bytes :: "rx_buffer \<Rightarrow> slice" where
  "rx_bytes b = \<lparr>slice_ptr = rx_ptr b, slice_len = of_nat (8 * rx_words b)\<rparr>"

definition rx_buffer_new :: "'h hal \<Rightarrow> nat \<Rightarrow> nat \<Rightarrow> bool \<Rightarrow> 'h \<Rightarrow> (rx_buffer \<times> 'h) option" where
  "rx_buffer_new hal i buf_len legacy h = do {
     let words = buf_len div 8;
     let (b, h) = new_box hal (of_nat (8 * words)) h;
     p \<leftarrow> b;
     let h = mem_store hal p (replicate (8 * words) 0) h;
     assert (i < 2 ^ 16);
     Some (\<lparr>rx_ptr = p, rx_words = words, rx_packet_len = 0, rx_idx = of_nat i, rx_legacy = legacy\<rparr>, h)
   }"

definition set_packet_len :: "nat \<Rightarrow> rx_buffer \<Rightarrow> rx_buffer" where
  "set_packet_len n b = b\<lparr>rx_packet_len := n\<rparr>"

definition rx_header :: "'h hal \<Rightarrow> 'h \<Rightarrow> rx_buffer \<Rightarrow> virtio_net_hdr option" where
  "rx_header hal h b = hdr_from (rx_legacy b) (mem_load hal (rx_bytes b) h)"

text \<open>The bytes of the packet; a range that ends outside the buffer is a panic.\<close>

definition packet :: "'h hal \<Rightarrow> 'h \<Rightarrow> rx_buffer \<Rightarrow> u8 list option" where
  "packet hal h b = do {
     let bs = mem_load hal (rx_bytes b) h;
     let k = hdr_size (rx_legacy b);
     assert (k + rx_packet_len b \<le> length bs);
     Some (take (rx_packet_len b) (drop k bs))
   }"

section \<open>The driver with buffers (\<open>dev.rs\<close>)\<close>

record 't virtio_net =
  net_inner :: "'t net_raw"
  rx_buffers :: "rx_buffer option list"

fun drop_rx :: "'h hal \<Rightarrow> rx_buffer option list \<Rightarrow> 'h \<Rightarrow> 'h" where
  "drop_rx hal [] h = h"
| "drop_rx hal (None # bs) h = drop_rx hal bs h"
| "drop_rx hal (Some b # bs) h = drop_rx hal bs (drop_box hal (rx_ptr b) h)"

text \<open>The loop of \<open>new\<close>: \<open>is\<close> are the places still to fill.\<close>

fun net_fill :: "'h hal \<Rightarrow> 't transport \<Rightarrow> nat \<Rightarrow> nat list \<Rightarrow> rx_buffer option list \<Rightarrow> 't net_raw \<Rightarrow> 'h
    \<Rightarrow> (unit result \<times> rx_buffer option list \<times> 't net_raw \<times> 'h) option" where
  "net_fill hal tr buf_len [] bufs v h = Some (Inr (), bufs, v, h)"
| "net_fill hal tr buf_len (i # is) bufs v h = do {
     (b, h) \<leftarrow> rx_buffer_new hal i buf_len (legacy_header v) h;
     (r, v, h) \<leftarrow> receive_begin hal tr (rx_bytes b) v h;
     (case r of
        Inl e \<Rightarrow> Some (Inl e, bufs, v, drop_box hal (rx_ptr b) h)
      | Inr token \<Rightarrow> do {
          assert (token = of_nat i);
          net_fill hal tr buf_len is (bufs[i := Some b]) v h
        })
   }"

definition net_new :: "'h hal \<Rightarrow> 't transport \<Rightarrow> nat \<Rightarrow> nat \<Rightarrow> 't \<Rightarrow> 'h \<Rightarrow> ('t virtio_net result \<times> 't \<times> 'h) option" where
  "net_new hal tr n buf_len t h = do {
     (r, t, h) \<leftarrow> net_raw_new hal tr n t h;
     (case r of Inl e \<Rightarrow> Some (Inl e, t, h) | Inr v \<Rightarrow> do {
       (r, bufs, v, h) \<leftarrow> net_fill hal tr buf_len [0..<n] (replicate n None) v h;
       (case r of
          Inl e \<Rightarrow> do { let h = drop_rx hal bufs h; (t, h) \<leftarrow> net_raw_drop hal tr v h; Some (Inl e, t, h) }
        | Inr _ \<Rightarrow> Some (Inr \<lparr>net_inner = v, rx_buffers = bufs\<rparr>, net_transport v, h))
     })
   }"

definition can_recv :: "'t virtio_net \<Rightarrow> bool option" where
  "can_recv d = do { p \<leftarrow> poll_receive (net_inner d); Some (p \<noteq> None) }"

definition receive :: "'h hal \<Rightarrow> 't virtio_net \<Rightarrow> 'h \<Rightarrow> (rx_buffer result \<times> 't virtio_net \<times> 'h) option" where
  "receive hal d h = do {
     p \<leftarrow> poll_receive (net_inner d);
     (case p of
        None \<Rightarrow> Some (Inl NotReady, d, h)
      | Some token \<Rightarrow> do {
          place \<leftarrow> get (rx_buffers d) (unat token);
          let d = d\<lparr>rx_buffers := (rx_buffers d)[unat token := None]\<rparr>;
          (case place of
             None \<Rightarrow> Some (Inl WrongToken, d, h)
           | Some b \<Rightarrow>
               if token \<noteq> rx_idx b then Some (Inl WrongToken, d, drop_box hal (rx_ptr b) h)
               else do {
                 (r, v, h) \<leftarrow> receive_complete hal token (rx_bytes b) (net_inner d) h;
                 let d = d\<lparr>net_inner := v\<rparr>;
                 (case r of
                    Inl e \<Rightarrow> Some (Inl e, d, drop_box hal (rx_ptr b) h)
                  | Inr (_, pkt_len) \<Rightarrow> Some (Inr (set_packet_len pkt_len b), d, h))
               })
        })
   }"

definition recycle_rx_buffer :: "'h hal \<Rightarrow> 't transport \<Rightarrow> rx_buffer \<Rightarrow> 't virtio_net \<Rightarrow> 'h
    \<Rightarrow> (unit result \<times> 't virtio_net \<times> 'h) option" where
  "recycle_rx_buffer hal tr b d h = do {
     (r, v, h) \<leftarrow> receive_begin hal tr (rx_bytes b) (net_inner d) h;
     let d = d\<lparr>net_inner := v\<rparr>;
     (case r of
        Inl e \<Rightarrow> Some (Inl e, d, drop_box hal (rx_ptr b) h)
      | Inr new_token \<Rightarrow> do {
          place \<leftarrow> get (rx_buffers d) (unat new_token);
          if place \<noteq> None then Some (Inl WrongToken, d, drop_box hal (rx_ptr b) h)
          else Some (Inr (), d\<lparr>rx_buffers := (rx_buffers d)[unat new_token := Some (b\<lparr>rx_idx := new_token\<rparr>)]\<rparr>, h)
        })
   }"

definition net_send :: "'h hal \<Rightarrow> 't transport \<Rightarrow> (virt_queue \<Rightarrow> virt_queue) \<Rightarrow> slice \<Rightarrow> 't virtio_net \<Rightarrow> 'h
    \<Rightarrow> (unit result \<times> 't virtio_net \<times> 'h) option" where
  "net_send hal tr device tx_buf d h = do {
     (r, v, h) \<leftarrow> net_raw_send hal tr device tx_buf (net_inner d) h;
     Some (r, d\<lparr>net_inner := v\<rparr>, drop_box hal (slice_ptr tx_buf) h)
   }"

text \<open>The fields are dropped in order: first the queues, then the buffers.\<close>

definition net_drop :: "'h hal \<Rightarrow> 't transport \<Rightarrow> 't virtio_net \<Rightarrow> 'h \<Rightarrow> ('t \<times> 'h) option" where
  "net_drop hal tr d h = do {
     (t, h) \<leftarrow> net_raw_drop hal tr (net_inner d) h;
     Some (t, drop_rx hal (rx_buffers d) h)
   }"

end
