(* ===== verification/Virt_Net_Spec.thy ===== *)
theory Virt_Net_Spec
  imports Virt_Net
begin

text \<open>
  What the network driver promises about its receive buffers: a buffer is either with the device, in the place of its
  token, or with the caller; every answer of the device hands over exactly the buffer of its token, and a buffer given
  back is with the device again. The driver trusts the length the device reports.
\<close>

section \<open>The invariant\<close>

definition lends :: "bool \<Rightarrow> rx_buffer option list \<Rightarrow> flight \<Rightarrow> bool" where
  "lends legacy bufs f \<longleftrightarrow> ids f = [token_of f] \<and> (\<exists>b. bufs ! unat (token_of f) = Some b \<and> rx_idx b = token_of f
     \<and> rx_legacy b = legacy \<and> bufs_of f = [(rx_bytes b, DeviceToDriver)])"

definition net_inv :: "'t virtio_net \<Rightarrow> u16 list \<Rightarrow> bool" where
  "net_inv d fl \<longleftrightarrow> length (rx_buffers d) = SIZE (recv_queue (net_inner d)) \<and> (\<forall>i \<in> set fl. rx_buffers d ! unat i = None)
     \<and> (\<exists>fs. vq_inv (recv_queue (net_inner d)) fl fs \<and> (\<forall>f \<in> set fs. lends (legacy_header (net_inner d)) (rx_buffers d) f))"

lemma lends_other: "lends l bufs f \<Longrightarrow> i \<noteq> token_of f \<Longrightarrow> lends l (bufs[unat i := x]) f"
  by (simp add: lends_def) (metis nth_list_update_neq word_unat_eq_iff)

lemma net_token:
  assumes "vq_inv q fl fs" and "\<forall>f \<in> set fs. lends l bufs f" and "unat i < SIZE q" and "i \<notin> set fl"
  obtains fs1 f fs2 where "fs = fs1 @ f # fs2" and "token_of f = i" and "\<forall>g \<in> set (fs1 @ fs2). token_of g \<noteq> i"
proof -
  have "i \<in> set (occupied fs)" using vq_invD(4) [OF assms(1)] assms(3,4) by auto
  then obtain f where f: "f \<in> set fs" "token_of f = i" using assms(2) by (auto simp: occupied_def lends_def)
  then obtain fs1 fs2 where s: "fs = fs1 @ f # fs2" by (meson split_list)
  have "distinct (map token_of fs)"
    using vq_invD(3) [OF assms(1)] assms(2) by (intro distinct_concat_heads) (auto simp: occupied_def lends_def)
  then have n: "i \<notin> token_of ` set (fs1 @ fs2)" using f(2) by (auto simp: s)
  show thesis
  proof (rule that [OF s f(2)])
    show "\<forall>g \<in> set (fs1 @ fs2). token_of g \<noteq> i" using n by (metis image_eqI)
  qed
qed

section \<open>Receiving and giving back\<close>

lemma receive_complete_ok:
  assumes inv: "net_inv d fl" and pop: "can_pop (recv_queue (net_inner d))"
    and tok: "tok = ucast (used_id (next_used (recv_queue (net_inner d))))" "unat tok < SIZE (recv_queue (net_inner d))" "tok \<notin> set fl"
  shows "\<exists>b q' h'. rx_buffers d ! unat tok = Some b \<and> rx_idx b = tok \<and> rx_legacy b = legacy_header (net_inner d)
    \<and> pop_used hal tok [] [rx_bytes b] (recv_queue (net_inner d)) h
        = Some (Inr (used_len (next_used (recv_queue (net_inner d)))), q', h')
    \<and> net_inv (d\<lparr>net_inner := (net_inner d)\<lparr>recv_queue := q'\<rparr>, rx_buffers := (rx_buffers d)[unat tok := None]\<rparr>) (tok # fl)"
proof -
  let ?q = "recv_queue (net_inner d)"
  obtain fs where fs: "vq_inv ?q fl fs" "\<forall>f \<in> set fs. lends (legacy_header (net_inner d)) (rx_buffers d) f" and len: "length (rx_buffers d) = SIZE ?q"
    and free: "\<forall>i \<in> set fl. rx_buffers d ! unat i = None"
    using inv by (auto simp: net_inv_def)
  obtain fs1 f fs2 where F: "fs = fs1 @ f # fs2" "token_of f = tok" "\<forall>g \<in> set (fs1 @ fs2). token_of g \<noteq> tok"
    using net_token [OF fs tok(2,3)] by metis
  obtain b where b: "rx_buffers d ! unat tok = Some b" "rx_idx b = tok" "bufs_of f = [(rx_bytes b, DeviceToDriver)]" "ids f = [tok]"
    "rx_legacy b = legacy_header (net_inner d)"
    using fs(2) F(1,2) by (auto simp: lends_def)
  from pop_used_success [OF fs(1) [unfolded F(1)], of "[]" "[rx_bytes b]" hal h] obtain q' where P:
    "pop_used hal tok [] [rx_bytes b] ?q h
      = Some (Inr (used_len (next_used ?q)), q', unshare_flight hal (access_platform ?q) f h)"
    "vq_inv q' (tok # fl) (fs1 @ fs2)" "SIZE q' = SIZE ?q"
    using pop b(3,4) F(2) tok(1) by (auto simp: input_output_def)
  have "\<forall>g \<in> set (fs1 @ fs2). lends (legacy_header (net_inner d)) ((rx_buffers d)[unat tok := None]) g"
    using fs(2) F(1,3) by (auto intro!: lends_other)
  then have "net_inv (d\<lparr>net_inner := (net_inner d)\<lparr>recv_queue := q'\<rparr>, rx_buffers := (rx_buffers d)[unat tok := None]\<rparr>) (tok # fl)"
    using P(2,3) len free tok(2) by (auto simp: net_inv_def nth_list_update)
  with b P(1) show ?thesis by blast
qed

lemma receive_begin_ok:
  assumes inv: "net_inv d (i # fl)" and law: "hal_box_law hal"
    and b: "MIN_BUFFER_LEN \<le> unat (slice_len (rx_bytes b))" "unat (slice_len (rx_bytes b)) < 2 ^ 32"
    and legacy: "rx_legacy b = legacy_header (net_inner d)"
  shows "\<exists>q' h'. add hal [] [rx_bytes b] (recv_queue (net_inner d)) h = Some (Inr i, q', h')
    \<and> rx_buffers d ! unat i = None \<and> unat i < length (rx_buffers d)
    \<and> (\<forall>t. net_inv (d\<lparr>net_inner := (net_inner d)\<lparr>recv_queue := q', net_transport := t\<rparr>,
        rx_buffers := (rx_buffers d)[unat i := Some (b\<lparr>rx_idx := i\<rparr>)]\<rparr>) fl)"
proof -
  let ?q = "recv_queue (net_inner d)"
  obtain fs where fs: "vq_inv ?q (i # fl) fs" "\<forall>f \<in> set fs. lends (legacy_header (net_inner d)) (rx_buffers d) f" and len: "length (rx_buffers d) = SIZE ?q"
    and free: "\<forall>j \<in> set (i # fl). rx_buffers d ! unat j = None"
    using inv by (auto simp: net_inv_def)
  have n: "slice_len (rx_bytes b) \<noteq> 0" using b(1) by (auto simp: MIN_BUFFER_LEN_def)
  have r: "rx_bytes b = \<lparr>slice_ptr = rx_ptr b, slice_len = slice_len (rx_bytes b)\<rparr>" by (simp add: rx_bytes_def)
  obtain q' h' f where A: "add hal [] [rx_bytes b] ?q h = Some (Inr i, q', h')" "vq_inv q' fl (f # fs)" "SIZE q' = SIZE ?q"
    "ids f = [i]" "token_of f = i" "bufs_of f = [(rx_bytes b, DeviceToDriver)]"
    using add_single [OF fs(1) n b(2) law, of "rx_ptr b" h] r by metis
  have i: "unat i < SIZE ?q" using vq_invD(4) [OF fs(1)] by auto
  have "distinct (i # fl)" using vq_invD(3) [OF fs(1)] by auto
  have other: "token_of g \<noteq> i" if "g \<in> set fs" for g
    using vq_invD(3) [OF A(2)] fs(2) that by (auto simp: A(4) lends_def occupied_def)
  have bb: "rx_bytes (b\<lparr>rx_idx := i\<rparr>) = rx_bytes b" by (simp add: rx_bytes_def)
  let ?bufs = "(rx_buffers d)[unat i := Some (b\<lparr>rx_idx := i\<rparr>)]"
  have "lends (legacy_header (net_inner d)) ?bufs f" using A(4-6) i len bb legacy by (simp add: lends_def)
  moreover have "lends (legacy_header (net_inner d)) ?bufs g" if "g \<in> set fs" for g using fs(2) other [OF that] that by (auto intro!: lends_other)
  ultimately have own: "\<forall>g \<in> set (f # fs). lends (legacy_header (net_inner d)) ?bufs g" by simp
  have free': "\<forall>j \<in> set fl. ?bufs ! unat j = None"
  proof
    fix j
    assume j: "j \<in> set fl"
    then have "unat j \<noteq> unat i" using \<open>distinct (i # fl)\<close> by (auto simp: word_unat_eq_iff [symmetric])
    then show "?bufs ! unat j = None" using free j by simp
  qed
  have "net_inv (d\<lparr>net_inner := (net_inner d)\<lparr>recv_queue := q', net_transport := t\<rparr>, rx_buffers := ?bufs\<rparr>) fl" for t
    unfolding net_inv_def using A(2,3) len own free' by (intro conjI exI [of _ "f # fs"]) simp_all
  with A(1) free i len show ?thesis by auto
qed

lemma net_fill_ok:
  assumes "net_inv \<lparr>net_inner = v, rx_buffers = bufs\<rparr> (map of_nat [i..<n])" and "i \<le> n" "length bufs = n" and "hal_box_law hal"
    and "MIN_BUFFER_LEN \<le> 8 * (m div 8)" "m < 2 ^ 32"
  shows "\<exists>bufs' v' h'. net_fill hal tr m [i..<n] bufs v h = Some (Inr (), bufs', v', h')
    \<and> net_inv \<lparr>net_inner = v', rx_buffers = bufs'\<rparr> [] \<and> length bufs' = n \<and> legacy_header v' = legacy_header v"
  using assms
proof (induction "n - i" arbitrary: i v bufs h)
  case 0
  then show ?case by simp
next
  case (Suc k)
  then have i: "i < n" by simp
  then have ups: "[i..<n] = i # [Suc i..<n]" by (rule upt_conv_Cons)
  obtain fs where "vq_inv (recv_queue v) (map of_nat [i..<n]) fs" "n = SIZE (recv_queue v)"
    using Suc.prems(1,3) by (auto simp: net_inv_def)
  then have "n \<le> 2 ^ 15" using shape_size vq_invD(1) by fast
  then have n: "i < 2 ^ 16" "unat (of_nat i :: u16) = i" using i by (auto simp: unat_of_nat)
  obtain p h1 where box: "new_box hal (of_nat (8 * (m div 8))) h = (Some p, h1)"
    using Suc.prems(4) unfolding hal_box_law_def by (metis not_None_eq prod.collapse)
  define b where "b = \<lparr>rx_ptr = p, rx_words = m div 8, rx_packet_len = 0, rx_idx = of_nat i, rx_legacy = legacy_header v\<rparr>"
  have b: "b\<lparr>rx_idx := of_nat i\<rparr> = b" "rx_legacy b = legacy_header v" by (simp_all add: b_def)
  let ?h = "mem_store hal p (replicate (8 * (m div 8)) 0) h1"
  have new: "rx_buffer_new hal i m (legacy_header v) h = Some (b, ?h)"
    using box n(1) by (simp add: rx_buffer_new_def assert_def b_def Let_def)
  have m: "8 * (m div 8) < 2 ^ 32" using Suc.prems(6) by simp
  then have "unat (of_nat (8 * (m div 8)) :: u64) = 8 * (m div 8)" by (subst unat_of_nat) simp
  then have sz: "unat (slice_len (rx_bytes b)) = 8 * (m div 8)" by (simp add: rx_bytes_def b_def)
  obtain q' h2 where A: "add hal [] [rx_bytes b] (recv_queue v) ?h = Some (Inr (of_nat i), q', h2)"
    "\<And>t. net_inv \<lparr>net_inner = v\<lparr>recv_queue := q', net_transport := t\<rparr>, rx_buffers = bufs[i := Some b]\<rparr> (map of_nat [Suc i..<n])"
    using receive_begin_ok [of "\<lparr>net_inner = v, rx_buffers = bufs\<rparr>" "of_nat i" "map of_nat [Suc i..<n]" hal b ?h]
      Suc.prems(1,4-6) ups sz n(2) b m by auto
  let ?v = "v\<lparr>recv_queue := q', net_transport := if should_notify q' then notify tr QUEUE_RECEIVE (net_transport v) else net_transport v\<rparr>"
  have "receive_begin hal tr (rx_bytes b) v ?h = Some (Inr (of_nat i), ?v, h2)"
    using A(1) sz Suc.prems(5) by (simp add: receive_begin_def check_rx_buf_len_def Let_def)
  moreover have "k = n - Suc i" using Suc.hyps(2) by simp
  then obtain bufs' v' h' where "net_fill hal tr m [Suc i..<n] (bufs[i := Some b]) ?v h2 = Some (Inr (), bufs', v', h')"
    "net_inv \<lparr>net_inner = v', rx_buffers = bufs'\<rparr> []" "length bufs' = n" "legacy_header v' = legacy_header v"
    using Suc.hyps(1) [of "Suc i" ?v "bufs[i := Some b]" h2] A(2) i Suc.prems(3-6) by auto
  ultimately show ?case using new ups by (auto simp: assert_def)
qed

lemma net_inv_start:
  assumes "vq_inv (recv_queue v) (map of_nat [0..<n]) [] \<and> SIZE (recv_queue v) = n"
  shows "net_inv \<lparr>net_inner = v, rx_buffers = replicate n None\<rparr> (map of_nat [0..<n])"
  using assms vq_invD(4) [of "recv_queue v" "map of_nat [0..<n]" "[]"] by (auto simp: net_inv_def intro!: exI [of _ "[]"])

lemma net_raw_new_ok:
  assumes law: "hal_dma_law hal" "hal_dealloc_law hal" and n: "n < 2 ^ 16" "is_power_of_two (of_nat n :: u16)"
    and config: "read_consistent tr (read_config_space tr 0 6) (snd (begin_init tr net_features net_supported_features t)) = Some (r0, t0)"
  obtains r t' h' where "net_raw_new hal tr n t h = Some (r, t', h')"
    and "\<And>v. r = Inr v \<Longrightarrow> vq_inv (recv_queue v) (map of_nat [0..<n]) [] \<and> SIZE (recv_queue v) = n"
proof -
  let ?fs = "\<lambda>r. case r of Inl e \<Rightarrow> e \<in> {AlreadyUsed, InvalidParam, DmaError}
    | Inr q \<Rightarrow> vq_inv q (map of_nat [0..<SIZE q]) [] \<and> SIZE q = n"
  obtain nf t1 where init: "begin_init tr net_features net_supported_features t = (nf, t1)" by (rule prod.exhaust)
  obtain r1 t2 where st: "(read_config tr 6 2 t0 :: u16 result \<times> _) = (r1, t2)" by (rule prod.exhaust)
  obtain r2 t3 h3 where S: "features_queue hal tr n NET_QUEUE_TRANSMIT nf t2 h = Some (r2, t3, h3)" "?fs r2"
    by (rule features_queue_total [OF n law])
  obtain r3 t4 h4 where R: "features_queue hal tr n QUEUE_RECEIVE nf t3 h3 = Some (r3, t4, h4)" "?fs r3"
    by (rule features_queue_total [OF n law])
  obtain gone where gone: "\<And>q h. queue_drop hal q h = Some (gone q h)" using queue_drop_total [OF law(2)] by metis
  from config init st S R show thesis
    by (cases r0; cases r1; cases r2; cases r3) (auto simp: net_raw_new_def Let_def gone intro: that)
qed

lemma net_new_ok:
  assumes law: "hal_dma_law hal" "hal_dealloc_law hal" "hal_box_law hal" and n: "n < 2 ^ 16" "is_power_of_two (of_nat n :: u16)"
    and m: "m < 2 ^ 32"
    and config: "read_consistent tr (read_config_space tr 0 6) (snd (begin_init tr net_features net_supported_features t)) = Some (r0, t0)"
  shows "\<exists>r t' h'. net_new hal tr n m t h = Some (r, t', h')
    \<and> (case r of
         Inl e \<Rightarrow> (\<exists>t1 h1. net_raw_new hal tr n t h = Some (Inl e, t1, h1)) \<or> e = InvalidParam \<and> 8 * (m div 8) < MIN_BUFFER_LEN
       | Inr d \<Rightarrow> net_inv d [] \<and> MIN_BUFFER_LEN \<le> 8 * (m div 8))"
proof -
  obtain r t1 h1 where raw: "net_raw_new hal tr n t h = Some (r, t1, h1)"
    "\<And>v. r = Inr v \<Longrightarrow> vq_inv (recv_queue v) (map of_nat [0..<n]) [] \<and> SIZE (recv_queue v) = n"
    by (rule net_raw_new_ok [OF law(1,2) n config, of h]) (rule that)
  show ?thesis
  proof (cases r)
    case (Inl e)
    then show ?thesis using raw(1) by (simp add: net_new_def)
  next
    case (Inr v)
    note q = raw(2) [OF Inr]
    have n0: "0 < n" using n(2) by (cases n) (auto simp: is_power_of_two_def)
    note fill = net_fill_ok [OF net_inv_start [OF q], of hal m tr h1]
    show ?thesis
    proof (cases "MIN_BUFFER_LEN \<le> 8 * (m div 8)")
      case True
      then show ?thesis using fill law(3) m raw(1) Inr by (auto simp: net_new_def)
    next
      case False
      have ups: "[0..<n] = 0 # [Suc 0..<n]" using n0 by (rule upt_conv_Cons)
      obtain p h2 where box: "new_box hal (of_nat (8 * (m div 8))) h1 = (Some p, h2)"
        using law(3) unfolding hal_box_law_def by (metis not_None_eq prod.collapse)
      have "unat (of_nat (8 * (m div 8)) :: u64) = 8 * (m div 8)" using m by (subst unat_of_nat) simp
      then have "\<exists>h3. net_fill hal tr m [0..<n] (replicate n None) v h1 = Some (Inl InvalidParam, replicate n None, v, h3)"
        using False box
        by (simp add: ups rx_buffer_new_def assert_def Let_def receive_begin_def check_rx_buf_len_def rx_bytes_def)
      moreover obtain gone where "\<And>q h. queue_drop hal q h = Some (gone q h)" using queue_drop_total [OF law(2)] by metis
      ultimately show ?thesis using raw(1) Inr False by (auto simp: net_new_def net_raw_drop_def Let_def)
    qed
  qed
qed

section \<open>Properties\<close>

text \<open>
  C29. One call of \<open>receive\<close>, \<open>fl\<close> being the tokens whose buffers the caller holds. Nothing used: \<open>NotReady\<close>. A token beyond the
  queue is a panic, a token whose buffer is not with the device is \<open>WrongToken\<close>; neither of the errors changes anything.
  Otherwise the caller gets exactly the buffer of the token, with the length of the packet behind the header, and the
  token is free; a length shorter than the header is \<open>IoError\<close>, and the buffer is freed. The packet of the buffer can be
  read unless the device claimed more bytes than the buffer has: then reading it panics.
\<close>

theorem net_receive:
  assumes inv: "net_inv d fl" and load: "load_law hal"
  defines "q \<equiv> recv_queue (net_inner d)" and "k \<equiv> hdr_size (legacy_header (net_inner d))"
    and "token \<equiv> ucast (used_id (next_used (recv_queue (net_inner d)))) :: u16"
    and "n \<equiv> unat (used_len (next_used (recv_queue (net_inner d))))"
  shows "if \<not> can_pop q then receive hal d h = Some (Inl NotReady, d, h)
    else if SIZE q \<le> unat token then receive hal d h = None
    else if token \<in> set fl then receive hal d h = Some (Inl WrongToken, d, h)
    else \<exists>b d' h'. rx_buffers d ! unat token = Some b \<and> net_inv d' (token # fl)
      \<and> receive hal d h = Some (if n < k then Inl IoError else Inr (set_packet_len (n - k) b), d', h')
      \<and> (k \<le> n \<longrightarrow> (packet hal h' (set_packet_len (n - k) b) = None \<longleftrightarrow> unat (slice_len (rx_bytes b)) < n))"
proof -
  have shape: "shape_ok q" and len: "length (rx_buffers d) = SIZE q" using inv vq_invD(1) by (auto simp: net_inv_def q_def)
  note peek = peek_used_ok [OF shape]
  consider "\<not> can_pop q \<or> SIZE q \<le> unat token" | "can_pop q" "unat token < SIZE q" "token \<in> set fl"
    | "can_pop q" "unat token < SIZE q" "token \<notin> set fl" by linarith
  then show ?thesis
  proof cases
    case 2
    then have "rx_buffers d ! unat token = None" using inv by (simp add: net_inv_def)
    then show ?thesis
      using 2 peek len list_update_id [of "rx_buffers d" "unat token"]
      by (auto simp: receive_def poll_receive_def q_def token_def get_def Let_def)
  next
    case 3
    obtain b q' h' where R: "rx_buffers d ! unat token = Some b" "rx_idx b = token"
      "pop_used hal token [] [rx_bytes b] q h = Some (Inr (used_len (next_used q)), q', h')"
      "net_inv (d\<lparr>net_inner := (net_inner d)\<lparr>recv_queue := q'\<rparr>, rx_buffers := (rx_buffers d)[unat token := None]\<rparr>) (token # fl)"
      "rx_legacy b = legacy_header (net_inner d)"
      using receive_complete_ok [OF inv, of token hal h] 3 by (auto simp: q_def token_def)
    let ?d = "d\<lparr>net_inner := (net_inner d)\<lparr>recv_queue := q'\<rparr>, rx_buffers := (rx_buffers d)[unat token := None]\<rparr>"
    let ?h = "if n < k then drop_box hal (rx_ptr b) h' else h'"
    have "packet hal ?h (set_packet_len (n - k) b) = None \<longleftrightarrow> unat (slice_len (rx_bytes b)) < n"
      if "k \<le> n"
      using load that R(5) by (auto simp: packet_def set_packet_len_def rx_bytes_def load_law_def assert_def Let_def k_def)
    moreover have "peek_used q = Some (Some token)" using peek 3(1) by (simp add: q_def token_def)
    then have "receive hal d h = Some (if n < k then Inl IoError else Inr (set_packet_len (n - k) b), ?d, ?h)"
      using 3(2) len R(1-3)
      by (simp add: receive_def poll_receive_def receive_complete_def q_def [symmetric] get_def Let_def)
        (simp add: n_def k_def q_def)
    ultimately show ?thesis using 3 R(1,4) by auto
  qed (use peek len in \<open>auto simp: receive_def poll_receive_def q_def token_def get_def\<close>)
qed

text \<open>A driver over new queues of four descriptors, and an answer of the device, for the witnesses.\<close>

lemma net_inv_device:
  assumes "net_inv d fl" and "length (used_slots u) = SIZE (recv_queue (net_inner d))"
  shows "net_inv (d\<lparr>net_inner := (net_inner d)\<lparr>recv_queue := (recv_queue (net_inner d))\<lparr>vq_used := u\<rparr>\<rparr>\<rparr>) fl"
  using assms vq_inv_device [of "recv_queue (net_inner d)" fl _ u] by (auto simp: net_inv_def)

definition sample_raw :: "register_write list net_raw" where
  "sample_raw = \<lparr>net_transport = [], mac = replicate 6 0, recv_queue = sample_queue False, send_queue = sample_queue False,
     legacy_header = False\<rparr>"

definition sample_answer :: "virt_queue \<Rightarrow> used_ring" where
  "sample_answer q = (vq_used q)\<lparr>used_idx := last_used_idx q + 1, used_slots := replicate (SIZE q) \<lparr>used_id = 2, used_len = 60\<rparr>\<rparr>"

lemma sample_answer_used:
  assumes "0 < SIZE q"
  shows "can_pop (q\<lparr>vq_used := sample_answer q\<rparr>)" "next_used (q\<lparr>vq_used := sample_answer q\<rparr>) = \<lparr>used_id = 2, used_len = 60\<rparr>"
  using assms by (simp_all add: sample_answer_def can_pop_def next_used_def)

lemma sample_raw_queue: "vq_inv (recv_queue sample_raw) (map of_nat [0..<4]) [] \<and> SIZE (recv_queue sample_raw) = 4"
  using fresh_inv [of 4 sample_layout 0 False True False]
  by (simp add: sample_raw_def sample_queue_def is_power_of_two_def fresh_available)

lemma sample_net:
  obtains d where "net_inv (d :: register_write list virtio_net) []" "SIZE (recv_queue (net_inner d)) = 4"
    "can_pop (recv_queue (net_inner d))" "next_used (recv_queue (net_inner d)) = \<lparr>used_id = 2, used_len = 60\<rparr>"
    "legacy_header (net_inner d) = False"
proof -
  from net_fill_ok [OF net_inv_start [OF sample_raw_queue], of bump_hal 1600 "recording 0 (\<lambda>_. 256) False" 0] bump_hal_laws(2)
  obtain bufs and v :: "register_write list net_raw" where i: "net_inv \<lparr>net_inner = v, rx_buffers = bufs\<rparr> []" "length bufs = 4" "\<not> legacy_header v"
    by (auto simp: MIN_BUFFER_LEN_def) (auto simp: sample_raw_def)
  let ?q = "recv_queue v"
  let ?d = "\<lparr>net_inner = v\<lparr>recv_queue := ?q\<lparr>vq_used := sample_answer ?q\<rparr>\<rparr>, rx_buffers = bufs\<rparr>"
  have sz: "SIZE ?q = 4" using i(1,2) by (simp add: net_inv_def)
  show thesis
  proof (rule that [of ?d])
    show "net_inv ?d []" using net_inv_device [OF i(1), of "sample_answer ?q"] by (simp add: sample_answer_def)
  qed (use sz i(3) sample_answer_used [of ?q] in simp_all)
qed

lemma bump_hal_load: "load_law bump_hal"
  by (simp add: load_law_def bump_hal_def)

theorem net_receive_witness:
  "\<exists>d b d' h'. net_inv (d :: register_write list virtio_net) [] \<and> receive bump_hal d 0 = Some (Inr b, d', h')
    \<and> rx_packet_len b = 48 \<and> net_inv d' [2]"
proof -
  obtain d where d: "net_inv (d :: register_write list virtio_net) []" "SIZE (recv_queue (net_inner d)) = 4"
    "can_pop (recv_queue (net_inner d))" "next_used (recv_queue (net_inner d)) = \<lparr>used_id = 2, used_len = 60\<rparr>"
    "legacy_header (net_inner d) = False" by (rule sample_net)
  from net_receive [OF d(1) bump_hal_load, of 0] d show ?thesis
    by (fastforce simp: hdr_size_def set_packet_len_def)
qed

text \<open>
  A buffer that is given back goes to the device under the first free token, in whose place it is kept from then on:
  the call succeeds whenever a token is free and the buffer has the size of a receive buffer, and the tokens with the
  caller are one less.
\<close>

theorem net_recycle:
  assumes inv: "net_inv d (i # fl)" and law: "hal_box_law hal"
    and b: "MIN_BUFFER_LEN \<le> unat (slice_len (rx_bytes b))" "unat (slice_len (rx_bytes b)) < 2 ^ 32"
    and legacy: "rx_legacy b = legacy_header (net_inner d)"
  shows "\<exists>d' h'. recycle_rx_buffer hal tr b d h = Some (Inr (), d', h') \<and> net_inv d' fl
    \<and> rx_buffers d' = (rx_buffers d)[unat i := Some (b\<lparr>rx_idx := i\<rparr>)]"
proof -
  obtain q' h' where A: "add hal [] [rx_bytes b] (recv_queue (net_inner d)) h = Some (Inr i, q', h')"
    "rx_buffers d ! unat i = None" "unat i < length (rx_buffers d)"
    "\<And>t. net_inv (d\<lparr>net_inner := (net_inner d)\<lparr>recv_queue := q', net_transport := t\<rparr>,
      rx_buffers := (rx_buffers d)[unat i := Some (b\<lparr>rx_idx := i\<rparr>)]\<rparr>) fl"
    using receive_begin_ok [OF inv law b legacy, of h] by blast
  let ?v = "(net_inner d)\<lparr>recv_queue := q', net_transport := if should_notify q' then notify tr QUEUE_RECEIVE (net_transport (net_inner d))
    else net_transport (net_inner d)\<rparr>"
  have "receive_begin hal tr (rx_bytes b) (net_inner d) h = Some (Inr i, ?v, h')"
    using A(1) b(1) by (simp add: receive_begin_def check_rx_buf_len_def Let_def)
  with A(2-4) show ?thesis by (simp add: recycle_rx_buffer_def get_def Let_def)
qed

theorem net_recycle_witness:
  "\<exists>d' h'. recycle_rx_buffer bump_hal (recording 0 (\<lambda>_. 256) False)
      \<lparr>rx_ptr = 64, rx_words = 191, rx_packet_len = 0, rx_idx = 9, rx_legacy = False\<rparr>
      \<lparr>net_inner = sample_raw, rx_buffers = replicate 4 None\<rparr> 0 = Some (Inr (), d', h') \<and> net_inv d' (map of_nat [1..<4])"
proof -
  have "net_inv \<lparr>net_inner = sample_raw, rx_buffers = replicate 4 None\<rparr> (0 # map of_nat [1..<4])"
    using net_inv_start [OF sample_raw_queue] by (simp add: upt_rec)
  from net_recycle [OF this bump_hal_laws(2),
      of "\<lparr>rx_ptr = 64, rx_words = 191, rx_packet_len = 0, rx_idx = 9, rx_legacy = False\<rparr>" "recording 0 (\<lambda>_. 256) False" 0]
  show ?thesis by (auto simp: MIN_BUFFER_LEN_def rx_bytes_def sample_raw_def)
qed

text \<open>
  C30. Once the configuration is read, \<open>new\<close> ends without a panic: with the error of the raw driver; with \<open>InvalidParam\<close> if
  the buffers are too small; or with a driver all of whose buffers are with the device, each in the place of its token.
  Too small is what rounds down to less than 1526 bytes in whole words: 1526 and 1527 bytes, which \<open>check_rx_buf_len\<close> accepts,
  are refused.
\<close>

theorem net_new_lends_all:
  assumes law: "hal_dma_law hal" "hal_dealloc_law hal" "hal_box_law hal" and n: "n < 2 ^ 16" "is_power_of_two (of_nat n :: u16)"
    and m: "buf_len < 2 ^ 32"
    and config: "read_consistent tr (read_config_space tr 0 6) (snd (begin_init tr net_features net_supported_features t)) = Some (r0, t0)"
  shows "\<exists>r t' h'. net_new hal tr n buf_len t h = Some (r, t', h')
    \<and> (case r of
         Inl e \<Rightarrow> (\<exists>t1 h1. net_raw_new hal tr n t h = Some (Inl e, t1, h1)) \<or> e = InvalidParam \<and> buf_len < 1528
       | Inr d \<Rightarrow> net_inv d [] \<and> 1528 \<le> buf_len)"
proof -
  have e: "8 * (buf_len div 8) < MIN_BUFFER_LEN \<longleftrightarrow> buf_len < 1528" "MIN_BUFFER_LEN \<le> 8 * (buf_len div 8) \<longleftrightarrow> 1528 \<le> buf_len"
    using div_less_iff_less_mult [of 8 buf_len 191] by (auto simp: MIN_BUFFER_LEN_def)
  show ?thesis using net_new_ok [OF law n m config, of h] unfolding e .
qed

lemma recording_consistent: "read_consistent (recording f sizes legacy) g t = Some (g t)"
  by (subst read_consistent.simps) (simp add: recording_def Let_def split_beta)

theorem net_new_lends_all_witness:
  "\<exists>r t' h'. net_new bump_hal (recording 0 (\<lambda>_. 256) False) 4 1527 [] 0x10000 = Some (r, t', h') \<and> (\<forall>d. r \<noteq> Inr d)"
proof -
  let ?tr = "recording 0 (\<lambda>_. 256) False"
  obtain r0 t0 where c: "read_consistent ?tr (read_config_space ?tr 0 6) (snd (begin_init ?tr net_features net_supported_features []))
      = Some (r0, t0)"
    using recording_consistent by (metis surj_pair)
  have n: "(4 :: nat) < 2 ^ 16" "is_power_of_two (of_nat 4 :: u16)" "(1527 :: nat) < 2 ^ 32" by (simp_all add: is_power_of_two_def)
  obtain r t' h' where "net_new bump_hal ?tr 4 1527 [] 0x10000 = Some (r, t', h')"
    "case r of Inl e \<Rightarrow> (\<exists>t1 h1. net_raw_new bump_hal ?tr 4 [] 0x10000 = Some (Inl e, t1, h1)) \<or> e = InvalidParam \<and> (1527 :: nat) < 1528
      | Inr d \<Rightarrow> net_inv d [] \<and> 1528 \<le> (1527 :: nat)"
    using net_new_lends_all [OF bump_hal_law bump_hal_laws n c, of 65536] by (elim exE conjE) (rule that)
  then show ?thesis by (cases r) auto
qed

end
