(* ===== verification/Pci_Bus.thy ===== *)
theory Pci_Bus
  imports Prelude
begin

text \<open>
  Access to the devices of a PCI bus (\<open>src/virtio-drivers/src/transport/pci/bus.rs\<close>): the configuration space of a device
  function, its base address registers and capabilities, and the devices of a bus. \<open>ConfigurationAccess\<close> is a record of
  operations over a state \<open>'c\<close>; reads do not change it. The offsets of registers wrap around as \<open>u8\<close>. Logging and \<open>Display\<close>
  are left out.
\<close>

section \<open>Device functions\<close>

record device_function =
  bus :: u8
  device :: u8
  func :: u8

definition df_valid :: "device_function \<Rightarrow> bool" where
  "df_valid df \<longleftrightarrow> device df < 32 \<and> func df < 8"

datatype header_type = Standard | PciPciBridge | PciCardbusBridge | Unrecognised u8

definition header_type_from :: "u8 \<Rightarrow> header_type" where
  "header_type_from v = (if v = 0 then Standard else if v = 1 then PciPciBridge else if v = 2 then PciCardbusBridge else Unrecognised v)"

record device_function_info =
  vendor_id :: u16
  pci_device_id :: u16
  pci_class :: u8
  pci_subclass :: u8
  prog_if :: u8
  revision :: u8
  df_header_type :: header_type

section \<open>Configuration space\<close>

record 'c config_access =
  read_word :: "device_function \<Rightarrow> u8 \<Rightarrow> 'c \<Rightarrow> u32"
  write_word :: "device_function \<Rightarrow> u8 \<Rightarrow> u32 \<Rightarrow> 'c \<Rightarrow> 'c"

datatype cam = MmioCam | Ecam

fun cam_size :: "cam \<Rightarrow> u32" where
  "cam_size MmioCam = 0x1000000"
| "cam_size Ecam = 0x10000000"

fun cam_shift :: "cam \<Rightarrow> nat" where
  "cam_shift MmioCam = 8"
| "cam_shift Ecam = 12"

definition cam_offset :: "cam \<Rightarrow> device_function \<Rightarrow> u8 \<Rightarrow> u32 option" where
  "cam_offset cam df reg = do {
     assert (df_valid df);
     let bdf = push_bit 8 (ucast (bus df)) OR push_bit 3 (ucast (device df)) OR ucast (func df);
     let address = push_bit (cam_shift cam) bdf OR ucast reg;
     assert (address < cam_size cam);
     assert (address AND 3 = 0);
     Some address
   }"

text \<open>The memory-mapped access: \<open>m\<close> are the words of the mapped region.\<close>

definition mmio_read_word :: "cam \<Rightarrow> device_function \<Rightarrow> u8 \<Rightarrow> u32 list \<Rightarrow> u32 option" where
  "mmio_read_word cam df reg m = do { address \<leftarrow> cam_offset cam df reg; get m (unat (drop_bit 2 address)) }"

definition mmio_write_word :: "cam \<Rightarrow> device_function \<Rightarrow> u8 \<Rightarrow> u32 \<Rightarrow> u32 list \<Rightarrow> u32 list option" where
  "mmio_write_word cam df reg w m = do { address \<leftarrow> cam_offset cam df reg; put m (unat (drop_bit 2 address)) w }"

section \<open>Status and command\<close>

definition STATUS_COMMAND_OFFSET :: u8 where "STATUS_COMMAND_OFFSET = 0x04"
definition BAR0_OFFSET :: u8 where "BAR0_OFFSET = 0x10"
definition CAPABILITIES_LIST :: u16 where "CAPABILITIES_LIST = push_bit 4 1"
definition IO_SPACE :: u16 where "IO_SPACE = 1"
definition MEMORY_SPACE :: u16 where "MEMORY_SPACE = 2"

text \<open>The bits the two flag types have names for.\<close>

definition known_status :: u16 where "known_status = 0xF9B8"
definition known_command :: u16 where "known_command = 0x77F"

definition get_status_command :: "'c config_access \<Rightarrow> device_function \<Rightarrow> 'c \<Rightarrow> u16 \<times> u16" where
  "get_status_command acc df c =
     (let status_command = read_word acc df STATUS_COMMAND_OFFSET c in
      (ucast (drop_bit 16 status_command) AND known_status, ucast status_command AND known_command))"

definition set_command :: "'c config_access \<Rightarrow> device_function \<Rightarrow> u16 \<Rightarrow> 'c \<Rightarrow> 'c" where
  "set_command acc df command c = write_word acc df STATUS_COMMAND_OFFSET (ucast command) c"

section \<open>Base address registers\<close>

datatype pci_error = InvalidBarType

datatype memory_bar_type = Width32 | Below1MiB | Width64

fun bar_type_bits :: "memory_bar_type \<Rightarrow> u8" where
  "bar_type_bits Width32 = 0"
| "bar_type_bits Below1MiB = 1"
| "bar_type_bits Width64 = 2"

definition bar_type_try_from :: "u8 \<Rightarrow> pci_error + memory_bar_type" where
  "bar_type_try_from v = (if v = 0 then Inr Width32 else if v = 1 then Inr Below1MiB else if v = 2 then Inr Width64 else Inl InvalidBarType)"

text \<open>Of a memory region: its type, whether it is prefetchable, address and size.\<close>

datatype pci_bar_info = MemoryBar memory_bar_type bool u64 u64 | IOBar u32 u32

definition takes_two_entries :: "pci_bar_info \<Rightarrow> bool" where
  "takes_two_entries b = (case b of MemoryBar ty _ _ _ \<Rightarrow> ty = Width64 | IOBar _ _ \<Rightarrow> False)"

definition memory_address_size :: "pci_bar_info \<Rightarrow> (u64 \<times> u64) option" where
  "memory_address_size b = (case b of MemoryBar _ _ a s \<Rightarrow> Some (a, s) | IOBar _ _ \<Rightarrow> None)"

definition bar_reg :: "u8 \<Rightarrow> u8" where
  "bar_reg i = BAR0_OFFSET + 4 * i"

text \<open>Writing ones to a register, what it reads then, and the state after it.\<close>

definition probe :: "'c config_access \<Rightarrow> device_function \<Rightarrow> u8 \<Rightarrow> 'c \<Rightarrow> u32 \<times> 'c" where
  "probe acc df reg c = (let c = write_word acc df reg 0xffffffff c in (read_word acc df reg c, c))"

text \<open>The end of \<open>bar_info\<close>: what the original value and the mask say.\<close>

definition decode_bar :: "u32 \<Rightarrow> u32 \<Rightarrow> u64 \<Rightarrow> pci_error + pci_bar_info option" where
  "decode_bar bar_orig address_top size_mask =
     (let io_space = (bar_orig AND 1 = 1);
          flag_bits = (if io_space then 0b11 else 0b1111);
          sz = NOT (size_mask AND NOT flag_bits) + 1 in
      if size_mask = 0 then Inr None
      else if io_space then Inr (Some (IOBar (bar_orig AND 0xfffffffc) (ucast sz)))
      else
        let address = ucast (bar_orig AND 0xfffffff0) OR push_bit 32 (ucast address_top);
            prefetchable = (bar_orig AND 8 \<noteq> 0) in
        case bar_type_try_from (ucast (drop_bit 1 (bar_orig AND 6))) of
          Inl e \<Rightarrow> Inl e
        | Inr ty \<Rightarrow> Inr (Some (MemoryBar ty prefetchable address sz)))"

definition bar_info :: "'c config_access \<Rightarrow> device_function \<Rightarrow> u8 \<Rightarrow> 'c \<Rightarrow> (pci_error + pci_bar_info option) \<times> 'c" where
  "bar_info acc df bar_index c =
     (let command_orig = snd (get_status_command acc df c);
          command_disable_decode = command_orig AND NOT (IO_SPACE OR MEMORY_SPACE);
          c = (if command_disable_decode \<noteq> command_orig then set_command acc df command_disable_decode c else c);
          bar_orig = read_word acc df (bar_reg bar_index) c;
          (low_mask, c) = probe acc df (bar_reg bar_index) c in
      if bar_orig AND 7 = 4 \<and> 5 \<le> bar_index then (Inl InvalidBarType, c)
      else
        let (address_top, size_top, c) =
              (if bar_orig AND 7 = 4 then
                 let bar_top_orig = read_word acc df (bar_reg (bar_index + 1)) c;
                     (size_top, c) = probe acc df (bar_reg (bar_index + 1)) c;
                     c = write_word acc df (bar_reg (bar_index + 1)) bar_top_orig c in
                 (bar_top_orig, size_top, c)
               else (0, if low_mask = 0 then 0 else 0xffffffff, c));
            size_mask = ucast low_mask OR push_bit 32 (ucast size_top);
            c = write_word acc df (bar_reg bar_index) bar_orig c;
            c = (if command_disable_decode \<noteq> command_orig then set_command acc df command_orig c else c) in
        (decode_bar bar_orig address_top size_mask, c))"

text \<open>The loop of \<open>bars\<close>; \<open>bs\<close> are the six places.\<close>

function bars_loop :: "'c config_access \<Rightarrow> device_function \<Rightarrow> nat \<Rightarrow> pci_bar_info option list \<Rightarrow> 'c
    \<Rightarrow> (pci_error + pci_bar_info option list) \<times> 'c" where
  "bars_loop acc df i bs c =
     (if i < 6 then
        (case bar_info acc df (of_nat i) c of
           (Inl e, c) \<Rightarrow> (Inl e, c)
         | (Inr info, c) \<Rightarrow>
             bars_loop acc df (i + (case info of Some b \<Rightarrow> if takes_two_entries b then 2 else 1 | None \<Rightarrow> 1)) (bs[i := info]) c)
      else (Inr bs, c))"
  by pat_completeness auto
termination
  by (relation "measure (\<lambda>(_, _, i, _, _). 6 - i)") (auto split: option.splits)

declare bars_loop.simps [simp del]

definition bars :: "'c config_access \<Rightarrow> device_function \<Rightarrow> 'c \<Rightarrow> (pci_error + pci_bar_info option list) \<times> 'c" where
  "bars acc df c = bars_loop acc df 0 (replicate 6 None) c"

definition set_bar_32 :: "'c config_access \<Rightarrow> device_function \<Rightarrow> u8 \<Rightarrow> u32 \<Rightarrow> 'c \<Rightarrow> 'c" where
  "set_bar_32 acc df bar_index address c = write_word acc df (bar_reg bar_index) address c"

definition set_bar_64 :: "'c config_access \<Rightarrow> device_function \<Rightarrow> u8 \<Rightarrow> u64 \<Rightarrow> 'c \<Rightarrow> 'c" where
  "set_bar_64 acc df bar_index address c =
     write_word acc df (bar_reg (bar_index + 1)) (ucast (drop_bit 32 address))
       (write_word acc df (bar_reg bar_index) (ucast address) c)"

section \<open>Capabilities\<close>

record capability_info =
  cap_offset :: u8
  cap_id :: u8
  private_header :: u16

definition capabilities_offset :: "'c config_access \<Rightarrow> device_function \<Rightarrow> 'c \<Rightarrow> u8 option" where
  "capabilities_offset acc df c =
     (if fst (get_status_command acc df c) AND CAPABILITIES_LIST = CAPABILITIES_LIST
      then Some (ucast (read_word acc df 0x34 c AND 0xFC)) else None)"

text \<open>One step of the iterator at a given offset: the capability, and the offset of the next one.\<close>

definition next_capability :: "'c config_access \<Rightarrow> device_function \<Rightarrow> 'c \<Rightarrow> u8 \<Rightarrow> capability_info \<times> u8 option" where
  "next_capability acc df c offset =
     (let capability_header = read_word acc df offset c;
          next_offset = ucast (drop_bit 8 capability_header) :: u8 in
      (\<lparr>cap_offset = offset, cap_id = ucast capability_header, private_header = ucast (drop_bit 16 capability_header)\<rparr>,
       if next_offset = 0 then None else if next_offset < 64 \<or> next_offset AND 3 \<noteq> 0 then None else Some next_offset))"

text \<open>All capabilities the iterator gives; not ending is \<open>None\<close>.\<close>

partial_function (option) collect_capabilities ::
  "'c config_access \<Rightarrow> device_function \<Rightarrow> 'c \<Rightarrow> u8 option \<Rightarrow> capability_info list option" where
  "collect_capabilities acc df c nxt =
     (case nxt of
        None \<Rightarrow> Some []
      | Some offset \<Rightarrow> do {
          let (cap, nxt) = next_capability acc df c offset;
          rest \<leftarrow> collect_capabilities acc df c nxt;
          Some (cap # rest)
        })"

definition capabilities :: "'c config_access \<Rightarrow> device_function \<Rightarrow> 'c \<Rightarrow> capability_info list option" where
  "capabilities acc df c = collect_capabilities acc df c (capabilities_offset acc df c)"

section \<open>The devices of a bus\<close>

definition INVALID_READ :: u32 where "INVALID_READ = 0xffffffff"
definition MAX_DEVICES :: nat where "MAX_DEVICES = 32"
definition MAX_FUNCTIONS :: nat where "MAX_FUNCTIONS = 8"

definition function_info :: "'c config_access \<Rightarrow> device_function \<Rightarrow> 'c \<Rightarrow> device_function_info" where
  "function_info acc df c =
     (let device_vendor = read_word acc df 0 c; class_revision = read_word acc df 8 c;
          bist_type_latency_cache = read_word acc df 12 c in
      \<lparr>vendor_id = ucast device_vendor, pci_device_id = ucast (drop_bit 16 device_vendor), pci_class = ucast (drop_bit 24 class_revision),
       pci_subclass = ucast (drop_bit 16 class_revision), prog_if = ucast (drop_bit 8 class_revision), revision = ucast class_revision,
       df_header_type = header_type_from (ucast (drop_bit 16 bist_type_latency_cache) AND 0x7f)\<rparr>)"

text \<open>The state of the iterator is the device and the function to look at next.\<close>

definition advance :: "nat \<Rightarrow> nat \<Rightarrow> nat \<times> nat" where
  "advance d f = (if MAX_FUNCTIONS \<le> f + 1 then (d + 1, 0) else (d, f + 1))"

function bus_next :: "'c config_access \<Rightarrow> u8 \<Rightarrow> nat \<times> nat \<Rightarrow> 'c
    \<Rightarrow> ((device_function \<times> device_function_info) \<times> nat \<times> nat) option" where
  "bus_next acc b (d, f) c =
     (if d < MAX_DEVICES then
        let current = \<lparr>bus = b, device = of_nat d, func = of_nat f\<rparr> in
        if read_word acc current 0 c \<noteq> INVALID_READ then Some ((current, function_info acc current c), advance d f)
        else bus_next acc b (advance d f) c
      else None)"
  by pat_completeness auto
termination
  by (relation "measures [\<lambda>(_, _, (d, _), _). MAX_DEVICES - d, \<lambda>(_, _, (_, f), _). MAX_FUNCTIONS - f]")
    (auto simp: advance_def)

declare bus_next.simps [simp del]

text \<open>Later places, in the order of the enumeration.\<close>

definition later :: "nat \<times> nat \<Rightarrow> nat \<times> nat \<Rightarrow> bool" where
  "later s s' \<longleftrightarrow> (fst s < fst s' \<or> fst s = fst s' \<and> snd s < snd s' \<and> snd s' < MAX_FUNCTIONS)"

lemma later_advance: "later (d, f) (advance d f)"
  by (auto simp: later_def advance_def)

lemma later_trans: "later s s' \<Longrightarrow> later s' s'' \<Longrightarrow> later s s''"
  by (auto simp: later_def)

lemma bus_next_advances: "bus_next acc b s c = Some (x, s') \<Longrightarrow> fst s < MAX_DEVICES \<and> later s s'"
proof (induction acc b s c rule: bus_next.induct)
  case (1 acc b d f c)
  let ?df = "\<lparr>bus = b, device = of_nat d, func = of_nat f\<rparr>"
  show ?case
  proof (cases "d < MAX_DEVICES \<and> read_word acc ?df 0 c = INVALID_READ")
    case True
    then have "bus_next acc b (advance d f) c = Some (x, s')" using "1.prems" by (simp add: bus_next.simps Let_def)
    with True "1.IH" show ?thesis using later_trans [OF later_advance] by auto
  next
    case False
    then show ?thesis using "1.prems" later_advance by (auto simp: bus_next.simps Let_def split: if_splits)
  qed
qed

function enumerate_from :: "'c config_access \<Rightarrow> u8 \<Rightarrow> nat \<times> nat \<Rightarrow> 'c \<Rightarrow> (device_function \<times> device_function_info) list" where
  "enumerate_from acc b s c = (case bus_next acc b s c of None \<Rightarrow> [] | Some (x, s') \<Rightarrow> x # enumerate_from acc b s' c)"
  by pat_completeness auto
termination
proof (relation "measures [\<lambda>(_, _, s, _). MAX_DEVICES - fst s, \<lambda>(_, _, s, _). MAX_FUNCTIONS - snd s]", goal_cases)
  case (2 acc b s c y x s')
  then show ?case using bus_next_advances [of acc b s c x s'] by (auto simp: later_def)
qed simp

declare enumerate_from.simps [simp del]

definition enumerate_bus :: "'c config_access \<Rightarrow> u8 \<Rightarrow> 'c \<Rightarrow> (device_function \<times> device_function_info) list" where
  "enumerate_bus acc b c = enumerate_from acc b (0, 0) c"

end
