(* ===== verification/Pci_Transport.thy ===== *)
theory Pci_Transport
  imports Pci_Bus Virt_Transport
begin

text \<open>
  The PCI transport (\<open>src/virtio-drivers/src/transport/pci.rs\<close>): finding the structures of a virtio device through its
  capabilities, and the operations of the transport on them. The accesses to mapped memory are the record \<open>'m mmio\<close> of
  operations on a state \<open>'m\<close>, by the number of bytes and the address; \<open>peek\<close> is the read of a field declared \<open>ReadPure\<close>,
  which changes nothing. \<open>H::mmio_phys_to_virt\<close> is the function \<open>phys_to_virt\<close> of \<open>pci_new\<close>.
\<close>

section \<open>Device numbers\<close>

definition VIRTIO_VENDOR_ID :: u16 where "VIRTIO_VENDOR_ID = 0x1af4"
definition PCI_DEVICE_ID_OFFSET :: u16 where "PCI_DEVICE_ID_OFFSET = 0x1040"
definition PCI_CAP_ID_VNDR :: u8 where "PCI_CAP_ID_VNDR = 9"
definition SHM_ID_HOST_VISIBLE :: u8 where "SHM_ID_HOST_VISIBLE = 1"

definition transitional :: "(u16 \<times> device_type) list" where
  "transitional = [(0x1000, Network), (0x1001, Block), (0x1002, MemoryBalloon), (0x1003, Console), (0x1004, ScsiHost),
     (0x1005, EntropySource), (0x1009, P9)]"

definition pci_device_type :: "u16 \<Rightarrow> device_type option" where
  "pci_device_type n = (case map_of transitional n of
     Some ty \<Rightarrow> Some ty
   | None \<Rightarrow> if PCI_DEVICE_ID_OFFSET \<le> n then
       (case device_type_try_from_u16 (n - PCI_DEVICE_ID_OFFSET) of Inr ty \<Rightarrow> Some ty | Inl _ \<Rightarrow> None) else None)"

definition virtio_device_type :: "device_function_info \<Rightarrow> device_type option" where
  "virtio_device_type info = (if vendor_id info = VIRTIO_VENDOR_ID then pci_device_type (pci_device_id info) else None)"

section \<open>Capabilities of a virtio device\<close>

record virtio_cap =
  vc_bar :: u8
  vc_id :: u8
  vc_offset :: u64
  vc_length :: u64

datatype virtio_pci_error = InvalidDeviceId u16 | InvalidVendorId u16 | MissingCommonConfig | MissingNotifyConfig
  | InvalidNotifyOffMultiplier u32 | MissingIsrConfig | UnexpectedIoBar | BarNotAllocated u8 | BarOffsetOutOfRange
  | Misaligned u64 u64 | Pci pci_error

text \<open>What the loop over the capabilities has found so far.\<close>

record cap_scan =
  cs_common :: "virtio_cap option"
  cs_notify :: "virtio_cap option"
  cs_multiplier :: u32
  cs_isr :: "virtio_cap option"
  cs_device :: "virtio_cap option"
  cs_shmem :: "virtio_cap option"

definition scan_start :: cap_scan where
  "scan_start = \<lparr>cs_common = None, cs_notify = None, cs_multiplier = 0, cs_isr = None, cs_device = None, cs_shmem = None\<rparr>"

definition cap_len :: "capability_info \<Rightarrow> u8" where
  "cap_len cap = ucast (private_header cap)"

definition cfg_type :: "capability_info \<Rightarrow> u8" where
  "cfg_type cap = ucast (drop_bit 8 (private_header cap))"

definition struct_info :: "'c config_access \<Rightarrow> device_function \<Rightarrow> 'c \<Rightarrow> capability_info \<Rightarrow> virtio_cap" where
  "struct_info acc df c cap =
     (let word = read_word acc df (cap_offset cap + 4) c in
      \<lparr>vc_bar = ucast word, vc_id = ucast (drop_bit 8 word), vc_offset = ucast (read_word acc df (cap_offset cap + 8) c),
       vc_length = ucast (read_word acc df (cap_offset cap + 12) c)\<rparr>)"

text \<open>The 64-bit offset and length of a shared memory capability.\<close>

definition shmem_info :: "'c config_access \<Rightarrow> device_function \<Rightarrow> 'c \<Rightarrow> capability_info \<Rightarrow> virtio_cap" where
  "shmem_info acc df c cap =
     (let info = struct_info acc df c cap in
      info\<lparr>vc_offset := vc_offset info OR push_bit 32 (ucast (read_word acc df (cap_offset cap + 16) c)),
           vc_length := vc_length info OR push_bit 32 (ucast (read_word acc df (cap_offset cap + 20) c))\<rparr>)"

definition scan_cap :: "'c config_access \<Rightarrow> device_function \<Rightarrow> device_type \<Rightarrow> 'c \<Rightarrow> cap_scan \<Rightarrow> capability_info \<Rightarrow> cap_scan" where
  "scan_cap acc df ty c s cap =
     (if cap_id cap \<noteq> PCI_CAP_ID_VNDR then s
      else if cap_len cap < 16 then s
      else
        let info = struct_info acc df c cap in
        if cfg_type cap = 1 \<and> cs_common s = None then s\<lparr>cs_common := Some info\<rparr>
        else if cfg_type cap = 2 \<and> 20 \<le> cap_len cap \<and> cs_notify s = None then
          s\<lparr>cs_notify := Some info, cs_multiplier := read_word acc df (cap_offset cap + 16) c\<rparr>
        else if cfg_type cap = 3 \<and> cs_isr s = None then s\<lparr>cs_isr := Some info\<rparr>
        else if cfg_type cap = 4 \<and> cs_device s = None then s\<lparr>cs_device := Some info\<rparr>
        else if cfg_type cap = 8 \<and> ty = GPU \<and> vc_id info = SHM_ID_HOST_VISIBLE \<and> cs_shmem s = None then
          s\<lparr>cs_shmem := Some (shmem_info acc df c cap)\<rparr>
        else s)"

section \<open>Finding the structures\<close>

text \<open>\<open>sz\<close> and \<open>al\<close> are the size and the alignment of the type of the structure; the result is its address.\<close>

definition get_bar_region :: "'c config_access \<Rightarrow> (u64 \<Rightarrow> u64 \<Rightarrow> u64) \<Rightarrow> u64 \<Rightarrow> u64 \<Rightarrow> device_function \<Rightarrow> virtio_cap \<Rightarrow> 'c
    \<Rightarrow> (virtio_pci_error + u64) \<times> 'c" where
  "get_bar_region acc phys_to_virt sz al df info c =
     (case bar_info acc df (vc_bar info) c of
        (Inl e, c) \<Rightarrow> (Inl (Pci e), c)
      | (Inr None, c) \<Rightarrow> (Inl (BarNotAllocated (vc_bar info)), c)
      | (Inr (Some b), c) \<Rightarrow>
          (case memory_address_size b of
             None \<Rightarrow> Inl UnexpectedIoBar
           | Some (bar_address, bar_size) \<Rightarrow>
               if bar_address = 0 then Inl (BarNotAllocated (vc_bar info))
               else if vc_offset info + vc_length info > bar_size \<or> sz > vc_length info then Inl BarOffsetOutOfRange
               else
                 let vaddr = phys_to_virt (bar_address + vc_offset info) (vc_length info) in
                 if vaddr mod al \<noteq> 0 then Inl (Misaligned vaddr al) else Inr vaddr, c))"

text \<open>The address and the number of elements.\<close>

definition get_bar_region_slice :: "'c config_access \<Rightarrow> (u64 \<Rightarrow> u64 \<Rightarrow> u64) \<Rightarrow> u64 \<Rightarrow> u64 \<Rightarrow> device_function \<Rightarrow> virtio_cap \<Rightarrow> 'c
    \<Rightarrow> (virtio_pci_error + u64 \<times> u64) \<times> 'c" where
  "get_bar_region_slice acc phys_to_virt sz al df info c =
     (case get_bar_region acc phys_to_virt sz al df info c of
        (Inl e, c) \<Rightarrow> (Inl e, c)
      | (Inr p, c) \<Rightarrow> (Inr (p, vc_length info div sz), c))"

record pci_transport =
  pt_device_type :: device_type
  pt_device_function :: device_function
  pt_common_cfg :: u64
  pt_notify_region :: "u64 \<times> u64"
  pt_notify_off_multiplier :: u32
  pt_isr_status :: u64
  pt_config_space :: "(u64 \<times> u64) option"
  pt_shmem_gpu_cfg :: "virtio_cap option"

text \<open>The size and the alignment of \<open>CommonCfg\<close>.\<close>

definition COMMON_SIZE :: u64 where "COMMON_SIZE = 56"
definition COMMON_ALIGN :: u64 where "COMMON_ALIGN = 8"

definition find_structures :: "'c config_access \<Rightarrow> (u64 \<Rightarrow> u64 \<Rightarrow> u64) \<Rightarrow> device_function \<Rightarrow> device_type \<Rightarrow> cap_scan \<Rightarrow> 'c
    \<Rightarrow> (virtio_pci_error + pci_transport) \<times> 'c" where
  "find_structures acc phys_to_virt df ty s c =
     (case cs_common s of None \<Rightarrow> (Inl MissingCommonConfig, c) | Some common_cfg \<Rightarrow>
     (case get_bar_region acc phys_to_virt COMMON_SIZE COMMON_ALIGN df common_cfg c of (Inl e, c) \<Rightarrow> (Inl e, c) | (Inr common, c) \<Rightarrow>
     (case cs_notify s of None \<Rightarrow> (Inl MissingNotifyConfig, c) | Some notify_cfg \<Rightarrow>
      if cs_multiplier s mod 2 \<noteq> 0 then (Inl (InvalidNotifyOffMultiplier (cs_multiplier s)), c) else
     (case get_bar_region_slice acc phys_to_virt 2 2 df notify_cfg c of (Inl e, c) \<Rightarrow> (Inl e, c) | (Inr notify_region, c) \<Rightarrow>
     (case cs_isr s of None \<Rightarrow> (Inl MissingIsrConfig, c) | Some isr_cfg \<Rightarrow>
     (case get_bar_region acc phys_to_virt 1 1 df isr_cfg c of (Inl e, c) \<Rightarrow> (Inl e, c) | (Inr isr_status, c) \<Rightarrow>
     (case (case cs_device s of None \<Rightarrow> (Inr None, c)
            | Some device_cfg \<Rightarrow> (case get_bar_region_slice acc phys_to_virt 4 4 df device_cfg c of
                (Inl e, c) \<Rightarrow> (Inl e, c) | (Inr r, c) \<Rightarrow> (Inr (Some r), c))) of (Inl e, c) \<Rightarrow> (Inl e, c) | (Inr config_space, c) \<Rightarrow>
      (Inr \<lparr>pt_device_type = ty, pt_device_function = df, pt_common_cfg = common, pt_notify_region = notify_region,
            pt_notify_off_multiplier = cs_multiplier s, pt_isr_status = isr_status, pt_config_space = config_space,
            pt_shmem_gpu_cfg = cs_shmem s\<rparr>, c))))))))"

text \<open>\<open>PciTransport::new\<close>; not ending, over a cycle of capabilities, is \<open>None\<close>.\<close>

definition pci_new :: "'c config_access \<Rightarrow> (u64 \<Rightarrow> u64 \<Rightarrow> u64) \<Rightarrow> device_function \<Rightarrow> 'c
    \<Rightarrow> ((virtio_pci_error + pci_transport) \<times> 'c) option" where
  "pci_new acc phys_to_virt df c =
     (let device_vendor = read_word acc df 0 c;
          device_id = ucast (drop_bit 16 device_vendor);
          vendor = ucast device_vendor in
      if vendor \<noteq> VIRTIO_VENDOR_ID then Some (Inl (InvalidVendorId vendor), c)
      else case pci_device_type device_id of
        None \<Rightarrow> Some (Inl (InvalidDeviceId device_id), c)
      | Some ty \<Rightarrow> do {
          caps \<leftarrow> capabilities acc df c;
          Some (find_structures acc phys_to_virt df ty (foldl (scan_cap acc df ty c) scan_start caps) c)
        })"

section \<open>Registers\<close>

record 'm mmio =
  peek :: "nat \<Rightarrow> u64 \<Rightarrow> 'm \<Rightarrow> u64"
  mmio_read :: "nat \<Rightarrow> u64 \<Rightarrow> 'm \<Rightarrow> u64 \<times> 'm"
  mmio_write :: "nat \<Rightarrow> u64 \<Rightarrow> u64 \<Rightarrow> 'm \<Rightarrow> 'm"
  peek_bytes :: "nat \<Rightarrow> u64 \<Rightarrow> 'm \<Rightarrow> u8 list"
  write_bytes :: "u8 list \<Rightarrow> u64 \<Rightarrow> 'm \<Rightarrow> 'm"

text \<open>The fields of \<open>CommonCfg\<close>, with their offsets and sizes.\<close>

datatype common_field = Device_feature_select | Device_feature | Driver_feature_select | Driver_feature | Msix_config | Num_queues
  | Device_status | Config_generation | Queue_select | Queue_size | Queue_msix_vector | Queue_enable | Queue_notify_off
  | Queue_desc | Queue_driver | Queue_device

fun field_place :: "common_field \<Rightarrow> u64 \<times> nat" where
  "field_place Device_feature_select = (0, 4)"
| "field_place Device_feature = (4, 4)"
| "field_place Driver_feature_select = (8, 4)"
| "field_place Driver_feature = (12, 4)"
| "field_place Msix_config = (16, 2)"
| "field_place Num_queues = (18, 2)"
| "field_place Device_status = (20, 1)"
| "field_place Config_generation = (21, 1)"
| "field_place Queue_select = (22, 2)"
| "field_place Queue_size = (24, 2)"
| "field_place Queue_msix_vector = (26, 2)"
| "field_place Queue_enable = (28, 2)"
| "field_place Queue_notify_off = (30, 2)"
| "field_place Queue_desc = (32, 8)"
| "field_place Queue_driver = (40, 8)"
| "field_place Queue_device = (48, 8)"

definition read_field :: "'m mmio \<Rightarrow> pci_transport \<Rightarrow> common_field \<Rightarrow> 'm \<Rightarrow> u64" where
  "read_field io t f m = (let (off, n) = field_place f in peek io n (pt_common_cfg t + off) m)"

definition write_field :: "'m mmio \<Rightarrow> pci_transport \<Rightarrow> common_field \<Rightarrow> u64 \<Rightarrow> 'm \<Rightarrow> 'm" where
  "write_field io t f v m = (let (off, n) = field_place f in mmio_write io n (pt_common_cfg t + off) v m)"

section \<open>Operations of the transport\<close>

definition pci_read_device_features :: "'m mmio \<Rightarrow> pci_transport \<Rightarrow> 'm \<Rightarrow> u64 \<times> 'm" where
  "pci_read_device_features io t m =
     (let m = write_field io t Device_feature_select 0 m;
          low = ucast (read_field io t Device_feature m) :: u32;
          m = write_field io t Device_feature_select 1 m;
          high = ucast (read_field io t Device_feature m) :: u32 in
      (ucast low OR push_bit 32 (ucast high), m))"

definition pci_write_driver_features :: "'m mmio \<Rightarrow> pci_transport \<Rightarrow> u64 \<Rightarrow> 'm \<Rightarrow> 'm" where
  "pci_write_driver_features io t w m =
     (let m = write_field io t Driver_feature_select 0 m;
          m = write_field io t Driver_feature (ucast (ucast w :: u32)) m;
          m = write_field io t Driver_feature_select 1 m in
      write_field io t Driver_feature (ucast (ucast (drop_bit 32 w) :: u32)) m)"

definition pci_max_queue_size :: "'m mmio \<Rightarrow> pci_transport \<Rightarrow> u16 \<Rightarrow> 'm \<Rightarrow> u32 \<times> 'm" where
  "pci_max_queue_size io t q m =
     (let m = write_field io t Queue_select (ucast q) m in (ucast (ucast (read_field io t Queue_size m) :: u16), m))"

definition pci_notify :: "'m mmio \<Rightarrow> pci_transport \<Rightarrow> u16 \<Rightarrow> 'm \<Rightarrow> 'm option" where
  "pci_notify io t q m =
     (let m = write_field io t Queue_select (ucast q) m;
          queue_notify_off = ucast (read_field io t Queue_notify_off m) :: u16;
          offset_bytes = ucast queue_notify_off * ucast (pt_notify_off_multiplier t) :: u64;
          index = offset_bytes div 2 in
      do {
        assert (index < snd (pt_notify_region t));
        Some (mmio_write io 2 (fst (pt_notify_region t) + 2 * index) (ucast q) m)
      })"

text \<open>The status bits the type \<open>DeviceStatus\<close> has names for.\<close>

definition known_device_status :: u32 where
  "known_device_status = ACKNOWLEDGE OR DRIVER OR FAILED OR FEATURES_OK OR DRIVER_OK OR DEVICE_NEEDS_RESET"

definition pci_get_status :: "'m mmio \<Rightarrow> pci_transport \<Rightarrow> 'm \<Rightarrow> u32" where
  "pci_get_status io t m = ucast (ucast (read_field io t Device_status m) :: u8) AND known_device_status"

definition pci_set_status :: "'m mmio \<Rightarrow> pci_transport \<Rightarrow> u32 \<Rightarrow> 'm \<Rightarrow> 'm" where
  "pci_set_status io t s m = write_field io t Device_status (ucast (ucast s :: u8)) m"

definition pci_queue_set :: "'m mmio \<Rightarrow> pci_transport \<Rightarrow> u16 \<Rightarrow> u32 \<Rightarrow> u64 \<Rightarrow> u64 \<Rightarrow> u64 \<Rightarrow> 'm \<Rightarrow> 'm" where
  "pci_queue_set io t q n descriptors driver_area device_area m =
     (let m = write_field io t Queue_select (ucast q) m;
          m = write_field io t Queue_size (ucast (ucast n :: u16)) m;
          m = write_field io t Queue_desc descriptors m;
          m = write_field io t Queue_driver driver_area m;
          m = write_field io t Queue_device device_area m in
      write_field io t Queue_enable 1 m)"

definition pci_queue_used :: "'m mmio \<Rightarrow> pci_transport \<Rightarrow> u16 \<Rightarrow> 'm \<Rightarrow> bool \<times> 'm" where
  "pci_queue_used io t q m =
     (let m = write_field io t Queue_select (ucast q) m in ((ucast (read_field io t Queue_enable m) :: u16) = 1, m))"

definition pci_ack_interrupt :: "'m mmio \<Rightarrow> pci_transport \<Rightarrow> 'm \<Rightarrow> u32 \<times> 'm" where
  "pci_ack_interrupt io t m = (let (v, m) = mmio_read io 1 (pt_isr_status t) m in (ucast (ucast v :: u8), m))"

definition pci_read_config_generation :: "'m mmio \<Rightarrow> pci_transport \<Rightarrow> 'm \<Rightarrow> u32" where
  "pci_read_config_generation io t m = ucast (ucast (read_field io t Config_generation m) :: u8)"

text \<open>Of a type with the given size and alignment.\<close>

definition pci_config_place :: "pci_transport \<Rightarrow> nat \<Rightarrow> nat \<Rightarrow> nat \<Rightarrow> u64 result option" where
  "pci_config_place t sz al offset = do {
     assert (al \<le> 4);
     assert (offset mod al = 0);
     Some (case pt_config_space t of
        None \<Rightarrow> Inl ConfigSpaceMissing
      | Some (p, n) \<Rightarrow> if unat n * 4 < offset + sz then Inl ConfigSpaceTooSmall else Inr (p + of_nat offset))
   }"

definition pci_read_config_space :: "'m mmio \<Rightarrow> pci_transport \<Rightarrow> nat \<Rightarrow> nat \<Rightarrow> nat \<Rightarrow> 'm \<Rightarrow> u8 list result option" where
  "pci_read_config_space io t sz al offset m = do {
     place \<leftarrow> pci_config_place t sz al offset;
     Some (case place of Inl e \<Rightarrow> Inl e | Inr p \<Rightarrow> Inr (peek_bytes io sz p m))
   }"

definition pci_write_config_space :: "'m mmio \<Rightarrow> pci_transport \<Rightarrow> nat \<Rightarrow> nat \<Rightarrow> u8 list \<Rightarrow> 'm \<Rightarrow> (unit result \<times> 'm) option" where
  "pci_write_config_space io t al offset bs m = do {
     place \<leftarrow> pci_config_place t (length bs) al offset;
     Some (case place of Inl e \<Rightarrow> (Inl e, m) | Inr p \<Rightarrow> (Inr (), write_bytes io bs p m))
   }"

text \<open>The wait of \<open>drop\<close>; \<open>dev\<close> is what the device does between two reads of the status, not ending is \<open>None\<close>.\<close>

partial_function (option) wait_reset :: "('m \<Rightarrow> 'm) \<Rightarrow> 'm mmio \<Rightarrow> pci_transport \<Rightarrow> 'm \<Rightarrow> 'm option" where
  "wait_reset dev io t m = (if pci_get_status io t m \<noteq> 0 then wait_reset dev io t (dev m) else Some m)"

definition pci_drop :: "('m \<Rightarrow> 'm) \<Rightarrow> 'm mmio \<Rightarrow> pci_transport \<Rightarrow> 'm \<Rightarrow> 'm option" where
  "pci_drop dev io t m = wait_reset dev io t (pci_set_status io t 0 m)"

end
