(* ===== verification/Pci_Bus_Spec.thy ===== *)
theory Pci_Bus_Spec
  imports Pci_Bus
begin

text \<open>
  What the access to a PCI bus promises: the enumeration finds exactly the devices that answer; the configuration space of
  every register of every function has its own address; the iteration over the capabilities ends unless the device links them into a cycle.
\<close>

section \<open>The devices of a bus\<close>

function places :: "nat \<times> nat \<Rightarrow> (nat \<times> nat) list" where
  "places (d, f) = (if d < MAX_DEVICES then (d, f) # places (advance d f) else [])"
  by pat_completeness auto
termination
  by (relation "measures [\<lambda>(d, _). MAX_DEVICES - d, \<lambda>(_, f). MAX_FUNCTIONS - f]") (auto simp: advance_def)

declare places.simps [simp del]

definition df_at :: "u8 \<Rightarrow> nat \<times> nat \<Rightarrow> device_function" where
  "df_at b s = \<lparr>bus = b, device = of_nat (fst s), func = of_nat (snd s)\<rparr>"

definition present :: "'c config_access \<Rightarrow> 'c \<Rightarrow> device_function \<Rightarrow> bool" where
  "present acc c df \<longleftrightarrow> read_word acc df 0 c \<noteq> INVALID_READ"

lemma bus_next_places:
  "case bus_next acc b s c of
     None \<Rightarrow> filter (present acc c \<circ> df_at b) (places s) = []
   | Some (x, s') \<Rightarrow> \<exists>s0. x = (df_at b s0, function_info acc (df_at b s0) c)
       \<and> filter (present acc c \<circ> df_at b) (places s) = s0 # filter (present acc c \<circ> df_at b) (places s')"
proof (induction s rule: places.induct)
  case (1 d f)
  let ?df = "df_at b (d, f)"
  have step: "bus_next acc b (d, f) c = (if d < MAX_DEVICES then if present acc c ?df
      then Some ((?df, function_info acc ?df c), advance d f) else bus_next acc b (advance d f) c else None)"
    by (simp add: bus_next.simps present_def df_at_def Let_def)
  have pl: "places (d, f) = (if d < MAX_DEVICES then (d, f) # places (advance d f) else [])" by (simp add: places.simps)
  show ?case
  proof (cases "d < MAX_DEVICES \<and> \<not> present acc c ?df")
    case True
    then have "filter (present acc c \<circ> df_at b) (places (d, f)) = filter (present acc c \<circ> df_at b) (places (advance d f))"
      by (simp add: pl)
    then show ?thesis using True "1.IH" by (simp only: step) simp
  next
    case False
    then show ?thesis by (auto simp: step pl)
  qed
qed

lemma enumerate_places:
  "enumerate_from acc b s c
    = map (\<lambda>df. (df, function_info acc df c)) (filter (present acc c) (map (df_at b) (places s)))"
proof (induction acc b s c rule: enumerate_from.induct)
  case (1 acc b s c)
  show ?case
  proof (cases "bus_next acc b s c")
    case None
    then show ?thesis using bus_next_places [where acc = acc and b = b and s = s and c = c]
      by (subst enumerate_from.simps) (simp add: filter_map)
  next
    case (Some y)
    obtain x s' where y: "y = (x, s')" by (rule prod.exhaust)
    then show ?thesis
      using "1.IH" [OF Some y [symmetric]] bus_next_places [where acc = acc and b = b and s = s and c = c] Some
      by (subst enumerate_from.simps) (auto simp: filter_map)
  qed
qed

lemma places_device: "d < MAX_DEVICES \<Longrightarrow> f < MAX_FUNCTIONS \<Longrightarrow> places (d, f) = map (Pair d) [f..<MAX_FUNCTIONS] @ places (d + 1, 0)"
proof (induction "MAX_FUNCTIONS - f" arbitrary: f)
  case (Suc k)
  then have ups: "[f..<MAX_FUNCTIONS] = f # [Suc f..<MAX_FUNCTIONS]" by (simp add: upt_conv_Cons)
  show ?case
  proof (cases "Suc f < MAX_FUNCTIONS")
    case True
    then show ?thesis using Suc.hyps(1) [of "Suc f"] Suc.hyps(2) Suc.prems ups
      by (subst places.simps) (simp add: advance_def)
  next
    case False
    then show ?thesis using Suc.prems ups by (subst places.simps) (simp add: advance_def)
  qed
qed simp

lemma places_all: "d \<le> MAX_DEVICES \<Longrightarrow> places (d, 0) = concat (map (\<lambda>d. map (Pair d) [0..<MAX_FUNCTIONS]) [d..<MAX_DEVICES])"
proof (induction "MAX_DEVICES - d" arbitrary: d)
  case 0
  then show ?case by (subst places.simps) simp
next
  case (Suc k)
  then have d: "d < MAX_DEVICES" by simp
  then have "[d..<MAX_DEVICES] = d # [Suc d..<MAX_DEVICES]" by (rule upt_conv_Cons)
  moreover have "0 < MAX_FUNCTIONS" by (simp add: MAX_FUNCTIONS_def)
  ultimately show ?case using places_device [OF d] Suc.hyps(1) [of "Suc d"] Suc.hyps(2) d by simp
qed

definition bus_slots :: "u8 \<Rightarrow> device_function list" where
  "bus_slots b = map (\<lambda>(d, f). \<lparr>bus = b, device = of_nat d, func = of_nat f\<rparr>) (List.product [0..<32] [0..<8])"

lemma bus_slots_places: "map (df_at b) (places (0, 0)) = bus_slots b"
  using places_all [of 0]
  by (simp add: bus_slots_def product_concat_map df_at_def [abs_def] split_beta MAX_DEVICES_def MAX_FUNCTIONS_def)

lemma bus_slots_distinct: "distinct (bus_slots b)"
proof -
  have "(of_nat d :: u8) = of_nat d' \<longleftrightarrow> d = d'" if "d < 32" "d' < 32" for d d' :: nat
    using that by (simp add: word_unat_eq_iff unat_of_nat)
  then have "inj_on (\<lambda>(d, f). \<lparr>bus = b, device = of_nat d, func = of_nat f\<rparr>) ({0..<32} \<times> {0..<8 :: nat})"
    by (auto simp: inj_on_def)
  then show ?thesis unfolding bus_slots_def by (simp add: distinct_map distinct_product)
qed

lemma bus_slots_set: "set (bus_slots b) = {df. bus df = b \<and> df_valid df}"
proof (intro set_eqI iffI)
  fix df assume "df \<in> {df. bus df = b \<and> df_valid df}"
  then have "df = \<lparr>bus = b, device = of_nat (unat (device df)), func = of_nat (unat (func df))\<rparr>"
    "(unat (device df), unat (func df)) \<in> {0..<32} \<times> {0..<8}"
    by (auto simp: df_valid_def word_less_nat_alt)
  then show "df \<in> set (bus_slots b)" unfolding bus_slots_def by (auto intro!: image_eqI [where x = "(unat (device df), unat (func df))"])
next
  fix df assume "df \<in> set (bus_slots b)"
  then show "df \<in> {df. bus df = b \<and> df_valid df}"
    by (auto simp: bus_slots_def df_valid_def word_less_nat_alt unat_of_nat)
qed

text \<open>
  C35. The enumeration of a bus gives exactly the device functions whose first register does not read as all ones, in the
  order of their devices and functions, each once and with its own information. The \<open>32 \<times> 8\<close> places it looks at are
  different and are all valid device functions of the bus.\<close>
theorem enumerate_bus_exact:
  "enumerate_bus acc b c
      = map (\<lambda>df. (df, function_info acc df c)) (filter (\<lambda>df. read_word acc df 0 c \<noteq> 0xffffffff) (bus_slots b))
    \<and> distinct (bus_slots b) \<and> set (bus_slots b) = {df. bus df = b \<and> df_valid df}"
  using enumerate_places [of acc b "(0, 0)" c] bus_slots_distinct bus_slots_set
  by (simp add: enumerate_bus_def present_def [abs_def] INVALID_READ_def bus_slots_places)

section \<open>Addresses\<close>

lemma below_bits: "unat (x :: 'a::len word) < 2 ^ k \<longleftrightarrow> (\<forall>n. bit x n \<longrightarrow> n < k)"
proof -
  have "unat x < 2 ^ k \<longleftrightarrow> take_bit k (unat x) = unat x" by (simp add: take_bit_nat_eq_self_iff)
  also have "\<dots> \<longleftrightarrow> (\<forall>n. bit x n \<longrightarrow> n < k)" by (auto simp: bit_eq_iff bit_take_bit_iff bit_unsigned_iff dest: bit_imp_possible_bit)
  finally show ?thesis .
qed

lemma cam_fields:
  fixes cam reg
  assumes "df_valid df"
  defines "bdf \<equiv> push_bit 8 (ucast (bus df)) OR push_bit 3 (ucast (device df)) OR ucast (func df) :: u32"
  defines "a \<equiv> push_bit (cam_shift cam) bdf OR ucast reg"
  shows "ucast a = (reg :: u8)" "ucast (drop_bit (cam_shift cam + 8) a) = bus df"
    "take_bit 5 (ucast (drop_bit (cam_shift cam + 3) a)) = device df" "take_bit 3 (ucast (drop_bit (cam_shift cam) a)) = func df"
proof -
  have "unat (device df) < 2 ^ 5" "unat (func df) < 2 ^ 3" using assms(1) by (simp_all add: df_valid_def word_less_nat_alt)
  then have d: "bit (device df) n \<Longrightarrow> n < 5" and f: "bit (func df) n \<Longrightarrow> n < 3" for n
    unfolding below_bits by simp_all
  have r: "bit reg n \<Longrightarrow> n < 8" for n using bit_imp_le_length [of reg n] by simp
  show "ucast a = (reg :: u8)"
    by (cases cam; rule bit_word_eqI) (auto simp: a_def bdf_def bit_simps)
  show "ucast (drop_bit (cam_shift cam + 8) a) = bus df"
    by (cases cam; rule bit_word_eqI) (auto simp: a_def bdf_def bit_simps dest: d f r)
  show "take_bit 5 (ucast (drop_bit (cam_shift cam + 3) a)) = device df"
    by (cases cam; rule bit_word_eqI) (auto simp: a_def bdf_def bit_simps dest: d f r)
  show "take_bit 3 (ucast (drop_bit (cam_shift cam) a)) = func df"
    by (cases cam; rule bit_word_eqI) (auto simp: a_def bdf_def bit_simps dest: d f r)
qed

definition cam_address :: "cam \<Rightarrow> device_function \<Rightarrow> u8 \<Rightarrow> u32" where
  "cam_address cam df reg = push_bit (cam_shift cam)
     (push_bit 8 (ucast (bus df)) OR push_bit 3 (ucast (device df)) OR ucast (func df)) OR ucast reg"

lemma cam_below:
  assumes "df_valid df"
  shows "cam_address cam df reg < cam_size cam"
proof -
  have "unat (device df) < 2 ^ 5" "unat (func df) < 2 ^ 3" using assms(1) by (simp_all add: df_valid_def word_less_nat_alt)
  then have d: "bit (device df) n \<Longrightarrow> n < 5" and f: "bit (func df) n \<Longrightarrow> n < 3" for n
    unfolding below_bits by simp_all
  have r: "bit (reg :: u8) n \<Longrightarrow> n < 8" for n and reg using bit_imp_le_length [of reg n] by simp
  have "\<forall>n. bit (cam_address cam df reg) n \<longrightarrow> n < 16 + cam_shift cam"
    by (cases cam) (auto simp: cam_address_def bit_simps dest!: d f r)
  then have "unat (cam_address cam df reg) < 2 ^ (16 + cam_shift cam)" unfolding below_bits .
  then show ?thesis by (cases cam) (simp_all add: word_less_nat_alt)
qed

lemma and_3: "x AND 3 = take_bit 2 (x :: 'a::len word)"
  by (simp add: take_bit_eq_mask mask_eq_exp_minus_1)

lemma cam_aligned: "cam_address cam df reg AND 3 = ucast (reg AND 3)"
  unfolding and_3 by (cases cam; rule bit_word_eqI) (auto simp: cam_address_def bit_simps)

lemma ucast_u8_zero: "(ucast (x :: u8) :: u32) = 0 \<longleftrightarrow> x = 0"
proof
  assume zero: "(ucast x :: u32) = 0"
  have "x = ucast (ucast x :: u32)" by (rule bit_word_eqI) (auto simp: bit_simps)
  then show "x = 0" by (simp only: zero) simp
qed simp

lemma cam_offset_address:
  "cam_offset cam df reg = (if df_valid df \<and> reg AND 3 = 0 then Some (cam_address cam df reg) else None)"
proof -
  have "cam_address cam df reg AND 3 = 0 \<longleftrightarrow> reg AND 3 = 0"
    unfolding cam_aligned by (rule ucast_u8_zero)
  then show ?thesis using cam_below [of df cam reg]
    unfolding cam_offset_def Let_def cam_address_def [symmetric] by (auto simp: assert_def)
qed

lemma cam_address_inj:
  assumes "df_valid df" "df_valid df'" "cam_address cam df reg = cam_address cam df' reg'"
  shows "df = df' \<and> reg = reg'"
proof -
  note f = cam_fields [OF assms(1), where cam = cam and reg = reg] and f' = cam_fields [OF assms(2), where cam = cam and reg = reg']
  note f [folded cam_address_def] f' [folded cam_address_def] assms(3)
  then show ?thesis by (intro conjI device_function.equality) simp_all
qed

text \<open>The word an address selects.\<close>

definition cam_index :: "cam \<Rightarrow> device_function \<Rightarrow> u8 \<Rightarrow> nat" where
  "cam_index cam df reg = unat (drop_bit 2 (cam_address cam df reg))"

lemma cam_index_bound: "df_valid df \<Longrightarrow> cam_index cam df reg < unat (cam_size cam) div 4"
  using cam_below [of df cam reg]
  by (cases cam) (simp_all add: cam_index_def word_less_nat_alt unat_div drop_bit_eq_div div_less_iff_less_mult)

lemma cam_index_inj:
  assumes df: "df_valid df" "df_valid df'" and reg: "reg AND 3 = 0" "reg' AND 3 = 0"
    and eq: "cam_index cam df reg = cam_index cam df' reg'"
  shows "df = df' \<and> reg = reg'"
proof -
  have whole: "push_bit 2 (drop_bit 2 (cam_address cam df reg)) = cam_address cam df reg" if "reg AND 3 = 0" for df reg
  proof -
    have "take_bit 2 (cam_address cam df reg) = 0" using cam_aligned [of cam df reg] that by (simp add: and_3)
    then show ?thesis using bits_ident [of 2 "cam_address cam df reg"] by (simp only: add_0_right)
  qed
  have "drop_bit 2 (cam_address cam df reg) = drop_bit 2 (cam_address cam df' reg')"
    using eq unfolding cam_index_def by (simp add: word_unat_eq_iff)
  then have "cam_address cam df reg = cam_address cam df' reg'" using whole reg by metis
  then show ?thesis using cam_address_inj [OF df] by blast
qed

text \<open>
  C34. \<open>cam_offset\<close> panics exactly for a device function that is not valid or a register that is not aligned. With the whole
  region mapped, a write to any other register does not panic, keeps the size of the region, is what reading the register
  gives afterwards, and changes what no other register of any device function reads, in both access mechanisms.\<close>
theorem cam_registers:
  assumes "length m = unat (cam_size cam) div 4"
  shows "(cam_offset cam df reg = None \<longleftrightarrow> \<not> (df_valid df \<and> reg AND 3 = 0))
    \<and> (df_valid df \<and> reg AND 3 = 0 \<longrightarrow> (\<exists>m'. mmio_write_word cam df reg w m = Some m' \<and> length m' = length m
        \<and> mmio_read_word cam df reg m' = Some w
        \<and> (\<forall>df' reg'. (df', reg') \<noteq> (df, reg) \<longrightarrow> mmio_read_word cam df' reg' m' = mmio_read_word cam df' reg' m)))"
proof (intro conjI impI)
  assume valid: "df_valid df \<and> reg AND 3 = 0"
  let ?i = "cam_index cam df reg"
  have i: "?i < length m" using cam_index_bound valid assms by simp
  have other: "cam_index cam df' reg' \<noteq> ?i" if "(df', reg') \<noteq> (df, reg)" "df_valid df'" "reg' AND 3 = 0" for df' reg'
    using cam_index_inj [of df' df reg' reg cam] valid that by auto
  have "mmio_read_word cam df' reg' (m[?i := w]) = mmio_read_word cam df' reg' m" if "(df', reg') \<noteq> (df, reg)" for df' reg'
    using other [OF that]
    by (auto simp: mmio_read_word_def cam_offset_address cam_index_def [symmetric] get_def)
  moreover have "mmio_write_word cam df reg w m = Some (m[?i := w])" "mmio_read_word cam df reg (m[?i := w]) = Some w"
    using valid i by (simp_all add: mmio_write_word_def mmio_read_word_def cam_offset_address cam_index_def [symmetric])
  ultimately show "\<exists>m'. mmio_write_word cam df reg w m = Some m' \<and> length m' = length m
        \<and> mmio_read_word cam df reg m' = Some w
        \<and> (\<forall>df' reg'. (df', reg') \<noteq> (df, reg) \<longrightarrow> mmio_read_word cam df' reg' m' = mmio_read_word cam df' reg' m)"
    by (intro exI [of _ "m[?i := w]"]) simp
qed (simp add: cam_offset_address)

theorem cam_registers_witness:
  "\<exists>m'. mmio_write_word MmioCam \<lparr>bus = 0, device = 2, func = 1\<rparr> 0x10 7 (replicate (unat (cam_size MmioCam) div 4) 0) = Some m'
    \<and> mmio_read_word MmioCam \<lparr>bus = 0, device = 2, func = 1\<rparr> 0x10 m' = Some 7"
  using cam_registers [OF length_replicate [of _ 0], of MmioCam "\<lparr>bus = 0, device = 2, func = 1\<rparr>" 16 7]
  by (auto simp: df_valid_def simp del: cam_size.simps)

section \<open>Capabilities\<close>

definition cap_step :: "'c config_access \<Rightarrow> device_function \<Rightarrow> 'c \<Rightarrow> u8 option \<Rightarrow> u8 option" where
  "cap_step acc df c o' = (case o' of None \<Rightarrow> None | Some x \<Rightarrow> snd (next_capability acc df c x))"

lemma collect_ends:
  assumes "(cap_step acc df c ^^ n) start = None"
  shows "\<exists>caps. collect_capabilities acc df c start = Some caps"
  using assms
proof (induction n arbitrary: start)
  case 0
  then show ?case by (simp add: collect_capabilities.simps)
next
  case (Suc n)
  then have "\<exists>caps. collect_capabilities acc df c (cap_step acc df c start) = Some caps" by (simp add: funpow_swap1)
  then show ?case
    by (cases start; subst collect_capabilities.simps) (auto simp: cap_step_def Let_def split_beta)
qed

lemma collect_path:
  assumes "collect_capabilities acc df c start = Some caps"
  shows "(cap_step acc df c ^^ length caps) start = None
    \<and> (\<forall>i < length caps. \<exists>x. (cap_step acc df c ^^ i) start = Some x \<and> caps ! i = fst (next_capability acc df c x))"
  using assms
proof (induction caps arbitrary: start)
  case Nil
  then show ?case by (subst (asm) collect_capabilities.simps) (auto simp: Let_def split_beta split: option.splits Option.bind_splits)
next
  case (Cons cap caps)
  obtain x where x: "start = Some x" "cap = fst (next_capability acc df c x)"
    "collect_capabilities acc df c (cap_step acc df c start) = Some caps"
    using Cons.prems
    by (subst (asm) collect_capabilities.simps)
      (auto simp: Let_def split_beta cap_step_def split: option.splits Option.bind_splits)
  note IH = Cons.IH [OF x(3)]
  have "\<exists>y. (cap_step acc df c ^^ i) start = Some y \<and> (cap # caps) ! i = fst (next_capability acc df c y)"
    if "i < length (cap # caps)" for i
    using that IH x(1,2) by (cases i) (auto simp: funpow_swap1)
  then show ?case using IH by (simp add: funpow_swap1)
qed

definition cap_places :: "u8 set" where
  "cap_places = (\<lambda>k. of_nat (4 * k)) ` {16..<64}"

lemma cap_step_range:
  assumes "cap_step acc df c o' = Some x" shows "x \<in> cap_places"
proof -
  have x: "64 \<le> x" "take_bit 2 x = 0"
    using assms by (auto simp: cap_step_def next_capability_def Let_def and_3 [symmetric] split: option.splits if_splits)
  then have "take_bit 2 (unat x) = 0" by (metis unsigned_take_bit_eq unsigned_0)
  then have "4 dvd unat x" by (simp add: take_bit_eq_mod dvd_eq_mod_eq_0)
  then obtain k where k: "unat x = 4 * k" by (rule dvdE)
  moreover have "64 \<le> unat x" "unat x < 256" using x(1) unsigned_less [of x] by (simp_all add: word_le_nat_alt)
  ultimately have "k \<in> {16..<64}" by simp
  moreover have "x = of_nat (4 * k)" by (simp flip: k)
  ultimately show ?thesis unfolding cap_places_def by blast
qed

lemma cap_path_distinct:
  assumes "(cap_step acc df c ^^ n) start = None" "(cap_step acc df c ^^ i) start = Some x" "(cap_step acc df c ^^ j) start = Some x"
  shows "\<not> i < j"
proof
  assume "i < j"
  then obtain d where d: "j = d + i" "0 < d" using less_imp_add_positive by (metis add.commute)
  let ?f = "cap_step acc df c"
  have loop: "(?f ^^ (k * d + i)) start = Some x" for k
  proof (induction k)
    case (Suc k)
    have "(?f ^^ (k * d + (d + i))) start = (?f ^^ (k * d)) ((?f ^^ (d + i)) start)" by (simp only: funpow_add comp_apply)
    also have "\<dots> = (?f ^^ (k * d)) ((?f ^^ i) start)" using assms(2,3) d by simp
    also have "\<dots> = (?f ^^ (k * d + i)) start" by (simp only: funpow_add comp_apply)
    finally show ?case using Suc by (simp add: algebra_simps)
  qed (simp add: assms)
  have stays: "(?f ^^ m) None = None" for m by (induction m) (simp_all add: cap_step_def)
  have "(?f ^^ (m + n)) start = None" for m by (simp add: funpow_add assms(1) stays)
  moreover obtain m where "n * d + i = m + n" using d(2) by (metis add.assoc add.commute le_add1 le_iff_add mult_le_mono2 Suc_leI One_nat_def mult.right_neutral trans_le_add1)
  ultimately show False using loop [of n] by simp
qed

definition cap_path :: "'c config_access \<Rightarrow> device_function \<Rightarrow> 'c \<Rightarrow> nat \<Rightarrow> u8 option" where
  "cap_path acc df c n = (cap_step acc df c ^^ n) (capabilities_offset acc df c)"

text \<open>
  C36. The iteration over the capabilities does not end exactly when the links of the device never leave the list, which
  nothing in the iterator detects. When it ends it gives at most \<open>49\<close> capabilities: each is what its own offset reads, the
  first is the one the capabilities pointer names, each other the one its predecessor links to.\<close>
theorem capabilities_end:
  "(capabilities acc df c = None \<longleftrightarrow> (\<forall>n. cap_path acc df c n \<noteq> None))
    \<and> (\<forall>caps. capabilities acc df c = Some caps \<longrightarrow> length caps \<le> 49 \<and> cap_path acc df c (length caps) = None
        \<and> (\<forall>i < length caps. cap_path acc df c i = Some (cap_offset (caps ! i))
             \<and> caps ! i = fst (next_capability acc df c (cap_offset (caps ! i)))))"
proof -
  let ?s = "capabilities_offset acc df c"
  have "length caps \<le> 49 \<and> cap_path acc df c (length caps) = None
      \<and> (\<forall>i < length caps. cap_path acc df c i = Some (cap_offset (caps ! i)) \<and> caps ! i = fst (next_capability acc df c (cap_offset (caps ! i))))"
    if caps: "capabilities acc df c = Some caps" for caps
  proof -
    note p = collect_path [OF caps [unfolded capabilities_def]]
    have off: "cap_path acc df c i = Some (cap_offset (caps ! i)) \<and> caps ! i = fst (next_capability acc df c (cap_offset (caps ! i)))"
      if "i < length caps" for i
      using p that by (auto simp: cap_path_def next_capability_def Let_def)
    have inj: "inj_on (\<lambda>i. cap_offset (caps ! i)) {1..<length caps}"
      using p cap_path_distinct [where acc = acc and df = df and c = c and start = ?s and n = "length caps"] off
      by (intro inj_onI) (metis atLeastLessThan_iff linorder_neqE_nat cap_path_def)
    moreover have "(\<lambda>i. cap_offset (caps ! i)) ` {1..<length caps} \<subseteq> cap_places"
    proof (rule image_subsetI)
      fix i assume i: "i \<in> {1..<length caps}"
      then have "cap_step acc df c (cap_path acc df c (i - 1)) = Some (cap_offset (caps ! i))"
        using off [of i] by (cases i) (auto simp: cap_path_def)
      then show "cap_offset (caps ! i) \<in> cap_places" by (rule cap_step_range)
    qed
    moreover have "finite cap_places" "card cap_places \<le> 48"
      using card_image_le [of "{16..<64::nat}" "\<lambda>k. of_nat (4 * k) :: u8"] by (simp_all add: cap_places_def)
    ultimately have "card {1..<length caps} \<le> 48" using card_inj_on_le [OF inj] by (meson order_trans)
    then show ?thesis using off p by (simp add: cap_path_def)
  qed
  moreover have "cap_path acc df c n \<noteq> None" if "capabilities acc df c = None" for n
    using that collect_ends [where n = n and acc = acc and df = df and c = c and start = ?s]
    by (auto simp: capabilities_def cap_path_def)
  moreover have "\<exists>n. cap_path acc df c n = None" if "capabilities acc df c \<noteq> None"
    using that collect_path [of acc df c ?s] by (auto simp: capabilities_def cap_path_def)
  ultimately show ?thesis by blast
qed

text \<open>A device with two capabilities, at \<open>0x40\<close> and \<open>0x50\<close>.\<close>

definition two_capabilities :: "unit config_access" where
  "two_capabilities = \<lparr>read_word = (\<lambda>_ reg _. if reg = 4 then 0x100000 else if reg = 0x34 then 0x40
     else if reg = 0x40 then 0x5009 else 0x9), write_word = (\<lambda>_ _ _ c. c)\<rparr>"

theorem capabilities_end_witness:
  "\<exists>caps. capabilities two_capabilities \<lparr>bus = 0, device = 1, func = 0\<rparr> () = Some caps \<and> length caps = 2
    \<and> cap_path two_capabilities \<lparr>bus = 0, device = 1, func = 0\<rparr> () (length caps) = None"
proof -
  let ?df = "\<lparr>bus = 0, device = 1, func = 0\<rparr>"
  obtain caps where caps: "capabilities two_capabilities ?df () = Some caps" "length caps = 2"
    by (simp add: capabilities_def capabilities_offset_def get_status_command_def known_status_def CAPABILITIES_LIST_def
        collect_capabilities.simps next_capability_def two_capabilities_def STATUS_COMMAND_OFFSET_def Let_def)
  then show ?thesis using capabilities_end [of two_capabilities ?df "()"] by blast
qed

end
