(* ===== verification/Pci_Bar_Spec.thy ===== *)
theory Pci_Bar_Spec
  imports Pci_Bus_Spec
begin

text \<open>
  Sizing base address registers. The configuration space of a device is its registers with, for each, the bits that can be
  written; a \<open>region\<close> is what the device means by a register (or a pair of them). \<open>bar_info\<close> and \<open>bars\<close> find the regions
  and restore the registers.
\<close>

section \<open>Registers with writable bits\<close>

type_synonym config_space = "device_function \<Rightarrow> u8 \<Rightarrow> u32"

definition mix :: "u32 \<Rightarrow> u32 \<Rightarrow> u32 \<Rightarrow> u32" where
  "mix wm w v = (w AND wm) OR (v AND NOT wm)"

definition registers :: "config_space \<Rightarrow> config_space config_access" where
  "registers wm = \<lparr>read_word = (\<lambda>df reg c. c df reg),
     write_word = (\<lambda>df reg w c. c(df := (c df)(reg := mix (wm df reg) w (c df reg))))\<rparr>"

section \<open>Regions\<close>

text \<open>The binary logarithm of the size and the base, for memory also whether it is prefetchable.\<close>

datatype region = Unused | IoRegion nat u32 | Region32 bool nat u32 | Region64 bool nat u64

fun region_ok :: "region \<Rightarrow> bool" where
  "region_ok Unused = True"
| "region_ok (IoRegion k b) \<longleftrightarrow> 2 \<le> k \<and> k < 32 \<and> take_bit k b = 0"
| "region_ok (Region32 _ k b) \<longleftrightarrow> 4 \<le> k \<and> k < 32 \<and> take_bit k b = 0"
| "region_ok (Region64 _ k b) \<longleftrightarrow> 4 \<le> k \<and> k < 64 \<and> take_bit k b = 0"

text \<open>The value of the (lower) register, and the bits of it that can be written.\<close>

fun low_value :: "region \<Rightarrow> u32" where
  "low_value Unused = 0"
| "low_value (IoRegion _ b) = b OR 1"
| "low_value (Region32 p _ b) = b OR (if p then 8 else 0)"
| "low_value (Region64 p _ b) = ucast b OR (if p then 12 else 4)"

fun low_writable :: "region \<Rightarrow> u32" where
  "low_writable Unused = 0"
| "low_writable (IoRegion k _) = NOT (mask k)"
| "low_writable (Region32 _ k _) = NOT (mask k)"
| "low_writable (Region64 _ k _) = ucast (NOT (mask k) :: u64)"

text \<open>The registers from the \<open>i\<close>th on implement a region.\<close>

definition implements :: "config_space \<Rightarrow> config_space \<Rightarrow> device_function \<Rightarrow> u8 \<Rightarrow> region \<Rightarrow> bool" where
  "implements wm c df i r \<longleftrightarrow> region_ok r \<and> c df (bar_reg i) = low_value r \<and> wm df (bar_reg i) = low_writable r
     \<and> (case r of Region64 p k b \<Rightarrow> c df (bar_reg (i + 1)) = ucast (drop_bit 32 b) \<and> wm df (bar_reg (i + 1)) = ucast (drop_bit 32 (NOT (mask k) :: u64))
        | _ \<Rightarrow> True)"

text \<open>What should be reported for it.\<close>

fun reported :: "region \<Rightarrow> pci_bar_info option" where
  "reported Unused = None"
| "reported (IoRegion k b) = Some (IOBar b (2 ^ k))"
| "reported (Region32 p k b) = Some (MemoryBar Width32 p (ucast b) (2 ^ k))"
| "reported (Region64 p k b) = Some (MemoryBar Width64 p b (2 ^ k))"

section \<open>What a size mask says\<close>

lemma take_bit_zeroD: "take_bit k (b :: 'a::len word) = 0 \<Longrightarrow> bit b n \<Longrightarrow> k \<le> n"
  by (metis bit_0_eq bit_take_bit_iff bot_apply bot_bool_def linorder_not_le)

lemma not_mask_size: "NOT (NOT (mask k)) + 1 = (2 ^ k :: u64)"
  by (simp add: mask_eq_exp_minus_1)

lemma all_ones: "0xffffffff = (mask 32 :: u64)" "0xffffffff = (- 1 :: u32)"
  by (simp_all add: mask_eq_exp_minus_1)

text \<open>The part of the mask above the flags, where the fixed bits of the register are only flags.\<close>

lemma size_mask_32:
  assumes "fl \<le> k" "k < 32" "\<And>n. bit v n \<Longrightarrow> n < fl \<or> k \<le> n"
  shows "(ucast (mix (NOT (mask k)) 0xffffffff v) OR push_bit 32 (ucast (0xffffffff :: u32))) AND NOT (mask fl) = NOT (mask k :: u64)"
  unfolding all_ones using assms(1,2)
  by (intro bit_word_eqI) (auto simp: mix_def bit_simps dest: assms(3))

lemma size_mask_64:
  assumes "4 \<le> k" "k < 64" "\<And>n. bit v n \<Longrightarrow> n < 4 \<or> k \<le> n" "\<And>n. bit t n \<Longrightarrow> k \<le> 32 + n"
  shows "(ucast (mix (ucast (NOT (mask k) :: u64)) 0xffffffff v)
      OR push_bit 32 (ucast (mix (ucast (drop_bit 32 (NOT (mask k) :: u64))) 0xffffffff t))) AND NOT (mask 4) = NOT (mask k :: u64)"
  unfolding all_ones using assms(1,2)
  by (intro bit_word_eqI) (auto simp: mix_def bit_simps dest: assms(3,4))

lemma not_mask_nonzero: "M AND x = NOT (mask k :: u64) \<Longrightarrow> k < 64 \<Longrightarrow> M \<noteq> 0"
  by (auto simp: bit_eq_iff bit_simps)

lemma decode_io:
  assumes "v AND 1 = 1" "M AND NOT (mask 2) = NOT (mask k)" "k < 32"
  shows "decode_bar v t M = Inr (Some (IOBar (v AND NOT (mask 2)) (2 ^ k)))"
proof -
  have c: "(3 :: u64) = mask 2" "(0xfffffffc :: u32) = NOT (mask 2)" by (simp_all add: mask_eq_exp_minus_1)
  have sz: "NOT (M AND NOT 3) + 1 = 2 ^ k" by (simp only: c assms(2) not_mask_size)
  have "(ucast (2 ^ k :: u64) :: u32) = 2 ^ k" using assms(3) by (intro bit_word_eqI) (auto simp: bit_simps)
  moreover have "M \<noteq> 0" using assms(2,3) by (intro not_mask_nonzero) auto
  ultimately show ?thesis using assms(1) unfolding decode_bar_def Let_def c(2) by (simp only: sz if_True if_False simp_thms)
qed

lemma decode_memory:
  assumes "v AND 1 = 0" "M AND NOT (mask 4) = NOT (mask k)" "k < 64"
  shows "decode_bar v t M = (case bar_type_try_from (ucast (drop_bit 1 (v AND 6))) of Inl e \<Rightarrow> Inl e
     | Inr ty \<Rightarrow> Inr (Some (MemoryBar ty (v AND 8 \<noteq> 0) (ucast (v AND NOT (mask 4)) OR push_bit 32 (ucast t)) (2 ^ k))))"
proof -
  have c: "(15 :: u64) = mask 4" "(0xfffffff0 :: u32) = NOT (mask 4)" by (simp_all add: mask_eq_exp_minus_1)
  have sz: "NOT (M AND NOT 15) + 1 = 2 ^ k" by (simp only: c assms(2) not_mask_size)
  have "M \<noteq> 0" using assms(2,3) by (rule not_mask_nonzero)
  moreover have "v AND 1 \<noteq> 1" using assms(1) by simp
  ultimately show ?thesis unfolding decode_bar_def Let_def c(2) by (simp only: sz if_True if_False simp_thms)
qed

text \<open>The bits of a register with base \<open>b\<close> and flags \<open>f\<close>.\<close>

lemma flags_and:
  assumes "take_bit k b = 0" "m AND mask k = m"
  shows "(b OR f) AND m = f AND (m :: u32)"
proof -
  have "bit m n \<Longrightarrow> n < k" for n using assms(2) by (metis bit_and_iff bit_mask_iff)
  then show ?thesis using take_bit_zeroD [OF assms(1)] by (intro bit_word_eqI) (fastforce simp: bit_simps)
qed

lemma base_and:
  assumes "take_bit k b = 0" "f AND mask fl = f" "fl \<le> k"
  shows "(b OR f) AND NOT (mask fl) = (b :: u32)" "bit (b OR f) n \<Longrightarrow> n < fl \<or> k \<le> n"
proof -
  have f: "bit f n \<Longrightarrow> n < fl" for n using assms(2) by (metis bit_and_iff bit_mask_iff)
  note b = take_bit_zeroD [OF assms(1)]
  show "(b OR f) AND NOT (mask fl) = b" using assms(3) by (intro bit_word_eqI) (auto simp: bit_simps dest: f b)
  show "bit (b OR f) n \<Longrightarrow> n < fl \<or> k \<le> n" by (auto simp: bit_simps dest: f b)
qed


section \<open>\<open>bar_info\<close> over the registers\<close>

definition set_reg :: "device_function \<Rightarrow> u8 \<Rightarrow> u32 \<Rightarrow> config_space \<Rightarrow> config_space" where
  "set_reg df r v c = c(df := (c df)(r := v))"

lemma read_registers [simp]: "read_word (registers wm) df r c = c df r"
  by (simp add: registers_def)

lemma write_registers: "write_word (registers wm) df r w c = set_reg df r (mix (wm df r) w (c df r)) c"
  by (simp add: registers_def set_reg_def)

lemma set_reg_same [simp]: "set_reg df r v c df r = v" "set_reg df r v (set_reg df r v' c) = set_reg df r v c"
  "set_reg df r (c df r) c = c"
  by (simp_all add: set_reg_def)

lemma set_reg_other: "r \<noteq> r' \<Longrightarrow> set_reg df r v c df r' = c df r'"
  "r \<noteq> r' \<Longrightarrow> set_reg df r v (set_reg df r' v' c) = set_reg df r' v' (set_reg df r v c)"
  by (simp_all add: set_reg_def fun_upd_twist)

lemma mix_back: "mix m v (mix m w v) = v"
  by (rule bit_word_eqI) (auto simp: mix_def bit_simps)

lemma mix_command: "m AND ucast known_command = m \<Longrightarrow> mix m (ucast (ucast v AND known_command :: u16)) (mix m w v) = v"
proof -
  assume m: "m AND ucast known_command = m"
  have "bit known_command n \<and> n < 16" if "bit m n" for n
  proof -
    have "bit (m AND ucast known_command) n" using m that by simp
    then have k: "bit known_command n" by (simp add: bit_simps)
    then show ?thesis using bit_imp_le_length [OF k] by simp
  qed
  then show ?thesis by (intro bit_word_eqI) (auto simp: mix_def bit_simps)
qed

lemma below_6: "(i :: u8) < 6 \<Longrightarrow> i \<in> {0, 1, 2, 3, 4, 5}"
proof -
  assume "i < 6"
  then have "unat i < 6" by (simp add: word_less_nat_alt)
  then have "unat i \<in> {0, 1, 2, 3, 4, 5}" by auto
  then have "of_nat (unat i) \<in> (of_nat ` {0, 1, 2, 3, 4, 5} :: u8 set)" by (rule imageI)
  then show ?thesis by simp
qed

lemma bar_regs_distinct:
  assumes "i < 6" shows "bar_reg i \<noteq> 4" "bar_reg (i + 1) \<noteq> 4" "bar_reg (i + 1) \<noteq> bar_reg i"
  using below_6 [OF assms] by (auto simp: bar_reg_def BAR0_OFFSET_def)

text \<open>Of the status and command register, only command bits the driver knows can be written.\<close>

definition command_ok :: "config_space \<Rightarrow> device_function \<Rightarrow> bool" where
  "command_ok wm df \<longleftrightarrow> wm df STATUS_COMMAND_OFFSET AND ucast known_command = wm df STATUS_COMMAND_OFFSET"

lemma bar_info_registers:
  fixes wm c :: config_space
  assumes cmd: "command_ok wm df" and i: "i < 6"
  defines "v \<equiv> c df (bar_reg i)" and "m \<equiv> mix (wm df (bar_reg i)) 0xffffffff (c df (bar_reg i))"
    and "t \<equiv> c df (bar_reg (i + 1))" and "mt \<equiv> mix (wm df (bar_reg (i + 1))) 0xffffffff (c df (bar_reg (i + 1)))"
  assumes two: "v AND 7 = 4 \<Longrightarrow> i < 5"
  shows "bar_info (registers wm) df i c = (if v AND 7 = 4 then decode_bar v t (ucast m OR push_bit 32 (ucast mt))
     else decode_bar v 0 (ucast m OR push_bit 32 (ucast (if m = 0 then 0 else 0xffffffff :: u32))), c)"
proof -
  define on where "on = snd (get_status_command (registers wm) df c)"
  define dis where "dis = on AND NOT (IO_SPACE OR MEMORY_SPACE)"
  define c1 where "c1 = (if dis \<noteq> on then set_reg df 4 (mix (wm df 4) (ucast dis) (c df 4)) c else c)"
  note d = bar_regs_distinct [OF i]
  have on: "mix (wm df 4) (ucast on) (mix (wm df 4) w (c df 4)) = c df 4" for w
    using mix_command [OF cmd [unfolded command_ok_def STATUS_COMMAND_OFFSET_def]] by (simp add: on_def get_status_command_def Let_def STATUS_COMMAND_OFFSET_def)
  have c1: "c1 df (bar_reg i) = v" "c1 df (bar_reg (i + 1)) = t" using d by (simp_all add: c1_def set_reg_other v_def t_def)
  have start: "(if dis \<noteq> on then set_command (registers wm) df dis c else c) = c1"
    by (simp add: c1_def set_command_def write_registers STATUS_COMMAND_OFFSET_def)
  have finish: "(if dis \<noteq> on then set_command (registers wm) df on c1 else c1) = c"
    by (simp add: c1_def set_command_def write_registers STATUS_COMMAND_OFFSET_def on)
  define c2 where "c2 = set_reg df (bar_reg i) m c1"
  define c3 where "c3 = set_reg df (bar_reg (i + 1)) mt c2"
  have c2: "c2 df (bar_reg (i + 1)) = t" "c2 df (bar_reg i) = m" using d c1 by (simp_all add: c2_def set_reg_other)
  have p1: "probe (registers wm) df (bar_reg i) c1 = (m, c2)"
    by (simp add: probe_def write_registers c1 c2_def m_def v_def)
  have p2: "probe (registers wm) df (bar_reg (i + 1)) c2 = (mt, c3)"
    by (simp add: probe_def write_registers c2 c3_def mt_def t_def)
  have w2: "write_word (registers wm) df (bar_reg (i + 1)) t c3 = c2"
    using c2(1) by (simp add: c3_def write_registers mt_def t_def mix_back) (metis set_reg_same(3))
  have w1: "write_word (registers wm) df (bar_reg i) v c2 = c1"
    using c1(1) by (simp add: c2_def write_registers m_def v_def mix_back) (metis set_reg_same(3))
  show ?thesis
    unfolding bar_info_def Let_def on_def [symmetric] dis_def [symmetric] start p1
    using two by (cases "v AND 7 = 4") (simp_all add: c1 c2 p2 w1 w2 finish not_le [symmetric] split del: if_split cong: if_cong)
qed

lemma mix_nonzero: "k < 32 \<Longrightarrow> mix (NOT (mask k)) 0xffffffff v \<noteq> 0"
proof
  assume "k < 32" "mix (NOT (mask k)) 0xffffffff v = 0"
  moreover have "bit (mix (NOT (mask k)) 0xffffffff v) k" if "k < 32" using that unfolding all_ones by (simp add: mix_def bit_simps)
  ultimately show False by simp
qed

lemma flag_tests:
  assumes "take_bit k b = 0" "4 \<le> k"
  shows "(b OR f) AND 7 = f AND (7 :: u32)" "(b OR f) AND 1 = f AND 1" "(b OR f) AND 6 = f AND 6" "(b OR f) AND 8 = f AND 8"
proof -
  have "take_bit 4 b = 0" using assms by (metis min.absorb1 take_bit_take_bit take_bit_of_0)
  then show "(b OR f) AND 7 = f AND 7" "(b OR f) AND 1 = f AND 1" "(b OR f) AND 6 = f AND 6" "(b OR f) AND 8 = f AND 8"
    by (auto intro!: flags_and simp: mask_eq_exp_minus_1)
qed

lemma halves: "ucast (ucast (b :: u64) :: u32) OR push_bit 32 (ucast (ucast (drop_bit 32 b) :: u32)) = b"
  by (rule bit_word_eqI) (auto simp: bit_simps)

lemma low_take: "take_bit k (b :: u64) = 0 \<Longrightarrow> take_bit k (ucast b :: u32) = 0"
  by (intro bit_word_eqI) (auto simp: bit_simps dest: take_bit_zeroD)

lemma bar_info_io:
  assumes cmd: "command_ok wm df" and i: "i < 6" and r: "implements wm c df i (IoRegion k b)"
  shows "bar_info (registers wm) df i c = (Inr (reported (IoRegion k b)), c)"
proof -
  note info = bar_info_registers [where wm = wm and df = df and c = c and i = i, OF cmd i]
  have k: "2 \<le> k" "k < 32" "take_bit k b = 0" and v: "c df (bar_reg i) = b OR 1" "wm df (bar_reg i) = NOT (mask k)"
    using r by (auto simp: implements_def)
  have f: "(1 :: u32) AND mask 2 = 1" by (simp add: mask_eq_exp_minus_1)
  note bb = base_and [OF k(3) f k(1)]
  have one: "(b OR 1) AND 1 = 1" by (rule bit_word_eqI) (auto simp: bit_simps)
  have "(b OR 1) AND 7 \<noteq> 4"
  proof
    assume "(b OR 1) AND 7 = 4"
    then have "(b OR 1) AND 7 AND 1 = 4 AND 1" by (simp only: and.assoc [symmetric])
    then show False using one by (simp add: and.assoc)
  qed
  then show ?thesis using info decode_io [OF one size_mask_32 [OF k(1,2) bb(2)] k(2)] mix_nonzero [OF k(2)] bb(1)
    by (simp add: v)
qed

lemma bar_info_32:
  assumes cmd: "command_ok wm df" and i: "i < 6" and r: "implements wm c df i (Region32 p k b)"
  shows "bar_info (registers wm) df i c = (Inr (reported (Region32 p k b)), c)"
proof -
  note info = bar_info_registers [where wm = wm and df = df and c = c and i = i, OF cmd i]
  define f :: u32 where "f = (if p then 8 else 0)"
  have k: "4 \<le> k" "k < 32" "take_bit k b = 0" and v: "c df (bar_reg i) = b OR f" "wm df (bar_reg i) = NOT (mask k)"
    using r by (auto simp: implements_def f_def)
  have f: "f AND mask 4 = f" by (simp add: f_def mask_eq_exp_minus_1)
  note bb = base_and [OF k(3) f k(1)] and t = flag_tests [OF k(3,1), of f]
  have one: "(b OR f) AND 1 = 0" "(b OR f) AND 7 \<noteq> 4" "bar_type_try_from (ucast (drop_bit 1 ((b OR f) AND 6))) = Inr Width32"
    "(b OR f) AND 8 \<noteq> 0 \<longleftrightarrow> p"
    unfolding t by (simp_all add: f_def bar_type_try_from_def)
  show ?thesis using info decode_memory [OF one(1) size_mask_32 [OF k(1,2) bb(2)]] k mix_nonzero [OF k(2)]
    unfolding v bb(1) one by (simp add: one)
qed

lemma bar_info_64:
  assumes cmd: "command_ok wm df" and i: "i < 5" and r: "implements wm c df i (Region64 p k b)"
  shows "bar_info (registers wm) df i c = (Inr (reported (Region64 p k b)), c)"
proof -
  have i6: "i < 6" using i by (rule less_trans) simp
  note info = bar_info_registers [where wm = wm and df = df and c = c and i = i, OF cmd i6]
  define f :: u32 where "f = (if p then 12 else 4)"
  have k: "4 \<le> k" "k < 64" "take_bit k b = 0" and v: "c df (bar_reg i) = ucast b OR f" "wm df (bar_reg i) = ucast (NOT (mask k) :: u64)"
    "c df (bar_reg (i + 1)) = ucast (drop_bit 32 b)" "wm df (bar_reg (i + 1)) = ucast (drop_bit 32 (NOT (mask k) :: u64))"
    using r by (auto simp: implements_def f_def)
  have f: "f AND mask 4 = f" by (simp add: f_def mask_eq_exp_minus_1)
  note kb = low_take [OF k(3)]
  note bb = base_and [OF kb f k(1)] and t = flag_tests [OF kb k(1), of f]
  have one: "(ucast b OR f) AND 1 = 0" "(ucast b OR f) AND 7 = 4" "bar_type_try_from (ucast (drop_bit 1 ((ucast b OR f) AND 6))) = Inr Width64"
    "(ucast b OR f) AND 8 \<noteq> 0 \<longleftrightarrow> p"
    unfolding t by (simp_all add: f_def bar_type_try_from_def)
  have top: "k \<le> 32 + n" if "bit (ucast (drop_bit 32 b) :: u32) n" for n
    using that take_bit_zeroD [OF k(3), of "32 + n"] by (auto simp: bit_simps)
  show ?thesis using info i decode_memory [OF one(1) size_mask_64 [OF k(1,2) bb(2) top] k(2)]
    unfolding v bb(1) one halves by (simp add: one halves)
qed

lemma bar_info_exact:
  assumes cmd: "command_ok wm df" and i: "i < 6" and r: "implements wm c df i r"
    and two: "\<And>p k b. r = Region64 p k b \<Longrightarrow> i < 5"
  shows "bar_info (registers wm) df i c = (Inr (reported r), c)"
proof (cases r)
  case Unused
  then show ?thesis using r bar_info_registers [where wm = wm and df = df and c = c and i = i, OF cmd i]
    by (simp add: implements_def mix_def decode_bar_def)
qed (use r two bar_info_io [OF cmd i] bar_info_32 [OF cmd i] bar_info_64 [OF cmd] in simp_all)

section \<open>All six registers\<close>

text \<open>How many registers a region takes, what is reported for a list of regions, and that they fill the registers from \<open>i\<close>.\<close>

fun width :: "region \<Rightarrow> nat" where
  "width (Region64 _ _ _) = 2"
| "width _ = 1"

fun entries :: "region list \<Rightarrow> pci_bar_info option list" where
  "entries [] = []"
| "entries (r # rs) = reported r # replicate (width r - 1) None @ entries rs"

fun laid_out :: "config_space \<Rightarrow> config_space \<Rightarrow> device_function \<Rightarrow> nat \<Rightarrow> region list \<Rightarrow> bool" where
  "laid_out wm c df i [] \<longleftrightarrow> i = 6"
| "laid_out wm c df i (r # rs) \<longleftrightarrow> i + width r \<le> 6 \<and> implements wm c df (of_nat i) r \<and> laid_out wm c df (i + width r) rs"

lemma put_entry:
  assumes "drop i bs = replicate (Suc m + l) x" "i \<le> length bs"
  shows "take (i + Suc m) (bs[i := y]) = take i bs @ y # replicate m x" "drop (i + Suc m) (bs[i := y]) = replicate l x"
proof -
  define pre where "pre = take i bs"
  have pre: "length pre = i" using assms(2) by (simp add: pre_def)
  have "bs = pre @ x # replicate m x @ replicate l x"
    using append_take_drop_id [of i bs] by (simp add: assms(1) pre_def replicate_add)
  then have "bs[i := y] = (pre @ y # replicate m x) @ replicate l x" using pre by (simp add: list_update_append)
  then show "take (i + Suc m) (bs[i := y]) = take i bs @ y # replicate m x" "drop (i + Suc m) (bs[i := y]) = replicate l x"
    using pre by (simp_all only: pre_def [symmetric]) simp_all
qed

lemma bars_loop_exact:
  assumes "command_ok wm df" "laid_out wm c df i rs" "length bs = 6" "drop i bs = replicate (6 - i) None" "i \<le> 6"
  shows "bars_loop (registers wm) df i bs c = (Inr (take i bs @ entries rs), c)"
  using assms(2-)
proof (induction rs arbitrary: i bs)
  case Nil
  then show ?case by (simp add: bars_loop.simps)
next
  case (Cons r rs)
  have w: "1 \<le> width r" by (cases r) simp_all
  have i: "i < 6" "(of_nat i :: u8) < 6" using Cons.prems(1) w by (simp_all add: word_less_nat_alt unat_of_nat)
  have "(of_nat i :: u8) < 5" if "r = Region64 p k b" for p k b
    using Cons.prems(1) that by (simp add: word_less_nat_alt unat_of_nat)
  then have info: "bar_info (registers wm) df (of_nat i) c = (Inr (reported r), c)"
    using Cons.prems(1) by (intro bar_info_exact [OF assms(1) i(2)]) simp_all
  have step: "(case reported r of Some b \<Rightarrow> if takes_two_entries b then 2 else 1 | None \<Rightarrow> 1) = width r"
    by (cases r) (simp_all add: takes_two_entries_def)
  have n: "6 - i = Suc (width r - 1) + (6 - (i + width r))" "Suc (width r - 1) = width r" using Cons.prems(1) w by auto
  have put: "take (i + width r) (bs[i := reported r]) = take i bs @ reported r # replicate (width r - 1) None"
    "drop (i + width r) (bs[i := reported r]) = replicate (6 - (i + width r)) None"
    using put_entry [of i bs "width r - 1" "6 - (i + width r)" None "reported r", unfolded n(2), OF Cons.prems(3) [unfolded n(1) n(2)]]
      Cons.prems(2,4) by simp_all
  have "bars_loop (registers wm) df i bs c = bars_loop (registers wm) df (i + width r) (bs[i := reported r]) c"
    using i(1) by (subst bars_loop.simps) (simp add: info step)
  also have "\<dots> = (Inr (take (i + width r) (bs[i := reported r]) @ entries rs), c)"
    using Cons.prems by (intro Cons.IH put(2)) simp_all
  finally show ?case by (simp add: put(1))
qed

text \<open>
  C33. Sizing the base address registers is exact and leaves no trace. For a device whose writable command bits are the
  ones the driver knows and whose six registers lay out the regions \<open>rs\<close>, \<open>bars\<close> succeeds, reports for every region its kind,
  its prefetchable flag, its base and its size (a power of two, up to \<open>2 ^ 31\<close> or, in a pair of registers, \<open>2 ^ 63\<close>) and
  nothing for an unused register or the second of a pair, and the configuration space is afterwards as it was.\<close>
theorem bars_exact:
  assumes "command_ok wm df" "laid_out wm c df 0 rs"
  shows "bars (registers wm) df c = (Inr (entries rs), c)"
  unfolding bars_def using bars_loop_exact [OF assms, of "replicate 6 None"] by simp

text \<open>A device with a region of 4 KiB, a prefetchable one of 8 GiB, sixteen ports and an unused register.\<close>

definition some_regions :: "region list" where
  "some_regions = [Region32 False 12 0xfe000000, Region64 True 33 0x800000000, IoRegion 4 0xc000, Unused, Unused]"

definition some_space :: config_space where
  "some_space df reg = (if reg = 4 then 7 else if reg = 0x10 then 0xfe000000 else if reg = 0x14 then 12 else if reg = 0x18 then 8
     else if reg = 0x1c then 0xc001 else 0)"

definition some_writable :: config_space where
  "some_writable df reg = (if reg = 4 then 7 else if reg = 0x10 then 0xfffff000 else if reg = 0x14 then 0 else if reg = 0x18 then 0xfffffffe
     else if reg = 0x1c then 0xfffffff0 else 0)"

theorem bars_exact_witness:
  "bars (registers some_writable) \<lparr>bus = 0, device = 1, func = 0\<rparr> some_space
    = (Inr [Some (MemoryBar Width32 False 0xfe000000 0x1000), Some (MemoryBar Width64 True 0x800000000 0x200000000), None,
        Some (IOBar 0xc000 16), None, None], some_space)"
proof -
  let ?df = "\<lparr>bus = 0, device = 1, func = 0\<rparr>"
  have "command_ok some_writable ?df"
    by (simp add: command_ok_def some_writable_def STATUS_COMMAND_OFFSET_def known_command_def)
  moreover have "laid_out some_writable some_space ?df 0 some_regions"
    by (simp add: some_regions_def implements_def some_writable_def some_space_def bar_reg_def BAR0_OFFSET_def mask_eq_exp_minus_1)
  ultimately show ?thesis using bars_exact [of some_writable ?df some_space some_regions] by (simp add: some_regions_def)
qed

end
