(* ===== verification/Pci_Transport_Spec.thy ===== *)
theory Pci_Transport_Spec
  imports Pci_Transport Pci_Bar_Spec
begin

text \<open>
  What the PCI transport promises. Over registers that behave as the virtio standard describes them, where features are read
  and written in two halves and the registers of all queues share one window, the operations of the transport are those of
  the device behind the window. The constructor finds the first structure of each kind and maps it where its base address
  register says, and leaves the configuration space as it was.
\<close>

section \<open>The registers of a virtio device\<close>

record queue_regs =
  q_size :: u16
  q_enable :: u16
  q_notify_off :: u16
  q_desc :: u64
  q_driver :: u64
  q_device :: u64

text \<open>Offered and accepted features, status, generation of the configuration, interrupt status, queues, the notifications so
  far (where and what was written), and the registers that select what the window shows.\<close>

record virtio_regs =
  r_offered :: u64
  r_accepted :: u64
  r_status :: u8
  r_generation :: u8
  r_isr :: u8
  r_queues :: "u16 \<Rightarrow> queue_regs"
  r_notified :: "(u64 \<times> u16) list"
  r_device_sel :: u32
  r_driver_sel :: u32
  r_queue_sel :: u16

definition selected :: "virtio_regs \<Rightarrow> queue_regs" where
  "selected r = r_queues r (r_queue_sel r)"

definition half :: "u32 \<Rightarrow> u64 \<Rightarrow> u32" where
  "half sel w = (if sel = 0 then ucast w else if sel = 1 then ucast (drop_bit 32 w) else 0)"

definition set_half :: "u32 \<Rightarrow> u32 \<Rightarrow> u64 \<Rightarrow> u64" where
  "set_half sel v w = (if sel = 0 then ucast v OR push_bit 32 (ucast (half 1 w))
     else if sel = 1 then ucast (half 0 w) OR push_bit 32 (ucast v) else w)"

fun reg_read :: "common_field \<Rightarrow> virtio_regs \<Rightarrow> u64" where
  "reg_read Device_feature r = ucast (half (r_device_sel r) (r_offered r))"
| "reg_read Driver_feature r = ucast (half (r_driver_sel r) (r_accepted r))"
| "reg_read Device_status r = ucast (r_status r)"
| "reg_read Config_generation r = ucast (r_generation r)"
| "reg_read Device_feature_select r = ucast (r_device_sel r)"
| "reg_read Driver_feature_select r = ucast (r_driver_sel r)"
| "reg_read Queue_select r = ucast (r_queue_sel r)"
| "reg_read Queue_size r = ucast (q_size (selected r))"
| "reg_read Queue_enable r = ucast (q_enable (selected r))"
| "reg_read Queue_notify_off r = ucast (q_notify_off (selected r))"
| "reg_read Queue_desc r = q_desc (selected r)"
| "reg_read Queue_driver r = q_driver (selected r)"
| "reg_read Queue_device r = q_device (selected r)"
| "reg_read _ r = 0"

definition set_queue :: "(queue_regs \<Rightarrow> queue_regs) \<Rightarrow> virtio_regs \<Rightarrow> virtio_regs" where
  "set_queue f r = r\<lparr>r_queues := (r_queues r)(r_queue_sel r := f (selected r))\<rparr>"

text \<open>Writing zero to the status resets the device.\<close>

definition reset_regs :: "virtio_regs \<Rightarrow> virtio_regs" where
  "reset_regs r = r\<lparr>r_accepted := 0, r_status := 0, r_isr := 0, r_queues := (\<lambda>q. (r_queues r q)\<lparr>q_enable := 0\<rparr>)\<rparr>"

fun reg_write :: "common_field \<Rightarrow> u64 \<Rightarrow> virtio_regs \<Rightarrow> virtio_regs" where
  "reg_write Device_feature_select v r = r\<lparr>r_device_sel := ucast v\<rparr>"
| "reg_write Driver_feature_select v r = r\<lparr>r_driver_sel := ucast v\<rparr>"
| "reg_write Driver_feature v r = r\<lparr>r_accepted := set_half (r_driver_sel r) (ucast v) (r_accepted r)\<rparr>"
| "reg_write Device_status v r = (if (ucast v :: u8) = 0 then reset_regs r else r\<lparr>r_status := ucast v\<rparr>)"
| "reg_write Queue_select v r = r\<lparr>r_queue_sel := ucast v\<rparr>"
| "reg_write Queue_size v r = set_queue (q_size_update (\<lambda>_. ucast v)) r"
| "reg_write Queue_enable v r = set_queue (q_enable_update (\<lambda>_. ucast v)) r"
| "reg_write Queue_desc v r = set_queue (q_desc_update (\<lambda>_. v)) r"
| "reg_write Queue_driver v r = set_queue (q_driver_update (\<lambda>_. v)) r"
| "reg_write Queue_device v r = set_queue (q_device_update (\<lambda>_. v)) r"
| "reg_write _ v r = r"

text \<open>The mapped memory is the window of such a device: \<open>\<alpha>\<close> is the device a memory state stands for.\<close>

definition serves :: "'m mmio \<Rightarrow> pci_transport \<Rightarrow> ('m \<Rightarrow> virtio_regs) \<Rightarrow> bool" where
  "serves io t \<alpha> \<longleftrightarrow> (\<forall>f m. read_field io t f m = reg_read f (\<alpha> m))
     \<and> (\<forall>f v m. \<alpha> (write_field io t f v m) = reg_write f v (\<alpha> m))
     \<and> (\<forall>i v m. i < snd (pt_notify_region t) \<longrightarrow> \<alpha> (mmio_write io 2 (fst (pt_notify_region t) + 2 * i) v m)
           = (\<alpha> m)\<lparr>r_notified := r_notified (\<alpha> m) @ [(2 * i, ucast v)]\<rparr>)
     \<and> (\<forall>m. fst (mmio_read io 1 (pt_isr_status t) m) = ucast (r_isr (\<alpha> m))
           \<and> \<alpha> (snd (mmio_read io 1 (pt_isr_status t) m)) = (\<alpha> m)\<lparr>r_isr := 0\<rparr>)"

text \<open>The device without what the window shows.\<close>

definition core :: "virtio_regs \<Rightarrow> virtio_regs" where
  "core r = r\<lparr>r_device_sel := 0, r_driver_sel := 0, r_queue_sel := 0\<rparr>"

section \<open>The operations are those of the device\<close>

lemma serves_read: "serves io t \<alpha> \<Longrightarrow> read_field io t f m = reg_read f (\<alpha> m)"
  by (simp add: serves_def)

lemma serves_write: "serves io t \<alpha> \<Longrightarrow> \<alpha> (write_field io t f v m) = reg_write f v (\<alpha> m)"
  by (simp add: serves_def)

lemma halves_join [simp]: "ucast (half 0 w) OR push_bit 32 (ucast (half 1 w)) = w"
  using halves [of w] by (simp add: half_def)

lemma half_join [simp]: "half 0 (ucast a OR push_bit 32 (ucast b)) = a" "half 1 (ucast a OR push_bit 32 (ucast b)) = b"
proof -
  have a: "\<not> bit a (32 + n)" for n using bit_imp_le_length [of a "32 + n"] by auto
  show "half 0 (ucast a OR push_bit 32 (ucast b)) = a" "half 1 (ucast a OR push_bit 32 (ucast b)) = b"
    by (auto simp: half_def bit_simps a intro!: bit_word_eqI)
qed

lemma ucast_up_down [simp]: "(ucast (ucast (x :: u32) :: u64) :: u32) = x" "(ucast (ucast (y :: u16) :: u64) :: u16) = y"
  "(ucast (ucast (z :: u8) :: u64) :: u8) = z"
  by (auto intro!: bit_word_eqI simp: bit_simps)

lemmas window = serves_read serves_write core_def selected_def set_queue_def Let_def

lemma features_read:
  assumes "serves io t \<alpha>"
  shows "fst (pci_read_device_features io t m) = r_offered (\<alpha> m)
    \<and> core (\<alpha> (snd (pci_read_device_features io t m))) = core (\<alpha> m)"
  using assms by (simp add: pci_read_device_features_def window)

lemma features_write:
  assumes "serves io t \<alpha>"
  shows "core (\<alpha> (pci_write_driver_features io t w m)) = (core (\<alpha> m))\<lparr>r_accepted := w\<rparr>"
  using assms halves [of w] by (simp add: pci_write_driver_features_def window set_half_def)

lemma queue_window:
  assumes "serves io t \<alpha>"
  shows "fst (pci_max_queue_size io t q m) = ucast (q_size (r_queues (\<alpha> m) q))
      \<and> core (\<alpha> (snd (pci_max_queue_size io t q m))) = core (\<alpha> m)"
    and "fst (pci_queue_used io t q m) = (q_enable (r_queues (\<alpha> m) q) = 1) \<and> core (\<alpha> (snd (pci_queue_used io t q m))) = core (\<alpha> m)"
  using assms by (simp_all add: pci_max_queue_size_def pci_queue_used_def window)

lemma queue_setup:
  assumes "serves io t \<alpha>"
  shows "core (\<alpha> (pci_queue_set io t q n d a u m)) = (core (\<alpha> m))\<lparr>r_queues := (r_queues (\<alpha> m))(q :=
      \<lparr>q_size = ucast n, q_enable = 1, q_notify_off = q_notify_off (r_queues (\<alpha> m) q), q_desc = d, q_driver = a, q_device = u\<rparr>)\<rparr>"
  using assms by (cases "r_queues (\<alpha> m) q") (simp add: pci_queue_set_def window)

lemma status_set:
  assumes "serves io t \<alpha>"
  shows "\<alpha> (pci_set_status io t s m) = (if (ucast s :: u8) = 0 then reset_regs (\<alpha> m) else (\<alpha> m)\<lparr>r_status := ucast s\<rparr>)"
    and "pci_get_status io t m = ucast (r_status (\<alpha> m)) AND known_device_status"
  using assms by (simp_all add: pci_set_status_def pci_get_status_def serves_read serves_write)

lemma isr_read:
  assumes "serves io t \<alpha>"
  shows "fst (pci_ack_interrupt io t m) = ucast (r_isr (\<alpha> m)) \<and> \<alpha> (snd (pci_ack_interrupt io t m)) = (\<alpha> m)\<lparr>r_isr := 0\<rparr>"
  using assms by (simp add: pci_ack_interrupt_def serves_def split_beta)

text \<open>The byte of the notification region a queue is notified at.\<close>

definition notify_place :: "pci_transport \<Rightarrow> queue_regs \<Rightarrow> nat" where
  "notify_place t qr = unat (q_notify_off qr) * unat (pt_notify_off_multiplier t)"

lemma serves_notify:
  assumes "serves io t \<alpha>" "i < snd (pt_notify_region t)"
  shows "\<alpha> (mmio_write io 2 (fst (pt_notify_region t) + 2 * i) v m) = (\<alpha> m)\<lparr>r_notified := r_notified (\<alpha> m) @ [(2 * i, ucast v)]\<rparr>"
  using assms by (simp add: serves_def)

lemma unat_up: "unat (ucast (x :: u16) :: u64) = unat x" "unat (ucast (y :: u32) :: u64) = unat y"
  using unsigned_less [of x, where 'a = nat] unsigned_less [of y, where 'a = nat]
  by (simp_all add: unsigned_ucast_eq take_bit_nat_eq_self_iff)

lemma notify_queue:
  assumes "serves io t \<alpha>" "even (unat (pt_notify_off_multiplier t))"
  shows "if notify_place t (r_queues (\<alpha> m) q) div 2 < unat (snd (pt_notify_region t))
    then \<exists>m'. pci_notify io t q m = Some m' \<and> core (\<alpha> m')
      = (core (\<alpha> m))\<lparr>r_notified := r_notified (\<alpha> m) @ [(of_nat (notify_place t (r_queues (\<alpha> m) q)), q)]\<rparr>
    else pci_notify io t q m = None"
proof -
  define off mult where "off = q_notify_off (r_queues (\<alpha> m) q)" and "mult = pt_notify_off_multiplier t"
  define b :: u64 where "b = ucast off * ucast mult"
  have "unat off < 2 ^ 16" "unat mult < 2 ^ 32" using unsigned_less [of off] unsigned_less [of mult] by simp_all
  then have "unat off * unat mult < 2 ^ 16 * 2 ^ 32" by (intro mult_strict_mono) simp_all
  then have b: "unat b = unat off * unat mult"
    by (simp add: b_def unat_word_ariths unat_up)
  define m1 where "m1 = write_field io t Queue_select (ucast q) m"
  have m1: "\<alpha> m1 = (\<alpha> m)\<lparr>r_queue_sel := q\<rparr>" using assms(1) by (simp add: m1_def window)
  have off: "ucast (read_field io t Queue_notify_off m1) = off" using assms(1) by (simp add: serves_read m1 selected_def off_def)
  have place: "notify_place t (r_queues (\<alpha> m) q) = unat b" by (simp add: notify_place_def b off_def mult_def)
  have "even (unat b)" using assms(2) by (simp add: b mult_def)
  then have "2 * (unat b div 2) = unat b" by simp
  then have twice: "2 * (b div 2) = b"
    using unsigned_less [of b, where 'a = nat] by (simp add: word_unat_eq_iff unat_word_ariths unat_div)
  have lt: "b div 2 < n \<longleftrightarrow> unat b div 2 < unat n" for n by (simp add: word_less_nat_alt unat_div)
  have "pci_notify io t q m = (if b div 2 < snd (pt_notify_region t)
      then Some (mmio_write io 2 (fst (pt_notify_region t) + 2 * (b div 2)) (ucast q) m1) else None)"
    by (simp add: pci_notify_def Let_def m1_def [symmetric] off b_def mult_def assert_def)
  moreover have "\<alpha> (mmio_write io 2 (fst (pt_notify_region t) + b) (ucast q) m1) = (\<alpha> m1)\<lparr>r_notified := r_notified (\<alpha> m) @ [(b, q)]\<rparr>"
    if "b div 2 < snd (pt_notify_region t)"
    using serves_notify [OF assms(1) that, of "ucast q" m1] by (simp add: twice m1)
  ultimately show ?thesis unfolding place lt [symmetric] by (simp add: twice m1 core_def)
qed

text \<open>
  C38. Over the window of a virtio device, every operation of the PCI transport is the operation on the device behind it:
  the features are read and written whole, the registers of a queue are its own whatever was selected before, setting up a
  queue changes that queue only, reading the interrupt status clears it, and a notification writes the number of the queue
  at the place of that queue, or panics exactly when the place is beyond the region. Apart from what the window shows nothing
  else changes.\<close>
theorem pci_window_refines:
  fixes m :: 'm
  assumes "serves io t \<alpha>" "even (unat (pt_notify_off_multiplier t))"
  defines "d \<equiv> core (\<alpha> m)"
  shows "(\<exists>m'. pci_read_device_features io t m = (r_offered d, m') \<and> core (\<alpha> m') = d)
    \<and> core (\<alpha> (pci_write_driver_features io t w m)) = d\<lparr>r_accepted := w\<rparr>
    \<and> (\<exists>m'. pci_max_queue_size io t q m = (ucast (q_size (r_queues d q)), m') \<and> core (\<alpha> m') = d)
    \<and> (\<exists>m'. pci_queue_used io t q m = (q_enable (r_queues d q) = 1, m') \<and> core (\<alpha> m') = d)
    \<and> core (\<alpha> (pci_queue_set io t q n desc driver_area device_area m)) = d\<lparr>r_queues := (r_queues d)(q :=
          \<lparr>q_size = ucast n, q_enable = 1, q_notify_off = q_notify_off (r_queues d q), q_desc = desc, q_driver = driver_area,
           q_device = device_area\<rparr>)\<rparr>
    \<and> (\<exists>m'. pci_ack_interrupt io t m = (ucast (r_isr d), m') \<and> core (\<alpha> m') = d\<lparr>r_isr := 0\<rparr>)
    \<and> (if notify_place t (r_queues d q) div 2 < unat (snd (pt_notify_region t))
       then \<exists>m'. pci_notify io t q m = Some m'
         \<and> core (\<alpha> m') = d\<lparr>r_notified := r_notified d @ [(of_nat (notify_place t (r_queues d q)), q)]\<rparr>
       else pci_notify io t q m = None)"
proof -
  have d: "r_offered d = r_offered (\<alpha> m)" "r_queues d = r_queues (\<alpha> m)" "r_isr d = r_isr (\<alpha> m)" "r_notified d = r_notified (\<alpha> m)"
    by (simp_all add: d_def core_def)
  show ?thesis
    unfolding d
    using features_read [OF assms(1), of m] features_write [OF assms(1), of w m] queue_window [OF assms(1), of q m]
      queue_setup [OF assms(1), of q n desc driver_area device_area m] isr_read [OF assms(1), of m] notify_queue [OF assms(1,2), of m q]
    by (auto simp: d_def prod_eq_iff) (simp add: core_def)+
qed

section \<open>Initialisation over PCI\<close>

text \<open>The transport as the drivers use it; \<open>nf\<close>, \<open>rc\<close> and \<open>wc\<close> are the operations that may panic, which the initialisation
  does not use.\<close>

definition pci_ops :: "(u16 \<Rightarrow> 'm \<Rightarrow> 'm) \<Rightarrow> (nat \<Rightarrow> nat \<Rightarrow> 'm \<Rightarrow> u8 list result \<times> 'm) \<Rightarrow> (nat \<Rightarrow> u8 list \<Rightarrow> 'm \<Rightarrow> unit result \<times> 'm)
    \<Rightarrow> 'm mmio \<Rightarrow> pci_transport \<Rightarrow> 'm transport" where
  "pci_ops nf rc wc io t = \<lparr>device_type_of = (\<lambda>_. pt_device_type t), read_device_features = pci_read_device_features io t,
     write_driver_features = pci_write_driver_features io t, max_queue_size = pci_max_queue_size io t, notify = nf,
     get_status = pci_get_status io t, set_status = pci_set_status io t, set_guest_page_size = (\<lambda>_ m. m),
     requires_legacy_layout = (\<lambda>_. False), queue_set = pci_queue_set io t, queue_unset = (\<lambda>_ m. m),
     queue_used = pci_queue_used io t, ack_interrupt = pci_ack_interrupt io t,
     read_config_generation = (\<lambda>m. (pci_read_config_generation io t m, m)), read_config_space = rc, write_config_space = wc\<rparr>"

lemma core_status: "core (r\<lparr>r_status := s\<rparr>) = (core r)\<lparr>r_status := s\<rparr>" "core (reset_regs r) = reset_regs (core r)"
  by (simp_all add: core_def reset_regs_def)

lemma status_core:
  assumes "serves io t \<alpha>"
  shows "core (\<alpha> (pci_set_status io t 0 m)) = reset_regs (core (\<alpha> m))"
    "(ucast s :: u8) \<noteq> 0 \<Longrightarrow> core (\<alpha> (pci_set_status io t s m)) = (core (\<alpha> m))\<lparr>r_status := ucast s\<rparr>"
  using status_set(1) [OF assms] by (simp_all add: core_status)


lemma wait_reset_returns:
  assumes "pci_get_status io t ((dev ^^ n) m) = 0"
  shows "\<exists>k \<le> n. wait_reset dev io t m = Some ((dev ^^ k) m) \<and> pci_get_status io t ((dev ^^ k) m) = 0"
  using assms
proof (induction n arbitrary: m)
  case 0
  then show ?case by (subst wait_reset.simps) simp
next
  case (Suc n)
  show ?case
  proof (cases "pci_get_status io t m = 0")
    case False
    obtain k where "k \<le> n" "wait_reset dev io t (dev m) = Some ((dev ^^ k) (dev m))" "pci_get_status io t ((dev ^^ k) (dev m)) = 0"
      using Suc.IH [of "dev m"] Suc.prems by (auto simp: funpow_swap1)
    then show ?thesis using False by (subst wait_reset.simps) (auto simp: funpow_swap1 intro!: exI [of _ "Suc k"])
  qed (subst wait_reset.simps, auto intro!: exI [of _ 0])
qed

section \<open>A device\<close>

definition all_fields :: "common_field list" where
  "all_fields = [Device_feature_select, Device_feature, Driver_feature_select, Driver_feature, Msix_config, Num_queues,
     Device_status, Config_generation, Queue_select, Queue_size, Queue_msix_vector, Queue_enable, Queue_notify_off,
     Queue_desc, Queue_driver, Queue_device]"

definition field_at :: "u64 \<Rightarrow> common_field option" where
  "field_at a = find (\<lambda>f. 0x1000 + fst (field_place f) = a) all_fields"

definition device_mmio :: "virtio_regs mmio" where
  "device_mmio = \<lparr>peek = (\<lambda>_ a r. case field_at a of Some f \<Rightarrow> reg_read f r | None \<Rightarrow> 0),
     mmio_read = (\<lambda>_ _ r. (ucast (r_isr r), r\<lparr>r_isr := 0\<rparr>)),
     mmio_write = (\<lambda>_ a v r. if 0x2000 \<le> a then r\<lparr>r_notified := r_notified r @ [(a - 0x2000, ucast v)]\<rparr>
       else case field_at a of Some f \<Rightarrow> reg_write f v r | None \<Rightarrow> r),
     peek_bytes = (\<lambda>n _ _. replicate n 0), write_bytes = (\<lambda>_ _ r. r)\<rparr>"

definition some_transport :: pci_transport where
  "some_transport = \<lparr>pt_device_type = GPU, pt_device_function = \<lparr>bus = 0, device = 1, func = 0\<rparr>, pt_common_cfg = 0x1000,
     pt_notify_region = (0x2000, 4), pt_notify_off_multiplier = 4, pt_isr_status = 0x3000, pt_config_space = None,
     pt_shmem_gpu_cfg = None\<rparr>"

definition some_device :: virtio_regs where
  "some_device = \<lparr>r_offered = 0x100000003, r_accepted = 0, r_status = 0, r_generation = 0, r_isr = 1,
     r_queues = (\<lambda>q. \<lparr>q_size = 64, q_enable = 0, q_notify_off = q, q_desc = 0, q_driver = 0, q_device = 0\<rparr>), r_notified = [],
     r_device_sel = 0, r_driver_sel = 0, r_queue_sel = 0\<rparr>"

lemma field_at_place: "field_at (0x1000 + fst (field_place f)) = Some f" "0x1000 + fst (field_place f) < 0x2000"
  by (cases f; simp add: field_at_def all_fields_def)+

lemma device_serves: "serves device_mmio some_transport (\<lambda>r. r)"
proof -
  have "(0x2000 :: u64) \<le> 0x2000 + 2 * i" if "i < 4" for i :: u64
  proof -
    have "unat i < 4" using that by (simp add: word_less_nat_alt)
    then show ?thesis by (simp add: word_le_nat_alt unat_word_ariths)
  qed
  moreover have "\<not> 0x2000 \<le> 0x1000 + fst (field_place f)" for f using field_at_place(2) [of f] by (simp add: not_le)
  ultimately show ?thesis
    by (auto simp: serves_def read_field_def write_field_def split_beta device_mmio_def some_transport_def field_at_place)
qed

theorem pci_window_refines_witness:
  "pci_notify device_mmio some_transport 1 some_device \<noteq> None \<and> pci_notify device_mmio some_transport 2 some_device = None
   \<and> (\<exists>m'. pci_read_device_features device_mmio some_transport some_device = (0x100000003, m'))"
proof -
  have e: "even (unat (pt_notify_off_multiplier some_transport))" by (simp add: some_transport_def)
  note p = pci_window_refines [OF device_serves e, of some_device]
  have "notify_place some_transport (r_queues (core some_device) q) = 4 * unat q" for q
    by (simp add: notify_place_def some_transport_def some_device_def core_def)
  moreover have "snd (pt_notify_region some_transport) = 4" "r_offered (core some_device) = 0x100000003"
    by (simp_all add: some_transport_def some_device_def core_def)
  ultimately show ?thesis 
    using p [where q = 1 and n = 0 and desc = 0 and driver_area = 0 and device_area = 0 and w = 0]
      p [where q = 2 and n = 0 and desc = 0 and driver_area = 0 and device_area = 0 and w = 0] by auto
qed

text \<open>The operations the initialisation does not use.\<close>

definition some_ops :: "virtio_regs transport" where
  "some_ops = pci_ops (\<lambda>_ r. r) (\<lambda>_ _ r. (Inl ConfigSpaceMissing, r)) (\<lambda>_ _ r. (Inl ConfigSpaceMissing, r)) device_mmio some_transport"


section \<open>Finding the structures\<close>

text \<open>A capability of the given kind that is long enough.\<close>

definition wanted :: "u8 \<Rightarrow> u8 \<Rightarrow> capability_info \<Rightarrow> bool" where
  "wanted kind l cap \<longleftrightarrow> cap_id cap = PCI_CAP_ID_VNDR \<and> l \<le> cap_len cap \<and> cfg_type cap = kind"

definition wanted_shmem :: "'c config_access \<Rightarrow> device_function \<Rightarrow> device_type \<Rightarrow> 'c \<Rightarrow> capability_info \<Rightarrow> bool" where
  "wanted_shmem acc df ty c cap \<longleftrightarrow> wanted 8 16 cap \<and> ty = GPU \<and> vc_id (struct_info acc df c cap) = SHM_ID_HOST_VISIBLE"

lemma scan_step:
  "cs_common (scan_cap acc df ty c s cap)
     = (if cs_common s = None \<and> wanted 1 16 cap then Some (struct_info acc df c cap) else cs_common s)"
  "cs_notify (scan_cap acc df ty c s cap)
     = (if cs_notify s = None \<and> wanted 2 20 cap then Some (struct_info acc df c cap) else cs_notify s)"
  "cs_multiplier (scan_cap acc df ty c s cap)
     = (if cs_notify s = None \<and> wanted 2 20 cap then read_word acc df (cap_offset cap + 16) c else cs_multiplier s)"
  "cs_isr (scan_cap acc df ty c s cap) = (if cs_isr s = None \<and> wanted 3 16 cap then Some (struct_info acc df c cap) else cs_isr s)"
  "cs_device (scan_cap acc df ty c s cap)
     = (if cs_device s = None \<and> wanted 4 16 cap then Some (struct_info acc df c cap) else cs_device s)"
  "cs_shmem (scan_cap acc df ty c s cap)
     = (if cs_shmem s = None \<and> wanted_shmem acc df ty c cap then Some (shmem_info acc df c cap) else cs_shmem s)"
proof -
  have l: "\<not> (20 \<le> cap_len cap \<and> cap_len cap < 16)" by (simp add: word_le_nat_alt word_less_nat_alt)
  show "cs_common (scan_cap acc df ty c s cap)
     = (if cs_common s = None \<and> wanted 1 16 cap then Some (struct_info acc df c cap) else cs_common s)"
    "cs_notify (scan_cap acc df ty c s cap)
     = (if cs_notify s = None \<and> wanted 2 20 cap then Some (struct_info acc df c cap) else cs_notify s)"
    "cs_multiplier (scan_cap acc df ty c s cap)
     = (if cs_notify s = None \<and> wanted 2 20 cap then read_word acc df (cap_offset cap + 16) c else cs_multiplier s)"
    "cs_isr (scan_cap acc df ty c s cap) = (if cs_isr s = None \<and> wanted 3 16 cap then Some (struct_info acc df c cap) else cs_isr s)"
    "cs_device (scan_cap acc df ty c s cap)
     = (if cs_device s = None \<and> wanted 4 16 cap then Some (struct_info acc df c cap) else cs_device s)"
    "cs_shmem (scan_cap acc df ty c s cap)
     = (if cs_shmem s = None \<and> wanted_shmem acc df ty c cap then Some (shmem_info acc df c cap) else cs_shmem s)"
    using l by (auto simp: scan_cap_def wanted_def wanted_shmem_def Let_def not_less [symmetric])
qed

lemma fold_first:
  assumes "\<And>s x. sel (step s x) = (if sel s = None \<and> P x then Some (f x) else sel s)"
  shows "sel (foldl step s xs) = (if sel s = None then map_option f (find P xs) else sel s)"
  by (induction xs arbitrary: s) (auto simp: assms)

lemma fold_first_value:
  assumes "\<And>s x. sel (step s x) = (if sel s = None \<and> P x then Some (f x) else sel s)"
    "\<And>s x. val (step s x) = (if sel s = None \<and> P x then g x else val s)"
  shows "val (foldl step s xs) = (case find P xs of Some x \<Rightarrow> if sel s = None then g x else val s | None \<Rightarrow> val s)"
  by (induction xs arbitrary: s) (auto simp: assms split: option.splits)

lemma scan_found:
  fixes acc c df ty
  defines "s caps \<equiv> foldl (scan_cap acc df ty c) scan_start caps"
  shows "cs_common (s caps) = map_option (struct_info acc df c) (find (wanted 1 16) caps)"
    "cs_notify (s caps) = map_option (struct_info acc df c) (find (wanted 2 20) caps)"
    "cs_multiplier (s caps) = (case find (wanted 2 20) caps of None \<Rightarrow> 0 | Some cap \<Rightarrow> read_word acc df (cap_offset cap + 16) c)"
    "cs_isr (s caps) = map_option (struct_info acc df c) (find (wanted 3 16) caps)"
    "cs_device (s caps) = map_option (struct_info acc df c) (find (wanted 4 16) caps)"
    "cs_shmem (s caps) = map_option (shmem_info acc df c) (find (wanted_shmem acc df ty c) caps)"
  unfolding s_def
  using fold_first [where sel = cs_common and step = "scan_cap acc df ty c" and P = "wanted 1 16" and f = "struct_info acc df c", OF scan_step(1)]
    fold_first [where sel = cs_notify and step = "scan_cap acc df ty c" and P = "wanted 2 20" and f = "struct_info acc df c", OF scan_step(2)]
    fold_first_value [where sel = cs_notify and val = cs_multiplier and step = "scan_cap acc df ty c" and P = "wanted 2 20"
      and f = "struct_info acc df c" and g = "\<lambda>cap. read_word acc df (cap_offset cap + 16) c", OF scan_step(2,3)]
    fold_first [where sel = cs_isr and step = "scan_cap acc df ty c" and P = "wanted 3 16" and f = "struct_info acc df c", OF scan_step(4)]
    fold_first [where sel = cs_device and step = "scan_cap acc df ty c" and P = "wanted 4 16" and f = "struct_info acc df c", OF scan_step(5)]
    fold_first [where sel = cs_shmem and step = "scan_cap acc df ty c" and P = "wanted_shmem acc df ty c" and f = "shmem_info acc df c", OF scan_step(6)]
  by (simp_all add: scan_start_def split: option.splits)

text \<open>A structure of the given size and alignment that a capability places in a memory region of the device, and its address.\<close>

fun memory_region :: "region \<Rightarrow> (u64 \<times> nat) option" where
  "memory_region (Region32 _ k b) = Some (ucast b, k)"
| "memory_region (Region64 _ k b) = Some (b, k)"
| "memory_region _ = None"

definition located :: "config_space \<Rightarrow> config_space \<Rightarrow> device_function \<Rightarrow> (u64 \<Rightarrow> u64 \<Rightarrow> u64) \<Rightarrow> u64 \<Rightarrow> u64 \<Rightarrow> virtio_cap \<Rightarrow> u64 \<Rightarrow> bool" where
  "located wm c df phys_to_virt sz al info a \<longleftrightarrow> (\<exists>r base k. implements wm c df (vc_bar info) r \<and> unat (vc_bar info) + width r \<le> 6
     \<and> memory_region r = Some (base, k) \<and> base \<noteq> 0 \<and> unat (vc_offset info) + unat (vc_length info) \<le> 2 ^ k \<and> sz \<le> vc_length info
     \<and> a = phys_to_virt (base + vc_offset info) (vc_length info) \<and> a mod al = 0)"

lemma located_region:
  assumes cmd: "command_ok wm df" and l: "located wm c df phys_to_virt sz al info a"
  shows "get_bar_region (registers wm) phys_to_virt sz al df info c = (Inr a, c)"
proof -
  obtain r base k where r: "implements wm c df (vc_bar info) r" "unat (vc_bar info) + width r \<le> 6" "memory_region r = Some (base, k)"
    and o': "base \<noteq> 0" "unat (vc_offset info) + unat (vc_length info) \<le> 2 ^ k" "sz \<le> vc_length info"
      "a = phys_to_virt (base + vc_offset info) (vc_length info)" "a mod al = 0"
    using l unfolding located_def by (elim exE conjE) (rule that)
  have w: "1 \<le> width r" by (cases r) simp_all
  have k: "k < 64" "memory_address_size (the (reported r)) = Some (base, 2 ^ k)" "reported r \<noteq> None"
    using r(1,3) by (cases r; simp add: implements_def memory_address_size_def)+
  have "vc_bar info < 6" using r(2) w by (simp add: word_less_nat_alt)
  moreover have "vc_bar info < 5" if "r = Region64 p k' b" for p k' b using r(2) that by (simp add: word_less_nat_alt)
  ultimately have info: "bar_info (registers wm) df (vc_bar info) c = (Inr (reported r), c)"
    using bar_info_exact [OF cmd _ r(1)] by blast
  have small: "(2 :: nat) ^ k < 2 ^ 64" using k(1) by (intro power_strict_increasing) simp_all
  moreover have "(2 ^ k :: u64) = of_nat (2 ^ k)" by simp
  ultimately have pow: "unat (2 ^ k :: u64) = 2 ^ k" by (simp only: unat_of_nat) simp
  have "unat (vc_offset info + vc_length info) = unat (vc_offset info) + unat (vc_length info)"
    using o'(2) small by (subst unat_add_lem [THEN iffD1]) simp_all
  then have "\<not> 2 ^ k < vc_offset info + vc_length info" using o'(2) by (simp add: word_less_nat_alt pow)
  moreover obtain y where "reported r = Some y" using k(3) by blast
  ultimately show ?thesis using k(2) o' by (simp add: get_bar_region_def info Let_def not_less)
qed

lemma located_slice:
  assumes "command_ok wm df" "located wm c df phys_to_virt sz al info a"
  shows "get_bar_region_slice (registers wm) phys_to_virt sz al df info c = (Inr (a, vc_length info div sz), c)"
  by (simp add: get_bar_region_slice_def located_region [OF assms])

text \<open>
  C39. For a virtio device whose writable command bits the driver knows, whose capabilities end, and whose first common,
  notification, interrupt and (if there is one) configuration structures lie inside allocated memory regions of the device,
  large enough and mapped to aligned addresses, the constructor of the transport succeeds with exactly those structures and
  the first shared memory region, and leaves the configuration space as it was.\<close>
theorem pci_new_exact:
  fixes wm c :: config_space and df
  defines "acc \<equiv> registers wm" and "info \<equiv> struct_info (registers wm) df c"
  assumes cmd: "command_ok wm df" and vendor: "ucast (c df 0) = VIRTIO_VENDOR_ID"
    and ty: "pci_device_type (ucast (drop_bit 16 (c df 0))) = Some ty" and caps: "capabilities acc df c = Some caps"
    and common: "find (wanted 1 16) caps = Some common" "located wm c df phys_to_virt COMMON_SIZE COMMON_ALIGN (info common) a_common"
    and ntf: "find (wanted 2 20) caps = Some ntf" "located wm c df phys_to_virt 2 2 (info ntf) a_notify"
      "c df (cap_offset ntf + 16) mod 2 = 0"
    and isr: "find (wanted 3 16) caps = Some isr" "located wm c df phys_to_virt 1 1 (info isr) a_isr"
    and cfg: "\<And>cap. find (wanted 4 16) caps = Some cap \<Longrightarrow> located wm c df phys_to_virt 4 4 (info cap) a_config"
  shows "pci_new acc phys_to_virt df c = Some (Inr
    \<lparr>pt_device_type = ty, pt_device_function = df, pt_common_cfg = a_common,
     pt_notify_region = (a_notify, vc_length (info ntf) div 2), pt_notify_off_multiplier = c df (cap_offset ntf + 16),
     pt_isr_status = a_isr, pt_config_space = map_option (\<lambda>cap. (a_config, vc_length (info cap) div 4)) (find (wanted 4 16) caps),
     pt_shmem_gpu_cfg = map_option (shmem_info acc df c) (find (wanted_shmem acc df ty c) caps)\<rparr>, c)"
proof -
  have config: "(case map_option info (find (wanted 4 16) caps) of None \<Rightarrow> (Inr None, c)
      | Some device_cfg \<Rightarrow> (case get_bar_region_slice acc phys_to_virt 4 4 df device_cfg c of
          (Inl e, c) \<Rightarrow> (Inl e, c) | (Inr r, c) \<Rightarrow> (Inr (Some r), c)))
      = (Inr (map_option (\<lambda>cap. (a_config, vc_length (info cap) div 4)) (find (wanted 4 16) caps)) :: virtio_pci_error + _, c)"
    using located_slice [OF cmd cfg] by (cases "find (wanted 4 16) caps") (simp_all add: acc_def)
  have "find_structures acc phys_to_virt df ty (foldl (scan_cap acc df ty c) scan_start caps) c = (Inr
    \<lparr>pt_device_type = ty, pt_device_function = df, pt_common_cfg = a_common,
     pt_notify_region = (a_notify, vc_length (info ntf) div 2), pt_notify_off_multiplier = c df (cap_offset ntf + 16),
     pt_isr_status = a_isr, pt_config_space = map_option (\<lambda>cap. (a_config, vc_length (info cap) div 4)) (find (wanted 4 16) caps),
     pt_shmem_gpu_cfg = map_option (shmem_info acc df c) (find (wanted_shmem acc df ty c) caps)\<rparr>, c)"
    unfolding find_structures_def scan_found info_def [folded acc_def, symmetric] common(1) ntf(1) isr(1)
    using located_region [OF cmd common(2)] located_slice [OF cmd ntf(2)] located_region [OF cmd isr(2)] config ntf(3)
    by (simp add: acc_def [symmetric]) (simp add: acc_def)
  then show ?thesis using vendor ty caps by (simp add: pci_new_def Let_def acc_def)
qed

text \<open>A GPU with one memory region of 16 KiB that holds its four structures.\<close>

definition gpu_registers :: "(u8 \<times> u32) list" where
  "gpu_registers = [(0, 0x10501af4), (4, 0x100007), (0x10, 0xfe000000), (0x34, 0x40),
     (0x40, 0x01105009), (0x44, 0), (0x48, 0), (0x4c, 0x1000),
     (0x50, 0x02146409), (0x54, 0), (0x58, 0x3000), (0x5c, 0x1000), (0x60, 4),
     (0x64, 0x03107409), (0x68, 0), (0x6c, 0x1000), (0x70, 0x1000),
     (0x74, 0x04100009), (0x78, 0), (0x7c, 0x2000), (0x80, 0x1000)]"

definition gpu_space :: config_space where
  "gpu_space df reg = (case map_of gpu_registers reg of Some v \<Rightarrow> v | None \<Rightarrow> 0)"

definition gpu_writable :: config_space where
  "gpu_writable df reg = (if reg = 4 then 7 else if reg = 0x10 then 0xffffc000 else 0)"

definition gpu_caps :: "capability_info list" where
  "gpu_caps = [\<lparr>cap_offset = 0x40, cap_id = 9, private_header = 0x0110\<rparr>, \<lparr>cap_offset = 0x50, cap_id = 9, private_header = 0x0214\<rparr>,
     \<lparr>cap_offset = 0x64, cap_id = 9, private_header = 0x0310\<rparr>, \<lparr>cap_offset = 0x74, cap_id = 9, private_header = 0x0410\<rparr>]"

lemma gpu_word: "gpu_space df reg = (case map_of gpu_registers reg of Some v \<Rightarrow> v | None \<Rightarrow> 0)"
  by (simp add: gpu_space_def)

lemma gpu_steps:
  "next_capability (registers gpu_writable) df gpu_space 0x40 = (gpu_caps ! 0, Some 0x50)"
  "next_capability (registers gpu_writable) df gpu_space 0x50 = (gpu_caps ! 1, Some 0x64)"
  "next_capability (registers gpu_writable) df gpu_space 0x64 = (gpu_caps ! 2, Some 0x74)"
  "next_capability (registers gpu_writable) df gpu_space 0x74 = (gpu_caps ! 3, None)"
  by (simp_all add: next_capability_def Let_def gpu_word gpu_registers_def gpu_caps_def)

lemma collect_Some:
  "collect_capabilities acc df c (Some x) = (case next_capability acc df c x of (cap, nxt) \<Rightarrow>
     map_option ((#) cap) (collect_capabilities acc df c nxt))"
  by (subst collect_capabilities.simps) (simp add: split_beta Let_def map_conv_bind_option comp_def)

lemma collect_None: "collect_capabilities acc df c None = Some []"
  by (subst collect_capabilities.simps) simp

lemma gpu_capabilities: "capabilities (registers gpu_writable) df gpu_space = Some gpu_caps"
proof -
  have "capabilities_offset (registers gpu_writable) df gpu_space = Some 0x40"
    by (simp add: capabilities_offset_def get_status_command_def known_status_def CAPABILITIES_LIST_def STATUS_COMMAND_OFFSET_def
        Let_def gpu_word gpu_registers_def)
  then show ?thesis by (simp add: capabilities_def collect_Some collect_None gpu_steps) (simp add: gpu_caps_def)
qed

lemma gpu_region: "implements gpu_writable gpu_space df 0 (Region32 False 14 0xfe000000)"
  by (simp add: implements_def gpu_writable_def gpu_word gpu_registers_def bar_reg_def BAR0_OFFSET_def mask_eq_exp_minus_1)

lemma gpu_located:
  assumes "unat o' \<le> 0x3000" "sz \<le> 0x1000" "(0xfe000000 + o') mod al = 0"
  shows "located gpu_writable gpu_space df (\<lambda>p _. p) sz al \<lparr>vc_bar = 0, vc_id = 0, vc_offset = o', vc_length = 0x1000\<rparr> (0xfe000000 + o')"
proof -
  let ?info = "\<lparr>vc_bar = 0, vc_id = 0, vc_offset = o', vc_length = 0x1000\<rparr>"
  have "unat (vc_offset ?info) + unat (vc_length ?info) \<le> 2 ^ 14" using assms(1) by simp
  moreover have "implements gpu_writable gpu_space df (vc_bar ?info) (Region32 False 14 0xfe000000)" using gpu_region by simp
  moreover have "unat (vc_bar ?info) + width (Region32 False 14 0xfe000000) \<le> 6" by simp
  moreover have "memory_region (Region32 False 14 0xfe000000) = Some (0xfe000000, 14)" "(0xfe000000 :: u64) \<noteq> 0" by simp_all
  moreover have "sz \<le> vc_length ?info" "0xfe000000 + o' = 0xfe000000 + vc_offset ?info" using assms(2) by simp_all
  ultimately show ?thesis unfolding located_def using assms(3) by (intro exI conjI) assumption+
qed

lemma gpu_info:
  "struct_info (registers gpu_writable) df gpu_space cap
    = \<lparr>vc_bar = ucast (gpu_space df (cap_offset cap + 4)), vc_id = ucast (drop_bit 8 (gpu_space df (cap_offset cap + 4))),
       vc_offset = ucast (gpu_space df (cap_offset cap + 8)), vc_length = ucast (gpu_space df (cap_offset cap + 12))\<rparr>"
  by (simp add: struct_info_def Let_def)

theorem pci_new_exact_witness:
  "\<exists>t. pci_new (registers gpu_writable) (\<lambda>p _. p) \<lparr>bus = 0, device = 1, func = 0\<rparr> gpu_space = Some (Inr t, gpu_space)
     \<and> pt_common_cfg t = 0xfe000000 \<and> pt_notify_region t = (0xfe003000, 0x800) \<and> pt_isr_status t = 0xfe001000
     \<and> pt_config_space t = Some (0xfe002000, 0x400)"
proof -
  let ?df = "\<lparr>bus = 0, device = 1, func = 0\<rparr>"
  note w = wanted_def cap_len_def cfg_type_def PCI_CAP_ID_VNDR_def
  have cmd: "command_ok gpu_writable ?df" by (simp add: command_ok_def gpu_writable_def STATUS_COMMAND_OFFSET_def known_command_def)
  have v: "ucast (gpu_space ?df 0) = VIRTIO_VENDOR_ID" by (simp add: gpu_word gpu_registers_def VIRTIO_VENDOR_ID_def)
  have ty: "pci_device_type (ucast (drop_bit 16 (gpu_space ?df 0))) = Some GPU"
    by (simp add: gpu_word gpu_registers_def pci_device_type_def transitional_def PCI_DEVICE_ID_OFFSET_def device_type_try_from_u16_def
        device_type_try_from_def)
  have f: "find (wanted 1 16) gpu_caps = Some (gpu_caps ! 0)" "find (wanted 2 20) gpu_caps = Some (gpu_caps ! 1)"
    "find (wanted 3 16) gpu_caps = Some (gpu_caps ! 2)" "find (wanted 4 16) gpu_caps = Some (gpu_caps ! 3)"
    by (simp_all add: gpu_caps_def w)
  note i = gpu_info gpu_word gpu_registers_def gpu_caps_def
  have e: "struct_info (registers gpu_writable) ?df gpu_space (gpu_caps ! 0) = \<lparr>vc_bar = 0, vc_id = 0, vc_offset = 0, vc_length = 0x1000\<rparr>"
    "struct_info (registers gpu_writable) ?df gpu_space (gpu_caps ! 1) = \<lparr>vc_bar = 0, vc_id = 0, vc_offset = 0x3000, vc_length = 0x1000\<rparr>"
    "struct_info (registers gpu_writable) ?df gpu_space (gpu_caps ! 2) = \<lparr>vc_bar = 0, vc_id = 0, vc_offset = 0x1000, vc_length = 0x1000\<rparr>"
    "struct_info (registers gpu_writable) ?df gpu_space (gpu_caps ! 3) = \<lparr>vc_bar = 0, vc_id = 0, vc_offset = 0x2000, vc_length = 0x1000\<rparr>"
    by (simp_all add: i)
  have l1: "located gpu_writable gpu_space ?df (\<lambda>p _. p) COMMON_SIZE COMMON_ALIGN (struct_info (registers gpu_writable) ?df gpu_space (gpu_caps ! 0)) 0xfe000000"
    unfolding e using gpu_located [of 0 COMMON_SIZE COMMON_ALIGN ?df] by (simp add: COMMON_SIZE_def COMMON_ALIGN_def)
  have l2: "located gpu_writable gpu_space ?df (\<lambda>p _. p) 2 2 (struct_info (registers gpu_writable) ?df gpu_space (gpu_caps ! 1)) 0xfe003000"
    unfolding e using gpu_located [of 12288 2 2 ?df] by simp
  have l3: "located gpu_writable gpu_space ?df (\<lambda>p _. p) 1 1 (struct_info (registers gpu_writable) ?df gpu_space (gpu_caps ! 2)) 0xfe001000"
    unfolding e using gpu_located [of 4096 1 1 ?df] by simp
  have l4: "located gpu_writable gpu_space ?df (\<lambda>p _. p) 4 4 (struct_info (registers gpu_writable) ?df gpu_space (gpu_caps ! 3)) 0xfe002000"
    unfolding e using gpu_located [of 8192 4 4 ?df] by simp
  have m: "gpu_space ?df (cap_offset (gpu_caps ! 1) + 16) mod 2 = 0" by (simp add: i)
  have len: "vc_length (struct_info (registers gpu_writable) ?df gpu_space (gpu_caps ! 1)) = 0x1000"
    "vc_length (struct_info (registers gpu_writable) ?df gpu_space (gpu_caps ! 3)) = 0x1000" unfolding e by simp_all
  have cfg: "located gpu_writable gpu_space ?df (\<lambda>p _. p) 4 4 (struct_info (registers gpu_writable) ?df gpu_space cap) 0xfe002000"
    if "find (wanted 4 16) gpu_caps = Some cap" for cap using that l4 f(4) by simp
  note new = pci_new_exact [OF cmd v ty gpu_capabilities f(1) l1 f(2) l2 m f(3) l3 cfg, unfolded f(4) len]
  show ?thesis by (rule exI, rule conjI, rule new) (simp_all add: len(2))
qed

end
