(* ===== verification/Sorted_Vec.thy ===== *)
theory Sorted_Vec
  imports Prelude "HOL-Library.Multiset"
begin

text \<open>
  Vectors that are kept sorted, and sets as such vectors (\<open>src/util/sorted-vec/src/lib.rs\<close>). An element type with \<open>Ord\<close> is a
  linear order; \<open>sort_unstable\<close> and \<open>dedup\<close> of the standard library are \<open>sort\<close> and \<open>remdups_adj\<close>, and its binary search is
  written out. A panic is \<open>None\<close>. Debug assertions are taken to be on. Capacity, hashing and the \<open>serde\<close> feature are left out.
\<close>

section \<open>The standard library\<close>

text \<open>\<open>slice::binary_search\<close>: \<open>Inr\<close> an index where the element is, \<open>Inl\<close> the index where it belongs.\<close>

function search_loop :: "'a::linorder \<Rightarrow> 'a list \<Rightarrow> nat \<Rightarrow> nat \<Rightarrow> nat" where
  "search_loop x xs base sz =
     (if sz \<le> 1 then base
      else let half = sz div 2; mid = base + half in
        search_loop x xs (if x < xs ! mid then base else mid) (sz - half))"
  by pat_completeness auto
termination by (relation "measure (\<lambda>(_, _, _, sz). sz)") auto

declare search_loop.simps [simp del]

definition binary_search :: "'a::linorder \<Rightarrow> 'a list \<Rightarrow> nat + nat" where
  "binary_search x xs =
     (if xs = [] then Inl 0
      else let base = search_loop x xs 0 (length xs) in
        if xs ! base = x then Inr base else Inl (if xs ! base < x then base + 1 else base))"

definition vec_insert :: "nat \<Rightarrow> 'a \<Rightarrow> 'a list \<Rightarrow> 'a list option" where
  "vec_insert i x xs = (if i \<le> length xs then Some (take i xs @ x # drop i xs) else None)"

definition vec_remove :: "nat \<Rightarrow> 'a list \<Rightarrow> ('a \<times> 'a list) option" where
  "vec_remove i xs = (if i < length xs then Some (xs ! i, take i xs @ drop (Suc i) xs) else None)"

definition vec_pop :: "'a list \<Rightarrow> 'a option \<times> 'a list" where
  "vec_pop xs = (if xs = [] then (None, []) else (Some (last xs), butlast xs))"

text \<open>The range \<open>a..b\<close> and the rest.\<close>

definition vec_drain :: "nat \<Rightarrow> nat \<Rightarrow> 'a list \<Rightarrow> ('a list \<times> 'a list) option" where
  "vec_drain a b xs = (if a \<le> b \<and> b \<le> length xs then Some (take (b - a) (drop a xs), take a xs @ drop b xs) else None)"

section \<open>What was found or inserted\<close>

datatype find_or_insert = Found nat | Inserted nat

definition foi_from :: "nat + nat \<Rightarrow> find_or_insert" where
  "foi_from r = (case r of Inr i \<Rightarrow> Found i | Inl i \<Rightarrow> Inserted i)"

fun foi_index :: "find_or_insert \<Rightarrow> nat" where
  "foi_index (Found i) = i"
| "foi_index (Inserted i) = i"

fun foi_found :: "find_or_insert \<Rightarrow> nat option" where
  "foi_found (Found i) = Some i"
| "foi_found (Inserted _) = None"

fun foi_inserted :: "find_or_insert \<Rightarrow> nat option" where
  "foi_inserted (Found _) = None"
| "foi_inserted (Inserted i) = Some i"

section \<open>\<open>SortedVec\<close>\<close>

definition sv_from_unsorted :: "'a::linorder list \<Rightarrow> 'a list" where
  "sv_from_unsorted xs = sort xs"

definition sv_insert :: "'a::linorder \<Rightarrow> 'a list \<Rightarrow> (nat \<times> 'a list) option" where
  "sv_insert x xs = do {
     let insert_at = (case binary_search x xs of Inr i \<Rightarrow> i | Inl i \<Rightarrow> i);
     ys \<leftarrow> vec_insert insert_at x xs;
     Some (insert_at, ys)
   }"

definition sv_find_or_insert :: "'a::linorder \<Rightarrow> 'a list \<Rightarrow> (find_or_insert \<times> 'a list) option" where
  "sv_find_or_insert x xs =
     (case binary_search x xs of
        Inr i \<Rightarrow> Some (foi_from (Inr i), xs)
      | Inl i \<Rightarrow> do { ys \<leftarrow> vec_insert i x xs; Some (foi_from (Inl i), ys) })"

definition sv_push :: "'a::linorder \<Rightarrow> 'a list \<Rightarrow> (nat \<times> 'a list) option" where
  "sv_push x xs =
     (if xs = [] then Some (0, [x])
      else if last xs \<le> x then Some (length (xs @ [x]) - 1, xs @ [x])
      else sv_insert x xs)"

definition sv_find_or_push :: "'a::linorder \<Rightarrow> 'a list \<Rightarrow> (find_or_insert \<times> 'a list) option" where
  "sv_find_or_push x xs =
     (if xs = [] then Some (Inserted 0, [x])
      else if x = last xs then Some (Found (length xs - 1), xs)
      else if last xs < x then Some (Inserted (length (xs @ [x]) - 1), xs @ [x])
      else sv_find_or_insert x xs)"

definition sv_remove_item :: "'a::linorder \<Rightarrow> 'a list \<Rightarrow> ('a option \<times> 'a list) option" where
  "sv_remove_item x xs =
     (case binary_search x xs of
        Inr i \<Rightarrow> do { (y, ys) \<leftarrow> vec_remove i xs; Some (Some y, ys) }
      | Inl _ \<Rightarrow> Some (None, xs))"

definition sv_remove_index :: "nat \<Rightarrow> 'a list \<Rightarrow> ('a \<times> 'a list) option" where
  "sv_remove_index i xs = vec_remove i xs"

definition sv_pop :: "'a list \<Rightarrow> 'a option \<times> 'a list" where "sv_pop xs = vec_pop xs"

definition sv_dedup :: "'a list \<Rightarrow> 'a list" where "sv_dedup xs = remdups_adj xs"

definition sv_drain :: "nat \<Rightarrow> nat \<Rightarrow> 'a list \<Rightarrow> ('a list \<times> 'a list) option" where "sv_drain a b xs = vec_drain a b xs"

definition sv_retain :: "('a \<Rightarrow> bool) \<Rightarrow> 'a list \<Rightarrow> 'a list" where "sv_retain f xs = filter f xs"

definition sv_mutate_vec :: "('a::linorder list \<Rightarrow> 'r \<times> 'a list) \<Rightarrow> 'a list \<Rightarrow> 'r \<times> 'a list" where
  "sv_mutate_vec f xs = (let (res, ys) = f xs in (res, sort ys))"

definition sv_from_sorted :: "'a::linorder list \<Rightarrow> 'a list option" where
  "sv_from_sorted xs = do { assert (sorted xs); Some xs }"

fun sv_extend :: "'a::linorder list \<Rightarrow> 'a list \<Rightarrow> 'a list option" where
  "sv_extend [] xs = Some xs"
| "sv_extend (t # ts) xs = do { (_, xs) \<leftarrow> sv_insert t xs; sv_extend ts xs }"

definition sv_from_iter :: "'a::linorder list \<Rightarrow> 'a list option" where
  "sv_from_iter ts = sv_extend ts []"

section \<open>\<open>SortedSet\<close>\<close>

definition ss_from_unsorted :: "'a::linorder list \<Rightarrow> 'a list" where
  "ss_from_unsorted xs = sv_dedup (sv_from_unsorted xs)"

definition ss_replace :: "'a::linorder \<Rightarrow> 'a list \<Rightarrow> ((nat \<times> 'a option) \<times> 'a list) option" where
  "ss_replace x xs =
     (case binary_search x xs of
        Inr i \<Rightarrow> Some ((i, Some (xs ! i)), xs[i := x])
      | Inl i \<Rightarrow> do { ys \<leftarrow> vec_insert i x xs; Some ((i, None), ys) })"

definition ss_find_or_insert :: "'a::linorder \<Rightarrow> 'a list \<Rightarrow> (find_or_insert \<times> 'a list) option" where
  "ss_find_or_insert x xs = sv_find_or_insert x xs"

definition ss_push :: "'a::linorder \<Rightarrow> 'a list \<Rightarrow> ((nat \<times> 'a option) \<times> 'a list) option" where
  "ss_push x xs =
     (if xs = [] then Some ((0, None), [x])
      else if last xs < x then Some ((length (xs @ [x]) - 1, None), xs @ [x])
      else if x = last xs then
        (let (original, ys) = vec_pop xs in Some ((length (ys @ [x]) - 1, original), ys @ [x]))
      else ss_replace x xs)"

definition ss_find_or_push :: "'a::linorder \<Rightarrow> 'a list \<Rightarrow> (find_or_insert \<times> 'a list) option" where
  "ss_find_or_push x xs = sv_find_or_insert x xs"

definition ss_remove_item :: "'a::linorder \<Rightarrow> 'a list \<Rightarrow> ('a option \<times> 'a list) option" where
  "ss_remove_item x xs = sv_remove_item x xs"

definition ss_mutate_vec :: "('a::linorder list \<Rightarrow> 'r \<times> 'a list) \<Rightarrow> 'a list \<Rightarrow> 'r \<times> 'a list" where
  "ss_mutate_vec f xs = (let (res, ys) = sv_mutate_vec f xs in (res, sv_dedup ys))"

definition ss_from_sorted :: "'a::linorder list \<Rightarrow> 'a list option" where
  "ss_from_sorted xs = do { assert (distinct xs); sv_from_sorted xs }"

fun ss_extend :: "'a::linorder list \<Rightarrow> 'a list \<Rightarrow> 'a list option" where
  "ss_extend [] xs = Some xs"
| "ss_extend (t # ts) xs = do { (_, xs) \<leftarrow> ss_find_or_insert t xs; ss_extend ts xs }"

definition ss_from_iter :: "'a::linorder list \<Rightarrow> 'a list option" where
  "ss_from_iter ts = ss_extend ts []"

section \<open>Binary search\<close>

lemma search_loop_ok:
  assumes "sorted xs" and "0 < sz" "base + sz \<le> length xs"
    and "base = 0 \<or> xs ! base \<le> x" and "\<And>j. base + sz \<le> j \<Longrightarrow> j < length xs \<Longrightarrow> x < xs ! j"
  shows "search_loop x xs base sz < length xs
    \<and> (search_loop x xs base sz = 0 \<or> xs ! search_loop x xs base sz \<le> x)
    \<and> (\<forall>j. search_loop x xs base sz < j \<longrightarrow> j < length xs \<longrightarrow> x < xs ! j)"
  using assms(2-)
proof (induction sz arbitrary: base rule: less_induct)
  case (less sz)
  show ?case
  proof (cases "sz \<le> 1")
    case True
    then have "search_loop x xs base sz = base" by (simp add: search_loop.simps)
    then show ?thesis using less.prems True by auto
  next
    case False
    let ?half = "sz div 2" let ?mid = "base + ?half"
    have h: "0 < ?half" "?half < sz" "sz - ?half < sz" using False by auto
    have run: "search_loop x xs base sz = search_loop x xs (if x < xs ! ?mid then base else ?mid) (sz - ?half)"
      using False by (subst search_loop.simps) (simp add: Let_def)
    show ?thesis
    proof (cases "x < xs ! ?mid")
      case True
      have "x < xs ! j" if "base + (sz - ?half) \<le> j" "j < length xs" for j
      proof -
        have "?mid \<le> j" using that(1) by linarith
        then show ?thesis using True that(2) sorted_nth_mono [OF assms(1)] by (meson less_le_trans)
      qed
      then show ?thesis
        using less.IH [OF h(3), of base] less.prems True h by (simp add: run)
    next
      case False
      then show ?thesis using less.IH [OF h(3), of ?mid] less.prems h by (simp add: run)
    qed
  qed
qed

text \<open>Where the element is, or the only place where it belongs.\<close>

lemma binary_search_found:
  assumes "sorted xs" and "binary_search x xs = Inr i"
  shows "i < length xs" "xs ! i = x"
  using assms search_loop_ok [OF assms(1), of "length xs" 0 x] by (auto simp: binary_search_def Let_def split: if_splits)

lemma binary_search_missing:
  assumes "sorted xs" and "binary_search x xs = Inl i"
  shows "i \<le> length xs \<and> (\<forall>y \<in> set (take i xs). y < x) \<and> (\<forall>y \<in> set (drop i xs). x < y)"
proof (cases "xs = []")
  case True
  then show ?thesis using assms(2) by (simp add: binary_search_def)
next
  case False
  define b where "b = search_loop x xs 0 (length xs)"
  have B: "b < length xs" "b = 0 \<or> xs ! b \<le> x" "\<And>j. b < j \<Longrightarrow> j < length xs \<Longrightarrow> x < xs ! j"
    using search_loop_ok [OF assms(1), of "length xs" 0 x] False by (auto simp: b_def)
  have ne: "xs ! b \<noteq> x" and i: "i = (if xs ! b < x then b + 1 else b)"
    using assms(2) False by (auto simp: binary_search_def Let_def b_def split: if_splits)
  have low: "xs ! j < x" if "j \<le> b" "xs ! b < x" for j
    using sorted_nth_mono [OF assms(1) that(1) B(1)] that(2) by simp
  have high: "x < xs ! j" if "b \<le> j" "j < length xs" "\<not> xs ! b < x" for j
    using B(3) [of j] that ne by (cases "j = b") auto
  have "y < x" if "y \<in> set (take i xs)" for y
  proof -
    obtain j where j: "j < i" "y = xs ! j" using \<open>y \<in> set (take i xs)\<close> by (auto simp: in_set_conv_nth)
    have "xs ! b < x" using j(1) B(2) ne by (auto simp: i split: if_splits)
    then show ?thesis using low [of j] j by (simp add: i)
  qed
  moreover have "x < y" if "y \<in> set (drop i xs)" for y
  proof -
    obtain k where k: "k < length xs - i" "y = xs ! (i + k)" using \<open>y \<in> set (drop i xs)\<close> by (auto simp: in_set_conv_nth)
    define j where "j = i + k"
    have j: "i \<le> j" "j < length xs" "y = xs ! j" using k by (auto simp: j_def)
    show ?thesis using j high [of j] B(3) [of j] by (simp add: i split: if_splits)
  qed
  moreover have "i \<le> length xs" using B(1) by (simp add: i)
  ultimately show ?thesis by simp
qed

lemma insort_at:
  assumes "sorted xs" and "i \<le> length xs" "\<forall>y \<in> set (take i xs). y \<le> x" "\<forall>y \<in> set (drop i xs). x \<le> y"
  shows "take i xs @ x # drop i xs = insort x xs"
proof -
  have "mset (take i xs) + mset (drop i xs) = mset xs" by (metis append_take_drop_id mset_append)
  moreover have "y \<le> z" if "y \<in> set (take i xs)" "z \<in> set (drop i xs)" for y z
    using order_trans [of y x z] assms(3,4) that by simp
  then have "sorted (take i xs @ x # drop i xs)"
    using assms sorted_wrt_take [of "(\<le>)" xs i] sorted_wrt_drop [of "(\<le>)" xs i] by (simp add: sorted_append)
  ultimately have "sort (x # xs) = take i xs @ x # drop i xs" by (intro properties_for_sort) simp_all
  then show ?thesis using sorted_sort_id [OF assms(1)] by simp
qed

lemma sorted_around:
  assumes "sorted xs" and "j < length xs"
  shows "y \<in> set (take j xs) \<Longrightarrow> y \<le> xs ! j" "y \<in> set (drop j xs) \<Longrightarrow> xs ! j \<le> y"
proof -
  show "y \<le> xs ! j" if y: "y \<in> set (take j xs)"
  proof -
    obtain k where "k < j" "y = xs ! k" using y by (auto simp: in_set_conv_nth)
    then show ?thesis using sorted_nth_mono [OF assms(1), of k j] assms(2) by simp
  qed
  show "xs ! j \<le> y" if y: "y \<in> set (drop j xs)"
  proof -
    obtain k where "k < length xs - j" "y = xs ! (j + k)" using y by (auto simp: in_set_conv_nth)
    then show ?thesis using sorted_nth_mono [OF assms(1), of j "j + k"] by simp
  qed
qed

text \<open>The index of the search is one where inserting keeps the order.\<close>

lemma binary_search_place:
  assumes "sorted xs" and "i = (case binary_search x xs of Inr i \<Rightarrow> i | Inl i \<Rightarrow> i)"
  shows "i \<le> length xs" "take i xs @ x # drop i xs = insort x xs"
proof -
  have "i \<le> length xs \<and> (\<forall>y \<in> set (take i xs). y \<le> x) \<and> (\<forall>y \<in> set (drop i xs). x \<le> y)"
  proof (cases "binary_search x xs")
    case (Inl j)
    then show ?thesis using binary_search_missing [OF assms(1) Inl] assms(2) by auto
  next
    case (Inr j)
    note F = binary_search_found [OF assms(1) Inr]
    have ij: "i = j" using Inr assms(2) by simp
    show ?thesis using F sorted_around [OF assms(1) F(1)] by (simp add: ij)
  qed
  then show "i \<le> length xs" "take i xs @ x # drop i xs = insort x xs" using insort_at [OF assms(1)] by blast+
qed

section \<open>Sorted vectors\<close>

lemma sv_insert_ok:
  assumes "sorted xs"
  shows "\<exists>i. sv_insert x xs = Some (i, insort x xs) \<and> i \<le> length xs \<and> insort x xs ! i = x"
proof -
  define i where "i = (case binary_search x xs of Inr i \<Rightarrow> i | Inl i \<Rightarrow> i)"
  note P = binary_search_place [OF assms i_def]
  have "insort x xs ! i = x" using P(1) by (simp add: nth_append flip: P(2))
  then show ?thesis using P by (simp add: sv_insert_def vec_insert_def Let_def i_def [symmetric])
qed

lemma insort_last: "\<forall>y \<in> set xs. y \<le> x \<Longrightarrow> sorted xs \<Longrightarrow> insort x xs = xs @ [x]"
  using insort_at [of xs "length xs" x] by simp

lemma last_greatest: "sorted xs \<Longrightarrow> y \<in> set xs \<Longrightarrow> y \<le> last xs"
  by (induction xs rule: rev_induct) (auto simp: sorted_append)

lemma sv_push_ok:
  assumes "sorted xs"
  shows "\<exists>i. sv_push x xs = Some (i, insort x xs) \<and> insort x xs ! i = x"
proof (cases "xs = [] \<or> last xs \<le> x")
  case True
  have "insort x xs = xs @ [x]"
  proof (rule insort_last [OF _ assms])
    show "\<forall>y \<in> set xs. y \<le> x" using True last_greatest [OF assms] by (auto intro: order_trans)
  qed
  then show ?thesis using True by (auto simp: sv_push_def nth_append)
next
  case False
  then show ?thesis using sv_insert_ok [OF assms, of x] by (auto simp: sv_push_def)
qed

lemma sv_remove_item_ok:
  assumes "sorted xs"
  shows "sv_remove_item x xs = Some (if x \<in> set xs then Some x else None, remove1 x xs)"
proof (cases "binary_search x xs")
  case (Inl i)
  have "set xs = set (take i xs) \<union> set (drop i xs)" by (metis append_take_drop_id set_append)
  then have "x \<notin> set xs" using binary_search_missing [OF assms Inl] by auto
  then show ?thesis using Inl by (simp add: sv_remove_item_def remove1_idem)
next
  case (Inr i)
  note F = binary_search_found [OF assms Inr]
  have xs: "xs = take i xs @ x # drop (Suc i) xs" using id_take_nth_drop [OF F(1)] F(2) by simp
  have "sorted (take i xs @ x # drop (Suc i) xs)" using assms xs by simp
  then have s: "sorted (take i xs @ drop (Suc i) xs)" by (simp add: sorted_append)
  have "mset xs = mset (take i xs @ x # drop (Suc i) xs)" using xs by simp
  then have "mset (take i xs @ drop (Suc i) xs) = mset (remove1 x xs)" by simp
  then have "sort (remove1 x xs) = take i xs @ drop (Suc i) xs" using s by (rule properties_for_sort)
  then have "take i xs @ drop (Suc i) xs = remove1 x xs" using sorted_remove1 [OF assms, of x] by (simp add: sorted_sort_id)
  then show ?thesis using Inr F by (auto simp: sv_remove_item_def vec_remove_def)
qed

lemma sv_extend_ok: "sorted xs \<Longrightarrow> sv_extend ts xs = Some (sort (ts @ xs))"
proof (induction ts arbitrary: xs)
  case Nil
  then show ?case by (simp add: sorted_sort_id)
next
  case (Cons t ts)
  have "sort (ts @ insort t xs) = sort (t # ts @ xs)"
    by (rule properties_for_sort [symmetric]) (simp_all del: sort_key_simps)
  then show ?case using sv_insert_ok [OF Cons.prems, of t] Cons.IH [of "insort t xs"] Cons.prems
    by (auto simp: sorted_insort)
qed

section \<open>Sorted sets\<close>

definition strict :: "'a::linorder list \<Rightarrow> bool" where
  "strict xs \<longleftrightarrow> sorted xs \<and> distinct xs"

text \<open>The only sorted vector without duplicates of a finite set.\<close>

definition elements :: "'a::linorder set \<Rightarrow> 'a list" where
  "elements A = sorted_list_of_set A"

lemma strict_unique: "strict xs \<Longrightarrow> elements (set xs) = xs"
  by (simp add: strict_def elements_def sorted_list_of_set.idem_if_sorted_distinct)

lemma elementsI: "sorted ys \<Longrightarrow> distinct ys \<Longrightarrow> set ys = A \<Longrightarrow> ys = elements A"
  using strict_unique [of ys] by (simp add: strict_def)

lemma strict_insert:
  assumes "strict xs"
  shows "x \<notin> set xs \<Longrightarrow> insort x xs = elements (insert x (set xs))"
    "x \<in> set xs \<Longrightarrow> xs = elements (insert x (set xs))"
    "remove1 x xs = elements (set xs - {x})"
  using assms
  by (auto simp: strict_def sorted_insort distinct_insort set_insort_key insert_absorb intro!: elementsI sorted_remove1)

lemma search_iff:
  assumes "sorted xs"
  shows "(\<exists>i. binary_search x xs = Inr i) \<longleftrightarrow> x \<in> set xs"
proof (cases "binary_search x xs")
  case (Inl i)
  have "set xs = set (take i xs) \<union> set (drop i xs)" by (metis append_take_drop_id set_append)
  then show ?thesis using binary_search_missing [OF assms Inl] Inl by auto
next
  case (Inr i)
  then show ?thesis using binary_search_found [OF assms Inr] by (metis nth_mem)
qed

lemma missing_insert:
  assumes "strict xs" and "binary_search x xs = Inl i"
  shows "vec_insert i x xs = Some (elements (insert x (set xs)))" "elements (insert x (set xs)) ! i = x" "x \<notin> set xs"
proof -
  have s: "sorted xs" using assms(1) by (simp add: strict_def)
  show m: "x \<notin> set xs" using search_iff [OF s, of x] assms(2) by auto
  have P: "i \<le> length xs" "take i xs @ x # drop i xs = insort x xs"
    using binary_search_place [OF s, of i x] assms(2) by simp_all
  then show "vec_insert i x xs = Some (elements (insert x (set xs)))"
    using strict_insert(1) [OF assms(1) m] by (simp add: vec_insert_def)
  have "(take i xs @ x # drop i xs) ! i = x" using P(1) by (simp add: nth_append)
  then show "elements (insert x (set xs)) ! i = x" using P(2) strict_insert(1) [OF assms(1) m] by simp
qed

lemma ss_find_or_insert_ok:
  assumes "strict xs"
  shows "\<exists>r. ss_find_or_insert x xs = Some (r, elements (insert x (set xs)))
    \<and> (foi_found r \<noteq> None \<longleftrightarrow> x \<in> set xs) \<and> elements (insert x (set xs)) ! foi_index r = x"
proof (cases "binary_search x xs")
  case (Inl i)
  then show ?thesis using missing_insert [OF assms Inl] by (simp add: ss_find_or_insert_def sv_find_or_insert_def foi_from_def)
next
  case (Inr i)
  have s: "sorted xs" using assms by (simp add: strict_def)
  have m: "x \<in> set xs" "xs ! i = x" using search_iff [OF s, of x] binary_search_found [OF s Inr] Inr by auto
  then show ?thesis
    using Inr strict_insert(2) [OF assms m(1), symmetric] by (simp add: ss_find_or_insert_def sv_find_or_insert_def foi_from_def)
qed

lemma ss_replace_ok:
  assumes "strict xs"
  shows "\<exists>i. ss_replace x xs = Some ((i, if x \<in> set xs then Some x else None), elements (insert x (set xs)))
    \<and> elements (insert x (set xs)) ! i = x"
proof (cases "binary_search x xs")
  case (Inl i)
  then show ?thesis using missing_insert [OF assms Inl] by (simp add: ss_replace_def)
next
  case (Inr i)
  have s: "sorted xs" using assms by (simp add: strict_def)
  have m: "x \<in> set xs" "xs ! i = x" using search_iff [OF s, of x] binary_search_found [OF s Inr] Inr by auto
  then show ?thesis
    using Inr strict_insert(2) [OF assms m(1), symmetric] list_update_id [of xs i] by (simp add: ss_replace_def)
qed

lemma ss_push_ok:
  assumes "strict xs"
  shows "\<exists>i. ss_push x xs = Some ((i, if x \<in> set xs then Some x else None), elements (insert x (set xs)))
    \<and> elements (insert x (set xs)) ! i = x"
proof -
  have s: "sorted xs" using assms by (simp add: strict_def)
  consider "xs = []" | "xs \<noteq> []" "last xs < x" | "xs \<noteq> []" "x = last xs" | "xs \<noteq> []" "x < last xs"
    by (cases "xs = []"; cases "last xs" x rule: linorder_cases) auto
  then show ?thesis
  proof cases
    case 2
    then have lt: "\<forall>y \<in> set xs. y < x" using last_greatest [OF s] by (meson le_less_trans)
    then have m: "x \<notin> set xs" by blast
    have "insort x xs = xs @ [x]" using lt by (intro insort_last [OF _ s]) (simp add: less_imp_le)
    then show ?thesis using 2 m strict_insert(1) [OF assms m] by (auto simp: ss_push_def nth_append)
  next
    case 3
    then have m: "x \<in> set xs" by simp
    have "ss_push x xs = Some ((length xs - 1, Some x), xs)" using 3 by (simp add: ss_push_def vec_pop_def)
    moreover have "xs ! (length xs - 1) = x" using 3 by (simp add: last_conv_nth)
    ultimately show ?thesis using strict_insert(2) [OF assms m, symmetric] m by simp
  next
    case 4
    then show ?thesis using ss_replace_ok [OF assms, of x] by (auto simp: ss_push_def)
  qed (simp add: ss_push_def elements_def)
qed

lemma strict_elements: "finite A \<Longrightarrow> strict (elements A)" "finite A \<Longrightarrow> set (elements A) = A"
  unfolding strict_def elements_def by (simp_all del: sorted_list_of_set.sorted_key_list_of_set_insert_remove)

lemma ss_extend_ok: "strict xs \<Longrightarrow> ss_extend ts xs = Some (elements (set ts \<union> set xs))"
proof (induction ts arbitrary: xs)
  case Nil
  then show ?case using strict_unique [of xs] by simp
next
  case (Cons t ts)
  have e: "strict (elements (insert t (set xs)))" "set (elements (insert t (set xs))) = insert t (set xs)"
    using strict_elements [of "insert t (set xs)"] by simp_all
  show ?case using ss_find_or_insert_ok [OF Cons.prems, of t] Cons.IH [OF e(1)] e(2) by auto
qed

lemma sorted_dedup_distinct: "sorted xs \<Longrightarrow> distinct (remdups_adj xs)"
  by (induction xs rule: remdups_adj.induct) auto

lemma ss_from_unsorted_ok: "ss_from_unsorted ts = elements (set ts)"
  by (rule elementsI) (simp_all add: ss_from_unsorted_def sv_from_unsorted_def sv_dedup_def sorted_remdups_adj sorted_dedup_distinct)

section \<open>Properties\<close>

text \<open>
  Whatever the binary search finds, the operations of a sorted vector are those of the reference on sorted lists, and
  none of them panics: \<open>insert\<close> and the fast \<open>push\<close> both give \<open>insort\<close> and the index of the new element, \<open>remove_item\<close> removes
  one occurrence, and \<open>extend\<close> and \<open>from_iter\<close> sort.
\<close>

theorem sorted_vec_reference:
  assumes "sorted xs"
  shows "(\<exists>i. sv_insert x xs = Some (i, insort x xs) \<and> insort x xs ! i = x)
    \<and> (\<exists>i. sv_push x xs = Some (i, insort x xs) \<and> insort x xs ! i = x)
    \<and> sv_remove_item x xs = Some (if x \<in> set xs then Some x else None, remove1 x xs)
    \<and> sv_extend ts xs = Some (sort (ts @ xs)) \<and> sv_from_iter ts = Some (sort ts)"
  using sv_insert_ok [OF assms, of x] sv_push_ok [OF assms, of x] sv_remove_item_ok [OF assms] sv_extend_ok [OF assms]
    sv_extend_ok [of "[]" ts]
  by (auto simp: sv_from_iter_def)

theorem sorted_vec_reference_witness:
  "\<exists>i. sv_insert (4 :: nat) [3, 4, 5] = Some (i, [3, 4, 4, 5])"
  using sorted_vec_reference [of "[3, 4, 5 :: nat]" 4] by auto

text \<open>
  C37. A sorted set without duplicates is the set of its elements: every operation leaves the vector of the set that the
  operation on sets gives, and says whether the element was there and where it is. In particular \<open>push\<close> does what \<open>replace\<close>
  does, and building a set from a vector or from an iterator gives the same.
\<close>

theorem sorted_set_refines:
  assumes "strict xs"
  shows "(\<exists>r. ss_find_or_insert x xs = Some (r, elements (insert x (set xs)))
        \<and> (foi_found r \<noteq> None \<longleftrightarrow> x \<in> set xs) \<and> elements (insert x (set xs)) ! foi_index r = x)
    \<and> (\<exists>i. ss_replace x xs = Some ((i, if x \<in> set xs then Some x else None), elements (insert x (set xs)))
        \<and> elements (insert x (set xs)) ! i = x)
    \<and> (\<exists>i. ss_push x xs = Some ((i, if x \<in> set xs then Some x else None), elements (insert x (set xs)))
        \<and> elements (insert x (set xs)) ! i = x)
    \<and> ss_remove_item x xs = Some (if x \<in> set xs then Some x else None, elements (set xs - {x}))
    \<and> ss_extend ts xs = Some (elements (set ts \<union> set xs))
    \<and> ss_from_unsorted ts = elements (set ts) \<and> ss_from_iter ts = Some (elements (set ts))"
proof (intro conjI)
  show "ss_remove_item x xs = Some (if x \<in> set xs then Some x else None, elements (set xs - {x}))"
    using assms sv_remove_item_ok [of xs x] strict_insert(3) [OF assms] by (simp add: ss_remove_item_def strict_def)
  show "ss_from_iter ts = Some (elements (set ts))"
    using ss_extend_ok [of "[]" ts] by (simp add: ss_from_iter_def strict_def)
qed (use ss_find_or_insert_ok [OF assms] ss_replace_ok [OF assms] ss_push_ok [OF assms] ss_extend_ok [OF assms] ss_from_unsorted_ok
  in blast)+

theorem sorted_set_refines_witness:
  "ss_remove_item (5 :: nat) [2, 5, 9] = Some (Some 5, elements {2, 9})"
proof -
  have s: "strict [2, 5, 9 :: nat]" by (simp add: strict_def)
  have "ss_remove_item 5 [2, 5, 9 :: nat]
      = Some (if 5 \<in> set [2, 5, 9 :: nat] then Some 5 else None, elements (set [2, 5, 9] - {5}))"
    using sorted_set_refines [OF s, of 5 "[]"] by blast
  moreover have "set [2, 5, 9] - {5} = {2, 9 :: nat}" by auto
  ultimately show ?thesis by simp
qed

end
