(* ===== verification/Spec2Isabelle.thy ===== *)
theory Spec2Isabelle
  imports Offset_Allocator_Spec Vsock_Manager_Spec Gpu_Fence_Spec Virt_Gpu_Spec Gpu_Device_Spec Gpu_Channel_Spec Gpu_Handler_Spec
    Virt_Console_Spec Virt_Input_Spec Virt_Blk_Spec Virt_Net_Spec Pci_Transport_Spec Sorted_Vec
begin

text \<open>
  \<^bold>\<open>Verification of the virtio drivers for Windows.\<close>

  The repository is a graphics driver for the virtio GPU (\<open>src/gpu-wddm\<close>) on top of a library of virtio drivers
  (\<open>src/virtio-drivers\<close>) and a few utilities (\<open>src/util\<close>). A device driver of the library owns a transport, through
  which it reads the configuration of the device and rings its bell, and some virtqueues, rings of descriptors in
  memory that driver and device share. The graphics driver keeps its own queue of requests in front of the
  virtqueue, and an allocator of offsets for the memory the host maps into the guest.

  \<^bold>\<open>Conventions.\<close> A panic, a failed \<open>unwrap\<close>, an index out of range and a loop that does not end are the value
  \<^term>\<open>None\<close>; an \<open>Err\<close> is \<^term>\<open>Inl\<close> of the error, an \<open>Ok\<close> is \<^term>\<open>Inr\<close>. Integers are words of the width the source gives
  them and wrap around, as the build switches overflow checks off; \<open>usize\<close> is 64 bits wide, except where a value only
  counts elements of a list. State is passed explicitly. Code outside \<open>src/\<close> is a parameter: the hardware
  abstraction that allocates and shares memory is the record \<^typ>\<open>'h hal\<close>, a transport the record \<^typ>\<open>'t transport\<close>, the
  clock \<^typ>\<open>'k counter\<close>, the lock-free queues \<^typ>\<open>('q, 'a) array_queue\<close> and \<^typ>\<open>('s, 'a) seg_queue\<close>; what the code
  relies on are named predicates over them (\<open>hal_box_law\<close>, \<open>array_queue_law\<close>, \<open>seg_queue_law\<close>, \<open>laws\<close>), and every
  property with such a hypothesis has a witness at a concrete instance.

  \<^bold>\<open>Shared theories.\<close>
  \<^item> \<open>Prelude\<close>: checked reads and writes of arrays, bit scans, linked lists, arithmetic of words.
  \<^item> \<open>Byte_Codec\<close>: little-endian encodings of integers, records of fields and text as UTF-8, for the wire formats.
  \<^item> \<open>Region_Allocator\<close> and \<open>Fifo\<close>: the contracts of an allocator of disjoint regions and of a bounded byte queue, as
    locales with what clients may conclude from them. The offset allocator and the ring buffer interpret them.

  \<^bold>\<open>Offset allocator\<close> (\<open>src/util/offset-allocator\<close>). \<open>Small_Float\<close> models \<open>small_float.rs\<close> and \<open>ext.rs\<close>, \<open>Offset_Allocator\<close>
  models \<open>lib.rs\<close>: the array of nodes with its two linked structures, the list of the nodes of one bin and the list of
  neighbours, the two-level bit mask of non-empty bins and the stack of unused nodes. \<open>_Proofs\<close>, \<open>_Chain\<close>, \<open>_Alloc\<close> and
  \<open>_Free\<close> show that every operation preserves the invariant that ties these together; \<open>_Spec\<close> has the abstract state, a
  partition of the range into used and free regions, and the simulation of \<open>allocate\<close> and \<open>free\<close>. The bins are an
  order-preserving rounding of sizes (a Galois connection), hence \<open>allocate\<close> never returns a region that is too small.

  \<^bold>\<open>Virtqueue\<close> (\<open>src/virtio-drivers/src/queue.rs\<close>, \<open>hal.rs\<close>, \<open>lib.rs\<close>). \<open>Virt_Layout\<close> models the memory of a queue,
  \<open>Virt_Transport\<close> the transport interface and its provided methods, \<open>Virt_Queue\<close> the queue. The parts of the queue that
  the device sees (\<open>vq_desc\<close>, \<open>vq_avail\<close>, \<open>vq_used\<close>) may be changed by the device between any two steps, the driver only
  trusts its shadow copy. \<open>_Proofs\<close>, \<open>_Add\<close> and \<open>_Pop\<close> show that the free list and the chains of the outstanding requests
  partition the table; \<open>_Spec\<close> has the step relation of driver and device and the properties. The loop of
  \<open>add_notify_wait_pop\<close> waits for the device: the property says that it returns for every device that answers.
  \<open>Owning_Queue\<close> models \<open>queue/owning.rs\<close>, \<open>Device_Common\<close> the feature negotiation and the configuration reads.

  \<^bold>\<open>Sockets\<close> (\<open>device/socket\<close>). \<open>Vsock_Protocol\<close> models the packet format and the events, \<open>Vsock\<close> the driver with its
  credit accounting, \<open>Ring_Buffer\<close> the receive buffer of a connection, \<open>Vsock_Manager\<close> the connection manager. \<open>Vsock_Spec\<close> and
  \<open>Vsock_Manager_Spec\<close> show credit safety and that connections are unique and their buffers never overflow, over all
  sequences of calls and of packets from a well-behaved peer, and what happens with other peers.

  \<^bold>\<open>PCI\<close> (\<open>transport/pci/bus.rs\<close>, \<open>transport/pci.rs\<close>). \<open>Pci_Bus\<close> models the configuration space, its base address registers
  and capabilities and the enumeration of a bus over the record \<^typ>\<open>'c config_access\<close>; \<open>Pci_Transport\<close> models the
  constructor of the PCI transport and its operations over the accesses to mapped memory, the record \<^typ>\<open>'m mmio\<close>.
  \<open>Pci_Bus_Spec\<close> shows that every register has a word of its own, that the enumeration finds exactly the functions that
  answer, and when the iteration over capabilities ends; \<open>Pci_Bar_Spec\<close> that sizing the registers finds the regions of the
  device and restores them; \<open>Pci_Transport_Spec\<close> that the transport finds the structures of the device and that its
  operations, and the initialisation over them, are those of the device behind the window of registers.

  \<^bold>\<open>GPU device driver\<close> (\<open>device/gpu\<close>). \<open>Gpu_Protocol\<close> models the command numbers and messages, \<open>Edid\<close> the parser of monitor
  data, \<open>Virt_Gpu\<close> the driver. \<open>Virt_Gpu_Spec\<close> composes \<open>change_resolution\<close> with a device that follows the standard.

  \<^bold>\<open>Other device drivers\<close> (\<open>device/console.rs\<close>, \<open>input.rs\<close>, \<open>blk.rs\<close>, \<open>rng.rs\<close>, \<open>net\<close>). \<open>Exchange\<close> has the exchange of one
  message with a device, over which the blocking operations are stated; \<open>Virt_Console\<close>, \<open>Virt_Input\<close>, \<open>Virt_Blk\<close> (with the
  random number generator) and \<open>Virt_Net\<close> model the drivers, each with a \<open>_Spec\<close>: the bytes of the console arrive once
  and in order, events and packets are read from the buffer the device used and the buffer is lent again, and reading and
  writing blocks over a device that serves requests is reading and writing a disk.

  \<^bold>\<open>Graphics driver\<close> (\<open>src/gpu-wddm\<close>). \<open>Gpu_Fence\<close> models the engines, the fences and the in-order notification of
  completed work in \<open>queue.rs\<close>, and the allocator of ids, also with overlapping calls. \<open>Gpu_Queue\<close> models the requests, the
  channel that collects them and the queue that moves them to the device and back. \<open>Gpu_Channel\<close> models the commands of
  the channel, with the memory the host maps into the guest, \<open>Gpu_Command\<close> the commands of a DMA buffer (\<open>command.rs\<close>),
  \<open>Gpu_Device\<close> contexts and rendering (\<open>device.rs\<close>, \<open>uapi.rs\<close>) and \<open>Gpu_Handler\<close> the turns of the thread that serves the
  queues. \<open>Gpu_Fence_Spec\<close> shows that fences are reported in order, \<open>Gpu_Queue_Spec\<close> that every slot of the queue is free or
  in flight whatever the device does, \<open>Gpu_Channel_Spec\<close> that mapped ranges are disjoint, \<open>Gpu_Device_Spec\<close> that rendering
  translates a command buffer command by command, and \<open>Gpu_Handler_Spec\<close> which requests a turn of the thread sends.

  \<^bold>\<open>Sorted vectors\<close> (\<open>src/util/sorted-vec\<close>). \<open>Sorted_Vec\<close> models vectors and sets kept sorted by bisection and shows that they
  are the sorted lists and the finite sets.

  \<^bold>\<open>Fuel and loops.\<close> No definition has fuel. Loops that end are total functions with their termination proofs; the loops
  that wait for a device or follow links of a device are partial functions whose value is \<^term>\<open>None\<close> when they do not
  end, and the properties say when they end.

  \<^bold>\<open>Not modelled.\<close> Logging and \<open>Display\<close>. The adapter object, display paths and modes, and the entry points of the graphics
  driver are sequences of calls into the kernel, whose behaviour is not in the sources; the same holds of the wrappers of
  kernel functions and of the structured exceptions. The sound, clock and 9P drivers and the MMIO transport, which the
  Windows driver does not use, and the transports over hypercalls, which are inline assembly, are left out. So are
  the allocation objects of the graphics driver but for their busy marks, the copying of patch locations in rendering,
  presents and escapes of the device object, the sorted vectors for partial orders, in-place initialisation of memory, build helpers, tests and examples.
\<close>

end
